(* ===== verification/Prelude.thy ===== *)
theory Prelude
  imports Complex_Main "HOL-Library.AList"
begin

text \<open>
  Shared vocabulary of the development.

  \<^item> JavaScript strings are lists of \<^typ>\<open>char\<close>. Every string the modelled code computes with
    (ids, slugs, e-mail addresses, roles, header values, SSE lines) is ASCII there; the two
    non-ASCII display constants of the sources (an em dash and an ellipsis) are carried as their
    UTF-8 bytes. \<open>trim\<close>, \<open>toLowerCase\<close>, \<open>includes\<close>, \<open>startsWith\<close> and \<open>split\<close> are the ASCII
    behaviour of the methods of the same name.
  \<^item> A JavaScript \<open>Map\<close> is an association list in insertion order: \<open>AList.update\<close> overwrites
    in place and appends a new key at the end, exactly as \<open>Map.prototype.set\<close> does.
  \<^item> A call of the database client (supabase-js) is \<open>exec\<close> of a statement on the state. The
    client answers with an error object instead of throwing, and a lost connection can hide
    whether the statement committed, so a fault is either \<open>Refused\<close> (nothing happened) or
    \<open>Lost\<close> (the statement committed and the caller still sees an error).
\<close>

named_theorems js_defs \<open>definitions of the JavaScript library functions\<close>
named_theorems row_simps \<open>facts on table updates\<close>

section \<open>Strings\<close>

definition is_ws :: "char \<Rightarrow> bool" where
  "is_ws c \<longleftrightarrow> (let n = (of_char c :: nat) in n = 32 \<or> (9 \<le> n \<and> n \<le> 13))"

definition trim_start :: "string \<Rightarrow> string" where
  "trim_start s = dropWhile is_ws s"

definition trim :: "string \<Rightarrow> string" where
  "trim s = rev (dropWhile is_ws (rev (trim_start s)))"

definition lower_char :: "char \<Rightarrow> char" where
  "lower_char c = (let n = (of_char c :: nat) in if 65 \<le> n \<and> n \<le> 90 then char_of (n + 32) else c)"

definition toLowerCase :: "string \<Rightarrow> string" where
  "toLowerCase = map lower_char"

fun startsWith :: "string \<Rightarrow> string \<Rightarrow> bool" where
  "startsWith s [] = True"
| "startsWith [] (p # ps) = False"
| "startsWith (c # s) (p # ps) = (c = p \<and> startsWith s ps)"

fun str_includes :: "string \<Rightarrow> string \<Rightarrow> bool" where
  "str_includes [] p = (p = [])"
| "str_includes (c # s) p = (startsWith (c # s) p \<or> str_includes s p)"

fun split_on :: "char \<Rightarrow> string \<Rightarrow> string list" where
  "split_on d [] = [[]]"
| "split_on d (c # s) =
     (if c = d then [] # split_on d s
      else (case split_on d s of [] \<Rightarrow> [[c]] | w # ws \<Rightarrow> (c # w) # ws))"

fun join_with :: "string \<Rightarrow> string list \<Rightarrow> string" where
  "join_with sep [] = []"
| "join_with sep [w] = w"
| "join_with sep (w # ws) = w @ sep @ join_with sep ws"

definition is_digit :: "char \<Rightarrow> bool" where
  "is_digit c \<longleftrightarrow> (let n = (of_char c :: nat) in 48 \<le> n \<and> n \<le> 57)"

definition is_alpha :: "char \<Rightarrow> bool" where
  "is_alpha c \<longleftrightarrow> (let n = (of_char c :: nat) in (65 \<le> n \<and> n \<le> 90) \<or> (97 \<le> n \<and> n \<le> 122))"

definition hex_digit :: "nat \<Rightarrow> char" where
  "hex_digit n = ''0123456789ABCDEF'' ! n"

definition uri_unreserved :: "char \<Rightarrow> bool" where
  "uri_unreserved c \<longleftrightarrow> is_alpha c \<or> is_digit c \<or> List.member ''-_.!~*()'' c \<or> c = CHR 0x27"

definition encodeURIComponent :: "string \<Rightarrow> string" where
  "encodeURIComponent s =
     concat (map (\<lambda>c. if uri_unreserved c then [c]
                      else (let n = (of_char c :: nat) in [CHR ''%'', hex_digit (n div 16), hex_digit (n mod 16)])) s)"

definition em_dash :: string where
  "em_dash = [CHR 0xE2, CHR 0x80, CHR 0x94]"

definition ellipsis :: string where
  "ellipsis = [CHR 0xE2, CHR 0x80, CHR 0xA6]"

section \<open>Maps in insertion order\<close>

type_synonym ('k, 'v) jsmap = "('k \<times> 'v) list"

abbreviation map_get :: "('k, 'v) jsmap \<Rightarrow> 'k \<Rightarrow> 'v option" where
  "map_get m k \<equiv> map_of m k"

abbreviation map_set :: "'k \<Rightarrow> 'v \<Rightarrow> ('k, 'v) jsmap \<Rightarrow> ('k, 'v) jsmap" where
  "map_set k v m \<equiv> AList.update k v m"

section \<open>Database calls\<close>

record dberror =
  code :: "string option"
  message :: string

datatype fault = Refused dberror | Lost dberror

definition exec :: "fault option \<Rightarrow> ('s \<Rightarrow> dberror + ('a \<times> 's)) \<Rightarrow> 's \<Rightarrow> (dberror + 'a) \<times> 's" where
  "exec flt f s =
     (case flt of
        None \<Rightarrow> (case f s of Inl e \<Rightarrow> (Inl e, s) | Inr (a, s') \<Rightarrow> (Inr a, s'))
      | Some (Refused e) \<Rightarrow> (Inl e, s)
      | Some (Lost e) \<Rightarrow> (Inl e, case f s of Inl _ \<Rightarrow> s | Inr (_, s') \<Rightarrow> s'))"

definition read_db :: "fault option \<Rightarrow> ('s \<Rightarrow> 'a) \<Rightarrow> 's \<Rightarrow> dberror + 'a" where
  "read_db flt f s = (case flt of None \<Rightarrow> Inr (f s) | Some (Refused e) \<Rightarrow> Inl e | Some (Lost e) \<Rightarrow> Inl e)"

definition first_where :: "('a \<Rightarrow> bool) \<Rightarrow> 'a list \<Rightarrow> 'a option" where
  "first_where P xs = List.find P xs"

definition update_where :: "('a \<Rightarrow> bool) \<Rightarrow> ('a \<Rightarrow> 'a) \<Rightarrow> 'a list \<Rightarrow> 'a list" where
  "update_where P f xs = map (\<lambda>x. if P x then f x else x) xs"

definition unique_violation :: dberror where
  "unique_violation = \<lparr>code = Some ''23505'', message = ''duplicate key value violates unique constraint''\<rparr>"

section \<open>Lemmas on strings\<close>

lemma trim_start_idem [simp]: "trim_start (trim_start s) = trim_start s"
  by (simp add: trim_start_def)

lemma startsWith_iff: "startsWith s p \<longleftrightarrow> (\<exists>t. s = p @ t)"
  by (induction s p rule: startsWith.induct) auto

lemma startsWith_refl [simp]: "startsWith s s"
  by (simp add: startsWith_iff)

lemma includes_iff: "str_includes s p \<longleftrightarrow> (\<exists>a b. s = a @ p @ b)"
proof (induction s)
  case Nil
  then show ?case by auto
next
  case (Cons c s)
  have "(\<exists>a b. c # s = a @ p @ b) \<longleftrightarrow> (\<exists>b. c # s = p @ b) \<or> (\<exists>a b. s = a @ p @ b)"
    by (metis append_Cons append_Nil list.exhaust list.inject)
  then show ?case using Cons by (simp add: startsWith_iff)
qed

lemma split_on_nonempty [simp]: "split_on d s \<noteq> []"
  by (induction s) (auto split: list.split)

lemma split_on_absent: "d \<notin> set s \<Longrightarrow> split_on d s = [s]"
  by (induction s) auto

lemma split_on_first: "d \<notin> set a \<Longrightarrow> split_on d (a @ d # b) = a # split_on d b"
  by (induction a) auto

lemma split_on_parts: "w \<in> set (split_on d s) \<Longrightarrow> d \<notin> set w"
proof (induction s arbitrary: w)
  case (Cons c s)
  obtain v vs where v: "split_on d s = v # vs" using split_on_nonempty by (meson neq_Nil_conv)
  then have "\<And>w. w \<in> set (v # vs) \<Longrightarrow> d \<notin> set w" using Cons.IH by simp
  with v Cons.prems show ?case by (auto split: if_splits)
qed simp

lemma split_on_append:
  "split_on d (s @ t) = butlast (split_on d s) @ split_on d (last (split_on d s) @ t)"
proof (induction s)
  case (Cons c s)
  show ?case
  proof (cases "c = d")
    case True
    then show ?thesis using Cons by simp
  next
    case False
    obtain w ws where w: "split_on d s = w # ws" by (cases "split_on d s") auto
    show ?thesis
    proof (cases ws)
      case Nil
      then show ?thesis using Cons False w by simp
    next
      case (Cons v vs)
      then show ?thesis using Cons.IH False w by simp
    qed
  qed
qed simp


lemma dropWhile_hd_False: "dropWhile P xs = y # ys \<Longrightarrow> \<not> P y"
  by (induction xs) (auto split: if_splits)

lemma trim_start_hd: "trim_start s = c # t \<Longrightarrow> \<not> is_ws c"
  unfolding trim_start_def by (rule dropWhile_hd_False)

lemma rev_dropWhile_prefix: "\<exists>w. s = rev (dropWhile P (rev s)) @ w"
  by (metis rev_append rev_rev_ident takeWhile_dropWhile_id)

lemma trim_start_trim [simp]: "trim_start (trim s) = trim s"
proof (cases "trim s")
  case Nil
  then show ?thesis by (simp add: trim_start_def)
next
  case (Cons c t)
  obtain w where "trim_start s = trim s @ w"
    using rev_dropWhile_prefix [of "trim_start s" is_ws] by (auto simp: trim_def)
  with Cons have "trim_start s = c # (t @ w)" by simp
  then have "\<not> is_ws c" by (rule trim_start_hd)
  with Cons show ?thesis by (simp add: trim_start_def)
qed

lemma trim_idem [simp]: "trim (trim s) = trim s"
proof -
  have "trim (trim s) = rev (dropWhile is_ws (rev (trim s)))" by (simp add: trim_def [of "trim s"])
  also have "\<dots> = trim s" by (simp add: trim_def)
  finally show ?thesis .
qed

lemma lower_char_idem [simp]: "lower_char (lower_char c) = lower_char c"
  by (auto simp: lower_char_def Let_def)

lemma toLowerCase_idem [simp]: "toLowerCase (toLowerCase s) = toLowerCase s"
  by (simp add: toLowerCase_def)

lemma is_ws_lower_char [simp]: "is_ws (lower_char c) = is_ws c"
  by (auto simp: is_ws_def lower_char_def Let_def)

lemma trim_toLowerCase: "trim (toLowerCase s) = toLowerCase (trim s)"
proof -
  have d: "dropWhile is_ws (map lower_char xs) = map lower_char (dropWhile is_ws xs)" for xs
    by (simp add: dropWhile_map comp_def)
  show ?thesis by (simp add: trim_def trim_start_def toLowerCase_def d rev_map)
qed

section \<open>Lemmas on database calls\<close>

lemma exec_None [simp]:
  "exec None f s = (case f s of Inl e \<Rightarrow> (Inl e, s) | Inr (a, s') \<Rightarrow> (Inr a, s'))"
  by (simp add: exec_def)

lemma exec_preserves:
  assumes "P s" and "\<And>a s'. f s = Inr (a, s') \<Longrightarrow> P s'"
  shows "P (snd (exec flt f s))"
  using assms by (auto simp: exec_def split: option.splits fault.splits sum.splits prod.splits)

lemma exec_state_cases:
  "snd (exec flt f s) = s \<or> (\<exists>a. f s = Inr (a, snd (exec flt f s)))"
  by (auto simp: exec_def split: option.splits fault.splits sum.splits prod.splits)

lemma exec_InrD: "exec flt f s = (Inr a, s') \<Longrightarrow> flt = None \<and> f s = Inr (a, s')"
  by (auto simp: exec_def split: option.splits fault.splits sum.splits prod.splits)

lemma read_db_None [simp]: "read_db None f s = Inr (f s)"
  by (simp add: read_db_def)

lemma read_db_InrD: "read_db flt f s = Inr a \<Longrightarrow> flt = None \<and> a = f s"
  by (auto simp: read_db_def split: option.splits fault.splits)

section \<open>Lemmas on tables\<close>

lemma first_where_SomeD: "first_where P xs = Some x \<Longrightarrow> x \<in> set xs \<and> P x"
  by (auto simp: first_where_def find_Some_iff)

lemma first_where_None [simp]: "first_where P xs = None \<longleftrightarrow> (\<forall>x\<in>set xs. \<not> P x)"
  by (auto simp: first_where_def find_None_iff)

lemma in_set_map_filter: "y \<in> set (List.map_filter f xs) \<longleftrightarrow> (\<exists>x\<in>set xs. f x = Some y)"
  by (force simp: List.map_filter_def)

lemma length_update_where [simp, row_simps]: "length (update_where P f xs) = length xs"
  by (simp add: update_where_def)

lemma set_update_where [row_simps]:
  "set (update_where P f xs) = (\<lambda>x. if P x then f x else x) ` set xs"
  by (simp add: update_where_def)

lemma update_where_id [simp]: "(\<And>x. x \<in> set xs \<Longrightarrow> \<not> P x) \<Longrightarrow> update_where P f xs = xs"
  by (induction xs) (auto simp: update_where_def)

lemma filter_update_where:
  "(\<And>x. P x \<Longrightarrow> \<not> Q x \<and> \<not> Q (f x)) \<Longrightarrow> filter Q (update_where P f xs) = filter Q xs"
  by (induction xs) (auto simp: update_where_def)

lemma map_update_where_key [row_simps]:
  "(\<And>x. P x \<Longrightarrow> key (f x) = key x) \<Longrightarrow> map key (update_where P f xs) = map key xs"
  by (auto simp: update_where_def)

end
