(* ===== verification/Js_Number.thy ===== *)
theory Js_Number
  imports Prelude
begin

text \<open>
  JavaScript numbers: IEEE 754 double precision, as the language defines them. A finite number
  is a sign and an exact rational magnitude, so the negative zero of \<open>Math.round (-0.2)\<close> is a
  value of its own. \<open>fl\<close> is round-to-nearest-even at 53 significant bits with gradual
  underflow, and every operation rounds its exact result once, as the ECMAScript operators do.
  \<open>toFixed\<close>, \<open>toPrecision\<close>, \<open>toLocaleString("en-US")\<close> and \<open>String\<close> follow the number-to-string
  algorithms of ECMA-262 and ECMA-402.

  The theorems are the standard model of floating point arithmetic: \<open>fl\<close> is exact on
  representable numbers, monotone, and within half a unit in the last place elsewhere.
\<close>

section \<open>Digits and logarithms\<close>

function ndig :: "int \<Rightarrow> int \<Rightarrow> int" where
  "ndig b n = (if n \<le> 0 \<or> b \<le> 1 then 0 else 1 + ndig b (n div b))"
  by pat_completeness auto
termination
proof (relation "measure (\<lambda>(b, n). nat n)")
  show "wf (measure (\<lambda>(b, n). nat n))" by simp
next
  fix b n :: int
  assume h: "\<not> (n \<le> 0 \<or> b \<le> 1)"
  then have "n div b < n" by (intro int_div_less_self) auto
  with h show "((b, n div b), b, n) \<in> measure (\<lambda>(b, n). nat n)" by simp
qed

declare ndig.simps [simp del]

definition ilog :: "int \<Rightarrow> rat \<Rightarrow> int" where
  "ilog b r = (if 1 \<le> r then ndig b \<lfloor>r\<rfloor> - 1 else - ndig b (\<lceil>1 / r\<rceil> - 1))"

definition digit_char :: "int \<Rightarrow> char" where
  "digit_char d = char_of (48 + nat d)"

function dec_string :: "int \<Rightarrow> string" where
  "dec_string n = (if n < 10 then [digit_char n] else dec_string (n div 10) @ [digit_char (n mod 10)])"
  by pat_completeness auto
termination
  by (relation "measure nat") auto

declare dec_string.simps [simp del]

fun pad_digits :: "nat \<Rightarrow> int \<Rightarrow> string" where
  "pad_digits 0 n = []"
| "pad_digits (Suc k) n = pad_digits k (n div 10) @ [digit_char (n mod 10)]"

function group3 :: "int \<Rightarrow> string" where
  "group3 n = (if n < 1000 then dec_string n else group3 (n div 1000) @ '','' @ pad_digits 3 (n mod 1000))"
  by pat_completeness auto
termination
  by (relation "measure nat") auto

declare group3.simps [simp del]

section \<open>Rounding to double precision\<close>

definition round_half_even :: "rat \<Rightarrow> int" where
  "round_half_even x =
     (let f = \<lfloor>x\<rfloor>; d = x - of_int f in
      if d < 1 / 2 then f else if 1 / 2 < d then f + 1 else if even f then f else f + 1)"

definition ulp_exp :: "rat \<Rightarrow> int" where
  "ulp_exp r = max (ilog 2 r - 52) (- 1074)"

definition fl :: "rat \<Rightarrow> rat" where
  "fl r = (if r \<le> 0 then 0
           else of_int (round_half_even (r / 2 powi ulp_exp r)) * 2 powi ulp_exp r)"

definition overflow_bound :: rat where
  "overflow_bound = 2 ^ 1024 - 2 ^ 970"

section \<open>Numbers and their operations\<close>

datatype jsnum = Nan | Infty bool | Fin bool rat

definition num_round :: "bool \<Rightarrow> rat \<Rightarrow> jsnum" where
  "num_round s r = (if overflow_bound \<le> r then Infty s else Fin s (fl r))"

definition js_lit :: "rat \<Rightarrow> jsnum" where
  "js_lit r = (if r < 0 then num_round True (- r) else num_round False r)"

fun jsval :: "jsnum \<Rightarrow> rat" where
  "jsval (Fin s m) = (if s then - m else m)"
| "jsval _ = 0"

fun js_is_finite :: "jsnum \<Rightarrow> bool" where
  "js_is_finite (Fin s m) = True"
| "js_is_finite _ = False"

fun js_is_integer :: "jsnum \<Rightarrow> bool" where
  "js_is_integer (Fin s m) = (of_int \<lfloor>m\<rfloor> = m)"
| "js_is_integer _ = False"

fun js_neg :: "jsnum \<Rightarrow> jsnum" where
  "js_neg Nan = Nan"
| "js_neg (Infty s) = Infty (\<not> s)"
| "js_neg (Fin s m) = Fin (\<not> s) m"

fun js_abs :: "jsnum \<Rightarrow> jsnum" where
  "js_abs Nan = Nan"
| "js_abs (Infty s) = Infty False"
| "js_abs (Fin s m) = Fin False m"

fun js_mult :: "jsnum \<Rightarrow> jsnum \<Rightarrow> jsnum" where
  "js_mult (Fin s m) (Fin t n) = num_round (s \<noteq> t) (m * n)"
| "js_mult (Infty s) (Fin t n) = (if n = 0 then Nan else Infty (s \<noteq> t))"
| "js_mult (Fin s m) (Infty t) = (if m = 0 then Nan else Infty (s \<noteq> t))"
| "js_mult (Infty s) (Infty t) = Infty (s \<noteq> t)"
| "js_mult _ _ = Nan"

fun js_div :: "jsnum \<Rightarrow> jsnum \<Rightarrow> jsnum" where
  "js_div (Fin s m) (Fin t n) =
     (if n = 0 then (if m = 0 then Nan else Infty (s \<noteq> t)) else num_round (s \<noteq> t) (m / n))"
| "js_div (Infty s) (Fin t n) = Infty (s \<noteq> t)"
| "js_div (Fin s m) (Infty t) = Fin (s \<noteq> t) 0"
| "js_div _ _ = Nan"

fun js_add :: "jsnum \<Rightarrow> jsnum \<Rightarrow> jsnum" where
  "js_add (Fin s m) (Fin t n) =
     (let v = jsval (Fin s m) + jsval (Fin t n) in if v = 0 then Fin (s \<and> t) 0 else js_lit v)"
| "js_add (Infty s) (Fin t n) = Infty s"
| "js_add (Fin s m) (Infty t) = Infty t"
| "js_add (Infty s) (Infty t) = (if s = t then Infty s else Nan)"
| "js_add _ _ = Nan"

definition js_sub :: "jsnum \<Rightarrow> jsnum \<Rightarrow> jsnum" where
  "js_sub a b = js_add a (js_neg b)"

fun js_lt :: "jsnum \<Rightarrow> jsnum \<Rightarrow> bool" where
  "js_lt (Fin s m) (Fin t n) = (jsval (Fin s m) < jsval (Fin t n))"
| "js_lt (Infty s) (Fin t n) = s"
| "js_lt (Fin s m) (Infty t) = (\<not> t)"
| "js_lt (Infty s) (Infty t) = (s \<and> \<not> t)"
| "js_lt _ _ = False"

fun js_eq :: "jsnum \<Rightarrow> jsnum \<Rightarrow> bool" where
  "js_eq (Fin s m) (Fin t n) = (jsval (Fin s m) = jsval (Fin t n))"
| "js_eq (Infty s) (Infty t) = (s = t)"
| "js_eq _ _ = False"

definition js_le :: "jsnum \<Rightarrow> jsnum \<Rightarrow> bool" where
  "js_le a b = (js_lt a b \<or> js_eq a b)"

fun js_round :: "jsnum \<Rightarrow> jsnum" where
  "js_round (Fin False m) = Fin False (of_int \<lfloor>m + 1 / 2\<rfloor>)"
| "js_round (Fin True m) = Fin True (of_int \<lceil>m - 1 / 2\<rceil>)"
| "js_round x = x"

definition js_min :: "jsnum \<Rightarrow> jsnum \<Rightarrow> jsnum" where
  "js_min a b = (if a = Nan \<or> b = Nan then Nan else if js_lt b a \<or> (b = Fin True 0 \<and> js_eq a b) then b else a)"

definition js_max :: "jsnum \<Rightarrow> jsnum \<Rightarrow> jsnum" where
  "js_max a b = (if a = Nan \<or> b = Nan then Nan else if js_lt a b \<or> (b = Fin False 0 \<and> js_eq a b) then b else a)"

section \<open>Numbers as text\<close>

definition scaled_round :: "nat \<Rightarrow> rat \<Rightarrow> int" where
  "scaled_round k m = \<lfloor>m * 10 ^ k + 1 / 2\<rfloor>"

definition fixed_digits :: "(int \<Rightarrow> string) \<Rightarrow> nat \<Rightarrow> rat \<Rightarrow> string" where
  "fixed_digits int_part k m =
     (let n = scaled_round k m in
      int_part (n div 10 ^ k) @ (if k = 0 then '''' else ''.'' @ pad_digits k (n mod 10 ^ k)))"

text \<open>
  The digits of \<open>String(m)\<close>: as few as possible, and among those the closest to \<open>m\<close>. With \<open>k\<close> digits
  only the two neighbours of \<open>m\<close> on the grid can read back as \<open>m\<close>; 17 digits always suffice.
\<close>

definition digit_candidates :: "rat \<Rightarrow> (int \<times> int) list" where
  "digit_candidates m =
     (let n = ilog 10 m + 1 in
      concat (map (\<lambda>k. let y = m / 10 powi (n - k); near = \<lfloor>y + 1 / 2\<rfloor>;
                           other = (if of_int near \<le> y then near + 1 else near - 1)
                       in [(near, n - k), (other, n - k)]) [1..17]))"

definition shortest_digits :: "rat \<Rightarrow> (int \<times> int) option" where
  "shortest_digits m =
     map_option (\<lambda>(d, e). if d = 10 then (1, e + 1) else (d, e))
       (List.find (\<lambda>(d, e). fl (of_int d * 10 powi e) = m) (digit_candidates m))"

definition number_layout :: "int \<Rightarrow> int \<Rightarrow> string" where
  "number_layout d e =
     (let ds = dec_string d; k = int (length ds); n = k + e in
      if 0 \<le> e \<and> n \<le> 21 then ds @ replicate (nat e) (CHR ''0'')
      else if 0 < n \<and> n \<le> 21 then take (nat n) ds @ ''.'' @ drop (nat n) ds
      else if - 6 < n \<and> n \<le> 0 then ''0.'' @ replicate (nat (- n)) (CHR ''0'') @ ds
      else take 1 ds @ (if k = 1 then '''' else ''.'' @ drop 1 ds) @ ''e''
           @ (if 0 < n then ''+'' @ dec_string (n - 1) else ''-'' @ dec_string (1 - n)))"

definition shortest_string :: "rat \<Rightarrow> string" where
  "shortest_string m =
     (if m = 0 then ''0''
      else (case shortest_digits m of None \<Rightarrow> ''NaN'' | Some (d, e) \<Rightarrow> number_layout d e))"

fun js_String :: "jsnum \<Rightarrow> string" where
  "js_String Nan = ''NaN''"
| "js_String (Infty s) = (if s then ''-Infinity'' else ''Infinity'')"
| "js_String (Fin s m) = (if s \<and> 0 < m then ''-'' else '''') @ shortest_string m"

fun toFixed :: "nat \<Rightarrow> jsnum \<Rightarrow> string" where
  "toFixed k (Fin s m) =
     (if 10 ^ 21 \<le> m then js_String (Fin s m)
      else (if s \<and> 0 < m then ''-'' else '''') @ fixed_digits dec_string k m)"
| "toFixed k x = js_String x"

fun toLocaleFixed :: "nat \<Rightarrow> jsnum \<Rightarrow> string" where
  "toLocaleFixed k (Fin s m) = (if s then ''-'' else '''') @ fixed_digits group3 k m"
| "toLocaleFixed k (Infty s) = (if s then ''-'' else '''') @ [CHR 0xE2, CHR 0x88, CHR 0x9E]"
| "toLocaleFixed k Nan = ''NaN''"

definition precision_value :: "nat \<Rightarrow> rat \<Rightarrow> rat" where
  "precision_value p m =
     (if m = 0 then 0
      else let g = 10 powi (ilog 10 m - int p + 1) in of_int \<lfloor>m / g + 1 / 2\<rfloor> * g)"

fun js_snap :: "nat \<Rightarrow> jsnum \<Rightarrow> jsnum" where
  "js_snap p (Fin s m) = num_round (s \<and> 0 < m) (precision_value p m)"
| "js_snap p x = x"

section \<open>Digit counts and logarithms\<close>

lemma ndig_bounds:
  assumes "0 < n" and "1 < b"
  shows "1 \<le> ndig b n \<and> b ^ nat (ndig b n - 1) \<le> n \<and> n < b ^ nat (ndig b n)"
  using assms
proof (induction b n rule: ndig.induct)
  case (1 b n)
  have unf: "ndig b n = 1 + ndig b (n div b)" using "1.prems" by (simp add: ndig.simps [of b n])
  show ?case
  proof (cases "n < b")
    case True
    then have "n div b = 0" using "1.prems" by simp
    then have "ndig b n = 1" by (simp add: unf ndig.simps [of b 0])
    then show ?thesis using True "1.prems" by simp
  next
    case False
    let ?m = "n div b" and ?k = "ndig b (n div b)"
    have m: "0 < ?m" using False "1.prems" by (simp add: pos_imp_zdiv_pos_iff)
    have IH: "1 \<le> ?k \<and> b ^ nat (?k - 1) \<le> ?m \<and> ?m < b ^ nat ?k"
      using "1.IH" "1.prems" m by auto
    have dm: "n = b * ?m + n mod b" "0 \<le> n mod b" "n mod b < b" using "1.prems" by simp_all
    have k: "nat ?k = Suc (nat (?k - 1))" "nat (1 + ?k) = Suc (nat ?k)" using IH by linarith+
    have "b ^ nat ?k = b * b ^ nat (?k - 1)" by (simp add: k(1))
    also have "\<dots> \<le> b * ?m" using IH "1.prems" by (intro mult_left_mono) auto
    also have "\<dots> \<le> n" using dm by linarith
    finally have lo: "b ^ nat ?k \<le> n" .
    have "?m + 1 \<le> b ^ nat ?k" using IH by simp
    then have "b * (?m + 1) \<le> b * b ^ nat ?k" using "1.prems" by (intro mult_left_mono) auto
    moreover have "n < b * ?m + b" using dm by linarith
    then have "n < b * (?m + 1)" by (simp add: distrib_left)
    ultimately have "n < b ^ nat (1 + ?k)" by (simp add: k(2))
    with lo IH show ?thesis by (simp add: unf)
  qed
qed

lemma powi_nat_ge: "0 \<le> e \<Longrightarrow> (x :: rat) powi e = x ^ nat e"
  by (simp add: power_int_def)

lemma powi_inverse_less: "0 < (r :: rat) \<Longrightarrow> 0 < b \<Longrightarrow> b powi k < 1 / r \<Longrightarrow> r < b powi (- k)"
  by (simp add: power_int_minus field_simps)

lemma ilog_bounds:
  assumes "0 < r" and "1 < b"
  shows "of_int b powi (ilog b r) \<le> r \<and> r < of_int b powi (ilog b r + 1)"
proof (cases "1 \<le> r")
  case True
  let ?n = "\<lfloor>r\<rfloor>"
  have n: "0 < ?n" using True by (simp add: less_le_trans)
  note nb = ndig_bounds [OF n assms(2)]
  have il: "ilog b r = ndig b ?n - 1" using True by (simp add: ilog_def)
  have "(of_int (b ^ nat (ndig b ?n - 1)) :: rat) \<le> of_int ?n" using nb by (simp only: of_int_le_iff)
  then have "of_int (b ^ nat (ndig b ?n - 1)) \<le> r" using of_int_floor_le [of r] by linarith
  then have lo: "of_int b powi (ilog b r) \<le> r" using nb by (simp add: il powi_nat_ge)
  have "?n + 1 \<le> b ^ nat (ndig b ?n)" using nb by linarith
  then have "(of_int (?n + 1) :: rat) \<le> of_int (b ^ nat (ndig b ?n))" by (simp only: of_int_le_iff)
  moreover have "r < of_int (?n + 1)" by linarith
  ultimately show ?thesis using lo nb by (simp add: il powi_nat_ge)
next
  case False
  let ?n = "\<lceil>1 / r\<rceil> - 1"
  have inv: "1 < 1 / r" using False assms(1) by (simp add: field_simps)
  then have n: "0 < ?n" by linarith
  note nb = ndig_bounds [OF n assms(2)]
  let ?k = "ndig b ?n"
  have il: "ilog b r = - ?k" using False by (simp add: ilog_def)
  have bpos: "(0 :: rat) < of_int b" using assms(2) by simp
  have "1 / r \<le> of_int (?n + 1)" by linarith
  also have "\<dots> \<le> of_int (b ^ nat ?k)" using nb by (simp only: of_int_le_iff) linarith
  finally have "1 / r \<le> of_int b powi ?k" using nb by (simp add: powi_nat_ge)
  then have lo: "of_int b powi (- ?k) \<le> r"
    using assms(1) bpos by (simp add: power_int_minus field_simps)
  have "(of_int (b ^ nat (?k - 1)) :: rat) \<le> of_int ?n" using nb by (simp only: of_int_le_iff)
  also have "\<dots> < 1 / r" by linarith
  finally have "of_int b powi (?k - 1) < 1 / r" using nb by (simp add: powi_nat_ge)
  then have "r < of_int b powi (- (?k - 1))" by (rule powi_inverse_less [OF assms(1) bpos])
  with lo show ?thesis by (simp add: il)
qed

section \<open>The rounding function\<close>

lemma round_half_even_error: "\<bar>of_int (round_half_even x) - x\<bar> \<le> 1 / 2"
proof -
  have "0 \<le> x - of_int \<lfloor>x\<rfloor>" "x - of_int \<lfloor>x\<rfloor> < 1" by linarith+
  then show ?thesis by (auto simp: round_half_even_def Let_def abs_le_iff)
qed

lemma round_half_even_of_int [simp]: "round_half_even (of_int n) = n"
  by (simp add: round_half_even_def)

lemma round_half_even_mono: "x \<le> y \<Longrightarrow> round_half_even x \<le> round_half_even y"
proof (cases "\<lfloor>x\<rfloor> = \<lfloor>y\<rfloor>")
  case True
  assume "x \<le> y"
  with True show ?thesis by (auto simp: round_half_even_def Let_def)
next
  case False
  assume "x \<le> y"
  then have "\<lfloor>x\<rfloor> + 1 \<le> \<lfloor>y\<rfloor>" using False floor_mono [of x y] by linarith
  then show ?thesis by (auto simp: round_half_even_def Let_def)
qed

lemma powi_mono2: "e \<le> f \<Longrightarrow> (2 :: rat) powi e \<le> 2 powi f"
  by (rule power_int_increasing) auto

lemma powi_pos2 [simp]: "0 < (2 :: rat) powi e"
  by (simp add: zero_less_power_int)

lemma powi_add2: "(2 :: rat) powi (a + b) = 2 powi a * 2 powi b"
  by (simp add: power_int_add)

lemma fl_zero [simp]: "fl 0 = 0"
  by (simp add: fl_def)

lemma ulp_exp_ge: "- 1074 \<le> ulp_exp r"
  by (simp add: ulp_exp_def)

lemma ulp_exp_upper: "0 < r \<Longrightarrow> r < 2 powi (ulp_exp r + 53)"
proof -
  assume "0 < r"
  then have "r < 2 powi (ilog 2 r + 1)" using ilog_bounds [of r 2] by simp
  also have "\<dots> \<le> 2 powi (ulp_exp r + 53)" by (intro powi_mono2) (simp add: ulp_exp_def)
  finally show ?thesis .
qed

lemma ulp_exp_lower: "0 < r \<Longrightarrow> - 1074 < ulp_exp r \<Longrightarrow> 2 powi (ulp_exp r + 52) \<le> r"
proof -
  assume r: "0 < r" and e: "- 1074 < ulp_exp r"
  then have "ulp_exp r + 52 = ilog 2 r" by (auto simp: ulp_exp_def max_def split: if_splits)
  then show ?thesis using ilog_bounds [of r 2] r by simp
qed

lemma ilog2_mono: "0 < r \<Longrightarrow> r \<le> s \<Longrightarrow> ilog 2 r \<le> ilog 2 s"
proof (rule ccontr)
  assume r: "0 < r" and rs: "r \<le> s" and "\<not> ilog 2 r \<le> ilog 2 s"
  then have "(2 :: rat) powi (ilog 2 s + 1) \<le> 2 powi (ilog 2 r)" by (intro powi_mono2) simp
  moreover have "2 powi (ilog 2 r) \<le> r" "s < 2 powi (ilog 2 s + 1)"
    using ilog_bounds [of r 2] ilog_bounds [of s 2] r rs by simp_all
  ultimately show False using rs by linarith
qed

lemma fl_error_ulp: "0 < r \<Longrightarrow> \<bar>fl r - r\<bar> \<le> 2 powi ulp_exp r / 2"
proof -
  assume r: "0 < r"
  let ?u = "(2 :: rat) powi ulp_exp r" and ?x = "r / 2 powi ulp_exp r"
  have "fl r - r = (of_int (round_half_even ?x) - ?x) * ?u"
    using r by (simp add: fl_def field_simps)
  then have "\<bar>fl r - r\<bar> = \<bar>of_int (round_half_even ?x) - ?x\<bar> * ?u"
    by (simp add: abs_mult)
  also have "\<dots> \<le> 1 / 2 * ?u" by (intro mult_right_mono round_half_even_error) simp
  finally show ?thesis by simp
qed

lemma fl_error:
  assumes "2 powi (- 1022) \<le> r"
  shows "\<bar>fl r - r\<bar> \<le> r / 2 ^ 53"
proof -
  have r: "0 < r" using assms powi_pos2 [of "- 1022"] by linarith
  have "- 1022 \<le> ilog 2 r"
  proof (rule ccontr)
    assume "\<not> - 1022 \<le> ilog 2 r"
    then have "(2 :: rat) powi (ilog 2 r + 1) \<le> 2 powi (- 1022)" by (intro powi_mono2) simp
    then show False using ilog_bounds [of r 2] r assms by simp
  qed
  then have e: "ulp_exp r = ilog 2 r - 52" by (simp add: ulp_exp_def)
  have "(2 :: rat) powi ulp_exp r = 2 powi ilog 2 r / 2 ^ 52"
    by (simp add: e power_int_diff)
  also have "\<dots> \<le> r / 2 ^ 52" using ilog_bounds [of r 2] r by (simp add: field_simps)
  finally show ?thesis using fl_error_ulp [OF r] by simp
qed

lemma fl_le:
  assumes "0 < r" and "round_half_even (r / 2 powi ulp_exp r) \<le> n"
  shows "fl r \<le> of_int n * 2 powi ulp_exp r"
proof -
  have "(of_int (round_half_even (r / 2 powi ulp_exp r)) :: rat) \<le> of_int n"
    using assms(2) by (simp only: of_int_le_iff)
  then show ?thesis using assms(1) by (simp add: fl_def mult_right_mono)
qed

lemma fl_ge:
  assumes "0 < r" and "n \<le> round_half_even (r / 2 powi ulp_exp r)"
  shows "of_int n * 2 powi ulp_exp r \<le> fl r"
proof -
  have "(of_int n :: rat) \<le> of_int (round_half_even (r / 2 powi ulp_exp r))"
    using assms(2) by (simp only: of_int_le_iff)
  then show ?thesis using assms(1) by (simp add: fl_def mult_right_mono)
qed

lemma fl_mono: "r \<le> s \<Longrightarrow> fl r \<le> fl s"
proof (cases "0 < r")
  case False
  then have "fl r = 0" by (simp add: fl_def)
  moreover have "0 \<le> fl s"
  proof (cases "0 < s")
    case True
    then have "round_half_even 0 \<le> round_half_even (s / 2 powi ulp_exp s)"
      by (intro round_half_even_mono) simp
    then show ?thesis using True round_half_even_of_int [of 0] by (simp add: fl_def)
  qed (simp add: fl_def)
  ultimately show ?thesis by simp
next
  case True
  assume rs: "r \<le> s"
  then have s: "0 < s" using True by simp
  have le: "ulp_exp r \<le> ulp_exp s" using ilog2_mono [OF True rs] by (simp add: ulp_exp_def)
  show ?thesis
  proof (cases "ulp_exp r = ulp_exp s")
    case eq: True
    have "round_half_even (r / 2 powi ulp_exp r) \<le> round_half_even (s / 2 powi ulp_exp s)"
      using rs by (intro round_half_even_mono) (simp add: eq divide_right_mono)
    then show ?thesis using True s by (simp add: fl_def eq)
  next
    case False
    then have lt: "ulp_exp r < ulp_exp s" using le by simp
    have "r / 2 powi ulp_exp r \<le> of_int (2 ^ 53)"
      using ulp_exp_upper [OF True] by (simp add: powi_add2 field_simps)
    then have "round_half_even (r / 2 powi ulp_exp r) \<le> 2 ^ 53"
      using round_half_even_mono round_half_even_of_int by metis
    then have "fl r \<le> 2 ^ 53 * 2 powi ulp_exp r" using fl_le [OF True] by fastforce
    also have "\<dots> = 2 ^ 52 * 2 powi (ulp_exp r + 1)" by (simp add: powi_add2)
    also have "\<dots> \<le> 2 ^ 52 * 2 powi ulp_exp s" using lt by (intro mult_left_mono powi_mono2) auto
    also have "\<dots> \<le> fl s"
    proof -
      have "- 1074 < ulp_exp s" using lt ulp_exp_ge [of r] by simp
      then have "of_int (2 ^ 52) \<le> s / 2 powi ulp_exp s"
        using ulp_exp_lower [OF s] by (simp add: powi_add2 field_simps)
      then have "2 ^ 52 \<le> round_half_even (s / 2 powi ulp_exp s)"
        using round_half_even_mono round_half_even_of_int by metis
      then show ?thesis using fl_ge [OF s] by fastforce
    qed
    finally show ?thesis .
  qed
qed

lemma fl_representable:
  assumes "0 \<le> n" and "n < 2 ^ 53" and "- 1074 \<le> k"
  shows "fl (of_int n * 2 powi k) = of_int n * 2 powi k"
proof (cases "n = 0")
  case False
  let ?r = "of_int n * 2 powi k :: rat"
  have r: "0 < ?r" using False assms(1) by simp
  have "ulp_exp ?r \<le> k"
  proof (rule ccontr)
    assume a: "\<not> ulp_exp ?r \<le> k"
    then have "2 powi (ulp_exp ?r + 52) \<le> ?r" using ulp_exp_lower [OF r] assms(3) by simp
    moreover have "(2 :: rat) powi (k + 53) \<le> 2 powi (ulp_exp ?r + 52)"
      using a by (intro powi_mono2) simp
    moreover have "?r < 2 powi (k + 53)"
    proof -
      have "(of_int n :: rat) < of_int (2 ^ 53)" using assms(2) by (simp only: of_int_less_iff)
      then show ?thesis by (simp add: powi_add2 mult.commute)
    qed
    ultimately show False by linarith
  qed
  then obtain j where j: "k = ulp_exp ?r + int j" by (metis zle_iff_zadd)
  have "?r / 2 powi ulp_exp ?r = of_int n * (2 powi k / 2 powi ulp_exp ?r)" by simp
  also have "(2 :: rat) powi k / 2 powi ulp_exp ?r = 2 ^ j" by (subst j) (simp add: powi_add2)
  finally have "?r / 2 powi ulp_exp ?r = of_int (n * 2 ^ j)" by simp
  then have "round_half_even (?r / 2 powi ulp_exp ?r) = n * 2 ^ j" by (simp only: round_half_even_of_int)
  then have "fl ?r = of_int (n * 2 ^ j) * 2 powi ulp_exp ?r" using r by (simp add: fl_def)
  also have "\<dots> = of_int n * (2 ^ j * 2 powi ulp_exp ?r)" by simp
  also have "2 ^ j * 2 powi ulp_exp ?r = (2 :: rat) powi (ulp_exp ?r + int j)" by (simp add: powi_add2)
  finally show ?thesis by (simp only: j [symmetric])
qed simp

lemma fl_of_int: "0 \<le> n \<Longrightarrow> n < 2 ^ 53 \<Longrightarrow> fl (of_int n) = of_int n"
  using fl_representable [of n 0] by simp

lemma fl_nonneg [simp]: "0 \<le> fl r"
  using fl_mono [of 0 r] by (cases "r \<le> 0") (auto simp: fl_def)

section \<open>Values near a decimal\<close>

text \<open>
  One rounding keeps a positive number of ordinary size within a relative error of
  \<open>2^-53\<close>; the lemmas below turn that into facts on rounding back to a decimal grid.
\<close>

definition js_int :: "int \<Rightarrow> jsnum" where
  "js_int n = Fin (n < 0) (of_int \<bar>n\<bar>)"

definition ordinary :: "rat \<Rightarrow> bool" where
  "ordinary r \<longleftrightarrow> 1 / 10 ^ 9 \<le> r \<and> r \<le> 10 ^ 30"

lemma fl_error_ordinary: "ordinary r \<Longrightarrow> \<bar>fl r - r\<bar> \<le> r / 2 ^ 53"
proof -
  assume "ordinary r"
  then have "1 / 10 ^ 9 \<le> r" by (simp add: ordinary_def)
  moreover have "(2 :: rat) powi (- 1022) \<le> 1 / 10 ^ 9" by (simp add: power_int_def field_simps)
  ultimately show ?thesis by (intro fl_error) linarith
qed

lemma overflow_big: "r \<le> 10 ^ 30 \<Longrightarrow> \<not> overflow_bound \<le> r"
proof -
  have "(10 :: rat) ^ 30 < overflow_bound" by (simp add: overflow_bound_def)
  then show "r \<le> 10 ^ 30 \<Longrightarrow> \<not> overflow_bound \<le> r" by linarith
qed

lemma overflow_bound_code [code]: "overflow_bound =
  179769313486231580793728971405303415079934132710037826936173778980444968292764750946649017977587207096330286416692887910946555547851940402630657488671505820681908902000708383676273854845817711531764475730270069855571366959622842914819860834936475292719074168444365510704342711559699508093042880177904174497792"
  by (simp add: overflow_bound_def)

lemma num_round_ordinary: "r \<le> 10 ^ 30 \<Longrightarrow> num_round s r = Fin s (fl r)"
  by (simp add: num_round_def overflow_big)

lemma js_lit_ordinary: "0 \<le> r \<Longrightarrow> r \<le> 10 ^ 30 \<Longrightarrow> js_lit r = Fin False (fl r)"
  by (simp add: js_lit_def num_round_ordinary)

lemma floor_nearest: "\<bar>x - of_int n\<bar> < 1 / 2 \<Longrightarrow> \<lfloor>x + 1 / 2\<rfloor> = (n :: int)" for x :: rat
  by (intro floor_unique) linarith+

lemma floor_half_pos: "1 / 2 \<le> x \<Longrightarrow> 1 \<le> \<lfloor>x + 1 / 2\<rfloor>" for x :: rat
  by (simp add: le_floor_iff)

lemma scaled_round_mono: "x \<le> y \<Longrightarrow> scaled_round k x \<le> scaled_round k y"
  by (auto simp: scaled_round_def intro!: floor_mono mult_right_mono)

lemma scaled_round_nonneg [simp]: "0 \<le> m \<Longrightarrow> 0 \<le> scaled_round k m"
  by (simp add: scaled_round_def)

lemma scaled_round_near:
  assumes "\<bar>m - of_int n / 10 ^ k\<bar> * 10 ^ k < 1 / 2"
  shows "scaled_round k m = n"
proof -
  have "\<bar>m * 10 ^ k - of_int n\<bar> = \<bar>(m - of_int n / 10 ^ k) * 10 ^ k\<bar>" by (simp add: left_diff_distrib)
  also have "\<dots> < 1 / 2" using assms by (simp add: abs_mult)
  finally show ?thesis unfolding scaled_round_def by (rule floor_nearest)
qed

lemma rel_error_compose:
  fixes a b t :: rat
  assumes "0 \<le> t" and "\<bar>a - t\<bar> \<le> t / 2 ^ 53" and "\<bar>b - a\<bar> \<le> a / 2 ^ 53"
  shows "\<bar>b - t\<bar> \<le> t / 2 ^ 51"
proof -
  have small: "t / 2 ^ 53 \<le> t" using assms(1) by simp
  then have "a \<le> 2 * t" using assms(2) by linarith
  then have "a / 2 ^ 53 \<le> 2 * t / 2 ^ 53" by (intro divide_right_mono) auto
  then have "\<bar>b - t\<bar> \<le> 3 * (t / 2 ^ 53)" using assms(2,3) by linarith
  then show ?thesis using assms(1) by simp
qed

lemma precision_value_near:
  fixes t y :: rat and z :: int
  assumes t: "0 < t" and near: "\<bar>y - t\<bar> \<le> t / 2 ^ 51"
    and grid: "t / 10 powi (ilog 10 y - 11) = of_int z"
  shows "precision_value 12 y = t"
proof -
  have "t / 2 ^ 51 \<le> t / 2" using t by simp
  then have y: "t / 2 \<le> y" using near by linarith
  then have y0: "0 < y" using t by linarith
  let ?g = "(10 :: rat) powi (ilog 10 y - 11)"
  have g: "0 < ?g" by (simp add: zero_less_power_int)
  have "y < 10 powi (ilog 10 y + 1)" using ilog_bounds [OF y0, of 10] by simp
  also have "\<dots> = ?g * 10 ^ 12" using power_int_add [of "10 :: rat" "ilog 10 y - 11" 12] by (simp add: add.commute)
  finally have "t < 2 * (?g * 10 ^ 12)" using y by linarith
  then have "t / ?g < 2 * 10 ^ 12" using g by (simp add: field_simps)
  moreover have "\<bar>y / ?g - of_int z\<bar> \<le> t / ?g / 2 ^ 51"
  proof -
    have "\<bar>y / ?g - of_int z\<bar> = \<bar>y - t\<bar> / ?g" using g by (simp flip: grid add: diff_divide_distrib [symmetric])
    also have "\<dots> \<le> t / 2 ^ 51 / ?g" using near g by (intro divide_right_mono) auto
    finally show ?thesis by (simp add: field_simps)
  qed
  ultimately have "\<bar>y / ?g - of_int z\<bar> < 1 / 2" by simp
  then have "\<lfloor>y / ?g + 1 / 2\<rfloor> = z" by (rule floor_nearest)
  then show ?thesis using y0 g by (simp add: precision_value_def Let_def flip: grid)
qed

end
