(* ===== verification/Money.thy ===== *)
theory Money
  imports Js_Number
begin

text \<open>
  The money module \<open>apps/web/lib/money.ts\<close>: every dollar formatter, on double precision
  numbers. A missing figure (\<open>null\<close> or \<open>undefined\<close>) is \<^const>\<open>None\<close>.

  Shown: whole cents print exactly, half cents round up in spite of the binary representation,
  and no formatter prints a positive amount as a free one.
\<close>

section \<open>The formatters\<close>

definition formatCostUsd :: "jsnum option \<Rightarrow> string" where
  "formatCostUsd v =
     (case v of
        None \<Rightarrow> em_dash
      | Some x \<Rightarrow>
          let cents = js_round (js_snap 12 (js_mult x (js_int 100))) in
          if js_eq cents (js_int 0) \<and> js_lt (js_int 0) x then ''<$0.01''
          else ''$'' @ toLocaleFixed 2 (js_div cents (js_int 100)))"

definition formatSignedCostUsd :: "jsnum option \<Rightarrow> string" where
  "formatSignedCostUsd v =
     (case v of
        None \<Rightarrow> em_dash
      | Some x \<Rightarrow>
          let magnitude = formatCostUsd (Some (js_abs x)) in
          if js_lt x (js_int 0) then ''-'' @ magnitude else magnitude)"

definition formatGrantUsd :: "jsnum \<Rightarrow> string" where
  "formatGrantUsd x =
     (if js_is_integer x then ''$'' @ toLocaleFixed 0 x else formatCostUsd (Some x))"

definition strip_zeros :: "string \<Rightarrow> string" where
  "strip_zeros s = rev (dropWhile (\<lambda>c. c = CHR ''0'') (rev s))"

definition strip_dot :: "string \<Rightarrow> string" where
  "strip_dot s = (if s \<noteq> [] \<and> last s = CHR ''.'' then butlast s else s)"

definition formatRequestCostUsd :: "jsnum option \<Rightarrow> string" where
  "formatRequestCostUsd v =
     (case v of
        None \<Rightarrow> em_dash
      | Some x \<Rightarrow>
          if \<not> js_is_finite x \<or> js_lt x (js_int 0) then em_dash
          else if js_eq x (js_int 0) then ''$0.00''
          else if js_lt x (js_lit (1 / 100)) then
            (let t = strip_dot (strip_zeros (toFixed 6 x)) in
             if t = ''0'' then ''<$0.000001'' else ''$'' @ t)
          else ''$'' @ toFixed (if js_lt x (js_int 1) then 3 else 2) x)"

definition SPEND_NOT_REPORTED :: string where
  "SPEND_NOT_REPORTED = ''not reported''"

definition formatRunSpendUsd :: "jsnum option \<Rightarrow> string" where
  "formatRunSpendUsd v =
     (case v of
        None \<Rightarrow> SPEND_NOT_REPORTED
      | Some x \<Rightarrow>
          if \<not> js_is_finite x then SPEND_NOT_REPORTED
          else if js_eq x (js_int 0) then ''$0.00''
          else if js_lt (js_abs x) (js_lit (1 / 100)) then
            (if js_lt x (js_int 0) then ''-<$0.01'' else ''<$0.01'')
          else ''$'' @ toFixed (if js_lt (js_abs x) (js_int 100) then 2 else 0) x)"

definition formatRunSpendDelta :: "jsnum \<Rightarrow> string" where
  "formatRunSpendDelta x =
     (if js_lt x (js_int 0) then ''-'' else ''+'') @ formatRunSpendUsd (Some (js_abs x))"

definition formatPerCallUsd :: "jsnum option \<Rightarrow> string" where
  "formatPerCallUsd v =
     (case v of
        None \<Rightarrow> ''unpriced''
      | Some x \<Rightarrow>
          if js_le (js_lit (1 / 100)) x then formatCostUsd (Some x)
          else if js_lt (js_int 0) x \<and> js_lt x (js_lit (5 / 100000)) then ''<$0.0001''
          else ''$'' @ toFixed 4 x)"

definition formatPerMillionUsd :: "jsnum option \<Rightarrow> string" where
  "formatPerMillionUsd v =
     (case v of
        None \<Rightarrow> em_dash
      | Some x \<Rightarrow>
          if \<not> js_is_finite x \<or> js_lt x (js_int 0) then em_dash
          else let usd = js_div x (js_int 1000000) in
            if js_eq usd (js_int 0) then ''$0''
            else if js_lt usd (js_lit (5 / 10000)) then ''<$0.001''
            else if js_is_integer usd then ''$'' @ toLocaleFixed 0 usd
            else ''$'' @ toFixed (if js_le (js_lit (1 / 10)) usd then 2 else 3) usd)"

definition dollarFormatter :: "jsnum list \<Rightarrow> jsnum \<Rightarrow> string" where
  "dollarFormatter vs =
     (let smallest = foldl js_min (Infty False) (map js_abs vs);
          cents = js_lt smallest (js_int 100)
      in (\<lambda>x. ''$'' @ toLocaleFixed (if cents then 2 else 0) x))"

section \<open>Reading printed digits back\<close>

definition digit_val :: "char \<Rightarrow> int" where
  "digit_val c = int (of_char c) - 48"

definition num_value_from :: "int \<Rightarrow> string \<Rightarrow> int" where
  "num_value_from = foldl (\<lambda>a c. if is_digit c then 10 * a + digit_val c else a)"

abbreviation num_value :: "string \<Rightarrow> int" where
  "num_value s \<equiv> num_value_from 0 s"

lemma num_value_append [simp]: "num_value_from a (s @ t) = num_value_from (num_value_from a s) t"
  by (simp add: num_value_from_def)

lemma num_value_digit:
  "0 \<le> d \<Longrightarrow> d < 10 \<Longrightarrow> num_value_from a [digit_char d] = 10 * a + d"
  by (auto simp: num_value_from_def is_digit_def digit_char_def digit_val_def Let_def)

lemma num_value_Nil [simp]: "num_value_from a [] = a"
  by (simp add: num_value_from_def)

lemma num_value_dec_string: "0 \<le> n \<Longrightarrow> num_value (dec_string n) = n"
proof (induction n rule: dec_string.induct)
  case (1 n)
  show ?case
  proof (cases "n < 10")
    case True
    then show ?thesis using "1.prems" by (simp add: dec_string.simps [of n] num_value_digit)
  next
    case False
    then have "num_value (dec_string (n div 10)) = n div 10" using "1.IH" "1.prems" by simp
    then show ?thesis using False by (simp add: dec_string.simps [of n] num_value_digit)
  qed
qed

lemma num_value_pad_digits:
  "num_value_from a (pad_digits k n) = a * 10 ^ k + n mod 10 ^ k"
proof (induction k arbitrary: n)
  case 0
  then show ?case by simp
next
  case (Suc k)
  have "10 * (n div 10 mod 10 ^ k) + n mod 10 = n mod 10 ^ Suc k"
    using zmod_zmult2_eq [of "10 ^ k" n 10] by simp
  then show ?case by (simp add: num_value_digit Suc)
qed

lemma num_value_other: "\<not> is_digit c \<Longrightarrow> num_value_from a (c # s) = num_value_from a s"
  by (simp add: num_value_from_def)

lemma not_digit_punct [simp]: "\<not> is_digit CHR '',''" "\<not> is_digit CHR ''.''" "\<not> is_digit CHR ''$''"
  by (simp_all add: is_digit_def)

lemma num_value_group3: "0 \<le> n \<Longrightarrow> num_value (group3 n) = n"
proof (induction n rule: group3.induct)
  case (1 n)
  show ?case
  proof (cases "n < 1000")
    case True
    then show ?thesis using "1.prems" by (simp add: group3.simps [of n] num_value_dec_string)
  next
    case False
    then have "num_value (group3 (n div 1000)) = n div 1000" using "1.IH" "1.prems" by simp
    then show ?thesis using False
      by (simp add: group3.simps [of n] num_value_other num_value_pad_digits del: pad_digits.simps)
  qed
qed

lemma num_value_fixed_digits:
  assumes "0 \<le> m" and "\<And>n. 0 \<le> n \<Longrightarrow> num_value (f n) = n"
  shows "num_value (fixed_digits f k m) = scaled_round k m"
proof -
  have "num_value (f (scaled_round k m div 10 ^ k)) = scaled_round k m div 10 ^ k"
    using assms by (simp add: pos_imp_zdiv_nonneg_iff)
  then show ?thesis
    using div_mult_mod_eq [of "scaled_round k m" "10 ^ k"]
    by (auto simp: fixed_digits_def Let_def num_value_other num_value_pad_digits)
qed

section \<open>Whole cents and half cents\<close>

text \<open>
  Throughout, \<open>of_int c / 100\<close> is the decimal amount of \<open>c\<close> cents and \<open>fl\<close> of it the double a
  program holds for it.
\<close>

lemma fl_near_decimal:
  assumes "0 < t" and "1 / 1000 \<le> t" and "t \<le> 10 ^ 15"
  shows "\<bar>fl t - t\<bar> \<le> t / 2 ^ 53"
  using assms by (intro fl_error_ordinary) (simp add: ordinary_def)

lemma fl_times_100:
  assumes "1 / 1000 \<le> t" and "t \<le> 10 ^ 10"
  shows "\<bar>fl (fl t * 100) - t * 100\<bar> \<le> t * 100 / 2 ^ 51"
proof -
  have a: "\<bar>fl t - t\<bar> \<le> t / 2 ^ 53" using assms by (intro fl_near_decimal) auto
  have small: "t / 2 ^ 53 \<le> t / 2" using assms(1) by simp
  have lo: "t / 2 \<le> fl t" and hi: "fl t \<le> 2 * t" using a small by linarith+
  have b: "\<bar>fl (fl t * 100) - fl t * 100\<bar> \<le> fl t * 100 / 2 ^ 53"
    using assms lo hi by (intro fl_near_decimal) auto
  have "fl t * 100 - t * 100 = (fl t - t) * 100" by (simp only: left_diff_distrib)
  then have "\<bar>fl t * 100 - t * 100\<bar> = \<bar>fl t - t\<bar> * 100" by (simp only: abs_mult abs_numeral)
  then have "\<bar>fl t * 100 - t * 100\<bar> \<le> t / 2 ^ 53 * 100" using a by simp
  then have c: "\<bar>fl t * 100 - t * 100\<bar> \<le> t * 100 / 2 ^ 53" by simp
  show ?thesis using assms(1) by (intro rel_error_compose [OF _ c b]) auto
qed

lemma scaled_round_cents:
  assumes "0 \<le> c" and "c \<le> 10 ^ 12"
  shows "scaled_round 2 (fl (of_int c / 100)) = c"
proof (cases "c = 0")
  case False
  let ?t = "of_int c / 100 :: rat"
  have c: "(1 :: rat) \<le> of_int c" "of_int c \<le> (10 ^ 12 :: rat)"
    using assms False by auto
  have "\<bar>fl ?t - ?t\<bar> \<le> ?t / 2 ^ 53" using c by (intro fl_near_decimal) auto
  moreover have "?t / 2 ^ 53 < 1 / 1000" using c by simp
  ultimately have "\<bar>fl ?t - ?t\<bar> < 1 / 1000" by linarith
  then show ?thesis by (intro scaled_round_near) simp
qed (simp add: scaled_round_def floor_unique)

lemma ilog10_less:
  assumes "0 < y" and "y < 10 powi e"
  shows "ilog 10 y < e"
proof (rule ccontr)
  assume "\<not> ilog 10 y < e"
  then have "(10 :: rat) powi e \<le> 10 powi ilog 10 y" by (intro power_int_increasing) auto
  then show False using ilog_bounds [OF assms(1), of 10] assms(2) by simp
qed

lemma grid_multiple:
  "e \<le> 11 \<Longrightarrow> t / 10 powi (e - 11) = t * 10 ^ nat (11 - e)" for t :: rat
proof -
  assume e: "e \<le> 11"
  have "(10 :: rat) powi (e - 11) = inverse (10 powi (11 - e))"
    using power_int_minus [of "10 :: rat" "11 - e"] by simp
  also have "(10 :: rat) powi (11 - e) = 10 ^ nat (11 - e)" using e by (simp add: powi_nat_ge)
  finally show ?thesis by (simp add: field_simps)
qed

lemma snapped_cents:
  assumes "1 / 1000 \<le> t" and "t \<le> 10 ^ 8" and "t * 100 * 10 = of_int z"
  shows "precision_value 12 (fl (fl t * 100)) = t * 100"
proof -
  let ?y = "fl (fl t * 100)"
  have near: "\<bar>?y - t * 100\<bar> \<le> t * 100 / 2 ^ 51" using assms by (intro fl_times_100) auto
  have "t * 100 / 2 ^ 51 \<le> t * 100 / 2" using assms(1) by simp
  then have y: "0 < ?y" "?y \<le> 2 * (t * 100)" using near assms(1) by linarith+
  then have "?y < 10 powi 12" using assms(2) by simp
  then have "ilog 10 ?y < 12" by (intro ilog10_less y)
  then have e: "ilog 10 ?y \<le> 11" by simp
  show ?thesis
  proof (cases "ilog 10 ?y = 11")
    case True
    have "10 powi 11 \<le> ?y" using ilog_bounds [OF y(1), of 10] by (simp add: True)
    then have "10 ^ 11 \<le> 2 * (t * 100)" using y(2) by simp
    with assms(2) have False by simp
    then show ?thesis ..
  next
    case False
    then obtain n where n: "nat (11 - ilog 10 ?y) = Suc n" using e by (cases "nat (11 - ilog 10 ?y)") auto
    have "t * 100 / 10 powi (ilog 10 ?y - 11) = (t * 100 * 10) * 10 ^ n"
      using e by (simp add: grid_multiple n)
    also have "\<dots> = of_int (z * 10 ^ n)" by (simp add: assms(3))
    finally have "t * 100 / 10 powi (ilog 10 ?y - 11) = of_int (z * 10 ^ n)" .
    moreover have "0 < t * 100" using assms(1) by simp
    ultimately show ?thesis using near by (intro precision_value_near)
  qed
qed

lemma cents_of_double:
  assumes "1 / 1000 \<le> t" and "t \<le> 10 ^ 8" and "t * 100 * 10 = of_int z"
  shows "js_round (js_snap 12 (js_mult (Fin False (fl t)) (js_int 100))) =
         Fin False (of_int \<lfloor>fl (t * 100) + 1 / 2\<rfloor>)"
proof -
  have t: "0 < t" using assms(1) by linarith
  have "\<bar>fl t - t\<bar> \<le> t / 2 ^ 53" using t assms by (intro fl_near_decimal) auto
  moreover have "t / 2 ^ 53 \<le> t" using t by simp
  ultimately have le: "fl t \<le> 2 * t" by linarith
  have "js_mult (Fin False (fl t)) (js_int 100) = Fin False (fl (fl t * 100))"
    using le assms(2) by (simp add: js_int_def num_round_ordinary)
  moreover have "js_snap 12 (Fin False (fl (fl t * 100))) = Fin False (fl (t * 100))"
    using snapped_cents [OF assms] assms(2) by (simp add: num_round_ordinary)
  ultimately show ?thesis by simp
qed

lemma fixed_digits_cents:
  "0 \<le> c \<Longrightarrow> c \<le> 10 ^ 12 \<Longrightarrow>
   fixed_digits group3 2 (fl (of_int c / 100)) = group3 (c div 100) @ ''.'' @ pad_digits 2 (c mod 100)"
  by (simp add: fixed_digits_def Let_def scaled_round_cents del: pad_digits.simps)

definition dollars_cents :: "int \<Rightarrow> string" where
  "dollars_cents c = ''$'' @ group3 (c div 100) @ ''.'' @ pad_digits 2 (c mod 100)"

lemma formatCostUsd_cents_core:
  assumes "1 / 1000 \<le> t" and "t \<le> 10 ^ 8" and "t * 100 * 10 = of_int z"
    and c: "\<lfloor>fl (t * 100) + 1 / 2\<rfloor> = c" and "0 < c" and "c \<le> 10 ^ 12"
  shows "formatCostUsd (Some (Fin False (fl t))) = dollars_cents c"
proof -
  have "(of_int c :: rat) \<le> 10 ^ 12" using assms(6) by simp
  then have "js_div (Fin False (of_int c)) (js_int 100) = Fin False (fl (of_int c / 100))"
    by (simp add: js_int_def num_round_ordinary)
  moreover have "\<not> js_eq (Fin False (of_int c)) (js_int 0)" using assms(5) by (simp add: js_int_def)
  ultimately show ?thesis
    using cents_of_double [OF assms(1-3)] assms(5,6)
    by (simp add: formatCostUsd_def c fixed_digits_cents dollars_cents_def del: pad_digits.simps)
qed

lemma fl_half_int: "0 \<le> z \<Longrightarrow> z < 2 ^ 53 \<Longrightarrow> fl (of_int z / 2) = of_int z / 2"
  using fl_representable [of z "- 1"] by (simp add: power_int_minus)

text \<open>
  A whole number of cents up to 100 million dollars prints exactly: the dollars grouped in
  thousands and the two cent digits, although the number held is the double nearest to the
  decimal amount and is scaled by 100 in floating point on the way.
\<close>

theorem formatCostUsd_whole_cents:
  assumes "0 < c" and "c \<le> 10 ^ 10"
  shows "formatCostUsd (Some (js_lit (of_int c / 100))) = dollars_cents c"
proof -
  have c: "(1 :: rat) \<le> of_int c" "of_int c \<le> (10 ^ 10 :: rat)" using assms by auto
  have "fl (of_int c / 100 * 100) = of_int c" using assms by (simp add: fl_of_int)
  moreover have "\<lfloor>of_int c + 1 / 2 :: rat\<rfloor> = c" by (intro floor_nearest) simp
  ultimately show ?thesis
    using c assms by (simp add: js_lit_ordinary formatCostUsd_cents_core [where z = "c * 10"])
qed

theorem formatCostUsd_whole_cents_witness:
  "formatCostUsd (Some (js_lit (of_int 138513 / 100))) = ''$1,385.13''"
proof -
  have "dollars_cents 138513 = ''$1,385.13''" by code_simp
  then show ?thesis using formatCostUsd_whole_cents [of 138513] by simp
qed

text \<open>
  An exact half cent rounds up. The double nearest to it may lie below it (0.015 does), and
  rounding that double directly would show a cent too little; the snap to twelve significant
  digits restores the decimal first.
\<close>

theorem formatCostUsd_half_cent:
  assumes "0 \<le> k" and "k \<le> 10 ^ 9"
  shows "formatCostUsd (Some (js_lit (of_int (2 * k + 1) / 200))) = dollars_cents (k + 1)"
proof -
  let ?t = "of_int (2 * k + 1) / 200 :: rat"
  have k: "(0 :: rat) \<le> of_int k" "of_int k \<le> (10 ^ 9 :: rat)" using assms by auto
  have "fl (of_int (2 * k + 1) / 2) = of_int (2 * k + 1) / 2" using assms by (intro fl_half_int) auto
  moreover have "?t * 100 = of_int (2 * k + 1) / 2" by simp
  ultimately have "fl (?t * 100) + 1 / 2 = of_int (k + 1)" by (simp only:) (simp add: field_simps)
  then have "\<lfloor>fl (?t * 100) + 1 / 2\<rfloor> = k + 1" by (simp only: floor_of_int)
  then have "formatCostUsd (Some (Fin False (fl ?t))) = dollars_cents (k + 1)"
    using k assms by (intro formatCostUsd_cents_core [where z = "5 * (2 * k + 1)"]) auto
  then show ?thesis using k by (simp add: js_lit_ordinary)
qed

theorem formatCostUsd_half_cent_witness:
  "formatCostUsd (Some (js_lit (of_int (2 * 1 + 1) / 200))) = ''$0.02'' \<and> fl (3 / 200) < 3 / 200"
proof -
  have "dollars_cents (1 + 1) = ''$0.02''" by code_simp
  moreover have "fl (3 / 200) < 3 / 200" by code_simp
  ultimately show ?thesis using formatCostUsd_half_cent [of 1] by simp
qed

section \<open>A priced amount never reads as free\<close>

definition reads_as_free :: "string \<Rightarrow> bool" where
  "reads_as_free s \<longleftrightarrow> s \<in> {''$0'', ''$0.00'', ''$0.000'', ''$0.0000''}"

lemma reads_as_free_value: "reads_as_free s \<Longrightarrow> num_value s = 0"
  by (auto simp: reads_as_free_def num_value_from_def is_digit_def digit_val_def)

lemma not_free_digits:
  assumes "0 \<le> m" and "1 \<le> scaled_round k m" and "\<And>n. 0 \<le> n \<Longrightarrow> num_value (f n) = n"
  shows "\<not> reads_as_free (''$'' @ fixed_digits f k m)"
proof
  assume "reads_as_free (''$'' @ fixed_digits f k m)"
  then have "num_value (''$'' @ fixed_digits f k m) = 0" by (rule reads_as_free_value)
  then have "scaled_round k m = 0"
    using num_value_fixed_digits [of m f, OF assms(1,3)] by (simp add: num_value_other)
  with assms(2) show False by simp
qed

lemmas not_free_fixed = not_free_digits [where f = dec_string, OF _ _ num_value_dec_string]
lemmas not_free_locale = not_free_digits [where f = group3, OF _ _ num_value_group3]

lemma not_free_prefix: "hd s \<noteq> CHR ''$'' \<Longrightarrow> \<not> reads_as_free s"
  by (auto simp: reads_as_free_def)

lemma formatCostUsd_not_free:
  assumes "0 < m"
  shows "\<not> reads_as_free (formatCostUsd (Some (Fin False m)))"
proof -
  let ?cents = "js_round (js_snap 12 (js_mult (Fin False m) (js_int 100)))"
  have "(\<exists>n. 0 \<le> n \<and> ?cents = Fin False (of_int n)) \<or> ?cents = Infty False"
  proof -
    have "\<exists>r. 0 \<le> r \<and> js_mult (Fin False m) (js_int 100) \<in> {Fin False r, Infty False}"
      using assms by (auto simp: js_int_def num_round_def)
    then obtain r where r: "0 \<le> r" "js_mult (Fin False m) (js_int 100) \<in> {Fin False r, Infty False}"
      by blast
    then show ?thesis by (auto simp: num_round_def le_floor_iff intro!: exI [of _ "\<lfloor>fl _ + 1 / 2\<rfloor>"])
  qed
  then show ?thesis
  proof
    assume "\<exists>n. 0 \<le> n \<and> ?cents = Fin False (of_int n)"
    then obtain n where n: "0 \<le> n" "?cents = Fin False (of_int n)" by blast
    show ?thesis
    proof (cases "n = 0")
      case True
      then show ?thesis using n assms
        by (simp add: formatCostUsd_def js_int_def not_free_prefix)
    next
      case False
      then have "(1 :: rat) \<le> of_int n" using n(1) by simp
      then have "fl (of_int 1 / 100) \<le> fl (of_int n / 100)" by (intro fl_mono) simp
      then have "1 \<le> scaled_round 2 (fl (of_int n / 100))"
        using scaled_round_mono [of "fl (of_int 1 / 100)" _ 2] scaled_round_cents [of 1] by simp
      then have "\<not> reads_as_free (''$'' @ fixed_digits group3 2 (fl (of_int n / 100)))"
        by (intro not_free_locale) auto
      then have "\<not> reads_as_free (''$'' @ toLocaleFixed 2 (num_round False (of_int n / 100)))"
        by (simp add: num_round_def reads_as_free_def)
      moreover have "js_div (Fin False (of_int n)) (js_int 100) = num_round False (of_int n / 100)"
        by (simp add: js_int_def)
      moreover have "\<not> js_eq ?cents (js_int 0)" using n False by (simp add: js_int_def)
      ultimately show ?thesis using n(2) by (simp add: formatCostUsd_def)
    qed
  next
    assume "?cents = Infty False"
    then show ?thesis using assms
      by (simp add: formatCostUsd_def js_int_def reads_as_free_def)
  qed
qed

lemma toFixed_not_free:
  assumes "0 < m" and "m < 10 ^ 21" and "1 \<le> scaled_round k m"
  shows "\<not> reads_as_free (''$'' @ toFixed k (Fin False m))"
  using not_free_fixed [of m k] assms by simp

lemma scaled_round_ge:
  assumes "q \<le> m" and "1 / 2 \<le> q * 10 ^ k"
  shows "1 \<le> scaled_round k m"
proof -
  have "1 \<le> scaled_round k q" using floor_half_pos [OF assms(2)] by (simp add: scaled_round_def)
  also have "\<dots> \<le> scaled_round k m" by (rule scaled_round_mono [OF assms(1)])
  finally show ?thesis .
qed

lemma fl_thresholds:
  "1 / 200 \<le> fl (1 / 100)" "5 / 100000 \<le> fl (5 / 100000)" "5 / 10000 \<le> fl (5 / 10000)"
  "1 / 20 \<le> fl (1 / 10)"
  by code_simp+

lemma js_lt_lit: "0 \<le> q \<Longrightarrow> q \<le> 10 ^ 30 \<Longrightarrow> js_lt (Fin False m) (js_lit q) = (m < fl q)"
  by (simp add: js_lit_ordinary)

lemma js_le_lit: "0 \<le> q \<Longrightarrow> q \<le> 10 ^ 30 \<Longrightarrow> js_le (js_lit q) (Fin False m) = (fl q \<le> m)"
  by (auto simp: js_lit_ordinary js_le_def)

lemma strip_zeros_value:
  assumes "num_value (strip_zeros s) = 0"
  shows "num_value s = 0"
proof -
  let ?z = "takeWhile (\<lambda>c. c = CHR ''0'') (rev s)"
  have "s = strip_zeros s @ rev ?z" by (metis strip_zeros_def rev_append rev_rev_ident takeWhile_dropWhile_id)
  moreover have "num_value_from 0 t = 0" if "\<forall>c\<in>set t. c = CHR ''0''" for t
    using that by (induction t) (auto simp: num_value_from_def is_digit_def digit_val_def)
  moreover have "\<forall>c\<in>set (rev ?z). c = CHR ''0''" by (auto dest: set_takeWhileD)
  ultimately show ?thesis using assms by (metis num_value_append)
qed

lemma strip_dot_value: "num_value (strip_dot s) = num_value s"
  by (cases s rule: rev_cases) (auto simp: strip_dot_def num_value_other)

lemma stripped_not_free:
  assumes "num_value s \<noteq> 0"
  shows "\<not> reads_as_free (''$'' @ strip_dot (strip_zeros s))"
proof
  assume "reads_as_free (''$'' @ strip_dot (strip_zeros s))"
  then have "num_value (''$'' @ strip_dot (strip_zeros s)) = 0" by (rule reads_as_free_value)
  then have "num_value (strip_zeros s) = 0" by (simp add: num_value_other strip_dot_value)
  then have "num_value s = 0" by (rule strip_zeros_value)
  with assms show False ..
qed

lemma fixed_zero: "scaled_round 6 m = 0 \<Longrightarrow> strip_dot (strip_zeros (fixed_digits dec_string 6 m)) = ''0''"
proof -
  assume "scaled_round 6 m = 0"
  moreover have "dec_string 0 = ''0''" "pad_digits 6 0 = ''000000''" by code_simp+
  ultimately have "fixed_digits dec_string 6 m = ''0.000000''" by (simp add: fixed_digits_def)
  then show ?thesis by (simp add: strip_zeros_def strip_dot_def)
qed

lemma formatRequestCostUsd_not_free:
  assumes "0 < m" and "m < 10 ^ 21"
  shows "\<not> reads_as_free (formatRequestCostUsd (Some (Fin False m)))"
proof (cases "m < fl (1 / 100)")
  case True
  let ?t = "strip_dot (strip_zeros (fixed_digits dec_string 6 m))"
  have f: "formatRequestCostUsd (Some (Fin False m)) = (if ?t = ''0'' then ''<$0.000001'' else ''$'' @ ?t)"
    using assms True by (simp add: formatRequestCostUsd_def js_lt_lit js_int_def Let_def)
  show ?thesis
  proof (cases "scaled_round 6 m = 0")
    case True
    then show ?thesis by (simp add: f fixed_zero reads_as_free_def)
  next
    case False
    then have "num_value (fixed_digits dec_string 6 m) \<noteq> 0"
      using assms by (simp add: num_value_fixed_digits num_value_dec_string)
    then show ?thesis using stripped_not_free not_free_prefix [of "''<$0.000001''"] by (simp add: f)
  qed
next
  case False
  then have q: "1 / 200 \<le> m" using fl_thresholds(1) by linarith
  then have "1 \<le> scaled_round 2 m" "1 \<le> scaled_round 3 m" by (rule scaled_round_ge, simp)+
  then show ?thesis
    using toFixed_not_free [of m 2] toFixed_not_free [of m 3] assms False
    by (simp add: formatRequestCostUsd_def js_lt_lit js_int_def del: toFixed.simps)
qed

lemma formatRunSpendUsd_not_free:
  assumes "0 < m" and "m < 10 ^ 21"
  shows "\<not> reads_as_free (formatRunSpendUsd (Some (Fin False m)))"
proof (cases "m < fl (1 / 100)")
  case True
  then show ?thesis
    using assms by (simp add: formatRunSpendUsd_def js_lt_lit js_int_def not_free_prefix)
next
  case False
  then have q: "1 / 200 \<le> m" using fl_thresholds(1) by linarith
  then have "1 \<le> scaled_round 2 m" by (rule scaled_round_ge) simp
  moreover have "1 \<le> scaled_round 0 m" if "\<not> m < 100" using that by (intro scaled_round_ge [of 100]) auto
  ultimately show ?thesis
    using toFixed_not_free [of m 2] toFixed_not_free [of m 0] assms False
    by (simp add: formatRunSpendUsd_def js_lt_lit js_int_def del: toFixed.simps)
qed

lemma formatPerCallUsd_not_free:
  assumes "0 < m" and "m < 10 ^ 21"
  shows "\<not> reads_as_free (formatPerCallUsd (Some (Fin False m)))"
proof (cases "fl (1 / 100) \<le> m")
  case True
  then show ?thesis using formatCostUsd_not_free [OF assms(1)] by (simp add: formatPerCallUsd_def js_le_lit)
next
  case big: False
  show ?thesis
  proof (cases "m < fl (5 / 100000)")
    case True
    then show ?thesis using assms big
      by (simp add: formatPerCallUsd_def js_le_lit js_lt_lit js_int_def not_free_prefix)
  next
    case False
    then have "5 / 100000 \<le> m" using fl_thresholds(2) by linarith
    then have "1 \<le> scaled_round 4 m" by (rule scaled_round_ge) simp
    then show ?thesis using assms big False toFixed_not_free [of m 4]
      by (simp add: formatPerCallUsd_def js_le_lit js_lt_lit js_int_def del: toFixed.simps)
  qed
qed

lemma formatPerMillionUsd_not_free:
  assumes "1 \<le> m" and "m < 10 ^ 21"
  shows "\<not> reads_as_free (formatPerMillionUsd (Some (Fin False m)))"
proof -
  let ?u = "fl (m / 1000000)"
  have "num_round False (m / 1000000) = Fin False ?u"
    using assms by (intro num_round_ordinary) simp
  then have eqn: "formatPerMillionUsd (Some (Fin False m)) =
      (if ?u = 0 then ''$0'' else if ?u < fl (5 / 10000) then ''<$0.001''
       else if of_int \<lfloor>?u\<rfloor> = ?u then ''$'' @ fixed_digits group3 0 ?u
       else ''$'' @ toFixed (if fl (1 / 10) \<le> ?u then 2 else 3) (Fin False ?u))"
    using assms by (simp add: formatPerMillionUsd_def js_int_def js_lt_lit js_le_lit del: toFixed.simps)
  have "fl (1 / 1000000) \<le> ?u" using assms by (intro fl_mono) simp
  moreover have "0 < fl (1 / 1000000)" by code_simp
  ultimately have pos: "0 < ?u" by linarith
  have "?u \<le> fl (of_int (10 ^ 15))" using assms by (intro fl_mono) simp
  then have hi: "?u < 10 ^ 21" using fl_of_int [of "10 ^ 15"] by simp
  show ?thesis
  proof (cases "?u < fl (5 / 10000)")
    case True
    then show ?thesis using pos by (simp add: eqn not_free_prefix)
  next
    case False
    then have "5 / 10000 \<le> ?u" using fl_thresholds(3) by linarith
    then have r3: "1 \<le> scaled_round 3 ?u" by (rule scaled_round_ge) simp
    have r2: "1 \<le> scaled_round 2 ?u" if "fl (1 / 10) \<le> ?u"
      using that fl_thresholds(4) by (intro scaled_round_ge [of "1 / 20"]) auto
    have r0: "1 \<le> scaled_round 0 ?u" if "of_int \<lfloor>?u\<rfloor> = ?u"
    proof -
      have "0 < \<lfloor>?u\<rfloor>" using that pos by (metis of_int_0_less_iff)
      then have "1 \<le> ?u" by linarith
      then show ?thesis by (intro scaled_round_ge [of 1]) auto
    qed
    show ?thesis
    proof (cases "of_int \<lfloor>?u\<rfloor> = ?u")
      case True
      then show ?thesis using not_free_locale [of ?u 0] r0 pos False by (simp add: eqn)
    next
      case nint: False
      have "\<not> reads_as_free (''$'' @ toFixed (if fl (1 / 10) \<le> ?u then 2 else 3) (Fin False ?u))"
        using pos hi r2 r3 by (intro toFixed_not_free) auto
      then show ?thesis using pos False nint by (simp add: eqn del: toFixed.simps)
    qed
  qed
qed

text \<open>
  No display formatter shows a positive amount as a free one: a figure below display
  precision says so instead of rounding to zero. The catalog price is a whole number of
  micro-dollars per million tokens, hence at least one.
\<close>

theorem priced_never_reads_as_free:
  assumes "0 < m" and "m < 10 ^ 21"
  shows "\<not> reads_as_free (formatCostUsd (Some (Fin False m)))
    \<and> \<not> reads_as_free (formatRequestCostUsd (Some (Fin False m)))
    \<and> \<not> reads_as_free (formatRunSpendUsd (Some (Fin False m)))
    \<and> \<not> reads_as_free (formatPerCallUsd (Some (Fin False m)))
    \<and> (1 \<le> m \<longrightarrow> \<not> reads_as_free (formatPerMillionUsd (Some (Fin False m))))"
  using assms formatCostUsd_not_free formatRequestCostUsd_not_free formatRunSpendUsd_not_free
    formatPerCallUsd_not_free formatPerMillionUsd_not_free by blast

theorem priced_never_reads_as_free_witness:
  "\<not> reads_as_free (formatCostUsd (Some (Fin False (1 / 1024))))
   \<and> \<not> reads_as_free (formatPerMillionUsd (Some (Fin False 1)))
   \<and> reads_as_free (formatCostUsd (Some (Fin False 0)))"
proof -
  have "formatCostUsd (Some (Fin False 0)) = ''$0.00''" by code_simp
  then have "reads_as_free (formatCostUsd (Some (Fin False 0)))" by (simp add: reads_as_free_def)
  then show ?thesis
    using priced_never_reads_as_free [of "1 / 1024"] priced_never_reads_as_free [of 1] by simp
qed

end
