(* ===== verification/Http.thy ===== *)
theory Http
  imports Money
begin

text \<open>
  JSON values, thrown errors and HTTP responses: \<open>lib/errors.ts\<close>, \<open>lib/http.ts\<close> and the
  request parameter parsers of the routes. A route handler returns a \<open>resp\<close>; an exception is
  the left summand of \<open>app_error + 'a\<close> and \<open>jsonError\<close> turns it into a response, as the
  \<open>catch\<close> of every handler does.
\<close>

section \<open>JSON\<close>

datatype json =
    JNull
  | JBool bool
  | JNum jsnum
  | JStr string
  | JArr "json list"
  | JObj "(string \<times> json) list"

fun jget :: "string \<Rightarrow> json \<Rightarrow> json option" where
  "jget k (JObj kvs) = map_of kvs k"
| "jget k _ = None"

fun jstr :: "json option \<Rightarrow> string option" where
  "jstr (Some (JStr s)) = Some s"
| "jstr _ = None"

fun is_jobject :: "json \<Rightarrow> bool" where
  "is_jobject (JObj kvs) = True"
| "is_jobject _ = False"

definition jopt :: "('a \<Rightarrow> json) \<Rightarrow> 'a option \<Rightarrow> json" where
  "jopt f x = (case x of None \<Rightarrow> JNull | Some a \<Rightarrow> f a)"

section \<open>Errors and responses\<close>

datatype app_error =
    AuthRequired
  | SsoStepUpRequired (sso_org_id: string) (sso_org_slug: string)
  | DataSourceNotFound (nf_message: string)
  | DataSourceRequest (rq_message: string) (rq_status: int) (rq_code: "string option") (rq_action: "string option")
  | PlainError (plain_message: string)
  | NotAnError

record resp =
  status :: int
  body :: "json option"

definition json_resp :: "json \<Rightarrow> int \<Rightarrow> resp" where
  "json_resp b st = \<lparr>status = st, body = Some b\<rparr>"

definition error_resp :: "string \<Rightarrow> int \<Rightarrow> resp" where
  "error_resp msg st = json_resp (JObj [(''error'', JStr msg)]) st"

definition jsonOk :: "json \<Rightarrow> resp" where
  "jsonOk payload = json_resp payload 200"

definition empty_resp :: "int \<Rightarrow> resp" where
  "empty_resp st = \<lparr>status = st, body = None\<rparr>"

fun jsonError :: "app_error \<Rightarrow> resp" where
  "jsonError AuthRequired = error_resp ''Authentication required.'' 401"
| "jsonError (SsoStepUpRequired oid slug) =
     json_resp (JObj [(''error'', JStr ''sso_required''), (''org'', JStr slug)]) 403"
| "jsonError (DataSourceNotFound msg) = error_resp msg 404"
| "jsonError (DataSourceRequest msg st c a) =
     json_resp (JObj ([(''error'', JStr msg)]
       @ (case c of None \<Rightarrow> [] | Some x \<Rightarrow> [(''code'', JStr x)])
       @ (case a of None \<Rightarrow> [] | Some x \<Rightarrow> [(''action'', JStr x)]))) st"
| "jsonError (PlainError msg) = error_resp msg 500"
| "jsonError NotAnError = error_resp ''Unexpected error'' 500"

definition try_resp :: "app_error + resp \<Rightarrow> resp" where
  "try_resp r = (case r of Inl e \<Rightarrow> jsonError e | Inr x \<Rightarrow> x)"

section \<open>Parameters\<close>

definition pickParam :: "string option \<Rightarrow> string list \<Rightarrow> string \<Rightarrow> string option" where
  "pickParam v allowed fallback =
     (case v of None \<Rightarrow> Some fallback | Some s \<Rightarrow> if s \<in> set allowed then Some s else None)"

definition parseInt10 :: "string \<Rightarrow> jsnum" where
  "parseInt10 s =
     (let t = trim_start s;
          neg = (t \<noteq> [] \<and> hd t = CHR ''-'');
          u = (if t \<noteq> [] \<and> (hd t = CHR ''-'' \<or> hd t = CHR ''+'') then tl t else t);
          ds = takeWhile is_digit u
      in if ds = [] then Nan else num_round neg (of_int (num_value ds)))"

definition parseLimitParam :: "string option \<Rightarrow> int \<Rightarrow> jsnum option" where
  "parseLimitParam v cap =
     (let limit = (case v of None \<Rightarrow> js_int cap | Some s \<Rightarrow> parseInt10 s) in
      if js_is_finite limit \<and> js_le (js_int 1) limit \<and> js_le limit (js_int cap)
      then Some limit else None)"

definition requireField :: "string option \<Rightarrow> string \<Rightarrow> app_error + string" where
  "requireField v field =
     (case v of
        None \<Rightarrow> Inl (DataSourceRequest (field @ '' is required.'') 400 None None)
      | Some s \<Rightarrow> if s = '''' then Inl (DataSourceRequest (field @ '' is required.'') 400 None None) else Inr s)"

section \<open>Properties\<close>

text \<open>
  A row limit that passes is a finite number between 1 and the cap; an absent one is the cap.
\<close>

theorem parseLimitParam_bounds:
  assumes "parseLimitParam v cap = Some n" and "1 \<le> cap"
  shows "1 \<le> jsval n \<and> jsval n \<le> of_int cap \<and> (v = None \<longrightarrow> n = js_int cap)"
proof -
  have n: "js_is_finite n" "js_le (js_int 1) n" "js_le n (js_int cap)" "v = None \<longrightarrow> n = js_int cap"
    using assms(1) by (auto simp: parseLimitParam_def Let_def split: if_splits option.splits)
  from n(1) obtain s m where [simp]: "n = Fin s m" by (cases n) auto
  show ?thesis using n(2-4) assms(2) by (auto simp: js_le_def js_int_def)
qed

theorem parseLimitParam_bounds_witness:
  "1 \<le> jsval (js_int 25) \<and> jsval (js_int 25) \<le> of_int 50 \<and> parseLimitParam (Some ''25'') 50 = Some (js_int 25)"
proof -
  have e: "parseLimitParam (Some ''25'') 50 = Some (js_int 25)" by code_simp
  show ?thesis using parseLimitParam_bounds [OF e] e by simp
qed

text \<open>
  Malformed text is not refused: the limit is read with \<open>parseInt\<close>, which stops at the
  first non-digit, so \<open>"10abc"\<close> is taken as 10 and \<open>"1e3"\<close> as 1 where the function's comment
  promises a null for malformed input.
\<close>

theorem parseLimitParam_accepts_malformed:
  "parseLimitParam (Some ''10abc'') 50 = Some (js_int 10) \<and> parseLimitParam (Some ''1e3'') 50 = Some (js_int 1)"
  by (intro conjI) code_simp+

lemma json_resp_sel [simp]: "status (json_resp b st) = st" "body (json_resp b st) = Some b"
  by (simp_all add: json_resp_def)

lemma error_resp_status [simp]: "status (error_resp m st) = st"
  by (simp add: error_resp_def)

lemma empty_resp_sel [simp]: "status (empty_resp st) = st" "body (empty_resp st) = None"
  by (simp_all add: empty_resp_def)

lemma try_resp_simps [simp]: "try_resp (Inl e) = jsonError e" "try_resp (Inr r) = r"
  by (simp_all add: try_resp_def)

lemma jsonOk_status [simp]: "status (jsonOk p) = 200"
  by (simp add: jsonOk_def)

lemma jsonError_status:
  "status (jsonError e) =
     (case e of AuthRequired \<Rightarrow> 401 | SsoStepUpRequired _ _ \<Rightarrow> 403 | DataSourceNotFound _ \<Rightarrow> 404
      | DataSourceRequest _ st _ _ \<Rightarrow> st | _ \<Rightarrow> 500)"
  by (cases e) auto

end
