(* ===== verification/Rate_Limit.thy ===== *)
theory Rate_Limit
  imports Prelude
begin

text \<open>
  The abuse limits of the public sign-in and sign-up entry points, \<open>lib/auth/signup-rate-limit.ts\<close>.

  The three counters and the cooldown table are module-level maps of one process: the record
  \<open>limits\<close>. \<open>withinSlidingBudget\<close> keeps, per key, the hit_times of the accepted hits and prunes the ones
  that left the window at every use. The locale \<open>sliding_window\<close> is the contract of a counter; its
  lemmas relate the pruned table to the full past of accepted hits and are interpreted on the
  three counters of the file.
\<close>

section \<open>State\<close>

type_synonym hit_table = "(string, int list) jsmap"

record limits =
  starts_by_ip :: hit_table
  signins_by_ip :: hit_table
  signins_by_email :: hit_table
  last_email_at :: "(string, int) jsmap"

definition no_limits :: limits where
  "no_limits = \<lparr>starts_by_ip = [], signins_by_ip = [], signins_by_email = [], last_email_at = []\<rparr>"

definition START_PER_IP_MAX :: nat where "START_PER_IP_MAX = 5"
definition START_PER_IP_WINDOW_MS :: int where "START_PER_IP_WINDOW_MS = 600000"
definition EMAIL_COOLDOWN_MS :: int where "EMAIL_COOLDOWN_MS = 60000"
definition SIGNIN_PER_IP_MAX :: nat where "SIGNIN_PER_IP_MAX = 10"
definition SIGNIN_PER_IP_WINDOW_MS :: int where "SIGNIN_PER_IP_WINDOW_MS = 600000"
definition SIGNIN_PER_EMAIL_MAX :: nat where "SIGNIN_PER_EMAIL_MAX = 10"
definition SIGNIN_PER_EMAIL_WINDOW_MS :: int where "SIGNIN_PER_EMAIL_WINDOW_MS = 600000"

lemmas limit_constants = START_PER_IP_MAX_def START_PER_IP_WINDOW_MS_def EMAIL_COOLDOWN_MS_def
  SIGNIN_PER_IP_MAX_def SIGNIN_PER_IP_WINDOW_MS_def SIGNIN_PER_EMAIL_MAX_def SIGNIN_PER_EMAIL_WINDOW_MS_def

section \<open>Operations\<close>

definition hits :: "hit_table \<Rightarrow> string \<Rightarrow> int list" where
  "hits m key = (case map_get m key of None \<Rightarrow> [] | Some ts \<Rightarrow> ts)"

definition withinSlidingBudget :: "int \<Rightarrow> hit_table \<Rightarrow> string \<Rightarrow> nat \<Rightarrow> int \<Rightarrow> bool \<times> hit_table" where
  "withinSlidingBudget now m key budget windowMs =
     (let cutoff = now - windowMs;
          recent = filter (\<lambda>t. t > cutoff) (hits m key)
      in if length recent \<ge> budget then (False, map_set key recent m)
         else (True, map_set key (recent @ [now]) m))"

definition allowSignupStart :: "int \<Rightarrow> string \<Rightarrow> limits \<Rightarrow> bool \<times> limits" where
  "allowSignupStart now ip l =
     (let (ok, m) = withinSlidingBudget now (starts_by_ip l) ip START_PER_IP_MAX START_PER_IP_WINDOW_MS
      in (ok, l\<lparr>starts_by_ip := m\<rparr>))"

definition address_key :: "string \<Rightarrow> string" where
  "address_key email = toLowerCase (trim email)"

definition count_source :: "int \<Rightarrow> string \<Rightarrow> limits \<Rightarrow> bool \<times> limits" where
  "count_source now ip l =
     (let (ok, m) = withinSlidingBudget now (signins_by_ip l) ip SIGNIN_PER_IP_MAX SIGNIN_PER_IP_WINDOW_MS
      in (ok, l\<lparr>signins_by_ip := m\<rparr>))"

definition count_address :: "int \<Rightarrow> string \<Rightarrow> limits \<Rightarrow> bool \<times> limits" where
  "count_address now key l =
     (let (ok, m) = withinSlidingBudget now (signins_by_email l) key SIGNIN_PER_EMAIL_MAX SIGNIN_PER_EMAIL_WINDOW_MS
      in (ok, l\<lparr>signins_by_email := m\<rparr>))"

definition allowSigninAttempt :: "int \<Rightarrow> string \<Rightarrow> string \<Rightarrow> limits \<Rightarrow> bool \<times> limits" where
  "allowSigninAttempt now ip email l =
     (let (ipOk, l1) = count_source now ip l;
          (emailOk, l2) = count_address now (address_key email) l1
      in (ipOk \<and> emailOk, l2))"

definition allowEmailSend :: "int \<Rightarrow> string \<Rightarrow> limits \<Rightarrow> bool \<times> limits" where
  "allowEmailSend now email l =
     (case map_get (last_email_at l) (address_key email) of
        Some sent \<Rightarrow>
          if now - sent < EMAIL_COOLDOWN_MS then (False, l)
          else (True, l\<lparr>last_email_at := map_set (address_key email) now (last_email_at l)\<rparr>)
      | None \<Rightarrow> (True, l\<lparr>last_email_at := map_set (address_key email) now (last_email_at l)\<rparr>))"

definition releaseEmailSend :: "string \<Rightarrow> limits \<Rightarrow> limits" where
  "releaseEmailSend email l = l\<lparr>last_email_at := AList.delete (address_key email) (last_email_at l)\<rparr>"

definition clientIp :: "string option \<Rightarrow> string option \<Rightarrow> string" where
  "clientIp realIpHeader forwardedHeader =
     (case map_option trim realIpHeader of
        Some (c # cs) \<Rightarrow> c # cs
      | _ \<Rightarrow>
          (case forwardedHeader of
             Some (c # cs) \<Rightarrow>
               (let hops = filter (\<lambda>hop. hop \<noteq> '''') (map trim (split_on (CHR '','') (c # cs)))
                in if hops = [] then ''unknown'' else last hops)
           | _ \<Rightarrow> ''unknown''))"


section \<open>The contract of a counter\<close>

text \<open>
  A log is the list of accepted hits, oldest first. \<open>within_window\<close> are the hits of a key that count at
  a time; \<open>bounded\<close> says no window of the log holds more than the budget; \<open>tracks\<close> says the pruned
  table still has every hit that can count from now on.
\<close>

type_synonym hit_log = "(string \<times> int) list"

definition hit_times :: "string \<Rightarrow> hit_log \<Rightarrow> int list" where
  "hit_times key past = map snd (filter (\<lambda>(k, _). k = key) past)"

definition within_window :: "int \<Rightarrow> int \<Rightarrow> string \<Rightarrow> hit_log \<Rightarrow> int list" where
  "within_window window t key past = filter (\<lambda>a. t - window < a \<and> a \<le> t) (hit_times key past)"

definition bounded :: "nat \<Rightarrow> int \<Rightarrow> hit_log \<Rightarrow> bool" where
  "bounded budget window past \<longleftrightarrow> (\<forall>key t. length (within_window window t key past) \<le> budget)"

definition tracks :: "int \<Rightarrow> int \<Rightarrow> hit_table \<Rightarrow> hit_log \<Rightarrow> bool" where
  "tracks window now m past \<longleftrightarrow>
     (\<forall>key c. now - window \<le> c \<longrightarrow> filter (\<lambda>a. a > c) (hits m key) = filter (\<lambda>a. a > c) (hit_times key past))
     \<and> (\<forall>key. \<forall>a\<in>set (hit_times key past). a \<le> now)"

lemma hit_times_Nil [simp]: "hit_times key [] = []"
  by (simp add: hit_times_def)

lemma hit_times_snoc [simp]: "hit_times key (past @ [(k, a)]) = hit_times key past @ (if k = key then [a] else [])"
  by (simp add: hit_times_def)

lemma bounded_Nil [simp]: "bounded budget window []"
  by (simp add: bounded_def within_window_def)

lemma tracks_Nil [simp]: "tracks window now [] []"
  by (simp add: tracks_def hits_def)

lemma tracks_later: "tracks window now m past \<Longrightarrow> now \<le> now' \<Longrightarrow> tracks window now' m past"
  unfolding tracks_def by (meson diff_right_mono order_trans)

lemma tracks_old: "tracks window now m past \<Longrightarrow> now \<le> now' \<Longrightarrow> a \<in> set (hit_times k past) \<Longrightarrow> a \<le> now'"
  unfolding tracks_def by (meson order_trans)

lemma hits_set: "hits (map_set k ts m) key = (if key = k then ts else hits m key)"
  by (simp add: hits_def update_conv')

lemma filter_later: "c \<le> (d :: int) \<Longrightarrow> filter (\<lambda>a. d < a) (filter (\<lambda>a. c < a) xs) = filter (\<lambda>a. d < a) xs"
  by (induction xs) auto

text \<open>One use of a counter, against the log.\<close>

lemma budget_decision:
  assumes "tracks window now m past" and "now \<le> now'" and "0 < window"
  shows "fst (withinSlidingBudget now' m key budget window) \<longleftrightarrow> length (within_window window now' key past) < budget"
proof -
  have "filter (\<lambda>a. a > now' - window) (hits m key) = filter (\<lambda>a. a > now' - window) (hit_times key past)"
    using assms(1,2) by (simp add: tracks_def)
  also have "\<dots> = within_window window now' key past"
    unfolding within_window_def using tracks_old [OF assms(1,2)] by (intro filter_cong) auto
  finally show ?thesis by (auto simp: withinSlidingBudget_def Let_def)
qed

lemma budget_tracks:
  assumes "tracks window now m past" and "now \<le> now'" and "0 < window"
    and "withinSlidingBudget now' m key budget window = (ok, m')"
  shows "tracks window now' m' (if ok then past @ [(key, now')] else past)"
proof -
  let ?recent = "filter (\<lambda>a. a > now' - window) (hits m key)"
  have t: "filter (\<lambda>a. a > c) (hits m k) = filter (\<lambda>a. a > c) (hit_times k past)" if "now' - window \<le> c" for c k
    using assms(1,2) that by (simp add: tracks_def)
  note old = tracks_old [OF assms(1,2)]
  have m': "m' = map_set key (if ok then ?recent @ [now'] else ?recent) m"
    using assms(4) by (auto simp: withinSlidingBudget_def Let_def split: if_splits)
  have "filter (\<lambda>a. a > c) (hits m' k) = filter (\<lambda>a. a > c) (hit_times k (if ok then past @ [(key, now')] else past))"
    if "now' - window \<le> c" for c k
    using t [OF that] filter_later [OF that, of "hits m key"] by (auto simp: m' hits_set)
  with old show ?thesis by (auto simp: tracks_def)
qed

lemma budget_bounded:
  assumes "tracks window now m past" and "now \<le> now'" and "0 < window" and "bounded budget window past"
    and "withinSlidingBudget now' m key budget window = (ok, m')"
  shows "bounded budget window (if ok then past @ [(key, now')] else past)"
proof (cases ok)
  case True
  note old = tracks_old [OF assms(1,2)]
  have room: "length (within_window window now' key past) < budget"
    using budget_decision [OF assms(1-3), of key budget] assms(5) True by simp
  have "length (within_window window t k (past @ [(key, now')])) \<le> budget" for t k
  proof (cases "k = key \<and> t - window < now' \<and> now' \<le> t")
    case True
    have "length (within_window window t key past) \<le> length (within_window window now' key past)"
    proof -
      have "within_window window t key past = filter (\<lambda>a. t - window < a) (within_window window now' key past)"
        unfolding within_window_def filter_filter
        by (rule filter_cong [OF refl]) (use True old in \<open>fastforce intro: order_trans\<close>)
      then show ?thesis by (metis length_filter_le)
    qed
    with True room show ?thesis by (simp add: within_window_def)
  next
    case False
    then have "within_window window t k (past @ [(key, now')]) = within_window window t k past"
      by (auto simp: within_window_def)
    then show ?thesis using assms(4) by (simp add: bounded_def)
  qed
  with True show ?thesis by (simp add: bounded_def)
next
  case False
  with assms(4) show ?thesis by simp
qed


fun run_hits :: "(int \<Rightarrow> string \<Rightarrow> 's \<Rightarrow> bool \<times> 's) \<Rightarrow> (int \<times> string) list \<Rightarrow> 's \<Rightarrow> bool list" where
  "run_hits hit [] s = []"
| "run_hits hit ((now, key) # calls) s = (let (ok, s') = hit now key s in ok # run_hits hit calls s')"

text \<open>
  The reference: keep every accepted hit for ever and count those of the window.
\<close>

fun reference_hits :: "nat \<Rightarrow> int \<Rightarrow> (int \<times> string) list \<Rightarrow> hit_log \<Rightarrow> bool list" where
  "reference_hits budget window [] past = []"
| "reference_hits budget window ((now, key) # calls) past =
     (let ok = length (within_window window now key past) < budget
      in ok # reference_hits budget window calls (if ok then past @ [(key, now)] else past))"

locale sliding_window =
  fixes table :: "'s \<Rightarrow> hit_table"
    and budget :: nat
    and window :: int
    and hit :: "int \<Rightarrow> string \<Rightarrow> 's \<Rightarrow> bool \<times> 's"
  assumes window_pos: "0 < window"
    and hit_uses: "hit now key s = (ok, s') \<Longrightarrow> withinSlidingBudget now (table s) key budget window = (ok, table s')"
begin

lemma hit_decision:
  assumes "tracks window now (table s) past" and "now \<le> now'" and "hit now' key s = (ok, s')"
  shows "ok \<longleftrightarrow> length (within_window window now' key past) < budget"
  using budget_decision [OF assms(1,2) window_pos, of key budget] hit_uses [OF assms(3)] by simp

lemma hit_tracks:
  assumes "tracks window now (table s) past" and "now \<le> now'" and "hit now' key s = (ok, s')"
  shows "tracks window now' (table s') (if ok then past @ [(key, now')] else past)"
  using budget_tracks [OF assms(1,2) window_pos hit_uses [OF assms(3)]] .

lemma hit_bounded:
  assumes "tracks window now (table s) past" and "now \<le> now'" and "hit now' key s = (ok, s')" and "bounded budget window past"
  shows "bounded budget window (if ok then past @ [(key, now')] else past)"
  using budget_bounded [OF assms(1,2) window_pos assms(4) hit_uses [OF assms(3)]] .

lemma run_is_reference:
  "tracks window now (table s) past \<Longrightarrow> sorted (now # map fst calls)
   \<Longrightarrow> run_hits hit calls s = reference_hits budget window calls past"
proof (induction calls arbitrary: now s past)
  case Nil
  then show ?case by simp
next
  case (Cons c calls)
  obtain t key where c: "c = (t, key)" by fastforce
  obtain ok s' where h: "hit t key s = (ok, s')" by fastforce
  have t: "now \<le> t" "sorted (t # map fst calls)" using Cons.prems(2) c by auto
  show ?case
    using Cons.IH [OF hit_tracks [OF Cons.prems(1) t(1) h] t(2)] hit_decision [OF Cons.prems(1) t(1) h]
    by (simp add: c h Let_def)
qed

end

interpretation starts: sliding_window starts_by_ip START_PER_IP_MAX START_PER_IP_WINDOW_MS allowSignupStart
  by unfold_locales (auto simp: limit_constants allowSignupStart_def split: prod.splits)

interpretation sources: sliding_window signins_by_ip SIGNIN_PER_IP_MAX SIGNIN_PER_IP_WINDOW_MS count_source
  by unfold_locales (auto simp: limit_constants count_source_def split: prod.splits)

interpretation addresses: sliding_window signins_by_email SIGNIN_PER_EMAIL_MAX SIGNIN_PER_EMAIL_WINDOW_MS count_address
  by unfold_locales (auto simp: limit_constants count_address_def split: prod.splits)

section \<open>The cooldown\<close>

text \<open>
  \<open>cooled now l past\<close>: of the log of delivered mails every one that can still block a send is
  covered by a reservation that is not older.
\<close>

definition cooled :: "int \<Rightarrow> limits \<Rightarrow> hit_log \<Rightarrow> bool" where
  "cooled now l past \<longleftrightarrow> (\<forall>(key, a)\<in>set past. a \<le> now \<and> (a + EMAIL_COOLDOWN_MS \<le> now
      \<or> (\<exists>b. map_get (last_email_at l) key = Some b \<and> a \<le> b)))"

definition spaced :: "int \<Rightarrow> hit_log \<Rightarrow> bool" where
  "spaced gap past \<longleftrightarrow> (\<forall>key. sorted_wrt (\<lambda>a b. a + gap \<le> b) (hit_times key past))"

lemma cooled_later: "cooled now l past \<Longrightarrow> now \<le> now' \<Longrightarrow> cooled now' l past"
  unfolding cooled_def by (fastforce intro: order_trans)

lemma cooled_other: "last_email_at l' = last_email_at l \<Longrightarrow> cooled now l past \<Longrightarrow> cooled now l' past"
  by (simp add: cooled_def)

lemma spaced_Nil [simp]: "spaced gap []"
  by (simp add: spaced_def)

lemma allowEmailSend_True:
  "allowEmailSend now email l = (True, l') \<Longrightarrow>
     last_email_at l' = map_set (address_key email) now (last_email_at l)
     \<and> (\<forall>b. map_get (last_email_at l) (address_key email) = Some b \<longrightarrow> b + EMAIL_COOLDOWN_MS \<le> now)"
  by (auto simp: allowEmailSend_def split: option.splits if_splits)

lemma allowEmailSend_False: "allowEmailSend now email l = (False, l') \<Longrightarrow> l' = l"
  by (auto simp: allowEmailSend_def split: option.splits if_splits)

lemma allowEmailSend_frame:
  "allowEmailSend now email l = (ok, l') \<Longrightarrow> starts_by_ip l' = starts_by_ip l \<and> signins_by_ip l' = signins_by_ip l
     \<and> signins_by_email l' = signins_by_email l"
  by (auto simp: allowEmailSend_def split: option.splits if_splits)

text \<open>A reserved send, delivered or handed back.\<close>

lemma reserved_old:
  assumes "cooled now l past" and "now \<le> now'" and "allowEmailSend now' email l = (True, l')"
    and "a \<in> set (hit_times (address_key email) past)"
  shows "a + EMAIL_COOLDOWN_MS \<le> now'"
proof -
  have "(address_key email, a) \<in> set past" using assms(4) by (auto simp: hit_times_def)
  with assms(1) have "a + EMAIL_COOLDOWN_MS \<le> now \<or> (\<exists>b. map_get (last_email_at l) (address_key email) = Some b \<and> a \<le> b)"
    unfolding cooled_def by fastforce
  with assms(2) allowEmailSend_True [OF assms(3)] show ?thesis by fastforce
qed

lemma delivered_cooled:
  assumes "cooled now l past" and "now \<le> now'" and "allowEmailSend now' email l = (True, l')"
  shows "cooled now' l' (past @ [(address_key email, now')])"
proof -
  have c: "cooled now' l past" using assms(1,2) by (rule cooled_later)
  have "a \<le> now' \<and> (a + EMAIL_COOLDOWN_MS \<le> now' \<or> (\<exists>b. map_get (last_email_at l') key = Some b \<and> a \<le> b))"
    if "(key, a) \<in> set past" for key a
  proof -
    have a: "a \<le> now'" "a + EMAIL_COOLDOWN_MS \<le> now' \<or> (\<exists>b. map_get (last_email_at l) key = Some b \<and> a \<le> b)"
      using c that unfolding cooled_def by fastforce+
    then show ?thesis using allowEmailSend_True [OF assms(3)] by (auto simp: update_conv')
  qed
  then show ?thesis using allowEmailSend_True [OF assms(3)] by (auto simp: cooled_def update_conv')
qed

lemma delivered_spaced:
  assumes "cooled now l past" and "now \<le> now'" and "allowEmailSend now' email l = (True, l')" and "spaced EMAIL_COOLDOWN_MS past"
  shows "spaced EMAIL_COOLDOWN_MS (past @ [(address_key email, now')])"
  using assms(4) reserved_old [OF assms(1-3)] by (auto simp: spaced_def sorted_wrt_append)

lemma released_cooled:
  assumes "cooled now l past" and "now \<le> now'" and "allowEmailSend now' email l = (True, l')"
  shows "cooled now' (releaseEmailSend email l') past"
proof -
  have c: "cooled now' l past" using assms(1,2) by (rule cooled_later)
  have "a \<le> now' \<and> (a + EMAIL_COOLDOWN_MS \<le> now' \<or> (\<exists>b. map_get (last_email_at (releaseEmailSend email l')) key = Some b \<and> a \<le> b))"
    if "(key, a) \<in> set past" for key a
  proof -
    have a: "a \<le> now'" "a + EMAIL_COOLDOWN_MS \<le> now' \<or> (\<exists>b. map_get (last_email_at l) key = Some b \<and> a \<le> b)"
      using c that unfolding cooled_def by fastforce+
    show ?thesis
    proof (cases "key = address_key email")
      case True
      then have "a \<in> set (hit_times (address_key email) past)" using that by (force simp: hit_times_def)
      then show ?thesis using reserved_old [OF assms] a(1) by blast
    next
      case False
      then show ?thesis using a allowEmailSend_True [OF assms(3)] by (simp add: releaseEmailSend_def delete_conv' update_conv')
    qed
  qed
  then show ?thesis by (auto simp: cooled_def)
qed

section \<open>Properties\<close>

text \<open>
  The sign-up counter decides as the reference that never forgets a hit: pruning the expired
  times and storing them back loses nothing, for any sequence of calls in clock order.
\<close>

theorem allowSignupStart_is_reference:
  assumes "sorted (map fst calls)"
  shows "run_hits allowSignupStart calls no_limits = reference_hits 5 600000 calls []"
proof (cases calls)
  case (Cons c cs)
  with assms have s: "sorted (fst c # map fst calls)" by auto
  have "tracks START_PER_IP_WINDOW_MS (fst c) (starts_by_ip no_limits) []" by (simp add: no_limits_def)
  from starts.run_is_reference [OF this s] show ?thesis by (simp add: limit_constants)
qed simp

theorem allowSignupStart_is_reference_witness:
  "run_hits allowSignupStart [(0, ''a''), (1, ''a''), (2, ''a''), (3, ''a''), (4, ''a''), (5, ''a''), (6, ''b''), (600000, ''a'')] no_limits
   = [True, True, True, True, True, False, True, True]"
  by (subst allowSignupStart_is_reference) code_simp+

end
