(* ===== verification/Database.thy ===== *)
theory Database
  imports Http Rate_Limit
begin

text \<open>
  The state every handler of \<open>apps/web\<close> works on and the shape of a handler.

  \<^item> \<open>db\<close> holds the Postgres tables the web app reads and writes (row records follow the columns
    the sources select; keys, ids and roles are strings), the process-level maps (the cache of
    \<open>lib/auth/org-access.ts\<close> and the limits of \<open>lib/auth/signup-rate-limit.ts\<close>) and what left the
    process: the payment requests that reached Stripe and the account mails a mailer accepted.
    Timestamps are epoch milliseconds: the code only compares them and formats them with
    \<open>toISOString\<close>, which is monotone.
  \<^item> A handler is an action \<open>'a act\<close>: it passes the state on, and either returns a value or
    throws an \<open>app_error\<close>. \<open>bind\<close> is sequencing, \<open>catching\<close> is \<open>try ... catch\<close>, and \<open>call\<close> is an
    \<open>await\<close> of the Supabase client, which answers with an error object and never throws.
  \<^item> \<open>env\<close> is what one request brings: the verified session, the clock, the random values and the
    fault each database call meets (by the name of the call).
\<close>

named_theorems act_simps \<open>evaluation of actions\<close>
named_theorems keeps_intros \<open>rules for \<open>keeps\<close>\<close>

section \<open>Decimal columns\<close>

text \<open>
  A column of type \<open>numeric(14, 6)\<close> holds an exact decimal: a value is rounded half away from
  zero to six decimals when it is stored and SQL adds and compares without rounding. The
  rows keep it as a \<open>jsnum\<close> whose value is that decimal; the code reads it through JSON, that is as the
  nearest double.
\<close>

definition numeric6 :: "rat \<Rightarrow> rat" where
  "numeric6 r = (if r < 0 then - (of_int \<lfloor>- r * 10 ^ 6 + 1 / 2\<rfloor> / 10 ^ 6) else of_int \<lfloor>r * 10 ^ 6 + 1 / 2\<rfloor> / 10 ^ 6)"

definition fits_numeric :: "rat \<Rightarrow> bool" where
  "fits_numeric r \<longleftrightarrow> \<bar>r\<bar> < 10 ^ 8"

definition sql_num :: "rat \<Rightarrow> jsnum" where
  "sql_num r = Fin (r < 0) \<bar>r\<bar>"

definition read_numeric :: "jsnum \<Rightarrow> jsnum" where
  "read_numeric n = js_lit (jsval n)"

lemma jsval_sql_num [simp]: "jsval (sql_num r) = r"
  by (simp add: sql_num_def)

lemma numeric6_near: "\<bar>numeric6 r - r\<bar> \<le> 1 / (2 * 10 ^ 6)"
proof -
  have near: "\<bar>of_int \<lfloor>x + 1 / 2\<rfloor> / 10 ^ 6 - x / 10 ^ 6\<bar> \<le> 1 / (2 * 10 ^ 6)" for x :: rat
  proof -
    define n :: rat where "n = of_int \<lfloor>x + 1 / 2\<rfloor>"
    have "n \<le> x + 1 / 2" "x + 1 / 2 < n + 1"
      using floor_correct [of "x + 1 / 2"] by (simp_all add: n_def)
    then have "\<bar>n / 10 ^ 6 - x / 10 ^ 6\<bar> \<le> 1 / (2 * 10 ^ 6)" by (simp add: abs_if)
    then show ?thesis unfolding n_def .
  qed
  have scale: "- r * 10 ^ 6 / 10 ^ 6 = - r" "r * 10 ^ 6 / 10 ^ 6 = r" by simp_all
  define A B :: rat where "A = of_int \<lfloor>r * 10 ^ 6 + 1 / 2\<rfloor> / 10 ^ 6" and "B = of_int \<lfloor>- r * 10 ^ 6 + 1 / 2\<rfloor> / 10 ^ 6"
  have "\<bar>A - r\<bar> \<le> 1 / (2 * 10 ^ 6)" "\<bar>B - - r\<bar> \<le> 1 / (2 * 10 ^ 6)"
    using near [of "r * 10 ^ 6"] near [of "- r * 10 ^ 6"] unfolding scale A_def B_def by simp_all
  moreover have "numeric6 r = (if r < 0 then - B else A)" unfolding numeric6_def A_def B_def ..
  ultimately show ?thesis by (simp add: abs_if split: if_splits)
qed

lemma numeric6_mono_0: "1 / 10 ^ 6 \<le> r \<Longrightarrow> 0 < numeric6 r"
  using numeric6_near [of r] by (simp add: abs_if split: if_splits)

section \<open>Tables\<close>

record org_row =
  o_id :: string
  o_slug :: string
  o_name :: string
  o_banned_at :: "int option"
  o_credit_granted_usd :: jsnum
  o_billable_spend_usd :: jsnum
  o_spend_unlocked_at :: "int option"

record member_row =
  m_org :: string
  m_user :: string
  m_role :: string
  m_created_at :: int

record user_row =
  u_id :: string
  u_email :: string
  u_banned :: bool

record invite_row =
  i_id :: string
  i_email :: string
  i_token :: string
  i_org :: "string option"
  i_role :: string
  i_org_name :: "string option"
  i_invited_by :: "string option"
  i_created_at :: int
  i_expires_at :: int
  i_accepted_at :: "int option"
  i_accepted_by :: "string option"
  i_revoked_at :: "int option"

record identity_row =
  g_identity :: string
  g_org :: string
  g_display_name :: string
  g_active :: bool

record key_row =
  k_id :: string
  k_org :: string
  k_name :: string
  k_prefix :: string
  k_suffix :: "string option"
  k_hash :: string
  k_created_by :: string
  k_identity :: "string option"
  k_created_at :: int
  k_last_used_at :: "int option"
  k_expires_at :: "int option"
  k_revoked_at :: "int option"
  k_revoked_by :: "string option"

record audit_row =
  a_org :: "string option"
  a_actor_kind :: string
  a_actor_id :: "string option"
  a_action :: string
  a_object_type :: string
  a_object_id :: string
  a_before :: json
  a_after :: json
  a_context :: json

record ledger_row =
  l_org :: string
  l_entry_type :: string
  l_amount_usd :: jsnum
  l_reason :: string
  l_source :: string
  l_source_ref :: "string option"
  l_created_by :: "string option"

record settings_row =
  s_org :: string
  s_enabled :: bool
  s_threshold_usd :: jsnum
  s_amount_usd :: jsnum
  s_customer_id :: "string option"
  s_payment_method_id :: "string option"
  s_notify_email :: "string option"
  s_last_recharge_at :: "int option"
  s_consecutive_failures :: int
  s_last_failure_at :: "int option"
  s_last_failure_message :: "string option"

record attempt_row =
  t_id :: string
  t_org :: string
  t_amount_usd :: jsnum
  t_status :: string
  t_intent :: "string option"
  t_error :: "string option"
  t_created_at :: int
  t_updated_at :: int

record ban_row =
  b_user :: string
  b_reason :: string
  b_banned_by :: string
  b_at :: int
  b_via_org :: "string option"

record org_ban_row =
  ob_org :: string
  ob_reason :: string
  ob_banned_by :: string
  ob_at :: int

record superkey_row =
  pk_id :: string
  pk_user :: string
  pk_owner_email :: string
  pk_name :: string
  pk_prefix :: string
  pk_suffix :: "string option"
  pk_hash :: string
  pk_created_at :: int
  pk_last_used_at :: "int option"
  pk_revoked_at :: "int option"

text \<open>
  A stored connection of an organization: the columns a trace connection and a provider connection have
  in common, and those only the latter has. The credential itself is a secret of the vault, under \<open>c_vault\<close>.
\<close>

record conn_row =
  c_id :: string
  c_org :: string
  c_kind :: string
  c_config :: json
  c_vault :: string
  c_last4 :: string
  c_created_by :: "string option"
  c_updated_by :: "string option"
  c_created_at :: int
  c_updated_at :: int

record provider_row = conn_row +
  pr_spend_vault :: "string option"
  pr_spend_last4 :: "string option"
  pr_status :: string
  pr_status_detail :: "json option"
  pr_status_checked_at :: "int option"
  pr_status_source :: "string option"
  pr_declared_usd :: "jsnum option"
  pr_declared_at :: "int option"
  pr_metered_usd :: jsnum
  pr_threshold_usd :: jsnum

record snapshot_row =
  sn_org :: string
  sn_connection :: string
  sn_provider :: string
  sn_taken_at :: int
  sn_spend_usd :: "jsnum option"
  sn_credits_usd :: "jsnum option"
  sn_limit_usd :: "jsnum option"
  sn_source :: string

record endpoint_row =
  ep_id :: string
  ep_org :: string
  ep_updated_at :: int

text \<open>A row that pins a provider connection: a catalog deployment, a served request, a model of a project's setup.\<close>

record pin_row =
  pin_id :: string
  pin_org :: "string option"
  pin_connection :: "string option"

record app_settings_row =
  signups_enabled :: bool
  spend_unlock_requirement :: string
  welcome_grant_micro_usd :: int

record charge_request =
  ch_idempotency_key :: string
  ch_amount_cents :: jsnum
  ch_customer :: string
  ch_payment_method :: string
  ch_org :: string

record mail_row =
  ml_to :: string
  ml_kind :: string
  ml_at :: int
  ml_confirmed :: bool

record sso_entry =
  sso_value :: bool
  sso_expires_at :: int

record db =
  organizations :: "org_row list"
  members :: "member_row list"
  users :: "user_row list"
  platform_admins :: "string list"
  sso_orgs :: "string list"
  invitations :: "invite_row list"
  identities :: "identity_row list"
  api_keys :: "key_row list"
  audit_log :: "audit_row list"
  credit_ledger :: "ledger_row list"
  recharge_settings :: "settings_row list"
  recharge_attempts :: "attempt_row list"
  user_bans :: "ban_row list"
  org_bans :: "org_ban_row list"
  superadmin_keys :: "superkey_row list"
  app_settings :: "app_settings_row option"
  stripe_charges :: "charge_request list"
  sso_cache :: "(string, sso_entry) jsmap"
  limiter :: limits
  mails :: "mail_row list"
  vault_secrets :: "(string \<times> string) list"
  trace_connections :: "conn_row list"
  provider_connections :: "provider_row list"
  account_snapshots :: "snapshot_row list"
  serving_endpoints :: "endpoint_row list"
  model_providers :: "pin_row list"
  serving_requests :: "pin_row list"
  setup_models :: "pin_row list"

definition empty_db :: db where
  "empty_db = \<lparr>organizations = [], members = [], users = [], platform_admins = [], sso_orgs = [],
     invitations = [], identities = [], api_keys = [], audit_log = [], credit_ledger = [],
     recharge_settings = [], recharge_attempts = [], user_bans = [], org_bans = [], superadmin_keys = [], app_settings = None,
     stripe_charges = [], sso_cache = [], limiter = no_limits, mails = [],
     vault_secrets = [], trace_connections = [], provider_connections = [], account_snapshots = [], serving_endpoints = [],
     model_providers = [], serving_requests = [], setup_models = []\<rparr>"

section \<open>Requests\<close>

record env =
  auth_cookie :: bool
  jwt_claims :: "json option"
  now_ms :: int
  fresh_id :: string
  fresh_token :: string
  random_hex :: string
  faults :: "string \<Rightarrow> fault option"

section \<open>Actions\<close>

type_synonym 'a act = "db \<Rightarrow> (app_error + 'a) \<times> db"

definition ret :: "'a \<Rightarrow> 'a act" where
  "ret x = (\<lambda>s. (Inr x, s))"

definition throw :: "app_error \<Rightarrow> 'a act" where
  "throw e = (\<lambda>s. (Inl e, s))"

definition bind :: "'a act \<Rightarrow> ('a \<Rightarrow> 'b act) \<Rightarrow> 'b act" where
  "bind m f = (\<lambda>s. case m s of (Inl e, s') \<Rightarrow> (Inl e, s') | (Inr x, s') \<Rightarrow> f x s')"

definition catching :: "'a act \<Rightarrow> (app_error \<Rightarrow> 'a act) \<Rightarrow> 'a act" where
  "catching m h = (\<lambda>s. case m s of (Inl e, s') \<Rightarrow> h e s' | (Inr x, s') \<Rightarrow> (Inr x, s'))"

definition call :: "fault option \<Rightarrow> (db \<Rightarrow> dberror + ('a \<times> db)) \<Rightarrow> (dberror + 'a) act" where
  "call flt f = (\<lambda>s. let (r, s') = exec flt f s in (Inr r, s'))"

definition query :: "fault option \<Rightarrow> (db \<Rightarrow> 'a) \<Rightarrow> (dberror + 'a) act" where
  "query flt f = (\<lambda>s. (Inr (read_db flt f s), s))"

definition get_state :: "db act" where
  "get_state = (\<lambda>s. (Inr s, s))"

definition modify :: "(db \<Rightarrow> db) \<Rightarrow> unit act" where
  "modify f = (\<lambda>s. (Inr (), f s))"

definition orThrow :: "string \<Rightarrow> (dberror + 'a) \<Rightarrow> 'a act" where
  "orThrow prefix r = (case r of Inl e \<Rightarrow> throw (PlainError (prefix @ message e)) | Inr x \<Rightarrow> ret x)"

definition handler :: "resp act \<Rightarrow> resp act" where
  "handler m = catching m (\<lambda>e. ret (jsonError e))"

section \<open>Evaluation and frame rules\<close>

lemma ret_apply [simp, act_simps]: "ret x s = (Inr x, s)"
  by (simp add: ret_def)

lemma throw_apply [simp, act_simps]: "throw e s = (Inl e, s)"
  by (simp add: throw_def)

lemma get_state_apply [simp, act_simps]: "get_state s = (Inr s, s)"
  by (simp add: get_state_def)

lemma modify_apply [simp, act_simps]: "modify f s = (Inr (), f s)"
  by (simp add: modify_def)

lemma query_apply [simp, act_simps]: "query flt f s = (Inr (read_db flt f s), s)"
  by (simp add: query_def)

lemma bind_ret [simp]: "bind (ret x) f = f x"
  by (simp add: bind_def ret_def)

lemma bind_throw [simp]: "bind (throw e) f = throw e"
  by (simp add: bind_def throw_def)

lemma catching_ret [simp]: "catching (ret x) h = ret x"
  by (simp add: catching_def ret_def)

lemma bind_apply [act_simps]:
  "bind m f s = (case m s of (Inl e, s') \<Rightarrow> (Inl e, s') | (Inr x, s') \<Rightarrow> f x s')"
  by (simp add: bind_def)

lemma catching_apply [act_simps]:
  "catching m h s = (case m s of (Inl e, s') \<Rightarrow> h e s' | (Inr x, s') \<Rightarrow> (Inr x, s'))"
  by (simp add: catching_def)

lemma call_apply [act_simps]: "call flt f s = (Inr (fst (exec flt f s)), snd (exec flt f s))"
  by (simp add: call_def split_beta)

lemma bind_InrE:
  assumes "bind m f s = (Inr y, t)"
  obtains x s' where "m s = (Inr x, s')" and "f x s' = (Inr y, t)"
  using assms by (auto simp: bind_def split: prod.splits sum.splits)

lemma bind_InlE:
  assumes "bind m f s = (Inl e, t)"
  obtains "m s = (Inl e, t)" | x s' where "m s = (Inr x, s')" and "f x s' = (Inl e, t)"
  using assms by (auto simp: bind_def split: prod.splits sum.splits)

lemma call_InrD: "call flt f s = (Inr (Inr a), t) \<Longrightarrow> flt = None \<and> f s = Inr (a, t)"
  by (auto simp: call_def split: prod.splits dest: exec_InrD)

lemma orThrow_InrE:
  assumes "orThrow p r s = (Inr x, t)"
  obtains "r = Inr x" and "t = s"
  using assms by (auto simp: orThrow_def split: sum.splits)

text \<open>
  \<open>keeps P m\<close>: the action preserves the predicate on every path, throwing ones and lost
  connections included. The rules follow the structure of a handler, so an invariant of a
  handler is proved by \<open>keeps_intros\<close> down to its database statements.
\<close>

definition keeps :: "(db \<Rightarrow> bool) \<Rightarrow> 'a act \<Rightarrow> bool" where
  "keeps P m \<longleftrightarrow> (\<forall>s. P s \<longrightarrow> P (snd (m s)))"

lemma keepsD: "keeps P m \<Longrightarrow> P s \<Longrightarrow> P (snd (m s))"
  by (simp add: keeps_def)

lemma keeps_ret [keeps_intros]: "keeps P (ret x)"
  by (simp add: keeps_def)

lemma keeps_throw [keeps_intros]: "keeps P (throw e)"
  by (simp add: keeps_def)

lemma keeps_query [keeps_intros]: "keeps P (query flt f)"
  by (simp add: keeps_def)

lemma keeps_get_state [keeps_intros]: "keeps P get_state"
  by (simp add: keeps_def)

lemma keeps_orThrow [keeps_intros]: "keeps P (orThrow p r)"
  by (auto simp: keeps_def orThrow_def split: sum.splits)

lemma keeps_bind [keeps_intros]:
  "keeps P m \<Longrightarrow> (\<And>x. keeps P (f x)) \<Longrightarrow> keeps P (bind m f)"
  by (force simp: keeps_def bind_def split: prod.splits sum.splits)

lemma keeps_catching [keeps_intros]:
  "keeps P m \<Longrightarrow> (\<And>e. keeps P (h e)) \<Longrightarrow> keeps P (catching m h)"
  by (force simp: keeps_def catching_def split: prod.splits sum.splits)

lemma keeps_handler [keeps_intros]: "keeps P m \<Longrightarrow> keeps P (handler m)"
  unfolding handler_def by (intro keeps_intros)

lemma keeps_if [keeps_intros]: "keeps P m \<Longrightarrow> keeps P n \<Longrightarrow> keeps P (if b then m else n)"
  by simp

lemma keeps_case_option [keeps_intros]:
  "keeps P m \<Longrightarrow> (\<And>x. keeps P (f x)) \<Longrightarrow> keeps P (case v of None \<Rightarrow> m | Some x \<Rightarrow> f x)"
  by (simp split: option.split)

lemma keeps_case_sum [keeps_intros]:
  "(\<And>e. keeps P (f e)) \<Longrightarrow> (\<And>x. keeps P (g x)) \<Longrightarrow> keeps P (case v of Inl e \<Rightarrow> f e | Inr x \<Rightarrow> g x)"
  by (simp split: sum.split)

lemma keeps_case_prod [keeps_intros]:
  "(\<And>a b. keeps P (f a b)) \<Longrightarrow> keeps P (case v of (a, b) \<Rightarrow> f a b)"
  by (simp split: prod.split)

lemma keeps_call [keeps_intros]:
  "(\<And>s a s'. P s \<Longrightarrow> f s = Inr (a, s') \<Longrightarrow> P s') \<Longrightarrow> keeps P (call flt f)"
  by (auto simp: keeps_def call_apply intro: exec_preserves)

lemma bind_call_reaches:
  assumes "P s" and "\<And>a t. stmt s = Inr (a, t) \<Longrightarrow> P t" and "\<And>x. keeps P (f x)"
  shows "P (snd (bind (call flt stmt) f s))"
  using assms exec_preserves [of P s stmt flt] by (auto simp: act_simps keeps_def)

lemma keeps_modify: "(\<And>s. P s \<Longrightarrow> P (f s)) \<Longrightarrow> keeps P (modify f)"
  by (simp add: keeps_def)

lemma reads_only:
  assumes "\<And>P. keeps P m" and "m s = (r, t)"
  shows "t = s"
  using keepsD [OF assms(1) [of "\<lambda>x. x = s"]] assms(2) by simp

lemma handler_Inr: "\<exists>r. fst (handler m s) = Inr r"
  by (auto simp: handler_def catching_apply split: prod.splits sum.splits)

definition response :: "resp act \<Rightarrow> db \<Rightarrow> resp" where
  "response m s = (case fst (m s) of Inr r \<Rightarrow> r | Inl e \<Rightarrow> jsonError e)"

lemma response_handler [simp]: "response (handler m) s = response m s"
  by (auto simp: response_def handler_def catching_apply split: prod.splits sum.splits)

lemma snd_handler [simp]: "snd (handler m s) = snd (m s)"
  by (auto simp: handler_def catching_apply split: prod.splits sum.splits)

section \<open>A sample request\<close>

definition sample_env :: env where
  "sample_env = \<lparr>auth_cookie = True,
     jwt_claims = Some (JObj [(''sub'', JStr ''u1''), (''email'', JStr ''ada@acme.test''),
       (''amr'', JArr [JObj [(''method'', JStr ''password''), (''timestamp'', JNum (js_int 5))]])]),
     now_ms = 1000000, fresh_id = ''id-9'', fresh_token = ''tok-9'',
     random_hex = ''00112233445566778899aabbccddeeff00112233'', faults = (\<lambda>_. None)\<rparr>"

definition sample_db :: db where
  "sample_db = empty_db\<lparr>
     organizations := [\<lparr>o_id = ''o1'', o_slug = ''acme'', o_name = ''Acme'', o_banned_at = None,
       o_credit_granted_usd = js_int 20, o_billable_spend_usd = js_int 3,
       o_spend_unlocked_at = None\<rparr>],
     members := [\<lparr>m_org = ''o1'', m_user = ''u1'', m_role = ''admin'', m_created_at = 1\<rparr>,
                 \<lparr>m_org = ''o1'', m_user = ''u2'', m_role = ''user'', m_created_at = 2\<rparr>],
     users := [\<lparr>u_id = ''u1'', u_email = ''ada@acme.test'', u_banned = False\<rparr>,
               \<lparr>u_id = ''u2'', u_email = ''bob@acme.test'', u_banned = False\<rparr>,
               \<lparr>u_id = ''u3'', u_email = ''eve@other.test'', u_banned = False\<rparr>]\<rparr>"

end
