(* ===== verification/Audit_Trail.thy ===== *)
theory Audit_Trail
  imports Database
begin

text \<open>
  The audit trail of \<open>lib/audit.ts\<close>: the redaction of a snapshot and the recording of one event,
  which swallows every failure.
\<close>

definition SECRET_KEY_FRAGMENTS :: "string list" where
  "SECRET_KEY_FRAGMENTS =
     [''secret'', ''token'', ''credential'', ''password'', ''key_hash'', ''keyhash'']"

definition isSecretKey :: "string \<Rightarrow> bool" where
  "isSecretKey key =
     (let lowered = toLowerCase key in list_ex (str_includes lowered) SECRET_KEY_FRAGMENTS)"

fun redactAuditValue :: "json \<Rightarrow> json" where
  "redactAuditValue (JArr xs) = JArr (map redactAuditValue xs)"
| "redactAuditValue (JObj kvs) =
     JObj (filter (\<lambda>kv. \<not> isSecretKey (fst kv)) (map (\<lambda>(k, v). (k, redactAuditValue v)) kvs))"
| "redactAuditValue v = v"

record audit_event =
  ev_org :: "string option"
  ev_actor_kind :: string
  ev_actor_id :: "string option"
  ev_action :: string
  ev_object_type :: string
  ev_object_id :: string
  ev_before :: "json option"
  ev_after :: "json option"
  ev_context :: "json option"

definition audit_row_of :: "audit_event \<Rightarrow> audit_row" where
  "audit_row_of evt =
     \<lparr>a_org = ev_org evt, a_actor_kind = ev_actor_kind evt, a_actor_id = ev_actor_id evt,
      a_action = ev_action evt, a_object_type = ev_object_type evt, a_object_id = ev_object_id evt,
      a_before = (case ev_before evt of None \<Rightarrow> JNull | Some v \<Rightarrow> redactAuditValue v),
      a_after = (case ev_after evt of None \<Rightarrow> JNull | Some v \<Rightarrow> redactAuditValue v),
      a_context = (case ev_context evt of None \<Rightarrow> JNull | Some v \<Rightarrow> v)\<rparr>"

definition recordAuditEvent :: "env \<Rightarrow> audit_event \<Rightarrow> unit act" where
  "recordAuditEvent e evt =
     bind (call (faults e ''record_audit_event'')
             (\<lambda>s. Inr ((), s\<lparr>audit_log := audit_log s @ [audit_row_of evt]\<rparr>)))
          (\<lambda>r. ret ())"

definition actor_kind :: "bool \<Rightarrow> string" where
  "actor_kind platformAdmin = (if platformAdmin then ''platform_admin'' else ''user'')"

section \<open>What the trail may hold\<close>

fun secret_free :: "json \<Rightarrow> bool" where
  "secret_free (JArr xs) = list_all secret_free xs"
| "secret_free (JObj kvs) = list_all (\<lambda>(k, v). \<not> isSecretKey k \<and> secret_free v) kvs"
| "secret_free v = True"

definition audit_clean :: "db \<Rightarrow> bool" where
  "audit_clean s = list_all (\<lambda>r. secret_free (a_before r) \<and> secret_free (a_after r)) (audit_log s)"

lemma redact_secret_free: "secret_free (redactAuditValue v)"
  by (induction v rule: redactAuditValue.induct) (auto simp: list_all_iff)

lemma redact_fixes_secret_free: "secret_free v \<Longrightarrow> redactAuditValue v = v"
proof (induction v rule: redactAuditValue.induct)
  case (1 xs)
  then show ?case by (auto simp: list_all_iff intro: map_idI)
next
  case (2 kvs)
  have "map (\<lambda>(k, v). (k, redactAuditValue v)) kvs = kvs"
    using 2 by (intro map_idI) (auto simp: list_all_iff)
  moreover have "filter (\<lambda>kv. \<not> isSecretKey (fst kv)) kvs = kvs"
    using 2(2) by (auto simp: list_all_iff filter_id_conv)
  ultimately show ?case by simp
qed auto

lemma redactAuditValue_idem [simp]: "redactAuditValue (redactAuditValue v) = redactAuditValue v"
  by (simp add: redact_fixes_secret_free redact_secret_free)

lemma recordAuditEvent_never_throws: "fst (recordAuditEvent e evt s) = Inr ()"
  by (simp add: recordAuditEvent_def act_simps)

lemma recordAuditEvent_state:
  "snd (recordAuditEvent e evt s) = s
   \<or> snd (recordAuditEvent e evt s) = s\<lparr>audit_log := audit_log s @ [audit_row_of evt]\<rparr>"
  by (auto simp: recordAuditEvent_def act_simps exec_def split: option.splits fault.splits)

lemma recordAuditEvent_frame [simp]:
  "organizations (snd (recordAuditEvent e evt s)) = organizations s"
  "members (snd (recordAuditEvent e evt s)) = members s"
  "users (snd (recordAuditEvent e evt s)) = users s"
  "platform_admins (snd (recordAuditEvent e evt s)) = platform_admins s"
  "sso_orgs (snd (recordAuditEvent e evt s)) = sso_orgs s"
  "invitations (snd (recordAuditEvent e evt s)) = invitations s"
  "identities (snd (recordAuditEvent e evt s)) = identities s"
  "api_keys (snd (recordAuditEvent e evt s)) = api_keys s"
  "credit_ledger (snd (recordAuditEvent e evt s)) = credit_ledger s"
  "recharge_settings (snd (recordAuditEvent e evt s)) = recharge_settings s"
  "recharge_attempts (snd (recordAuditEvent e evt s)) = recharge_attempts s"
  "user_bans (snd (recordAuditEvent e evt s)) = user_bans s"
  "sso_cache (snd (recordAuditEvent e evt s)) = sso_cache s"
  using recordAuditEvent_state [of e evt s] by (elim disjE; simp)+

lemma recordAuditEvent_apply:
  "\<exists>t. recordAuditEvent e evt s = (Inr (), t)
     \<and> (t = s \<or> t = s\<lparr>audit_log := audit_log s @ [audit_row_of evt]\<rparr>)"
  using recordAuditEvent_state [of e evt s] recordAuditEvent_never_throws [of e evt s]
  by (metis prod.collapse)

lemma bind_recordAuditEvent [simp]:
  "bind (recordAuditEvent e evt) (\<lambda>u. m) s = m (snd (recordAuditEvent e evt s))"
  using recordAuditEvent_never_throws [of e evt s]
  by (cases "recordAuditEvent e evt s") (simp add: bind_apply)

lemma keeps_audit [keeps_intros]:
  assumes "\<And>s rows. P s \<Longrightarrow> P (s\<lparr>audit_log := rows\<rparr>)"
  shows "keeps P (recordAuditEvent e evt)"
  using assms recordAuditEvent_state [of e evt] unfolding keeps_def by metis

lemma keeps_audit_clean: "keeps audit_clean (recordAuditEvent e evt)"
proof -
  have "audit_clean (s\<lparr>audit_log := audit_log s @ [audit_row_of evt]\<rparr>)" if "audit_clean s" for s
    using that by (auto simp: audit_clean_def audit_row_of_def redact_secret_free split: option.split)
  then show ?thesis using recordAuditEvent_state [of e evt] unfolding keeps_def by metis
qed

text \<open>
  Redaction removes every secret-named key at every depth and nothing else: the result
  holds no key containing one of the fragments, and a snapshot without such keys is unchanged.
\<close>

theorem redaction_complete_and_minimal:
  "secret_free (redactAuditValue v) \<and> (secret_free v \<longrightarrow> redactAuditValue v = v)"
  by (simp add: redact_secret_free redact_fixes_secret_free)

theorem redaction_complete_and_minimal_witness:
  "secret_free (JObj [(''name'', JStr ''ci'')])
   \<and> redactAuditValue (JObj [(''name'', JStr ''ci'')]) = JObj [(''name'', JStr ''ci'')]"
proof -
  have "secret_free (JObj [(''name'', JStr ''ci'')])" by code_simp
  then show ?thesis using redaction_complete_and_minimal [of "JObj [(''name'', JStr ''ci'')]"] by blast
qed

end
