(* ===== verification/Org_Access.thy ===== *)
theory Org_Access
  imports Audit_Trail
begin

text \<open>
  Who may touch which organization: \<open>lib/auth/claims.ts\<close>, \<open>lib/auth/server.ts\<close>,
  \<open>lib/auth/admin.ts\<close>, \<open>lib/auth/orgs.ts\<close>, \<open>lib/auth/org-access.ts\<close>, \<open>lib/auth/admin-orgs.ts\<close>,
  \<open>lib/data-cache.ts\<close>, \<open>lib/active-org.ts\<close> and \<open>app/api/active-org/route.ts\<close>.

  The gates read the tables under the session's own row-level security, which the explicit user
  filters of the sources repeat. They change no table; the only state they write is the
  process-level SSO cache. The request-scoped \<open>cache()\<close> wrappers make a repeated read of one
  request return the first answer, which a read of the unchanged state does as well.
\<close>

section \<open>The session\<close>

record auth_user =
  usr_id :: string
  usr_email :: "string option"

definition authenticatedUserFromClaims :: "json \<Rightarrow> auth_user option" where
  "authenticatedUserFromClaims claims =
     (case jstr (jget ''sub'' claims) of
        None \<Rightarrow> None
      | Some sub \<Rightarrow> if sub = '''' then None
                    else Some \<lparr>usr_id = sub, usr_email = jstr (jget ''email'' claims)\<rparr>)"

definition getAuthenticatedUser :: "env \<Rightarrow> auth_user option" where
  "getAuthenticatedUser e =
     (if \<not> auth_cookie e then None
      else (case jwt_claims e of None \<Rightarrow> None | Some claims \<Rightarrow> authenticatedUserFromClaims claims))"

definition requireAuthenticatedUser :: "env \<Rightarrow> auth_user act" where
  "requireAuthenticatedUser e =
     (case getAuthenticatedUser e of None \<Rightarrow> throw AuthRequired | Some u \<Rightarrow> ret u)"

definition is_admin_user :: "db \<Rightarrow> string \<Rightarrow> bool" where
  "is_admin_user s uid = List.member (platform_admins s) uid"

definition isPlatformAdmin :: "env \<Rightarrow> bool act" where
  "isPlatformAdmin e =
     (case getAuthenticatedUser e of
        None \<Rightarrow> ret False
      | Some user \<Rightarrow>
          bind (query (faults e ''platform_admins'') (\<lambda>s. is_admin_user s (usr_id user)))
               (orThrow ''Unable to verify platform admin status: ''))"

definition requirePlatformAdmin :: "env \<Rightarrow> unit act" where
  "requirePlatformAdmin e =
     bind (isPlatformAdmin e) (\<lambda>ok. if ok then ret () else throw (DataSourceNotFound ''Not found''))"

section \<open>The authorized map\<close>

type_synonym authorized = "(string, string) jsmap"

definition setIdentifierKeys :: "authorized \<Rightarrow> org_row list \<Rightarrow> authorized" where
  "setIdentifierKeys orgIds orgs =
     fold (\<lambda>org. map_set (o_id org) (o_id org)) orgs
       (fold (\<lambda>org. map_set (o_slug org) (o_id org)) orgs orgIds)"

definition member_orgs :: "db \<Rightarrow> string \<Rightarrow> org_row list" where
  "member_orgs s uid =
     List.map_filter (\<lambda>m. if m_user m = uid then first_where (\<lambda>org. o_id org = m_org m) (organizations s) else None)
       (members s)"

definition listMembershipOrgIds :: "env \<Rightarrow> authorized act" where
  "listMembershipOrgIds e =
     bind (requireAuthenticatedUser e) (\<lambda>user.
     bind (query (faults e ''organization_members'') (\<lambda>s. member_orgs s (usr_id user))) (\<lambda>r.
     bind (orThrow ''Unable to verify organization membership: '' r) (\<lambda>memberOrgs.
     ret (setIdentifierKeys [] memberOrgs))))"

definition listAuthorizedOrgIds :: "env \<Rightarrow> authorized act" where
  "listAuthorizedOrgIds e =
     bind (isPlatformAdmin e) (\<lambda>admin.
     if \<not> admin then listMembershipOrgIds e
     else bind (query (faults e ''organizations'') organizations) (\<lambda>r.
          bind (orThrow ''Unable to verify organization access: '' r) (\<lambda>rows.
          ret (setIdentifierKeys [] rows))))"

definition requireAuthorizedOrgIds :: "env \<Rightarrow> authorized act" where
  "requireAuthorizedOrgIds e =
     bind (requireAuthenticatedUser e) (\<lambda>_. listAuthorizedOrgIds e)"

section \<open>The SSO requirement\<close>

definition SSO_AMR_METHOD :: string where
  "SSO_AMR_METHOD = ''sso/saml''"

definition SSO_REQUIRED_TTL_MS :: int where
  "SSO_REQUIRED_TTL_MS = 30000"

definition org_sso_required :: "string \<Rightarrow> db \<Rightarrow> bool" where
  "org_sso_required oid s = List.member (sso_orgs s) oid"

definition getOrgSsoRequired :: "env \<Rightarrow> string \<Rightarrow> bool act" where
  "getOrgSsoRequired e oid =
     bind get_state (\<lambda>s0.
     (let cached = map_get (sso_cache s0) oid in
      if (case cached of None \<Rightarrow> False | Some c \<Rightarrow> now_ms e < sso_expires_at c)
      then ret (case cached of None \<Rightarrow> False | Some c \<Rightarrow> sso_value c)
      else bind (query (faults e ''org_sso_required'') (org_sso_required oid)) (\<lambda>r.
           case r of
             Inl err \<Rightarrow> ret (case cached of None \<Rightarrow> False | Some c \<Rightarrow> sso_value c)
           | Inr v \<Rightarrow>
               bind (modify (\<lambda>s. s\<lparr>sso_cache :=
                       map_set oid \<lparr>sso_value = v, sso_expires_at = now_ms e + SSO_REQUIRED_TTL_MS\<rparr> (sso_cache s)\<rparr>))
                    (\<lambda>_. ret v))))"

datatype org_access_role = User | Admin

definition role_of :: "string \<Rightarrow> org_access_role" where
  "role_of r = (if r = ''admin'' then Admin else User)"

definition getMembershipRole :: "env \<Rightarrow> string \<Rightarrow> string \<Rightarrow> org_access_role option act" where
  "getMembershipRole e uid oid =
     bind (query (faults e ''organization_members.role'')
             (\<lambda>s. first_where (\<lambda>m. m_user m = uid \<and> m_org m = oid) (members s))) (\<lambda>r.
     bind (orThrow ''Unable to verify organization role: '' r) (\<lambda>row.
     ret (map_option (\<lambda>m. role_of (m_role m)) row)))"

type_synonym amr_entry = "string \<times> jsnum"

definition amr_entry_of :: "json \<Rightarrow> amr_entry option" where
  "amr_entry_of entry =
     (case (jget ''method'' entry, jget ''timestamp'' entry) of
        (Some (JStr m), Some (JNum t)) \<Rightarrow> Some (m, t)
      | _ \<Rightarrow> None)"

fun latest_amr :: "amr_entry option \<Rightarrow> json list \<Rightarrow> amr_entry option" where
  "latest_amr latest [] = latest"
| "latest_amr latest (entry # rest) =
     (case amr_entry_of entry of
        None \<Rightarrow> latest_amr latest rest
      | Some c \<Rightarrow>
          (case latest of
             None \<Rightarrow> latest_amr (Some c) rest
           | Some l \<Rightarrow> latest_amr (if js_lt (snd l) (snd c) then Some c else Some l) rest))"

definition getLatestAuthMethod :: "env \<Rightarrow> string option" where
  "getLatestAuthMethod e =
     (case jwt_claims e of
        None \<Rightarrow> None
      | Some claims \<Rightarrow>
          (case jget ''amr'' claims of
             Some (JArr entries) \<Rightarrow> map_option fst (latest_amr None entries)
           | _ \<Rightarrow> None))"

fun slugForOrgId :: "authorized \<Rightarrow> string \<Rightarrow> string" where
  "slugForOrgId [] oid = oid"
| "slugForOrgId ((key, v) # rest) oid = (if v = oid \<and> key \<noteq> oid then key else slugForOrgId rest oid)"

section \<open>The gate\<close>

definition not_found_org :: "string \<Rightarrow> app_error" where
  "not_found_org ident = DataSourceNotFound (''Organization not found: '' @ ident)"

definition requireRole :: "env \<Rightarrow> string \<Rightarrow> string \<Rightarrow> string \<Rightarrow> unit act" where
  "requireRole e uid oid ident =
     bind (getMembershipRole e uid oid) (\<lambda>role.
     case role of
       None \<Rightarrow> throw (not_found_org ident)
     | Some Admin \<Rightarrow> ret ()
     | Some User \<Rightarrow> throw (DataSourceRequest ''Organization admin role required.'' 403 None None))"

definition requireSso :: "env \<Rightarrow> authorized \<Rightarrow> string \<Rightarrow> unit act" where
  "requireSso e authorizedOrgIds oid =
     bind (getOrgSsoRequired e oid) (\<lambda>required.
     if required \<and> getLatestAuthMethod e \<noteq> Some SSO_AMR_METHOD
     then throw (SsoStepUpRequired oid (slugForOrgId authorizedOrgIds oid))
     else ret ())"

definition requireOrgAccess :: "env \<Rightarrow> string \<Rightarrow> org_access_role \<Rightarrow> (string \<times> string) act" where
  "requireOrgAccess e orgIdentifier minimumRole =
     bind (requireAuthenticatedUser e) (\<lambda>user.
     bind (listAuthorizedOrgIds e) (\<lambda>authorizedOrgIds.
     case map_get authorizedOrgIds orgIdentifier of
       None \<Rightarrow> throw (not_found_org orgIdentifier)
     | Some oid \<Rightarrow>
         bind (isPlatformAdmin e) (\<lambda>platformAdmin.
         bind (if \<not> platformAdmin \<and> minimumRole = Admin
               then requireRole e (usr_id user) oid orgIdentifier else ret ()) (\<lambda>_.
         bind (if \<not> platformAdmin then requireSso e authorizedOrgIds oid else ret ()) (\<lambda>_.
         ret (oid, slugForOrgId authorizedOrgIds oid))))))"

definition requireOrgId :: "env \<Rightarrow> string \<Rightarrow> string act" where
  "requireOrgId e orgIdentifier =
     bind (requireOrgAccess e orgIdentifier User) (\<lambda>(oid, slug). ret oid)"

definition delegatedRoleCheck :: "env \<Rightarrow> string \<Rightarrow> org_access_role \<Rightarrow> bool act" where
  "delegatedRoleCheck e oid minimumRole =
     catching (bind (requireOrgAccess e oid minimumRole) (\<lambda>_. ret True))
       (\<lambda>err. case err of
          SsoStepUpRequired a b \<Rightarrow> throw err
        | DataSourceNotFound m \<Rightarrow> ret False
        | DataSourceRequest m st c a \<Rightarrow> if st = 403 then ret False else throw err
        | _ \<Rightarrow> throw err)"

definition isOrgMember :: "env \<Rightarrow> string \<Rightarrow> bool act" where
  "isOrgMember e oid = delegatedRoleCheck e oid User"

definition isOrgAdmin :: "env \<Rightarrow> string \<Rightarrow> bool act" where
  "isOrgAdmin e oid = delegatedRoleCheck e oid Admin"

section \<open>The org list and the active organization\<close>

text \<open>
  The organization list comes from the Python backend (\<open>getDataSource().listOrgs()\<close>): its answer
  is the argument \<open>listOrgs\<close>.
\<close>

record org =
  org_id :: string
  org_slug :: string
  org_name :: string
  sso_required :: bool

definition lift_result :: "app_error + 'a \<Rightarrow> 'a act" where
  "lift_result r = (case r of Inl err \<Rightarrow> throw err | Inr x \<Rightarrow> ret x)"

definition filterAuthorizedOrgs :: "org list \<Rightarrow> authorized \<Rightarrow> org list" where
  "filterAuthorizedOrgs orgs authorizedOrgIds =
     filter (\<lambda>org. map_get authorizedOrgIds (org_id org) \<noteq> None) orgs"

definition tagSsoRequiredOrgs :: "env \<Rightarrow> org list \<Rightarrow> org list act" where
  "tagSsoRequiredOrgs e orgs =
     (if orgs = [] then ret []
      else bind (query (faults e ''sso_required_org_ids'')
                  (\<lambda>s. filter (\<lambda>oid. org_sso_required oid s) (map org_id orgs))) (\<lambda>r.
           ret (case r of
                  Inl err \<Rightarrow> map (\<lambda>org. org\<lparr>sso_required := False\<rparr>) orgs
                | Inr required \<Rightarrow> map (\<lambda>org. org\<lparr>sso_required := List.member required (org_id org)\<rparr>) orgs)))"

definition names_org :: "string \<Rightarrow> org \<Rightarrow> bool" where
  "names_org ident org \<longleftrightarrow> org_slug org = ident \<or> org_id org = ident"

definition getOrgCached :: "app_error + org list \<Rightarrow> string \<Rightarrow> org act" where
  "getOrgCached listOrgs orgIdentifier =
     bind (lift_result listOrgs) (\<lambda>orgs.
     case first_where (names_org orgIdentifier) orgs of
       None \<Rightarrow> throw (not_found_org orgIdentifier)
     | Some org \<Rightarrow> ret org)"

definition requireOrg :: "env \<Rightarrow> app_error + org list \<Rightarrow> string \<Rightarrow> org act" where
  "requireOrg e listOrgs orgIdentifier =
     bind (requireOrgId e orgIdentifier) (\<lambda>oid. getOrgCached listOrgs oid)"

definition loadOrgShell :: "env \<Rightarrow> app_error + org list \<Rightarrow> string \<Rightarrow> (org list \<times> org) act" where
  "loadOrgShell e listOrgs orgIdentifier =
     bind (listMembershipOrgIds e) (\<lambda>membershipOrgIds.
     bind (lift_result listOrgs) (\<lambda>allOrgs.
     bind (getOrgCached listOrgs orgIdentifier) (\<lambda>currentOrg.
     bind (tagSsoRequiredOrgs e (filterAuthorizedOrgs allOrgs membershipOrgIds)) (\<lambda>orgs.
     ret (orgs, currentOrg)))))"

definition chooseActiveOrg :: "string option \<Rightarrow> authorized \<Rightarrow> org list \<Rightarrow> org" where
  "chooseActiveOrg preferred membershipOrgIds orgs =
     (let preferredOrg = (case preferred of None \<Rightarrow> None | Some p \<Rightarrow> first_where (names_org p) orgs);
          memberOrg = first_where (\<lambda>org. map_get membershipOrgIds (org_id org) \<noteq> None
                                       \<or> map_get membershipOrgIds (org_slug org) \<noteq> None) orgs
      in (case preferredOrg of Some org \<Rightarrow> org
          | None \<Rightarrow> (case memberOrg of Some org \<Rightarrow> org | None \<Rightarrow> hd orgs)))"

definition selectSessionActiveOrg :: "env \<Rightarrow> app_error + org list \<Rightarrow> string option \<Rightarrow> org option act" where
  "selectSessionActiveOrg e listOrgs cookie =
     bind (requireAuthorizedOrgIds e) (\<lambda>authorizedOrgIds.
     bind (lift_result listOrgs) (\<lambda>allOrgs.
     bind (listMembershipOrgIds e) (\<lambda>membershipOrgIds.
     (let orgs = filterAuthorizedOrgs allOrgs authorizedOrgIds in
      if orgs = [] then ret None
      else (let selected = chooseActiveOrg cookie membershipOrgIds orgs in
            bind (requireOrgAccess e (org_id selected) User) (\<lambda>_. ret (Some selected)))))))"

datatype page = ShowOrg org | Redirect string

definition resolveActiveOrg :: "env \<Rightarrow> app_error + org list \<Rightarrow> string option \<Rightarrow> page act" where
  "resolveActiveOrg e listOrgs cookie =
     catching
       (bind (selectSessionActiveOrg e listOrgs cookie) (\<lambda>r.
        ret (case r of None \<Rightarrow> Redirect ''/orgs'' | Some org \<Rightarrow> ShowOrg org)))
       (\<lambda>err. case err of
          SsoStepUpRequired oid slug \<Rightarrow> ret (Redirect (''/signin?sso_required='' @ encodeURIComponent slug))
        | _ \<Rightarrow> throw err)"

definition resolveActiveOrgForTelemetry :: "env \<Rightarrow> app_error + org list \<Rightarrow> string option \<Rightarrow> org option act" where
  "resolveActiveOrgForTelemetry e listOrgs cookie =
     catching (selectSessionActiveOrg e listOrgs cookie) (\<lambda>err. ret None)"

definition findAuthorizedOrg :: "env \<Rightarrow> app_error + org list \<Rightarrow> string \<Rightarrow> org option act" where
  "findAuthorizedOrg e listOrgs orgIdentifier =
     bind (requireAuthorizedOrgIds e) (\<lambda>authorizedOrgIds.
     bind (lift_result listOrgs) (\<lambda>allOrgs.
     ret (first_where (names_org orgIdentifier) (filterAuthorizedOrgs allOrgs authorizedOrgIds))))"

definition active_org_POST :: "env \<Rightarrow> app_error + org list \<Rightarrow> json option \<Rightarrow> (resp \<times> string option) act" where
  "active_org_POST e listOrgs request =
     (case jstr (Option.bind request (jget ''org'')) of
        None \<Rightarrow> ret (error_resp ''Body must be {\"org\": \"<slug or id>\"}.'' 400, None)
      | Some orgIdentifier \<Rightarrow>
          bind (findAuthorizedOrg e listOrgs orgIdentifier) (\<lambda>found.
          case found of
            None \<Rightarrow> ret (error_resp ''Unknown organization.'' 404, None)
          | Some org \<Rightarrow>
              ret (jsonOk (JObj [(''ok'', JBool True), (''org'', JStr (org_slug org))]), Some (org_slug org))))"

section \<open>The authorized map resolves identifiers correctly\<close>

lemma map_of_fold_set:
  "map_of (fold (\<lambda>x. map_set (f x) (g x)) xs m) k =
     (case List.find (\<lambda>x. f x = k) (rev xs) of Some x \<Rightarrow> Some (g x) | None \<Rightarrow> map_of m k)"
  by (induction xs rule: rev_induct) (auto simp: update_conv')

lemma setIdentifierKeys_SomeD:
  assumes "map_get (setIdentifierKeys [] orgs) k = Some v"
  obtains org where "org \<in> set orgs" and "v = o_id org" and "k = o_id org \<or> k = o_slug org"
proof -
  have "\<exists>org\<in>set orgs. v = o_id org \<and> (k = o_id org \<or> k = o_slug org)"
    using assms
    by (auto simp: setIdentifierKeys_def map_of_fold_set find_Some_iff find_None_iff split: option.splits)
       (metis nth_mem set_rev length_rev)+
  then show thesis using that by blast
qed

lemma setIdentifierKeys_uuid:
  assumes "org \<in> set orgs"
  shows "map_get (setIdentifierKeys [] orgs) (o_id org) = Some (o_id org)"
proof -
  obtain x where x: "List.find (\<lambda>x. o_id x = o_id org) (rev orgs) = Some x"
    using assms by (cases "List.find (\<lambda>x. o_id x = o_id org) (rev orgs)") (auto simp: find_None_iff)
  then have "o_id x = o_id org" by (auto simp: find_Some_iff)
  with x show ?thesis by (simp add: setIdentifierKeys_def map_of_fold_set)
qed

lemma setIdentifierKeys_None:
  assumes "\<And>org. org \<in> set orgs \<Longrightarrow> k \<noteq> o_id org \<and> k \<noteq> o_slug org"
  shows "map_get (setIdentifierKeys [] orgs) k = None"
proof (rule ccontr)
  assume "map_get (setIdentifierKeys [] orgs) k \<noteq> None"
  then show False using assms by (auto elim!: setIdentifierKeys_SomeD)
qed

lemma member_orgs_iff:
  assumes "org \<in> set (member_orgs s uid)"
  shows "\<exists>m\<in>set (members s). m_user m = uid \<and> m_org m = o_id org \<and> org \<in> set (organizations s)"
  using assms
  by (auto simp: member_orgs_def in_set_map_filter dest!: first_where_SomeD split: if_splits)

section \<open>What the gates read\<close>

lemma requireAuthenticatedUser_InrE:
  assumes "requireAuthenticatedUser e s = (Inr u, t)"
  obtains "getAuthenticatedUser e = Some u" and "t = s"
  using assms by (auto simp: requireAuthenticatedUser_def split: option.splits)

lemma isPlatformAdmin_InrE:
  assumes "isPlatformAdmin e s = (Inr b, t)"
  obtains "t = s" and "b \<longleftrightarrow> (\<exists>u. getAuthenticatedUser e = Some u \<and> is_admin_user s (usr_id u))"
  using assms
  by (auto simp: isPlatformAdmin_def elim!: bind_InrE orThrow_InrE dest!: read_db_InrD split: option.splits)

lemma listMembershipOrgIds_InrE:
  assumes "listMembershipOrgIds e s = (Inr m, t)"
  obtains u where "getAuthenticatedUser e = Some u" and "t = s"
    and "m = setIdentifierKeys [] (member_orgs s (usr_id u))"
  using assms
  by (auto simp: listMembershipOrgIds_def
           elim!: bind_InrE orThrow_InrE requireAuthenticatedUser_InrE dest!: read_db_InrD)

lemma listAuthorizedOrgIds_InrE:
  assumes "listAuthorizedOrgIds e s = (Inr m, t)"
  obtains u where "getAuthenticatedUser e = Some u" and "t = s" and "is_admin_user s (usr_id u)"
      and "m = setIdentifierKeys [] (organizations s)"
  | u where "getAuthenticatedUser e = Some u" and "t = s" and "\<not> is_admin_user s (usr_id u)"
      and "m = setIdentifierKeys [] (member_orgs s (usr_id u))"
proof -
  from assms obtain adm where p: "isPlatformAdmin e s = (Inr adm, s)"
    and r: "(if \<not> adm then listMembershipOrgIds e
             else bind (query (faults e ''organizations'') organizations) (\<lambda>r.
               bind (orThrow ''Unable to verify organization access: '' r) (\<lambda>rows.
               ret (setIdentifierKeys [] rows)))) s = (Inr m, t)"
    unfolding listAuthorizedOrgIds_def by (auto elim!: bind_InrE elim: isPlatformAdmin_InrE)
  from p have a: "adm \<longleftrightarrow> (\<exists>u. getAuthenticatedUser e = Some u \<and> is_admin_user s (usr_id u))"
    by (auto elim: isPlatformAdmin_InrE)
  show thesis
  proof (cases adm)
    case True
    then show thesis using a r that(1) by (auto elim!: bind_InrE orThrow_InrE dest!: read_db_InrD)
  next
    case False
    then show thesis using a r that(2) by (auto elim!: listMembershipOrgIds_InrE)
  qed
qed

definition same_tables :: "db \<Rightarrow> db \<Rightarrow> bool" where
  "same_tables s t \<longleftrightarrow> s\<lparr>sso_cache := []\<rparr> = t\<lparr>sso_cache := []\<rparr>"

lemma same_tables_refl [simp]: "same_tables s s"
  by (simp add: same_tables_def)

lemma same_tables_cache [simp]: "same_tables s (s\<lparr>sso_cache := c\<rparr>)"
  by (simp add: same_tables_def)

lemma same_tables_trans [trans]: "same_tables s t \<Longrightarrow> same_tables t u \<Longrightarrow> same_tables s u"
  by (simp add: same_tables_def)

lemma keeps_requireAuthenticatedUser [keeps_intros]: "keeps P (requireAuthenticatedUser e)"
  unfolding requireAuthenticatedUser_def by (intro keeps_intros)

lemma keeps_isPlatformAdmin [keeps_intros]: "keeps P (isPlatformAdmin e)"
  unfolding isPlatformAdmin_def by (intro keeps_intros)

lemma keeps_requirePlatformAdmin [keeps_intros]: "keeps P (requirePlatformAdmin e)"
  unfolding requirePlatformAdmin_def by (intro keeps_intros)

lemma keeps_listMembershipOrgIds [keeps_intros]: "keeps P (listMembershipOrgIds e)"
  unfolding listMembershipOrgIds_def by (intro keeps_intros)

lemma keeps_listAuthorizedOrgIds [keeps_intros]: "keeps P (listAuthorizedOrgIds e)"
  unfolding listAuthorizedOrgIds_def by (intro keeps_intros)

lemmas isPlatformAdmin_state = reads_only [OF keeps_isPlatformAdmin]
lemmas listMembershipOrgIds_state = reads_only [OF keeps_listMembershipOrgIds]
lemmas listAuthorizedOrgIds_state = reads_only [OF keeps_listAuthorizedOrgIds]

lemma keeps_getOrgSsoRequired:
  assumes "\<And>s c. P s \<Longrightarrow> P (s\<lparr>sso_cache := c\<rparr>)"
  shows "keeps P (getOrgSsoRequired e oid)"
  unfolding getOrgSsoRequired_def Let_def by (intro keeps_intros keeps_modify assms)

lemma keeps_requireOrgAccess [keeps_intros]:
  assumes "\<And>s c. P s \<Longrightarrow> P (s\<lparr>sso_cache := c\<rparr>)"
  shows "keeps P (requireOrgAccess e ident r)"
proof -
  have role: "keeps P (requireRole e uid oid i)" for uid oid i
    unfolding requireRole_def getMembershipRole_def
    by (intro keeps_intros) (auto split: org_access_role.split intro: keeps_intros)
  have sso: "keeps P (requireSso e m oid)" for m oid
    unfolding requireSso_def by (intro keeps_intros keeps_getOrgSsoRequired assms)
  show ?thesis unfolding requireOrgAccess_def by (intro keeps_intros role sso)
qed

lemma keeps_requireOrgId [keeps_intros]:
  "(\<And>s c. P s \<Longrightarrow> P (s\<lparr>sso_cache := c\<rparr>)) \<Longrightarrow> keeps P (requireOrgId e ident)"
  unfolding requireOrgId_def by (intro keeps_intros) auto

lemma keeps_isOrgAdmin [keeps_intros]:
  "(\<And>s c. P s \<Longrightarrow> P (s\<lparr>sso_cache := c\<rparr>)) \<Longrightarrow> keeps P (isOrgAdmin e ident)"
  unfolding isOrgAdmin_def delegatedRoleCheck_def
  by (intro keeps_intros) (auto split: app_error.split intro: keeps_intros)

lemma requireOrgAccess_same_tables: "same_tables s (snd (requireOrgAccess e ident r s))"
  using keepsD [OF keeps_requireOrgAccess [of "same_tables s"]] by (simp add: same_tables_def)

section \<open>Soundness of the gate\<close>

text \<open>
  \<open>sso_satisfied\<close> is the SSO clause of the gate as a predicate on the state the gate saw: an
  unexpired cache entry decides, else the database does, else the last known value.
\<close>

definition sso_decision :: "env \<Rightarrow> db \<Rightarrow> string \<Rightarrow> bool" where
  "sso_decision e s oid =
     (let cached = map_get (sso_cache s) oid;
          known = (case cached of None \<Rightarrow> False | Some c \<Rightarrow> sso_value c) in
      if (case cached of None \<Rightarrow> False | Some c \<Rightarrow> now_ms e < sso_expires_at c) then known
      else (case faults e ''org_sso_required'' of None \<Rightarrow> org_sso_required oid s | Some _ \<Rightarrow> known))"

lemma getOrgSsoRequired_value: "fst (getOrgSsoRequired e oid s) = Inr (sso_decision e s oid)"
  by (auto simp: getOrgSsoRequired_def sso_decision_def Let_def act_simps read_db_def
           split: option.splits fault.splits)

lemma getMembershipRole_InrE:
  assumes "getMembershipRole e uid oid s = (Inr r, t)"
  obtains "t = s" and "r = map_option (\<lambda>m. role_of (m_role m))
                          (first_where (\<lambda>m. m_user m = uid \<and> m_org m = oid) (members s))"
  using assms by (auto simp: getMembershipRole_def elim!: bind_InrE orThrow_InrE dest!: read_db_InrD)

lemma requireRole_InrE:
  assumes "requireRole e uid oid ident s = (Inr (), t)"
  obtains m where "t = s" and "m \<in> set (members s)" and "m_user m = uid" and "m_org m = oid" and "m_role m = ''admin''"
proof -
  from assms obtain r t' where r: "getMembershipRole e uid oid s = (Inr r, t')" "r = Some Admin" "t = t'"
    unfolding requireRole_def
    by (auto elim!: bind_InrE split: option.splits org_access_role.splits)
  from r(1) have "t' = s" "map_option (\<lambda>m. role_of (m_role m))
      (first_where (\<lambda>m. m_user m = uid \<and> m_org m = oid) (members s)) = Some Admin"
    using r(2) by (metis getMembershipRole_InrE)+
  then obtain m where "first_where (\<lambda>m. m_user m = uid \<and> m_org m = oid) (members s) = Some m"
    and "role_of (m_role m) = Admin" by auto
  then show thesis using that r \<open>t' = s\<close>
    by (auto dest!: first_where_SomeD simp: role_of_def split: if_splits)
qed

lemma requireSso_InrE:
  assumes "requireSso e m oid s = (Inr (), t)"
  obtains "sso_decision e s oid \<longrightarrow> getLatestAuthMethod e = Some SSO_AMR_METHOD"
    and "t = snd (getOrgSsoRequired e oid s)"
  using assms getOrgSsoRequired_value [of e oid s]
  by (auto simp: requireSso_def elim!: bind_InrE split: if_splits)

definition authorized_for :: "db \<Rightarrow> env \<Rightarrow> string \<Rightarrow> org_access_role \<Rightarrow> bool" where
  "authorized_for s e oid r =
     (case getAuthenticatedUser e of
        None \<Rightarrow> False
      | Some u \<Rightarrow>
          is_admin_user s (usr_id u) \<or>
          (list_ex (\<lambda>m. m_user m = usr_id u \<and> m_org m = oid \<and> (r = Admin \<longrightarrow> m_role m = ''admin'')) (members s)
           \<and> (sso_decision e s oid \<longrightarrow> getLatestAuthMethod e = Some SSO_AMR_METHOD)))"

lemma requireOrgAccess_InrE:
  assumes "requireOrgAccess e ident r s = (Inr (oid, slug), t)"
  obtains org where "authorized_for s e oid r" and "org \<in> set (organizations s)" and "oid = o_id org"
    and "ident = o_id org \<or> ident = o_slug org"
proof -
  from assms obtain u m t1 padm where u: "getAuthenticatedUser e = Some u"
    and m: "listAuthorizedOrgIds e s = (Inr m, s)" and oid: "map_get m ident = Some oid"
    and p: "isPlatformAdmin e s = (Inr padm, s)"
    and ro: "(if \<not> padm \<and> r = Admin then requireRole e (usr_id u) oid ident else ret ()) s = (Inr (), t1)"
    and ss: "(if \<not> padm then requireSso e m oid else ret ()) t1 = (Inr (), t)"
    unfolding requireOrgAccess_def
    by (auto elim!: bind_InrE requireAuthenticatedUser_InrE split: option.splits)
       (metis listAuthorizedOrgIds_state isPlatformAdmin_state)
  have adm: "padm \<longleftrightarrow> is_admin_user s (usr_id u)" using p u by (auto elim: isPlatformAdmin_InrE)
  have t1: "t1 = s" using ro by (auto elim: requireRole_InrE split: if_splits)
  from m have mm: "m = setIdentifierKeys [] (if is_admin_user s (usr_id u) then organizations s
                                              else member_orgs s (usr_id u))"
    using u by (auto elim: listAuthorizedOrgIds_InrE)
  with oid obtain org where org: "oid = o_id org" "ident = o_id org \<or> ident = o_slug org"
    "org \<in> set (if is_admin_user s (usr_id u) then organizations s else member_orgs s (usr_id u))"
    by (auto elim!: setIdentifierKeys_SomeD)
  have "authorized_for s e oid r"
  proof (cases padm)
    case True
    then show ?thesis using adm u by (simp add: authorized_for_def)
  next
    case False
    then have "sso_decision e s oid \<longrightarrow> getLatestAuthMethod e = Some SSO_AMR_METHOD"
      using ss t1 by (auto elim: requireSso_InrE)
    moreover have "list_ex (\<lambda>m. m_user m = usr_id u \<and> m_org m = oid \<and> (r = Admin \<longrightarrow> m_role m = ''admin'')) (members s)"
    proof (cases "r = Admin")
      case True
      then show ?thesis using ro False by (auto simp: list_ex_iff elim: requireRole_InrE)
    next
      case nonadm: False
      then show ?thesis using org False adm by (auto simp: list_ex_iff dest: member_orgs_iff)
    qed
    ultimately show ?thesis using u by (simp add: authorized_for_def)
  qed
  then show thesis using that org by (auto dest: member_orgs_iff split: if_splits)
qed

text \<open>
  C1. The gate is sound: whenever it lets a request through, the session is a verified user who is
  a platform operator, or a member of exactly the returned organization, at the admin role when
  the caller asked for it, whose latest authentication method is the identity provider's if the
  organization is known to require SSO; the identifier names that organization, and the call
  changed no table.
\<close>

theorem requireOrgAccess_sound:
  assumes "requireOrgAccess e ident r s = (Inr (oid, slug), t)"
  shows "authorized_for s e oid r
         \<and> (\<exists>org\<in>set (organizations s). oid = o_id org \<and> (ident = o_id org \<or> ident = o_slug org))
         \<and> same_tables s t"
proof -
  have t: "same_tables s t" using requireOrgAccess_same_tables [of s e ident r] assms by simp
  show ?thesis by (rule requireOrgAccess_InrE [OF assms]) (use t in blast)
qed

theorem requireOrgAccess_sound_witness:
  "authorized_for sample_db sample_env ''o1'' Admin"
proof -
  have "fst (requireOrgAccess sample_env ''acme'' Admin sample_db) = Inr (''o1'', ''acme'')" by code_simp
  then show ?thesis using requireOrgAccess_sound [of sample_env "''acme''" Admin sample_db "''o1''" "''acme''"]
    by (metis prod.collapse)
qed

text \<open>
  A caller who is no member learns nothing: with the reads answering, the gate throws the
  resource 404 for every identifier that names none of the caller's organizations, whether or
  not such an organization exists and whatever it requires; it never throws the 403 or the
  step-up signal, and leaves the state alone.
\<close>

theorem requireOrgAccess_nonmember:
  assumes "getAuthenticatedUser e = Some u" and "\<not> is_admin_user s (usr_id u)"
    and "faults e ''platform_admins'' = None" and "faults e ''organization_members'' = None"
    and "\<forall>org\<in>set (member_orgs s (usr_id u)). ident \<noteq> o_id org \<and> ident \<noteq> o_slug org"
  shows "requireOrgAccess e ident r s = (Inl (not_found_org ident), s)"
proof -
  have "map_get (setIdentifierKeys [] (member_orgs s (usr_id u))) ident = None"
    using assms(5) by (intro setIdentifierKeys_None) blast
  then show ?thesis using assms(1-4)
    by (simp add: requireOrgAccess_def requireAuthenticatedUser_def listAuthorizedOrgIds_def
        listMembershipOrgIds_def isPlatformAdmin_def orThrow_def act_simps)
qed

theorem requireOrgAccess_nonmember_witness:
  "requireOrgAccess sample_env ''globex'' Admin sample_db = (Inl (not_found_org ''globex''), sample_db)"
proof (rule requireOrgAccess_nonmember)
  show "getAuthenticatedUser sample_env = Some \<lparr>usr_id = ''u1'', usr_email = Some ''ada@acme.test''\<rparr>" by code_simp
  show "\<not> is_admin_user sample_db (usr_id \<lparr>usr_id = ''u1'', usr_email = Some ''ada@acme.test''\<rparr>)" by code_simp
  show "\<forall>org\<in>set (member_orgs sample_db (usr_id \<lparr>usr_id = ''u1'', usr_email = Some ''ada@acme.test''\<rparr>)).
          ''globex'' \<noteq> o_id org \<and> ''globex'' \<noteq> o_slug org" by code_simp
qed (simp_all add: sample_env_def)

text \<open>
  Addressing is unambiguous: in the map built from a list of organizations every UUID resolves
  to its own organization (a slug spelled like another organization's UUID cannot hijack it), and
  every key resolves to an organization of the list that bears it.
\<close>

theorem identifier_keys_resolve:
  "(org \<in> set orgs \<longrightarrow> map_get (setIdentifierKeys [] orgs) (o_id org) = Some (o_id org))
   \<and> (map_get (setIdentifierKeys [] orgs) k = Some v \<longrightarrow>
        (\<exists>org\<in>set orgs. v = o_id org \<and> (k = o_id org \<or> k = o_slug org)))"
  by (auto simp: setIdentifierKeys_uuid elim: setIdentifierKeys_SomeD)

theorem identifier_keys_resolve_witness:
  "map_get (setIdentifierKeys [] (organizations sample_db)) ''o1'' = Some ''o1''"
proof -
  have "hd (organizations sample_db) \<in> set (organizations sample_db)" "o_id (hd (organizations sample_db)) = ''o1''"
    by (simp_all add: sample_db_def)
  then show ?thesis
    using identifier_keys_resolve [of "hd (organizations sample_db)" "organizations sample_db"] by metis
qed

section \<open>The SSO cache\<close>

text \<open>
  \<open>pod oid t s\<close>: the state \<open>s\<close> of a running process whose last gate call was at time \<open>t\<close>.
  \<open>bound oid t0 t s\<close>: a state reached from a running process in which organization \<open>oid\<close> has
  required SSO since time \<open>t0\<close>; other requests, with or without read failures, and arbitrary
  table changes may have happened in between.
\<close>

inductive pod :: "int \<Rightarrow> db \<Rightarrow> bool" where
  boot: "sso_cache s = [] \<Longrightarrow> pod t s"
| gate: "pod t s \<Longrightarrow> t \<le> now_ms e \<Longrightarrow> pod (now_ms e) (snd (getOrgSsoRequired e oid s))"
| tables: "pod t s \<Longrightarrow> sso_cache s' = sso_cache s \<Longrightarrow> pod t s'"

inductive bound :: "string \<Rightarrow> int \<Rightarrow> int \<Rightarrow> db \<Rightarrow> bool" for oid t0 where
  flip: "pod t s \<Longrightarrow> t \<le> t0 \<Longrightarrow> org_sso_required oid s \<Longrightarrow> bound oid t0 t0 s"
| gate: "bound oid t0 t s \<Longrightarrow> t \<le> now_ms e \<Longrightarrow> bound oid t0 (now_ms e) (snd (getOrgSsoRequired e oid' s))"
| tables: "bound oid t0 t s \<Longrightarrow> sso_cache s' = sso_cache s \<Longrightarrow> org_sso_required oid s' \<Longrightarrow> bound oid t0 t s'"

lemma getOrgSsoRequired_state_cases:
  "snd (getOrgSsoRequired e oid s) = s \<or>
   snd (getOrgSsoRequired e oid s) =
     s\<lparr>sso_cache := map_set oid \<lparr>sso_value = org_sso_required oid s,
                                sso_expires_at = now_ms e + SSO_REQUIRED_TTL_MS\<rparr> (sso_cache s)\<rparr>"
proof (cases "read_db (faults e ''org_sso_required'') (org_sso_required oid) s")
  case (Inl err)
  then show ?thesis by (simp add: getOrgSsoRequired_def Let_def act_simps split: option.split)
next
  case (Inr v)
  then have "v = org_sso_required oid s" by (auto dest: read_db_InrD)
  with Inr show ?thesis by (simp add: getOrgSsoRequired_def Let_def act_simps split: option.split)
qed

lemma pod_expiry: "pod t s \<Longrightarrow> map_get (sso_cache s) k = Some c \<Longrightarrow> sso_expires_at c \<le> t + SSO_REQUIRED_TTL_MS"
proof (induction arbitrary: c rule: pod.induct)
  case (gate t s e oid)
  show ?case
  proof (cases "map_get (sso_cache s) k = Some c")
    case True
    then show ?thesis using gate.IH [of c] gate.hyps(2) by linarith
  next
    case False
    then have "c = \<lparr>sso_value = org_sso_required oid s, sso_expires_at = now_ms e + SSO_REQUIRED_TTL_MS\<rparr>"
      using getOrgSsoRequired_state_cases [of e oid s] gate.prems
      by (elim disjE) (auto simp: update_conv' split: if_splits)
    then show ?thesis by simp
  qed
qed auto

lemma bound_required: "bound oid t0 t s \<Longrightarrow> org_sso_required oid s"
proof (induction rule: bound.induct)
  case (gate t s e oid')
  then show ?case using getOrgSsoRequired_state_cases [of e oid' s] by (auto simp: org_sso_required_def)
qed

lemma bound_cache:
  "bound oid t0 t s \<Longrightarrow> map_get (sso_cache s) oid = Some c \<Longrightarrow>
     sso_value c \<or> sso_expires_at c \<le> t0 + SSO_REQUIRED_TTL_MS"
proof (induction arbitrary: c rule: bound.induct)
  case (flip t s)
  show ?case using pod_expiry [OF flip.hyps(1) flip.prems] flip.hyps(2) by linarith
next
  case (gate t s e oid')
  show ?case
  proof (cases "map_get (sso_cache s) oid = Some c")
    case True
    then show ?thesis by (rule gate.IH)
  next
    case False
    then have "c = \<lparr>sso_value = org_sso_required oid s, sso_expires_at = now_ms e + SSO_REQUIRED_TTL_MS\<rparr>"
      using getOrgSsoRequired_state_cases [of e oid' s] gate.prems
      by (elim disjE) (auto simp: update_conv' split: if_splits)
    then show ?thesis using bound_required [OF gate.hyps(1)] by simp
  qed
qed auto

lemma sso_decision_after_ttl:
  assumes "bound oid t0 t s" and "t0 + SSO_REQUIRED_TTL_MS \<le> now_ms e" and "faults e ''org_sso_required'' = None"
  shows "sso_decision e s oid"
proof (cases "map_get (sso_cache s) oid")
  case None
  then show ?thesis using assms(3) bound_required [OF assms(1)] by (simp add: sso_decision_def)
next
  case (Some c)
  then show ?thesis using assms(2,3) bound_required [OF assms(1)] bound_cache [OF assms(1) Some]
    by (auto simp: sso_decision_def)
qed


definition saml_env :: env where
  "saml_env = sample_env\<lparr>jwt_claims := Some (JObj [(''sub'', JStr ''u1''),
     (''amr'', JArr [JObj [(''method'', JStr ''password''), (''timestamp'', JNum (js_int 5))],
                     JObj [(''method'', JStr ''sso/saml''), (''timestamp'', JNum (js_int 9))]])])\<rparr>"


section \<open>The latest authentication method\<close>

lemma js_lt_trans: "js_lt a b \<Longrightarrow> js_lt b c \<Longrightarrow> js_lt a c"
  by (cases a; cases b; cases c) auto

lemma js_lt_total: "a \<noteq> Nan \<Longrightarrow> b \<noteq> Nan \<Longrightarrow> \<not> js_lt a b \<Longrightarrow> js_lt c b \<Longrightarrow> js_lt c a"
  by (cases a; cases b; cases c) auto

lemma latest_amr_max:
  assumes "\<forall>c\<in>set (List.map_filter amr_entry_of entries). snd c \<noteq> Nan"
    and "\<forall>l. latest = Some l \<longrightarrow> snd l \<noteq> Nan"
    and "latest_amr latest entries = Some r"
  shows "r \<in> set_option latest \<union> set (List.map_filter amr_entry_of entries)
    \<and> (\<forall>c\<in>set_option latest \<union> set (List.map_filter amr_entry_of entries). \<not> js_lt (snd r) (snd c))"
  using assms
proof (induction entries arbitrary: latest)
  case Nil
  have "\<not> js_lt a a" for a by (cases a) auto
  then show ?case using Nil by (auto simp: List.map_filter_def)
next
  case (Cons x xs)
  show ?case
  proof (cases "amr_entry_of x")
    case None
    then show ?thesis using Cons by (simp add: List.map_filter_simps)
  next
    case (Some c)
    let ?l = "case latest of None \<Rightarrow> Some c | Some l \<Rightarrow> if js_lt (snd l) (snd c) then Some c else Some l"
    have nan: "snd c \<noteq> Nan" "\<forall>c\<in>set (List.map_filter amr_entry_of xs). snd c \<noteq> Nan"
      using Cons.prems(1) Some by (simp_all add: List.map_filter_simps)
    have l: "\<forall>l. ?l = Some l \<longrightarrow> snd l \<noteq> Nan" "latest_amr ?l xs = Some r"
      using Cons.prems(2,3) Some nan(1) by (auto split: option.splits)
    have IH: "r \<in> set_option ?l \<union> set (List.map_filter amr_entry_of xs)"
      "\<forall>d\<in>set_option ?l \<union> set (List.map_filter amr_entry_of xs). \<not> js_lt (snd r) (snd d)"
      using Cons.IH [OF nan(2) l] by simp_all
    have up: "\<not> js_lt (snd r) (snd c)"
    proof (cases latest)
      case (Some l)
      then show ?thesis using IH(2) nan(1) Cons.prems(2)
        by (auto split: if_splits dest: js_lt_total)
    qed (use IH(2) in auto)
    have "\<not> js_lt (snd r) (snd l)" if "latest = Some l" for l
      using that IH(2) by (auto split: if_splits dest: js_lt_trans)
    then show ?thesis using IH up Some
      by (auto simp: List.map_filter_simps split: option.splits if_splits)
  qed
qed

text \<open>
  The session's method is the one of its newest authentication event: the entry the gate
  reads is one of the well-formed entries of the \<open>amr\<close> claim and no other has a later timestamp.
\<close>

theorem latest_method_is_newest:
  assumes "jwt_claims e = Some claims" and "jget ''amr'' claims = Some (JArr entries)"
    and "\<forall>c\<in>set (List.map_filter amr_entry_of entries). snd c \<noteq> Nan"
    and "getLatestAuthMethod e = Some meth"
  shows "\<exists>t. (meth, t) \<in> set (List.map_filter amr_entry_of entries)
           \<and> (\<forall>c\<in>set (List.map_filter amr_entry_of entries). \<not> js_lt t (snd c))"
proof -
  obtain l where l: "latest_amr None entries = Some l" "fst l = meth"
    using assms(1,2,4) by (auto simp: getLatestAuthMethod_def)
  show ?thesis using latest_amr_max [OF assms(3) _ l(1)] l(2) by (cases l) auto
qed

theorem latest_method_is_newest_witness:
  "\<exists>t. (''sso/saml'', t) \<in> set (List.map_filter amr_entry_of
        [JObj [(''method'', JStr ''password''), (''timestamp'', JNum (js_int 5))],
         JObj [(''method'', JStr ''sso/saml''), (''timestamp'', JNum (js_int 9))]])"
proof -
  let ?c = "the (jwt_claims saml_env)"
  let ?es = "[JObj [(''method'', JStr ''password''), (''timestamp'', JNum (js_int 5))],
         JObj [(''method'', JStr ''sso/saml''), (''timestamp'', JNum (js_int 9))]]"
  have "jwt_claims saml_env = Some ?c" "jget ''amr'' ?c = Some (JArr ?es)" by (simp_all add: saml_env_def)
  moreover have "\<forall>c\<in>set (List.map_filter amr_entry_of ?es). snd c \<noteq> Nan" by code_simp
  moreover have "getLatestAuthMethod saml_env = Some ''sso/saml''" by code_simp
  ultimately show ?thesis using latest_method_is_newest by blast
qed

section \<open>The active organization\<close>

lemma keeps_lift_result [keeps_intros]: "keeps P (lift_result r)"
  unfolding lift_result_def by (intro keeps_intros)

lemma lift_result_InrE:
  assumes "lift_result r s = (Inr x, t)"
  obtains "r = Inr x" and "t = s"
  using assms by (auto simp: lift_result_def split: sum.splits)

lemma filterAuthorizedOrgs_subset: "set (filterAuthorizedOrgs orgs m) \<subseteq> set orgs"
  by (auto simp: filterAuthorizedOrgs_def)

lemma requireAuthorizedOrgIds_InrE:
  assumes "requireAuthorizedOrgIds e s = (Inr m, t)"
  obtains "listAuthorizedOrgIds e s = (Inr m, s)" and "t = s"
  using assms listAuthorizedOrgIds_state [of e s]
  by (auto simp: requireAuthorizedOrgIds_def elim!: bind_InrE requireAuthenticatedUser_InrE)

lemma selectSessionActiveOrg_InrE:
  assumes "selectSessionActiveOrg e listOrgs cookie s = (Inr (Some org), t)"
  obtains all m slug oid where "listOrgs = Inr all" and "listAuthorizedOrgIds e s = (Inr m, s)"
    and "org \<in> set (filterAuthorizedOrgs all m)"
    and "\<And>p org'. cookie = Some p \<Longrightarrow> first_where (names_org p) (filterAuthorizedOrgs all m) = Some org' \<Longrightarrow> org = org'"
    and "requireOrgAccess e (org_id org) User s = (Inr (oid, slug), t)"
proof -
  from assms obtain m t1 where m: "requireAuthorizedOrgIds e s = (Inr m, t1)"
    and r1: "bind (lift_result listOrgs) (\<lambda>allOrgs. bind (listMembershipOrgIds e) (\<lambda>membershipOrgIds.
      (let orgs = filterAuthorizedOrgs allOrgs m in if orgs = [] then ret None
       else (let selected = chooseActiveOrg cookie membershipOrgIds orgs in
         bind (requireOrgAccess e (org_id selected) User) (\<lambda>_. ret (Some selected)))))) t1 = (Inr (Some org), t)"
    unfolding selectSessionActiveOrg_def by (rule bind_InrE)
  from m have m': "listAuthorizedOrgIds e s = (Inr m, s)" "t1 = s" by (auto elim: requireAuthorizedOrgIds_InrE)
  from r1 obtain all mm pr where all: "listOrgs = Inr all" and o: "filterAuthorizedOrgs all m \<noteq> []"
    and org: "org = chooseActiveOrg cookie mm (filterAuthorizedOrgs all m)"
    and r: "requireOrgAccess e (org_id org) User s = (Inr pr, t)"
    unfolding m'(2)
    by (auto elim!: bind_InrE lift_result_InrE split: if_splits dest!: listMembershipOrgIds_state simp: Let_def)
  have "org \<in> set (filterAuthorizedOrgs all m)"
    using o unfolding org chooseActiveOrg_def Let_def
    by (auto split: option.splits dest!: first_where_SomeD)
  moreover obtain oid slug where "requireOrgAccess e (org_id org) User s = (Inr (oid, slug), t)"
    using r by (cases pr) auto
  ultimately show thesis using that [of all m oid slug] all m' org
    by (auto simp: chooseActiveOrg_def Let_def)
qed

text \<open>
  The organization a workspace page renders for is one the session may address, and it
  passed the gate itself: the caller is authorized for that very organization (SSO clause
  included), and the cookie's choice wins whenever it names an accessible organization.
\<close>

theorem active_org_is_gated:
  assumes "selectSessionActiveOrg e listOrgs cookie s = (Inr (Some org), t)"
    and "\<forall>row\<in>set (organizations s). o_slug row \<noteq> org_id org"
  shows "authorized_for s e (org_id org) User
    \<and> (\<exists>all m. listOrgs = Inr all \<and> listAuthorizedOrgIds e s = (Inr m, s)
          \<and> org \<in> set (filterAuthorizedOrgs all m)
          \<and> (\<forall>p org'. cookie = Some p \<and> first_where (names_org p) (filterAuthorizedOrgs all m) = Some org' \<longrightarrow> org = org'))"
proof (rule selectSessionActiveOrg_InrE [OF assms(1)])
  fix all m slug oid
  assume *: "listOrgs = Inr all" "listAuthorizedOrgIds e s = (Inr m, s)" "org \<in> set (filterAuthorizedOrgs all m)"
    "\<And>p org'. cookie = Some p \<Longrightarrow> first_where (names_org p) (filterAuthorizedOrgs all m) = Some org' \<Longrightarrow> org = org'"
    "requireOrgAccess e (org_id org) User s = (Inr (oid, slug), t)"
  from *(5) have "authorized_for s e (org_id org) User"
    by (rule requireOrgAccess_InrE) (use assms(2) in auto)
  then show ?thesis using * by blast
qed

theorem active_org_is_gated_witness:
  "authorized_for sample_db sample_env ''o1'' User"
proof -
  let ?org = "\<lparr>org_id = ''o1'', org_slug = ''acme'', org_name = ''Acme'', sso_required = False\<rparr>"
  have "fst (selectSessionActiveOrg sample_env (Inr [?org]) (Some ''acme'') sample_db) = Inr (Some ?org)" by code_simp
  then have *: "selectSessionActiveOrg sample_env (Inr [?org]) (Some ''acme'') sample_db
      = (Inr (Some ?org), snd (selectSessionActiveOrg sample_env (Inr [?org]) (Some ''acme'') sample_db))"
    by (metis prod.collapse)
  have "\<forall>row\<in>set (organizations sample_db). o_slug row \<noteq> org_id ?org" by code_simp
  from active_org_is_gated [OF * this] show ?thesis by simp
qed

section \<open>Interfaces for the handlers\<close>

text \<open>
  \<open>org_gate\<close> is what a handler relies on: a gate that only lets authorized requests pass and
  touches no table. \<open>table_invariant\<close> is an invariant of the tables that neither the SSO cache nor
  the audit trail can disturb: every gate and every audit call keeps it, so a handler's proof is
  left with its own statements.
\<close>

definition swallow_denied :: "app_error \<Rightarrow> bool act" where
  "swallow_denied err =
     (case err of
        SsoStepUpRequired a b \<Rightarrow> throw err
      | DataSourceNotFound m \<Rightarrow> ret False
      | DataSourceRequest m st c a \<Rightarrow> if st = 403 then ret False else throw err
      | _ \<Rightarrow> throw err)"

locale org_gate =
  fixes gate :: "env \<Rightarrow> string \<Rightarrow> org_access_role \<Rightarrow> (string \<times> string) act"
  assumes frame: "same_tables s (snd (gate e ident r s))"
    and sound: "gate e ident r s = (Inr (oid, slug), t) \<Longrightarrow>
      authorized_for s e oid r \<and> (\<exists>org\<in>set (organizations s). oid = o_id org \<and> (ident = o_id org \<or> ident = o_slug org))"
begin

lemma checked_role:
  assumes "catching (bind (gate e ident r) (\<lambda>_. ret True)) swallow_denied s = (Inr True, t)"
  shows "\<exists>org\<in>set (organizations s). (ident = o_id org \<or> ident = o_slug org) \<and> authorized_for s e (o_id org) r"
proof -
  have "\<not> (swallow_denied err u = (Inr True, t))" for err u
    by (cases err) (auto simp: swallow_denied_def)
  then obtain p where "gate e ident r s = (Inr p, t)"
    using assms by (auto simp: act_simps split: prod.splits sum.splits)
  then show ?thesis using sound by (cases p) fastforce
qed

lemma step_up_propagates:
  assumes "gate e ident r s = (Inl (SsoStepUpRequired a b), t)"
  shows "catching (bind (gate e ident r) (\<lambda>_. ret True)) swallow_denied s = (Inl (SsoStepUpRequired a b), t)"
  using assms by (simp add: act_simps swallow_denied_def)

end

interpretation access: org_gate requireOrgAccess
proof unfold_locales
  show "same_tables s (snd (requireOrgAccess e ident r s))" for s e ident r
    by (rule requireOrgAccess_same_tables)
  show "authorized_for s e oid r \<and> (\<exists>org\<in>set (organizations s). oid = o_id org \<and> (ident = o_id org \<or> ident = o_slug org))"
    if "requireOrgAccess e ident r s = (Inr (oid, slug), t)" for e ident r s oid slug t
    using that by (rule requireOrgAccess_InrE) blast
qed

lemma delegatedRoleCheck_alt:
  "delegatedRoleCheck e oid r = catching (bind (requireOrgAccess e oid r) (\<lambda>_. ret True)) swallow_denied"
  unfolding delegatedRoleCheck_def swallow_denied_def by (rule refl)

lemma isOrgAdmin_True:
  assumes "isOrgAdmin e oid s = (Inr True, t)"
  shows "\<exists>org\<in>set (organizations s). (oid = o_id org \<or> oid = o_slug org) \<and> authorized_for s e (o_id org) Admin"
  using assms access.checked_role unfolding isOrgAdmin_def delegatedRoleCheck_alt by blast

lemma isOrgAdmin_same_tables: "same_tables s (snd (isOrgAdmin e oid s))"
  using keepsD [OF keeps_isOrgAdmin [of "same_tables s"]] by (simp add: same_tables_def)

locale table_invariant =
  fixes I :: "db \<Rightarrow> bool"
  assumes cache: "I s \<Longrightarrow> I (s\<lparr>sso_cache := c\<rparr>)"
    and trail: "I s \<Longrightarrow> I (s\<lparr>audit_log := rows\<rparr>)"
begin

lemmas gates_keep =
  keeps_requireOrgAccess [of I, OF cache] keeps_requireOrgId [of I, OF cache]
  keeps_isOrgAdmin [of I, OF cache] keeps_audit [of I, OF trail]

end

end
