(* ===== verification/Members.thy ===== *)
theory Members
  imports Org_Access
begin

text \<open>
  Membership and invitations: \<open>lib/members/manage.ts\<close>, \<open>lib/admin/invites.ts\<close>,
  \<open>lib/admin/invitations.ts\<close> and the routes over them, with the uniqueness constraints the
  migrations put on \<open>organization_members\<close> (primary key org, user) and \<open>org_invitations\<close> (one live
  invite per organization and lower-cased address). A request body is \<open>Inl\<close> the message of the
  \<open>SyntaxError\<close> or \<open>Inr\<close> the JSON value; the outcome of the e-mail provider is an argument.
\<close>

section \<open>Statements\<close>

definition live_invite :: "invite_row \<Rightarrow> bool" where
  "live_invite i \<longleftrightarrow> i_accepted_at i = None \<and> i_revoked_at i = None"

definition invite_slot :: "invite_row \<Rightarrow> string option \<times> string" where
  "invite_slot i = (i_org i, toLowerCase (i_email i))"

definition email_check_violation :: dberror where
  "email_check_violation = \<lparr>code = Some ''23514'', message = ''new row violates check constraint''\<rparr>"

definition foreign_key_violation :: dberror where
  "foreign_key_violation = \<lparr>code = Some ''23503'', message = ''insert or update violates foreign key constraint''\<rparr>"

definition no_rows_error :: dberror where
  "no_rows_error = \<lparr>code = Some ''PGRST116'', message = ''JSON object requested, multiple (or no) rows returned''\<rparr>"

definition email_position_ok :: "string \<Rightarrow> bool" where
  "email_position_ok s \<longleftrightarrow> List.member s (CHR ''@'') \<and> hd s \<noteq> CHR ''@''"

definition insert_member :: "member_row \<Rightarrow> db \<Rightarrow> dberror + (member_row \<times> db)" where
  "insert_member row s =
     (if list_ex (\<lambda>m. m_org m = m_org row \<and> m_user m = m_user row) (members s) then Inl unique_violation
      else Inr (row, s\<lparr>members := members s @ [row]\<rparr>))"

definition update_member_role :: "string \<Rightarrow> string \<Rightarrow> string \<Rightarrow> db \<Rightarrow> dberror + (member_row list \<times> db)" where
  "update_member_role oid uid role s =
     (let P = (\<lambda>m. m_org m = oid \<and> m_user m = uid); f = (\<lambda>m. m\<lparr>m_role := role\<rparr>) in
      Inr (map f (filter P (members s)), s\<lparr>members := update_where P f (members s)\<rparr>))"

definition delete_member :: "string \<Rightarrow> string \<Rightarrow> db \<Rightarrow> dberror + (member_row list \<times> db)" where
  "delete_member oid uid s =
     (let P = (\<lambda>m. m_org m = oid \<and> m_user m = uid) in
      Inr (filter P (members s), s\<lparr>members := filter (\<lambda>m. \<not> P m) (members s)\<rparr>))"

definition move_member :: "string \<Rightarrow> string \<Rightarrow> string option \<Rightarrow> string option \<Rightarrow> db \<Rightarrow> dberror + (member_row list \<times> db)" where
  "move_member oid uid target role s =
     (let P = (\<lambda>m. m_org m = oid \<and> m_user m = uid);
          dest = (case target of None \<Rightarrow> oid | Some t \<Rightarrow> t);
          f = (\<lambda>m. m\<lparr>m_org := dest, m_role := (case role of None \<Rightarrow> m_role m | Some r \<Rightarrow> r)\<rparr>) in
      if filter P (members s) = [] then Inr ([], s)
      else if dest \<noteq> oid \<and> list_ex (\<lambda>m. m_org m = dest \<and> m_user m = uid) (members s) then Inl unique_violation
      else if \<not> list_ex (\<lambda>org. o_id org = dest) (organizations s) then Inl foreign_key_violation
      else Inr (map f (filter P (members s)), s\<lparr>members := update_where P f (members s)\<rparr>))"

definition insert_invite :: "invite_row \<Rightarrow> db \<Rightarrow> dberror + (invite_row \<times> db)" where
  "insert_invite row s =
     (if \<not> email_position_ok (i_email row) then Inl email_check_violation
      else if list_ex (\<lambda>i. (live_invite i \<and> invite_slot i = invite_slot row) \<or> i_id i = i_id row \<or> i_token i = i_token row)
                (invitations s) then Inl unique_violation
      else Inr (row, s\<lparr>invitations := invitations s @ [row]\<rparr>))"

definition update_invite_role :: "string \<Rightarrow> string \<Rightarrow> db \<Rightarrow> dberror + (invite_row \<times> db)" where
  "update_invite_role iid role s =
     (case first_where (\<lambda>i. i_id i = iid) (invitations s) of
        None \<Rightarrow> Inl no_rows_error
      | Some i \<Rightarrow> Inr (i\<lparr>i_role := role\<rparr>,
          s\<lparr>invitations := update_where (\<lambda>i. i_id i = iid) (\<lambda>i. i\<lparr>i_role := role\<rparr>) (invitations s)\<rparr>))"

definition delete_expired_invites :: "string \<Rightarrow> string \<Rightarrow> int \<Rightarrow> db \<Rightarrow> dberror + (unit \<times> db)" where
  "delete_expired_invites oid email now s =
     Inr ((), s\<lparr>invitations := filter (\<lambda>i. \<not> (i_org i = Some oid \<and> i_email i = email
        \<and> i_accepted_at i = None \<and> i_expires_at i \<le> now)) (invitations s)\<rparr>)"

definition revoke_invites :: "(invite_row \<Rightarrow> bool) \<Rightarrow> int \<Rightarrow> db \<Rightarrow> dberror + (invite_row list \<times> db)" where
  "revoke_invites P now s =
     (let Q = (\<lambda>i. P i \<and> live_invite i) in
      Inr (filter Q (invitations s),
           s\<lparr>invitations := update_where Q (\<lambda>i. i\<lparr>i_revoked_at := Some now\<rparr>) (invitations s)\<rparr>))"

definition user_id_for_email :: "string \<Rightarrow> db \<Rightarrow> string option" where
  "user_id_for_email email s =
     map_option u_id (first_where (\<lambda>u. toLowerCase (u_email u) = toLowerCase email) (users s))"

definition invitee_account_state :: "string \<Rightarrow> db \<Rightarrow> string" where
  "invitee_account_state email s = (case user_id_for_email email s of None \<Rightarrow> ''none'' | Some _ \<Rightarrow> ''user'')"

definition INVITE_TTL_MS :: int where
  "INVITE_TTL_MS = 14 * 24 * 60 * 60 * 1000"

section \<open>Invitations as values\<close>

definition INVITE_ROLES :: "string list" where
  "INVITE_ROLES = [''admin'', ''user'']"

datatype invitation_status = Pending | Accepted | Revoked | Expired

definition inviteStatus :: "int option \<Rightarrow> int \<Rightarrow> int \<Rightarrow> invitation_status" where
  "inviteStatus acceptedAt expiresAt now =
     (if acceptedAt \<noteq> None then Accepted else if expiresAt \<le> now then Expired else Pending)"

definition invitationStatus :: "invite_row \<Rightarrow> int \<Rightarrow> invitation_status" where
  "invitationStatus i now =
     (if i_accepted_at i \<noteq> None then Accepted
      else if i_revoked_at i \<noteq> None then Revoked
      else if i_expires_at i \<le> now then Expired else Pending)"

definition strip_slash :: "string \<Rightarrow> string" where
  "strip_slash s = (if s \<noteq> [] \<and> last s = CHR ''/'' then butlast s else s)"

definition invitationLink :: "string \<Rightarrow> string \<Rightarrow> string" where
  "invitationLink origin token = strip_slash origin @ ''/signin?invite='' @ encodeURIComponent token"

section \<open>Adding and inviting\<close>

definition role_message :: string where
  "role_message = ''role must be one of: '' @ join_with '', '' INVITE_ROLES @ ''.''"

definition parseMemberPayload :: "json \<Rightarrow> string + (string \<times> string)" where
  "parseMemberPayload v =
     (if \<not> is_jobject v then Inl ''Member request must be an object.''
      else (case jstr (jget ''email'' v) of
              None \<Rightarrow> Inl ''Member request must include a valid email.''
            | Some email \<Rightarrow>
                if \<not> str_includes email ''@'' then Inl ''Member request must include a valid email.''
                else (case jstr (jget ''role'' v) of
                        None \<Rightarrow> Inl role_message
                      | Some role \<Rightarrow>
                          if List.member INVITE_ROLES role then Inr (toLowerCase (trim email), role)
                          else Inl role_message)))"

record add_member_input =
  in_org :: string
  in_org_name :: string
  in_email :: string
  in_role :: string
  in_invited_by :: string
  in_origin :: string

datatype email_result = Sent | NotSent string

datatype add_member_result =
    Added (added_status: int) (added_membership: member_row)
  | Invited (invited_status: int) (invited_id: string) (invited_role: string) (invited_email: email_result) (invited_url: "string option")
  | AddError (add_status: int) (add_message: string)

definition pending_invite :: "string \<Rightarrow> string \<Rightarrow> int \<Rightarrow> db \<Rightarrow> invite_row option" where
  "pending_invite oid email now s =
     first_where (\<lambda>i. i_org i = Some oid \<and> i_email i = email \<and> live_invite i \<and> now < i_expires_at i) (invitations s)"

definition new_invite :: "env \<Rightarrow> add_member_input \<Rightarrow> invite_row" where
  "new_invite e inp = \<lparr>i_id = fresh_id e, i_email = in_email inp, i_token = fresh_token e,
     i_org = Some (in_org inp), i_role = in_role inp, i_org_name = None,
     i_invited_by = Some (in_invited_by inp), i_created_at = now_ms e,
     i_expires_at = now_ms e + INVITE_TTL_MS, i_accepted_at = None, i_accepted_by = None, i_revoked_at = None\<rparr>"

definition findOrCreateInvite :: "env \<Rightarrow> add_member_input \<Rightarrow> (dberror + (invite_row option \<times> bool)) act" where
  "findOrCreateInvite e inp =
     bind (query (faults e ''org_invitations.pending'') (pending_invite (in_org inp) (in_email inp) (now_ms e))) (\<lambda>pendingResult.
     case pendingResult of
       Inl err \<Rightarrow> ret (Inl err)
     | Inr (Some i) \<Rightarrow> ret (Inr (Some i, False))
     | Inr None \<Rightarrow>
         bind (call (faults e ''org_invitations.insert'') (insert_invite (new_invite e inp))) (\<lambda>insertResult.
         case insertResult of
           Inr i \<Rightarrow> ret (Inr (Some i, True))
         | Inl err \<Rightarrow>
             if code err = Some ''23505'' then
               bind (query (faults e ''org_invitations.retry'') (pending_invite (in_org inp) (in_email inp) (now_ms e))) (\<lambda>retryResult.
               ret (case retryResult of Inl err2 \<Rightarrow> Inl err2 | Inr i \<Rightarrow> Inr (i, False)))
             else ret (Inl err)))"

definition sendInvite :: "email_result \<Rightarrow> add_member_input \<Rightarrow> invite_row \<Rightarrow> bool \<Rightarrow> add_member_result" where
  "sendInvite mailer inp i created =
     (let url = invitationLink (in_origin inp) (i_token i) in
      Invited (if created then 201 else 200) (i_id i) (i_role i) mailer
        (case mailer of Sent \<Rightarrow> None | NotSent _ \<Rightarrow> Some url))"

definition inviteMember :: "env \<Rightarrow> email_result \<Rightarrow> add_member_input \<Rightarrow> add_member_result act" where
  "inviteMember e mailer inp =
     bind (call (faults e ''org_invitations.cleanup'')
             (delete_expired_invites (in_org inp) (in_email inp) (now_ms e))) (\<lambda>cleanup.
     case cleanup of
       Inl err \<Rightarrow> ret (AddError 500 (message err))
     | Inr _ \<Rightarrow>
         bind (findOrCreateInvite e inp) (\<lambda>found.
         case found of
           Inl err \<Rightarrow> ret (AddError 500 (message err))
         | Inr (None, created) \<Rightarrow>
             ret (AddError 409 ''The pending invite could not be recovered. Revoke it before retrying.'')
         | Inr (Some i, created) \<Rightarrow>
             if \<not> created \<and> i_role i \<noteq> in_role inp then
               bind (call (faults e ''org_invitations.role'') (update_invite_role (i_id i) (in_role inp))) (\<lambda>updateResult.
               case updateResult of
                 Inl err \<Rightarrow> ret (AddError 500 (message err))
               | Inr i' \<Rightarrow> ret (sendInvite mailer inp i' created))
             else ret (sendInvite mailer inp i created)))"

definition addOrInviteMember :: "env \<Rightarrow> email_result \<Rightarrow> add_member_input \<Rightarrow> add_member_result act" where
  "addOrInviteMember e mailer inp =
     bind (query (faults e ''organizations.banned_at'')
             (\<lambda>s. first_where (\<lambda>org. o_id org = in_org inp) (organizations s))) (\<lambda>orgRow.
     case orgRow of
       Inl err \<Rightarrow> ret (AddError 500 (message err))
     | Inr row \<Rightarrow>
         if Option.bind row o_banned_at \<noteq> None
         then ret (AddError 403 ''This organization is banned. Members cannot be added or invited.'')
         else
           bind (query (faults e ''admin_user_id_for_email'') (user_id_for_email (in_email inp))) (\<lambda>lookup.
           case lookup of
             Inl err \<Rightarrow> ret (AddError 500 (message err))
           | Inr userId \<Rightarrow>
               (case userId of
                  Some uid \<Rightarrow>
                    if uid = '''' then inviteMember e mailer inp
                    else bind (call (faults e ''organization_members.insert'')
                           (insert_member \<lparr>m_org = in_org inp, m_user = uid, m_role = in_role inp, m_created_at = now_ms e\<rparr>)) (\<lambda>r.
                         ret (case r of
                                Inl err \<Rightarrow>
                                  if code err = Some ''23505''
                                  then AddError 409 ''That account is already a member of the organization.''
                                  else AddError 500 (message err)
                              | Inr m \<Rightarrow> Added 201 m))
                | None \<Rightarrow> inviteMember e mailer inp)))"

section \<open>Reading rosters and the last admin\<close>

record roster_member =
  rm_user :: string
  rm_email :: "string option"
  rm_role :: string
  rm_created_at :: int
  rm_admin :: bool

definition org_members_with_emails :: "string \<Rightarrow> db \<Rightarrow> (string \<times> string option \<times> string \<times> int) list" where
  "org_members_with_emails oid s =
     map (\<lambda>m. (m_user m, map_option u_email (first_where (\<lambda>u. u_id u = m_user m) (users s)), m_role m, m_created_at m))
       (sort_key m_created_at (filter (\<lambda>m. m_org m = oid) (members s)))"

definition listOrgRoster :: "env \<Rightarrow> string \<Rightarrow> string list \<Rightarrow> roster_member list act" where
  "listOrgRoster e oid visibleAdmins =
     bind (query (faults e ''org_members_with_emails'') (org_members_with_emails oid)) (\<lambda>rosterResult.
     bind (orThrow ''Unable to list members: '' rosterResult) (\<lambda>rows.
     ret (map (\<lambda>(uid, mail, role, created).
            \<lparr>rm_user = uid, rm_email = mail, rm_role = role, rm_created_at = created,
             rm_admin = List.member visibleAdmins uid\<rparr>) rows)))"

definition listOrgPendingInvites :: "env \<Rightarrow> string \<Rightarrow> invite_row list act" where
  "listOrgPendingInvites e oid =
     bind (query (faults e ''org_invitations.list'') (\<lambda>s.
             rev (sort_key i_created_at (rev (filter (\<lambda>i. i_org i = Some oid \<and> live_invite i \<and> now_ms e < i_expires_at i)
               (invitations s)))))) (\<lambda>r.
     orThrow ''Unable to list invites: '' r)"

definition admin_ids :: "string \<Rightarrow> db \<Rightarrow> string list" where
  "admin_ids oid s = map m_user (filter (\<lambda>m. m_org m = oid \<and> m_role m = ''admin'') (members s))"

definition isLastOrgAdmin :: "env \<Rightarrow> string \<Rightarrow> string \<Rightarrow> bool act" where
  "isLastOrgAdmin e oid uid =
     bind (query (faults e ''organization_members.admins'') (admin_ids oid)) (\<lambda>r.
     bind (orThrow ''Unable to verify remaining admins: '' r) (\<lambda>admins.
     ret (length admins = 1 \<and> admins ! 0 = uid)))"

section \<open>Routes of the organization settings\<close>

record manager =
  mg_org :: string
  mg_actor :: string
  mg_platform_admin :: bool

definition requireOrgManager :: "env \<Rightarrow> string \<Rightarrow> (resp + manager) act" where
  "requireOrgManager e orgIdentifier =
     bind (requireAuthenticatedUser e) (\<lambda>user.
     bind (requireOrgId e orgIdentifier) (\<lambda>oid.
     bind (isPlatformAdmin e) (\<lambda>platformAdmin.
     bind (if platformAdmin then ret True else isOrgAdmin e oid) (\<lambda>canManage.
     ret (if \<not> canManage then Inl (error_resp ''Not found'' 404)
          else Inr \<lparr>mg_org = oid, mg_actor = usr_id user, mg_platform_admin = platformAdmin\<rparr>)))))"

definition member_json :: "member_row \<Rightarrow> json" where
  "member_json m = JObj [(''org_id'', JStr (m_org m)), (''user_id'', JStr (m_user m)), (''role'', JStr (m_role m))]"

fun email_json :: "email_result \<Rightarrow> json" where
  "email_json Sent = JObj [(''sent'', JBool True)]"
| "email_json (NotSent reason) = JObj [(''sent'', JBool False), (''reason'', JStr reason)]"

fun add_member_resp :: "add_member_result \<Rightarrow> resp" where
  "add_member_resp (AddError st msg) = error_resp msg st"
| "add_member_resp (Added st m) = json_resp (JObj [(''action'', JStr ''added''), (''membership'', member_json m)]) st"
| "add_member_resp (Invited st iid role mail url) =
     json_resp (JObj [(''action'', JStr ''invited''), (''invitationId'', JStr iid), (''role'', JStr role),
       (''email'', email_json mail), (''inviteUrl'', jopt JStr url)]) st"

definition auditInvite :: "env \<Rightarrow> string \<Rightarrow> string \<Rightarrow> string \<Rightarrow> string \<Rightarrow> add_member_result \<Rightarrow> unit act" where
  "auditInvite e oid kind actor mail result =
     (case result of
        Invited st iid role _ _ \<Rightarrow>
          recordAuditEvent e \<lparr>ev_org = Some oid, ev_actor_kind = kind, ev_actor_id = Some actor,
            ev_action = ''invites.create'', ev_object_type = ''invite'', ev_object_id = iid, ev_before = None,
            ev_after = Some (JObj [(''email'', JStr mail), (''role'', JStr role)]), ev_context = None\<rparr>
      | _ \<Rightarrow> ret ())"

definition roster_json :: "roster_member \<Rightarrow> json" where
  "roster_json m = JObj [(''userId'', JStr (rm_user m)), (''email'', jopt JStr (rm_email m)), (''role'', JStr (rm_role m)),
     (''createdAt'', JNum (js_int (rm_created_at m))), (''isExperientialAdmin'', JBool (rm_admin m))]"

definition invite_json :: "invite_row \<Rightarrow> json" where
  "invite_json i = JObj [(''id'', JStr (i_id i)), (''email'', JStr (i_email i)), (''role'', JStr (i_role i)),
     (''createdAt'', JNum (js_int (i_created_at i))), (''expiresAt'', JNum (js_int (i_expires_at i)))]"

definition visible_admins :: "string \<Rightarrow> bool \<Rightarrow> db \<Rightarrow> string list" where
  "visible_admins uid platformAdmin s =
     (if platformAdmin then platform_admins s else filter (\<lambda>a. a = uid) (platform_admins s))"

definition members_GET :: "env \<Rightarrow> string \<Rightarrow> resp act" where
  "members_GET e orgIdentifier = handler (
     bind (requireAuthenticatedUser e) (\<lambda>user.
     bind (requireOrgId e orgIdentifier) (\<lambda>oid.
     bind (isPlatformAdmin e) (\<lambda>platformAdmin.
     bind (if platformAdmin then ret True else isOrgAdmin e oid) (\<lambda>canManage.
     bind (query (faults e ''platform_admins.roster'') (visible_admins (usr_id user) platformAdmin)) (\<lambda>adminsResult.
     bind (listOrgRoster e oid (case adminsResult of Inl _ \<Rightarrow> [] | Inr ids \<Rightarrow> ids)) (\<lambda>roster.
     bind (if canManage then listOrgPendingInvites e oid else ret []) (\<lambda>invites.
     ret (jsonOk (JObj [(''members'', JArr (map roster_json roster)), (''invites'', JArr (map invite_json invites)),
       (''can_manage'', JBool canManage)]))))))))))"

definition members_POST :: "env \<Rightarrow> app_error + org list \<Rightarrow> email_result \<Rightarrow> string \<Rightarrow> string \<Rightarrow> string + json \<Rightarrow> resp act" where
  "members_POST e listOrgs mailer origin orgIdentifier request = handler (
     bind (requireAuthenticatedUser e) (\<lambda>user.
     bind (requireOrg e listOrgs orgIdentifier) (\<lambda>org.
     bind (isPlatformAdmin e) (\<lambda>platformAdmin.
     bind (if platformAdmin then ret True else isOrgAdmin e (org_id org)) (\<lambda>canManage.
     if \<not> canManage then ret (error_resp ''Not found'' 404)
     else (case (case request of Inl err \<Rightarrow> Inl err | Inr v \<Rightarrow> parseMemberPayload v) of
             Inl msg \<Rightarrow> ret (error_resp msg 400)
           | Inr (mail, role) \<Rightarrow>
               bind (addOrInviteMember e mailer \<lparr>in_org = org_id org, in_org_name = org_name org, in_email = mail,
                       in_role = role, in_invited_by = usr_id user, in_origin = origin\<rparr>) (\<lambda>result.
               bind (auditInvite e (org_id org) (actor_kind platformAdmin) (usr_id user) mail result) (\<lambda>_.
               ret (add_member_resp result)))))))))"

definition body_role :: "string + json \<Rightarrow> string option" where
  "body_role request = (case request of Inl _ \<Rightarrow> None | Inr v \<Rightarrow> jstr (jget ''role'' v))"

definition last_admin_resp :: resp where
  "last_admin_resp = error_resp ''The organization needs at least one admin.'' 409"

definition patch_guard :: "env \<Rightarrow> string \<Rightarrow> string \<Rightarrow> string + json \<Rightarrow> (resp + (manager \<times> string)) act" where
  "patch_guard e orgIdentifier uid request =
     bind (requireOrgManager e orgIdentifier) (\<lambda>gate.
     case gate of
       Inl r \<Rightarrow> ret (Inl r)
     | Inr g \<Rightarrow>
         (case body_role request of
            None \<Rightarrow> ret (Inl (error_resp role_message 400))
          | Some role \<Rightarrow>
              if \<not> List.member INVITE_ROLES role then ret (Inl (error_resp role_message 400))
              else bind (if role \<noteq> ''admin'' then isLastOrgAdmin e (mg_org g) uid else ret False) (\<lambda>lastAdmin.
                   ret (if lastAdmin then Inl last_admin_resp else Inr (g, role)))))"

definition patch_commit :: "env \<Rightarrow> string \<Rightarrow> manager \<times> string \<Rightarrow> resp act" where
  "patch_commit e uid p =
     (case p of (g, role) \<Rightarrow>
        bind (call (faults e ''organization_members.update'') (update_member_role (mg_org g) uid role)) (\<lambda>r.
        case r of
          Inl err \<Rightarrow> ret (error_resp (message err) 500)
        | Inr rows \<Rightarrow>
            (case rows of
               [] \<Rightarrow> ret (error_resp ''Membership not found.'' 404)
             | m # ms \<Rightarrow>
                 bind (recordAuditEvent e \<lparr>ev_org = Some (mg_org g), ev_actor_kind = actor_kind (mg_platform_admin g),
                         ev_actor_id = Some (mg_actor g), ev_action = ''members.role_set'', ev_object_type = ''member'',
                         ev_object_id = uid, ev_before = None, ev_after = Some (JObj [(''role'', JStr role)]), ev_context = None\<rparr>) (\<lambda>_.
                 ret (jsonOk (JObj [(''membership'', member_json m)]))))))"

definition member_PATCH :: "env \<Rightarrow> string \<Rightarrow> string \<Rightarrow> string + json \<Rightarrow> resp act" where
  "member_PATCH e orgIdentifier uid request = handler (
     bind (patch_guard e orgIdentifier uid request) (\<lambda>g.
     case g of Inl r \<Rightarrow> ret r | Inr p \<Rightarrow> patch_commit e uid p))"

definition remove_guard :: "env \<Rightarrow> string \<Rightarrow> string \<Rightarrow> (resp + manager) act" where
  "remove_guard e orgIdentifier uid =
     bind (requireOrgManager e orgIdentifier) (\<lambda>gate.
     case gate of
       Inl r \<Rightarrow> ret (Inl r)
     | Inr g \<Rightarrow>
         bind (isLastOrgAdmin e (mg_org g) uid) (\<lambda>lastAdmin.
         ret (if lastAdmin then Inl last_admin_resp else Inr g)))"

definition remove_commit :: "env \<Rightarrow> string \<Rightarrow> manager \<Rightarrow> resp act" where
  "remove_commit e uid g =
     bind (call (faults e ''organization_members.delete'') (delete_member (mg_org g) uid)) (\<lambda>r.
     case r of
       Inl err \<Rightarrow> ret (error_resp (message err) 500)
     | Inr rows \<Rightarrow>
         if rows = [] then ret (error_resp ''Membership not found.'' 404)
         else bind (recordAuditEvent e \<lparr>ev_org = Some (mg_org g), ev_actor_kind = actor_kind (mg_platform_admin g),
                      ev_actor_id = Some (mg_actor g), ev_action = ''members.remove'', ev_object_type = ''member'',
                      ev_object_id = uid, ev_before = None, ev_after = None, ev_context = None\<rparr>) (\<lambda>_.
              ret (empty_resp 204)))"

definition member_DELETE :: "env \<Rightarrow> string \<Rightarrow> string \<Rightarrow> resp act" where
  "member_DELETE e orgIdentifier uid = handler (
     bind (remove_guard e orgIdentifier uid) (\<lambda>g.
     case g of Inl r \<Rightarrow> ret r | Inr m \<Rightarrow> remove_commit e uid m))"

definition invite_DELETE :: "env \<Rightarrow> string \<Rightarrow> string \<Rightarrow> resp act" where
  "invite_DELETE e orgIdentifier inviteId = handler (
     bind (requireAuthenticatedUser e) (\<lambda>user.
     bind (requireOrgId e orgIdentifier) (\<lambda>oid.
     bind (isPlatformAdmin e) (\<lambda>platformAdmin.
     bind (if platformAdmin then ret True else isOrgAdmin e oid) (\<lambda>canManage.
     if \<not> canManage then ret (error_resp ''Not found'' 404)
     else bind (call (faults e ''org_invitations.revoke'')
                  (revoke_invites (\<lambda>i. i_id i = inviteId \<and> i_org i = Some oid) (now_ms e))) (\<lambda>r.
          case r of
            Inl err \<Rightarrow> ret (error_resp (message err) 500)
          | Inr rows \<Rightarrow>
              if rows = [] then ret (error_resp ''Invite not found.'' 404)
              else bind (recordAuditEvent e \<lparr>ev_org = Some oid, ev_actor_kind = actor_kind platformAdmin,
                           ev_actor_id = Some (usr_id user), ev_action = ''invites.revoke'', ev_object_type = ''invite'',
                           ev_object_id = inviteId, ev_before = None, ev_after = None, ev_context = None\<rparr>) (\<lambda>_.
                   ret (empty_resp 204))))))))"

section \<open>Routes of the operator panel\<close>

definition admin_members_POST :: "env \<Rightarrow> email_result \<Rightarrow> string \<Rightarrow> string \<Rightarrow> string + json \<Rightarrow> resp act" where
  "admin_members_POST e mailer origin oid request =
     bind (isPlatformAdmin e) (\<lambda>ok.
     if \<not> ok then ret (error_resp ''Not found'' 404)
     else bind (requireAuthenticatedUser e) (\<lambda>actor.
       (case (case request of Inl err \<Rightarrow> Inl err | Inr v \<Rightarrow> parseMemberPayload v) of
          Inl msg \<Rightarrow> ret (error_resp msg 400)
        | Inr (mail, role) \<Rightarrow>
            bind (query (faults e ''organizations.name'') (\<lambda>s. first_where (\<lambda>org. o_id org = oid) (organizations s))) (\<lambda>orgResult.
            case orgResult of
              Inl err \<Rightarrow> ret (error_resp (message err) 500)
            | Inr None \<Rightarrow> ret (error_resp (''Organization not found: '' @ oid) 404)
            | Inr (Some org) \<Rightarrow>
                bind (addOrInviteMember e mailer \<lparr>in_org = oid, in_org_name = o_name org, in_email = mail,
                        in_role = role, in_invited_by = usr_id actor, in_origin = origin\<rparr>) (\<lambda>result.
                bind (auditInvite e oid ''platform_admin'' (usr_id actor) mail result) (\<lambda>_.
                ret (add_member_resp result)))))))"

definition optional_text :: "json option \<Rightarrow> (string option) option" where
  "optional_text v =
     (case v of None \<Rightarrow> Some None | Some JNull \<Rightarrow> Some None | Some (JStr x) \<Rightarrow> Some (Some x) | Some _ \<Rightarrow> None)"

definition parseMembershipUpdate :: "json \<Rightarrow> string + (string option \<times> string option)" where
  "parseMembershipUpdate v =
     (if \<not> is_jobject v then Inl ''Membership request must be an object.''
      else (case optional_text (jget ''targetOrgId'' v) of
              None \<Rightarrow> Inl ''targetOrgId must be an organization id.''
            | Some target \<Rightarrow>
                (case optional_text (jget ''role'' v) of
                   None \<Rightarrow> Inl role_message
                 | Some role \<Rightarrow>
                     if (case role of None \<Rightarrow> False | Some r \<Rightarrow> \<not> List.member INVITE_ROLES r) then Inl role_message
                     else Inr (if target = Some '''' then None else target, role))))"

definition admin_member_PATCH :: "env \<Rightarrow> string \<Rightarrow> string \<Rightarrow> string + json \<Rightarrow> resp act" where
  "admin_member_PATCH e oid uid request =
     bind (isPlatformAdmin e) (\<lambda>ok.
     if \<not> ok then ret (error_resp ''Not found'' 404)
     else (case (case request of Inl err \<Rightarrow> Inl err | Inr v \<Rightarrow> parseMembershipUpdate v) of
             Inl msg \<Rightarrow> ret (error_resp msg 400)
           | Inr (target, role) \<Rightarrow>
               if target = None \<and> role = None then ret (error_resp ''Nothing to update.'' 400)
               else bind (call (faults e ''organization_members.move'') (move_member oid uid target role)) (\<lambda>r.
                    ret (case r of
                           Inl err \<Rightarrow>
                             if code err = Some ''23505''
                             then error_resp ''That user is already a member of the target organization.'' 409
                             else error_resp (message err) 500
                         | Inr rows \<Rightarrow>
                             (case rows of
                                [] \<Rightarrow> error_resp ''Membership not found.'' 404
                              | m # ms \<Rightarrow> jsonOk (JObj [(''membership'', member_json m)]))))))"

definition admin_member_DELETE :: "env \<Rightarrow> string \<Rightarrow> string \<Rightarrow> resp act" where
  "admin_member_DELETE e oid uid =
     bind (isPlatformAdmin e) (\<lambda>ok.
     if \<not> ok then ret (error_resp ''Not found'' 404)
     else bind (call (faults e ''organization_members.delete'') (delete_member oid uid)) (\<lambda>r.
          ret (case r of
                 Inl err \<Rightarrow> error_resp (message err) 500
               | Inr rows \<Rightarrow> if rows = [] then error_resp ''Membership not found.'' 404 else empty_resp 204)))"

definition parseCreateInvitationPayload :: "json \<Rightarrow> string + (string \<times> string)" where
  "parseCreateInvitationPayload v =
     (if \<not> is_jobject v then Inl ''Invitation request must be an object.''
      else (case jstr (jget ''email'' v) of
              None \<Rightarrow> Inl ''Invitation request must include a valid email.''
            | Some mail \<Rightarrow>
                if \<not> str_includes mail ''@'' then Inl ''Invitation request must include a valid email.''
                else (case jstr (jget ''orgName'' v) of
                        None \<Rightarrow> Inl ''Invitation request must include an organization name.''
                      | Some orgName \<Rightarrow>
                          if trim orgName = [] then Inl ''Invitation request must include an organization name.''
                          else Inr (toLowerCase (trim mail), trim orgName))))"

definition tenant_invite :: "env \<Rightarrow> string \<Rightarrow> string \<Rightarrow> invite_row" where
  "tenant_invite e mail orgName = \<lparr>i_id = fresh_id e, i_email = mail, i_token = fresh_token e, i_org = None,
     i_role = ''user'', i_org_name = Some orgName, i_invited_by = None, i_created_at = now_ms e,
     i_expires_at = now_ms e + INVITE_TTL_MS, i_accepted_at = None, i_accepted_by = None, i_revoked_at = None\<rparr>"

definition invitation_json :: "invite_row \<Rightarrow> json" where
  "invitation_json i = JObj [(''id'', JStr (i_id i)), (''email'', JStr (i_email i)), (''token'', JStr (i_token i)),
     (''org_id'', jopt JStr (i_org i)), (''role'', JStr (i_role i)), (''org_name'', jopt JStr (i_org_name i)),
     (''created_at'', JNum (js_int (i_created_at i))), (''expires_at'', JNum (js_int (i_expires_at i))),
     (''accepted_at'', jopt (\<lambda>t. JNum (js_int t)) (i_accepted_at i)),
     (''revoked_at'', jopt (\<lambda>t. JNum (js_int t)) (i_revoked_at i))]"

definition admin_invitations_POST :: "env \<Rightarrow> email_result \<Rightarrow> string + json \<Rightarrow> resp act" where
  "admin_invitations_POST e mailer request =
     bind (isPlatformAdmin e) (\<lambda>ok.
     if \<not> ok then ret (error_resp ''Not found'' 404)
     else (case (case request of Inl err \<Rightarrow> Inl err | Inr v \<Rightarrow> parseCreateInvitationPayload v) of
             Inl msg \<Rightarrow> ret (error_resp msg 400)
           | Inr (mail, orgName) \<Rightarrow>
               bind (query (faults e ''invitee_account_state'') (invitee_account_state mail)) (\<lambda>state.
               case state of
                 Inl err \<Rightarrow> ret (error_resp (message err) 500)
               | Inr accountState \<Rightarrow>
                   if accountState \<noteq> ''none''
                   then ret (error_resp ''That email already has an account. Add them from the site admin page instead.'' 422)
                   else bind (call (faults e ''org_invitations.insert'') (insert_invite (tenant_invite e mail orgName))) (\<lambda>r.
                        ret (case r of
                               Inl err \<Rightarrow>
                                 if code err = Some ''23505''
                                 then error_resp (''A live invitation for '' @ mail @ '' already exists.'') 409
                                 else error_resp (message err) 500
                             | Inr i \<Rightarrow>
                                 json_resp (JObj [(''invitation'', invitation_json i), (''email'', email_json mailer)]) 201)))))"

definition admin_invitation_DELETE :: "env \<Rightarrow> string \<Rightarrow> resp act" where
  "admin_invitation_DELETE e invitationId =
     bind (isPlatformAdmin e) (\<lambda>ok.
     if \<not> ok then ret (error_resp ''Not found'' 404)
     else bind (call (faults e ''org_invitations.revoke'') (revoke_invites (\<lambda>i. i_id i = invitationId) (now_ms e))) (\<lambda>r.
          ret (case r of
                 Inl err \<Rightarrow> error_resp (message err) 500
               | Inr rows \<Rightarrow>
                   if rows = [] then error_resp (''No revocable invitation found: '' @ invitationId) 404
                   else empty_resp 204)))"

section \<open>Table invariants\<close>

definition members_key :: "db \<Rightarrow> bool" where
  "members_key s = distinct (map (\<lambda>m. (m_org m, m_user m)) (members s))"

definition invites_unique :: "db \<Rightarrow> bool" where
  "invites_unique s \<longleftrightarrow> distinct (map invite_slot (filter live_invite (invitations s)))
     \<and> distinct (map i_id (invitations s))"

definition member_wf :: "db \<Rightarrow> bool" where
  "member_wf s \<longleftrightarrow> members_key s \<and> invites_unique s"

interpretation wf: table_invariant member_wf
  by unfold_locales (simp_all add: member_wf_def members_key_def invites_unique_def)

lemma distinct_map_filter_mono: "distinct (map f (filter P xs)) \<Longrightarrow> distinct (map f (filter (\<lambda>x. P x \<and> Q x) xs))"
  by (induction xs) (auto split: if_splits)

lemma insert_member_wf: "member_wf s \<Longrightarrow> insert_member row s = Inr (a, t) \<Longrightarrow> member_wf t"
  by (force simp: insert_member_def member_wf_def members_key_def invites_unique_def list_ex_iff split: if_splits)

lemma update_member_role_wf: "member_wf s \<Longrightarrow> update_member_role oid uid r s = Inr (a, t) \<Longrightarrow> member_wf t"
  by (auto simp: update_member_role_def Let_def member_wf_def members_key_def invites_unique_def map_update_where_key)

lemma delete_member_wf: "member_wf s \<Longrightarrow> delete_member oid uid s = Inr (a, t) \<Longrightarrow> member_wf t"
  by (auto simp: delete_member_def Let_def member_wf_def members_key_def invites_unique_def distinct_map_filter)

lemma insert_invite_wf: "member_wf s \<Longrightarrow> insert_invite row s = Inr (a, t) \<Longrightarrow> member_wf t"
  by (force simp: insert_invite_def member_wf_def members_key_def invites_unique_def list_ex_iff split: if_splits)

lemma map_slot_update_where:
  assumes "\<And>i. live_invite (f i) = live_invite i" and "\<And>i. invite_slot (f i) = invite_slot i"
  shows "map invite_slot (filter live_invite (update_where P f xs)) = map invite_slot (filter live_invite xs)"
  using assms by (induction xs) (auto simp: update_where_def)

lemma update_invite_role_wf: "member_wf s \<Longrightarrow> update_invite_role iid r s = Inr (a, t) \<Longrightarrow> member_wf t"
  by (auto simp: update_invite_role_def member_wf_def members_key_def invites_unique_def map_slot_update_where
        map_update_where_key live_invite_def invite_slot_def split: option.splits)

lemma delete_expired_invites_wf: "member_wf s \<Longrightarrow> delete_expired_invites oid m now s = Inr (a, t) \<Longrightarrow> member_wf t"
  by (auto simp: delete_expired_invites_def member_wf_def members_key_def invites_unique_def
        conj_commute distinct_map_filter intro: distinct_map_filter_mono)

lemma filter_live_revoked:
  "filter live_invite (update_where (\<lambda>i. P i \<and> live_invite i) (\<lambda>i. i\<lparr>i_revoked_at := Some now\<rparr>) xs)
   = filter (\<lambda>i. live_invite i \<and> \<not> P i) xs"
  by (induction xs) (auto simp: update_where_def live_invite_def)

lemma revoke_invites_wf: "member_wf s \<Longrightarrow> revoke_invites P now s = Inr (a, t) \<Longrightarrow> member_wf t"
  by (auto simp: revoke_invites_def Let_def member_wf_def members_key_def invites_unique_def
        filter_live_revoked map_update_where_key intro: distinct_map_filter_mono)

lemma move_key_distinct:
  assumes "distinct (map (\<lambda>m. (m_org m, m_user m)) xs)"
    and "dest = oid \<or> (\<forall>m\<in>set xs. \<not> (m_org m = dest \<and> m_user m = uid))"
  shows "distinct (map (\<lambda>m. (m_org m, m_user m))
     (update_where (\<lambda>m. m_org m = oid \<and> m_user m = uid) (\<lambda>m. m\<lparr>m_org := dest, m_role := g m\<rparr>) xs))"
  using assms by (induction xs) (auto simp: update_where_def image_iff split: if_splits)

lemma move_member_wf: "member_wf s \<Longrightarrow> move_member oid uid target r s = Inr (a, t) \<Longrightarrow> member_wf t"
  using move_key_distinct [of "members s" "case target of None \<Rightarrow> oid | Some t \<Rightarrow> t" oid uid]
  by (auto simp: move_member_def Let_def member_wf_def members_key_def invites_unique_def list_ex_iff split: if_splits)

lemmas statement_wf =
  insert_member_wf update_member_role_wf delete_member_wf insert_invite_wf update_invite_role_wf
  delete_expired_invites_wf revoke_invites_wf move_member_wf

section \<open>Handlers keep the table invariants\<close>

lemma keeps_findOrCreateInvite: "keeps member_wf (findOrCreateInvite e inp)"
  unfolding findOrCreateInvite_def by (intro keeps_intros) (auto intro: statement_wf)

lemma keeps_inviteMember: "keeps member_wf (inviteMember e mailer inp)"
  unfolding inviteMember_def
  by (intro keeps_intros keeps_findOrCreateInvite) (auto intro: statement_wf)

lemma keeps_addOrInviteMember: "keeps member_wf (addOrInviteMember e mailer inp)"
  unfolding addOrInviteMember_def
  by (intro keeps_intros keeps_inviteMember) (auto intro: statement_wf)

lemma keeps_auditInvite [keeps_intros]:
  assumes "\<And>s rows. P s \<Longrightarrow> P (s\<lparr>audit_log := rows\<rparr>)"
  shows "keeps P (auditInvite e oid k a m r)"
  unfolding auditInvite_def by (cases r) (auto intro: keeps_intros assms)

lemma keeps_requireOrg [keeps_intros]:
  "(\<And>s c. P s \<Longrightarrow> P (s\<lparr>sso_cache := c\<rparr>)) \<Longrightarrow> keeps P (requireOrg e listOrgs ident)"
  unfolding requireOrg_def getOrgCached_def by (intro keeps_intros) auto

lemma keeps_requireOrgManager [keeps_intros]:
  "(\<And>s c. P s \<Longrightarrow> P (s\<lparr>sso_cache := c\<rparr>)) \<Longrightarrow> keeps P (requireOrgManager e ident)"
  unfolding requireOrgManager_def by (intro keeps_intros) auto

lemma keeps_isLastOrgAdmin [keeps_intros]: "keeps P (isLastOrgAdmin e oid uid)"
  unfolding isLastOrgAdmin_def by (intro keeps_intros)

lemma keeps_patch_guard [keeps_intros]:
  "(\<And>s c. P s \<Longrightarrow> P (s\<lparr>sso_cache := c\<rparr>)) \<Longrightarrow> keeps P (patch_guard e ident uid req)"
  unfolding patch_guard_def by (intro keeps_intros) auto

lemma keeps_remove_guard [keeps_intros]:
  "(\<And>s c. P s \<Longrightarrow> P (s\<lparr>sso_cache := c\<rparr>)) \<Longrightarrow> keeps P (remove_guard e ident uid)"
  unfolding remove_guard_def by (intro keeps_intros) auto

lemma keeps_case_list [keeps_intros]:
  "keeps P m \<Longrightarrow> (\<And>x xs. keeps P (f x xs)) \<Longrightarrow> keeps P (case v of [] \<Rightarrow> m | x # xs \<Rightarrow> f x xs)"
  by (simp split: list.split)

lemma members_POST_wf: "keeps member_wf (members_POST e listOrgs mailer origin ident req)"
  unfolding members_POST_def
  by (intro keeps_intros keeps_addOrInviteMember wf.cache wf.trail) auto

lemma member_PATCH_wf: "keeps member_wf (member_PATCH e ident uid req)"
  unfolding member_PATCH_def patch_commit_def
  by (intro keeps_intros wf.cache wf.trail) (auto intro: statement_wf)

lemma member_DELETE_wf: "keeps member_wf (member_DELETE e ident uid)"
  unfolding member_DELETE_def remove_commit_def
  by (intro keeps_intros wf.cache wf.trail) (auto intro: statement_wf)

lemma invite_DELETE_wf: "keeps member_wf (invite_DELETE e ident iid)"
  unfolding invite_DELETE_def
  by (intro keeps_intros wf.cache wf.trail) (auto intro: statement_wf)

lemma admin_members_POST_wf: "keeps member_wf (admin_members_POST e mailer origin oid req)"
  unfolding admin_members_POST_def
  by (intro keeps_intros keeps_addOrInviteMember wf.cache wf.trail) auto

lemma admin_member_PATCH_wf: "keeps member_wf (admin_member_PATCH e oid uid req)"
  unfolding admin_member_PATCH_def
  by (intro keeps_intros) (auto intro: statement_wf)

lemma admin_member_DELETE_wf: "keeps member_wf (admin_member_DELETE e oid uid)"
  unfolding admin_member_DELETE_def
  by (intro keeps_intros) (auto intro: statement_wf)

lemma admin_invitations_POST_wf: "keeps member_wf (admin_invitations_POST e mailer req)"
  unfolding admin_invitations_POST_def
  by (intro keeps_intros) (auto intro: statement_wf)

lemma admin_invitation_DELETE_wf: "keeps member_wf (admin_invitation_DELETE e iid)"
  unfolding admin_invitation_DELETE_def
  by (intro keeps_intros) (auto intro: statement_wf)

lemmas handler_wf =
  members_POST_wf member_PATCH_wf member_DELETE_wf invite_DELETE_wf admin_members_POST_wf
  admin_member_PATCH_wf admin_member_DELETE_wf admin_invitations_POST_wf admin_invitation_DELETE_wf

text \<open>
  One request at a time: \<open>settings_step\<close> is any request of the organization settings, \<open>panel_step\<close>
  any request of the operator panel, each with an arbitrary session, clock and faults.
\<close>

inductive settings_step :: "db \<Rightarrow> db \<Rightarrow> bool" where
  post: "settings_step s (snd (members_POST e listOrgs mailer origin ident req s))"
| patch: "settings_step s (snd (member_PATCH e ident uid req s))"
| remove: "settings_step s (snd (member_DELETE e ident uid s))"
| revoke: "settings_step s (snd (invite_DELETE e ident iid s))"

inductive panel_step :: "db \<Rightarrow> db \<Rightarrow> bool" where
  add: "panel_step s (snd (admin_members_POST e mailer origin oid req s))"
| move: "panel_step s (snd (admin_member_PATCH e oid uid req s))"
| drop: "panel_step s (snd (admin_member_DELETE e oid uid s))"
| invite: "panel_step s (snd (admin_invitations_POST e mailer req s))"
| withdraw: "panel_step s (snd (admin_invitation_DELETE e iid s))"

inductive_cases settings_stepE: "settings_step s t"
inductive_cases panel_stepE: "panel_step s t"

lemma settings_step_wf: "settings_step s t \<Longrightarrow> member_wf s \<Longrightarrow> member_wf t"
  by (auto elim!: settings_stepE intro: keepsD [OF members_POST_wf] keepsD [OF member_PATCH_wf]
        keepsD [OF member_DELETE_wf] keepsD [OF invite_DELETE_wf])

lemma panel_step_wf: "panel_step s t \<Longrightarrow> member_wf s \<Longrightarrow> member_wf t"
  by (auto elim!: panel_stepE intro: keepsD [OF admin_members_POST_wf] keepsD [OF admin_member_PATCH_wf]
        keepsD [OF admin_member_DELETE_wf] keepsD [OF admin_invitations_POST_wf] keepsD [OF admin_invitation_DELETE_wf])

text \<open>
  Through any sequence of settings and panel requests, failing ones and lost connections
  included, no account is twice a member of an organization and no organization has two live
  invitations for one address.
\<close>

theorem membership_tables_wf:
  assumes "(\<lambda>s t. settings_step s t \<or> panel_step s t)\<^sup>*\<^sup>* s t" and "member_wf s"
  shows "member_wf t"
  using assms by (induction rule: rtranclp_induct) (auto intro: settings_step_wf panel_step_wf)

theorem membership_tables_wf_witness:
  "member_wf (snd (admin_member_DELETE (sample_env\<lparr>jwt_claims := Some (JObj [(''sub'', JStr ''op'')])\<rparr>) ''o1'' ''u2''
      (sample_db\<lparr>platform_admins := [''op'']\<rparr>)))"
proof (rule membership_tables_wf)
  show "(\<lambda>s t. settings_step s t \<or> panel_step s t)\<^sup>*\<^sup>* (sample_db\<lparr>platform_admins := [''op'']\<rparr>)
    (snd (admin_member_DELETE (sample_env\<lparr>jwt_claims := Some (JObj [(''sub'', JStr ''op'')])\<rparr>) ''o1'' ''u2''
      (sample_db\<lparr>platform_admins := [''op'']\<rparr>)))"
    by (intro r_into_rtranclp disjI2 panel_step.drop)
  show "member_wf (sample_db\<lparr>platform_admins := [''op'']\<rparr>)" by code_simp
qed

section \<open>An organization keeps an admin\<close>

definition admins_kept :: "db \<Rightarrow> db \<Rightarrow> bool" where
  "admins_kept s t \<longleftrightarrow> (\<forall>oid. admin_ids oid s \<noteq> [] \<longrightarrow> admin_ids oid t \<noteq> [])"

lemma admins_kept_trans [trans]: "admins_kept s t \<Longrightarrow> admins_kept t u \<Longrightarrow> admins_kept s u"
  by (simp add: admins_kept_def)

lemma admins_kept_members: "members t = members s \<Longrightarrow> admins_kept s t"
  by (simp add: admins_kept_def admin_ids_def)

lemma in_admin_ids: "a \<in> set (admin_ids oid s) \<longleftrightarrow> (\<exists>m\<in>set (members s). m_org m = oid \<and> m_role m = ''admin'' \<and> m_user m = a)"
  by (auto simp: admin_ids_def)

lemma distinct_admin_ids: "members_key s \<Longrightarrow> distinct (admin_ids oid s)"
  by (force simp: members_key_def admin_ids_def distinct_map inj_on_def)

lemma another_admin:
  assumes "members_key s" and "admin_ids oid s \<noteq> []"
    and "\<not> (length (admin_ids oid s) = 1 \<and> admin_ids oid s ! 0 = uid)"
  shows "\<exists>a\<in>set (admin_ids oid s). a \<noteq> uid"
proof (cases "admin_ids oid s")
  case (Cons a as)
  then show ?thesis using distinct_admin_ids [OF assms(1), of oid] assms(3) by (cases as) auto
qed (use assms(2) in simp)

lemma demote_keeps_admin:
  assumes "members_key s" and "r = ''admin'' \<or> \<not> (length (admin_ids oid s) = 1 \<and> admin_ids oid s ! 0 = uid)"
    and "update_member_role oid uid r s = Inr (a, t)"
  shows "admins_kept s t"
proof -
  have t: "members t = update_where (\<lambda>m. m_org m = oid \<and> m_user m = uid) (\<lambda>m. m\<lparr>m_role := r\<rparr>) (members s)"
    using assms(3) by (auto simp: update_member_role_def Let_def)
  have keep: "x \<in> set (admin_ids o' t)" if "x \<in> set (admin_ids o' s)" "r = ''admin'' \<or> o' \<noteq> oid \<or> x \<noteq> uid" for x o'
    using that unfolding in_admin_ids t by (force simp: set_update_where)
  show ?thesis unfolding admins_kept_def
  proof (intro allI impI)
    fix o' assume ne: "admin_ids o' s \<noteq> []"
    then have "\<exists>x\<in>set (admin_ids o' s). r = ''admin'' \<or> o' \<noteq> oid \<or> x \<noteq> uid"
      using another_admin [OF assms(1) ne, of uid] assms(2) ne list.set_sel(1) by metis
    then show "admin_ids o' t \<noteq> []" using keep by fastforce
  qed
qed

lemma remove_keeps_admin:
  assumes "members_key s" and "\<not> (length (admin_ids oid s) = 1 \<and> admin_ids oid s ! 0 = uid)"
    and "delete_member oid uid s = Inr (a, t)"
  shows "admins_kept s t"
proof -
  have t: "members t = filter (\<lambda>m. \<not> (m_org m = oid \<and> m_user m = uid)) (members s)"
    using assms(3) by (auto simp: delete_member_def Let_def)
  show ?thesis unfolding admins_kept_def
  proof (intro allI impI)
    fix o' assume ne: "admin_ids o' s \<noteq> []"
    obtain x where "x \<in> set (admin_ids o' s)" "o' \<noteq> oid \<or> x \<noteq> uid"
      using another_admin [OF assms(1) ne, of uid] assms(2) ne list.set_sel(1) by metis
    then have "x \<in> set (admin_ids o' t)" unfolding in_admin_ids t by auto
    then show "admin_ids o' t \<noteq> []" by auto
  qed
qed

lemma isLastOrgAdmin_InrE:
  assumes "isLastOrgAdmin e oid uid s = (Inr b, t)"
  obtains "t = s" and "b \<longleftrightarrow> length (admin_ids oid s) = 1 \<and> admin_ids oid s ! 0 = uid"
  using assms by (auto simp: isLastOrgAdmin_def elim!: bind_InrE orThrow_InrE dest!: read_db_InrD)

lemma guard_same_members:
  "members (snd (patch_guard e ident uid req s)) = members s"
  "members (snd (remove_guard e ident uid s)) = members s"
  "members (snd (requireOrgManager e ident s)) = members s"
  using keepsD [OF keeps_patch_guard [of "\<lambda>t. members t = members s"]]
    keepsD [OF keeps_remove_guard [of "\<lambda>t. members t = members s"]]
    keepsD [OF keeps_requireOrgManager [of "\<lambda>t. members t = members s"]] by simp_all

lemma admin_ids_cong: "members s = members t \<Longrightarrow> admin_ids oid s = admin_ids oid t"
  by (simp add: admin_ids_def)

lemma patch_guard_InrE:
  assumes "patch_guard e ident uid req s = (Inr (Inr (g, r)), t)"
  obtains "r = ''admin'' \<or> \<not> (length (admin_ids (mg_org g) t) = 1 \<and> admin_ids (mg_org g) t ! 0 = uid)"
    and "List.member INVITE_ROLES r"
  using assms unfolding patch_guard_def
  by (auto elim!: bind_InrE isLastOrgAdmin_InrE split: sum.splits option.splits if_splits)

lemma remove_guard_InrE:
  assumes "remove_guard e ident uid s = (Inr (Inr g), t)"
  obtains "\<not> (length (admin_ids (mg_org g) t) = 1 \<and> admin_ids (mg_org g) t ! 0 = uid)"
  using assms unfolding remove_guard_def
  by (auto elim!: bind_InrE isLastOrgAdmin_InrE split: sum.splits if_splits)

lemma patch_commit_admins:
  assumes "members_key s" and "r = ''admin'' \<or> \<not> (length (admin_ids (mg_org g) s) = 1 \<and> admin_ids (mg_org g) s ! 0 = uid)"
  shows "admins_kept s (snd (patch_commit e uid (g, r) s))"
  unfolding patch_commit_def prod.case
proof (rule bind_call_reaches)
  show "admins_kept s s" by (rule admins_kept_members) simp
  show "admins_kept s t" if "update_member_role (mg_org g) uid r s = Inr (a, t)" for a t
    using demote_keeps_admin [OF assms that] .
qed (intro keeps_intros; simp add: admins_kept_def admin_ids_def)

lemma remove_commit_admins:
  assumes "members_key s" and "\<not> (length (admin_ids (mg_org g) s) = 1 \<and> admin_ids (mg_org g) s ! 0 = uid)"
  shows "admins_kept s (snd (remove_commit e uid g s))"
  unfolding remove_commit_def
proof (rule bind_call_reaches)
  show "admins_kept s s" by (rule admins_kept_members) simp
  show "admins_kept s t" if "delete_member (mg_org g) uid s = Inr (a, t)" for a t
    using remove_keeps_admin [OF assms that] .
qed (intro keeps_intros; simp add: admins_kept_def admin_ids_def)

lemma guarded_commit_admins:
  assumes "members_key s" and "members (snd (guard s)) = members s"
    and "\<And>p t. guard s = (Inr (Inr p), t) \<Longrightarrow> members_key t \<Longrightarrow> admins_kept t (snd (commit p t))"
  shows "admins_kept s (snd (handler (bind guard (\<lambda>g. case g of Inl r \<Rightarrow> ret r | Inr p \<Rightarrow> commit p)) s))"
proof -
  obtain r t where g: "guard s = (r, t)" by (cases "guard s")
  then have t: "members t = members s" "members_key t" using assms(1,2) by (auto simp: members_key_def)
  then have "admins_kept s t" by (intro admins_kept_members)
  then show ?thesis using g assms(3) t(2)
    by (cases r) (auto simp: act_simps split: sum.splits intro: admins_kept_trans)
qed

lemma member_PATCH_admins: "members_key s \<Longrightarrow> admins_kept s (snd (member_PATCH e ident uid req s))"
  unfolding member_PATCH_def
proof (rule guarded_commit_admins)
  fix p t assume *: "patch_guard e ident uid req s = (Inr (Inr p), t)" "members_key t"
  show "admins_kept t (snd (patch_commit e uid p t))"
    using * by (cases p) (auto elim!: patch_guard_InrE intro: patch_commit_admins)
qed (auto simp: guard_same_members)

lemma member_DELETE_admins: "members_key s \<Longrightarrow> admins_kept s (snd (member_DELETE e ident uid s))"
  unfolding member_DELETE_def
proof (rule guarded_commit_admins)
  fix p t assume *: "remove_guard e ident uid s = (Inr (Inr p), t)" "members_key t"
  show "admins_kept t (snd (remove_commit e uid p t))"
    using * by (auto elim!: remove_guard_InrE intro: remove_commit_admins)
qed (auto simp: guard_same_members)

interpretation kept: table_invariant "admins_kept s"
  by unfold_locales (simp_all add: admins_kept_def admin_ids_def)

lemma insert_member_kept: "admins_kept s t \<Longrightarrow> insert_member row t = Inr (a, u) \<Longrightarrow> admins_kept s u"
  by (auto simp: insert_member_def admins_kept_def admin_ids_def split: if_splits)

lemma invite_statements_kept:
  "admins_kept s t \<Longrightarrow> insert_invite row t = Inr (a, u) \<Longrightarrow> admins_kept s u"
  "admins_kept s t \<Longrightarrow> update_invite_role iid r t = Inr (a', u) \<Longrightarrow> admins_kept s u"
  "admins_kept s t \<Longrightarrow> delete_expired_invites oid m now t = Inr (a'', u) \<Longrightarrow> admins_kept s u"
  "admins_kept s t \<Longrightarrow> revoke_invites P now t = Inr (b, u) \<Longrightarrow> admins_kept s u"
  by (auto simp: insert_invite_def update_invite_role_def delete_expired_invites_def revoke_invites_def Let_def
        admins_kept_def admin_ids_def split: if_splits option.splits)

lemma members_POST_admins: "keeps (admins_kept s) (members_POST e listOrgs mailer origin ident req)"
proof -
  have "keeps (admins_kept s) (addOrInviteMember e mailer inp)" for inp
    unfolding addOrInviteMember_def inviteMember_def findOrCreateInvite_def
    by (intro keeps_intros) (auto intro: insert_member_kept invite_statements_kept)
  then show ?thesis unfolding members_POST_def by (intro keeps_intros kept.cache kept.trail) auto
qed

lemma invite_DELETE_admins: "keeps (admins_kept s) (invite_DELETE e ident iid)"
  unfolding invite_DELETE_def
  by (intro keeps_intros kept.cache kept.trail) (auto intro: invite_statements_kept)

lemma settings_step_admins: "settings_step s t \<Longrightarrow> members_key s \<Longrightarrow> admins_kept s t"
proof -
  have refl: "admins_kept s s" by (rule admins_kept_members) simp
  then show "settings_step s t \<Longrightarrow> members_key s \<Longrightarrow> admins_kept s t"
    by (auto elim!: settings_stepE intro: member_PATCH_admins member_DELETE_admins
          keepsD [OF members_POST_admins] keepsD [OF invite_DELETE_admins])
qed

text \<open>
  C2. Served one at a time, the requests of the organization settings never leave an
  organization that had an admin without one, whoever sends them and however the database fails.
\<close>

theorem settings_keep_an_admin:
  assumes "settings_step\<^sup>*\<^sup>* s t" and "member_wf s" and "admin_ids oid s \<noteq> []"
  shows "admin_ids oid t \<noteq> []"
proof -
  have "member_wf t \<and> admins_kept s t" using assms(1)
  proof (induction rule: rtranclp_induct)
    case base
    then show ?case using assms(2) by (simp add: admins_kept_members)
  next
    case (step t u)
    then show ?case using settings_step_wf settings_step_admins admins_kept_trans
      by (auto simp: member_wf_def)
  qed
  then show ?thesis using assms(3) by (simp add: admins_kept_def)
qed

theorem settings_keep_an_admin_witness:
  "admin_ids ''o1'' (snd (member_DELETE sample_env ''acme'' ''u1'' sample_db)) \<noteq> []"
proof (rule settings_keep_an_admin)
  show "settings_step\<^sup>*\<^sup>* sample_db (snd (member_DELETE sample_env ''acme'' ''u1'' sample_db))"
    by (intro r_into_rtranclp settings_step.remove)
qed code_simp+

definition two_admins_db :: db where
  "two_admins_db = sample_db\<lparr>members := [\<lparr>m_org = ''o1'', m_user = ''u1'', m_role = ''admin'', m_created_at = 1\<rparr>,
     \<lparr>m_org = ''o1'', m_user = ''u2'', m_role = ''admin'', m_created_at = 2\<rparr>]\<rparr>"

definition second_env :: env where
  "second_env = sample_env\<lparr>jwt_claims := Some (JObj [(''sub'', JStr ''u2'')])\<rparr>"

definition demote_body :: "string + json" where
  "demote_body = Inr (JObj [(''role'', JStr ''user'')])"

definition interleaved_patches :: "db \<Rightarrow> (int \<times> int) option \<times> db" where
  "interleaved_patches s =
     (case patch_guard sample_env ''acme'' ''u2'' demote_body s of
        (Inr (Inr p1), s1) \<Rightarrow>
          (case patch_guard second_env ''acme'' ''u1'' demote_body s1 of
             (Inr (Inr p2), s2) \<Rightarrow>
               (let s3 = snd (patch_commit sample_env ''u2'' p1 s2) in
                (Some (status (response (patch_commit sample_env ''u2'' p1) s2),
                       status (response (patch_commit second_env ''u1'' p2) s3)),
                 snd (patch_commit second_env ''u1'' p2 s3)))
           | (_, s2) \<Rightarrow> (None, s2))
      | (_, s1) \<Rightarrow> (None, s1))"

text \<open>
  The check and the write of that guarantee are two database calls with no lock between
  them: when two admins demote each other and both checks run before either write, both requests
  answer 200 and the organization has no admin left.
\<close>

theorem concurrent_demotions_leave_no_admin:
  "length (admin_ids ''o1'' two_admins_db) = 2
   \<and> fst (interleaved_patches two_admins_db) = Some (200, 200)
   \<and> admin_ids ''o1'' (snd (interleaved_patches two_admins_db)) = []"
  by (intro conjI) code_simp+

section \<open>A banned organization does not grow\<close>

text \<open>
  C4. Adding or inviting for a banned organization changes nothing, on every path: the answer is
  the 403 of the ban, or the 500 of a failed ban read, and no membership or invitation is written.
\<close>

theorem banned_org_does_not_grow:
  assumes "first_where (\<lambda>org. o_id org = in_org inp) (organizations s) = Some org" and "o_banned_at org \<noteq> None"
  shows "snd (addOrInviteMember e mailer inp s) = s
    \<and> (\<exists>st msg. fst (addOrInviteMember e mailer inp s) = Inr (AddError st msg) \<and> (st = 403 \<or> st = 500))"
  using assms
  by (auto simp: addOrInviteMember_def act_simps read_db_def split: option.splits fault.splits)

theorem banned_org_does_not_grow_witness:
  "snd (addOrInviteMember sample_env Sent \<lparr>in_org = ''o1'', in_org_name = ''Acme'', in_email = ''eve@other.test'',
      in_role = ''admin'', in_invited_by = ''u1'', in_origin = ''https://x''\<rparr>
      (sample_db\<lparr>organizations := map (\<lambda>org. org\<lparr>o_banned_at := Some 5\<rparr>) (organizations sample_db)\<rparr>))
   = sample_db\<lparr>organizations := map (\<lambda>org. org\<lparr>o_banned_at := Some 5\<rparr>) (organizations sample_db)\<rparr>"
proof -
  let ?inp = "\<lparr>in_org = ''o1'', in_org_name = ''Acme'', in_email = ''eve@other.test'',
      in_role = ''admin'', in_invited_by = ''u1'', in_origin = ''https://x''\<rparr>"
  let ?s = "sample_db\<lparr>organizations := map (\<lambda>org. org\<lparr>o_banned_at := Some 5\<rparr>) (organizations sample_db)\<rparr>"
  have "first_where (\<lambda>org. o_id org = in_org ?inp) (organizations ?s) = Some (hd (organizations ?s))"
    "o_banned_at (hd (organizations ?s)) \<noteq> None" by code_simp+
  from banned_org_does_not_grow [OF this] show ?thesis by blast
qed

section \<open>What an invite leaves behind\<close>

definition invite_ready :: "env \<Rightarrow> add_member_input \<Rightarrow> invite_row \<Rightarrow> db \<Rightarrow> bool" where
  "invite_ready e inp i t \<longleftrightarrow> i \<in> set (invitations t) \<and> i_org i = Some (in_org inp) \<and> i_email i = in_email inp
     \<and> live_invite i \<and> now_ms e < i_expires_at i"

lemma pending_invite_ready: "pending_invite (in_org inp) (in_email inp) (now_ms e) s = Some i \<Longrightarrow> invite_ready e inp i s"
  by (auto simp: pending_invite_def invite_ready_def dest!: first_where_SomeD)

lemma new_invite_ready:
  "insert_invite (new_invite e inp) s = Inr (i, t) \<Longrightarrow> invite_ready e inp i t \<and> i_role i = in_role inp"
  by (auto simp: insert_invite_def new_invite_def invite_ready_def live_invite_def INVITE_TTL_MS_def split: if_splits)

lemma findOrCreateInvite_InrE:
  assumes "findOrCreateInvite e inp s = (Inr (Inr (Some i, created)), t)"
  obtains "invite_ready e inp i t" and "created \<Longrightarrow> i_role i = in_role inp"
  using assms unfolding findOrCreateInvite_def
  by (auto elim!: bind_InrE split: sum.splits option.splits if_splits
           dest!: read_db_InrD pending_invite_ready [OF sym] call_InrD new_invite_ready)

lemma realigned_invite_ready:
  assumes "invite_ready e inp i s" and "update_invite_role (i_id i) r s = Inr (i', t)" and "distinct (map i_id (invitations s))"
  shows "invite_ready e inp i' t \<and> i_role i' = r"
proof -
  obtain j where j: "first_where (\<lambda>x. i_id x = i_id i) (invitations s) = Some j" "i' = j\<lparr>i_role := r\<rparr>"
    "invitations t = update_where (\<lambda>x. i_id x = i_id i) (\<lambda>x. x\<lparr>i_role := r\<rparr>) (invitations s)"
    using assms(2) by (auto simp: update_invite_role_def split: option.splits)
  then have "j \<in> set (invitations s)" "i_id j = i_id i" by (auto dest: first_where_SomeD)
  then have "j = i" using assms(1,3) by (auto simp: invite_ready_def distinct_map inj_on_def)
  then show ?thesis using assms(1) j by (auto simp: invite_ready_def live_invite_def set_update_where)
qed

lemma inviteMember_InvitedE:
  assumes "inviteMember e mailer inp s = (Inr (Invited st iid role mail url), t)" and "member_wf s"
  obtains i created where "invite_ready e inp i t" and "i_role i = in_role inp"
    and "Invited st iid role mail url = sendInvite mailer inp i created"
proof -
  from assms(1) obtain s1 s2 i created where
    s1: "call (faults e ''org_invitations.cleanup'') (delete_expired_invites (in_org inp) (in_email inp) (now_ms e)) s = (Inr (Inr ()), s1)"
    and f: "findOrCreateInvite e inp s1 = (Inr (Inr (Some i, created)), s2)"
    and r: "(if \<not> created \<and> i_role i \<noteq> in_role inp then
               bind (call (faults e ''org_invitations.role'') (update_invite_role (i_id i) (in_role inp))) (\<lambda>updateResult.
               case updateResult of
                 Inl err \<Rightarrow> ret (AddError 500 (message err))
               | Inr i' \<Rightarrow> ret (sendInvite mailer inp i' created))
             else ret (sendInvite mailer inp i created)) s2 = (Inr (Invited st iid role mail url), t)"
    unfolding inviteMember_def
    by (elim bind_InrE) (auto elim!: bind_InrE split: sum.splits prod.splits option.splits)
  have "member_wf s1" using call_InrD [OF s1] assms(2) by (auto intro: delete_expired_invites_wf)
  then have d2: "distinct (map i_id (invitations s2))"
    using keepsD [OF keeps_findOrCreateInvite, of s1 e inp] f by (simp add: member_wf_def invites_unique_def)
  from f have ready: "invite_ready e inp i s2" "created \<Longrightarrow> i_role i = in_role inp"
    by (auto elim: findOrCreateInvite_InrE)
  show thesis
  proof (cases "\<not> created \<and> i_role i \<noteq> in_role inp")
    case True
    then obtain i' where "update_invite_role (i_id i) (in_role inp) s2 = Inr (i', t)"
      "Invited st iid role mail url = sendInvite mailer inp i' created"
      using r by (auto elim!: bind_InrE split: sum.splits dest!: call_InrD)
    then show thesis using that realigned_invite_ready [OF ready(1) _ d2] by blast
  next
    case False
    then have "t = s2" "Invited st iid role mail url = sendInvite mailer inp i created" "i_role i = in_role inp"
      using r ready(2) by auto
    then show thesis using that ready(1) by blast
  qed
qed

text \<open>
  When the flow answers \<open>invited\<close>, the database holds a live, unexpired invitation of that
  organization for that address at the role the caller asked for, also when an older pending
  invitation with another role was recovered, and the caller gets that invitation's link exactly
  when the e-mail was not sent.
\<close>

theorem invited_means_invited:
  assumes "addOrInviteMember e mailer inp s = (Inr (Invited st iid role mail url), t)" and "member_wf s"
  shows "role = in_role inp \<and> (\<exists>i. i \<in> set (invitations t) \<and> i_id i = iid \<and> i_org i = Some (in_org inp)
      \<and> i_email i = in_email inp \<and> i_role i = in_role inp \<and> invitationStatus i (now_ms e) = Pending
      \<and> url = (if mail = Sent then None else Some (invitationLink (in_origin inp) (i_token i))))"
proof -
  have "inviteMember e mailer inp s = (Inr (Invited st iid role mail url), t)"
    using assms(1) unfolding addOrInviteMember_def
    by (auto elim!: bind_InrE split: sum.splits option.splits if_splits)
  then obtain i created where i: "invite_ready e inp i t" "i_role i = in_role inp"
    "Invited st iid role mail url = sendInvite mailer inp i created"
    using assms(2) by (rule inviteMember_InvitedE)
  then have "invitationStatus i (now_ms e) = Pending"
    by (simp add: invitationStatus_def invite_ready_def live_invite_def)
  then show ?thesis using i by (auto simp: invite_ready_def sendInvite_def Let_def split: email_result.splits)
qed

theorem invited_means_invited_witness:
  "\<exists>i. i \<in> set (invitations (snd (addOrInviteMember sample_env (NotSent ''off'') \<lparr>in_org = ''o1'', in_org_name = ''Acme'',
      in_email = ''new@acme.test'', in_role = ''user'', in_invited_by = ''u1'', in_origin = ''https://x/''\<rparr> sample_db)))
    \<and> i_id i = ''id-9'' \<and> i_role i = ''user''"
proof -
  let ?inp = "\<lparr>in_org = ''o1'', in_org_name = ''Acme'', in_email = ''new@acme.test'', in_role = ''user'',
    in_invited_by = ''u1'', in_origin = ''https://x/''\<rparr>"
  have r: "fst (addOrInviteMember sample_env (NotSent ''off'') ?inp sample_db)
    = Inr (Invited 201 ''id-9'' ''user'' (NotSent ''off'') (Some ''https://x/signin?invite=tok-9''))" by code_simp
  have w: "member_wf sample_db" by code_simp
  have "addOrInviteMember sample_env (NotSent ''off'') ?inp sample_db =
    (Inr (Invited 201 ''id-9'' ''user'' (NotSent ''off'') (Some ''https://x/signin?invite=tok-9'')),
     snd (addOrInviteMember sample_env (NotSent ''off'') ?inp sample_db))" using r by (metis prod.collapse)
  from invited_means_invited [OF this w] show ?thesis by auto
qed

section \<open>Only admins manage members\<close>

lemma canonical_id_resolves:
  assumes "listAuthorizedOrgIds e s = (Inr m, s)" and "map_get m k = Some oid"
  shows "map_get m oid = Some oid"
  using assms by (auto elim!: listAuthorizedOrgIds_InrE setIdentifierKeys_SomeD intro: setIdentifierKeys_uuid)

lemma requireOrgAccess_map:
  assumes "requireOrgAccess e ident r s = (Inr (oid, slug), t)"
  obtains m where "listAuthorizedOrgIds e s = (Inr m, s)" and "map_get m ident = Some oid"
  using assms unfolding requireOrgAccess_def
  by (auto elim!: bind_InrE requireAuthenticatedUser_InrE split: option.splits)
     (metis listAuthorizedOrgIds_state)

lemma read_db_same_tables:
  assumes "same_tables s t" and "\<And>u c. f (u\<lparr>sso_cache := c\<rparr>) = f u"
  shows "f s = f t"
  using assms by (metis same_tables_def)

lemma listAuthorizedOrgIds_same_tables:
  assumes "same_tables s t" and "listAuthorizedOrgIds e s = (Inr m, s)"
  shows "listAuthorizedOrgIds e t = (Inr m, t)"
proof -
  have "organizations s = organizations t" "platform_admins s = platform_admins t" "members s = members t"
    using read_db_same_tables [OF assms(1), of organizations] read_db_same_tables [OF assms(1), of platform_admins]
      read_db_same_tables [OF assms(1), of members] by simp_all
  then have "is_admin_user s = is_admin_user t" "member_orgs s = member_orgs t"
    by (simp_all add: is_admin_user_def member_orgs_def fun_eq_iff cong: if_cong)
  then show ?thesis using assms(2) \<open>organizations s = organizations t\<close>
    by (auto simp: listAuthorizedOrgIds_def listMembershipOrgIds_def isPlatformAdmin_def requireAuthenticatedUser_def
        orThrow_def read_db_def act_simps split: option.splits fault.splits sum.splits if_splits)
qed

lemma requireOrgManager_InrE:
  assumes "requireOrgManager e ident s = (Inr (Inr g), t)"
  obtains u where "same_tables s u" and "authorized_for u e (mg_org g) Admin"
proof -
  from assms obtain user padm slug u ok where
    user: "getAuthenticatedUser e = Some user"
    and acc: "requireOrgAccess e ident User s = (Inr (mg_org g, slug), u)"
    and adm: "isPlatformAdmin e u = (Inr padm, u)"
    and ok: "(if padm then ret True else isOrgAdmin e (mg_org g)) u = (Inr ok, t)" "ok"
    unfolding requireOrgManager_def requireOrgId_def
    by (auto elim!: bind_InrE requireAuthenticatedUser_InrE split: if_splits)
       (metis isPlatformAdmin_state)+
  have st: "same_tables s u" using requireOrgAccess_same_tables [of s e ident User] acc by simp
  show thesis
  proof (cases padm)
    case True
    then have "is_admin_user u (usr_id user)" using adm user by (auto elim: isPlatformAdmin_InrE)
    then have "authorized_for u e (mg_org g) Admin" using user by (simp add: authorized_for_def)
    then show thesis using st that by blast
  next
    case False
    then have "isOrgAdmin e (mg_org g) u = (Inr True, t)" using ok by simp
    moreover have "\<not> (swallow_denied err v = (Inr True, w))" for err v w
      by (cases err) (auto simp: swallow_denied_def)
    ultimately obtain oid slug' where a: "requireOrgAccess e (mg_org g) Admin u = (Inr (oid, slug'), t)"
      unfolding isOrgAdmin_def delegatedRoleCheck_alt
      by (auto simp: act_simps split: prod.splits sum.splits)
    obtain m where m: "listAuthorizedOrgIds e s = (Inr m, s)" "map_get m ident = Some (mg_org g)"
      using acc by (rule requireOrgAccess_map)
    obtain m' where m': "listAuthorizedOrgIds e u = (Inr m', u)" "map_get m' (mg_org g) = Some oid"
      using a by (rule requireOrgAccess_map)
    have "oid = mg_org g"
      using m m' canonical_id_resolves [OF m] listAuthorizedOrgIds_same_tables [OF st m(1)] by simp
    then have "authorized_for u e (mg_org g) Admin" using a by (auto elim: requireOrgAccess_InrE)
    then show thesis using st that by blast
  qed
qed

definition addressed :: "string \<Rightarrow> string \<Rightarrow> member_row \<Rightarrow> bool" where
  "addressed oid uid m \<longleftrightarrow> m_org m = oid \<and> m_user m = uid"

definition changed_only :: "string \<Rightarrow> string \<Rightarrow> db \<Rightarrow> db \<Rightarrow> bool" where
  "changed_only oid uid s t \<longleftrightarrow>
     filter (\<lambda>m. \<not> addressed oid uid m) (members t) = filter (\<lambda>m. \<not> addressed oid uid m) (members s)"

lemma changed_only_refl: "members t = members s \<Longrightarrow> changed_only oid uid s t"
  by (simp add: changed_only_def)

interpretation only: table_invariant "changed_only oid uid s"
  by unfold_locales (simp_all add: changed_only_def)

lemma filter_update_where_other:
  "(\<And>x. P x \<Longrightarrow> P (f x)) \<Longrightarrow> filter (\<lambda>x. \<not> P x) (update_where P f xs) = filter (\<lambda>x. \<not> P x) xs"
  by (induction xs) (auto simp: update_where_def)

lemma update_member_role_changed_only:
  assumes "update_member_role oid uid r s = Inr (a, t)"
  shows "changed_only oid uid s t"
proof -
  have "members t = update_where (addressed oid uid) (\<lambda>m. m\<lparr>m_role := r\<rparr>) (members s)"
    using assms by (auto simp: update_member_role_def addressed_def [abs_def] Let_def)
  then show ?thesis unfolding changed_only_def
    using filter_update_where_other [of "addressed oid uid" "\<lambda>m. m\<lparr>m_role := r\<rparr>"] by (simp add: addressed_def)
qed

lemma delete_member_changed_only: "delete_member oid uid s = Inr (a, t) \<Longrightarrow> changed_only oid uid s t"
  by (auto simp: delete_member_def Let_def changed_only_def addressed_def intro: filter_cong)

lemma patch_commit_changed_only: "changed_only (mg_org g) uid s (snd (patch_commit e uid (g, r) s))"
  unfolding patch_commit_def prod.case
  by (rule bind_call_reaches; (intro keeps_intros only.trail; assumption)?)
     (auto intro: changed_only_refl update_member_role_changed_only)

lemma remove_commit_changed_only: "changed_only (mg_org g) uid s (snd (remove_commit e uid g s))"
  unfolding remove_commit_def
  by (rule bind_call_reaches; (intro keeps_intros only.trail; assumption)?)
     (auto intro: changed_only_refl delete_member_changed_only)

lemma patch_guard_manager:
  assumes "patch_guard e ident uid req s = (Inr (Inr (g, r)), t)"
  obtains u where "same_tables s u" and "authorized_for u e (mg_org g) Admin"
proof -
  obtain v where "requireOrgManager e ident s = (Inr (Inr g), v)"
    using assms unfolding patch_guard_def
    by (auto elim!: bind_InrE split: sum.splits option.splits if_splits)
  then show thesis using that by (rule requireOrgManager_InrE)
qed

lemma remove_guard_manager:
  assumes "remove_guard e ident uid s = (Inr (Inr g), t)"
  obtains u where "same_tables s u" and "authorized_for u e (mg_org g) Admin"
proof -
  obtain v where "requireOrgManager e ident s = (Inr (Inr g), v)"
    using assms unfolding remove_guard_def
    by (auto elim!: bind_InrE split: sum.splits if_splits)
  then show thesis using that by (rule requireOrgManager_InrE)
qed

lemma guarded_change:
  assumes "members (snd (handler (bind guard (\<lambda>g. case g of Inl r \<Rightarrow> ret r | Inr p \<Rightarrow> commit p)) s)) \<noteq> members s"
    and "members (snd (guard s)) = members s"
  obtains p t where "guard s = (Inr (Inr p), t)" and "members t = members s"
    and "snd (handler (bind guard (\<lambda>g. case g of Inl r \<Rightarrow> ret r | Inr p \<Rightarrow> commit p)) s) = snd (commit p t)"
proof -
  obtain r t where g: "guard s = (r, t)" by (cases "guard s")
  then show thesis using assms that by (cases r) (auto simp: act_simps split: sum.splits)
qed

text \<open>
  A membership changes through the settings only at the hands of an authorized manager, and
  only the addressed one: if a role change or a removal altered the table, the session was a
  platform operator or an admin of that organization whose authentication satisfies its SSO
  requirement, and every other membership row, of this and of every other organization, is as
  before.
\<close>

theorem only_admins_change_members:
  assumes "t = snd (member_PATCH e ident uid req s) \<or> t = snd (member_DELETE e ident uid s)"
    and "members t \<noteq> members s"
  shows "\<exists>oid u. same_tables s u \<and> authorized_for u e oid Admin \<and> changed_only oid uid s t"
  using assms(1)
proof
  assume t: "t = snd (member_PATCH e ident uid req s)"
  obtain p v where "patch_guard e ident uid req s = (Inr (Inr p), v)" "members v = members s" "t = snd (patch_commit e uid p v)"
    using assms(2) unfolding t member_PATCH_def by (rule guarded_change) (auto simp: guard_same_members)
  then show ?thesis using patch_commit_changed_only
    by (cases p) (metis changed_only_def patch_guard_manager)
next
  assume t: "t = snd (member_DELETE e ident uid s)"
  obtain g v where "remove_guard e ident uid s = (Inr (Inr g), v)" "members v = members s" "t = snd (remove_commit e uid g v)"
    using assms(2) unfolding t member_DELETE_def by (rule guarded_change) (auto simp: guard_same_members)
  then show ?thesis using remove_commit_changed_only
    by (metis changed_only_def remove_guard_manager)
qed

theorem only_admins_change_members_witness:
  "\<exists>oid u. same_tables sample_db u \<and> authorized_for u sample_env oid Admin
     \<and> changed_only oid ''u2'' sample_db (snd (member_DELETE sample_env ''acme'' ''u2'' sample_db))"
proof (rule only_admins_change_members [OF disjI2 [OF refl]])
  show "members (snd (member_DELETE sample_env ''acme'' ''u2'' sample_db)) \<noteq> members sample_db" by code_simp
qed

end
