(* ===== verification/Url_Query.thy ===== *)
theory Url_Query
  imports Prelude
begin

text \<open>
  \<open>URLSearchParams\<close>: a list of name and value pairs, its serialization (\<open>application/x-www-form-urlencoded\<close>)
  and its parser. Texts are lists of bytes, so percent escapes are byte escapes. The main lemma is that
  parsing a serialized list gives the list back, whatever its names and values.
\<close>

section \<open>The list\<close>

type_synonym search_params = "(string \<times> string) list"

definition params_get :: "search_params \<Rightarrow> string \<Rightarrow> string option" where
  "params_get ps k = map_of ps k"

fun params_set :: "string \<Rightarrow> string \<Rightarrow> search_params \<Rightarrow> search_params" where
  "params_set k v [] = [(k, v)]"
| "params_set k v ((a, b) # ps) = (if a = k then (k, v) # filter (\<lambda>p. fst p \<noteq> k) ps else (a, b) # params_set k v ps)"

section \<open>Serialization\<close>

definition form_unreserved :: "char \<Rightarrow> bool" where
  "form_unreserved c \<longleftrightarrow> is_alpha c \<or> is_digit c \<or> List.member ''*-._'' c"

definition form_byte :: "char \<Rightarrow> string" where
  "form_byte c =
     (if form_unreserved c then [c] else if c = CHR '' '' then ''+''
      else (let n = (of_char c :: nat) in [CHR ''%'', hex_digit (n div 16), hex_digit (n mod 16)]))"

definition form_encode :: "string \<Rightarrow> string" where
  "form_encode s = concat (map form_byte s)"

definition params_toString :: "search_params \<Rightarrow> string" where
  "params_toString ps = join_with ''&'' (map (\<lambda>(k, v). form_encode k @ ''='' @ form_encode v) ps)"

section \<open>Parsing\<close>

definition hex_value :: "char \<Rightarrow> nat option" where
  "hex_value c =
     (let n = (of_char c :: nat) in
      if 48 \<le> n \<and> n \<le> 57 then Some (n - 48)
      else if 65 \<le> n \<and> n \<le> 70 then Some (n - 55)
      else if 97 \<le> n \<and> n \<le> 102 then Some (n - 87) else None)"

fun form_decode :: "string \<Rightarrow> string" where
  "form_decode (c # x # y # s) =
     (if c = CHR ''+'' then CHR '' '' # form_decode (x # y # s)
      else if c = CHR ''%'' then
        (case (hex_value x, hex_value y) of
           (Some a, Some b) \<Rightarrow> char_of (16 * a + b) # form_decode s
         | _ \<Rightarrow> c # form_decode (x # y # s))
      else c # form_decode (x # y # s))"
| "form_decode (c # s) = (if c = CHR ''+'' then CHR '' '' else c) # form_decode s"
| "form_decode [] = []"

definition parse_pair :: "string \<Rightarrow> string \<times> string" where
  "parse_pair s =
     (form_decode (takeWhile (\<lambda>c. c \<noteq> CHR ''='') s), form_decode (drop 1 (dropWhile (\<lambda>c. c \<noteq> CHR ''='') s)))"

definition params_parse :: "string \<Rightarrow> search_params" where
  "params_parse s = map parse_pair (filter (\<lambda>w. w \<noteq> []) (split_on (CHR ''&'') s))"

section \<open>Lemmas\<close>

lemma form_encode_Cons [simp]: "form_encode (c # s) = form_byte c @ form_encode s" and form_encode_Nil [simp]: "form_encode [] = []"
  by (simp_all add: form_encode_def)

lemma form_encode_id: "list_all form_unreserved s \<Longrightarrow> form_encode s = s"
  by (induction s) (auto simp: form_byte_def)

lemma hex_value_digit: "n < 16 \<Longrightarrow> hex_value (hex_digit n) = Some n"
  by (auto simp: less_Suc_eq eval_nat_numeral hex_digit_def hex_value_def)

lemma form_decode_escape:
  "a < 16 \<Longrightarrow> b < 16 \<Longrightarrow> form_decode (CHR ''%'' # hex_digit a # hex_digit b # s) = char_of (16 * a + b) # form_decode s"
  by (simp add: hex_value_digit)

lemma form_decode_plain: "c \<noteq> CHR ''+'' \<Longrightarrow> c \<noteq> CHR ''%'' \<Longrightarrow> form_decode (c # s) = c # form_decode s"
  by (cases "c # s" rule: form_decode.cases) simp_all

lemma form_decode_plus: "form_decode (CHR ''+'' # s) = CHR '' '' # form_decode s"
  by (cases "CHR ''+'' # s" rule: form_decode.cases) simp_all

lemma unreserved_plain: "form_unreserved c \<Longrightarrow> c \<noteq> CHR ''+'' \<and> c \<noteq> CHR ''%'' \<and> c \<noteq> CHR ''='' \<and> c \<noteq> CHR ''&''"
  by (auto simp: form_unreserved_def is_alpha_def is_digit_def)

lemma char_nibbles [simp]: "(of_char c :: nat) div 16 < 16" "(of_char c :: nat) mod 16 < 16"
  using nat_of_char_less_256 [of c] by linarith+

lemma form_decode_byte: "form_decode (form_byte c @ s) = c # form_decode s"
proof -
  have "form_decode (CHR ''%'' # hex_digit (of_char c div 16) # hex_digit (of_char c mod 16) # s) = c # form_decode s"
    by (subst form_decode_escape) (auto simp: mult.commute)
  then show ?thesis using unreserved_plain [of c] by (auto simp: form_byte_def Let_def form_decode_plain form_decode_plus)
qed

lemma form_roundtrip: "form_decode (form_encode s) = s"
  by (induction s) (simp_all add: form_decode_byte)

lemma hex_digit_plain: "n < 16 \<Longrightarrow> hex_digit n \<noteq> CHR ''='' \<and> hex_digit n \<noteq> CHR ''&''"
  by (auto simp: less_Suc_eq eval_nat_numeral hex_digit_def)

lemma form_byte_plain: "d \<in> set (form_byte c) \<Longrightarrow> d \<noteq> CHR ''='' \<and> d \<noteq> CHR ''&''"
proof -
  have "hex_digit (of_char c div 16) \<noteq> CHR ''='' \<and> hex_digit (of_char c div 16) \<noteq> CHR ''&''"
    "hex_digit (of_char c mod 16) \<noteq> CHR ''='' \<and> hex_digit (of_char c mod 16) \<noteq> CHR ''&''"
    by (rule hex_digit_plain, rule char_nibbles)+
  then show "d \<in> set (form_byte c) \<Longrightarrow> d \<noteq> CHR ''='' \<and> d \<noteq> CHR ''&''"
    using unreserved_plain [of c] by (auto simp: form_byte_def Let_def split: if_splits)
qed

lemma form_encode_plain: "CHR ''='' \<notin> set (form_encode s)" "CHR ''&'' \<notin> set (form_encode s)"
  using form_byte_plain by (auto simp: form_encode_def)

lemma split_at_first: "d \<notin> set s \<Longrightarrow> takeWhile (\<lambda>c. c \<noteq> d) (s @ d # t) = s \<and> dropWhile (\<lambda>c. c \<noteq> d) (s @ d # t) = d # t"
  by (induction s) auto

lemma parse_pair_encoded: "parse_pair (form_encode k @ ''='' @ form_encode v) = (k, v)"
  using split_at_first [OF form_encode_plain(1), of k "form_encode v"] by (simp add: parse_pair_def form_roundtrip)

lemma split_join_parts:
  "ws \<noteq> [] \<Longrightarrow> \<forall>w\<in>set ws. d \<notin> set w \<Longrightarrow> split_on d (join_with [d] ws) = ws"
proof (induction ws)
  case (Cons w ws)
  then show ?case by (cases ws) (simp_all add: split_on_absent split_on_first)
qed simp

theorem params_roundtrip: "params_parse (params_toString ps) = ps"
proof (cases "ps = []")
  case False
  let ?ws = "map (\<lambda>(k, v). form_encode k @ ''='' @ form_encode v) ps"
  have "\<forall>w\<in>set ?ws. CHR ''&'' \<notin> set w" using form_encode_plain(2) by auto
  then have "split_on (CHR ''&'') (params_toString ps) = ?ws"
    using False split_join_parts [of ?ws "CHR ''&''"] by (simp add: params_toString_def)
  moreover have "filter (\<lambda>w. w \<noteq> []) ?ws = ?ws" by (auto simp: filter_id_conv)
  ultimately show ?thesis
    using parse_pair_encoded by (simp add: params_parse_def comp_def case_prod_beta)
qed (simp add: params_parse_def params_toString_def)

lemma params_get_set: "params_get (params_set k v ps) j = (if j = k then Some v else params_get ps j)"
proof -
  have "j \<noteq> k \<Longrightarrow> map_of (filter (\<lambda>p. fst p \<noteq> k) ps) j = map_of ps j" for ps :: search_params
    by (induction ps) auto
  then show ?thesis by (induction k v ps rule: params_set.induct) (auto simp: params_get_def)
qed

end
