(* ===== verification/Api_Keys.thy ===== *)
theory Api_Keys
  imports Members Url_Query
begin

text \<open>
  API keys: \<open>lib/api-keys/\<close> (secret recipe, payload parser, listing, CLI hand-off), the routes
  \<open>app/api/keys\<close> (list, mint, revoke, rotate) and \<open>lib/playground/serving-key.ts\<close>. The SHA-256
  digest is the argument \<open>sha\<close>; the 20 random bytes are the 40 hex digits \<open>random_hex\<close> of the
  request.
\<close>

section \<open>Secrets\<close>

definition API_KEY_SECRET_PREFIX :: string where
  "API_KEY_SECRET_PREFIX = ''xpl_''"

definition KEY_PREFIX_LENGTH :: nat where
  "KEY_PREFIX_LENGTH = 12"

definition KEY_SUFFIX_LENGTH :: nat where
  "KEY_SUFFIX_LENGTH = 4"

record minted_key =
  mk_secret :: string
  mk_prefix :: string
  mk_suffix :: string
  mk_hash :: string

definition mintKeySecret :: "(string \<Rightarrow> string) \<Rightarrow> string \<Rightarrow> string \<Rightarrow> nat \<Rightarrow> minted_key" where
  "mintKeySecret sha hex prefix prefixLength =
     (let secret = prefix @ hex in
      \<lparr>mk_secret = secret, mk_prefix = take prefixLength secret,
       mk_suffix = drop (length secret - KEY_SUFFIX_LENGTH) secret, mk_hash = sha secret\<rparr>)"

definition mintApiKeySecret :: "(string \<Rightarrow> string) \<Rightarrow> env \<Rightarrow> minted_key" where
  "mintApiKeySecret sha e = mintKeySecret sha (random_hex e) API_KEY_SECRET_PREFIX KEY_PREFIX_LENGTH"

definition formatKeyIdentity :: "string \<Rightarrow> string option \<Rightarrow> string" where
  "formatKeyIdentity prefix suffix =
     (case suffix of None \<Rightarrow> prefix @ ellipsis | Some sx \<Rightarrow> prefix @ ellipsis @ sx)"

section \<open>Payloads\<close>

definition API_KEY_EXPIRY_DAYS :: "int list" where
  "API_KEY_EXPIRY_DAYS = [30, 60, 90]"

record create_key_payload =
  pl_org :: string
  pl_name :: string
  pl_expires_in_days :: "int option"
  pl_identity :: "string option"

definition nullish :: "json option \<Rightarrow> json" where
  "nullish v = (case v of None \<Rightarrow> JNull | Some x \<Rightarrow> x)"

fun expiry_days :: "json \<Rightarrow> int option option" where
  "expiry_days JNull = Some None"
| "expiry_days (JNum x) = map_option Some (List.find (\<lambda>d. js_eq x (js_int d)) API_KEY_EXPIRY_DAYS)"
| "expiry_days _ = None"

fun identity_param :: "json \<Rightarrow> string option option" where
  "identity_param JNull = Some None"
| "identity_param (JStr x) = (if trim x = [] then None else Some (Some (trim x)))"
| "identity_param _ = None"

definition parseCreateApiKeyPayload :: "json \<Rightarrow> string + create_key_payload" where
  "parseCreateApiKeyPayload v =
     (if \<not> is_jobject v then Inl ''API key request must be an object.''
      else (case jstr (jget ''orgId'' v) of
              None \<Rightarrow> Inl ''API key request must include an orgId.''
            | Some oid \<Rightarrow>
                if trim oid = [] then Inl ''API key request must include an orgId.''
                else (case jstr (jget ''name'' v) of
                        None \<Rightarrow> Inl ''API key name must be 1-80 characters.''
                      | Some name \<Rightarrow>
                          if trim name = [] \<or> length (trim name) > 80 then Inl ''API key name must be 1-80 characters.''
                          else (case expiry_days (nullish (jget ''expiresInDays'' v)) of
                                  None \<Rightarrow> Inl ''API key expiry must be one of 30, 60, 90 days.''
                                | Some days \<Rightarrow>
                                    (case identity_param (nullish (jget ''identityId'' v)) of
                                       None \<Rightarrow> Inl ''API key identityId must be a non-empty string when provided.''
                                     | Some ident \<Rightarrow>
                                         Inr \<lparr>pl_org = trim oid, pl_name = trim name, pl_expires_in_days = days,
                                              pl_identity = ident\<rparr>)))))"

definition expiryTimestamp :: "int \<Rightarrow> int option \<Rightarrow> int option" where
  "expiryTimestamp now days = map_option (\<lambda>d. now + d * 24 * 60 * 60 * 1000) days"

section \<open>The CLI hand-off\<close>

definition MIN_PORT :: int where "MIN_PORT = 1024"
definition MAX_PORT :: int where "MAX_PORT = 65535"
definition MAX_STATE_LENGTH :: nat where "MAX_STATE_LENGTH = 128"

definition parseLoopbackPort :: "string option \<Rightarrow> int option" where
  "parseLoopbackPort raw =
     (case raw of
        None \<Rightarrow> None
      | Some s \<Rightarrow>
          if s = [] \<or> length s > 5 \<or> \<not> list_all is_digit s then None
          else (let port = num_value s in if MIN_PORT \<le> port \<and> port \<le> MAX_PORT then Some port else None))"

definition is_urlsafe :: "char \<Rightarrow> bool" where
  "is_urlsafe c \<longleftrightarrow> is_alpha c \<or> is_digit c \<or> c = CHR ''_'' \<or> c = CHR ''-''"

definition parseState :: "string option \<Rightarrow> string option" where
  "parseState raw =
     (case raw of
        None \<Rightarrow> None
      | Some s \<Rightarrow>
          (let state = trim s in
           if state = [] \<or> length state > MAX_STATE_LENGTH then None
           else if list_all is_urlsafe state then Some state else None))"

definition buildLoopbackCallbackUrl :: "int \<Rightarrow> string \<Rightarrow> string \<Rightarrow> string" where
  "buildLoopbackCallbackUrl port token state =
     ''http://127.0.0.1'' @ (if port = 80 then [] else '':'' @ dec_string port) @ ''/callback?token=''
       @ form_encode token @ ''&state='' @ form_encode state"

definition suggestedKeyName :: "string option \<Rightarrow> string" where
  "suggestedKeyName raw =
     (let trimmed = take 80 (trim (case raw of None \<Rightarrow> [] | Some s \<Rightarrow> s)) in
      if trimmed \<noteq> [] then trimmed else ''wmo CLI'')"

section \<open>Listing\<close>

definition API_KEYS_PAGE_SIZE :: int where
  "API_KEYS_PAGE_SIZE = 10"

record keys_page =
  kp_keys :: "key_row list"
  kp_page :: int
  kp_page_count :: int
  kp_total :: int

definition key_scope :: "string \<Rightarrow> string option \<Rightarrow> bool \<Rightarrow> key_row \<Rightarrow> bool" where
  "key_scope oid ident showRevoked k \<longleftrightarrow>
     k_org k = oid \<and> (ident = None \<or> k_identity k = ident) \<and> (showRevoked \<or> k_revoked_at k = None)"

definition newest_first :: "key_row list \<Rightarrow> key_row list" where
  "newest_first ks = rev (sort_key k_created_at (rev ks))"

definition page_count :: "int \<Rightarrow> int" where
  "page_count n = max 1 (\<lceil>(of_int n :: rat) / of_int API_KEYS_PAGE_SIZE\<rceil>)"

definition clamp_page :: "jsnum \<Rightarrow> int \<Rightarrow> int" where
  "clamp_page p pageCount =
     (case p of
        Nan \<Rightarrow> min (max 1 1) pageCount
      | Infty neg \<Rightarrow> if neg then min 1 pageCount else pageCount
      | Fin neg m \<Rightarrow> min (max \<lfloor>jsval (Fin neg m)\<rfloor> 1) pageCount)"

definition page_slice :: "int \<Rightarrow> 'a list \<Rightarrow> 'a list" where
  "page_slice page xs =
     take (nat API_KEYS_PAGE_SIZE) (drop (nat ((page - 1) * API_KEYS_PAGE_SIZE)) xs)"

definition listOrgApiKeys :: "env \<Rightarrow> string \<Rightarrow> jsnum \<Rightarrow> bool \<Rightarrow> string option \<Rightarrow> keys_page act" where
  "listOrgApiKeys e oid page showRevoked ident =
     bind (query (faults e ''api_keys.count'') (\<lambda>s. int (length (filter (key_scope oid ident showRevoked) (api_keys s))))) (\<lambda>c.
     bind (orThrow ''Unable to count API keys: '' c) (\<lambda>total.
     (let pageCount = page_count total; pg = clamp_page page pageCount in
      bind (query (faults e ''api_keys.page'')
              (\<lambda>s. page_slice pg (newest_first (filter (key_scope oid ident showRevoked) (api_keys s))))) (\<lambda>r.
      bind (orThrow ''Unable to list API keys: '' r) (\<lambda>rows.
      ret \<lparr>kp_keys = rows, kp_page = pg, kp_page_count = pageCount, kp_total = total\<rparr>)))))"

definition listOrgApiKeySummaries :: "env \<Rightarrow> string \<Rightarrow> (string \<times> string \<times> string \<times> string option) list act" where
  "listOrgApiKeySummaries e oid =
     bind (query (faults e ''api_keys.summaries'')
             (\<lambda>s. map (\<lambda>k. (k_id k, k_name k, k_prefix k, k_suffix k))
                    (newest_first (filter (key_scope oid None False) (api_keys s))))) (\<lambda>r.
     orThrow ''Unable to list API keys: '' r)"

section \<open>Statements\<close>

definition insert_key :: "key_row \<Rightarrow> db \<Rightarrow> dberror + (key_row \<times> db)" where
  "insert_key row s =
     (if list_ex (\<lambda>k. k_id k = k_id row \<or> k_hash k = k_hash row) (api_keys s) then Inl unique_violation
      else if (case k_identity row of None \<Rightarrow> False
               | Some i \<Rightarrow> \<not> list_ex (\<lambda>g. g_identity g = i) (identities s)) then Inl foreign_key_violation
      else Inr (row, s\<lparr>api_keys := api_keys s @ [row]\<rparr>))"

definition update_key :: "string \<Rightarrow> (key_row \<Rightarrow> key_row) \<Rightarrow> db \<Rightarrow> dberror + (unit \<times> db)" where
  "update_key kid f s = Inr ((), s\<lparr>api_keys := update_where (\<lambda>k. k_id k = kid) f (api_keys s)\<rparr>)"

definition new_key :: "env \<Rightarrow> minted_key \<Rightarrow> string \<Rightarrow> string \<Rightarrow> string \<Rightarrow> string option \<Rightarrow> int option \<Rightarrow> key_row" where
  "new_key e minted oid name creator ident expires =
     \<lparr>k_id = fresh_id e, k_org = oid, k_name = name, k_prefix = mk_prefix minted, k_suffix = Some (mk_suffix minted),
      k_hash = mk_hash minted, k_created_by = creator, k_identity = ident, k_created_at = now_ms e,
      k_last_used_at = None, k_expires_at = expires, k_revoked_at = None, k_revoked_by = None\<rparr>"

definition jtime :: "int option \<Rightarrow> json" where
  "jtime t = jopt (\<lambda>x. JNum (js_int x)) t"

definition key_json :: "key_row \<Rightarrow> json" where
  "key_json k = JObj [(''id'', JStr (k_id k)), (''org_id'', JStr (k_org k)), (''name'', JStr (k_name k)),
     (''key_prefix'', JStr (k_prefix k)), (''key_suffix'', jopt JStr (k_suffix k)),
     (''created_at'', JNum (js_int (k_created_at k))), (''last_used_at'', jtime (k_last_used_at k)),
     (''revoked_at'', jtime (k_revoked_at k)), (''expires_at'', jtime (k_expires_at k)),
     (''identity_id'', jopt JStr (k_identity k))]"

section \<open>Identities\<close>

definition ORG_IDENTITY_PREFIX :: string where
  "ORG_IDENTITY_PREFIX = ''org-''"

definition DEFAULT_IDENTITY_DISPLAY_NAME :: string where
  "DEFAULT_IDENTITY_DISPLAY_NAME = ''Default''"

definition upsert_identity :: "identity_row \<Rightarrow> db \<Rightarrow> dberror + (unit \<times> db)" where
  "upsert_identity row s =
     Inr ((), if list_ex (\<lambda>g. g_identity g = g_identity row) (identities s) then s
              else s\<lparr>identities := identities s @ [row]\<rparr>)"

definition ensureOrgDefaultIdentity :: "env \<Rightarrow> string \<Rightarrow> string act" where
  "ensureOrgDefaultIdentity e oid =
     (let identityId = ORG_IDENTITY_PREFIX @ oid in
      bind (call (faults e ''gateway_identities.upsert'')
              (upsert_identity \<lparr>g_identity = identityId, g_org = oid,
                 g_display_name = DEFAULT_IDENTITY_DISPLAY_NAME, g_active = True\<rparr>)) (\<lambda>r.
      bind (orThrow ''Could not provision the org's default gateway identity: '' r) (\<lambda>_.
      ret identityId)))"

definition resolveMintIdentity :: "env \<Rightarrow> string \<Rightarrow> string option \<Rightarrow> (string \<times> int + string) act" where
  "resolveMintIdentity e oid requested =
     (case requested of
        Some ident \<Rightarrow>
          bind (query (faults e ''gateway_identities.read'')
                  (\<lambda>s. first_where (\<lambda>g. g_org g = oid \<and> g_identity g = ident) (identities s))) (\<lambda>r.
          ret (case r of
                 Inl err \<Rightarrow> Inl (message err, 500)
               | Inr None \<Rightarrow> Inl (''Identity not found.'', 404)
               | Inr (Some g) \<Rightarrow>
                   if \<not> g_active g then Inl (''Cannot issue a key under a disabled identity.'', 409) else Inr ident))
      | None \<Rightarrow>
          catching (bind (ensureOrgDefaultIdentity e oid) (\<lambda>i. ret (Inr i)))
            (\<lambda>err. ret (Inl (case err of PlainError m \<Rightarrow> m | _ \<Rightarrow> ''Error'', 500))))"

section \<open>Routes\<close>

definition org_visible :: "env \<Rightarrow> auth_user \<Rightarrow> string \<Rightarrow> bool \<Rightarrow> (resp + unit) act" where
  "org_visible e user oid platformAdmin =
     (if platformAdmin then
        bind (query (faults e ''organizations.id'') (\<lambda>s. first_where (\<lambda>org. o_id org = oid) (organizations s))) (\<lambda>r.
        ret (case r of
               Inl err \<Rightarrow> Inl (error_resp (message err) 500)
             | Inr None \<Rightarrow> Inl (error_resp ''Organization not found.'' 404)
             | Inr (Some _) \<Rightarrow> Inr ()))
      else
        bind (query (faults e ''organization_members.own'')
                (\<lambda>s. first_where (\<lambda>m. m_org m = oid \<and> m_user m = usr_id user) (members s))) (\<lambda>r.
        ret (case r of
               Inl err \<Rightarrow> Inl (error_resp (message err) 500)
             | Inr None \<Rightarrow> Inl (error_resp ''Organization not found.'' 404)
             | Inr (Some _) \<Rightarrow> Inr ())))"

definition keys_page_json :: "keys_page \<Rightarrow> json" where
  "keys_page_json p = JObj [(''keys'', JArr (map key_json (kp_keys p))), (''page'', JNum (js_int (kp_page p))),
     (''pageCount'', JNum (js_int (kp_page_count p))), (''total'', JNum (js_int (kp_total p)))]"

definition keys_GET :: "env \<Rightarrow> string option \<Rightarrow> string option \<Rightarrow> string option \<Rightarrow> string option \<Rightarrow> resp act" where
  "keys_GET e orgParam pageParam revokedParam identityParam = handler (
     bind (requireAuthenticatedUser e) (\<lambda>user.
     case orgParam of
       None \<Rightarrow> ret (error_resp ''orgId is required.'' 400)
     | Some oid \<Rightarrow>
         if oid = [] then ret (error_resp ''orgId is required.'' 400)
         else bind (isPlatformAdmin e) (\<lambda>platformAdmin.
              bind (org_visible e user oid platformAdmin) (\<lambda>v.
              case v of
                Inl r \<Rightarrow> ret r
              | Inr _ \<Rightarrow>
                  bind (listOrgApiKeys e oid (parseInt10 (case pageParam of None \<Rightarrow> ''1'' | Some p \<Rightarrow> p))
                          (revokedParam = Some ''1'') (if identityParam = Some [] then None else identityParam)) (\<lambda>result.
                  ret (jsonOk (keys_page_json result)))))))"

definition not_key_admin :: resp where
  "not_key_admin = error_resp ''Only organization admins can manage API keys.'' 403"

definition store_minted :: "env \<Rightarrow> auth_user \<Rightarrow> bool \<Rightarrow> create_key_payload \<Rightarrow> minted_key \<Rightarrow> string \<Rightarrow> resp act" where
  "store_minted e user platformAdmin payload minted identityId =
     bind (call (faults e ''api_keys.insert'')
             (insert_key (new_key e minted (pl_org payload) (pl_name payload) (usr_id user)
                (Some identityId) (expiryTimestamp (now_ms e) (pl_expires_in_days payload))))) (\<lambda>r.
     case r of
       Inl err \<Rightarrow> ret (error_resp (message err) 500)
     | Inr apiKey \<Rightarrow>
         bind (recordAuditEvent e \<lparr>ev_org = Some (pl_org payload), ev_actor_kind = actor_kind platformAdmin,
                 ev_actor_id = Some (usr_id user), ev_action = ''keys.mint'', ev_object_type = ''api_key'',
                 ev_object_id = k_id apiKey, ev_before = None,
                 ev_after = Some (JObj [(''name'', JStr (k_name apiKey)), (''key_prefix'', JStr (k_prefix apiKey)),
                   (''identity_id'', jopt JStr (k_identity apiKey)), (''expires_at'', jtime (k_expires_at apiKey))]), ev_context = None\<rparr>) (\<lambda>_.
         ret (jsonOk (JObj [(''apiKey'', key_json apiKey), (''secret'', JStr (mk_secret minted))]))))"

definition mint_key :: "env \<Rightarrow> (string \<Rightarrow> string) \<Rightarrow> auth_user \<Rightarrow> bool \<Rightarrow> create_key_payload \<Rightarrow> resp act" where
  "mint_key e sha user platformAdmin payload =
     bind (query (faults e ''organizations.banned_at'')
             (\<lambda>s. first_where (\<lambda>org. o_id org = pl_org payload) (organizations s))) (\<lambda>banRow.
     case banRow of
       Inl err \<Rightarrow> ret (error_resp (message err) 500)
     | Inr row \<Rightarrow>
         if Option.bind row o_banned_at \<noteq> None
         then ret (error_resp ''This organization is banned. New API keys cannot be created.'' 403)
         else
           bind (resolveMintIdentity e (pl_org payload) (pl_identity payload)) (\<lambda>resolution.
           case resolution of
             Inl (msg, st) \<Rightarrow> ret (error_resp msg st)
           | Inr identityId \<Rightarrow> store_minted e user platformAdmin payload (mintApiKeySecret sha e) identityId))"

definition keys_POST :: "env \<Rightarrow> (string \<Rightarrow> string) \<Rightarrow> string + json \<Rightarrow> resp act" where
  "keys_POST e sha request = handler (
     bind (requireAuthenticatedUser e) (\<lambda>user.
     case (case request of Inl err \<Rightarrow> Inl err | Inr v \<Rightarrow> parseCreateApiKeyPayload v) of
       Inl msg \<Rightarrow> throw (PlainError msg)
     | Inr payload \<Rightarrow>
         bind (isPlatformAdmin e) (\<lambda>platformAdmin.
         bind (org_visible e user (pl_org payload) platformAdmin) (\<lambda>v.
         case v of
           Inl r \<Rightarrow> ret r
         | Inr _ \<Rightarrow>
             bind (if platformAdmin then ret True else isOrgAdmin e (pl_org payload)) (\<lambda>ok.
             if \<not> ok then ret not_key_admin else mint_key e sha user platformAdmin payload)))))"

definition key_visible :: "db \<Rightarrow> string \<Rightarrow> bool \<Rightarrow> key_row \<Rightarrow> bool" where
  "key_visible s uid platformAdmin k \<longleftrightarrow>
     platformAdmin \<or> list_ex (\<lambda>m. m_user m = uid \<and> m_org m = k_org k) (members s)"

definition read_key :: "string \<Rightarrow> bool \<Rightarrow> string \<Rightarrow> db \<Rightarrow> key_row option" where
  "read_key uid platformAdmin kid s =
     first_where (\<lambda>k. k_id k = kid \<and> key_visible s uid platformAdmin k) (api_keys s)"

definition manage_key :: "env \<Rightarrow> string \<Rightarrow> resp \<Rightarrow> (auth_user \<Rightarrow> bool \<Rightarrow> key_row \<Rightarrow> resp act) \<Rightarrow> resp act" where
  "manage_key e kid revoked_resp act =
     bind (requireAuthenticatedUser e) (\<lambda>user.
     bind (isPlatformAdmin e) (\<lambda>platformAdmin.
     bind (query (faults e ''api_keys.read'') (read_key (usr_id user) platformAdmin kid)) (\<lambda>r.
     case r of
       Inl err \<Rightarrow> ret (error_resp (message err) 500)
     | Inr None \<Rightarrow> ret (error_resp (''API key not found: '' @ kid) 404)
     | Inr (Some k) \<Rightarrow>
         bind (if platformAdmin then ret True else isOrgAdmin e (k_org k)) (\<lambda>ok.
         if \<not> ok then ret not_key_admin
         else if k_revoked_at k \<noteq> None then ret revoked_resp
         else act user platformAdmin k))))"

definition revoke_key :: "env \<Rightarrow> string \<Rightarrow> auth_user \<Rightarrow> bool \<Rightarrow> key_row \<Rightarrow> resp act" where
  "revoke_key e kid user platformAdmin apiKey =
     bind (call (faults e ''api_keys.revoke'')
             (update_key kid (\<lambda>k. k\<lparr>k_revoked_at := Some (now_ms e), k_revoked_by := Some (usr_id user)\<rparr>))) (\<lambda>r.
     case r of
       Inl err \<Rightarrow> ret (error_resp (message err) 500)
     | Inr _ \<Rightarrow>
         bind (recordAuditEvent e \<lparr>ev_org = Some (k_org apiKey), ev_actor_kind = actor_kind platformAdmin,
                 ev_actor_id = Some (usr_id user), ev_action = ''keys.revoke'', ev_object_type = ''api_key'',
                 ev_object_id = kid, ev_before = None, ev_after = Some (JObj [(''revoked_at'', jtime (Some (now_ms e)))]), ev_context = None\<rparr>) (\<lambda>_.
         ret (empty_resp 204)))"

definition key_DELETE :: "env \<Rightarrow> string \<Rightarrow> resp act" where
  "key_DELETE e kid = handler (manage_key e kid (error_resp ''API key is already revoked.'' 409) (revoke_key e kid))"

section \<open>Rotation\<close>

definition DEFAULT_OVERLAP_HOURS :: jsnum where "DEFAULT_OVERLAP_HOURS = js_int 24"
definition MIN_OVERLAP_HOURS :: jsnum where "MIN_OVERLAP_HOURS = js_int 1"
definition MAX_OVERLAP_HOURS :: jsnum where "MAX_OVERLAP_HOURS = js_int 72"

definition parseOverlapHours :: "string + json \<Rightarrow> jsnum option" where
  "parseOverlapHours request =
     (case (case request of Inl _ \<Rightarrow> JNull | Inr v \<Rightarrow> nullish (jget ''overlapHours'' v)) of
        JNull \<Rightarrow> Some DEFAULT_OVERLAP_HOURS
      | JNum x \<Rightarrow> if js_is_finite x then Some (js_min MAX_OVERLAP_HOURS (js_max MIN_OVERLAP_HOURS x)) else None
      | _ \<Rightarrow> None)"

definition date_ms :: "jsnum \<Rightarrow> int" where
  "date_ms x = \<lfloor>jsval x\<rfloor>"

definition overlap_end :: "int \<Rightarrow> jsnum \<Rightarrow> int" where
  "overlap_end now overlapHours =
     date_ms (js_add (js_int now) (js_mult (js_mult (js_mult overlapHours (js_int 60)) (js_int 60)) (js_int 1000)))"

definition rotated_key_json :: "key_row \<Rightarrow> json" where
  "rotated_key_json k = JObj [(''id'', JStr (k_id k)), (''org_id'', JStr (k_org k)), (''name'', JStr (k_name k)),
     (''key_prefix'', JStr (k_prefix k)), (''created_at'', JNum (js_int (k_created_at k))),
     (''last_used_at'', jtime (k_last_used_at k)), (''revoked_at'', jtime (k_revoked_at k)),
     (''expires_at'', jtime (k_expires_at k)), (''identity_id'', jopt JStr (k_identity k))]"

definition finish_rotation :: "env \<Rightarrow> string \<Rightarrow> int \<Rightarrow> auth_user \<Rightarrow> bool \<Rightarrow> key_row \<Rightarrow> minted_key \<Rightarrow> key_row \<Rightarrow> resp act" where
  "finish_rotation e kid oldKeyExpiresAt user platformAdmin oldKey minted apiKey =
     bind (call (faults e ''api_keys.expire'') (update_key kid (\<lambda>k. k\<lparr>k_expires_at := Some oldKeyExpiresAt\<rparr>))) (\<lambda>exp.
     case exp of
       Inl err \<Rightarrow>
         bind (call (faults e ''api_keys.compensate'')
                 (update_key (k_id apiKey) (\<lambda>k. k\<lparr>k_revoked_at := Some (now_ms e), k_revoked_by := Some (usr_id user)\<rparr>))) (\<lambda>_.
         ret (error_resp (message err) 500))
     | Inr _ \<Rightarrow>
         bind (recordAuditEvent e \<lparr>ev_org = Some (k_org oldKey), ev_actor_kind = actor_kind platformAdmin,
                 ev_actor_id = Some (usr_id user), ev_action = ''keys.rotate'', ev_object_type = ''api_key'',
                 ev_object_id = kid, ev_before = None,
                 ev_after = Some (JObj [(''replacementKeyId'', JStr (k_id apiKey)),
                   (''oldKeyExpiresAt'', jtime (Some oldKeyExpiresAt))]), ev_context = None\<rparr>) (\<lambda>_.
         ret (jsonOk (JObj [(''apiKey'', rotated_key_json apiKey), (''secret'', JStr (mk_secret minted)),
           (''oldKeyExpiresAt'', jtime (Some oldKeyExpiresAt))]))))"

definition rotate_key :: "env \<Rightarrow> (string \<Rightarrow> string) \<Rightarrow> string \<Rightarrow> jsnum \<Rightarrow> auth_user \<Rightarrow> bool \<Rightarrow> key_row \<Rightarrow> resp act" where
  "rotate_key e sha kid overlapHours user platformAdmin oldKey =
     (let minted = mintApiKeySecret sha e in
      bind (call (faults e ''api_keys.insert'')
              (insert_key (new_key e minted (k_org oldKey) (k_name oldKey) (usr_id user) (k_identity oldKey) None))) (\<lambda>ins.
      case ins of
        Inl err \<Rightarrow> ret (error_resp (message err) 500)
      | Inr apiKey \<Rightarrow>
          finish_rotation e kid (overlap_end (now_ms e) overlapHours) user platformAdmin oldKey minted apiKey))"

definition key_rotate_POST :: "env \<Rightarrow> (string \<Rightarrow> string) \<Rightarrow> string \<Rightarrow> string + json \<Rightarrow> resp act" where
  "key_rotate_POST e sha kid request = handler (
     bind (requireAuthenticatedUser e) (\<lambda>_.
     case parseOverlapHours request of
       None \<Rightarrow> ret (error_resp ''overlapHours must be a number.'' 400)
     | Some overlapHours \<Rightarrow>
         manage_key e kid (error_resp ''API key is already revoked; mint a new key instead of rotating.'' 409)
           (rotate_key e sha kid overlapHours)))"

section \<open>The playground's own key\<close>

definition PLAYGROUND_KEY_NAME :: string where
  "PLAYGROUND_KEY_NAME = ''Playground session''"

definition mintPlaygroundServingKey :: "env \<Rightarrow> (string \<Rightarrow> string) \<Rightarrow> string \<Rightarrow> string \<Rightarrow> (string \<times> string) act" where
  "mintPlaygroundServingKey e sha oid uid =
     bind (query (faults e ''organizations.banned_at'') (\<lambda>s. first_where (\<lambda>org. o_id org = oid) (organizations s))) (\<lambda>banRow.
     bind (orThrow ''Could not check the organization's ban state: '' banRow) (\<lambda>row.
     if Option.bind row o_banned_at \<noteq> None
     then throw (PlainError ''This organization is banned. The playground cannot serve it.'')
     else
       bind (ensureOrgDefaultIdentity e oid) (\<lambda>identityId.
       (let minted = mintApiKeySecret sha e in
        bind (call (faults e ''api_keys.insert'')
                (insert_key (new_key e minted oid PLAYGROUND_KEY_NAME uid (Some identityId) None))) (\<lambda>r.
        bind (orThrow ''Could not provision a playground serving key: '' r) (\<lambda>k.
        ret (mk_secret minted, k_id k)))))))"

definition revokePlaygroundKey :: "env \<Rightarrow> string \<Rightarrow> bool \<Rightarrow> bool act" where
  "revokePlaygroundKey e kid revoked =
     (if revoked then ret True
      else bind (call (faults e ''api_keys.revoke'') (update_key kid (\<lambda>k. k\<lparr>k_revoked_at := Some (now_ms e)\<rparr>))) (\<lambda>_.
           ret True))"

section \<open>Which keys authenticate\<close>

definition key_live :: "int \<Rightarrow> key_row \<Rightarrow> bool" where
  "key_live t k \<longleftrightarrow> k_revoked_at k = None \<and> (case k_expires_at k of None \<Rightarrow> True | Some x \<Rightarrow> t < x)"

definition live_ids :: "int \<Rightarrow> db \<Rightarrow> string set" where
  "live_ids t s = k_id ` {k \<in> set (api_keys s). key_live t k}"

definition keys_wf :: "db \<Rightarrow> bool" where
  "keys_wf s \<longleftrightarrow> distinct (map k_id (api_keys s)) \<and> distinct (map k_hash (api_keys s))"

interpretation keys: table_invariant keys_wf
  by unfold_locales (simp_all add: keys_wf_def)

lemma insert_key_wf: "keys_wf s \<Longrightarrow> insert_key row s = Inr (a, t) \<Longrightarrow> keys_wf t"
  by (force simp: insert_key_def keys_wf_def list_ex_iff split: if_splits)

lemma update_key_wf:
  "keys_wf s \<Longrightarrow> (\<And>k. k_id (f k) = k_id k \<and> k_hash (f k) = k_hash k) \<Longrightarrow> update_key kid f s = Inr (a, t) \<Longrightarrow> keys_wf t"
  by (auto simp: update_key_def keys_wf_def map_update_where_key)

lemma insert_key_SomeD: "insert_key row s = Inr (a, t) \<Longrightarrow> a = row \<and> api_keys t = api_keys s @ [row] \<and> k_id row \<notin> k_id ` set (api_keys s)"
  by (auto simp: insert_key_def list_ex_iff split: if_splits)

lemma live_ids_insert:
  "insert_key row s = Inr (a, t) \<Longrightarrow> live_ids x t = live_ids x s \<union> (if key_live x row then {k_id row} else {})"
  by (auto simp: live_ids_def dest!: insert_key_SomeD)

lemma in_live_ids: "y \<in> live_ids x s \<longleftrightarrow> (\<exists>k\<in>set (api_keys s). k_id k = y \<and> key_live x k)"
  by (auto simp: live_ids_def)

lemma live_ids_update:
  assumes "update_key kid f s = Inr (a, t)" and "\<And>k. k_id (f k) = k_id k"
  shows "y \<in> live_ids x t \<longleftrightarrow> (\<exists>k\<in>set (api_keys s). k_id k = y \<and> key_live x (if y = kid then f k else k))"
proof -
  have st: "set (api_keys t) = (\<lambda>k. if k_id k = kid then f k else k) ` set (api_keys s)"
    using assms(1) by (auto simp: update_key_def set_update_where)
  have "y \<in> live_ids x t \<longleftrightarrow> (\<exists>k\<in>set (api_keys s). k_id (if k_id k = kid then f k else k) = y
      \<and> key_live x (if k_id k = kid then f k else k))"
    unfolding in_live_ids st by (rule bex_simps(7))
  also have "\<dots> \<longleftrightarrow> (\<exists>k\<in>set (api_keys s). k_id k = y \<and> key_live x (if y = kid then f k else k))"
    by (rule bex_cong [OF refl]) (auto simp: assms(2))
  finally show ?thesis .
qed

lemma live_ids_update_revoked:
  assumes "update_key kid (\<lambda>k. k\<lparr>k_revoked_at := Some n, k_revoked_by := w\<rparr>) s = Inr (a, t)"
  shows "live_ids x t = live_ids x s - {kid}"
proof (rule set_eqI)
  fix y
  show "y \<in> live_ids x t \<longleftrightarrow> y \<in> live_ids x s - {kid}"
    using live_ids_update [OF assms, of y x] by (cases "y = kid") (auto simp: in_live_ids key_live_def)
qed

lemma live_ids_update_other:
  assumes "update_key kid f s = Inr (a, t)" and "\<And>k. k_id (f k) = k_id k"
  shows "live_ids x t - {kid} = live_ids x s - {kid}"
  using live_ids_update [OF assms] by (auto simp: in_live_ids)

section \<open>When a secret is disclosed\<close>

definition discloses :: "resp \<Rightarrow> string \<Rightarrow> bool" where
  "discloses r sec \<longleftrightarrow> (case body r of None \<Rightarrow> False | Some j \<Rightarrow> jget ''secret'' j = Some (JStr sec))"

lemma jsonError_silent [simp]: "\<not> discloses (jsonError err) sec"
  by (cases err) (auto simp: discloses_def error_resp_def map_of_Cons_code split: option.split)

lemma error_resp_silent [simp]: "\<not> discloses (error_resp m st) sec"
  by (simp add: discloses_def error_resp_def)

lemma empty_resp_silent [simp]: "\<not> discloses (empty_resp st) sec"
  by (simp add: discloses_def)

lemma discloses_jsonOk [simp]: "discloses (jsonOk (JObj kvs)) sec \<longleftrightarrow> map_of kvs ''secret'' = Some (JStr sec)"
  by (simp add: discloses_def jsonOk_def)

lemma mint_sel [simp]:
  "mk_secret (mintApiKeySecret sha e) = API_KEY_SECRET_PREFIX @ random_hex e"
  "mk_hash (mintApiKeySecret sha e) = sha (API_KEY_SECRET_PREFIX @ random_hex e)"
  "k_id (new_key e minted oid name creator ident expires) = fresh_id e"
  by (simp_all add: mintApiKeySecret_def mintKeySecret_def Let_def new_key_def)

lemma not_key_admin_silent [simp]: "\<not> discloses not_key_admin sec"
  by (simp add: not_key_admin_def)

lemma discloses_response:
  assumes "discloses (response m s) sec"
  obtains r where "m s = (Inr r, snd (m s))" and "discloses r sec"
  using assms by (cases "m s") (auto simp: response_def split: sum.splits)

lemma discloses_handler:
  assumes "discloses (response (handler m) s) sec"
  obtains r where "m s = (Inr r, snd (handler m s))" and "discloses r sec"
  using assms by (auto elim: discloses_response)

lemma isOrgAdmin_state: "isOrgAdmin e oid s = (r, t) \<Longrightarrow> same_tables s t"
  using isOrgAdmin_same_tables [of s e oid] by simp

lemma manage_key_InrE:
  assumes "manage_key e kid rr act s = (Inr r, t)" and "D r" and "\<not> D rr" and "\<And>m st. \<not> D (error_resp m st)"
  obtains user padm k u where "getAuthenticatedUser e = Some user" and "padm \<longleftrightarrow> is_admin_user s (usr_id user)"
    and "read_key (usr_id user) padm kid s = Some k" and "same_tables s u" and "k_revoked_at k = None"
    and "padm \<or> isOrgAdmin e (k_org k) s = (Inr True, u)" and "act user padm k u = (Inr r, t)"
proof -
  let ?rest = "\<lambda>padm k ok user. if \<not> ok then ret not_key_admin
    else if k_revoked_at k \<noteq> None then ret rr else act user padm k"
  from assms(1) obtain user padm found where u: "getAuthenticatedUser e = Some user"
    and adm: "padm \<longleftrightarrow> is_admin_user s (usr_id user)"
    and found: "found = read_db (faults e ''api_keys.read'') (read_key (usr_id user) padm kid) s"
    and c: "(case found of Inl err \<Rightarrow> ret (error_resp (message err) 500)
       | Inr None \<Rightarrow> ret (error_resp (''API key not found: '' @ kid) 404)
       | Inr (Some k) \<Rightarrow> bind (if padm then ret True else isOrgAdmin e (k_org k)) (\<lambda>ok. ?rest padm k ok user)) s = (Inr r, t)"
    unfolding manage_key_def
    by (elim bind_InrE requireAuthenticatedUser_InrE isPlatformAdmin_InrE) auto
  from c assms(2,4) obtain k where f: "found = Inr (Some k)"
    and b: "bind (if padm then ret True else isOrgAdmin e (k_org k)) (\<lambda>ok. ?rest padm k ok user) s = (Inr r, t)"
    by (cases found) (auto split: option.splits)
  have k: "read_key (usr_id user) padm kid s = Some k" using f found by (auto dest: read_db_InrD)
  from b obtain ok w where ok: "(if padm then ret True else isOrgAdmin e (k_org k)) s = (Inr ok, w)"
    and r: "?rest padm k ok user w = (Inr r, t)" by (rule bind_InrE)
  have "ok" "k_revoked_at k = None" "act user padm k w = (Inr r, t)"
    using r assms(2-4) by (auto simp: not_key_admin_def split: if_splits)
  moreover have "same_tables s w" "padm \<or> isOrgAdmin e (k_org k) s = (Inr True, w)"
    using ok \<open>ok\<close> by (auto split: if_splits intro: isOrgAdmin_state)
  ultimately show thesis using that u adm k by blast
qed

lemma bind_recordAuditEvent_InrE:
  assumes "bind (recordAuditEvent e evt) f s = (Inr r, t)"
  obtains u where "f () u = (Inr r, t)" and "u = s \<or> u = s\<lparr>audit_log := audit_log s @ [audit_row_of evt]\<rparr>"
  using assms recordAuditEvent_state [of e evt s] by (auto elim!: bind_InrE)

lemma js_clamp_bounds:
  assumes "js_is_finite x"
  shows "1 \<le> jsval (js_min MAX_OVERLAP_HOURS (js_max MIN_OVERLAP_HOURS x))
    \<and> jsval (js_min MAX_OVERLAP_HOURS (js_max MIN_OVERLAP_HOURS x)) \<le> 72"
  using assms
  by (cases x) (auto simp: js_min_def js_max_def MAX_OVERLAP_HOURS_def MIN_OVERLAP_HOURS_def js_int_def)

lemma parseOverlapHours_bounds:
  assumes "parseOverlapHours req = Some h"
  shows "1 \<le> jsval h \<and> jsval h \<le> 72"
  using assms js_clamp_bounds
  by (auto simp: parseOverlapHours_def DEFAULT_OVERLAP_HOURS_def js_int_def split: json.splits sum.splits if_splits)

lemma same_tables_keys: "same_tables s t \<Longrightarrow> api_keys t = api_keys s"
  using read_db_same_tables [of s t api_keys] by simp

lemma rotate_key_discloses:
  assumes "rotate_key e sha kid h user padm old s = (Inr r, t)" and "discloses r sec"
  shows "sec = API_KEY_SECRET_PREFIX @ random_hex e
    \<and> api_keys t = update_where (\<lambda>k. k_id k = kid) (\<lambda>k. k\<lparr>k_expires_at := Some (overlap_end (now_ms e) h)\<rparr>)
        (api_keys s @ [new_key e (mintApiKeySecret sha e) (k_org old) (k_name old) (usr_id user) (k_identity old) None])
    \<and> fresh_id e \<notin> k_id ` set (api_keys s)"
  using assms unfolding rotate_key_def finish_rotation_def Let_def
  by (auto elim!: bind_InrE bind_recordAuditEvent_InrE split: sum.splits dest!: call_InrD insert_key_SomeD
      simp: update_key_def)

section \<open>Rotation\<close>

lemma read_key_SomeD: "read_key uid padm kid s = Some k \<Longrightarrow> k \<in> set (api_keys s) \<and> k_id k = kid \<and> key_visible s uid padm k"
  by (auto simp: read_key_def dest!: first_where_SomeD)

lemma same_tables_keys_wf: "same_tables s t \<Longrightarrow> keys_wf t = keys_wf s"
  by (simp add: keys_wf_def same_tables_keys)

text \<open>
  C9. A rotation that discloses a secret did exactly its contract: the addressed key was unrevoked;
  its replacement, with the same organization, name and identity, no expiry and the hash of the
  disclosed secret, was appended; and the old key is the only other row touched: it stays
  unrevoked and stops authenticating after an overlap of between 1 and 72 hours.
\<close>

theorem rotation_contract:
  assumes "discloses (response (key_rotate_POST e sha kid request) s) sec"
    and "t = snd (key_rotate_POST e sha kid request s)"
  shows "\<exists>old creator h. old \<in> set (api_keys s) \<and> k_id old = kid \<and> k_revoked_at old = None
    \<and> parseOverlapHours request = Some h \<and> 1 \<le> jsval h \<and> jsval h \<le> 72
    \<and> api_keys t = update_where (\<lambda>k. k_id k = kid) (\<lambda>k. k\<lparr>k_expires_at := Some (overlap_end (now_ms e) h)\<rparr>)
        (api_keys s @ [new_key e (mintApiKeySecret sha e) (k_org old) (k_name old) creator (k_identity old) None])
    \<and> sec = API_KEY_SECRET_PREFIX @ random_hex e"
proof -
  obtain r where r: "bind (requireAuthenticatedUser e) (\<lambda>_.
     case parseOverlapHours request of
       None \<Rightarrow> ret (error_resp ''overlapHours must be a number.'' 400)
     | Some overlapHours \<Rightarrow>
         manage_key e kid (error_resp ''API key is already revoked; mint a new key instead of rotating.'' 409)
           (rotate_key e sha kid overlapHours)) s = (Inr r, t)" and d: "discloses r sec"
    using assms(1) unfolding assms(2) key_rotate_POST_def by (rule discloses_handler)
  then obtain h where h: "parseOverlapHours request = Some h"
    and m: "manage_key e kid (error_resp ''API key is already revoked; mint a new key instead of rotating.'' 409)
           (rotate_key e sha kid h) s = (Inr r, t)"
    by (auto elim!: bind_InrE requireAuthenticatedUser_InrE split: option.splits)
  obtain user padm k u where k: "read_key (usr_id user) padm kid s = Some k" "same_tables s u" "k_revoked_at k = None"
    and a: "rotate_key e sha kid h user padm k u = (Inr r, t)"
    using m d by (rule manage_key_InrE) simp_all
  have keys: "api_keys u = api_keys s" using k(2) by (rule same_tables_keys)
  show ?thesis
    using rotate_key_discloses [OF a d] read_key_SomeD [OF k(1)] k(3) parseOverlapHours_bounds [OF h] h
    unfolding keys by blast
qed

definition key_db :: db where
  "key_db = sample_db\<lparr>identities := [\<lparr>g_identity = ''org-o1'', g_org = ''o1'', g_display_name = ''Default'', g_active = True\<rparr>],
     api_keys := [\<lparr>k_id = ''k1'', k_org = ''o1'', k_name = ''ci'', k_prefix = ''xpl_aaaaaaaa'', k_suffix = Some ''ffff'',
       k_hash = ''h1'', k_created_by = ''u1'', k_identity = Some ''org-o1'', k_created_at = 10, k_last_used_at = None,
       k_expires_at = Some 500, k_revoked_at = None, k_revoked_by = None\<rparr>]\<rparr>"

definition no_body :: "string + json" where
  "no_body = Inl ''Unexpected end of JSON input''"

theorem rotation_contract_witness:
  "\<exists>old\<in>set (api_keys key_db). k_id old = ''k1'' \<and> k_revoked_at old = None"
proof -
  have "discloses (response (key_rotate_POST sample_env (\<lambda>x. ''sha'' @ x) ''k1'' no_body) key_db)
    (API_KEY_SECRET_PREFIX @ random_hex sample_env)" by code_simp
  from rotation_contract [OF this refl] show ?thesis by blast
qed

text \<open>
  A rotation brings an expired key back: the old key's expiry is overwritten with now plus the
  overlap without looking at the one it had, so a key that no longer authenticated does so again
  for the overlap window, and its replacement never expires although the original was minted
  with an expiry.
\<close>

theorem rotation_revives_expired_key:
  "''k1'' \<notin> live_ids (now_ms sample_env) key_db
   \<and> status (response (key_rotate_POST sample_env (\<lambda>x. ''sha'' @ x) ''k1'' no_body) key_db) = 200
   \<and> ''k1'' \<in> live_ids (now_ms sample_env + 3600000) (snd (key_rotate_POST sample_env (\<lambda>x. ''sha'' @ x) ''k1'' no_body key_db))"
  by (intro conjI) code_simp+

lemma finish_rotation_failed:
  assumes "finish_rotation e kid x user padm old minted k s = (Inr r, t)" and "\<And>sec. \<not> discloses r sec"
  shows "faults e ''api_keys.expire'' \<noteq> None"
    and "live_ids y t \<subseteq> live_ids y s \<union> {kid} - (if faults e ''api_keys.compensate'' = None then {k_id k} else {})"
proof -
  let ?upd = "update_key kid (\<lambda>k. k\<lparr>k_expires_at := Some x\<rparr>)"
  let ?rev = "update_key (k_id k) (\<lambda>k. k\<lparr>k_revoked_at := Some (now_ms e), k_revoked_by := Some (usr_id user)\<rparr>)"
  have "\<not> discloses r (mk_secret minted)" by (rule assms(2))
  with assms(1) obtain err s2 a where ex: "call (faults e ''api_keys.expire'') ?upd s = (Inr (Inl err), s2)"
    and c: "call (faults e ''api_keys.compensate'') ?rev s2 = (Inr a, t)"
    unfolding finish_rotation_def
    by (elim bind_InrE) (auto split: sum.splits elim!: bind_InrE bind_recordAuditEvent_InrE)
  show "faults e ''api_keys.expire'' \<noteq> None"
    using ex by (cases "faults e ''api_keys.expire''") (auto simp: call_apply exec_def update_key_def)
  have "s2 = s \<or> (\<exists>b. ?upd s = Inr (b, s2))"
    using exec_state_cases [of "faults e ''api_keys.expire''" ?upd s] ex by (auto simp: call_apply)
  then have s2: "live_ids y s2 \<subseteq> live_ids y s \<union> {kid}"
    using live_ids_update_other [where s = s and t = s2 and kid = kid and x = y] by fastforce
  have "t = s2 \<or> (\<exists>b. ?rev s2 = Inr (b, t))"
    using exec_state_cases [of "faults e ''api_keys.compensate''" ?rev s2] c by (auto simp: call_apply)
  then have "live_ids y t \<subseteq> live_ids y s2"
  proof
    assume "\<exists>b. ?rev s2 = Inr (b, t)"
    then obtain b where "?rev s2 = Inr (b, t)" by blast
    from live_ids_update_revoked [OF this, of y] show ?thesis by blast
  qed simp
  moreover have "live_ids y t = live_ids y s2 - {k_id k}" if "faults e ''api_keys.compensate'' = None"
  proof -
    have "\<exists>b. ?rev s2 = Inr (b, t)" using c that by (auto simp: call_apply exec_def update_key_def)
    then obtain b where "?rev s2 = Inr (b, t)" by blast
    from live_ids_update_revoked [OF this, of y] show ?thesis .
  qed
  ultimately show "live_ids y t \<subseteq> live_ids y s \<union> {kid} - (if faults e ''api_keys.compensate'' = None then {k_id k} else {})"
    using s2 by auto
qed

text \<open>The replacement can outlive a failed rotation in two ways only.\<close>

definition replacement_lost :: "env \<Rightarrow> bool" where
  "replacement_lost e \<longleftrightarrow> (case faults e ''api_keys.insert'' of Some (Lost _) \<Rightarrow> True | _ \<Rightarrow> False)
     \<or> faults e ''api_keys.expire'' \<noteq> None \<and> faults e ''api_keys.compensate'' \<noteq> None"

lemma rotate_key_failed:
  assumes "rotate_key e sha kid h user padm old s = (Inr r, t)" and "\<And>sec. \<not> discloses r sec"
  shows "live_ids x t \<subseteq> live_ids x s \<union> {kid} \<union> (if replacement_lost e then {fresh_id e} else {})"
proof -
  let ?row = "new_key e (mintApiKeySecret sha e) (k_org old) (k_name old) (usr_id user) (k_identity old) None"
  from assms(1) obtain ins s1 where ins: "call (faults e ''api_keys.insert'') (insert_key ?row) s = (Inr ins, s1)"
    and rest: "(case ins of Inl err \<Rightarrow> ret (error_resp (message err) 500)
      | Inr apiKey \<Rightarrow> finish_rotation e kid (overlap_end (now_ms e) h) user padm old (mintApiKeySecret sha e) apiKey) s1 = (Inr r, t)"
    unfolding rotate_key_def Let_def by (rule bind_InrE)
  have row: "k_id ?row = fresh_id e" by simp
  show ?thesis
  proof (cases ins)
    case (Inl err)
    have "s1 = s \<or> (\<exists>e1 k. faults e ''api_keys.insert'' = Some (Lost e1) \<and> insert_key ?row s = Inr (k, s1))"
      using ins Inl by (auto simp: call_def exec_def split: option.splits fault.splits sum.splits prod.splits)
    then have "live_ids x s1 \<subseteq> live_ids x s \<union> (if replacement_lost e then {fresh_id e} else {})"
      using live_ids_insert [of ?row s _ s1 x] row by (auto simp: replacement_lost_def split: if_splits)
    then show ?thesis using rest Inl by auto
  next
    case (Inr k)
    have i: "insert_key ?row s = Inr (k, s1)" using ins Inr by (auto dest: call_InrD)
    then have k: "k = ?row" "live_ids x s1 \<subseteq> live_ids x s \<union> {fresh_id e}"
      using live_ids_insert [of ?row s k s1 x] insert_key_SomeD [of ?row s k s1] by (auto split: if_splits)
    have f: "finish_rotation e kid (overlap_end (now_ms e) h) user padm old (mintApiKeySecret sha e) k s1 = (Inr r, t)" using rest Inr by simp
    from finish_rotation_failed(1) [OF f assms(2)] finish_rotation_failed(2) [OF f assms(2), of x] k row show ?thesis by (auto simp: replacement_lost_def split: if_splits)
  qed
qed

lemma keeps_same_tables_gates:
  "keeps (same_tables s) (requireAuthenticatedUser e)" "keeps (same_tables s) (isPlatformAdmin e)"
  "keeps (same_tables s) (query flt f)" "keeps (same_tables s) (if b then ret True else isOrgAdmin e oid)"
  by (intro keeps_intros; simp add: same_tables_def)+

lemma manage_key_reaches:
  assumes R: "\<And>u. same_tables s u \<Longrightarrow> R u"
    and act: "\<And>user padm k u. same_tables s u \<Longrightarrow> manage_key e kid rr act s = act user padm k u \<Longrightarrow> R (snd (act user padm k u))"
  shows "R (snd (manage_key e kid rr act s))"
proof -
  obtain y t where m: "manage_key e kid rr act s = (y, t)" by (cases "manage_key e kid rr act s")
  have "same_tables s t \<or> (\<exists>user padm k u. same_tables s u \<and> act user padm k u = (y, t))"
  proof -
    let ?R = "\<lambda>p. same_tables s (snd p) \<or> (\<exists>user padm k u. same_tables s u \<and> act user padm k u = p)"
    have step: "?R (bind m f u)" if "keeps (same_tables s) m" "same_tables s u"
      "\<And>x v. same_tables s v \<Longrightarrow> ?R (f x v)" for m :: "'x act" and f u
    proof (cases "m u")
      case (Pair z v)
      then have "same_tables s v" using keepsD [OF that(1,2)] by simp
      then show ?thesis using Pair that(3) by (cases z) (auto simp: bind_apply)
    qed
    have inner: "?R ((if \<not> ok then ret not_key_admin else if k_revoked_at k \<noteq> None then ret rr else act user padm k) v)"
      if "same_tables s v" for ok k user padm v using that by auto
    have gated: "?R (bind (if padm then ret True else isOrgAdmin e (k_org k)) (\<lambda>ok. if \<not> ok then ret not_key_admin
        else if k_revoked_at k \<noteq> None then ret rr else act user padm k) v)"
      if "same_tables s v" for k user padm v
      by (intro step keeps_same_tables_gates inner that; assumption)
    have found: "?R ((case x of Inl err \<Rightarrow> ret (error_resp (message err) 500)
         | Inr None \<Rightarrow> ret (error_resp (''API key not found: '' @ kid) 404)
         | Inr (Some k) \<Rightarrow> bind (if padm then ret True else isOrgAdmin e (k_org k)) (\<lambda>ok. if \<not> ok then ret not_key_admin
             else if k_revoked_at k \<noteq> None then ret rr else act user padm k)) v)"
      if "same_tables s v" for x padm user v
    proof (cases x)
      case (Inr z)
      then show ?thesis using gated [OF that] that by (cases z) simp_all
    qed (use that in simp)
    have "?R (manage_key e kid rr act s)" unfolding manage_key_def
      by (intro step keeps_same_tables_gates same_tables_refl found; assumption)
    then show ?thesis using m by simp
  qed
  then show ?thesis
  proof (elim disjE exE conjE)
    fix user padm k u
    assume "same_tables s u" "act user padm k u = (y, t)"
    then show ?thesis using act [of u user padm k] m by simp
  qed (use R m in simp)
qed

lemma same_tables_live_ids: "same_tables s u \<Longrightarrow> live_ids x u = live_ids x s"
  by (simp add: live_ids_def same_tables_keys)


definition lossy_env :: env where
  "lossy_env = sample_env\<lparr>faults := (\<lambda>c. if c = ''api_keys.expire'' then Some (Refused no_rows_error) else None)\<rparr>"


text \<open>Both exceptions are real: a lost answer of the insert, and a compensation that fails as the expiry did.\<close>

definition lost_insert_env :: env where
  "lost_insert_env = sample_env\<lparr>faults := (\<lambda>c. if c = ''api_keys.insert'' then Some (Lost no_rows_error) else None)\<rparr>"

definition no_compensation_env :: env where
  "no_compensation_env = sample_env\<lparr>faults := (\<lambda>c. if c = ''api_keys.expire'' \<or> c = ''api_keys.compensate'' then Some (Refused no_rows_error) else None)\<rparr>"

lemma failed_rotations_leave_a_live_replacement:
  "status (response (key_rotate_POST lost_insert_env (\<lambda>x. ''sha'' @ x) ''k1'' no_body) key_db) = 500
   \<and> ''id-9'' \<in> live_ids 100 (snd (key_rotate_POST lost_insert_env (\<lambda>x. ''sha'' @ x) ''k1'' no_body key_db))
   \<and> status (response (key_rotate_POST no_compensation_env (\<lambda>x. ''sha'' @ x) ''k1'' no_body) key_db) = 500
   \<and> ''id-9'' \<in> live_ids 100 (snd (key_rotate_POST no_compensation_env (\<lambda>x. ''sha'' @ x) ''k1'' no_body key_db))"
  by (intro conjI) code_simp+

section \<open>Revocation\<close>

lemma live_ids_audit [simp]: "live_ids x (snd (recordAuditEvent e evt s)) = live_ids x s"
  by (simp add: live_ids_def)

lemma revoke_key_live:
  "live_ids x (snd (revoke_key e kid user padm k u)) \<in> {live_ids x u, live_ids x u - {kid}}"
  "fst (revoke_key e kid user padm k u) = Inr r \<Longrightarrow> body r = None \<Longrightarrow> kid \<notin> live_ids x (snd (revoke_key e kid user padm k u))"
proof -
  let ?upd = "update_key kid (\<lambda>k. k\<lparr>k_revoked_at := Some (now_ms e), k_revoked_by := Some (usr_id user)\<rparr>)"
  obtain a v where v: "?upd u = Inr (a, v)" by (simp add: update_key_def)
  then have l: "live_ids x v = live_ids x u - {kid}" by (rule live_ids_update_revoked)
  show "live_ids x (snd (revoke_key e kid user padm k u)) \<in> {live_ids x u, live_ids x u - {kid}}"
    unfolding revoke_key_def
  proof (rule bind_call_reaches)
    show "live_ids x w \<in> {live_ids x u, live_ids x u - {kid}}" if "?upd u = Inr (b, w)" for b w
      using live_ids_update_revoked [OF that] by simp
    show "keeps (\<lambda>w. live_ids x w \<in> {live_ids x u, live_ids x u - {kid}}) (case r of
        Inl err \<Rightarrow> ret (error_resp (message err) 500)
      | Inr _ \<Rightarrow> bind (recordAuditEvent e \<lparr>ev_org = Some (k_org k), ev_actor_kind = actor_kind padm,
           ev_actor_id = Some (usr_id user), ev_action = ''keys.revoke'', ev_object_type = ''api_key'',
           ev_object_id = kid, ev_before = None, ev_after = Some (JObj [(''revoked_at'', jtime (Some (now_ms e)))]), ev_context = None\<rparr>)
           (\<lambda>_. ret (empty_resp 204)))" for r
      by (intro keeps_intros) (simp add: live_ids_def)
  qed simp
  show "kid \<notin> live_ids x (snd (revoke_key e kid user padm k u))"
    if r: "fst (revoke_key e kid user padm k u) = Inr r" "body r = None"
  proof -
    obtain w where w: "revoke_key e kid user padm k u = (Inr r, w)" using r(1) by (metis prod.collapse)
    obtain c v2 where c: "call (faults e ''api_keys.revoke'') ?upd u = (Inr c, v2)"
      and rest: "(case c of
        Inl err \<Rightarrow> ret (error_resp (message err) 500)
      | Inr _ \<Rightarrow> bind (recordAuditEvent e \<lparr>ev_org = Some (k_org k), ev_actor_kind = actor_kind padm,
           ev_actor_id = Some (usr_id user), ev_action = ''keys.revoke'', ev_object_type = ''api_key'',
           ev_object_id = kid, ev_before = None, ev_after = Some (JObj [(''revoked_at'', jtime (Some (now_ms e)))]), ev_context = None\<rparr>)
           (\<lambda>_. ret (empty_resp 204))) v2 = (Inr r, w)"
      using w unfolding revoke_key_def by (rule bind_InrE)
    obtain z where z: "c = Inr z" using rest r(2) by (cases c) (auto simp: error_resp_def)
    then have "?upd u = Inr (z, v2)" using c by (auto dest: call_InrD)
    then have "live_ids x v2 = live_ids x u - {kid}" by (rule live_ids_update_revoked)
    moreover have "live_ids x w = live_ids x v2" using rest z by auto
    ultimately show ?thesis using w by simp
  qed
qed

text \<open>
  Revoking ends a key: after the bodiless 204 the key authenticates at no time, and whatever
  the outcome, a revocation request changes no other key and lets none authenticate that did not.
\<close>

theorem revocation_contract:
  assumes "t = snd (key_DELETE e kid s)"
  shows "live_ids x t \<subseteq> live_ids x s \<and> live_ids x s - {kid} \<subseteq> live_ids x t
    \<and> (body (response (key_DELETE e kid) s) = None \<longrightarrow> kid \<notin> live_ids x t)"
proof -
  let ?m = "manage_key e kid (error_resp ''API key is already revoked.'' 409) (revoke_key e kid)"
  have "live_ids x (snd (?m s)) \<subseteq> live_ids x s \<and> live_ids x s - {kid} \<subseteq> live_ids x (snd (?m s))"
    by (rule manage_key_reaches) (use revoke_key_live(1) same_tables_live_ids in \<open>fastforce+\<close>)
  moreover have "kid \<notin> live_ids x (snd (?m s))" if b: "body (response ?m s) = None"
  proof -
    obtain y v where m: "?m s = (y, v)" by (cases "?m s")
    have nb: "body (jsonError err) \<noteq> None" for err by (cases err) (simp_all add: error_resp_def json_resp_def)
    have "y \<noteq> Inl err" for err using b m nb [of err] by (force simp: response_def)
    then obtain r where r: "y = Inr r" "body r = None" using b m by (cases y) (auto simp: response_def)
    obtain user padm k u where "revoke_key e kid user padm k u = (Inr r, v)"
      using m [unfolded r(1)] r(2) by (rule manage_key_InrE [where D = "\<lambda>r. body r = None"])
        (simp_all add: error_resp_def)
    then show ?thesis using revoke_key_live(2) [of e kid user padm k u r x] r(2) m by simp
  qed
  ultimately show ?thesis unfolding assms key_DELETE_def by simp
qed

theorem revocation_contract_witness:
  "''k1'' \<notin> live_ids 20 (snd (key_DELETE sample_env ''k1'' key_db))"
proof -
  have "body (response (key_DELETE sample_env ''k1'') key_db) = None" by code_simp
  then show ?thesis using revocation_contract [OF refl, of 20 sample_env "''k1''" key_db] by blast
qed

section \<open>Minting\<close>

lemma org_visible_state:
  assumes "org_visible e user oid padm s = (Inr v, t)"
  shows "t = s \<and> (\<forall>r sec. v = Inl r \<longrightarrow> \<not> discloses r sec)"
  using assms by (auto simp: org_visible_def elim!: bind_InrE split: if_splits sum.splits option.splits)

lemma keeps_ensureOrgDefaultIdentity:
  assumes "\<And>s a t row. P s \<Longrightarrow> upsert_identity row s = Inr (a, t) \<Longrightarrow> P t"
  shows "keeps P (ensureOrgDefaultIdentity e oid)"
  unfolding ensureOrgDefaultIdentity_def Let_def by (intro keeps_intros) (rule assms)

lemma resolveMintIdentity_keys: "api_keys (snd (resolveMintIdentity e oid ident s)) = api_keys s"
proof -
  have "keeps (\<lambda>t. api_keys t = api_keys s) (resolveMintIdentity e oid ident)"
    unfolding resolveMintIdentity_def
    by (intro keeps_intros keeps_ensureOrgDefaultIdentity) (auto simp: upsert_identity_def split: if_splits)
  then show ?thesis by (auto dest: keepsD)
qed

lemma resolveMintIdentity_active:
  assumes "resolveMintIdentity e oid (Some ident) s = (Inr (Inr i), t)"
  shows "i = ident \<and> (\<exists>g\<in>set (identities s). g_identity g = ident \<and> g_org g = oid \<and> g_active g)"
  using assms by (auto simp: resolveMintIdentity_def elim!: bind_InrE split: sum.splits option.splits if_splits
      dest!: read_db_InrD first_where_SomeD [OF sym])

definition mint_insert :: "env \<Rightarrow> (string \<Rightarrow> string) \<Rightarrow> create_key_payload \<Rightarrow> auth_user \<Rightarrow> string \<Rightarrow> key_row" where
  "mint_insert e sha payload user ident =
     new_key e (mintApiKeySecret sha e) (pl_org payload) (pl_name payload) (usr_id user) (Some ident)
       (expiryTimestamp (now_ms e) (pl_expires_in_days payload))"

lemma store_minted_discloses:
  assumes "store_minted e user padm payload (mintApiKeySecret sha e) ident s = (Inr r, t)" and "discloses r sec"
  shows "api_keys t = api_keys s @ [mint_insert e sha payload user ident] \<and> sec = API_KEY_SECRET_PREFIX @ random_hex e"
proof -
  from assms(1) obtain c u where c: "call (faults e ''api_keys.insert'') (insert_key (mint_insert e sha payload user ident)) s = (Inr c, u)"
    and rest: "(case c of
       Inl err \<Rightarrow> ret (error_resp (message err) 500)
     | Inr apiKey \<Rightarrow>
         bind (recordAuditEvent e \<lparr>ev_org = Some (pl_org payload), ev_actor_kind = actor_kind padm,
                 ev_actor_id = Some (usr_id user), ev_action = ''keys.mint'', ev_object_type = ''api_key'',
                 ev_object_id = k_id apiKey, ev_before = None,
                 ev_after = Some (JObj [(''name'', JStr (k_name apiKey)), (''key_prefix'', JStr (k_prefix apiKey)),
                   (''identity_id'', jopt JStr (k_identity apiKey)), (''expires_at'', jtime (k_expires_at apiKey))]), ev_context = None\<rparr>) (\<lambda>_.
         ret (jsonOk (JObj [(''apiKey'', key_json apiKey), (''secret'', JStr (mk_secret (mintApiKeySecret sha e)))])))) u = (Inr r, t)"
    unfolding store_minted_def mint_insert_def by (rule bind_InrE)
  obtain k where k: "c = Inr k" using rest assms(2) by (cases c) auto
  have "api_keys u = api_keys s @ [mint_insert e sha payload user ident]"
    using c k by (auto dest!: call_InrD insert_key_SomeD)
  then show ?thesis using rest k assms(2) by auto
qed

lemma mint_key_discloses:
  assumes "mint_key e sha user padm payload s = (Inr r, t)" and "discloses r sec"
  obtains ident where "Option.bind (first_where (\<lambda>org. o_id org = pl_org payload) (organizations s)) o_banned_at = None"
    and "fst (resolveMintIdentity e (pl_org payload) (pl_identity payload) s) = Inr (Inr ident)"
    and "api_keys t = api_keys s @ [mint_insert e sha payload user ident]" and "sec = API_KEY_SECRET_PREFIX @ random_hex e"
proof -
  from assms obtain res u where ban: "Option.bind (first_where (\<lambda>org. o_id org = pl_org payload) (organizations s)) o_banned_at = None"
    and res: "resolveMintIdentity e (pl_org payload) (pl_identity payload) s = (Inr res, u)"
    and rest: "(case res of Inl (msg, st) \<Rightarrow> ret (error_resp msg st)
           | Inr identityId \<Rightarrow> store_minted e user padm payload (mintApiKeySecret sha e) identityId) u = (Inr r, t)"
    unfolding mint_key_def
    by (elim bind_InrE) (auto split: sum.splits if_splits dest!: read_db_InrD elim!: bind_InrE [of "resolveMintIdentity e (pl_org payload) (pl_identity payload)"])
  obtain ident where ident: "res = Inr ident" using rest assms(2) by (cases res) (auto split: prod.splits)
  have "api_keys u = api_keys s" using resolveMintIdentity_keys [of e "pl_org payload" "pl_identity payload" s] res by simp
  then show thesis using that ban res rest ident store_minted_discloses [of e user padm payload sha ident u r t sec] assms(2)
    by auto
qed

lemma keys_POST_discloses:
  assumes "discloses (response (keys_POST e sha request) s) sec" and "t = snd (keys_POST e sha request s)"
  obtains v payload user padm u ident where "request = Inr v" and "parseCreateApiKeyPayload v = Inr payload"
    and "getAuthenticatedUser e = Some user" and "padm \<longleftrightarrow> is_admin_user s (usr_id user)"
    and "padm \<or> isOrgAdmin e (pl_org payload) s = (Inr True, u)" and "same_tables s u"
    and "Option.bind (first_where (\<lambda>org. o_id org = pl_org payload) (organizations u)) o_banned_at = None"
    and "fst (resolveMintIdentity e (pl_org payload) (pl_identity payload) u) = Inr (Inr ident)"
    and "api_keys t = api_keys s @ [mint_insert e sha payload user ident]" and "sec = API_KEY_SECRET_PREFIX @ random_hex e"
proof -
  let ?tail = "\<lambda>user padm payload. bind (if padm then ret True else isOrgAdmin e (pl_org payload)) (\<lambda>ok.
             if \<not> ok then ret not_key_admin else mint_key e sha user padm payload)"
  obtain r where m: "bind (requireAuthenticatedUser e) (\<lambda>user.
     case (case request of Inl err \<Rightarrow> Inl err | Inr v \<Rightarrow> parseCreateApiKeyPayload v) of
       Inl msg \<Rightarrow> throw (PlainError msg)
     | Inr payload \<Rightarrow> bind (isPlatformAdmin e) (\<lambda>platformAdmin.
         bind (org_visible e user (pl_org payload) platformAdmin) (\<lambda>v.
         case v of Inl r \<Rightarrow> ret r | Inr _ \<Rightarrow> ?tail user platformAdmin payload))) s = (Inr r, t)" and d: "discloses r sec"
    using assms(1) unfolding assms(2) keys_POST_def by (rule discloses_handler)
  from m obtain user where u: "getAuthenticatedUser e = Some user"
    and m1: "(case (case request of Inl err \<Rightarrow> Inl err | Inr v \<Rightarrow> parseCreateApiKeyPayload v) of
       Inl msg \<Rightarrow> throw (PlainError msg)
     | Inr payload \<Rightarrow> bind (isPlatformAdmin e) (\<lambda>platformAdmin.
         bind (org_visible e user (pl_org payload) platformAdmin) (\<lambda>v.
         case v of Inl r \<Rightarrow> ret r | Inr _ \<Rightarrow> ?tail user platformAdmin payload))) s = (Inr r, t)"
    by (elim bind_InrE requireAuthenticatedUser_InrE) simp
  from m1 obtain v payload where p: "request = Inr v" "parseCreateApiKeyPayload v = Inr payload"
    and m2: "bind (isPlatformAdmin e) (\<lambda>platformAdmin. bind (org_visible e user (pl_org payload) platformAdmin) (\<lambda>v.
         case v of Inl r \<Rightarrow> ret r | Inr _ \<Rightarrow> ?tail user platformAdmin payload)) s = (Inr r, t)"
    by (auto split: sum.splits)
  from m2 obtain padm vis s1 where adm: "padm \<longleftrightarrow> is_admin_user s (usr_id user)"
    and vis: "org_visible e user (pl_org payload) padm s = (Inr vis, s1)"
    and m3: "(case vis of Inl r \<Rightarrow> ret r | Inr _ \<Rightarrow> ?tail user padm payload) s1 = (Inr r, t)"
    using u by (elim bind_InrE isPlatformAdmin_InrE) auto
  have s1: "s1 = s" "\<And>r sec. vis = Inl r \<Longrightarrow> \<not> discloses r sec" using org_visible_state [OF vis] by auto
  then obtain ok w where ok: "(if padm then ret True else isOrgAdmin e (pl_org payload)) s = (Inr ok, w)"
    and m4: "(if \<not> ok then ret not_key_admin else mint_key e sha user padm payload) w = (Inr r, t)"
    using m3 d by (cases vis) (auto elim!: bind_InrE [of "if padm then ret True else isOrgAdmin e (pl_org payload)"])
  have w: "ok" "mint_key e sha user padm payload w = (Inr r, t)" using m4 d by (auto split: if_splits)
  have st: "same_tables s w" "padm \<or> isOrgAdmin e (pl_org payload) s = (Inr True, w)"
    using ok w(1) by (auto split: if_splits intro: isOrgAdmin_state)
  show thesis using mint_key_discloses [OF w(2) d] that [OF p u adm st(2,1)] same_tables_keys [OF st(1)] by metis
qed

text \<open>
  C10. A mint that discloses a secret appended exactly one key, holding the hash of that secret, under
  the requested organization, name, expiry and an identity of it; the organization was not
  banned, an explicitly requested identity is an active one of that organization, and the caller
  was a platform operator or an authorized admin of the organization the request names.
\<close>

theorem mint_contract:
  assumes "discloses (response (keys_POST e sha request) s) sec" and "t = snd (keys_POST e sha request s)"
  shows "\<exists>v payload user ident. request = Inr v \<and> parseCreateApiKeyPayload v = Inr payload
    \<and> getAuthenticatedUser e = Some user
    \<and> api_keys t = api_keys s @ [mint_insert e sha payload user ident]
    \<and> k_hash (mint_insert e sha payload user ident) = sha sec
    \<and> Option.bind (first_where (\<lambda>org. o_id org = pl_org payload) (organizations s)) o_banned_at = None
    \<and> (\<forall>want. pl_identity payload = Some want \<longrightarrow> ident = want
         \<and> (\<exists>g\<in>set (identities s). g_identity g = want \<and> g_org g = pl_org payload \<and> g_active g))
    \<and> (is_admin_user s (usr_id user) \<or> (\<exists>org\<in>set (organizations s).
         (pl_org payload = o_id org \<or> pl_org payload = o_slug org) \<and> authorized_for s e (o_id org) Admin))"
proof -
  obtain v payload user padm u ident where p: "request = Inr v" "parseCreateApiKeyPayload v = Inr payload"
    and user: "getAuthenticatedUser e = Some user" and adm: "padm \<longleftrightarrow> is_admin_user s (usr_id user)"
    and ok: "padm \<or> isOrgAdmin e (pl_org payload) s = (Inr True, u)" and st: "same_tables s u"
    and ban: "Option.bind (first_where (\<lambda>org. o_id org = pl_org payload) (organizations u)) o_banned_at = None"
    and res: "fst (resolveMintIdentity e (pl_org payload) (pl_identity payload) u) = Inr (Inr ident)"
    and k: "api_keys t = api_keys s @ [mint_insert e sha payload user ident]" "sec = API_KEY_SECRET_PREFIX @ random_hex e"
    using assms by (rule keys_POST_discloses)
  have same: "organizations u = organizations s" "identities u = identities s"
    using read_db_same_tables [OF st, of organizations] read_db_same_tables [OF st, of identities] by simp_all
  have hash: "k_hash (mint_insert e sha payload user ident) = sha sec"
    by (simp add: mint_insert_def new_key_def k(2))
  have want: "ident = want \<and> (\<exists>g\<in>set (identities s). g_identity g = want \<and> g_org g = pl_org payload \<and> g_active g)"
    if "pl_identity payload = Some want" for want
    using resolveMintIdentity_active [of e "pl_org payload" want u ident] res that same
    by (metis prod.collapse)
  have auth: "is_admin_user s (usr_id user) \<or> (\<exists>org\<in>set (organizations s).
      (pl_org payload = o_id org \<or> pl_org payload = o_slug org) \<and> authorized_for s e (o_id org) Admin)"
    using ok adm isOrgAdmin_True by blast
  show ?thesis using p user ban [unfolded same] k(1) hash want auth by blast
qed

definition mint_body :: "string + json" where
  "mint_body = Inr (JObj [(''orgId'', JStr ''o1''), (''name'', JStr '' ci ''), (''expiresInDays'', JNum (js_int 30))])"

theorem mint_contract_witness:
  "\<exists>k. api_keys (snd (keys_POST sample_env (\<lambda>x. ''sha'' @ x) mint_body key_db)) = api_keys key_db @ [k]
     \<and> k_hash k = ''sha'' @ API_KEY_SECRET_PREFIX @ random_hex sample_env"
proof -
  have "discloses (response (keys_POST sample_env (\<lambda>x. ''sha'' @ x) mint_body) key_db)
    (API_KEY_SECRET_PREFIX @ random_hex sample_env)" by code_simp
  from mint_contract [OF this refl] show ?thesis by auto
qed

section \<open>What the database learns of a secret\<close>

definition same_effect :: "'a act \<Rightarrow> 'a act \<Rightarrow> bool" where
  "same_effect m n \<longleftrightarrow> (\<forall>s. snd (m s) = snd (n s))"

lemma same_effect_refl [simp]: "same_effect m m"
  by (simp add: same_effect_def)

lemma same_effect_bind: "(\<And>x. same_effect (f x) (g x)) \<Longrightarrow> same_effect (bind m f) (bind m g)"
  by (auto simp: same_effect_def bind_apply split: prod.splits sum.splits)

lemma same_effect_handler: "same_effect m n \<Longrightarrow> same_effect (handler m) (handler n)"
  by (simp add: same_effect_def)

lemma same_effect_sum:
  "(\<And>x. same_effect (f x) (g x)) \<Longrightarrow> same_effect (case v of Inl a \<Rightarrow> h a | Inr x \<Rightarrow> f x) (case v of Inl a \<Rightarrow> h a | Inr x \<Rightarrow> g x)"
  by (simp split: sum.split)

lemma same_effect_if: "same_effect m n \<Longrightarrow> same_effect (if b then h else m) (if b then h else n)"
  by simp

definition with_hex :: "env \<Rightarrow> string \<Rightarrow> env" where
  "with_hex e hex = e\<lparr>random_hex := hex\<rparr>"

lemma with_hex_sel [simp]:
  "auth_cookie (with_hex e h) = auth_cookie e" "jwt_claims (with_hex e h) = jwt_claims e"
  "now_ms (with_hex e h) = now_ms e" "fresh_id (with_hex e h) = fresh_id e" "faults (with_hex e h) = faults e"
  "random_hex (with_hex e h) = h"
  by (simp_all add: with_hex_def)

lemma with_hex_getAuthenticatedUser: "getAuthenticatedUser (with_hex e h) = getAuthenticatedUser e"
  unfolding getAuthenticatedUser_def with_hex_sel by (rule refl)

lemma with_hex_requireAuthenticatedUser: "requireAuthenticatedUser (with_hex e h) = requireAuthenticatedUser e"
  unfolding requireAuthenticatedUser_def with_hex_sel with_hex_getAuthenticatedUser by (rule refl)

lemma with_hex_isPlatformAdmin: "isPlatformAdmin (with_hex e h) = isPlatformAdmin e"
  unfolding isPlatformAdmin_def with_hex_sel with_hex_getAuthenticatedUser with_hex_requireAuthenticatedUser by (rule refl)

lemma with_hex_listMembershipOrgIds: "listMembershipOrgIds (with_hex e h) = listMembershipOrgIds e"
  unfolding listMembershipOrgIds_def with_hex_sel with_hex_getAuthenticatedUser with_hex_requireAuthenticatedUser with_hex_isPlatformAdmin by (rule refl)

lemma with_hex_listAuthorizedOrgIds: "listAuthorizedOrgIds (with_hex e h) = listAuthorizedOrgIds e"
  unfolding listAuthorizedOrgIds_def with_hex_sel with_hex_getAuthenticatedUser with_hex_requireAuthenticatedUser with_hex_isPlatformAdmin with_hex_listMembershipOrgIds by (rule refl)

lemma with_hex_getLatestAuthMethod: "getLatestAuthMethod (with_hex e h) = getLatestAuthMethod e"
  unfolding getLatestAuthMethod_def with_hex_sel with_hex_getAuthenticatedUser with_hex_requireAuthenticatedUser with_hex_isPlatformAdmin with_hex_listMembershipOrgIds with_hex_listAuthorizedOrgIds by (rule refl)

lemma with_hex_getOrgSsoRequired: "getOrgSsoRequired (with_hex e h) = getOrgSsoRequired e"
  unfolding getOrgSsoRequired_def [abs_def] with_hex_sel with_hex_getAuthenticatedUser with_hex_requireAuthenticatedUser with_hex_isPlatformAdmin with_hex_listMembershipOrgIds with_hex_listAuthorizedOrgIds with_hex_getLatestAuthMethod by (rule refl)

lemma with_hex_getMembershipRole: "getMembershipRole (with_hex e h) = getMembershipRole e"
  unfolding getMembershipRole_def [abs_def] with_hex_sel with_hex_getAuthenticatedUser with_hex_requireAuthenticatedUser with_hex_isPlatformAdmin with_hex_listMembershipOrgIds with_hex_listAuthorizedOrgIds with_hex_getLatestAuthMethod with_hex_getOrgSsoRequired by (rule refl)

lemma with_hex_requireRole: "requireRole (with_hex e h) = requireRole e"
  unfolding requireRole_def [abs_def] with_hex_sel with_hex_getAuthenticatedUser with_hex_requireAuthenticatedUser with_hex_isPlatformAdmin with_hex_listMembershipOrgIds with_hex_listAuthorizedOrgIds with_hex_getLatestAuthMethod with_hex_getOrgSsoRequired with_hex_getMembershipRole by (rule refl)

lemma with_hex_requireSso: "requireSso (with_hex e h) = requireSso e"
  unfolding requireSso_def [abs_def] with_hex_sel with_hex_getAuthenticatedUser with_hex_requireAuthenticatedUser with_hex_isPlatformAdmin with_hex_listMembershipOrgIds with_hex_listAuthorizedOrgIds with_hex_getLatestAuthMethod with_hex_getOrgSsoRequired with_hex_getMembershipRole with_hex_requireRole by (rule refl)

lemma with_hex_requireOrgAccess: "requireOrgAccess (with_hex e h) = requireOrgAccess e"
  unfolding requireOrgAccess_def [abs_def] with_hex_sel with_hex_getAuthenticatedUser with_hex_requireAuthenticatedUser with_hex_isPlatformAdmin with_hex_listMembershipOrgIds with_hex_listAuthorizedOrgIds with_hex_getLatestAuthMethod with_hex_getOrgSsoRequired with_hex_getMembershipRole with_hex_requireRole with_hex_requireSso by (rule refl)

lemma with_hex_isOrgAdmin: "isOrgAdmin (with_hex e h) = isOrgAdmin e"
  unfolding isOrgAdmin_def [abs_def] delegatedRoleCheck_def [abs_def] with_hex_sel with_hex_getAuthenticatedUser with_hex_requireAuthenticatedUser with_hex_isPlatformAdmin with_hex_listMembershipOrgIds with_hex_listAuthorizedOrgIds with_hex_getLatestAuthMethod with_hex_getOrgSsoRequired with_hex_getMembershipRole with_hex_requireRole with_hex_requireSso with_hex_requireOrgAccess by (rule refl)

lemma with_hex_org_visible: "org_visible (with_hex e h) = org_visible e"
  unfolding org_visible_def [abs_def] with_hex_sel with_hex_getAuthenticatedUser with_hex_requireAuthenticatedUser with_hex_isPlatformAdmin with_hex_listMembershipOrgIds with_hex_listAuthorizedOrgIds with_hex_getLatestAuthMethod with_hex_getOrgSsoRequired with_hex_getMembershipRole with_hex_requireRole with_hex_requireSso with_hex_requireOrgAccess with_hex_isOrgAdmin by (rule refl)

lemma with_hex_ensureOrgDefaultIdentity: "ensureOrgDefaultIdentity (with_hex e h) = ensureOrgDefaultIdentity e"
  unfolding ensureOrgDefaultIdentity_def [abs_def] with_hex_sel with_hex_getAuthenticatedUser with_hex_requireAuthenticatedUser with_hex_isPlatformAdmin with_hex_listMembershipOrgIds with_hex_listAuthorizedOrgIds with_hex_getLatestAuthMethod with_hex_getOrgSsoRequired with_hex_getMembershipRole with_hex_requireRole with_hex_requireSso with_hex_requireOrgAccess with_hex_isOrgAdmin with_hex_org_visible by (rule refl)

lemma with_hex_resolveMintIdentity: "resolveMintIdentity (with_hex e h) = resolveMintIdentity e"
  unfolding resolveMintIdentity_def [abs_def] with_hex_sel with_hex_getAuthenticatedUser with_hex_requireAuthenticatedUser with_hex_isPlatformAdmin with_hex_listMembershipOrgIds with_hex_listAuthorizedOrgIds with_hex_getLatestAuthMethod with_hex_getOrgSsoRequired with_hex_getMembershipRole with_hex_requireRole with_hex_requireSso with_hex_requireOrgAccess with_hex_isOrgAdmin with_hex_org_visible with_hex_ensureOrgDefaultIdentity by (rule refl)

lemma with_hex_recordAuditEvent: "recordAuditEvent (with_hex e h) = recordAuditEvent e"
  unfolding recordAuditEvent_def [abs_def] with_hex_sel with_hex_getAuthenticatedUser with_hex_requireAuthenticatedUser with_hex_isPlatformAdmin with_hex_listMembershipOrgIds with_hex_listAuthorizedOrgIds with_hex_getLatestAuthMethod with_hex_getOrgSsoRequired with_hex_getMembershipRole with_hex_requireRole with_hex_requireSso with_hex_requireOrgAccess with_hex_isOrgAdmin with_hex_org_visible with_hex_ensureOrgDefaultIdentity with_hex_resolveMintIdentity by (rule refl)

lemmas with_hex_gates =
  with_hex_getAuthenticatedUser with_hex_requireAuthenticatedUser with_hex_isPlatformAdmin with_hex_listMembershipOrgIds with_hex_listAuthorizedOrgIds with_hex_getLatestAuthMethod with_hex_getOrgSsoRequired with_hex_getMembershipRole with_hex_requireRole with_hex_requireSso with_hex_requireOrgAccess with_hex_isOrgAdmin with_hex_org_visible with_hex_ensureOrgDefaultIdentity with_hex_resolveMintIdentity with_hex_recordAuditEvent

text \<open>
  The database learns nothing of a minted secret beyond its first 8 and last 4 random digits and
  its digest: two requests that differ only in the random bytes, with equal shown digits and equal
  digests, leave identical databases (keys, audit trail and everything else).
\<close>

theorem mint_stores_no_plaintext:
  assumes "length h1 = 40" and "length h2 = 40" and "take 8 h1 = take 8 h2" and "drop 36 h1 = drop 36 h2"
    and "sha1 (API_KEY_SECRET_PREFIX @ h1) = sha2 (API_KEY_SECRET_PREFIX @ h2)"
  shows "snd (keys_POST (with_hex e h1) sha1 request s) = snd (keys_POST (with_hex e h2) sha2 request s)"
proof -
  have row: "new_key (with_hex e h1) (mintApiKeySecret sha1 (with_hex e h1)) oid name c i x
    = new_key (with_hex e h2) (mintApiKeySecret sha2 (with_hex e h2)) oid name c i x" for oid name c i x
    using assms by (simp add: new_key_def mintApiKeySecret_def mintKeySecret_def Let_def API_KEY_SECRET_PREFIX_def
        KEY_PREFIX_LENGTH_def KEY_SUFFIX_LENGTH_def)
  have store: "same_effect (store_minted (with_hex e h1) user padm p (mintApiKeySecret sha1 (with_hex e h1)) i)
     (store_minted (with_hex e h2) user padm p (mintApiKeySecret sha2 (with_hex e h2)) i)" for user padm p i
    unfolding store_minted_def row with_hex_sel with_hex_gates
    by (intro same_effect_bind same_effect_sum) (simp add: same_effect_def)
  have mint: "same_effect (mint_key (with_hex e h1) sha1 user padm p) (mint_key (with_hex e h2) sha2 user padm p)" for user padm p
    unfolding mint_key_def with_hex_sel with_hex_gates
    by (intro same_effect_bind same_effect_sum same_effect_if store)
  have "same_effect (keys_POST (with_hex e h1) sha1 request) (keys_POST (with_hex e h2) sha2 request)"
    unfolding keys_POST_def with_hex_gates
    by (intro same_effect_handler same_effect_bind same_effect_sum same_effect_if mint)
  then show ?thesis by (simp add: same_effect_def)
qed

theorem mint_stores_no_plaintext_witness:
  "snd (keys_POST (with_hex sample_env (''00112233'' @ replicate 28 (CHR ''a'') @ ''7777'')) (\<lambda>x. take 12 x) mint_body key_db)
   = snd (keys_POST (with_hex sample_env (''00112233'' @ replicate 28 (CHR ''b'') @ ''7777'')) (\<lambda>x. take 12 x) mint_body key_db)"
  by (rule mint_stores_no_plaintext) (simp_all add: API_KEY_SECRET_PREFIX_def)

text \<open>
  The key list is not behind the SSO gate: \<open>GET /api/keys\<close> checks the membership row itself
  instead of calling \<open>requireOrgAccess\<close>, so a password session reads the keys of an organization
  that requires SSO while the gate refuses that same session with the step-up signal.
\<close>

theorem key_list_bypasses_sso:
  "status (response (keys_GET sample_env (Some ''o1'') None None None) (key_db\<lparr>sso_orgs := [''o1'']\<rparr>)) = 200
   \<and> fst (requireOrgAccess sample_env ''o1'' User (key_db\<lparr>sso_orgs := [''o1'']\<rparr>)) = Inl (SsoStepUpRequired ''o1'' ''acme'')"
  by (intro conjI) code_simp+

section \<open>Paging\<close>

lemma page_slices_take: "concat (map (\<lambda>p. page_slice p xs) [1..int n]) = take (10 * n) xs"
proof (induction n)
  case (Suc n)
  have "[1..int (Suc n)] = [1..int n] @ [int n + 1]" by (simp add: upto_rec2 add.commute)
  moreover have "page_slice (int n + 1) xs = take 10 (drop (10 * n) xs)"
    by (simp add: page_slice_def API_KEYS_PAGE_SIZE_def nat_mult_distrib mult.commute)
  moreover have "take (10 * n) xs @ take 10 (drop (10 * n) xs) = take (10 * Suc n) xs"
    using take_add [of "10 * n" 10 xs] by (simp add: add.commute)
  ultimately show ?case using Suc by simp
qed simp

lemma page_count_covers: "n \<le> 10 * page_count n" and page_count_pos: "1 \<le> page_count n"
proof -
  have "(of_int n :: rat) / 10 \<le> of_int \<lceil>(of_int n :: rat) / 10\<rceil>" by (rule le_of_int_ceiling)
  then have "(of_int n :: rat) \<le> of_int (10 * \<lceil>(of_int n :: rat) / 10\<rceil>)"
    unfolding of_int_mult of_int_numeral by linarith
  then have "n \<le> 10 * \<lceil>(of_int n :: rat) / 10\<rceil>" by (simp only: of_int_le_iff)
  then show "n \<le> 10 * page_count n" by (simp add: page_count_def API_KEYS_PAGE_SIZE_def)
  show "1 \<le> page_count n" by (simp add: page_count_def)
qed

lemma pages_partition: "concat (map (\<lambda>p. page_slice p xs) [1..page_count (int (length xs))]) = xs"
proof -
  define n where "n = nat (page_count (int (length xs)))"
  have n: "page_count (int (length xs)) = int n" using page_count_pos [of "int (length xs)"] by (simp add: n_def)
  have "int (length xs) \<le> 10 * int n" using page_count_covers [of "int (length xs)"] n by simp
  then have "length xs \<le> 10 * n" by linarith
  then show ?thesis unfolding n page_slices_take by simp
qed

lemma clamp_page_bounds: "1 \<le> pc \<Longrightarrow> 1 \<le> clamp_page p pc \<and> clamp_page p pc \<le> pc"
  by (auto simp: clamp_page_def split: jsnum.split)

text \<open>
  The key list pages correctly: whatever page was asked for (absent, malformed, negative or far
  out of range), the answer is a real page between 1 and the page count, of at most 10 keys, and
  the pages together are the whole scope, newest first, every key on exactly one page.
\<close>

theorem key_pages_partition:
  assumes "listOrgApiKeys e oid p showRevoked ident s = (Inr res, t)"
    and "all = newest_first (filter (key_scope oid ident showRevoked) (api_keys s))"
  shows "1 \<le> kp_page res \<and> kp_page res \<le> kp_page_count res \<and> kp_total res = int (length all)
    \<and> kp_keys res = page_slice (kp_page res) all \<and> length (kp_keys res) \<le> 10
    \<and> concat (map (\<lambda>q. page_slice q all) [1..kp_page_count res]) = all"
proof -
  have len: "length (newest_first ks) = length ks" for ks
    by (simp add: newest_first_def)
  have "kp_total res = int (length all)" "kp_page_count res = page_count (int (length all))"
    "kp_page res = clamp_page p (page_count (int (length all)))" "kp_keys res = page_slice (kp_page res) all"
    using assms(1) unfolding listOrgApiKeys_def Let_def assms(2) len
    by (auto elim!: bind_InrE orThrow_InrE dest!: read_db_InrD)
  then show ?thesis using clamp_page_bounds [OF page_count_pos, of p "int (length all)"] pages_partition [of all]
    by (simp add: page_slice_def API_KEYS_PAGE_SIZE_def)
qed

theorem key_pages_partition_witness:
  "length (kp_keys \<lparr>kp_keys = api_keys key_db, kp_page = 1, kp_page_count = 1, kp_total = 1\<rparr>) \<le> 10"
proof -
  have "listOrgApiKeys sample_env ''o1'' (js_int 7) False None key_db
    = (Inr \<lparr>kp_keys = api_keys key_db, kp_page = 1, kp_page_count = 1, kp_total = 1\<rparr>, key_db)"
    by (simp add: listOrgApiKeys_def Let_def act_simps orThrow_def sample_env_def key_db_def key_scope_def newest_first_def
        page_count_def API_KEYS_PAGE_SIZE_def clamp_page_def js_int_def page_slice_def)
  from key_pages_partition [OF this refl] show ?thesis by blast
qed

section \<open>The CLI hand-off\<close>

lemma urlsafe_form_unreserved: "is_urlsafe c \<Longrightarrow> form_unreserved c"
  by (auto simp: is_urlsafe_def form_unreserved_def)

text \<open>
  The CLI hand-off cannot be turned into a redirect elsewhere: for a port and a state the page
  accepted, the callback is an address of the loopback interface on a non-system port, and the
  state reaches it byte for byte.
\<close>

theorem callback_is_loopback:
  assumes "parseLoopbackPort rawPort = Some port" and "parseState rawState = Some st"
  shows "1024 \<le> port \<and> port \<le> 65535
    \<and> buildLoopbackCallbackUrl port token st
      = ''http://127.0.0.1:'' @ dec_string port @ ''/callback?token='' @ form_encode token @ ''&state='' @ st"
proof -
  have port: "1024 \<le> port" "port \<le> 65535"
    using assms(1) by (auto simp: parseLoopbackPort_def MIN_PORT_def MAX_PORT_def Let_def split: option.splits if_splits)
  have "list_all is_urlsafe st"
    using assms(2) by (auto simp: parseState_def Let_def split: option.splits if_splits)
  then have "form_encode st = st"
    by (intro form_encode_id) (auto simp: list_all_iff urlsafe_form_unreserved)
  then show ?thesis using port by (simp add: buildLoopbackCallbackUrl_def)
qed

theorem callback_is_loopback_witness:
  "buildLoopbackCallbackUrl 40123 ''xpl_00'' ''aZ_9-'' = ''http://127.0.0.1:40123/callback?token=xpl_00&state=aZ_9-''"
proof -
  have "parseLoopbackPort (Some ''40123'') = Some 40123" "parseState (Some '' aZ_9- '') = Some ''aZ_9-''" by code_simp+
  note callback_is_loopback [OF this, of "''xpl_00''"]
  moreover have "dec_string 40123 = ''40123''" "form_encode ''xpl_00'' = ''xpl_00''" by code_simp+
  ultimately show ?thesis by simp
qed

end
