(* ===== verification/Spend_Unlock.thy ===== *)
theory Spend_Unlock
  imports Org_Access
begin

text \<open>
  The spend-unlock signal (\<open>lib/auth/spend-unlock.ts\<close>) and the sign-up gate
  (\<open>lib/auth/signup-gate.ts\<close>): which event opens an organization's credit for spending, and who
  may create an account. The two database functions \<open>unlock_founder_spend\<close> and
  \<open>unlock_org_spend\<close> with the credential rotation their trigger performs are statements on the
  tables (sessions, which the trigger also severs, are not part of the state).
\<close>

section \<open>The database functions\<close>

definition str_less :: "string \<Rightarrow> string \<Rightarrow> bool" where
  "str_less a b = ord_class.lexordp (map (of_char :: char \<Rightarrow> nat) a) (map of_char b)"

definition joined_before :: "member_row \<Rightarrow> member_row \<Rightarrow> bool" where
  "joined_before a b \<longleftrightarrow> m_created_at a < m_created_at b
     \<or> (m_created_at a = m_created_at b \<and> str_less (m_user a) (m_user b))"

definition earliest :: "member_row list \<Rightarrow> member_row option" where
  "earliest ms = foldl (\<lambda>acc m. case acc of None \<Rightarrow> Some m | Some a \<Rightarrow> Some (if joined_before m a then m else a)) None ms"

definition org_admins :: "string \<Rightarrow> db \<Rightarrow> member_row list" where
  "org_admins oid s = filter (\<lambda>m. m_org m = oid \<and> m_role m = ''admin'') (members s)"

definition founder :: "string \<Rightarrow> db \<Rightarrow> string option" where
  "founder oid s = map_option m_user (earliest (org_admins oid s))"

definition rotate_credentials :: "int \<Rightarrow> string \<Rightarrow> db \<Rightarrow> db" where
  "rotate_credentials now oid s =
     (case founder oid s of
        None \<Rightarrow> s
      | Some f \<Rightarrow>
          s\<lparr>api_keys := update_where
                (\<lambda>k. k_org k = oid \<and> k_revoked_at k = None \<and> k_created_by k \<noteq> f
                   \<and> list_ex (\<lambda>m. m_org m = oid \<and> m_user m = k_created_by k) (members s))
                (\<lambda>k. k\<lparr>k_revoked_at := Some now\<rparr>) (api_keys s),
            members := filter (\<lambda>m. m_org m \<noteq> oid \<or> m_user m = f) (members s)\<rparr>)"

definition mark_unlocked :: "int \<Rightarrow> string \<Rightarrow> db \<Rightarrow> db" where
  "mark_unlocked now oid s =
     s\<lparr>organizations := update_where (\<lambda>r. o_id r = oid) (\<lambda>r. r\<lparr>o_spend_unlocked_at := Some now\<rparr>) (organizations s)\<rparr>"

definition is_locked :: "string \<Rightarrow> db \<Rightarrow> bool" where
  "is_locked oid s = list_ex (\<lambda>r. o_id r = oid \<and> o_spend_unlocked_at r = None) (organizations s)"

definition unlock_org :: "int \<Rightarrow> string \<Rightarrow> db \<Rightarrow> db" where
  "unlock_org now oid s = (if is_locked oid s then rotate_credentials now oid (mark_unlocked now oid s) else s)"

definition founded_by :: "string \<Rightarrow> string \<Rightarrow> db \<Rightarrow> bool" where
  "founded_by uid oid s =
     list_ex (\<lambda>m. m_user m = uid \<and> list_all (\<lambda>a. m_created_at m \<le> m_created_at a) (org_admins oid s)) (org_admins oid s)"

definition unlock_org_spend :: "int \<Rightarrow> string \<Rightarrow> db \<Rightarrow> dberror + (unit \<times> db)" where
  "unlock_org_spend now oid s = Inr ((), unlock_org now oid s)"

definition unlock_founder_spend :: "int \<Rightarrow> string \<Rightarrow> db \<Rightarrow> dberror + (unit \<times> db)" where
  "unlock_founder_spend now uid s =
     Inr ((), foldl (\<lambda>t oid. unlock_org now oid t) s (filter (\<lambda>oid. founded_by uid oid s) (map o_id (organizations s))))"

section \<open>The unlock triggers\<close>

definition unlockSpendForUser :: "env \<Rightarrow> string \<Rightarrow> unit act" where
  "unlockSpendForUser E uid =
     catching (bind (call (faults E ''unlock_founder_spend'') (unlock_founder_spend (now_ms E) uid)) (\<lambda>_. ret ()))
       (\<lambda>_. ret ())"

datatype unlock_requirement = Email | Card

definition unlock_mode :: "string \<Rightarrow> unlock_requirement" where
  "unlock_mode v = (if v = ''card'' then Card else Email)"

definition spendUnlockRequirement :: "env \<Rightarrow> unlock_requirement act" where
  "spendUnlockRequirement E =
     catching
       (bind (query (faults E ''app_settings.spend_unlock_requirement'') app_settings) (\<lambda>r.
          case r of
            Inl _ \<Rightarrow> ret Email
          | Inr None \<Rightarrow> ret Email
          | Inr (Some row) \<Rightarrow> ret (unlock_mode (spend_unlock_requirement row))))
       (\<lambda>_. ret Email)"

definition unlockSpendForOrg :: "env \<Rightarrow> string \<Rightarrow> unit act" where
  "unlockSpendForOrg E oid =
     catching (bind (call (faults E ''unlock_org_spend'') (unlock_org_spend (now_ms E) oid)) (\<lambda>_. ret ()))
       (\<lambda>_. ret ())"

definition unlockSpendOnInboxProof :: "env \<Rightarrow> string \<Rightarrow> unit act" where
  "unlockSpendOnInboxProof E uid =
     bind (spendUnlockRequirement E) (\<lambda>m. if m \<noteq> Email then ret () else unlockSpendForUser E uid)"

definition unlockSpendOnCardSaved :: "env \<Rightarrow> string \<Rightarrow> unit act" where
  "unlockSpendOnCardSaved E oid =
     bind (spendUnlockRequirement E) (\<lambda>m. if m \<noteq> Card then ret () else unlockSpendForOrg E oid)"

definition isOrgSpendUnlocked :: "env \<Rightarrow> string \<Rightarrow> bool act" where
  "isOrgSpendUnlocked E oid =
     catching
       (bind (query (faults E ''organizations.spend_unlocked_at'') (\<lambda>s. first_where (\<lambda>r. o_id r = oid) (organizations s))) (\<lambda>r.
          case r of
            Inl _ \<Rightarrow> ret True
          | Inr None \<Rightarrow> ret True
          | Inr (Some row) \<Rightarrow> ret (o_spend_unlocked_at row \<noteq> None)))
       (\<lambda>_. ret True)"

section \<open>The sign-up gate\<close>

definition SIGNUP_DISABLED_MESSAGE :: string where
  "SIGNUP_DISABLED_MESSAGE = ''Account creation is currently disabled. Ask an administrator for an invite.''"

definition redeemable_invite :: "int \<Rightarrow> string \<Rightarrow> invite_row \<Rightarrow> bool" where
  "redeemable_invite now tok i \<longleftrightarrow> i_token i = tok \<and> i_accepted_at i = None \<and> i_revoked_at i = None \<and> now < i_expires_at i"

definition invited_signup :: "env \<Rightarrow> string option \<Rightarrow> bool act" where
  "invited_signup E inviteToken =
     (case inviteToken of
        None \<Rightarrow> ret False
      | Some tok \<Rightarrow>
          if tok = '''' then ret False
          else bind (query (faults E ''org_invitations.count'')
                       (\<lambda>s. length (filter (redeemable_invite (now_ms E) tok) (invitations s)))) (\<lambda>c.
               bind (orThrow ''Unable to check invites: '' c) (\<lambda>n. ret (0 < n))))"

definition isSignupAllowed :: "env \<Rightarrow> string \<Rightarrow> string option \<Rightarrow> bool act" where
  "isSignupAllowed E email inviteToken =
     bind (query (faults E ''app_settings.signups_enabled'') app_settings) (\<lambda>r.
     bind (orThrow ''Unable to read signup settings: '' r) (\<lambda>settings.
       if (case settings of None \<Rightarrow> False | Some row \<Rightarrow> signups_enabled row) then ret True
       else invited_signup E inviteToken))"

section \<open>Lemmas\<close>

lemma spendUnlockRequirement_eval:
  "spendUnlockRequirement E s =
     (Inr (case read_db (faults E ''app_settings.spend_unlock_requirement'') app_settings s of
             Inr (Some row) \<Rightarrow> unlock_mode (spend_unlock_requirement row) | _ \<Rightarrow> Email), s)"
  by (simp add: spendUnlockRequirement_def act_simps split: sum.split option.split)

lemma unlockSpendForOrg_keeps [keeps_intros]:
  "(\<And>s. P s \<Longrightarrow> P (unlock_org (now_ms E) oid s)) \<Longrightarrow> keeps P (unlockSpendForOrg E oid)"
  unfolding unlockSpendForOrg_def by (intro keeps_intros) (auto simp: unlock_org_spend_def)

lemma keeps_spendUnlockRequirement [keeps_intros]: "keeps P (spendUnlockRequirement E)"
  by (simp add: keeps_def spendUnlockRequirement_eval)

lemma keeps_unlockSpendOnCardSaved [keeps_intros]:
  "(\<And>s. P s \<Longrightarrow> P (unlock_org (now_ms E) oid s)) \<Longrightarrow> keeps P (unlockSpendOnCardSaved E oid)"
  unfolding unlockSpendOnCardSaved_def by (intro keeps_intros)

lemma unlockSpendOnCardSaved_returns [simp]: "fst (unlockSpendOnCardSaved E oid s) = Inr ()"
  by (simp add: unlockSpendOnCardSaved_def unlockSpendForOrg_def act_simps spendUnlockRequirement_eval)


lemma organizations_rotate [simp]: "organizations (rotate_credentials now oid s) = organizations s"
  by (simp add: rotate_credentials_def split: option.split)

lemma is_locked_rotate [simp]: "is_locked o' (rotate_credentials now oid s) = is_locked o' s"
  by (simp add: is_locked_def)

lemma mark_unlocked_other [simp]: "o' \<noteq> oid \<Longrightarrow> is_locked o' (mark_unlocked now oid s) = is_locked o' s"
  by (auto simp: is_locked_def mark_unlocked_def list_ex_iff set_update_where)

lemma mark_unlocked_self [simp]: "\<not> is_locked oid (mark_unlocked now oid s)"
  by (simp add: is_locked_def mark_unlocked_def list_ex_iff set_update_where ball_Un)

lemma mark_unlocked_sel [simp]:
  "members (mark_unlocked now oid s) = members s" "api_keys (mark_unlocked now oid s) = api_keys s"
  "founder o' (mark_unlocked now oid s) = founder o' s"
  by (simp_all add: mark_unlocked_def founder_def org_admins_def)

lemma unlock_org_other: "o' \<noteq> oid \<Longrightarrow> is_locked o' (unlock_org now oid s) = is_locked o' s"
  by (simp add: unlock_org_def)

lemma unlock_org_frame:
  "credit_ledger (unlock_org now oid s) = credit_ledger s"
  "recharge_settings (unlock_org now oid s) = recharge_settings s"
  "recharge_attempts (unlock_org now oid s) = recharge_attempts s"
  "stripe_charges (unlock_org now oid s) = stripe_charges s"
  "map o_id (organizations (unlock_org now oid s)) = map o_id (organizations s)"
  by (simp_all add: unlock_org_def rotate_credentials_def mark_unlocked_def map_update_where_key split: option.split)

lemma unlock_many_other:
  "o' \<notin> set ids \<Longrightarrow> is_locked o' (foldl (\<lambda>t oid. unlock_org now oid t) s ids) = is_locked o' s"
proof (induction ids arbitrary: s)
  case Nil
  then show ?case by simp
next
  case (Cons i ids)
  then have "o' \<noteq> i" and "o' \<notin> set ids" by auto
  then show ?case by (simp add: Cons.IH unlock_org_other)
qed

lemma unlock_founder_keeps_locked:
  assumes "is_locked oid s" and "\<not> founded_by uid oid s" and "unlock_founder_spend now uid s = Inr (a, t)"
  shows "is_locked oid t"
proof -
  have "oid \<notin> set (filter (\<lambda>oid. founded_by uid oid s) (map o_id (organizations s)))"
    using assms(2) by auto
  with assms(1,3) show ?thesis by (auto simp: unlock_founder_spend_def unlock_many_other)
qed

lemma unlockSpendForUser_state:
  "snd (unlockSpendForUser E uid s) = s
   \<or> (\<exists>a. unlock_founder_spend (now_ms E) uid s = Inr (a, snd (unlockSpendForUser E uid s)))"
  using exec_state_cases [of "faults E ''unlock_founder_spend''" "unlock_founder_spend (now_ms E) uid" s]
  by (auto simp: unlockSpendForUser_def act_simps split: sum.splits)

definition unlock_mode_of :: "env \<Rightarrow> db \<Rightarrow> unlock_requirement" where
  "unlock_mode_of E s =
     (case read_db (faults E ''app_settings.spend_unlock_requirement'') app_settings s of
        Inr (Some row) \<Rightarrow> unlock_mode (spend_unlock_requirement row) | _ \<Rightarrow> Email)"

lemma spendUnlockRequirement_mode: "spendUnlockRequirement E s = (Inr (unlock_mode_of E s), s)"
  by (simp add: unlock_mode_of_def spendUnlockRequirement_eval)

lemma unlockSpendOnCardSaved_card:
  "unlock_mode_of E s = Card \<Longrightarrow> faults E ''unlock_org_spend'' = None
   \<Longrightarrow> unlockSpendOnCardSaved E oid s = (Inr (), unlock_org (now_ms E) oid s)"
  by (simp add: unlockSpendOnCardSaved_def unlockSpendForOrg_def act_simps spendUnlockRequirement_mode
      unlock_org_spend_def)

lemma rotated_rows:
  fixes now :: int
  assumes "founder oid s = Some f"
  defines "t \<equiv> rotate_credentials now oid (mark_unlocked now oid s)"
  shows "\<not> is_locked oid t"
    and "members t = filter (\<lambda>m. m_org m \<noteq> oid \<or> m_user m = f) (members s)"
    and "filter (\<lambda>k. k_org k \<noteq> oid \<or> k_created_by k = f) (api_keys t)
      = filter (\<lambda>k. k_org k \<noteq> oid \<or> k_created_by k = f) (api_keys s)"
    and "\<forall>k\<in>set (api_keys t). \<forall>m\<in>set (members s).
      m_org m = oid \<and> k_org k = oid \<and> k_created_by k = m_user m \<and> m_user m \<noteq> f \<longrightarrow> k_revoked_at k \<noteq> None"
proof -
  show "\<not> is_locked oid t" unfolding t_def by (simp only: is_locked_rotate mark_unlocked_self not_False_eq_True)
  show "members t = filter (\<lambda>m. m_org m \<noteq> oid \<or> m_user m = f) (members s)"
    by (simp add: t_def rotate_credentials_def assms(1))
  show "filter (\<lambda>k. k_org k \<noteq> oid \<or> k_created_by k = f) (api_keys t)
      = filter (\<lambda>k. k_org k \<noteq> oid \<or> k_created_by k = f) (api_keys s)"
    unfolding t_def rotate_credentials_def
    by (simp add: assms(1) del: de_Morgan_disj) (rule filter_update_where, auto)
  show "\<forall>k\<in>set (api_keys t). \<forall>m\<in>set (members s).
      m_org m = oid \<and> k_org k = oid \<and> k_created_by k = m_user m \<and> m_user m \<noteq> f \<longrightarrow> k_revoked_at k \<noteq> None"
    by (auto simp: t_def assms(1) rotate_credentials_def set_update_where list_ex_iff)
qed

lemma invited_signup_eval:
  assumes "invited_signup E tok s = (Inr allowed, t)"
  shows "t = s \<and> (allowed \<longleftrightarrow> (\<exists>x i. tok = Some x \<and> x \<noteq> '''' \<and> i \<in> set (invitations s) \<and> redeemable_invite (now_ms E) x i))"
proof (cases "tok = None \<or> tok = Some ''''")
  case True
  with assms show ?thesis by (auto simp: invited_signup_def)
next
  case False
  then obtain x where x: "tok = Some x" "x \<noteq> ''''" by auto
  have "bind (query (faults E ''org_invitations.count'')
      (\<lambda>s. length (filter (redeemable_invite (now_ms E) x) (invitations s)))) (\<lambda>c.
      bind (orThrow ''Unable to check invites: '' c) (\<lambda>n. ret (0 < n))) s = (Inr allowed, t)"
    using assms x by (simp add: invited_signup_def)
  then have "t = s \<and> allowed = (0 < length (filter (redeemable_invite (now_ms E) x) (invitations s)))"
    by (auto elim!: bind_InrE orThrow_InrE dest!: read_db_InrD)
  then show ?thesis using x by (auto simp: filter_empty_conv)
qed

section \<open>Properties\<close>

text \<open>
  Only the founding admin opens the credit gate with an inbox proof: an account that is not
  the earliest-joined admin of a locked organization (a later-invited admin, a plain member, an
  outsider) leaves it locked, whatever the unlock mode and however the database fails.
\<close>

theorem inbox_proof_unlocks_only_for_the_founder:
  assumes "is_locked oid s" and "\<not> founded_by uid oid s"
  shows "is_locked oid (snd (unlockSpendOnInboxProof E uid s))"
  using assms unlockSpendForUser_state [of E uid s] unlock_founder_keeps_locked [OF assms]
  by (auto simp: unlockSpendOnInboxProof_def act_simps spendUnlockRequirement_eval)

definition later_admin_db :: db where
  "later_admin_db = sample_db\<lparr>members := [\<lparr>m_org = ''o1'', m_user = ''u1'', m_role = ''admin'', m_created_at = 1\<rparr>,
     \<lparr>m_org = ''o1'', m_user = ''u2'', m_role = ''admin'', m_created_at = 2\<rparr>]\<rparr>"

theorem inbox_proof_unlocks_only_for_the_founder_witness:
  "is_locked ''o1'' (snd (unlockSpendOnInboxProof sample_env ''u2'' later_admin_db))
   \<and> \<not> is_locked ''o1'' (snd (unlockSpendOnInboxProof sample_env ''u1'' later_admin_db))"
proof
  show "is_locked ''o1'' (snd (unlockSpendOnInboxProof sample_env ''u2'' later_admin_db))"
    by (rule inbox_proof_unlocks_only_for_the_founder) code_simp+
qed code_simp

text \<open>
  Saving a card opens the gate only in card mode (the default, an unreadable setting and an
  unknown value all mean e-mail), and opening it is a reclaim: of the organization's memberships
  exactly the founder's stays, every unrevoked key a member other than the founder minted for it
  is revoked, and the founder's keys and every other organization's rows are untouched.
\<close>

theorem card_unlock_reclaims_the_organization:
  assumes "founder oid s = Some f" and "is_locked oid s"
    and "faults E ''unlock_org_spend'' = None"
  defines "t \<equiv> snd (unlockSpendOnCardSaved E oid s)"
  shows "if faults E ''app_settings.spend_unlock_requirement'' = None
            \<and> map_option spend_unlock_requirement (app_settings s) = Some ''card''
         then \<not> is_locked oid t
            \<and> members t = filter (\<lambda>m. m_org m \<noteq> oid \<or> m_user m = f) (members s)
            \<and> filter (\<lambda>k. k_org k \<noteq> oid \<or> k_created_by k = f) (api_keys t)
                = filter (\<lambda>k. k_org k \<noteq> oid \<or> k_created_by k = f) (api_keys s)
            \<and> (\<forall>k\<in>set (api_keys t). \<forall>m\<in>set (members s).
                 m_org m = oid \<and> k_org k = oid \<and> k_created_by k = m_user m \<and> m_user m \<noteq> f \<longrightarrow> k_revoked_at k \<noteq> None)
         else t = s"
proof (cases "faults E ''app_settings.spend_unlock_requirement'' = None
    \<and> map_option spend_unlock_requirement (app_settings s) = Some ''card''")
  case True
  then have "unlock_mode_of E s = Card" by (auto simp: unlock_mode_of_def unlock_mode_def)
  then have "t = rotate_credentials (now_ms E) oid (mark_unlocked (now_ms E) oid s)"
    using assms by (simp add: t_def unlock_org_def unlockSpendOnCardSaved_card)
  with rotated_rows [OF assms(1), of "now_ms E"] show ?thesis
    unfolding if_P [OF True] by (intro conjI) (simp_all only: not_False_eq_True)
next
  case False
  then have "unlock_mode_of E s = Email"
    by (auto simp: unlock_mode_of_def unlock_mode_def read_db_def split: option.splits fault.splits)
  with False show ?thesis by (auto simp: t_def unlockSpendOnCardSaved_def act_simps spendUnlockRequirement_mode)
qed

theorem card_unlock_reclaims_the_organization_witness:
  "let s = later_admin_db\<lparr>app_settings := Some \<lparr>signups_enabled = True, spend_unlock_requirement = ''card'', welcome_grant_micro_usd = 20000000\<rparr>\<rparr> in
   map m_user (members (snd (unlockSpendOnCardSaved sample_env ''o1'' s))) = [''u1'']"
proof -
  let ?s = "later_admin_db\<lparr>app_settings := Some \<lparr>signups_enabled = True, spend_unlock_requirement = ''card'', welcome_grant_micro_usd = 20000000\<rparr>\<rparr>"
  have f: "founder ''o1'' ?s = Some ''u1''" and l: "is_locked ''o1'' ?s" by code_simp+
  have "members (snd (unlockSpendOnCardSaved sample_env ''o1'' ?s))
      = filter (\<lambda>m. m_org m \<noteq> ''o1'' \<or> m_user m = ''u1'') (members ?s)"
    using card_unlock_reclaims_the_organization [OF f l, of sample_env] by (simp add: sample_env_def)
  then show ?thesis by (simp add: later_admin_db_def)
qed

text \<open>
  The sign-up gate opens for exactly two reasons: when it answers, the answer is yes if and only
  if the platform flag is on or the request carries the non-empty token of an invitation that is
  neither accepted, revoked nor expired. The e-mail address plays no part.
\<close>

theorem isSignupAllowed_iff:
  assumes "isSignupAllowed E email tok s = (Inr allowed, t)"
  shows "t = s \<and> (allowed \<longleftrightarrow>
     (\<exists>row. app_settings s = Some row \<and> signups_enabled row)
     \<or> (\<exists>x i. tok = Some x \<and> x \<noteq> '''' \<and> i \<in> set (invitations s) \<and> redeemable_invite (now_ms E) x i))"
proof -
  let ?on = "\<exists>row. app_settings s = Some row \<and> signups_enabled row"
  have "(if ?on then ret True else invited_signup E tok) s = (Inr allowed, t)"
  proof -
    obtain r where r: "r = read_db (faults E ''app_settings.signups_enabled'') app_settings s"
      and b: "bind (orThrow ''Unable to read signup settings: '' r) (\<lambda>settings.
        if (case settings of None \<Rightarrow> False | Some row \<Rightarrow> signups_enabled row) then ret True
        else invited_signup E tok) s = (Inr allowed, t)"
      using assms unfolding isSignupAllowed_def bind_apply [of "query _ _"] by simp
    from b obtain x where x: "r = Inr x" and c: "(if (case x of None \<Rightarrow> False | Some row \<Rightarrow> signups_enabled row)
        then ret True else invited_signup E tok) s = (Inr allowed, t)"
      by (auto elim!: bind_InrE orThrow_InrE)
    have "x = app_settings s" using x r by (metis read_db_InrD)
    with c show ?thesis by (cases "app_settings s") auto
  qed
  then show ?thesis using invited_signup_eval [of E tok s allowed t] by (cases ?on) auto
qed

theorem isSignupAllowed_iff_witness:
  "fst (isSignupAllowed sample_env ''eve@other.test'' (Some ''guess'') sample_db) = Inr False
   \<and> \<not> (\<exists>i \<in> set (invitations sample_db). redeemable_invite 1000000 ''guess'' i)"
proof -
  have e: "isSignupAllowed sample_env ''eve@other.test'' (Some ''guess'') sample_db = (Inr False, sample_db)"
    by (rule prod_eqI) code_simp+
  show ?thesis using isSignupAllowed_iff [OF e] e by (auto simp: sample_env_def)
qed

end
