(* ===== verification/Blind_Actions.thy ===== *)
theory Blind_Actions
  imports Members
begin

text \<open>
  Non-interference for handlers. \<open>blind f m\<close>: the action \<open>m\<close> answers the same on \<open>f s\<close> as on \<open>s\<close>
  and its effect commutes with \<open>f\<close>, so what \<open>f\<close> erases from the state never reaches the caller.
  The locale \<open>gate_blind\<close> states what \<open>f\<close> must leave alone for the access gates of
  \<open>lib/auth\<close> to be blind to it, and proves them blind once.
\<close>

named_theorems blind_intros \<open>rules for \<open>blind\<close>\<close>

definition blind :: "(db \<Rightarrow> db) \<Rightarrow> 'a act \<Rightarrow> bool" where
  "blind f m \<longleftrightarrow> (\<forall>s. m (f s) = (fst (m s), f (snd (m s))))"

lemma blindD: "blind f m \<Longrightarrow> m (f s) = (fst (m s), f (snd (m s)))"
  by (simp add: blind_def)

lemma blind_response: "blind f m \<Longrightarrow> response m (f s) = response m s"
  by (simp add: response_def blindD)

lemma blind_ret [blind_intros]: "blind f (ret x)"
  by (simp add: blind_def)

lemma blind_throw [blind_intros]: "blind f (throw e)"
  by (simp add: blind_def)

lemma blind_query [blind_intros]: "(\<And>s. q (f s) = q s) \<Longrightarrow> blind f (query flt q)"
  by (simp add: blind_def read_db_def split: option.split fault.split)

lemma blind_orThrow [blind_intros]: "blind f (orThrow p r)"
  by (auto simp: orThrow_def blind_def split: sum.split)

lemma blind_bind [blind_intros]: "blind f m \<Longrightarrow> (\<And>x. blind f (g x)) \<Longrightarrow> blind f (bind m g)"
  by (auto simp: blind_def bind_apply split: prod.split sum.split)

lemma blind_catching [blind_intros]: "blind f m \<Longrightarrow> (\<And>e. blind f (h e)) \<Longrightarrow> blind f (catching m h)"
  by (auto simp: blind_def catching_apply split: prod.split sum.split)

lemma blind_handler [blind_intros]: "blind f m \<Longrightarrow> blind f (handler m)"
  unfolding handler_def by (intro blind_intros)

lemma blind_if [blind_intros]: "blind f m \<Longrightarrow> blind f n \<Longrightarrow> blind f (if b then m else n)"
  by simp

lemma blind_case_option [blind_intros]:
  "blind f m \<Longrightarrow> (\<And>x. blind f (g x)) \<Longrightarrow> blind f (case v of None \<Rightarrow> m | Some x \<Rightarrow> g x)"
  by (simp split: option.split)

lemma blind_case_sum [blind_intros]:
  "(\<And>e. blind f (g e)) \<Longrightarrow> (\<And>x. blind f (h x)) \<Longrightarrow> blind f (case v of Inl e \<Rightarrow> g e | Inr x \<Rightarrow> h x)"
  by (simp split: sum.split)

lemma blind_case_prod [blind_intros]:
  "(\<And>a b. blind f (g a b)) \<Longrightarrow> blind f (case v of (a, b) \<Rightarrow> g a b)"
  by (simp split: prod.split)

lemma blind_modify: "(\<And>s. g (f s) = f (g s)) \<Longrightarrow> blind f (modify g)"
  by (simp add: blind_def)

lemma blind_call:
  assumes "\<And>s. stmt (f s) = map_sum id (apsnd f) (stmt s)"
  shows "blind f (call flt stmt)"
  using assms
  by (auto simp: blind_def call_apply exec_def split: option.split fault.split sum.split prod.split)

lemma blind_get_state:
  assumes "\<And>s. fst (g (f s) (f s)) = fst (g s s) \<and> snd (g (f s) (f s)) = f (snd (g s s))"
  shows "blind f (bind get_state g)"
  using assms by (auto simp: blind_def bind_apply prod_eq_iff)

locale gate_blind =
  fixes f :: "db \<Rightarrow> db"
  assumes tables [simp]: "organizations (f s) = organizations s" "members (f s) = members s"
      "platform_admins (f s) = platform_admins s" "sso_orgs (f s) = sso_orgs s" "sso_cache (f s) = sso_cache s"
    and cache: "f (s\<lparr>sso_cache := c\<rparr>) = (f s)\<lparr>sso_cache := c\<rparr>"
    and trail: "f (s\<lparr>audit_log := audit_log s @ [r]\<rparr>) = (f s)\<lparr>audit_log := audit_log (f s) @ [r]\<rparr>"
begin

lemma blind_requireAuthenticatedUser: "blind f (requireAuthenticatedUser e)"
  unfolding requireAuthenticatedUser_def by (intro blind_intros)

lemma blind_isPlatformAdmin: "blind f (isPlatformAdmin e)"
  unfolding isPlatformAdmin_def is_admin_user_def by (intro blind_intros) simp

lemma blind_listAuthorizedOrgIds: "blind f (listAuthorizedOrgIds e)"
proof -
  have "member_orgs (f s) uid = member_orgs s uid" for s uid
    unfolding member_orgs_def tables ..
  then show ?thesis
    unfolding listAuthorizedOrgIds_def listMembershipOrgIds_def
    by (intro blind_intros blind_isPlatformAdmin blind_requireAuthenticatedUser; simp)
qed

lemma blind_getMembershipRole: "blind f (getMembershipRole e uid oid)"
  unfolding getMembershipRole_def by (intro blind_intros) simp

lemma blind_getOrgSsoRequired: "blind f (getOrgSsoRequired e oid)"
proof -
  have "blind f (if b then ret v else bind (query flt (org_sso_required oid)) (\<lambda>r. case r of Inl err \<Rightarrow> ret w
      | Inr v \<Rightarrow> bind (modify (\<lambda>s. s\<lparr>sso_cache := map_set oid (x v) (sso_cache s)\<rparr>)) (\<lambda>_. ret v)))" for b v w flt x
    by (intro blind_intros blind_modify) (simp_all add: cache org_sso_required_def)
  then show ?thesis
    unfolding getOrgSsoRequired_def Let_def by (intro blind_get_state) (simp add: blindD)
qed

lemma blind_requireRole: "blind f (requireRole e uid oid ident)"
  unfolding requireRole_def
  by (intro blind_intros blind_getMembershipRole) (auto split: org_access_role.split intro: blind_intros)

lemma blind_requireOrgAccess: "blind f (requireOrgAccess e ident r)"
  unfolding requireOrgAccess_def requireSso_def
  by (intro blind_intros blind_requireAuthenticatedUser blind_listAuthorizedOrgIds blind_isPlatformAdmin
      blind_requireRole blind_getOrgSsoRequired)

lemma blind_requireOrg: "blind f (requireOrg e listOrgs ident)"
  unfolding requireOrg_def requireOrgId_def getOrgCached_def lift_result_def
  by (intro blind_intros blind_requireOrgAccess)

lemma blind_isOrgAdmin: "blind f (isOrgAdmin e oid)"
  unfolding isOrgAdmin_def delegatedRoleCheck_def
  by (intro blind_intros blind_requireOrgAccess) (auto split: app_error.split intro: blind_intros)

lemma blind_recordAuditEvent: "blind f (recordAuditEvent e evt)"
  unfolding recordAuditEvent_def by (intro blind_intros blind_call) (simp add: trail)

lemmas gates = blind_requireAuthenticatedUser blind_requireOrg blind_isPlatformAdmin blind_isOrgAdmin
  blind_recordAuditEvent

end

end
