(* ===== verification/Billing.thy ===== *)
theory Billing
  imports Spend_Unlock Blind_Actions
begin

text \<open>
  Money that comes in, the request side: the amount parsers (\<open>lib/billing/stripe.ts\<close>,
  \<open>lib/billing/constants.ts\<close>), the launch-grant reader (\<open>lib/billing/launch-grant.ts\<close>), the
  auto-recharge settings (\<open>app/api/orgs/[orgId]/auto-recharge/route.ts\<close>) and the checkout route
  (\<open>app/api/orgs/[orgId]/billing/checkout/route.ts\<close>). Stripe itself is the argument \<open>create\<close>.
\<close>

section \<open>Constants and amounts\<close>

definition TOPUP_PURPOSE :: string where "TOPUP_PURPOSE = ''platform-credit-topup''"
definition AUTORECHARGE_PURPOSE :: string where "AUTORECHARGE_PURPOSE = ''platform-credit-autorecharge''"
definition MIN_TOPUP_USD :: jsnum where "MIN_TOPUP_USD = js_int 5"
definition MAX_TOPUP_USD :: jsnum where "MAX_TOPUP_USD = js_int 10000"
definition DEFAULT_AUTORECHARGE_AMOUNT_USD :: jsnum where "DEFAULT_AUTORECHARGE_AMOUNT_USD = js_int 5"
definition DEFAULT_AUTORECHARGE_THRESHOLD_USD :: jsnum where "DEFAULT_AUTORECHARGE_THRESHOLD_USD = js_int 10"
definition MIN_AUTORECHARGE_THRESHOLD_USD :: jsnum where "MIN_AUTORECHARGE_THRESHOLD_USD = js_int 0"
definition MAX_AUTORECHARGE_THRESHOLD_USD :: jsnum where "MAX_AUTORECHARGE_THRESHOLD_USD = js_int 10000"

lemmas billing_constants = MIN_TOPUP_USD_def MAX_TOPUP_USD_def DEFAULT_AUTORECHARGE_AMOUNT_USD_def
  DEFAULT_AUTORECHARGE_THRESHOLD_USD_def MIN_AUTORECHARGE_THRESHOLD_USD_def MAX_AUTORECHARGE_THRESHOLD_USD_def

definition cents_of :: "jsnum \<Rightarrow> jsnum" where
  "cents_of n = js_round (js_mult n (js_int 100))"

definition sub_cent :: "jsnum \<Rightarrow> bool" where
  "sub_cent n = js_lt (js_lit (1 / 1000000)) (js_abs (js_sub (cents_of n) (js_mult n (js_int 100))))"

definition parseTopupAmountUsd :: "json option \<Rightarrow> string + jsnum" where
  "parseTopupAmountUsd v =
     (case v of
        Some (JNum n) \<Rightarrow>
          if \<not> js_is_finite n then Inl ''amount_usd must be a number.''
          else if sub_cent n then Inl ''amount_usd must be a whole number of cents.''
          else if js_lt n MIN_TOPUP_USD \<or> js_lt MAX_TOPUP_USD n
               then Inl (''amount_usd must be between $'' @ js_String MIN_TOPUP_USD @ '' and $'' @ toLocaleFixed 0 MAX_TOPUP_USD @ ''.'')
          else Inr (js_div (cents_of n) (js_int 100))
      | _ \<Rightarrow> Inl ''amount_usd must be a number.'')"

definition parseAutoRechargeThresholdUsd :: "json option \<Rightarrow> string + jsnum" where
  "parseAutoRechargeThresholdUsd v =
     (case v of
        Some (JNum n) \<Rightarrow>
          if \<not> js_is_finite n then Inl ''threshold_usd must be a number.''
          else if sub_cent n then Inl ''threshold_usd must be a whole number of cents.''
          else if js_lt n MIN_AUTORECHARGE_THRESHOLD_USD \<or> js_lt MAX_AUTORECHARGE_THRESHOLD_USD n
               then Inl (''threshold_usd must be between $'' @ js_String MIN_AUTORECHARGE_THRESHOLD_USD
                         @ '' and $'' @ toLocaleFixed 0 MAX_AUTORECHARGE_THRESHOLD_USD @ ''.'')
          else Inr (js_div (cents_of n) (js_int 100))
      | _ \<Rightarrow> Inl ''threshold_usd must be a number.'')"

section \<open>The launch grant\<close>

definition launch_sources :: "string list" where
  "launch_sources = [''signup_promo'', ''yc_launch'']"

definition launch_amount :: "jsnum \<Rightarrow> ledger_row \<Rightarrow> jsnum" where
  "launch_amount acc row =
     (if \<not> js_is_finite (l_amount_usd row) then acc
      else if l_entry_type row = ''grant'' then js_add acc (l_amount_usd row)
      else if l_entry_type row = ''adjustment''
           \<and> (case l_source_ref row of None \<Rightarrow> False | Some r \<Rightarrow> startsWith r ''promo-reversal:'')
           then js_add acc (l_amount_usd row)
      else acc)"

definition launch_rows :: "string \<Rightarrow> db \<Rightarrow> ledger_row list" where
  "launch_rows oid s = filter (\<lambda>r. l_org r = oid \<and> List.member launch_sources (l_source r)) (credit_ledger s)"

definition readLaunchGrantUsd :: "env \<Rightarrow> string \<Rightarrow> jsnum option act" where
  "readLaunchGrantUsd E oid =
     bind (query (faults E ''credit_ledger.select'') (launch_rows oid)) (\<lambda>r.
       case r of Inl _ \<Rightarrow> ret None | Inr rows \<Rightarrow> ret (Some (foldl launch_amount (js_int 0) rows)))"

section \<open>Auto-recharge settings\<close>

definition check_violation :: dberror where
  "check_violation = \<lparr>code = Some ''23514'', message = ''new row violates check constraint''\<rparr>"

definition foreign_key_violation :: dberror where
  "foreign_key_violation = \<lparr>code = Some ''23503'', message = ''violates foreign key constraint''\<rparr>"

definition org_exists :: "string \<Rightarrow> db \<Rightarrow> bool" where
  "org_exists oid s = list_ex (\<lambda>r. o_id r = oid) (organizations s)"

definition settings_ok :: "settings_row \<Rightarrow> bool" where
  "settings_ok r \<longleftrightarrow> js_le (js_int 0) (s_threshold_usd r)
     \<and> js_le (js_int 5) (s_amount_usd r) \<and> js_le (s_amount_usd r) (js_int 10000)"

definition default_settings :: "string \<Rightarrow> settings_row" where
  "default_settings oid = \<lparr>s_org = oid, s_enabled = True, s_threshold_usd = js_int 10, s_amount_usd = js_int 5,
     s_customer_id = None, s_payment_method_id = None, s_notify_email = None, s_last_recharge_at = None,
     s_consecutive_failures = 0, s_last_failure_at = None, s_last_failure_message = None\<rparr>"

definition settings_of :: "string \<Rightarrow> db \<Rightarrow> settings_row option" where
  "settings_of oid s = first_where (\<lambda>r. s_org r = oid) (recharge_settings s)"

definition upsert_settings :: "string \<Rightarrow> (settings_row \<Rightarrow> settings_row) \<Rightarrow> db \<Rightarrow> dberror + (settings_row \<times> db)" where
  "upsert_settings oid f s =
     (case settings_of oid s of
        Some r \<Rightarrow>
          if \<not> settings_ok (f r) then Inl check_violation
          else Inr (f r, s\<lparr>recharge_settings := update_where (\<lambda>r. s_org r = oid) f (recharge_settings s)\<rparr>)
      | None \<Rightarrow>
          let r = f (default_settings oid) in
          if \<not> settings_ok r then Inl check_violation
          else if \<not> org_exists oid s then Inl foreign_key_violation
          else Inr (r, s\<lparr>recharge_settings := recharge_settings s @ [r]\<rparr>))"

record auto_recharge_settings =
  dto_enabled :: bool
  dto_threshold_usd :: jsnum
  dto_amount_usd :: jsnum
  dto_has_payment_method :: bool
  dto_last_recharge_at :: "int option"
  dto_consecutive_failures :: int
  dto_last_failure_message :: "string option"

definition toDto :: "settings_row option \<Rightarrow> auto_recharge_settings" where
  "toDto row =
     (case row of
        None \<Rightarrow>
          \<lparr>dto_enabled = True, dto_threshold_usd = DEFAULT_AUTORECHARGE_THRESHOLD_USD,
           dto_amount_usd = DEFAULT_AUTORECHARGE_AMOUNT_USD, dto_has_payment_method = False,
           dto_last_recharge_at = None, dto_consecutive_failures = 0, dto_last_failure_message = None\<rparr>
      | Some r \<Rightarrow>
          \<lparr>dto_enabled = s_enabled r, dto_threshold_usd = s_threshold_usd r, dto_amount_usd = s_amount_usd r,
           dto_has_payment_method = (s_payment_method_id r \<noteq> None), dto_last_recharge_at = s_last_recharge_at r,
           dto_consecutive_failures = s_consecutive_failures r,
           dto_last_failure_message = s_last_failure_message r\<rparr>)"

definition dto_json :: "auto_recharge_settings \<Rightarrow> json" where
  "dto_json d = JObj [(''enabled'', JBool (dto_enabled d)), (''thresholdUsd'', JNum (dto_threshold_usd d)),
     (''amountUsd'', JNum (dto_amount_usd d)), (''hasPaymentMethod'', JBool (dto_has_payment_method d)),
     (''lastRechargeAt'', jopt (\<lambda>t. JNum (js_int t)) (dto_last_recharge_at d)),
     (''consecutiveFailures'', JNum (js_int (dto_consecutive_failures d))),
     (''lastFailureMessage'', jopt JStr (dto_last_failure_message d))]"

definition authorize :: "env \<Rightarrow> app_error + org list \<Rightarrow> string \<Rightarrow> manager option act" where
  "authorize E listOrgs orgId =
     bind (requireAuthenticatedUser E) (\<lambda>user.
     bind (requireOrg E listOrgs orgId) (\<lambda>org.
     bind (isPlatformAdmin E) (\<lambda>platformAdmin.
     bind (if platformAdmin then ret True else isOrgAdmin E (org_id org)) (\<lambda>canManage.
     ret (if canManage then Some \<lparr>mg_org = org_id org, mg_actor = usr_id user, mg_platform_admin = platformAdmin\<rparr>
          else None)))))"

definition read_settings :: "env \<Rightarrow> string \<Rightarrow> resp act" where
  "read_settings E oid =
     bind (query (faults E ''org_auto_recharge_settings.select'') (settings_of oid)) (\<lambda>r.
     case r of
       Inl _ \<Rightarrow> ret (error_resp ''Unable to read auto-recharge settings.'' 500)
     | Inr row \<Rightarrow> ret (json_resp (dto_json (toDto row)) 200))"

definition auto_recharge_GET :: "env \<Rightarrow> app_error + org list \<Rightarrow> string \<Rightarrow> resp act" where
  "auto_recharge_GET E listOrgs orgId = handler (
     bind (authorize E listOrgs orgId) (\<lambda>gate.
     case gate of
       None \<Rightarrow> ret (error_resp ''Not found'' 404)
     | Some g \<Rightarrow>
         read_settings E (mg_org g)))"

record settings_update =
  up_enabled :: "bool option"
  up_amount_usd :: "jsnum option"
  up_threshold_usd :: "jsnum option"

definition parse_optional :: "(json option \<Rightarrow> string + 'a) \<Rightarrow> json option \<Rightarrow> string + 'a option" where
  "parse_optional parse v =
     (case v of None \<Rightarrow> Inr None | Some x \<Rightarrow> (case parse (Some x) of Inl e \<Rightarrow> Inl e | Inr a \<Rightarrow> Inr (Some a)))"

definition parse_enabled :: "json option \<Rightarrow> string + bool" where
  "parse_enabled v = (case v of Some (JBool b) \<Rightarrow> Inr b | _ \<Rightarrow> Inl ''enabled must be a boolean.'')"

definition parse_settings_update :: "json \<Rightarrow> string + settings_update" where
  "parse_settings_update b =
     (case parse_optional parse_enabled (jget ''enabled'' b) of
        Inl e \<Rightarrow> Inl e
      | Inr en \<Rightarrow>
          (case parse_optional parseTopupAmountUsd (jget ''amount_usd'' b) of
             Inl e \<Rightarrow> Inl e
           | Inr am \<Rightarrow>
               (case parse_optional parseAutoRechargeThresholdUsd (jget ''threshold_usd'' b) of
                  Inl e \<Rightarrow> Inl e
                | Inr th \<Rightarrow> Inr \<lparr>up_enabled = en, up_amount_usd = am, up_threshold_usd = th\<rparr>)))"

definition apply_settings_update :: "settings_update \<Rightarrow> settings_row \<Rightarrow> settings_row" where
  "apply_settings_update u r =
     r\<lparr>s_enabled := (case up_enabled u of None \<Rightarrow> s_enabled r | Some b \<Rightarrow> b),
       s_amount_usd := (case up_amount_usd u of None \<Rightarrow> s_amount_usd r | Some a \<Rightarrow> a),
       s_threshold_usd := (case up_threshold_usd u of None \<Rightarrow> s_threshold_usd r | Some t \<Rightarrow> t),
       s_consecutive_failures := 0, s_last_failure_at := None, s_last_failure_message := None\<rparr>"

definition save_settings :: "env \<Rightarrow> manager \<Rightarrow> settings_update \<Rightarrow> resp act" where
  "save_settings E g u =
     bind (call (faults E ''org_auto_recharge_settings.upsert'')
             (upsert_settings (mg_org g) (apply_settings_update u))) (\<lambda>r.
     case r of
       Inl _ \<Rightarrow> ret (error_resp ''Unable to save auto-recharge settings.'' 500)
     | Inr row \<Rightarrow>
         (let dto = toDto (Some row) in
          bind (recordAuditEvent E
             \<lparr>ev_org = Some (mg_org g), ev_actor_kind = actor_kind (mg_platform_admin g),
              ev_actor_id = Some (mg_actor g), ev_action = ''billing.auto_recharge_set'',
              ev_object_type = ''organization'', ev_object_id = mg_org g, ev_before = None,
              ev_after = Some (JObj [(''enabled'', JBool (dto_enabled dto)),
                (''thresholdUsd'', JNum (dto_threshold_usd dto)), (''amountUsd'', JNum (dto_amount_usd dto))]), ev_context = None\<rparr>) (\<lambda>_.
          ret (json_resp (dto_json dto) 200))))"

definition auto_recharge_PATCH :: "env \<Rightarrow> app_error + org list \<Rightarrow> string \<Rightarrow> json \<Rightarrow> resp act" where
  "auto_recharge_PATCH E listOrgs orgId request = handler (
     bind (authorize E listOrgs orgId) (\<lambda>gate.
     case gate of
       None \<Rightarrow> ret (error_resp ''Not found'' 404)
     | Some g \<Rightarrow>
         (case parse_settings_update request of
            Inl msg \<Rightarrow> ret (error_resp msg 400)
          | Inr u \<Rightarrow>
              save_settings E g u)))"

section \<open>Checkout\<close>

record checkout_request =
  cq_unit_amount :: jsnum
  cq_description :: string
  cq_save_card :: bool
  cq_client_reference_id :: string
  cq_metadata :: "(string, string) jsmap"
  cq_success_url :: string
  cq_cancel_url :: string

datatype checkout_outcome =
    Not_configured
  | Stripe_refused
  | Session "string option"

definition creditsPath :: string where "creditsPath = ''/credits''"

definition recharge_choice :: "json option \<Rightarrow> string + (jsnum \<times> jsnum) option" where
  "recharge_choice consent =
     (if (case consent of None \<Rightarrow> None | Some c \<Rightarrow> jget ''enabled'' c) \<noteq> Some (JBool True) then Inr None
      else (case parse_optional parseTopupAmountUsd (case consent of None \<Rightarrow> None | Some c \<Rightarrow> jget ''amount_usd'' c) of
              Inl e \<Rightarrow> Inl e
            | Inr am \<Rightarrow>
                (case parse_optional parseAutoRechargeThresholdUsd
                        (case consent of None \<Rightarrow> None | Some c \<Rightarrow> jget ''threshold_usd'' c) of
                   Inl e \<Rightarrow> Inl e
                 | Inr th \<Rightarrow> Inr (Some (case am of None \<Rightarrow> DEFAULT_AUTORECHARGE_AMOUNT_USD | Some a \<Rightarrow> a,
                                      case th of None \<Rightarrow> DEFAULT_AUTORECHARGE_THRESHOLD_USD | Some t \<Rightarrow> t)))))"

definition session_params :: "string \<Rightarrow> org \<Rightarrow> string \<Rightarrow> jsnum \<Rightarrow> (jsnum \<times> jsnum) option \<Rightarrow> checkout_request" where
  "session_params origin org uid amount recharge =
     \<lparr>cq_unit_amount = cents_of amount,
      cq_description = ''$'' @ toFixed 2 amount @ '' of prepaid serving and optimization credit for '' @ org_name org,
      cq_save_card = (recharge \<noteq> None),
      cq_client_reference_id = org_id org,
      cq_metadata = [(''purpose'', TOPUP_PURPOSE), (''org_id'', org_id org), (''requested_by'', uid),
          (''autorecharge'', if recharge \<noteq> None then ''on'' else ''off'')]
        @ (case recharge of None \<Rightarrow> []
           | Some (am, th) \<Rightarrow> [(''autorecharge_threshold_usd'', js_String th), (''autorecharge_amount_usd'', js_String am)]),
      cq_success_url = origin @ creditsPath @ ''?topup=success'',
      cq_cancel_url = origin @ creditsPath @ ''?topup=cancelled''\<rparr>"

definition checkout_result :: "checkout_outcome \<Rightarrow> resp" where
  "checkout_result out =
     (case out of
        Not_configured \<Rightarrow> error_resp ''Billing is not configured on this deployment.'' 503
      | Stripe_refused \<Rightarrow> error_resp ''The payment provider refused the request.'' 502
      | Session url \<Rightarrow>
          (case url of
             None \<Rightarrow> error_resp ''Stripe did not return a checkout URL.'' 502
           | Some u \<Rightarrow> if u = '''' then error_resp ''Stripe did not return a checkout URL.'' 502
                       else json_resp (JObj [(''url'', JStr u)]) 200))"

definition plan_checkout :: "env \<Rightarrow> app_error + org list \<Rightarrow> string \<Rightarrow> string \<Rightarrow> json \<Rightarrow> (resp + checkout_request) act" where
  "plan_checkout E listOrgs origin orgId request =
     bind (requireAuthenticatedUser E) (\<lambda>user.
     bind (requireOrg E listOrgs orgId) (\<lambda>org.
     bind (isPlatformAdmin E) (\<lambda>platformAdmin.
     bind (if platformAdmin then ret True else isOrgAdmin E (org_id org)) (\<lambda>canManage.
     if \<not> canManage then ret (Inl (error_resp ''Not found'' 404))
     else (case parseTopupAmountUsd (jget ''amount_usd'' request) of
             Inl msg \<Rightarrow> ret (Inl (error_resp msg 400))
           | Inr amount \<Rightarrow>
               (case recharge_choice (jget ''auto_recharge'' request) of
                  Inl msg \<Rightarrow> ret (Inl (error_resp msg 400))
                | Inr recharge \<Rightarrow> ret (Inr (session_params origin org (usr_id user) amount recharge))))))))"

definition checkout_POST :: "env \<Rightarrow> app_error + org list \<Rightarrow> (checkout_request \<Rightarrow> checkout_outcome) \<Rightarrow> string \<Rightarrow> string \<Rightarrow> json \<Rightarrow> resp act" where
  "checkout_POST E listOrgs create origin orgId request = handler (
     bind (plan_checkout E listOrgs origin orgId request) (\<lambda>p.
     case p of Inl r \<Rightarrow> ret r | Inr q \<Rightarrow> ret (checkout_result (create q))))"


section \<open>Lemmas on amounts\<close>

lemma rat_le_power: "c \<le> 10 ^ k \<Longrightarrow> (of_int c :: rat) \<le> 10 ^ k"
  by (metis of_int_le_iff of_int_numeral of_int_power)

lemma dollars_near:
  assumes "1 \<le> c" and "c \<le> 10 ^ 9"
  shows "ordinary (fl (of_int c / 100) * 100)" and "\<bar>fl (of_int c / 100) * 100 - of_int c\<bar> \<le> of_int c / 2 ^ 53"
proof -
  let ?t = "of_int c :: rat"
  have t: "1 \<le> ?t" "?t \<le> 10 ^ 9" using assms rat_le_power by simp_all
  have e1: "\<bar>fl (?t / 100) - ?t / 100\<bar> \<le> ?t / 100 / 2 ^ 53"
    by (rule fl_error_ordinary) (use t in \<open>simp add: ordinary_def\<close>)
  then show e2: "\<bar>fl (?t / 100) * 100 - ?t\<bar> \<le> ?t / 2 ^ 53" unfolding abs_le_iff by linarith
  have "?t / 2 ^ 53 \<le> ?t / 2" using t by (intro divide_left_mono) auto
  with e2 have b: "?t / 2 \<le> fl (?t / 100) * 100" "fl (?t / 100) * 100 \<le> 2 * ?t" unfolding abs_le_iff using t by linarith+
  have k: "(1 :: rat) / 10 ^ 9 \<le> 1 / 2" "(2 :: rat) * 10 ^ 9 \<le> 10 ^ 30" by simp_all
  have "1 / 2 \<le> fl (?t / 100) * 100" "fl (?t / 100) * 100 \<le> 2 * 10 ^ 9" using b t by linarith+
  then have "1 / 10 ^ 9 \<le> fl (?t / 100) * 100" "fl (?t / 100) * 100 \<le> 10 ^ 30" using k by (metis order_trans)+
  then show "ordinary (fl (?t / 100) * 100)" unfolding ordinary_def by blast
qed

lemma cents_value_near:
  assumes "1 \<le> c" and "c \<le> 10 ^ 9"
  shows "\<bar>fl (fl (of_int c / 100) * 100) - of_int c\<bar> \<le> of_int c / 2 ^ 51"
  using dollars_near [OF assms] fl_error_ordinary assms by (intro rel_error_compose) auto

lemma dollars_of_cents:
  assumes "0 \<le> c" and "c \<le> 10 ^ 9"
  shows "js_div (js_int c) (js_int 100) = Fin False (fl (of_int c / 100))"
proof -
  have "(of_int c :: rat) / 100 \<le> 10 ^ 9" using rat_le_power [OF assms(2)] assms(1) by simp
  also have "(10 :: rat) ^ 9 \<le> 10 ^ 30" by simp
  finally have "num_round False (of_int c / 100 :: rat) = Fin False (fl (of_int c / 100))" by (rule num_round_ordinary)
  then show ?thesis using assms(1) by (simp add: js_int_def)
qed

lemma cents_product:
  assumes "1 \<le> c" and "c \<le> 10 ^ 9"
  shows "js_mult (Fin False (fl (of_int c / 100))) (js_int 100) = Fin False (fl (fl (of_int c / 100) * 100))"
  using dollars_near(1) [OF assms] by (simp add: js_int_def num_round_ordinary ordinary_def)

lemma charge_roundtrip:
  assumes "0 \<le> c" and "c \<le> 10 ^ 9"
  shows "cents_of (js_div (js_int c) (js_int 100)) = js_int c"
proof (cases "c = 0")
  case True
  show ?thesis unfolding True by code_simp
next
  case False
  then have c: "1 \<le> c" using assms(1) by simp
  have "(of_int c :: rat) / 2 ^ 51 < 1 / 2" using rat_le_power [OF assms(2)] by simp
  with cents_value_near [OF c assms(2)] have "\<lfloor>fl (fl (of_int c / 100) * 100) + 1 / 2\<rfloor> = c"
    by (intro floor_nearest) linarith
  then show ?thesis
    unfolding cents_of_def dollars_of_cents [OF assms] cents_product [OF c assms(2)] using c by (simp add: js_int_def)
qed

lemma whole_cents_pass:
  assumes "1 \<le> c" and "c \<le> 10 ^ 7"
  shows "\<not> sub_cent (Fin False (fl (of_int c / 100)))"
proof -
  let ?p = "fl (fl (of_int c / 100) * 100)" and ?v = "of_int c - fl (fl (of_int c / 100) * 100) :: rat"
  have c9: "c \<le> 10 ^ 9" using assms(2) by simp
  have eq: "cents_of (Fin False (fl (of_int c / 100))) = Fin False (of_int c)"
    using charge_roundtrip [OF _ c9] assms(1) unfolding dollars_of_cents [OF order_trans [OF zero_le_one assms(1)] c9]
    by (simp add: js_int_def)
  have "(of_int c :: rat) / 2 ^ 51 \<le> 1 / 1000000" using rat_le_power [OF assms(2)] by simp
  with cents_value_near [OF assms(1) c9] have v: "\<bar>?v\<bar> \<le> 1 / 1000000" by linarith
  then have "fl \<bar>?v\<bar> \<le> fl (1 / 1000000)" by (rule fl_mono)
  moreover have "js_sub (Fin False (of_int c)) (Fin False ?p) = (if ?v = 0 then Fin False 0 else js_lit ?v)"
    by (simp add: js_sub_def)
  moreover have "js_abs (js_lit ?v) = Fin False (fl \<bar>?v\<bar>)"
    using v by (auto simp: js_lit_def num_round_ordinary)
  ultimately show ?thesis
    unfolding sub_cent_def eq cents_product [OF assms(1) c9]
    by (auto simp: js_lit_ordinary not_less)
qed

lemma cents_of_range:
  assumes "of_int l \<le> m" and "m \<le> of_int h" and "0 \<le> l" and "l \<le> h" and "h \<le> 10 ^ 7"
  shows "\<exists>c. cents_of (Fin False m) = js_int c \<and> 100 * l \<le> c \<and> c \<le> 100 * h"
proof -
  let ?v = "fl (m * 100)"
  have h: "(of_int h :: rat) \<le> 10 ^ 7" by (rule rat_le_power [OF assms(5)])
  have "fl (of_int (100 * l)) \<le> ?v" "?v \<le> fl (of_int (100 * h))"
    using assms(1,2) by (intro fl_mono; simp)+
  then have v: "of_int (100 * l) \<le> ?v" "?v \<le> of_int (100 * h)"
    using fl_of_int [of "100 * l"] fl_of_int [of "100 * h"] assms(3-5) by auto
  have "m * 100 \<le> 10 ^ 9" using assms(2) h by simp
  also have "(10 :: rat) ^ 9 \<le> 10 ^ 30" by simp
  finally have m: "js_mult (Fin False m) (js_int 100) = Fin False ?v"
    by (simp add: js_int_def num_round_ordinary)
  let ?c = "\<lfloor>?v + 1 / 2\<rfloor>"
  have c: "100 * l \<le> ?c" "?c \<le> 100 * h" using v by linarith+
  then have "0 \<le> ?c" using assms(3) by linarith
  then have "js_int ?c = Fin False (of_int ?c)" unfolding js_int_def by (simp only: not_less [symmetric]) simp
  then have "cents_of (Fin False m) = js_int ?c" by (simp only: cents_of_def m js_round.simps)
  with c show ?thesis by blast
qed

definition json_number_wf :: "json option \<Rightarrow> bool" where
  "json_number_wf v \<longleftrightarrow> (\<forall>s m. v = Some (JNum (Fin s m)) \<longrightarrow> 0 \<le> m)"

lemma parseTopup_InrD:
  assumes "parseTopupAmountUsd v = Inr a"
  obtains n where "v = Some (JNum n)" and "js_is_finite n" and "\<not> js_lt n (js_int 5)" and "\<not> js_lt (js_int 10000) n"
    and "a = js_div (cents_of n) (js_int 100)"
  using assms by (auto simp: parseTopupAmountUsd_def billing_constants split: option.splits json.splits if_splits)

lemma parseTopup_cents:
  assumes "parseTopupAmountUsd v = Inr a" and "json_number_wf v"
  obtains c n where "500 \<le> c" and "c \<le> 1000000" and "a = js_div (js_int c) (js_int 100)"
    and "v = Some (JNum n)" and "cents_of n = js_int c" and "cents_of a = js_int c"
proof -
  obtain n where n: "v = Some (JNum n)" "js_is_finite n" "\<not> js_lt n (js_int 5)" "\<not> js_lt (js_int 10000) n"
    "a = js_div (cents_of n) (js_int 100)"
    by (rule parseTopup_InrD [OF assms(1)])
  obtain s m where sm: "n = Fin s m" "0 \<le> m" using n(1,2) assms(2) by (cases n) (auto simp: json_number_wf_def)
  have "5 \<le> jsval n" "jsval n \<le> 10000" using n(3,4) by (simp_all add: sm js_int_def not_less)
  then have m: "\<not> s" "5 \<le> m" "m \<le> 10000" using sm by (auto split: if_splits)
  then obtain c where c: "cents_of n = js_int c" "500 \<le> c" "c \<le> 1000000"
    using cents_of_range [of 5 m 10000] by (auto simp: sm)
  moreover have "cents_of a = js_int c" unfolding n(5) c(1) using c by (intro charge_roundtrip) auto
  ultimately show thesis using that n by simp
qed


lemma parseTopup_whole_cents:
  assumes "500 \<le> c" and "c \<le> 1000000"
  shows "parseTopupAmountUsd (Some (JNum (js_div (js_int c) (js_int 100)))) = Inr (js_div (js_int c) (js_int 100))"
proof -
  have c: "0 \<le> c" "c \<le> 10 ^ 9" "1 \<le> c" "c \<le> 10 ^ 7" using assms by simp_all
  let ?m = "fl (of_int c / 100)"
  note eq = dollars_of_cents [OF c(1,2)]
  have "(5 :: rat) \<le> of_int c / 100" "of_int c / 100 \<le> (10000 :: rat)" using assms by simp_all
  then have "fl 5 \<le> ?m" "?m \<le> fl 10000" by (simp_all only: fl_mono)
  then have "5 \<le> ?m" "?m \<le> 10000" using fl_of_int [of 5] fl_of_int [of 10000] by simp_all
  then have "\<not> js_lt (Fin False ?m) (js_int 5)" "\<not> js_lt (js_int 10000) (Fin False ?m)" by (simp_all add: js_int_def)
  moreover have "cents_of (Fin False ?m) = js_int c" using charge_roundtrip [OF c(1,2)] unfolding eq .
  moreover note whole_cents_pass [OF c(3,4)]
  ultimately show ?thesis unfolding eq parseTopupAmountUsd_def by (simp add: billing_constants eq)
qed


section \<open>The Stripe handles stay behind the settings API\<close>

definition mask_handles :: "settings_row \<Rightarrow> settings_row" where
  "mask_handles r = r\<lparr>s_customer_id := map_option (\<lambda>_. ''masked'') (s_customer_id r),
     s_payment_method_id := map_option (\<lambda>_. ''masked'') (s_payment_method_id r)\<rparr>"

definition hide_handles :: "db \<Rightarrow> db" where
  "hide_handles s = s\<lparr>recharge_settings := map mask_handles (recharge_settings s)\<rparr>"

interpretation handles: gate_blind hide_handles
  by unfold_locales (simp_all add: hide_handles_def)

lemma mask_handles_sel [simp]:
  "s_org (mask_handles r) = s_org r" "s_threshold_usd (mask_handles r) = s_threshold_usd r"
  "s_amount_usd (mask_handles r) = s_amount_usd r"
  by (simp_all add: mask_handles_def)

lemma settings_ok_mask [simp]: "settings_ok (mask_handles r) = settings_ok r"
  by (simp add: settings_ok_def)

lemma find_map_key: "(\<And>x. P (g x) = P x) \<Longrightarrow> first_where P (map g xs) = map_option g (first_where P xs)"
  by (induction xs) (auto simp: first_where_def)

lemma settings_of_hide [simp]: "settings_of oid (hide_handles s) = map_option mask_handles (settings_of oid s)"
  by (simp add: settings_of_def hide_handles_def find_map_key)

lemma toDto_mask [simp]: "toDto (map_option mask_handles row) = toDto row"
  by (cases row) (simp_all add: toDto_def mask_handles_def)

lemma apply_update_mask [simp]: "apply_settings_update u (mask_handles r) = mask_handles (apply_settings_update u r)"
  by (simp add: apply_settings_update_def mask_handles_def split: option.split)

lemma mask_default [simp]: "mask_handles (default_settings oid) = default_settings oid"
  by (simp add: mask_handles_def default_settings_def)

lemma upsert_settings_hide:
  assumes "\<And>r. f (mask_handles r) = mask_handles (f r)"
  shows "upsert_settings oid f (hide_handles s) = map_sum id (map_prod mask_handles hide_handles) (upsert_settings oid f s)"
proof (cases "settings_of oid s")
  case None
  have "f (default_settings oid) = mask_handles (f (default_settings oid))"
    using assms [of "default_settings oid"] by simp
  with None show ?thesis
    by (simp add: upsert_settings_def Let_def org_exists_def) (simp add: hide_handles_def)
next
  case (Some r)
  have "update_where (\<lambda>r. s_org r = oid) f (map mask_handles xs)
      = map mask_handles (update_where (\<lambda>r. s_org r = oid) f xs)" for xs
    by (simp add: update_where_def assms)
  with Some assms show ?thesis by (simp add: upsert_settings_def) (simp add: hide_handles_def)
qed

lemma blind_authorize: "blind hide_handles (authorize E listOrgs ident)"
  unfolding authorize_def by (intro blind_intros handles.gates)

lemma blind_settings_GET: "blind hide_handles (auto_recharge_GET E listOrgs ident)"
proof -
  have "blind hide_handles (read_settings E oid)" for oid
    by (auto simp: read_settings_def blind_def bind_apply read_db_def split: option.split fault.split)
  then show ?thesis
    unfolding auto_recharge_GET_def by (intro blind_intros blind_authorize)
qed

lemma blind_save_settings: "blind hide_handles (save_settings E g u)"
proof -
  let ?stmt = "upsert_settings (mg_org g) (apply_settings_update u)"
  let ?k = "\<lambda>row. let dto = toDto (Some row) in
          bind (recordAuditEvent E
             \<lparr>ev_org = Some (mg_org g), ev_actor_kind = actor_kind (mg_platform_admin g),
              ev_actor_id = Some (mg_actor g), ev_action = ''billing.auto_recharge_set'',
              ev_object_type = ''organization'', ev_object_id = mg_org g, ev_before = None,
              ev_after = Some (JObj [(''enabled'', JBool (dto_enabled dto)),
                (''thresholdUsd'', JNum (dto_threshold_usd dto)), (''amountUsd'', JNum (dto_amount_usd dto))]), ev_context = None\<rparr>) (\<lambda>_.
          ret (json_resp (dto_json dto) 200))"
  have k: "?k (mask_handles row) = ?k row" for row
    using toDto_mask [of "Some row"] by simp
  have b: "blind hide_handles (?k row)" for row
    unfolding Let_def by (intro blind_intros handles.gates)
  have "fst (exec flt ?stmt (hide_handles s)) = map_sum id mask_handles (fst (exec flt ?stmt s))
      \<and> snd (exec flt ?stmt (hide_handles s)) = hide_handles (snd (exec flt ?stmt s))" for flt s
    by (auto simp: exec_def upsert_settings_hide split: option.split fault.split sum.split prod.split)
  then show ?thesis
    unfolding save_settings_def
    by (auto simp: blind_def bind_apply call_apply k blindD [OF b] split: sum.split)
qed

lemma blind_settings_PATCH: "blind hide_handles (auto_recharge_PATCH E listOrgs ident req)"
  unfolding auto_recharge_PATCH_def
  by (intro blind_intros blind_authorize blind_save_settings)


section \<open>Who may touch the billing of an organization\<close>

definition slugs_are_not_ids :: "db \<Rightarrow> bool" where
  "slugs_are_not_ids s \<longleftrightarrow> (\<forall>a\<in>set (organizations s). \<forall>b\<in>set (organizations s). o_slug a \<noteq> o_id b)"

definition backend_agrees :: "app_error + org list \<Rightarrow> db \<Rightarrow> bool" where
  "backend_agrees listOrgs s \<longleftrightarrow> (\<forall>os. listOrgs = Inr os \<longrightarrow> (\<forall>org\<in>set os. org_exists (org_id org) s))"

lemma requireOrg_InrE:
  assumes "requireOrg E listOrgs ident s = (Inr org, t)"
  obtains os where "listOrgs = Inr os" and "org \<in> set os" and "same_tables s t"
  using assms keepsD [OF keeps_requireOrg [of "same_tables s" E listOrgs ident], of s]
  unfolding requireOrg_def getOrgCached_def lift_result_def
  by (auto elim!: bind_InrE simp: same_tables_def dest!: first_where_SomeD split: sum.splits option.splits)

lemma manager_check:
  assumes "isPlatformAdmin E u = (Inr padm, v)" and "getAuthenticatedUser E = Some user"
    and "(if padm then ret True else isOrgAdmin E oid) v = (Inr True, t)"
    and "slugs_are_not_ids u" and "org_exists oid u"
  shows "authorized_for u E oid Admin \<and> same_tables u t"
proof -
  have v: "v = u" using isPlatformAdmin_state [OF assms(1)] .
  show ?thesis
  proof (cases padm)
    case True
    then have "is_admin_user u (usr_id user)" using assms(1,2) by (auto elim: isPlatformAdmin_InrE)
    then show ?thesis using assms(2,3) True v by (simp add: authorized_for_def)
  next
    case False
    then have a: "isOrgAdmin E oid u = (Inr True, t)" using assms(3) v by simp
    then obtain org where org: "org \<in> set (organizations u)" "oid = o_id org \<or> oid = o_slug org"
      "authorized_for u E (o_id org) Admin"
      using isOrgAdmin_True by blast
    obtain row where "row \<in> set (organizations u)" "o_id row = oid"
      using assms(5) by (auto simp: org_exists_def list_ex_iff)
    then have "oid = o_id org" using org assms(4) by (metis slugs_are_not_ids_def)
    then show ?thesis using org(3) isOrgAdmin_same_tables [of u E oid] a by simp
  qed
qed

lemma same_tables_organizations: "same_tables s u \<Longrightarrow> organizations u = organizations s"
proof -
  assume "same_tables s u"
  then have "organizations (s\<lparr>sso_cache := []\<rparr>) = organizations (u\<lparr>sso_cache := []\<rparr>)"
    unfolding same_tables_def by (rule arg_cong)
  then show ?thesis by simp
qed

lemma authorize_SomeE:
  assumes "authorize E listOrgs ident s = (Inr (Some g), t)"
    and "slugs_are_not_ids s" and "backend_agrees listOrgs s"
  obtains u where "same_tables s u" and "authorized_for u E (mg_org g) Admin" and "same_tables s t"
proof -
  from assms(1) obtain user org u v padm ok w where user: "getAuthenticatedUser E = Some user"
    and org: "requireOrg E listOrgs ident s = (Inr org, u)"
    and adm: "isPlatformAdmin E u = (Inr padm, v)"
    and chk: "(if padm then ret True else isOrgAdmin E (org_id org)) v = (Inr ok, w)"
    and out: "ret (if ok then Some \<lparr>mg_org = org_id org, mg_actor = usr_id user, mg_platform_admin = padm\<rparr> else None) w
      = (Inr (Some g), t)"
    unfolding authorize_def by (elim bind_InrE requireAuthenticatedUser_InrE) blast
  from out have ok: "(if padm then ret True else isOrgAdmin E (org_id org)) v = (Inr True, t)"
    and g: "mg_org g = org_id org" using chk by (auto split: if_splits)
  obtain os where os: "listOrgs = Inr os" "org \<in> set os" "same_tables s u" by (rule requireOrg_InrE [OF org])
  have o: "organizations u = organizations s" by (rule same_tables_organizations [OF os(3)])
  have "authorized_for u E (org_id org) Admin \<and> same_tables u t"
    using manager_check [OF adm user ok] assms(2,3) os o
    by (simp add: slugs_are_not_ids_def backend_agrees_def org_exists_def)
  then show thesis using that os(3) g same_tables_trans by metis
qed


lemma plan_checkout_InrE:
  assumes "plan_checkout E listOrgs origin ident req s = (Inr (Inr q), t)"
  obtains user org u v padm amount recharge where "getAuthenticatedUser E = Some user"
    and "requireOrg E listOrgs ident s = (Inr org, u)" and "isPlatformAdmin E u = (Inr padm, v)"
    and "(if padm then ret True else isOrgAdmin E (org_id org)) v = (Inr True, t)"
    and "parseTopupAmountUsd (jget ''amount_usd'' req) = Inr amount"
    and "q = session_params origin org (usr_id user) amount recharge"
proof -
  from assms obtain user org u padm v ok w where a: "getAuthenticatedUser E = Some user"
    "requireOrg E listOrgs ident s = (Inr org, u)" "isPlatformAdmin E u = (Inr padm, v)"
    "(if padm then ret True else isOrgAdmin E (org_id org)) v = (Inr ok, w)"
    and r: "(if \<not> ok then ret (Inl (error_resp ''Not found'' 404))
     else (case parseTopupAmountUsd (jget ''amount_usd'' req) of
             Inl msg \<Rightarrow> ret (Inl (error_resp msg 400))
           | Inr amount \<Rightarrow>
               (case recharge_choice (jget ''auto_recharge'' req) of
                  Inl msg \<Rightarrow> ret (Inl (error_resp msg 400))
                | Inr recharge \<Rightarrow> ret (Inr (session_params origin org (usr_id user) amount recharge))))) w = (Inr (Inr q), t)"
    unfolding plan_checkout_def by (elim bind_InrE requireAuthenticatedUser_InrE) blast
  from r obtain amount recharge where ok: "ok" "w = t" and am: "parseTopupAmountUsd (jget ''amount_usd'' req) = Inr amount"
    and q: "q = session_params origin org (usr_id user) amount recharge"
    by (auto split: if_splits sum.splits)
  have "(if padm then ret True else isOrgAdmin E (org_id org)) v = (Inr True, t)" using a(4) ok by simp
  from that [OF a(1-3) this am q] show thesis .
qed

lemma save_settings_rows:
  assumes "t = snd (save_settings E g u s)"
  shows "recharge_settings t = recharge_settings s
    \<or> (\<exists>r. upsert_settings (mg_org g) (apply_settings_update u) s = Inr (r, s\<lparr>recharge_settings := recharge_settings t\<rparr>))"
proof -
  let ?stmt = "upsert_settings (mg_org g) (apply_settings_update u)"
  let ?I = "\<lambda>x. recharge_settings x = recharge_settings s \<or> (\<exists>r. ?stmt s = Inr (r, s\<lparr>recharge_settings := recharge_settings x\<rparr>))"
  have step: "?I w" if "?stmt s = Inr (r, w)" for r w
    using that by (auto simp: upsert_settings_def Let_def split: option.splits if_splits)
  have "keeps ?I (case r of Inl x \<Rightarrow> ret y | Inr row \<Rightarrow> (let dto = toDto (Some row) in
      bind (recordAuditEvent E (evt dto)) (\<lambda>_. ret (z dto))))" for r y evt z
    unfolding Let_def by (intro keeps_intros) auto
  then show ?thesis
    unfolding assms save_settings_def using step by (intro bind_call_reaches [where P = ?I]) auto
qed

definition cards_of :: "string \<Rightarrow> db \<Rightarrow> (string option \<times> string option) set" where
  "cards_of oid s = (\<lambda>r. (s_customer_id r, s_payment_method_id r)) ` {r \<in> set (recharge_settings s). s_org r = oid}"

lemma saved_rows:
  assumes "upsert_settings oid (apply_settings_update u) s = Inr (r, t)"
  shows "filter (\<lambda>r. s_org r \<noteq> oid) (recharge_settings t) = filter (\<lambda>r. s_org r \<noteq> oid) (recharge_settings s)
    \<and> (\<exists>r\<in>set (recharge_settings t). s_org r = oid \<and> settings_ok r)
    \<and> (\<forall>r\<in>set (recharge_settings t). s_org r = oid \<longrightarrow> s_consecutive_failures r = 0 \<and> s_last_failure_at r = None
         \<and> (s_customer_id r, s_payment_method_id r) \<in> insert (None, None) (cards_of oid s))"
proof -
  have sel: "s_org (apply_settings_update u y) = s_org y" "s_consecutive_failures (apply_settings_update u y) = 0"
    "s_last_failure_at (apply_settings_update u y) = None" "s_customer_id (apply_settings_update u y) = s_customer_id y"
    "s_payment_method_id (apply_settings_update u y) = s_payment_method_id y" for y
    by (simp_all add: apply_settings_update_def)
  have dsel: "s_org (default_settings oid) = oid" "s_customer_id (default_settings oid) = None"
    "s_payment_method_id (default_settings oid) = None"
    by (simp_all add: default_settings_def)
  show ?thesis
  proof (cases "settings_of oid s")
    case None
    then have "\<forall>x\<in>set (recharge_settings s). s_org x \<noteq> oid" by (simp add: settings_of_def)
    moreover have "recharge_settings t = recharge_settings s @ [apply_settings_update u (default_settings oid)]
        \<and> settings_ok (apply_settings_update u (default_settings oid))"
      using None assms by (auto simp: upsert_settings_def Let_def split: if_splits)
    ultimately show ?thesis by (simp add: sel dsel)
  next
    case (Some x)
    then have t: "recharge_settings t = update_where (\<lambda>r. s_org r = oid) (apply_settings_update u) (recharge_settings s)"
      using assms by (auto simp: upsert_settings_def split: if_splits)
    have f: "filter (\<lambda>r. s_org r \<noteq> oid) (recharge_settings t) = filter (\<lambda>r. s_org r \<noteq> oid) (recharge_settings s)"
      unfolding t by (rule filter_update_where) (simp add: sel)
    have "s_consecutive_failures r = 0 \<and> s_last_failure_at r = None
         \<and> (s_customer_id r, s_payment_method_id r) \<in> cards_of oid s"
      if "r \<in> set (recharge_settings t)" "s_org r = oid" for r
    proof -
      from that obtain y where "y \<in> set (recharge_settings s)" "s_org y = oid" "r = apply_settings_update u y"
        unfolding t set_update_where by (auto simp: sel split: if_splits)
      then show ?thesis unfolding cards_of_def by (simp add: sel image_iff) blast
    qed
    moreover have "x \<in> set (recharge_settings s)" and x: "s_org x = oid"
      using Some unfolding settings_of_def by (auto dest: first_where_SomeD)
    then have "apply_settings_update u x \<in> set (recharge_settings t)"
      unfolding t set_update_where by force
    moreover have "settings_ok (apply_settings_update u x)"
      using assms Some by (auto simp: upsert_settings_def split: if_splits)
    ultimately show ?thesis using f x sel by blast
  qed
qed

lemma keeps_authorize:
  "(\<And>s c. P s \<Longrightarrow> P (s\<lparr>sso_cache := c\<rparr>)) \<Longrightarrow> keeps P (authorize E listOrgs ident)"
  unfolding authorize_def by (intro keeps_intros) auto

lemma patch_reaches_save:
  assumes "t = snd (auto_recharge_PATCH E listOrgs ident req s)" and "recharge_settings t \<noteq> recharge_settings s"
  obtains g v u where "authorize E listOrgs ident s = (Inr (Some g), v)"
    and "recharge_settings t = recharge_settings (snd (save_settings E g u v))"
    and "recharge_settings v = recharge_settings s"
proof -
  obtain r v where rv: "authorize E listOrgs ident s = (r, v)" by (cases "authorize E listOrgs ident s")
  have v: "recharge_settings v = recharge_settings s"
    using keepsD [OF keeps_authorize [of "\<lambda>x. recharge_settings x = recharge_settings s" E listOrgs ident], of s] rv by simp
  show thesis
  proof (cases "\<exists>g u. r = Inr (Some g) \<and> parse_settings_update req = Inr u")
    case True
    then obtain g u where gu: "r = Inr (Some g)" "parse_settings_update req = Inr u" by blast
    then have "t = snd (save_settings E g u v)"
      using assms(1) rv by (simp add: auto_recharge_PATCH_def bind_apply)
    with gu rv v that show thesis by simp
  next
    case False
    then have "t = v" using assms(1) rv
      by (auto simp: auto_recharge_PATCH_def bind_apply split: sum.splits option.splits)
    with v assms(2) show thesis by simp
  qed
qed

section \<open>Properties\<close>

text \<open>
  The top-up amount loses no cent between the form, the card and the ledger: every dollar
  amount of 500 to 1,000,000 whole cents is accepted as it is, and whatever is accepted is the
  double nearest to such a number of cents, for which the charge \<open>Math.round (amount * 100)\<close>
  gives back exactly those cents.
\<close>

theorem topup_amounts_are_whole_cents:
  shows "(\<forall>c. 500 \<le> c \<and> c \<le> 1000000 \<longrightarrow>
      parseTopupAmountUsd (Some (JNum (js_div (js_int c) (js_int 100)))) = Inr (js_div (js_int c) (js_int 100)))
    \<and> (\<forall>v a. parseTopupAmountUsd v = Inr a \<and> json_number_wf v \<longrightarrow>
      (\<exists>c. 500 \<le> c \<and> c \<le> 1000000 \<and> a = js_div (js_int c) (js_int 100) \<and> cents_of a = js_int c))"
  using parseTopup_whole_cents parseTopup_cents by blast

theorem topup_amounts_are_whole_cents_witness:
  "parseTopupAmountUsd (Some (JNum (js_div (js_int 1999) (js_int 100)))) = Inr (js_div (js_int 1999) (js_int 100))
   \<and> (\<exists>c. cents_of (js_div (js_int 1999) (js_int 100)) = js_int c \<and> 500 \<le> c)"
proof -
  let ?x = "js_div (js_int 1999) (js_int 100)"
  have e: "parseTopupAmountUsd (Some (JNum ?x)) = Inr ?x"
    using topup_amounts_are_whole_cents by simp
  moreover have "json_number_wf (Some (JNum ?x))" by (simp add: dollars_of_cents json_number_wf_def)
  ultimately show ?thesis using topup_amounts_are_whole_cents by blast
qed

text \<open>
  A payment is only started for the caller's own organization and for what was asked: when the
  route builds a Stripe session, the session's organization (the one the webhook will credit) is
  one the verified user may administer, the charge is a whole number of cents within the bounds,
  and the database has not changed. The backend's list is taken to name stored organizations.
\<close>

theorem checkout_is_for_a_managed_organization:
  assumes "plan_checkout E listOrgs origin ident req s = (Inr (Inr q), t)"
    and "slugs_are_not_ids s" and "backend_agrees listOrgs s" and "json_number_wf (jget ''amount_usd'' req)"
  shows "same_tables s t
    \<and> (\<exists>u. same_tables s u \<and> authorized_for u E (cq_client_reference_id q) Admin)
    \<and> map_get (cq_metadata q) ''org_id'' = Some (cq_client_reference_id q)
    \<and> map_get (cq_metadata q) ''purpose'' = Some TOPUP_PURPOSE
    \<and> (\<exists>c. cq_unit_amount q = js_int c \<and> 500 \<le> c \<and> c \<le> 1000000
          \<and> parseTopupAmountUsd (jget ''amount_usd'' req) = Inr (js_div (js_int c) (js_int 100)))"
proof -
  obtain user org u v padm amount recharge where user: "getAuthenticatedUser E = Some user"
    and org: "requireOrg E listOrgs ident s = (Inr org, u)" and adm: "isPlatformAdmin E u = (Inr padm, v)"
    and ok: "(if padm then ret True else isOrgAdmin E (org_id org)) v = (Inr True, t)"
    and am: "parseTopupAmountUsd (jget ''amount_usd'' req) = Inr amount"
    and q: "q = session_params origin org (usr_id user) amount recharge"
    by (rule plan_checkout_InrE [OF assms(1)])
  obtain os where os: "listOrgs = Inr os" "org \<in> set os" "same_tables s u" by (rule requireOrg_InrE [OF org])
  have "authorized_for u E (org_id org) Admin \<and> same_tables u t"
    using manager_check [OF adm user ok] assms(2,3) os same_tables_organizations [OF os(3)]
    by (simp add: slugs_are_not_ids_def backend_agrees_def org_exists_def)
  moreover obtain c where "500 \<le> c" "c \<le> 1000000" "amount = js_div (js_int c) (js_int 100)" "cents_of amount = js_int c"
    by (rule parseTopup_cents [OF am assms(4)])
  ultimately show ?thesis
    using os(3) am same_tables_trans by (auto simp: q session_params_def)
qed

definition sample_orgs :: "app_error + org list" where
  "sample_orgs = Inr [\<lparr>org_id = ''o1'', org_slug = ''acme'', org_name = ''Acme'', sso_required = False\<rparr>]"

definition sample_topup :: json where
  "sample_topup = JObj [(''amount_usd'', JNum (js_int 25))]"

theorem checkout_is_for_a_managed_organization_witness:
  "\<exists>q t. plan_checkout sample_env sample_orgs ''https://x.test'' ''acme'' sample_topup sample_db = (Inr (Inr q), t)
     \<and> cq_client_reference_id q = ''o1'' \<and> (\<exists>u. same_tables sample_db u \<and> authorized_for u sample_env ''o1'' Admin)"
proof -
  let ?p = "plan_checkout sample_env sample_orgs ''https://x.test'' ''acme'' sample_topup sample_db"
  have "case fst ?p of Inr (Inr q) \<Rightarrow> cq_client_reference_id q = ''o1'' | _ \<Rightarrow> False" by code_simp
  then obtain q where q: "?p = (Inr (Inr q), snd ?p)" "cq_client_reference_id q = ''o1''"
    by (cases ?p) (auto split: sum.splits)
  have "slugs_are_not_ids sample_db" and "backend_agrees sample_orgs sample_db"
    by (simp_all add: slugs_are_not_ids_def backend_agrees_def sample_db_def empty_db_def sample_orgs_def org_exists_def)
  moreover have "json_number_wf (jget ''amount_usd'' sample_topup)"
    by (simp add: json_number_wf_def sample_topup_def js_int_def)
  ultimately show ?thesis
    using checkout_is_for_a_managed_organization [OF q(1)] q by auto
qed

text \<open>
  The Stripe customer and payment-method ids never cross the settings API: reading or saving
  the settings answers the same on every two databases that differ only in those ids (not in
  whether a card is saved), whatever else the request does and however the database fails.
\<close>

theorem settings_api_hides_the_card:
  assumes "hide_handles s = hide_handles t"
  shows "response (auto_recharge_GET E listOrgs ident) s = response (auto_recharge_GET E listOrgs ident) t
    \<and> response (auto_recharge_PATCH E listOrgs ident req) s = response (auto_recharge_PATCH E listOrgs ident req) t"
  using blind_response [OF blind_settings_GET, of E listOrgs ident s]
    blind_response [OF blind_settings_GET, of E listOrgs ident t]
    blind_response [OF blind_settings_PATCH, of E listOrgs ident req s]
    blind_response [OF blind_settings_PATCH, of E listOrgs ident req t] assms
  by simp

definition carded_db :: "string \<Rightarrow> db" where
  "carded_db pm = sample_db\<lparr>recharge_settings :=
     [(default_settings ''o1'')\<lparr>s_customer_id := Some ''cus_1'', s_payment_method_id := Some pm\<rparr>]\<rparr>"

theorem settings_api_hides_the_card_witness:
  "response (auto_recharge_GET sample_env sample_orgs ''acme'') (carded_db ''pm_1'')
     = response (auto_recharge_GET sample_env sample_orgs ''acme'') (carded_db ''pm_2'')
   \<and> status (response (auto_recharge_GET sample_env sample_orgs ''acme'') (carded_db ''pm_1'')) = 200"
proof -
  have "hide_handles (carded_db ''pm_1'') = hide_handles (carded_db ''pm_2'')"
    by (simp add: hide_handles_def carded_db_def mask_handles_def)
  moreover have "status (response (auto_recharge_GET sample_env sample_orgs ''acme'') (carded_db ''pm_1'')) = 200"
    by code_simp
  ultimately show ?thesis using settings_api_hides_the_card by blast
qed


text \<open>
  Saving the settings is confined: a settings request that changed anything came from a
  manager of the organization whose row changed, every other organization's row is as before, and
  a row within the amount bounds is stored, its decline back-off is cleared and it carries the card
  it had, or none: a card cannot be added here.
\<close>

theorem settings_save_is_confined:
  assumes "t = snd (auto_recharge_PATCH E listOrgs ident req s)"
    and "recharge_settings t \<noteq> recharge_settings s"
    and "slugs_are_not_ids s" and "backend_agrees listOrgs s"
  shows "\<exists>oid u. same_tables s u \<and> authorized_for u E oid Admin
    \<and> filter (\<lambda>r. s_org r \<noteq> oid) (recharge_settings t) = filter (\<lambda>r. s_org r \<noteq> oid) (recharge_settings s)
    \<and> (\<exists>r\<in>set (recharge_settings t). s_org r = oid \<and> settings_ok r)
    \<and> (\<forall>r\<in>set (recharge_settings t). s_org r = oid \<longrightarrow> s_consecutive_failures r = 0 \<and> s_last_failure_at r = None
         \<and> (s_customer_id r, s_payment_method_id r) \<in> insert (None, None) (cards_of oid s))"
proof -
  have cards: "cards_of o' v = cards_of o' s" if "recharge_settings v = recharge_settings s" for o' v
    by (simp add: cards_of_def that)
  obtain g v u where g: "authorize E listOrgs ident s = (Inr (Some g), v)"
    and t: "recharge_settings t = recharge_settings (snd (save_settings E g u v))"
    and v: "recharge_settings v = recharge_settings s"
    using assms(1,2) by (rule patch_reaches_save)
  obtain w where w: "same_tables s w" "authorized_for w E (mg_org g) Admin" "same_tables s v"
    using authorize_SomeE [OF g assms(3,4)] by blast
  have "recharge_settings (snd (save_settings E g u v)) \<noteq> recharge_settings v" using assms(2) t v by simp
  then obtain r where "upsert_settings (mg_org g) (apply_settings_update u) v = Inr (r, v\<lparr>recharge_settings := recharge_settings t\<rparr>)"
    using save_settings_rows [OF refl, of E g u v] t by auto
  have sel: "recharge_settings (v\<lparr>recharge_settings := x\<rparr>) = x" for x by simp
  from saved_rows [OF \<open>upsert_settings _ _ v = _\<close>] w(1,2) show ?thesis
    unfolding v sel cards [OF v] by (intro exI [of _ "mg_org g"] exI [of _ w] conjI) blast+
qed

theorem settings_save_is_confined_witness:
  "let t = snd (auto_recharge_PATCH sample_env sample_orgs ''acme'' (JObj [(''enabled'', JBool False)]) (carded_db ''pm_1'')) in
   \<exists>oid u. same_tables (carded_db ''pm_1'') u \<and> authorized_for u sample_env oid Admin
     \<and> (\<forall>r\<in>set (recharge_settings t). s_org r = oid \<longrightarrow> s_consecutive_failures r = 0)"
proof -
  let ?s = "carded_db ''pm_1''"
  let ?t = "snd (auto_recharge_PATCH sample_env sample_orgs ''acme'' (JObj [(''enabled'', JBool False)]) ?s)"
  have "map s_enabled (recharge_settings ?t) = [False]" and "map s_enabled (recharge_settings ?s) = [True]" by code_simp+
  then have "recharge_settings ?t \<noteq> recharge_settings ?s" by auto
  moreover have "slugs_are_not_ids ?s" and "backend_agrees sample_orgs ?s"
    by (simp_all add: slugs_are_not_ids_def backend_agrees_def carded_db_def sample_db_def empty_db_def sample_orgs_def org_exists_def)
  ultimately obtain oid u where "same_tables ?s u" "authorized_for u sample_env oid Admin"
    and "\<forall>r\<in>set (recharge_settings ?t). s_org r = oid \<longrightarrow> s_consecutive_failures r = 0"
    using settings_save_is_confined [OF refl, of sample_env sample_orgs "''acme''" _ ?s] by blast
  then show ?thesis unfolding Let_def by blast
qed

end
