(* ===== verification/Credit_Ledger.thy ===== *)
theory Credit_Ledger
  imports Billing
begin

text \<open>
  The database side of money that arrived: the credit ledger with its unique key
  \<open>(source, source_ref)\<close>, and the functions of
  \<open>src/supabase/migrations/20260820143000_org_auto_recharge.sql\<close> that queue and settle an
  auto-recharge. The locale \<open>idempotent_posting\<close> is the contract the webhook relies on: a posting
  appends its row at most once per key. Both ways to post, the plain insert of a top-up and
  \<open>record_auto_recharge_success\<close>, are interpretations of it.
\<close>

section \<open>The ledger\<close>

type_synonym ledger_ref = "(string \<times> string) option"

definition ledger_key :: "ledger_row \<Rightarrow> ledger_ref" where
  "ledger_key r = map_option (Pair (l_source r)) (l_source_ref r)"

definition ledger_keys :: "ledger_row list \<Rightarrow> (string \<times> string) list" where
  "ledger_keys rows = List.map_filter ledger_key rows"

definition key_taken :: "ledger_row \<Rightarrow> ledger_row list \<Rightarrow> bool" where
  "key_taken r rows \<longleftrightarrow> (case ledger_key r of None \<Rightarrow> False | Some k \<Rightarrow> List.member (ledger_keys rows) k)"

definition entry_amount :: "ledger_row \<Rightarrow> rat" where
  "entry_amount r = numeric6 (jsval (l_amount_usd r))"

definition amount_ok :: "ledger_row \<Rightarrow> bool" where
  "amount_ok r \<longleftrightarrow> js_is_finite (l_amount_usd r) \<and> entry_amount r \<noteq> 0
     \<and> (l_entry_type r = ''adjustment'' \<or> 0 < entry_amount r)"

text \<open>
  Posting an entry also runs the trigger \<open>track_credit_ledger_entry\<close>: the organization's
  \<open>credit_granted_usd\<close> grows by the amount, in exact decimal arithmetic. A value or a counter
  beyond the eight integer digits of \<open>numeric(14, 6)\<close> is refused, and with it the whole insert.
\<close>

definition numeric_overflow :: dberror where
  "numeric_overflow = \<lparr>code = Some ''22003'', message = ''numeric field overflow''\<rparr>"

definition granted_after :: "ledger_row \<Rightarrow> org_row \<Rightarrow> rat" where
  "granted_after r org = jsval (o_credit_granted_usd org) + entry_amount r"

definition track_credit_ledger_entry :: "ledger_row \<Rightarrow> db \<Rightarrow> db" where
  "track_credit_ledger_entry r s =
     s\<lparr>organizations := update_where (\<lambda>org. o_id org = l_org r)
         (\<lambda>org. org\<lparr>o_credit_granted_usd := sql_num (granted_after r org)\<rparr>) (organizations s)\<rparr>"

definition counter_fits :: "ledger_row \<Rightarrow> db \<Rightarrow> bool" where
  "counter_fits r s \<longleftrightarrow> list_all (\<lambda>org. o_id org = l_org r \<longrightarrow> fits_numeric (granted_after r org)) (organizations s)"

definition insert_ledger :: "ledger_row \<Rightarrow> db \<Rightarrow> dberror + (unit \<times> db)" where
  "insert_ledger r s =
     (if \<not> fits_numeric (entry_amount r) then Inl numeric_overflow
      else if \<not> amount_ok r then Inl check_violation
      else if key_taken r (credit_ledger s) then Inl unique_violation
      else if \<not> org_exists (l_org r) s then Inl foreign_key_violation
      else if \<not> counter_fits r s then Inl numeric_overflow
      else Inr ((), track_credit_ledger_entry r (s\<lparr>credit_ledger := credit_ledger s @ [r]\<rparr>)))"

section \<open>The recharge queue\<close>

definition active_status :: "string \<Rightarrow> bool" where
  "active_status st \<longleftrightarrow> st = ''pending'' \<or> st = ''processing''"

abbreviation active :: "attempt_row \<Rightarrow> bool" where
  "active a \<equiv> active_status (t_status a)"

definition balance_of :: "string \<Rightarrow> db \<Rightarrow> rat option" where
  "balance_of oid s =
     map_option (\<lambda>r. jsval (o_credit_granted_usd r) - jsval (o_billable_spend_usd r)) (first_where (\<lambda>r. o_id r = oid) (organizations s))"

definition may_recharge :: "int \<Rightarrow> settings_row \<Rightarrow> bool" where
  "may_recharge now r \<longleftrightarrow> s_enabled r \<and> s_customer_id r \<noteq> None \<and> s_payment_method_id r \<noteq> None
     \<and> s_consecutive_failures r < 3
     \<and> (case s_last_failure_at r of None \<Rightarrow> True | Some f \<Rightarrow> \<not> now - 24 * 3600 * 1000 < f)
     \<and> (case s_last_recharge_at r of None \<Rightarrow> True | Some f \<Rightarrow> \<not> now - 15 * 60 * 1000 < f)"

definition new_attempt :: "string \<Rightarrow> int \<Rightarrow> settings_row \<Rightarrow> attempt_row" where
  "new_attempt aid now r = \<lparr>t_id = aid, t_org = s_org r, t_amount_usd = s_amount_usd r, t_status = ''pending'',
     t_intent = None, t_error = None, t_created_at = now, t_updated_at = now\<rparr>"

definition enqueue_auto_recharge_if_low :: "string \<Rightarrow> int \<Rightarrow> string \<Rightarrow> db \<Rightarrow> string option \<times> db" where
  "enqueue_auto_recharge_if_low aid now oid s =
     (case settings_of oid s of
        None \<Rightarrow> (None, s)
      | Some r \<Rightarrow>
          if \<not> may_recharge now r then (None, s)
          else (case balance_of oid s of
                  None \<Rightarrow> (None, s)
                | Some b \<Rightarrow>
                    if numeric6 (jsval (s_threshold_usd r)) \<le> b then (None, s)
                    else if list_ex (\<lambda>a. t_org a = oid \<and> active a) (recharge_attempts s) then (None, s)
                    else (Some aid, s\<lparr>recharge_attempts := recharge_attempts s @ [new_attempt aid now r]\<rparr>)))"

definition settles :: "string \<Rightarrow> attempt_row \<Rightarrow> bool" where
  "settles pid a \<longleftrightarrow> t_intent a = Some pid \<and> active a"

definition recharge_row :: "string \<Rightarrow> string \<Rightarrow> jsnum \<Rightarrow> string \<Rightarrow> ledger_row" where
  "recharge_row oid pid amount by = \<lparr>l_org = oid, l_entry_type = ''topup'', l_amount_usd = amount,
     l_reason = ''Auto-recharge'', l_source = ''stripe'', l_source_ref = Some pid, l_created_by = Some by\<rparr>"

definition close_success :: "int \<Rightarrow> string \<Rightarrow> string \<Rightarrow> db \<Rightarrow> db" where
  "close_success now oid pid s =
     s\<lparr>recharge_attempts := update_where (settles pid)
          (\<lambda>a. a\<lparr>t_status := ''succeeded'', t_updated_at := now\<rparr>) (recharge_attempts s),
       recharge_settings := update_where (\<lambda>r. s_org r = oid)
          (\<lambda>r. r\<lparr>s_last_recharge_at := Some now, s_consecutive_failures := 0, s_last_failure_at := None,
                 s_last_failure_message := None\<rparr>) (recharge_settings s)\<rparr>"

datatype settlement = Credited | Replay

definition post_recharge :: "int \<Rightarrow> ledger_row \<Rightarrow> db \<Rightarrow> dberror + (settlement \<times> db)" where
  "post_recharge now r s =
     (case insert_ledger r s of
        Inr p \<Rightarrow> Inr (Credited, close_success now (l_org r) (the (l_source_ref r)) (snd p))
      | Inl e \<Rightarrow> if e = unique_violation then Inr (Replay, close_success now (l_org r) (the (l_source_ref r)) s) else Inl e)"

definition record_auto_recharge_success :: "int \<Rightarrow> string \<Rightarrow> string \<Rightarrow> jsnum \<Rightarrow> string \<Rightarrow> db \<Rightarrow> dberror + (settlement \<times> db)" where
  "record_auto_recharge_success now oid pid amount by s = post_recharge now (recharge_row oid pid amount by) s"

definition record_auto_recharge_failure :: "int \<Rightarrow> string \<Rightarrow> string \<Rightarrow> string \<Rightarrow> db \<Rightarrow> dberror + (unit \<times> db)" where
  "record_auto_recharge_failure now oid pid msg s =
     (let transitioned = list_ex (settles pid) (recharge_attempts s);
          t = s\<lparr>recharge_attempts := update_where (settles pid)
                 (\<lambda>a. a\<lparr>t_status := ''failed'', t_error := Some msg, t_updated_at := now\<rparr>) (recharge_attempts s)\<rparr>
      in Inr ((), if \<not> transitioned then t
             else t\<lparr>recharge_settings := update_where (\<lambda>r. s_org r = oid)
                     (\<lambda>r. r\<lparr>s_consecutive_failures := s_consecutive_failures r + 1, s_last_failure_at := Some now,
                            s_last_failure_message := Some msg\<rparr>) (recharge_settings t)\<rparr>))"

section \<open>The posting contract\<close>

definition ledger_unique :: "ledger_row list \<Rightarrow> bool" where
  "ledger_unique rows \<longleftrightarrow> distinct (ledger_keys rows)"

definition posted :: "ledger_row \<Rightarrow> ledger_row list \<Rightarrow> bool" where
  "posted r rows \<longleftrightarrow> key_taken r rows"

lemma ledger_keys_append [simp]: "ledger_keys (xs @ [r]) = ledger_keys xs @ (case ledger_key r of None \<Rightarrow> [] | Some k \<Rightarrow> [k])"
  by (simp add: ledger_keys_def List.map_filter_def split: option.split)

locale idempotent_posting =
  fixes post :: "ledger_row \<Rightarrow> 's \<Rightarrow> dberror + ('a \<times> 's)"
    and rows :: "'s \<Rightarrow> ledger_row list"
  assumes appends_once: "post r s = Inr (a, t) \<Longrightarrow> ledger_key r \<noteq> None \<Longrightarrow>
      rows t = (if key_taken r (rows s) then rows s else rows s @ [r])"
    and refuses_clean: "post r s = Inl e \<Longrightarrow> e = unique_violation \<Longrightarrow> ledger_key r \<noteq> None \<Longrightarrow> key_taken r (rows s)"
begin

lemma unique_kept:
  assumes "post r s = Inr (a, t)" and "ledger_key r \<noteq> None" and "ledger_unique (rows s)"
  shows "ledger_unique (rows t)"
  using assms appends_once [OF assms(1,2)]
  by (auto simp: ledger_unique_def key_taken_def split: option.splits if_splits)

lemma taken_after: "post r s = Inr (a, t) \<Longrightarrow> ledger_key r \<noteq> None \<Longrightarrow> key_taken r (rows t)"
  by (drule (1) appends_once) (auto simp: key_taken_def split: option.splits)

lemma repeat_adds_nothing:
  assumes "post r s = Inr (a, t)" and "post r t = Inr (b, u)" and "ledger_key r \<noteq> None"
  shows "rows u = rows t"
  using appends_once [OF assms(2,3)] taken_after [OF assms(1,3)] by simp

end

lemma violations_distinct [simp]: "check_violation \<noteq> unique_violation" "foreign_key_violation \<noteq> unique_violation"
    "numeric_overflow \<noteq> unique_violation"
  by (simp_all add: check_violation_def unique_violation_def foreign_key_violation_def numeric_overflow_def)

lemma track_frame [simp]:
  "credit_ledger (track_credit_ledger_entry r s) = credit_ledger s"
  "recharge_attempts (track_credit_ledger_entry r s) = recharge_attempts s"
  "recharge_settings (track_credit_ledger_entry r s) = recharge_settings s"
  "stripe_charges (track_credit_ledger_entry r s) = stripe_charges s"
  "map o_id (organizations (track_credit_ledger_entry r s)) = map o_id (organizations s)"
  by (simp_all add: track_credit_ledger_entry_def map_update_where_key)

lemma insert_ledger_Inr:
  "insert_ledger r s = Inr (a, t) \<longleftrightarrow> fits_numeric (entry_amount r) \<and> amount_ok r \<and> \<not> key_taken r (credit_ledger s)
     \<and> org_exists (l_org r) s \<and> counter_fits r s
     \<and> t = track_credit_ledger_entry r (s\<lparr>credit_ledger := credit_ledger s @ [r]\<rparr>)"
  by (simp add: insert_ledger_def) blast

lemma insert_ledger_unique:
  "insert_ledger r s = Inl unique_violation \<longleftrightarrow> fits_numeric (entry_amount r) \<and> amount_ok r \<and> key_taken r (credit_ledger s)"
  using violations_distinct by (simp add: insert_ledger_def del: violations_distinct)

text \<open>The counter of an organization is the old one and the entry's amount, to the last decimal; no other organization's moves.\<close>

lemma posting_moves_the_counter:
  assumes "insert_ledger r s = Inr (a, t)"
  shows "map (\<lambda>org. (o_id org, jsval (o_credit_granted_usd org))) (organizations t)
    = map (\<lambda>org. (o_id org, if o_id org = l_org r then jsval (o_credit_granted_usd org) + entry_amount r
        else jsval (o_credit_granted_usd org))) (organizations s)"
  using assms by (simp add: insert_ledger_Inr track_credit_ledger_entry_def update_where_def granted_after_def)

interpretation topup: idempotent_posting insert_ledger credit_ledger
  by unfold_locales (simp_all add: insert_ledger_Inr insert_ledger_unique)

lemma close_success_frame [simp]:
  "credit_ledger (close_success now oid pid s) = credit_ledger s"
  "organizations (close_success now oid pid s) = organizations s"
  "stripe_charges (close_success now oid pid s) = stripe_charges s"
  by (simp_all add: close_success_def)

lemma post_recharge_InrE:
  assumes "post_recharge now r s = Inr (a, t)"
  obtains "a = Replay" "amount_ok r" "key_taken r (credit_ledger s)" "t = close_success now (l_org r) (the (l_source_ref r)) s"
  | "a = Credited" "amount_ok r" "\<not> key_taken r (credit_ledger s)" "org_exists (l_org r) s"
    "t = close_success now (l_org r) (the (l_source_ref r)) (track_credit_ledger_entry r (s\<lparr>credit_ledger := credit_ledger s @ [r]\<rparr>))"
proof (cases "insert_ledger r s")
  case (Inl e)
  then have "e = unique_violation" using assms by (simp add: post_recharge_def split: if_splits)
  then show thesis using Inl assms that(1) insert_ledger_unique [of r s] by (simp add: post_recharge_def)
next
  case (Inr p)
  then obtain u where u: "insert_ledger r s = Inr ((), u)" by (cases p) simp
  then have "a = Credited" "t = close_success now (l_org r) (the (l_source_ref r)) u"
    using assms by (simp_all add: post_recharge_def)
  then show thesis using u that(2) by (simp add: insert_ledger_Inr)
qed

interpretation recharge: idempotent_posting "post_recharge now" credit_ledger for now
proof unfold_locales
  show "credit_ledger t = (if key_taken r (credit_ledger s) then credit_ledger s else credit_ledger s @ [r])"
    if "post_recharge now r s = Inr (a, t)" "ledger_key r \<noteq> None" for r s a t
    by (rule post_recharge_InrE [OF that(1)]) simp_all
  show "key_taken r (credit_ledger s)"
    if "post_recharge now r s = Inl e" "e = unique_violation" "ledger_key r \<noteq> None" for r s e
    using that by (simp add: post_recharge_def split: sum.splits if_splits prod.splits unit.splits)
qed

end
