(* ===== verification/Recharge.thy ===== *)
theory Recharge
  imports Credit_Ledger
begin

text \<open>
  The auto-recharge poller: \<open>lib/billing/auto-recharge.ts\<close> and
  \<open>app/api/internal/auto-recharge/route.ts\<close>. A run loads the claimable attempts, claims each by a
  compare-and-swap on \<open>updated_at\<close> and asks Stripe for one off-session payment per claim. Stripe
  is the argument \<open>stripe\<close>, a function of the request and its idempotency key; every request that
  reaches it is appended to \<open>stripe_charges\<close>. The injected clock is read once per run.
\<close>

section \<open>Statements\<close>

definition LEASE_MS :: int where "LEASE_MS = 5 * 60 * 1000"
definition DEFAULT_BATCH_LIMIT :: nat where "DEFAULT_BATCH_LIMIT = 25"

definition claimable :: "int \<Rightarrow> attempt_row \<Rightarrow> bool" where
  "claimable cutoff a \<longleftrightarrow> t_status a = ''pending''
     \<or> (t_status a = ''processing'' \<and> t_intent a = None \<and> t_updated_at a < cutoff)"

definition candidate_attempts :: "int \<Rightarrow> nat \<Rightarrow> db \<Rightarrow> attempt_row list" where
  "candidate_attempts cutoff limit s =
     take limit (sort_key t_created_at (filter (claimable cutoff) (recharge_attempts s)))"

definition claimed_by :: "attempt_row \<Rightarrow> attempt_row \<Rightarrow> bool" where
  "claimed_by attempt a \<longleftrightarrow> t_id a = t_id attempt \<and> t_updated_at a = t_updated_at attempt \<and> active a"

definition claim_update :: "int \<Rightarrow> attempt_row \<Rightarrow> db \<Rightarrow> dberror + (string list \<times> db)" where
  "claim_update now attempt s =
     Inr (map t_id (filter (claimed_by attempt) (recharge_attempts s)),
          s\<lparr>recharge_attempts := update_where (claimed_by attempt)
             (\<lambda>a. a\<lparr>t_status := ''processing'', t_updated_at := now\<rparr>) (recharge_attempts s)\<rparr>)"

definition intent_update :: "int \<Rightarrow> string \<Rightarrow> string \<Rightarrow> db \<Rightarrow> dberror + (unit \<times> db)" where
  "intent_update now aid pid s =
     Inr ((), s\<lparr>recharge_attempts := update_where (\<lambda>a. t_id a = aid)
             (\<lambda>a. a\<lparr>t_intent := Some pid, t_updated_at := now\<rparr>) (recharge_attempts s)\<rparr>)"

definition release_row :: "int \<Rightarrow> string \<Rightarrow> attempt_row \<Rightarrow> attempt_row" where
  "release_row now msg a = a\<lparr>t_status := ''pending'', t_error := Some msg, t_updated_at := now\<rparr>"

definition one_active :: "attempt_row list \<Rightarrow> bool" where
  "one_active as \<longleftrightarrow> distinct (map t_org (filter active as))"

definition release_update :: "int \<Rightarrow> string \<Rightarrow> string \<Rightarrow> db \<Rightarrow> dberror + (unit \<times> db)" where
  "release_update now aid msg s =
     (let as = update_where (\<lambda>a. t_id a = aid) (release_row now msg) (recharge_attempts s) in
      if \<not> one_active as then Inl unique_violation
      else Inr ((), s\<lparr>recharge_attempts := as\<rparr>))"

definition fail_update :: "int \<Rightarrow> string \<Rightarrow> string \<Rightarrow> db \<Rightarrow> dberror + (unit \<times> db)" where
  "fail_update now aid msg s =
     Inr ((), s\<lparr>recharge_attempts := update_where (\<lambda>a. t_id a = aid)
             (\<lambda>a. a\<lparr>t_status := ''failed'', t_error := Some msg, t_updated_at := now\<rparr>) (recharge_attempts s)\<rparr>)"

section \<open>The poller\<close>

definition loadSettings :: "env \<Rightarrow> string list \<Rightarrow> (string, settings_row) jsmap act" where
  "loadSettings E orgIds =
     bind (query (faults E ''org_auto_recharge_settings.in'')
             (\<lambda>s. filter (\<lambda>r. List.member orgIds (s_org r)) (recharge_settings s))) (\<lambda>r.
     ret (case r of Inl _ \<Rightarrow> [] | Inr rows \<Rightarrow> fold (\<lambda>row m. map_set (s_org row) row m) rows []))"

definition claimAttempt :: "env \<Rightarrow> attempt_row \<Rightarrow> bool act" where
  "claimAttempt E attempt =
     bind (call (faults E ''auto_recharge_attempts.claim'') (claim_update (now_ms E) attempt)) (\<lambda>r.
     bind (orThrow (''auto-recharge: claiming attempt '' @ t_id attempt @ '' failed: '') r) (\<lambda>ids.
     ret (length ids = 1)))"

definition recordFailure :: "env \<Rightarrow> string \<Rightarrow> string \<Rightarrow> string \<Rightarrow> unit act" where
  "recordFailure E oid pid msg =
     bind (call (faults E ''record_auto_recharge_failure'') (record_auto_recharge_failure (now_ms E) oid pid msg))
          (orThrow ''auto-recharge: recording failure failed: '')"

definition failAttemptById :: "env \<Rightarrow> string \<Rightarrow> string \<Rightarrow> unit act" where
  "failAttemptById E aid msg =
     bind (call (faults E ''auto_recharge_attempts.fail'') (fail_update (now_ms E) aid msg)) (\<lambda>_. ret ())"

datatype charge_outcome =
    Intent string string
  | Card_error string "string option"
  | Stripe_down string

datatype charged = Charged | Declined | Retryable

definition charge_request_of :: "attempt_row \<Rightarrow> string \<Rightarrow> string \<Rightarrow> charge_request" where
  "charge_request_of attempt customer pm =
     \<lparr>ch_idempotency_key = t_id attempt, ch_amount_cents = cents_of (t_amount_usd attempt),
      ch_customer = customer, ch_payment_method = pm, ch_org = t_org attempt\<rparr>"

definition needs_customer :: "string \<Rightarrow> bool" where
  "needs_customer st \<longleftrightarrow> st = ''requires_action'' \<or> st = ''requires_payment_method''"

definition release :: "env \<Rightarrow> attempt_row \<Rightarrow> string \<Rightarrow> charged act" where
  "release E attempt msg =
     bind (call (faults E ''auto_recharge_attempts.release'') (release_update (now_ms E) (t_id attempt) msg))
       (\<lambda>_. ret Retryable)"

fun error_text :: "app_error \<Rightarrow> string" where
  "error_text (PlainError m) = m"
| "error_text (DataSourceNotFound m) = m"
| "error_text (DataSourceRequest m st c a) = m"
| "error_text AuthRequired = ''Authentication required.''"
| "error_text (SsoStepUpRequired a b) = ''SSO required.''"
| "error_text NotAnError = ''unknown error''"

definition settle_intent :: "env \<Rightarrow> attempt_row \<Rightarrow> string \<Rightarrow> string \<Rightarrow> charged act" where
  "settle_intent E attempt pid st =
     bind (call (faults E ''auto_recharge_attempts.intent'') (intent_update (now_ms E) (t_id attempt) pid)) (\<lambda>_.
     if needs_customer st
     then bind (recordFailure E (t_org attempt) pid ''The card needs authentication.'') (\<lambda>_. ret Declined)
     else ret Charged)"

definition settle_decline :: "env \<Rightarrow> attempt_row \<Rightarrow> string \<Rightarrow> string option \<Rightarrow> charged act" where
  "settle_decline E attempt msg pid =
     (case pid of
        None \<Rightarrow> bind (failAttemptById E (t_id attempt) msg) (\<lambda>_. ret Declined)
      | Some p \<Rightarrow>
          if p = '''' then bind (failAttemptById E (t_id attempt) msg) (\<lambda>_. ret Declined)
          else bind (call (faults E ''auto_recharge_attempts.intent'') (intent_update (now_ms E) (t_id attempt) p)) (\<lambda>_.
               bind (recordFailure E (t_org attempt) p msg) (\<lambda>_. ret Declined)))"

definition reach_stripe :: "charge_request \<Rightarrow> unit act" where
  "reach_stripe q = modify (\<lambda>s. s\<lparr>stripe_charges := stripe_charges s @ [q]\<rparr>)"

definition chargeAttempt :: "env \<Rightarrow> (charge_request \<Rightarrow> charge_outcome) \<Rightarrow> attempt_row \<Rightarrow> string \<Rightarrow> string \<Rightarrow> charged act" where
  "chargeAttempt E stripe attempt customer pm =
     (let q = charge_request_of attempt customer pm in
      bind (reach_stripe q) (\<lambda>_.
      case stripe q of
        Intent pid st \<Rightarrow> catching (settle_intent E attempt pid st) (\<lambda>err. release E attempt (error_text err))
      | Card_error msg pid \<Rightarrow> settle_decline E attempt msg pid
      | Stripe_down msg \<Rightarrow> release E attempt msg))"

record run_summary =
  sm_claimed :: nat
  sm_charged :: nat
  sm_declined :: nat
  sm_retryable :: nat
  sm_skipped :: nat

definition no_work :: run_summary where
  "no_work = \<lparr>sm_claimed = 0, sm_charged = 0, sm_declined = 0, sm_retryable = 0, sm_skipped = 0\<rparr>"

fun count_outcome :: "charged \<Rightarrow> run_summary \<Rightarrow> run_summary" where
  "count_outcome Charged m = m\<lparr>sm_charged := sm_charged m + 1\<rparr>"
| "count_outcome Declined m = m\<lparr>sm_declined := sm_declined m + 1\<rparr>"
| "count_outcome Retryable m = m\<lparr>sm_retryable := sm_retryable m + 1\<rparr>"

definition saved_card :: "settings_row option \<Rightarrow> (string \<times> string) option" where
  "saved_card row =
     (case row of
        None \<Rightarrow> None
      | Some r \<Rightarrow>
          (case (s_customer_id r, s_payment_method_id r) of
             (Some c, Some p) \<Rightarrow> if c = '''' \<or> p = '''' then None else Some (c, p)
           | _ \<Rightarrow> None))"

definition process_attempt :: "env \<Rightarrow> (charge_request \<Rightarrow> charge_outcome) \<Rightarrow> (string, settings_row) jsmap \<Rightarrow> attempt_row \<Rightarrow> run_summary \<Rightarrow> run_summary act" where
  "process_attempt E stripe settingsByOrg attempt m =
     bind (claimAttempt E attempt) (\<lambda>claimed.
     if \<not> claimed then ret (m\<lparr>sm_skipped := sm_skipped m + 1\<rparr>)
     else (let m1 = m\<lparr>sm_claimed := sm_claimed m + 1\<rparr> in
           case saved_card (map_get settingsByOrg (t_org attempt)) of
             None \<Rightarrow>
               bind (failAttemptById E (t_id attempt) ''No saved payment method.'') (\<lambda>_.
               ret (m1\<lparr>sm_skipped := sm_skipped m1 + 1\<rparr>))
           | Some (customer, pm) \<Rightarrow>
               bind (chargeAttempt E stripe attempt customer pm) (\<lambda>outcome. ret (count_outcome outcome m1))))"

fun process_attempts :: "env \<Rightarrow> (charge_request \<Rightarrow> charge_outcome) \<Rightarrow> (string, settings_row) jsmap \<Rightarrow> attempt_row list \<Rightarrow> run_summary \<Rightarrow> run_summary act" where
  "process_attempts E stripe settingsByOrg [] m = ret m"
| "process_attempts E stripe settingsByOrg (a # as) m =
     bind (process_attempt E stripe settingsByOrg a m) (process_attempts E stripe settingsByOrg as)"

definition processPendingAutoRecharges :: "env \<Rightarrow> (charge_request \<Rightarrow> charge_outcome) \<Rightarrow> nat \<Rightarrow> run_summary act" where
  "processPendingAutoRecharges E stripe limit =
     bind (query (faults E ''auto_recharge_attempts.select'') (candidate_attempts (now_ms E - LEASE_MS) limit)) (\<lambda>r.
     bind (orThrow ''auto-recharge: loading attempts failed: '' r) (\<lambda>rows.
     if rows = [] then ret no_work
     else bind (loadSettings E (remdups (map t_org rows))) (\<lambda>settingsByOrg.
          process_attempts E stripe settingsByOrg rows no_work)))"

definition summary_json :: "run_summary \<Rightarrow> json" where
  "summary_json m = JObj [(''claimed'', JNum (js_int (int (sm_claimed m)))), (''charged'', JNum (js_int (int (sm_charged m)))),
     (''declined'', JNum (js_int (int (sm_declined m)))), (''retryable'', JNum (js_int (int (sm_retryable m)))),
     (''skipped'', JNum (js_int (int (sm_skipped m))))]"

definition poller_POST :: "env \<Rightarrow> (charge_request \<Rightarrow> charge_outcome) option \<Rightarrow> string option \<Rightarrow> string option \<Rightarrow> resp act" where
  "poller_POST E stripe cronSecret authorization =
     (case cronSecret of
        None \<Rightarrow> ret (error_resp ''Auto-recharge poller is not configured.'' 503)
      | Some secret \<Rightarrow>
          if secret = '''' then ret (error_resp ''Auto-recharge poller is not configured.'' 503)
          else if authorization \<noteq> Some (''Bearer '' @ secret) then ret (error_resp ''Unauthorized.'' 401)
          else (case stripe of
                  None \<Rightarrow> ret (error_resp ''Billing is not configured on this deployment.'' 503)
                | Some st \<Rightarrow>
                    catching (bind (processPendingAutoRecharges E st DEFAULT_BATCH_LIMIT) (\<lambda>m.
                                ret (json_resp (JObj [(''ok'', JBool True), (''summary'', summary_json m)]) 200)))
                      (\<lambda>_. ret (error_resp ''Auto-recharge run failed.'' 500))))"


section \<open>What a run may do to the state\<close>

text \<open>
  \<open>recharge_frame\<close> is an invariant of the queue: kept by every statement of the poller and by a
  payment request that satisfies \<open>ok\<close>. A run keeps it on every path.
\<close>

locale recharge_frame =
  fixes P :: "db \<Rightarrow> bool" and ok :: "charge_request \<Rightarrow> bool"
  assumes claim: "P s \<Longrightarrow> claim_update now a s = Inr (x, t) \<Longrightarrow> P t"
    and intent: "P s \<Longrightarrow> intent_update now aid pid s = Inr (y, t) \<Longrightarrow> P t"
    and release: "P s \<Longrightarrow> release_update now aid msg s = Inr (y, t) \<Longrightarrow> P t"
    and fail: "P s \<Longrightarrow> fail_update now aid msg s = Inr (y, t) \<Longrightarrow> P t"
    and failure: "P s \<Longrightarrow> record_auto_recharge_failure now oid pid msg s = Inr (y, t) \<Longrightarrow> P t"
    and reach: "P s \<Longrightarrow> ok q \<Longrightarrow> P (s\<lparr>stripe_charges := stripe_charges s @ [q]\<rparr>)"
begin

lemma keeps_recordFailure: "keeps P (recordFailure E oid pid msg)"
  unfolding recordFailure_def by (intro keeps_intros) (rule failure)

lemma keeps_failAttemptById: "keeps P (failAttemptById E aid msg)"
  unfolding failAttemptById_def by (intro keeps_intros) (rule fail)

lemma keeps_intent: "keeps P (call flt (intent_update now aid pid))"
  by (intro keeps_intros) (rule intent)

lemma keeps_release: "keeps P (release E a msg)"
  unfolding release_def by (intro keeps_intros) (rule local.release)

lemma keeps_settle_intent: "keeps P (settle_intent E a pid st)"
  unfolding settle_intent_def by (intro keeps_bind keeps_if keeps_ret keeps_intent keeps_recordFailure)

lemma keeps_settle_decline: "keeps P (settle_decline E a msg pid)"
  unfolding settle_decline_def
  by (intro keeps_bind keeps_if keeps_case_option keeps_ret keeps_intent keeps_recordFailure keeps_failAttemptById)

lemma keeps_chargeAttempt:
  assumes "ok (charge_request_of a customer pm)"
  shows "keeps P (chargeAttempt E stripe a customer pm)"
proof -
  have "keeps P (reach_stripe (charge_request_of a customer pm))"
    using assms reach unfolding reach_stripe_def by (intro keeps_modify)
  moreover have "keeps P (case out of
        Intent pid st \<Rightarrow> catching (settle_intent E a pid st) (\<lambda>err. release E a (error_text err))
      | Card_error msg pid \<Rightarrow> settle_decline E a msg pid
      | Stripe_down msg \<Rightarrow> release E a msg)" for out
    by (cases out) (auto intro: keeps_catching keeps_settle_intent keeps_settle_decline keeps_release)
  ultimately show ?thesis
    unfolding chargeAttempt_def Let_def by (intro keeps_bind)
qed

lemma keeps_process_attempt:
  assumes "\<And>c p. ok (charge_request_of a c p)"
  shows "keeps P (process_attempt E stripe sets a m)"
proof -
  have "keeps P (claimAttempt E a)"
    unfolding claimAttempt_def by (intro keeps_intros) (rule claim)
  then show ?thesis
    unfolding process_attempt_def Let_def
    by (intro keeps_bind keeps_if keeps_ret keeps_case_option keeps_case_prod keeps_failAttemptById keeps_chargeAttempt assms)
qed

lemma keeps_process_attempts:
  "(\<And>a c p. a \<in> set as \<Longrightarrow> ok (charge_request_of a c p)) \<Longrightarrow> keeps P (process_attempts E stripe sets as m)"
proof (induction as arbitrary: m)
  case Nil
  show ?case by (simp add: keeps_def)
next
  case (Cons a as)
  have "keeps P (process_attempts E stripe sets as m)" for m using Cons.prems by (intro Cons.IH) auto
  then show ?case using Cons.prems by (auto intro!: keeps_bind keeps_process_attempt)
qed

lemma keeps_loadSettings: "keeps P (loadSettings E oids)"
  unfolding loadSettings_def by (intro keeps_intros)

lemma run_keeps:
  assumes "P s" and "\<And>a c p. a \<in> set (recharge_attempts s) \<Longrightarrow> ok (charge_request_of a c p)"
  shows "P (snd (processPendingAutoRecharges E stripe limit s))"
proof -
  let ?rows = "candidate_attempts (now_ms E - LEASE_MS) limit s"
  have "set ?rows \<subseteq> set (recharge_attempts s)"
    unfolding candidate_attempts_def using set_take_subset by fastforce
  then have k: "keeps P (bind (loadSettings E oids) (\<lambda>sets. process_attempts E stripe sets ?rows no_work))" for oids
    using assms(2) by (intro keeps_bind keeps_loadSettings keeps_process_attempts) auto
  show ?thesis
    unfolding processPendingAutoRecharges_def
    using assms(1) keepsD [OF k, of s]
    by (auto simp: bind_apply read_db_def orThrow_def split: option.split fault.split)
qed

end

lemmas queue_statements = claim_update_def intent_update_def release_update_def fail_update_def
  record_auto_recharge_failure_def Let_def

definition attempt_facts :: "db \<Rightarrow> (string \<times> string \<times> jsnum) list" where
  "attempt_facts s = map (\<lambda>a. (t_id a, t_org a, t_amount_usd a)) (recharge_attempts s)"

interpretation quiet: recharge_frame "\<lambda>x. stripe_charges x = cs" "\<lambda>_. False" for cs
  by unfold_locales (auto simp: queue_statements split: if_splits)

interpretation facts: recharge_frame "\<lambda>x. attempt_facts x = F" "\<lambda>_. True" for F
  by unfold_locales
    (auto simp: queue_statements attempt_facts_def map_update_where_key release_row_def split: if_splits)

lemma one_active_update:
  assumes "one_active as" and "\<And>a. P a \<Longrightarrow> t_org (f a) = t_org a \<and> (active (f a) \<longrightarrow> active a)"
  shows "one_active (update_where P f as)"
proof -
  have "set (map t_org (filter active (update_where P f as))) \<subseteq> set (map t_org (filter active as))
    \<and> distinct (map t_org (filter active (update_where P f as)))"
    using assms by (induction as) (auto simp: one_active_def update_where_def)
  then show ?thesis by (simp add: one_active_def)
qed

interpretation slot: recharge_frame "\<lambda>x. one_active (recharge_attempts x)" "\<lambda>_. True"
proof unfold_locales
  show "one_active (recharge_attempts t)"
    if "one_active (recharge_attempts s)" "claim_update now a s = Inr (x, t)" for s now a x t
    using that by (auto simp: claim_update_def claimed_by_def active_status_def intro!: one_active_update)
  show "one_active (recharge_attempts t)"
    if "one_active (recharge_attempts s)" "intent_update now aid pid s = Inr (y, t)" for s now aid pid y t
    using that by (auto simp: intent_update_def intro!: one_active_update)
  show "one_active (recharge_attempts t)"
    if "one_active (recharge_attempts s)" "release_update now aid msg s = Inr (y, t)" for s now aid msg y t
    using that by (auto simp: release_update_def Let_def split: if_splits)
  show "one_active (recharge_attempts t)"
    if "one_active (recharge_attempts s)" "fail_update now aid msg s = Inr (y, t)" for s now aid msg y t
    using that by (auto simp: fail_update_def active_status_def intro!: one_active_update)
  show "one_active (recharge_attempts t)"
    if "one_active (recharge_attempts s)" "record_auto_recharge_failure now oid pid msg s = Inr (y, t)" for s now oid pid msg y t
    using that by (auto simp: record_auto_recharge_failure_def Let_def active_status_def intro!: one_active_update)
  show "one_active (recharge_attempts (s\<lparr>stripe_charges := stripe_charges s @ [q]\<rparr>))"
    if "one_active (recharge_attempts s)" for s q
    using that by simp
qed

section \<open>Requests that reach Stripe\<close>

lemma charge_step:
  "stripe_charges (snd (chargeAttempt E stripe a c p s)) = stripe_charges s @ [charge_request_of a c p]"
proof -
  let ?cs = "stripe_charges s @ [charge_request_of a c p]"
  have "keeps (\<lambda>x. stripe_charges x = ?cs) (case out of
        Intent pid st \<Rightarrow> catching (settle_intent E a pid st) (\<lambda>err. release E a (error_text err))
      | Card_error msg pid \<Rightarrow> settle_decline E a msg pid
      | Stripe_down msg \<Rightarrow> release E a msg)" for out
    by (cases out) (auto intro: keeps_catching quiet.keeps_settle_intent quiet.keeps_settle_decline quiet.keeps_release)
  then show ?thesis
    unfolding chargeAttempt_def Let_def reach_stripe_def by (simp add: bind_apply keeps_def)
qed

definition outcomes :: "run_summary \<Rightarrow> nat" where
  "outcomes m = sm_charged m + sm_declined m + sm_retryable m"

lemma outcomes_count [simp]: "outcomes (count_outcome o' m) = outcomes m + 1"
  "sm_claimed (count_outcome o' m) = sm_claimed m" "sm_skipped (count_outcome o' m) = sm_skipped m"
  by (cases o'; simp add: outcomes_def)+

lemma outcomes_simps [simp]:
  "outcomes (m\<lparr>sm_claimed := x\<rparr>) = outcomes m" "outcomes (m\<lparr>sm_skipped := x\<rparr>) = outcomes m"
  by (simp_all add: outcomes_def)

lemma claim_charges: "claimAttempt E a s = (r, t) \<Longrightarrow> stripe_charges t = stripe_charges s"
proof -
  have "keeps (\<lambda>x. stripe_charges x = stripe_charges s) (claimAttempt E a)"
    unfolding claimAttempt_def by (intro keeps_intros) (rule quiet.claim)
  then show "claimAttempt E a s = (r, t) \<Longrightarrow> stripe_charges t = stripe_charges s"
    using keepsD by fastforce
qed

text \<open>
  \<open>serves sets a q\<close>: the request \<open>q\<close> asks for the amount of the attempt \<open>a\<close>, under the attempt's
  id, from the card its organization has saved.
\<close>

definition serves :: "(string, settings_row) jsmap \<Rightarrow> attempt_row \<Rightarrow> charge_request \<Rightarrow> bool" where
  "serves sets a q \<longleftrightarrow> (\<exists>c p. saved_card (map_get sets (t_org a)) = Some (c, p) \<and> q = charge_request_of a c p)"

lemma attempt_requests:
  assumes "process_attempt E stripe sets a m s = (Inr m', t)"
  obtains "stripe_charges t = stripe_charges s" "outcomes m' = outcomes m" "sm_skipped m' = sm_skipped m + 1"
      "sm_claimed m \<le> sm_claimed m'" "sm_claimed m' \<le> sm_claimed m + 1"
  | q where "stripe_charges t = stripe_charges s @ [q]" "serves sets a q" "outcomes m' = outcomes m + 1"
      "sm_skipped m' = sm_skipped m" "sm_claimed m' = sm_claimed m + 1"
proof -
  obtain claimed u where c: "claimAttempt E a s = (Inr claimed, u)"
    and r: "(if \<not> claimed then ret (m\<lparr>sm_skipped := sm_skipped m + 1\<rparr>)
     else (let m1 = m\<lparr>sm_claimed := sm_claimed m + 1\<rparr> in
           case saved_card (map_get sets (t_org a)) of
             None \<Rightarrow>
               bind (failAttemptById E (t_id a) ''No saved payment method.'') (\<lambda>_.
               ret (m1\<lparr>sm_skipped := sm_skipped m1 + 1\<rparr>))
           | Some (customer, pm) \<Rightarrow>
               bind (chargeAttempt E stripe a customer pm) (\<lambda>outcome. ret (count_outcome outcome m1)))) u = (Inr m', t)"
    using assms unfolding process_attempt_def by (rule bind_InrE)
  have u: "stripe_charges u = stripe_charges s" by (rule claim_charges [OF c])
  show thesis
  proof (cases claimed)
    case False
    then show thesis using r u that(1) by auto
  next
    case True
    show thesis
    proof (cases "saved_card (map_get sets (t_org a))")
      case None
      have "stripe_charges (snd (failAttemptById E (t_id a) ''No saved payment method.'' u)) = stripe_charges u"
        by (rule keepsD [OF quiet.keeps_failAttemptById refl])
      then show thesis using True None r u that(1) by (auto simp: Let_def elim!: bind_InrE)
    next
      case (Some cp)
      obtain c p where cp: "cp = (c, p)" by (cases cp)
      obtain o' where "chargeAttempt E stripe a c p u = (Inr o', t)"
        "m' = count_outcome o' (m\<lparr>sm_claimed := sm_claimed m + 1\<rparr>)"
        using True Some cp r by (auto simp: Let_def elim!: bind_InrE)
      then show thesis
        using charge_step [of E stripe a c p u] u that(2) Some cp by (auto simp: serves_def)
    qed
  qed
qed


lemma run_requests:
  assumes "process_attempts E stripe sets as m s = (Inr m', t)"
  shows "\<exists>qs. stripe_charges t = stripe_charges s @ qs \<and> outcomes m' = outcomes m + length qs
    \<and> outcomes m' + sm_skipped m' = outcomes m + sm_skipped m + length as
    \<and> sm_claimed m' \<le> sm_claimed m + length as \<and> sm_claimed m + length qs \<le> sm_claimed m'
    \<and> (\<forall>q\<in>set qs. \<exists>a\<in>set as. serves sets a q)
    \<and> (distinct (map t_id as) \<longrightarrow> distinct (map ch_idempotency_key qs))"
  using assms
proof (induction as arbitrary: m s)
  case Nil
  then show ?case by auto
next
  case (Cons a as)
  obtain n u where n: "process_attempt E stripe sets a m s = (Inr n, u)"
    and rest: "process_attempts E stripe sets as n u = (Inr m', t)"
    using Cons.prems by (auto elim: bind_InrE)
  obtain qs where qs: "stripe_charges t = stripe_charges u @ qs" "outcomes m' = outcomes n + length qs"
    "outcomes m' + sm_skipped m' = outcomes n + sm_skipped n + length as"
    "sm_claimed m' \<le> sm_claimed n + length as" "sm_claimed n + length qs \<le> sm_claimed m'"
    "\<forall>q\<in>set qs. \<exists>a\<in>set as. serves sets a q" "distinct (map t_id as) \<longrightarrow> distinct (map ch_idempotency_key qs)"
    using Cons.IH [OF rest] by auto
  from n show ?case
  proof (rule attempt_requests)
    assume "stripe_charges u = stripe_charges s" "outcomes n = outcomes m" "sm_skipped n = sm_skipped m + 1"
      "sm_claimed m \<le> sm_claimed n" "sm_claimed n \<le> sm_claimed m + 1"
    then show ?thesis using qs by (intro exI [of _ qs]) auto
  next
    fix q
    assume q: "stripe_charges u = stripe_charges s @ [q]" "serves sets a q" "outcomes n = outcomes m + 1"
      "sm_skipped n = sm_skipped m" "sm_claimed n = sm_claimed m + 1"
    have "ch_idempotency_key q \<notin> ch_idempotency_key ` set qs" if "distinct (map t_id (a # as))"
      using that q(2) qs(6) by (fastforce simp: serves_def charge_request_of_def)
    then show ?thesis using q qs by (intro exI [of _ "q # qs"]) auto
  qed
qed

text \<open>The charges alone, whether the run returns or throws midway.\<close>

lemma snd_bind_ret: "snd (bind m (\<lambda>x. ret (f x)) s) = snd (m s)"
  by (simp add: bind_apply split: prod.split sum.split)

lemma attempt_charges:
  assumes "process_attempt E stripe sets a m s = (r, t)"
  shows "stripe_charges t = stripe_charges s \<or> (\<exists>q. stripe_charges t = stripe_charges s @ [q] \<and> serves sets a q)"
proof -
  obtain claimed u where c: "claimAttempt E a s = (claimed, u)" by force
  have u: "stripe_charges u = stripe_charges s" by (rule claim_charges [OF c])
  let ?m1 = "m\<lparr>sm_claimed := sm_claimed m + 1\<rparr>"
  have t: "t = snd (process_attempt E stripe sets a m s)" using assms by simp
  show ?thesis
  proof (cases "claimed = Inr True")
    case False
    then have "t = u" using t c by (cases claimed) (auto simp: process_attempt_def bind_apply)
    then show ?thesis using u by simp
  next
    case True
    show ?thesis
    proof (cases "saved_card (map_get sets (t_org a))")
      case None
      have "t = snd (bind (failAttemptById E (t_id a) ''No saved payment method.'') (\<lambda>_. ret (?m1\<lparr>sm_skipped := sm_skipped ?m1 + 1\<rparr>)) u)"
        unfolding t process_attempt_def bind_apply [of "claimAttempt E a"] c True by (simp add: None)
      then have "t = snd (failAttemptById E (t_id a) ''No saved payment method.'' u)" unfolding snd_bind_ret .
      moreover have "stripe_charges (snd (failAttemptById E (t_id a) ''No saved payment method.'' u)) = stripe_charges u"
        by (rule keepsD [OF quiet.keeps_failAttemptById refl])
      ultimately show ?thesis using u by simp
    next
      case (Some cp)
      obtain c1 p where cp: "cp = (c1, p)" by (cases cp)
      have "t = snd (bind (chargeAttempt E stripe a c1 p) (\<lambda>outcome. ret (count_outcome outcome ?m1)) u)"
        unfolding t process_attempt_def bind_apply [of "claimAttempt E a"] c True by (simp add: Some cp Let_def)
      then have "t = snd (chargeAttempt E stripe a c1 p u)" unfolding snd_bind_ret .
      then show ?thesis using charge_step [of E stripe a c1 p u] u Some cp by (auto simp: serves_def)
    qed
  qed
qed

lemma run_charges:
  assumes "process_attempts E stripe sets as m s = (r, t)"
  shows "\<exists>qs. stripe_charges t = stripe_charges s @ qs \<and> (\<forall>q\<in>set qs. \<exists>a\<in>set as. serves sets a q)
    \<and> (distinct (map t_id as) \<longrightarrow> distinct (map ch_idempotency_key qs))"
  using assms
proof (induction as arbitrary: m s)
  case (Cons a as)
  obtain n u where n: "process_attempt E stripe sets a m s = (n, u)" by force
  have a: "stripe_charges u = stripe_charges s \<or> (\<exists>q. stripe_charges u = stripe_charges s @ [q] \<and> serves sets a q)"
    using attempt_charges [OF n] .
  obtain qs where qs: "stripe_charges t = stripe_charges u @ qs" "\<forall>q\<in>set qs. \<exists>a\<in>set as. serves sets a q"
    "distinct (map t_id as) \<longrightarrow> distinct (map ch_idempotency_key qs)"
  proof (cases n)
    case (Inl err)
    then have "t = u" using Cons.prems n by (simp add: bind_apply)
    then show thesis using that [of "[]"] by simp
  next
    case (Inr m1)
    then show thesis using Cons.IH [of m1 u] Cons.prems n that by (auto simp: bind_apply)
  qed
  from a show ?case
  proof
    assume "stripe_charges u = stripe_charges s"
    then show ?thesis using qs by (intro exI [of _ qs]) auto
  next
    assume "\<exists>q. stripe_charges u = stripe_charges s @ [q] \<and> serves sets a q"
    then obtain q where q: "stripe_charges u = stripe_charges s @ [q]" "serves sets a q" by blast
    have "ch_idempotency_key q \<notin> ch_idempotency_key ` set qs" if "distinct (map t_id (a # as))"
      using that q(2) qs(2) by (fastforce simp: serves_def charge_request_of_def)
    then show ?thesis using q qs by (intro exI [of _ "q # qs"]) auto
  qed
qed auto

lemma fold_map_set_get:
  "map_get (fold (\<lambda>row m. map_set (s_org row) row m) rows m0) oid = Some r
   \<Longrightarrow> (r \<in> set rows \<and> s_org r = oid) \<or> map_get m0 oid = Some r"
  by (induction rows arbitrary: m0) (fastforce simp: update_conv split: if_splits)+

lemma loadSettings_rows:
  assumes "loadSettings E oids s = (Inr sets, t)" and "map_get sets oid = Some r"
  shows "t = s \<and> r \<in> set (recharge_settings s) \<and> s_org r = oid"
  using assms by (auto simp: loadSettings_def bind_apply read_db_def dest!: fold_map_set_get
      split: option.splits fault.splits sum.splits)

lemma loadSettings_state: "loadSettings E oids s = (r, t) \<Longrightarrow> t = s"
  by (rule reads_only [rotated]) (assumption, simp add: loadSettings_def, intro keeps_intros)

lemma run_InrE:
  assumes "processPendingAutoRecharges E stripe limit s = (Inr m, t)"
  obtains sets where "process_attempts E stripe sets (candidate_attempts (now_ms E - LEASE_MS) limit s) no_work s = (Inr m, t)"
    and "\<forall>oid r. map_get sets oid = Some r \<longrightarrow> r \<in> set (recharge_settings s) \<and> s_org r = oid"
proof -
  let ?rows = "candidate_attempts (now_ms E - LEASE_MS) limit s"
  have "(if ?rows = [] then ret no_work
     else bind (loadSettings E (remdups (map t_org ?rows))) (\<lambda>settingsByOrg.
          process_attempts E stripe settingsByOrg ?rows no_work)) s = (Inr m, t)"
    using assms unfolding processPendingAutoRecharges_def
    by (auto elim!: bind_InrE orThrow_InrE dest!: read_db_InrD)
  then show thesis
  proof (cases "?rows = []")
    case True
    then show thesis using \<open>(if _ then _ else _) s = _\<close> that [of "[]"] by simp
  next
    case False
    then obtain sets u where "loadSettings E (remdups (map t_org ?rows)) s = (Inr sets, u)"
      "process_attempts E stripe sets ?rows no_work u = (Inr m, t)"
      using \<open>(if _ then _ else _) s = _\<close> by (auto elim!: bind_InrE)
    then show thesis using loadSettings_rows loadSettings_state that by blast
  qed
qed

lemma run_cases:
  assumes "processPendingAutoRecharges E stripe limit s = (r, t)"
  obtains "t = s"
  | sets m where "process_attempts E stripe sets (candidate_attempts (now_ms E - LEASE_MS) limit s) no_work s = (m, t)"
    and "\<forall>oid row. map_get sets oid = Some row \<longrightarrow> row \<in> set (recharge_settings s) \<and> s_org row = oid"
proof -
  let ?rows = "candidate_attempts (now_ms E - LEASE_MS) limit s"
  let ?load = "loadSettings E (remdups (map t_org ?rows))"
  have "t = s \<or> (bind ?load (\<lambda>sets. process_attempts E stripe sets ?rows no_work) s = (r, t))"
    using assms unfolding processPendingAutoRecharges_def
    by (auto simp: bind_apply [of "query _ _"] bind_apply [of "orThrow _ _"] read_db_def orThrow_def split: option.splits fault.splits if_splits)
  then show thesis
  proof
    assume b: "bind ?load (\<lambda>sets. process_attempts E stripe sets ?rows no_work) s = (r, t)"
    obtain x u where l: "?load s = (x, u)" by force
    have u: "u = s" using loadSettings_state [OF l] .
    show thesis
    proof (cases x)
      case (Inl err)
      then show thesis using b l u that(1) by (simp add: bind_apply)
    next
      case (Inr sets)
      have "process_attempts E stripe sets ?rows no_work s = (r, t)" using b l u Inr by (simp add: bind_apply)
      moreover have "\<forall>oid row. map_get sets oid = Some row \<longrightarrow> row \<in> set (recharge_settings s) \<and> s_org row = oid"
        using loadSettings_rows l Inr by blast
      ultimately show thesis by (rule that(2))
    qed
  qed (rule that(1))
qed

lemma servesD:
  "serves sets a q \<Longrightarrow> \<exists>r. map_get sets (t_org a) = Some r \<and> s_customer_id r = Some (ch_customer q)
     \<and> s_payment_method_id r = Some (ch_payment_method q) \<and> ch_idempotency_key q = t_id a \<and> ch_org q = t_org a
     \<and> ch_amount_cents q = cents_of (t_amount_usd a)"
  by (auto simp: serves_def saved_card_def charge_request_of_def split: option.splits if_splits)

lemma candidate_ids_distinct:
  assumes "distinct (map t_id (recharge_attempts s))"
  shows "distinct (map t_id (candidate_attempts cutoff limit s))"
proof -
  let ?xs = "filter (claimable cutoff) (recharge_attempts s)"
  have "distinct (map t_id ?xs)" using assms by (rule distinct_map_filter)
  then have "distinct (map t_id (sort_key t_created_at ?xs))" by (simp add: distinct_map)
  then show ?thesis unfolding candidate_attempts_def by (simp add: take_map flip: take_map)
qed

section \<open>Properties\<close>

text \<open>
  A run's tally is exact: every loaded attempt is counted once as charged, declined,
  retryable or skipped, at most \<open>limit\<close> of them, and the number of payments asked of Stripe is the
  number counted as charged, declined or retryable, each of them after a won claim.
\<close>

theorem run_accounts_for_every_attempt:
  assumes "processPendingAutoRecharges E stripe limit s = (Inr m, t)"
  shows "sm_charged m + sm_declined m + sm_retryable m + sm_skipped m
      = min limit (length (filter (claimable (now_ms E - LEASE_MS)) (recharge_attempts s)))
    \<and> length (stripe_charges t) = length (stripe_charges s) + sm_charged m + sm_declined m + sm_retryable m
    \<and> sm_charged m + sm_declined m + sm_retryable m \<le> sm_claimed m"
proof -
  obtain sets where r: "process_attempts E stripe sets (candidate_attempts (now_ms E - LEASE_MS) limit s) no_work s = (Inr m, t)"
    by (rule run_InrE [OF assms])
  show ?thesis using run_requests [OF r]
    by (auto simp: outcomes_def no_work_def candidate_attempts_def)
qed

definition queued_db :: db where
  "queued_db = (carded_db ''pm_1'')\<lparr>recharge_attempts :=
     [\<lparr>t_id = ''a1'', t_org = ''o1'', t_amount_usd = js_int 5, t_status = ''pending'', t_intent = None, t_error = None,
       t_created_at = 7, t_updated_at = 7\<rparr>]\<rparr>"

definition settled :: "charge_request \<Rightarrow> charge_outcome" where
  "settled q = Intent (''pi_'' @ ch_idempotency_key q) ''succeeded''"

theorem run_accounts_for_every_attempt_witness:
  "\<exists>m t. processPendingAutoRecharges sample_env settled 25 queued_db = (Inr m, t) \<and> sm_charged m = 1
     \<and> length (stripe_charges t) = 1"
proof -
  let ?r = "processPendingAutoRecharges sample_env settled 25 queued_db"
  have "case fst ?r of Inr m \<Rightarrow> sm_charged m = 1 \<and> sm_declined m = 0 \<and> sm_retryable m = 0 | _ \<Rightarrow> False"
    by code_simp
  then obtain m where m: "?r = (Inr m, snd ?r)" "sm_charged m = 1" "sm_declined m = 0" "sm_retryable m = 0"
    by (cases ?r) (auto split: sum.splits)
  have "length (stripe_charges queued_db) = 0" by code_simp
  then show ?thesis using run_accounts_for_every_attempt [OF m(1)] m by auto
qed

text \<open>
  C14. A run, whether it returns or throws midway, charges each attempt at most once, and exactly what was
  queued: the payments it asks for carry pairwise different idempotency keys, each the id of an attempt
  that was claimable when the run began, for that attempt's amount in cents and organization, from the
  card that organization's settings hold.
\<close>

theorem run_charges_what_was_queued:
  assumes "processPendingAutoRecharges E stripe limit s = (r, t)"
    and "distinct (map t_id (recharge_attempts s))"
  shows "\<exists>qs. stripe_charges t = stripe_charges s @ qs \<and> distinct (map ch_idempotency_key qs)
    \<and> (\<forall>q\<in>set qs. \<exists>a\<in>set (recharge_attempts s). \<exists>row\<in>set (recharge_settings s).
         claimable (now_ms E - LEASE_MS) a \<and> ch_idempotency_key q = t_id a \<and> ch_org q = t_org a
         \<and> ch_amount_cents q = cents_of (t_amount_usd a) \<and> s_org row = t_org a
         \<and> s_customer_id row = Some (ch_customer q) \<and> s_payment_method_id row = Some (ch_payment_method q))"
  using assms(1)
proof (cases rule: run_cases)
  case (2 sets m)
  let ?rows = "candidate_attempts (now_ms E - LEASE_MS) limit s"
  have rows: "set ?rows \<subseteq> {a \<in> set (recharge_attempts s). claimable (now_ms E - LEASE_MS) a}"
    unfolding candidate_attempts_def using set_take_subset by fastforce
  have d: "distinct (map t_id ?rows)" using assms(2) by (rule candidate_ids_distinct)
  obtain qs where qs: "stripe_charges t = stripe_charges s @ qs" "\<forall>q\<in>set qs. \<exists>a\<in>set ?rows. serves sets a q"
    "distinct (map ch_idempotency_key qs)"
    using run_charges [OF 2(1)] d by auto
  have "\<exists>a\<in>set (recharge_attempts s). \<exists>row\<in>set (recharge_settings s).
         claimable (now_ms E - LEASE_MS) a \<and> ch_idempotency_key q = t_id a \<and> ch_org q = t_org a
         \<and> ch_amount_cents q = cents_of (t_amount_usd a) \<and> s_org row = t_org a
         \<and> s_customer_id row = Some (ch_customer q) \<and> s_payment_method_id row = Some (ch_payment_method q)"
    if "q \<in> set qs" for q
    using qs(2) that rows 2(2) by (fastforce dest!: servesD)
  with qs show ?thesis by blast
qed auto


theorem run_charges_what_was_queued_witness:
  "\<exists>q. stripe_charges (snd (processPendingAutoRecharges sample_env settled 25 queued_db)) = [q]
     \<and> ch_amount_cents q = cents_of (js_int 5) \<and> ch_payment_method q = ''pm_1''"
proof -
  let ?r = "processPendingAutoRecharges sample_env settled 25 queued_db"
  have m: "?r = (fst ?r, snd ?r)" by simp
  have a: "recharge_attempts queued_db = [\<lparr>t_id = ''a1'', t_org = ''o1'', t_amount_usd = js_int 5, t_status = ''pending'',
      t_intent = None, t_error = None, t_created_at = 7, t_updated_at = 7\<rparr>]"
    and r: "recharge_settings queued_db = [(default_settings ''o1'')\<lparr>s_customer_id := Some ''cus_1'', s_payment_method_id := Some ''pm_1''\<rparr>]"
    by (simp_all add: queued_db_def carded_db_def)
  have "length (stripe_charges (snd ?r)) = 1" and "stripe_charges queued_db = []" by code_simp+
  then show ?thesis
    using run_charges_what_was_queued [OF m] unfolding a r by (auto simp: length_Suc_conv)
qed

text \<open>
  Two pollers cannot both take an attempt: when one has won the compare-and-swap for a row it
  read, at a clock other than the row's own \<open>updated_at\<close>, a second poller holding the same copy of
  the row does not win it and changes nothing.
\<close>

theorem claim_has_one_winner:
  assumes "claimAttempt E a s = (Inr True, t)" and "now_ms E \<noteq> t_updated_at a"
    and "claimAttempt F a t = (Inr won, u)"
  shows "\<not> won \<and> u = t"
proof -
  have "t = s\<lparr>recharge_attempts := update_where (claimed_by a)
      (\<lambda>b. b\<lparr>t_status := ''processing'', t_updated_at := now_ms E\<rparr>) (recharge_attempts s)\<rparr>"
    using assms(1) by (auto simp: claimAttempt_def claim_update_def elim!: bind_InrE orThrow_InrE dest!: call_InrD)
  then have none: "\<not> claimed_by a b" if "b \<in> set (recharge_attempts t)" for b
    using that assms(2) by (auto simp: set_update_where claimed_by_def)
  then have "filter (claimed_by a) (recharge_attempts t) = []" and
    "update_where (claimed_by a) (\<lambda>b. b\<lparr>t_status := ''processing'', t_updated_at := now_ms F\<rparr>) (recharge_attempts t) = recharge_attempts t"
    by (auto simp: filter_empty_conv)
  then show ?thesis
    using assms(3) by (auto simp: claimAttempt_def claim_update_def elim!: bind_InrE orThrow_InrE dest!: call_InrD)
qed

theorem claim_has_one_winner_witness:
  "let a = hd (recharge_attempts queued_db); t = snd (claimAttempt sample_env a queued_db) in
   claimAttempt sample_env a t = (Inr False, t)"
proof -
  let ?a = "hd (recharge_attempts queued_db)" and ?t = "snd (claimAttempt sample_env (hd (recharge_attempts queued_db)) queued_db)"
  have "fst (claimAttempt sample_env ?a queued_db) = Inr True" by code_simp
  then have one: "claimAttempt sample_env ?a queued_db = (Inr True, ?t)" by (simp add: prod_eq_iff)
  have "now_ms sample_env \<noteq> t_updated_at ?a" by code_simp
  note w = claim_has_one_winner [OF one this]
  have "fst (claimAttempt sample_env ?a ?t) = Inr False" by code_simp
  then have two: "claimAttempt sample_env ?a ?t = (Inr False, snd (claimAttempt sample_env ?a ?t))" by (simp add: prod_eq_iff)
  have "snd (claimAttempt sample_env ?a ?t) = ?t" using w [OF two] by blast
  then show ?thesis using two by (simp add: Let_def)
qed

definition lost_failure_env :: env where
  "lost_failure_env = sample_env\<lparr>faults := (\<lambda>c. if c = ''record_auto_recharge_failure''
      then Some (Lost \<lparr>code = None, message = ''connection reset''\<rparr>) else None)\<rparr>"

definition later_env :: env where
  "later_env = sample_env\<lparr>now_ms := 2000000\<rparr>"

definition needs_action :: "charge_request \<Rightarrow> charge_outcome" where
  "needs_action q = Intent (''pi_'' @ ch_idempotency_key q) ''requires_action''"

definition failures_after :: "db \<Rightarrow> int list" where
  "failures_after s = map s_consecutive_failures (recharge_settings s)"

text \<open>
  One decline can count twice towards the three that pause an organization: when the failure
  is recorded but its answer is lost, the error path puts the closed attempt back to pending
  (by id, whatever its status), so the next run asks Stripe again under the same idempotency key,
  gets the same answer, and bumps the counter a second time.
\<close>

theorem lost_answer_counts_a_decline_twice:
  "let s1 = snd (processPendingAutoRecharges lost_failure_env needs_action 25 queued_db);
       s2 = snd (processPendingAutoRecharges later_env needs_action 25 s1)
   in failures_after queued_db = [0] \<and> failures_after s1 = [1] \<and> map t_status (recharge_attempts s1) = [''pending'']
      \<and> failures_after s2 = [2] \<and> map ch_idempotency_key (stripe_charges s2) = [''a1'', ''a1'']"
  unfolding Let_def by (intro conjI) code_simp+

end
