(* ===== verification/Number_Text.thy ===== *)
theory Number_Text
  imports Money
begin

text \<open>
  JavaScript's \<open>Number(text)\<close>: the decimal, hexadecimal, octal and binary literals of the string
  grammar, \<open>Infinity\<close>, and NaN for everything else; the empty text is 0. The lemmas say that the
  decimal digits of a safe integer read back as that integer.
\<close>

section \<open>Text to number\<close>

definition exponent_of :: "string \<Rightarrow> int option" where
  "exponent_of x =
     (case x of
        [] \<Rightarrow> Some 0
      | _ # y \<Rightarrow>
          (let neg = (y \<noteq> [] \<and> hd y = CHR ''-'');
               ds = (if y \<noteq> [] \<and> (hd y = CHR ''-'' \<or> hd y = CHR ''+'') then tl y else y)
           in if ds = [] \<or> \<not> list_all is_digit ds then None
              else Some (if neg then - num_value ds else num_value ds)))"

definition decimal_of :: "string \<Rightarrow> rat option" where
  "decimal_of u =
     (let not_e = (\<lambda>c. c \<noteq> CHR ''e'' \<and> c \<noteq> CHR ''E'');
          m = takeWhile not_e u; ip = takeWhile is_digit m; r = dropWhile is_digit m;
          fp = (if r = [] then [] else tl r)
      in if (r \<noteq> [] \<and> hd r \<noteq> CHR ''.'') \<or> \<not> list_all is_digit fp \<or> (ip = [] \<and> fp = []) then None
         else map_option (\<lambda>e. of_int (num_value (ip @ fp)) * 10 powi (e - int (length fp)))
                (exponent_of (dropWhile not_e u)))"

definition hex_val :: "char \<Rightarrow> int option" where
  "hex_val c = (let n = int (of_char c) in
     if is_digit c then Some (n - 48) else if 97 \<le> n \<and> n \<le> 102 then Some (n - 87)
     else if 65 \<le> n \<and> n \<le> 70 then Some (n - 55) else None)"

definition radix_of :: "int \<Rightarrow> string \<Rightarrow> jsnum" where
  "radix_of b ds =
     (if ds = [] \<or> list_ex (\<lambda>c. case hex_val c of None \<Rightarrow> True | Some v \<Rightarrow> b \<le> v) ds then Nan
      else num_round False (of_int (foldl (\<lambda>a c. b * a + (case hex_val c of None \<Rightarrow> 0 | Some v \<Rightarrow> v)) 0 ds)))"

definition js_Number :: "string \<Rightarrow> jsnum" where
  "js_Number s =
     (let t = trim s; p = toLowerCase (take 2 t) in
      if t = [] then Fin False 0
      else if p = ''0x'' then radix_of 16 (drop 2 t)
      else if p = ''0o'' then radix_of 8 (drop 2 t)
      else if p = ''0b'' then radix_of 2 (drop 2 t)
      else (let neg = (hd t = CHR ''-'');
                u = (if hd t = CHR ''-'' \<or> hd t = CHR ''+'' then tl t else t)
            in if u = ''Infinity'' then Infty neg
               else (case decimal_of u of None \<Rightarrow> Nan | Some r \<Rightarrow> num_round neg r)))"

definition js_is_safe_integer :: "jsnum \<Rightarrow> bool" where
  "js_is_safe_integer x =
     (case x of Fin s m \<Rightarrow> of_int \<lfloor>m\<rfloor> = m \<and> m \<le> 2 ^ 53 - 1 | _ \<Rightarrow> False)"

definition js_to_int :: "jsnum \<Rightarrow> int" where
  "js_to_int x = \<lfloor>jsval x\<rfloor>"

section \<open>Lemmas\<close>

lemma is_digit_digit_char: "0 \<le> d \<Longrightarrow> d < 10 \<Longrightarrow> is_digit (digit_char d)"
  by (simp add: is_digit_def digit_char_def Let_def)

lemma digits_dec_string: "0 \<le> n \<Longrightarrow> list_all is_digit (dec_string n)"
proof (induction n rule: dec_string.induct)
  case (1 n)
  then show ?case by (cases "n < 10") (simp_all add: dec_string.simps [of n] is_digit_digit_char)
qed

lemma dec_string_nonempty [simp]: "dec_string n \<noteq> []"
  by (simp add: dec_string.simps [of n])

lemma digits_trim: "list_all is_digit s \<Longrightarrow> trim s = s"
proof -
  assume d: "list_all is_digit s"
  have ws: "\<not> is_ws c" if "is_digit c" for c using that by (auto simp: is_digit_def is_ws_def Let_def)
  have "dropWhile is_ws xs = xs" if "list_all is_digit xs" for xs using that ws by (cases xs) auto
  from this [OF d] this [of "rev s"] d show ?thesis by (simp add: trim_def trim_start_def)
qed

lemma decimal_of_digits: "list_all is_digit u \<Longrightarrow> u \<noteq> [] \<Longrightarrow> decimal_of u = Some (of_int (num_value u))"
proof -
  assume d: "list_all is_digit u" and ne: "u \<noteq> []"
  have e: "c \<noteq> CHR ''e'' \<and> c \<noteq> CHR ''E''" if "is_digit c" for c using that by (auto simp: is_digit_def)
  have t: "takeWhile (\<lambda>c. c \<noteq> CHR ''e'' \<and> c \<noteq> CHR ''E'') u = u" "takeWhile is_digit u = u"
    using d e by (auto simp: list_all_iff)
  have w: "dropWhile (\<lambda>c. c \<noteq> CHR ''e'' \<and> c \<noteq> CHR ''E'') u = []" "dropWhile is_digit u = []"
    using d e by (auto simp: list_all_iff)
  show ?thesis unfolding decimal_of_def Let_def t w by (simp add: exponent_of_def ne)
qed

lemma js_Number_dec_string:
  assumes "0 \<le> n" and "n < 2 ^ 53"
  shows "js_Number (dec_string n) = js_int n"
proof -
  let ?u = "dec_string n"
  have d: "list_all is_digit ?u" using assms(1) by (rule digits_dec_string)
  have letter: "\<not> is_digit (CHR ''x'')" "\<not> is_digit (CHR ''o'')" "\<not> is_digit (CHR ''b'')" "\<not> is_digit (CHR ''-'')"
      "\<not> is_digit (CHR ''+'')" "\<not> is_digit (CHR ''I'')" by code_simp+
  have low: "toLowerCase (take 2 ?u) = take 2 ?u"
  proof -
    have "lower_char c = c" if "is_digit c" for c using that by (auto simp: is_digit_def lower_char_def Let_def)
    then show ?thesis using d by (auto simp: toLowerCase_def list_all_iff intro!: map_idI dest: in_set_takeD)
  qed
  have "list_all is_digit (take 2 ?u)" using d by (auto simp: list_all_iff dest: in_set_takeD)
  then have p: "take 2 ?u \<noteq> ''0x''" "take 2 ?u \<noteq> ''0o''" "take 2 ?u \<noteq> ''0b''" using letter by auto
  obtain c cs where c: "?u = c # cs" by (meson dec_string_nonempty neq_Nil_conv)
  then have h: "hd ?u \<noteq> CHR ''-''" "hd ?u \<noteq> CHR ''+''" "?u \<noteq> ''Infinity''" using d letter by auto
  have "js_Number ?u = num_round False (of_int n)"
    unfolding js_Number_def Let_def digits_trim [OF d] low
    using p h decimal_of_digits [OF d] num_value_dec_string [OF assms(1)] by simp
  also have "\<dots> = js_int n"
  proof -
    have "(of_int n :: rat) \<le> 10 ^ 30" using assms(2) by simp
    then show ?thesis using fl_of_int [OF assms] assms(1) by (simp add: num_round_ordinary js_int_def)
  qed
  finally show ?thesis .
qed

lemma safe_integer_int: "0 \<le> n \<Longrightarrow> n < 2 ^ 53 \<Longrightarrow> js_is_safe_integer (js_int n)"
proof -
  assume "0 \<le> n" and "n < 2 ^ 53"
  then have "(of_int n :: rat) \<le> of_int (2 ^ 53 - 1)" unfolding of_int_le_iff by simp
  with \<open>0 \<le> n\<close> show ?thesis by (simp add: js_is_safe_integer_def js_int_def)
qed

lemma js_to_int_int [simp]: "js_to_int (js_int n) = n"
  by (simp add: js_to_int_def js_int_def)

end
