(* ===== verification/Stripe_Webhook.thy ===== *)
theory Stripe_Webhook
  imports Recharge Number_Text
begin

text \<open>
  Stripe's callback, \<open>app/api/stripe/webhook/route.ts\<close>: the only place where a payment becomes
  credit. Signature verification and the lookup of a saved payment method are Stripe's and are the
  arguments \<open>verify\<close> and \<open>retrieve\<close>; the recharge notice is the mail the handler returns. The last
  sections put the webhook, the poller, the queue and the settings together as one history.
\<close>

section \<open>Events\<close>

type_synonym metadata = "(string, string) jsmap option"

record checkout_session =
  cs_id :: string
  cs_payment_status :: string
  cs_metadata :: metadata
  cs_currency :: "string option"
  cs_amount_subtotal :: "jsnum option"
  cs_amount_total :: "jsnum option"
  cs_client_reference_id :: "string option"
  cs_payment_intent :: "string option"
  cs_customer :: "string option"
  cs_email :: "string option"

record payment_intent =
  pi_id :: string
  pi_metadata :: metadata
  pi_currency :: string
  pi_amount_received :: jsnum
  pi_amount :: jsnum
  pi_last_error :: "string option"

datatype event_object =
    Checkout_completed checkout_session
  | Payment_succeeded payment_intent
  | Payment_failed payment_intent
  | Other_event

record stripe_event =
  ev_livemode :: bool
  ev_object :: event_object

record stripe_config =
  sk_secret_key :: "string option"
  sk_webhook_secret :: "string option"
  sk_origin :: string

record recharge_mail =
  ml_to :: string
  ml_org_name :: string
  ml_amount_usd :: jsnum
  ml_balance_usd :: jsnum
  ml_credits_url :: string

type_synonym outcome = "resp \<times> recharge_mail option"

definition meta :: "metadata \<Rightarrow> string \<Rightarrow> string option" where
  "meta m k = (case m of None \<Rightarrow> None | Some kvs \<Rightarrow> map_get kvs k)"

definition received :: "bool \<Rightarrow> bool \<Rightarrow> resp" where
  "received handled replay = json_resp (JObj ([(''received'', JBool True), (''handled'', JBool handled)]
     @ (if replay then [(''replay'', JBool True)] else []))) 200"

abbreviation not_handled :: outcome where
  "not_handled \<equiv> (received False False, None)"

abbreviation ledger_failed :: outcome where
  "ledger_failed \<equiv> (error_resp ''Ledger write failed.'' 500, None)"

definition credited_org :: "string option \<Rightarrow> jsnum option \<Rightarrow> (string \<times> jsnum) option" where
  "credited_org orgId amountCents =
     (case (orgId, amountCents) of
        (Some oid, Some c) \<Rightarrow> if oid = '''' \<or> js_le c (js_int 0) then None else Some (oid, c)
      | _ \<Rightarrow> None)"

section \<open>A completed checkout\<close>

definition our_topup :: "checkout_session \<Rightarrow> bool" where
  "our_topup cs \<longleftrightarrow> meta (cs_metadata cs) ''purpose'' = Some TOPUP_PURPOSE \<and> cs_currency cs = Some ''usd''"

definition repriced :: "checkout_session \<Rightarrow> bool" where
  "repriced cs \<longleftrightarrow>
     (case cs_amount_subtotal cs of
        None \<Rightarrow> False
      | Some n \<Rightarrow> (case cs_amount_total cs of None \<Rightarrow> True | Some m \<Rightarrow> \<not> js_eq n m))"

definition session_org :: "checkout_session \<Rightarrow> string option" where
  "session_org cs = (case cs_client_reference_id cs of Some o' \<Rightarrow> Some o' | None \<Rightarrow> meta (cs_metadata cs) ''org_id'')"

definition topup_row :: "checkout_session \<Rightarrow> string \<Rightarrow> jsnum \<Rightarrow> ledger_row" where
  "topup_row cs oid amountCents =
     \<lparr>l_org = oid, l_entry_type = ''topup'', l_amount_usd = js_div amountCents (js_int 100), l_reason = ''Credit top-up'',
      l_source = ''stripe'', l_source_ref = Some (cs_id cs), l_created_by = meta (cs_metadata cs) ''requested_by''\<rparr>"

definition truthy :: "string option \<Rightarrow> string option" where
  "truthy v = (if v = Some '''' then None else v)"

definition save_card :: "jsnum \<Rightarrow> jsnum \<Rightarrow> string \<Rightarrow> string \<Rightarrow> string option \<Rightarrow> settings_row \<Rightarrow> settings_row" where
  "save_card threshold amount customer pm mail r =
     r\<lparr>s_enabled := True,
       s_threshold_usd := (if js_is_finite threshold then threshold else s_threshold_usd r),
       s_amount_usd := (if js_is_finite amount then amount else s_amount_usd r),
       s_customer_id := Some customer, s_payment_method_id := Some pm, s_notify_email := mail,
       s_consecutive_failures := 0, s_last_failure_at := None, s_last_failure_message := None\<rparr>"

definition number_or_nan :: "string option \<Rightarrow> jsnum" where
  "number_or_nan v = (case v of None \<Rightarrow> Nan | Some t \<Rightarrow> js_Number t)"

definition persistAutoRecharge :: "env \<Rightarrow> (string \<Rightarrow> string option option) \<Rightarrow> checkout_session \<Rightarrow> string \<Rightarrow> unit act" where
  "persistAutoRecharge E retrieve cs oid =
     (case (truthy (cs_payment_intent cs), truthy (cs_customer cs)) of
        (Some pid, Some customer) \<Rightarrow>
          (case retrieve pid of
             None \<Rightarrow> ret ()
           | Some pm \<Rightarrow>
               (case truthy pm of
                  None \<Rightarrow> ret ()
                | Some m \<Rightarrow>
                    bind (call (faults E ''org_auto_recharge_settings.card'')
                            (upsert_settings oid (save_card (number_or_nan (meta (cs_metadata cs) ''autorecharge_threshold_usd''))
                               (number_or_nan (meta (cs_metadata cs) ''autorecharge_amount_usd'')) customer m (cs_email cs)))) (\<lambda>r.
                    case r of Inl _ \<Rightarrow> ret () | Inr _ \<Rightarrow> unlockSpendOnCardSaved E oid)))
      | _ \<Rightarrow> ret ())"

definition credit_topup :: "env \<Rightarrow> (string \<Rightarrow> string option option) \<Rightarrow> checkout_session \<Rightarrow> string \<Rightarrow> jsnum \<Rightarrow> outcome act" where
  "credit_topup E retrieve cs oid amountCents =
     bind (call (faults E ''credit_ledger.insert'') (insert_ledger (topup_row cs oid amountCents))) (\<lambda>r.
     let dup = (case r of Inl err \<Rightarrow> code err = Some ''23505'' | Inr _ \<Rightarrow> False) in
     if (case r of Inl err \<Rightarrow> True | Inr _ \<Rightarrow> False) \<and> \<not> dup then ret ledger_failed
     else bind (if meta (cs_metadata cs) ''autorecharge'' = Some ''on'' then persistAutoRecharge E retrieve cs oid else ret ()) (\<lambda>_.
          ret (received True dup, None)))"

definition handleCheckoutCompleted :: "env \<Rightarrow> (string \<Rightarrow> string option option) \<Rightarrow> checkout_session \<Rightarrow> outcome act" where
  "handleCheckoutCompleted E retrieve cs =
     (if cs_payment_status cs \<noteq> ''paid'' then ret not_handled
      else if \<not> our_topup cs then ret not_handled
      else if repriced cs then ret (error_resp ''Unhandled pricing configuration.'' 500, None)
      else (case credited_org (session_org cs) (cs_amount_total cs) of
              None \<Rightarrow> ret not_handled
            | Some (oid, amountCents) \<Rightarrow>
                bind (query (faults E ''organizations.exists'') (org_exists oid)) (\<lambda>org.
                case org of
                  Inl _ \<Rightarrow> ret ledger_failed
                | Inr found \<Rightarrow> if \<not> found then ret not_handled else credit_topup E retrieve cs oid amountCents)))"

section \<open>An off-session payment\<close>

definition js_truthy :: "jsnum \<Rightarrow> bool" where
  "js_truthy n \<longleftrightarrow> n \<noteq> Nan \<and> \<not> js_eq n (js_int 0)"

definition intent_cents :: "payment_intent \<Rightarrow> jsnum" where
  "intent_cents p = (if js_truthy (pi_amount_received p) then pi_amount_received p else pi_amount p)"

definition our_recharge :: "payment_intent \<Rightarrow> bool" where
  "our_recharge p \<longleftrightarrow> meta (pi_metadata p) ''purpose'' = Some AUTORECHARGE_PURPOSE"

definition notifyRecharge :: "env \<Rightarrow> string \<Rightarrow> string \<Rightarrow> jsnum \<Rightarrow> recharge_mail option act" where
  "notifyRecharge E origin oid amountUsd =
     bind (query (faults E ''org_auto_recharge_settings.notify'') (settings_of oid)) (\<lambda>r.
     case truthy (case r of Inr (Some row) \<Rightarrow> s_notify_email row | _ \<Rightarrow> None) of
       None \<Rightarrow> ret None
     | Some mail \<Rightarrow>
         bind (query (faults E ''organizations.balance'') (\<lambda>s. first_where (\<lambda>o'. o_id o' = oid) (organizations s))) (\<lambda>r2.
         case r2 of
           Inr (Some org) \<Rightarrow>
             ret (Some \<lparr>ml_to = mail, ml_org_name = o_name org, ml_amount_usd = amountUsd,
                        ml_balance_usd = js_sub (read_numeric (o_credit_granted_usd org)) (read_numeric (o_billable_spend_usd org)),
                        ml_credits_url = origin @ creditsPath\<rparr>)
         | _ \<Rightarrow> ret None))"

definition handleAutoRechargeSucceeded :: "env \<Rightarrow> string \<Rightarrow> payment_intent \<Rightarrow> outcome act" where
  "handleAutoRechargeSucceeded E origin p =
     (if \<not> our_recharge p \<or> pi_currency p \<noteq> ''usd'' then ret not_handled
      else (case credited_org (meta (pi_metadata p) ''org_id'') (Some (intent_cents p)) of
              None \<Rightarrow> ret not_handled
            | Some (oid, amountCents) \<Rightarrow>
                bind (call (faults E ''record_auto_recharge_success'')
                        (record_auto_recharge_success (now_ms E) oid (pi_id p) (js_div amountCents (js_int 100)) ''auto-recharge'')) (\<lambda>r.
                case r of
                  Inl _ \<Rightarrow> ret ledger_failed
                | Inr Replay \<Rightarrow> ret (received True True, None)
                | Inr Credited \<Rightarrow>
                    bind (notifyRecharge E origin oid (js_div amountCents (js_int 100))) (\<lambda>mail.
                    ret (received True False, mail)))))"

definition handleAutoRechargeFailed :: "env \<Rightarrow> payment_intent \<Rightarrow> outcome act" where
  "handleAutoRechargeFailed E p =
     (if \<not> our_recharge p then ret not_handled
      else (case truthy (meta (pi_metadata p) ''org_id'') of
              None \<Rightarrow> ret not_handled
            | Some oid \<Rightarrow>
                bind (call (faults E ''record_auto_recharge_failure'')
                        (record_auto_recharge_failure (now_ms E) oid (pi_id p)
                           (case pi_last_error p of None \<Rightarrow> ''The card was declined.'' | Some m \<Rightarrow> m))) (\<lambda>r.
                case r of Inl _ \<Rightarrow> ret ledger_failed | Inr _ \<Rightarrow> ret (received True False, None))))"

section \<open>The route\<close>

definition accept_event :: "stripe_config \<Rightarrow> (string \<Rightarrow> string \<Rightarrow> string \<Rightarrow> stripe_event option) \<Rightarrow> string option \<Rightarrow> string \<Rightarrow> resp + stripe_event" where
  "accept_event cfg verify signature payload =
     (case truthy signature of
        None \<Rightarrow> Inl (error_resp ''Missing stripe-signature header.'' 400)
      | Some sig \<Rightarrow>
          (case (truthy (sk_secret_key cfg), truthy (sk_webhook_secret cfg)) of
             (Some key, Some secret) \<Rightarrow>
               (case verify payload sig secret of
                  None \<Rightarrow> Inl (error_resp ''Invalid webhook signature.'' 400)
                | Some ev \<Rightarrow>
                    if ev_livemode ev \<noteq> startsWith key ''sk_live_''
                    then Inl (error_resp (''Event livemode does not match this deployment'' @ [CHR 0x27] @ ''s Stripe mode.'') 400)
                    else Inr ev)
           | _ \<Rightarrow> Inl (error_resp ''Billing is not configured on this deployment.'' 503)))"

definition dispatch_event :: "env \<Rightarrow> string \<Rightarrow> (string \<Rightarrow> string option option) \<Rightarrow> stripe_event \<Rightarrow> outcome act" where
  "dispatch_event E origin retrieve ev =
     (case ev_object ev of
        Checkout_completed cs \<Rightarrow> handleCheckoutCompleted E retrieve cs
      | Payment_succeeded p \<Rightarrow> handleAutoRechargeSucceeded E origin p
      | Payment_failed p \<Rightarrow> handleAutoRechargeFailed E p
      | Other_event \<Rightarrow> ret not_handled)"

definition webhook_POST :: "env \<Rightarrow> stripe_config \<Rightarrow> (string \<Rightarrow> string \<Rightarrow> string \<Rightarrow> stripe_event option)
    \<Rightarrow> (string \<Rightarrow> string option option) \<Rightarrow> string option \<Rightarrow> string \<Rightarrow> outcome act" where
  "webhook_POST E cfg verify retrieve signature payload =
     (case accept_event cfg verify signature payload of
        Inl r \<Rightarrow> ret (r, None)
      | Inr ev \<Rightarrow> dispatch_event E (sk_origin cfg) retrieve ev)"


section \<open>What a delivery does to the ledger\<close>

definition justified :: "stripe_event \<Rightarrow> ledger_row \<Rightarrow> bool" where
  "justified ev r =
     (case ev_object ev of
        Checkout_completed cs \<Rightarrow>
          cs_payment_status cs = ''paid'' \<and> our_topup cs \<and> \<not> repriced cs
          \<and> (case credited_org (session_org cs) (cs_amount_total cs) of
               None \<Rightarrow> False | Some (oid, c) \<Rightarrow> r = topup_row cs oid c)
      | Payment_succeeded p \<Rightarrow>
          our_recharge p \<and> pi_currency p = ''usd''
          \<and> (case credited_org (meta (pi_metadata p) ''org_id'') (Some (intent_cents p)) of
               None \<Rightarrow> False
             | Some (oid, c) \<Rightarrow> r = recharge_row oid (pi_id p) (js_div c (js_int 100)) ''auto-recharge'')
      | _ \<Rightarrow> False)"

definition adds_at_most :: "ledger_row \<Rightarrow> ledger_row list \<Rightarrow> db \<Rightarrow> bool" where
  "adds_at_most r rows t \<longleftrightarrow> credit_ledger t = rows \<or> (\<not> key_taken r rows \<and> credit_ledger t = rows @ [r])"

lemma adds_frame [simp]:
  "adds_at_most r rows (t\<lparr>recharge_settings := x\<rparr>) = adds_at_most r rows t"
  "adds_at_most r rows (t\<lparr>recharge_attempts := y\<rparr>) = adds_at_most r rows t"
  "adds_at_most r rows (unlock_org now oid t) = adds_at_most r rows t"
  by (simp_all add: adds_at_most_def unlock_org_frame)

lemma upsert_frame:
  "upsert_settings oid f s = Inr (r, t) \<Longrightarrow> t = s\<lparr>recharge_settings := recharge_settings t\<rparr>"
  by (auto simp: upsert_settings_def Let_def split: option.splits if_splits)

lemma keeps_persist:
  assumes "\<And>s x. P s \<Longrightarrow> P (s\<lparr>recharge_settings := x\<rparr>)" and "\<And>s. P s \<Longrightarrow> P (unlock_org (now_ms E) oid s)"
  shows "keeps P (persistAutoRecharge E retrieve cs oid)"
proof -
  have "keeps P (call flt (upsert_settings oid f))" for flt f
    using assms(1) upsert_frame by (intro keeps_call) metis
  then show ?thesis
    unfolding persistAutoRecharge_def
    by (intro keeps_case_option keeps_case_prod keeps_ret keeps_bind keeps_case_sum keeps_unlockSpendOnCardSaved assms(2))
qed

lemma credit_topup_adds: "adds_at_most (topup_row cs oid c) (credit_ledger s) (snd (credit_topup E retrieve cs oid c s))"
  unfolding credit_topup_def Let_def
proof (rule bind_call_reaches)
  show "adds_at_most (topup_row cs oid c) (credit_ledger s) s" by (simp add: adds_at_most_def)
  show "adds_at_most (topup_row cs oid c) (credit_ledger s) t" if "insert_ledger (topup_row cs oid c) s = Inr (a, t)" for a t
    using that by (simp add: insert_ledger_Inr adds_at_most_def)
qed (intro keeps_if keeps_ret keeps_bind keeps_persist; simp)

lemma checkout_adds:
  "credit_ledger (snd (handleCheckoutCompleted E retrieve cs s)) = credit_ledger s
   \<or> (\<exists>r. justified \<lparr>ev_livemode = b, ev_object = Checkout_completed cs\<rparr> r
        \<and> adds_at_most r (credit_ledger s) (snd (handleCheckoutCompleted E retrieve cs s)))"
proof (cases "cs_payment_status cs = ''paid'' \<and> our_topup cs \<and> \<not> repriced cs")
  case False
  then show ?thesis by (auto simp: handleCheckoutCompleted_def)
next
  case True
  show ?thesis
  proof (cases "credited_org (session_org cs) (cs_amount_total cs)")
    case None
    then show ?thesis using True by (simp add: handleCheckoutCompleted_def)
  next
    case (Some p)
    obtain oid c where p: "p = (oid, c)" by (cases p)
    have "adds_at_most (topup_row cs oid c) (credit_ledger s) (snd (handleCheckoutCompleted E retrieve cs s))"
      using True Some p credit_topup_adds
      by (auto simp: handleCheckoutCompleted_def bind_apply adds_at_most_def split: sum.split)
    moreover have "justified \<lparr>ev_livemode = b, ev_object = Checkout_completed cs\<rparr> (topup_row cs oid c)"
      using True Some p by (simp add: justified_def)
    ultimately show ?thesis by blast
  qed
qed

lemma keeps_notify [keeps_intros]: "keeps P (notifyRecharge E origin oid amount)"
  unfolding notifyRecharge_def by (intro keeps_intros)

lemma record_success_frame:
  assumes "record_auto_recharge_success now oid pid amount by s = Inr (a, t)"
  shows "adds_at_most (recharge_row oid pid amount by) (credit_ledger s) t"
  using assms unfolding record_auto_recharge_success_def
  by (rule post_recharge_InrE) (simp_all add: adds_at_most_def)

lemma succeeded_adds:
  "credit_ledger (snd (handleAutoRechargeSucceeded E origin p s)) = credit_ledger s
   \<or> (\<exists>r. justified \<lparr>ev_livemode = b, ev_object = Payment_succeeded p\<rparr> r
        \<and> adds_at_most r (credit_ledger s) (snd (handleAutoRechargeSucceeded E origin p s)))"
proof (cases "our_recharge p \<and> pi_currency p = ''usd''")
  case False
  then show ?thesis by (auto simp: handleAutoRechargeSucceeded_def)
next
  case True
  show ?thesis
  proof (cases "credited_org (meta (pi_metadata p) ''org_id'') (Some (intent_cents p))")
    case None
    then show ?thesis using True by (simp add: handleAutoRechargeSucceeded_def)
  next
    case (Some q)
    obtain oid c where q: "q = (oid, c)" by (cases q)
    let ?r = "recharge_row oid (pi_id p) (js_div c (js_int 100)) ''auto-recharge''"
    have A: "adds_at_most ?r (credit_ledger s) (snd (bind (call flt (record_auto_recharge_success (now_ms E) oid (pi_id p)
        (js_div c (js_int 100)) ''auto-recharge'')) k s))" if "\<And>x. keeps (adds_at_most ?r (credit_ledger s)) (k x)" for flt k
    proof (rule bind_call_reaches)
      show "adds_at_most ?r (credit_ledger s) s" by (simp add: adds_at_most_def)
    qed (auto intro: record_success_frame that)
    have B: "keeps P (case x of Inl e \<Rightarrow> ret ledger_failed | Inr Replay \<Rightarrow> ret (received True True, None)
        | Inr Credited \<Rightarrow> bind (notifyRecharge E origin oid amt) (\<lambda>mail. ret (received True False, mail)))" for P x amt
      by (intro keeps_case_sum keeps_ret) (auto split: settlement.split intro!: keeps_intros)
    have eq: "handleAutoRechargeSucceeded E origin p = bind (call (faults E ''record_auto_recharge_success'')
        (record_auto_recharge_success (now_ms E) oid (pi_id p) (js_div c (js_int 100)) ''auto-recharge''))
        (\<lambda>x. case x of Inl e \<Rightarrow> ret ledger_failed | Inr Replay \<Rightarrow> ret (received True True, None)
        | Inr Credited \<Rightarrow> bind (notifyRecharge E origin oid (js_div c (js_int 100))) (\<lambda>mail. ret (received True False, mail)))"
      using True Some q by (simp add: handleAutoRechargeSucceeded_def)
    have "adds_at_most ?r (credit_ledger s) (snd (handleAutoRechargeSucceeded E origin p s))"
      unfolding eq by (rule A, rule B)
    moreover have "justified \<lparr>ev_livemode = b, ev_object = Payment_succeeded p\<rparr> ?r"
      using True Some q by (simp add: justified_def)
    ultimately show ?thesis by blast
  qed
qed

lemma failed_ledger: "credit_ledger (snd (handleAutoRechargeFailed E p s)) = credit_ledger s"
proof -
  have "keeps (\<lambda>x. credit_ledger x = credit_ledger s) (handleAutoRechargeFailed E p)"
    unfolding handleAutoRechargeFailed_def
    by (intro keeps_intros) (auto simp: record_auto_recharge_failure_def Let_def split: if_splits)
  then show ?thesis by (rule keepsD) simp
qed

lemma delivery_adds:
  "credit_ledger (snd (dispatch_event E origin retrieve ev s)) = credit_ledger s
   \<or> (\<exists>r. justified ev r \<and> adds_at_most r (credit_ledger s) (snd (dispatch_event E origin retrieve ev s)))"
proof -
  obtain b obj where ev: "ev = \<lparr>ev_livemode = b, ev_object = obj\<rparr>" by (cases ev)
  show ?thesis
  proof (cases obj)
    case (Checkout_completed cs)
    then show ?thesis using checkout_adds [of E retrieve cs s b] by (simp add: dispatch_event_def ev)
  next
    case (Payment_succeeded p)
    then show ?thesis using succeeded_adds [of E origin p s b] by (simp add: dispatch_event_def ev)
  qed (simp_all add: dispatch_event_def ev failed_ledger)
qed


section \<open>Histories\<close>

text \<open>
  \<open>billing_step cfg verify s ev t\<close>: one request or database event that touches money, with the
  verified Stripe event it delivered, if any. \<open>billing_history\<close> chains them and collects the
  delivered events, repeated ones included.
\<close>

inductive billing_step :: "stripe_config \<Rightarrow> (string \<Rightarrow> string \<Rightarrow> string \<Rightarrow> stripe_event option) \<Rightarrow> db \<Rightarrow> stripe_event list \<Rightarrow> db \<Rightarrow> bool"
  for cfg verify where
  deliver: "accept_event cfg verify sig payload = Inr ev \<Longrightarrow>
      billing_step cfg verify s [ev] (snd (webhook_POST E cfg verify retrieve sig payload s))"
| refuse: "accept_event cfg verify sig payload = Inl r \<Longrightarrow>
      billing_step cfg verify s [] (snd (webhook_POST E cfg verify retrieve sig payload s))"
| poll: "billing_step cfg verify s [] (snd (poller_POST E stripe secret auth s))"
| enqueue: "aid \<notin> t_id ` set (recharge_attempts s) \<Longrightarrow>
      billing_step cfg verify s [] (snd (enqueue_auto_recharge_if_low aid now oid s))"
| save: "billing_step cfg verify s [] (snd (auto_recharge_PATCH E listOrgs ident req s))"
| checkout: "billing_step cfg verify s [] (snd (checkout_POST E listOrgs create origin ident req s))"

inductive billing_history :: "stripe_config \<Rightarrow> (string \<Rightarrow> string \<Rightarrow> string \<Rightarrow> stripe_event option) \<Rightarrow> db \<Rightarrow> stripe_event list \<Rightarrow> db \<Rightarrow> bool"
  for cfg verify where
  start: "billing_history cfg verify s [] s"
| more: "billing_history cfg verify s evs t \<Longrightarrow> billing_step cfg verify t new u \<Longrightarrow> billing_history cfg verify s (evs @ new) u"

inductive_cases billing_stepE: "billing_step cfg verify s evs t"

interpretation book: recharge_frame "\<lambda>x. credit_ledger x = L" "\<lambda>_. True" for L
  by unfold_locales (auto simp: queue_statements split: if_splits)

lemma snd_reported: "snd (catching (bind m (\<lambda>x. ret (f x))) (\<lambda>e. ret (g e)) s) = snd (m s)"
  by (auto simp: act_simps split: prod.split sum.split)

lemma poller_state:
  "snd (poller_POST E stripe secret auth s) = s
   \<or> (\<exists>st. snd (poller_POST E stripe secret auth s) = snd (processPendingAutoRecharges E st DEFAULT_BATCH_LIMIT s))"
  by (auto simp: poller_POST_def snd_reported split: option.split)

lemma enqueue_frame:
  "credit_ledger (snd (enqueue_auto_recharge_if_low aid now oid s)) = credit_ledger s"
  "stripe_charges (snd (enqueue_auto_recharge_if_low aid now oid s)) = stripe_charges s"
  by (auto simp: enqueue_auto_recharge_if_low_def split: option.splits)

lemma keeps_settings_PATCH:
  assumes "\<And>s c. P s \<Longrightarrow> P (s\<lparr>sso_cache := c\<rparr>)" and "\<And>s x. P s \<Longrightarrow> P (s\<lparr>audit_log := x\<rparr>)"
    and "\<And>s x. P s \<Longrightarrow> P (s\<lparr>recharge_settings := x\<rparr>)"
  shows "keeps P (auto_recharge_PATCH E listOrgs ident req)"
proof -
  have "keeps P (call flt (upsert_settings oid f))" for flt oid f
    using assms(3) upsert_frame by (intro keeps_call) metis
  then have "keeps P (save_settings E g u)" for g u
    unfolding save_settings_def Let_def
    by (intro keeps_bind keeps_case_sum keeps_ret keeps_audit assms)
  then show ?thesis
    unfolding auto_recharge_PATCH_def
    by (intro keeps_handler keeps_bind keeps_case_option keeps_case_sum keeps_ret keeps_authorize assms)
qed

lemma keeps_checkout_POST:
  assumes "\<And>s c. P s \<Longrightarrow> P (s\<lparr>sso_cache := c\<rparr>)"
  shows "keeps P (checkout_POST E listOrgs create origin ident req)"
  unfolding checkout_POST_def plan_checkout_def using assms by (intro keeps_intros) auto

lemma webhook_state:
  "snd (webhook_POST E cfg verify retrieve sig payload s) =
     (case accept_event cfg verify sig payload of
        Inl r \<Rightarrow> s | Inr ev \<Rightarrow> snd (dispatch_event E (sk_origin cfg) retrieve ev s))"
  by (simp add: webhook_POST_def split: sum.split)

lemma step_ledger:
  assumes "billing_step cfg verify s evs t"
  shows "credit_ledger t = credit_ledger s \<or> (\<exists>ev\<in>set evs. \<exists>r. justified ev r \<and> adds_at_most r (credit_ledger s) t)"
  using assms
proof cases
  case (deliver sig payload ev E retrieve)
  then show ?thesis using delivery_adds [of E "sk_origin cfg" retrieve ev s] by (auto simp: webhook_state)
next
  case (refuse sig payload r E retrieve)
  then show ?thesis by (simp add: webhook_state)
next
  case (poll E stripe secret auth)
  then show ?thesis
    using poller_state [of E stripe secret auth s] book.run_keeps [of s "credit_ledger s" E _ DEFAULT_BATCH_LIMIT] by auto
next
  case (enqueue aid now oid)
  then show ?thesis by (simp add: enqueue_frame)
next
  case (save E listOrgs ident req)
  then show ?thesis
    using keepsD [OF keeps_settings_PATCH [of "\<lambda>x. credit_ledger x = credit_ledger s" E listOrgs ident req], of s] by simp
next
  case (checkout E listOrgs create origin ident req)
  then show ?thesis
    using keepsD [OF keeps_checkout_POST [of "\<lambda>x. credit_ledger x = credit_ledger s" E listOrgs create origin ident req], of s]
    by simp
qed

lemma justified_keyed: "justified ev r \<Longrightarrow> ledger_key r \<noteq> None"
  by (auto simp: justified_def topup_row_def recharge_row_def ledger_key_def split: event_object.splits option.splits prod.splits)

lemma unique_extended: "ledger_unique rows \<Longrightarrow> \<not> key_taken r rows \<Longrightarrow> ledger_unique (rows @ [r])"
  by (auto simp: ledger_unique_def key_taken_def split: option.splits)

section \<open>Properties\<close>

text \<open>
  C11. A payment is credited at most once and nothing else is credited: over any history of
  webhook deliveries (reordered, repeated, retried after any failure), poller runs, queueing,
  settings and checkout requests, the ledger only grows at its end, no two rows share a
  \<open>(source, source_ref)\<close> key, and every new row is the one a delivered, verified event justifies: a paid
  session with the top-up marker in US dollars whose price was not changed, or a succeeded
  off-session payment with the auto-recharge marker.
\<close>

theorem payments_credit_at_most_once:
  assumes "billing_history cfg verify s evs t" and "ledger_unique (credit_ledger s)"
  shows "ledger_unique (credit_ledger t)
    \<and> (\<exists>rows. credit_ledger t = credit_ledger s @ rows \<and> (\<forall>r\<in>set rows. \<exists>ev\<in>set evs. justified ev r))"
  using assms
proof (induction rule: billing_history.induct)
  case (start s)
  then show ?case by simp
next
  case (more s evs t new u)
  then obtain rows where t: "ledger_unique (credit_ledger t)" "credit_ledger t = credit_ledger s @ rows"
    "\<forall>r\<in>set rows. \<exists>ev\<in>set evs. justified ev r" by auto
  from step_ledger [OF more.hyps(2)] show ?case
  proof
    assume "credit_ledger u = credit_ledger t"
    then show ?thesis using t by auto
  next
    assume "\<exists>ev\<in>set new. \<exists>r. justified ev r \<and> adds_at_most r (credit_ledger t) u"
    then obtain ev r where r: "ev \<in> set new" "justified ev r" "adds_at_most r (credit_ledger t) u" by blast
    show ?thesis
    proof (cases "credit_ledger u = credit_ledger t")
      case True
      then show ?thesis using t by auto
    next
      case False
      then have "\<not> key_taken r (credit_ledger t)" "credit_ledger u = credit_ledger t @ [r]"
        using r(3) by (auto simp: adds_at_most_def)
      moreover have "ledger_unique (credit_ledger t @ [r])" using t(1) calculation(1) by (rule unique_extended)
      ultimately show ?thesis using t(2,3) r(1,2) by (auto intro!: exI [of _ "rows @ [r]"])
    qed
  qed
qed

definition live_config :: stripe_config where
  "live_config = \<lparr>sk_secret_key = Some ''sk_test_1'', sk_webhook_secret = Some ''whsec'', sk_origin = ''https://x.test''\<rparr>"

definition paid_session :: checkout_session where
  "paid_session = \<lparr>cs_id = ''cs_1'', cs_payment_status = ''paid'',
     cs_metadata = Some [(''purpose'', TOPUP_PURPOSE), (''org_id'', ''o1''), (''requested_by'', ''u1''), (''autorecharge'', ''off'')],
     cs_currency = Some ''usd'', cs_amount_subtotal = Some (js_int 2500), cs_amount_total = Some (js_int 2500),
     cs_client_reference_id = Some ''o1'', cs_payment_intent = Some ''pi_1'', cs_customer = None, cs_email = None\<rparr>"

definition paid_event :: stripe_event where
  "paid_event = \<lparr>ev_livemode = False, ev_object = Checkout_completed paid_session\<rparr>"

definition sample_verify :: "string \<Rightarrow> string \<Rightarrow> string \<Rightarrow> stripe_event option" where
  "sample_verify payload sig secret = (if sig = ''good'' \<and> secret = ''whsec'' then Some paid_event else None)"

definition deliver_paid :: "db \<Rightarrow> db" where
  "deliver_paid s = snd (webhook_POST sample_env live_config sample_verify (\<lambda>_. None) (Some ''good'') ''{}'' s)"

theorem payments_credit_at_most_once_witness:
  "length (credit_ledger (deliver_paid (deliver_paid sample_db))) = 1
   \<and> ledger_unique (credit_ledger (deliver_paid (deliver_paid sample_db)))"
proof -
  have acc: "accept_event live_config sample_verify (Some ''good'') ''{}'' = Inr paid_event" by code_simp
  have step: "billing_step live_config sample_verify s [paid_event] (deliver_paid s)" for s
    unfolding deliver_paid_def by (rule billing_step.deliver [OF acc])
  have "billing_history live_config sample_verify sample_db (([] @ [paid_event]) @ [paid_event]) (deliver_paid (deliver_paid sample_db))"
    by (rule billing_history.more [OF billing_history.more [OF billing_history.start step] step])
  moreover have "ledger_unique (credit_ledger sample_db)" by code_simp
  ultimately have "ledger_unique (credit_ledger (deliver_paid (deliver_paid sample_db)))"
    using payments_credit_at_most_once by blast
  moreover have "length (credit_ledger (deliver_paid (deliver_paid sample_db))) = 1" by code_simp
  ultimately show ?thesis by blast
qed


lemma keeps_result: "keeps P m \<Longrightarrow> P s \<Longrightarrow> m s = (r, t) \<Longrightarrow> P t"
  using keepsD by fastforce

definition honest :: "env \<Rightarrow> bool" where
  "honest E \<longleftrightarrow> (\<forall>c e. faults E c = Some (Refused e) \<or> faults E c = Some (Lost e) \<longrightarrow> code e \<noteq> Some ''23505'')"

lemma insert_ledger_codes:
  "insert_ledger r s = Inl e \<Longrightarrow> code e = Some ''23505'' \<Longrightarrow> key_taken r (credit_ledger s)"
  by (auto simp: insert_ledger_def check_violation_def foreign_key_violation_def numeric_overflow_def split: if_splits)

lemma honest_duplicate:
  assumes "honest E" and "exec (faults E c) (insert_ledger r) s = (Inl e, t)" and "code e = Some ''23505''"
  shows "t = s \<and> key_taken r (credit_ledger s)"
proof (cases "faults E c")
  case None
  then show ?thesis using assms(2,3) insert_ledger_codes by (auto split: sum.splits prod.splits)
next
  case (Some flt)
  then show ?thesis using assms by (cases flt) (auto simp: exec_def honest_def)
qed

lemma key_taken_frame:
  "key_taken r (credit_ledger (unlock_org now oid s)) = key_taken r (credit_ledger s)"
  by (simp add: unlock_org_frame)

lemma credit_topup_acknowledged:
  assumes "honest E" and "credit_topup E retrieve cs oid c s = (Inr (rsp, mail), t)" and "status rsp = 200"
  shows "key_taken (topup_row cs oid c) (credit_ledger t)"
proof -
  let ?r = "topup_row cs oid c"
  obtain x u where x: "exec (faults E ''credit_ledger.insert'') (insert_ledger ?r) s = (x, u)" by (metis surj_pair)
  define dup where "dup = (case x of Inl err \<Rightarrow> code err = Some ''23505'' | Inr _ \<Rightarrow> False)"
  have r: "(if (case x of Inl err \<Rightarrow> True | Inr _ \<Rightarrow> False) \<and> \<not> dup then ret ledger_failed
     else bind (if meta (cs_metadata cs) ''autorecharge'' = Some ''on'' then persistAutoRecharge E retrieve cs oid else ret ()) (\<lambda>_.
          ret (received True dup, None))) u = (Inr (rsp, mail), t)"
    using assms(2) unfolding credit_topup_def bind_apply [of "call _ _"] call_apply x Let_def dup_def
    by (simp only: fst_conv snd_conv sum.case prod.case)
  then have ok: "\<not> ((case x of Inl err \<Rightarrow> True | Inr _ \<Rightarrow> False) \<and> \<not> dup)"
    using assms(3) by (auto split: if_splits)
  have "key_taken ?r (credit_ledger u)"
  proof (cases x)
    case (Inl err)
    then show ?thesis using ok x honest_duplicate [OF assms(1), of "''credit_ledger.insert''" ?r s err u] by (simp add: dup_def)
  next
    case (Inr y)
    then show ?thesis using x topup.taken_after [of ?r s y u]
      by (auto dest!: exec_InrD simp: ledger_key_def topup_row_def)
  qed
  moreover have "keeps (\<lambda>z. key_taken ?r (credit_ledger z))
      (bind (if meta (cs_metadata cs) ''autorecharge'' = Some ''on'' then persistAutoRecharge E retrieve cs oid else ret ()) (\<lambda>_.
          ret (received True dup, None)))"
    by (intro keeps_if keeps_ret keeps_bind keeps_persist) (simp_all add: key_taken_frame)
  moreover have "bind (if meta (cs_metadata cs) ''autorecharge'' = Some ''on'' then persistAutoRecharge E retrieve cs oid else ret ()) (\<lambda>_.
          ret (received True dup, None)) u = (Inr (rsp, mail), t)"
    using r unfolding if_not_P [OF ok] .
  ultimately show ?thesis using keeps_result by blast
qed

lemma checkout_acknowledged:
  assumes "honest E" and "justified \<lparr>ev_livemode = b, ev_object = Checkout_completed cs\<rparr> r" and "org_exists (l_org r) s"
    and "handleCheckoutCompleted E retrieve cs s = (Inr (rsp, mail), t)" and "status rsp = 200"
  shows "key_taken r (credit_ledger t)"
proof -
  from assms(2) obtain oid c where j: "cs_payment_status cs = ''paid''" "our_topup cs" "\<not> repriced cs"
    "credited_org (session_org cs) (cs_amount_total cs) = Some (oid, c)" and r: "r = topup_row cs oid c"
    by (auto simp: justified_def split: option.splits)
  have e: "org_exists oid s" using assms(3) r by (simp add: topup_row_def)
  obtain found where f: "read_db (faults E ''organizations.exists'') (org_exists oid) s = found" by blast
  show ?thesis
  proof (cases found)
    case (Inl err)
    then show ?thesis using assms(4,5) j f by (auto simp: handleCheckoutCompleted_def bind_apply)
  next
    case (Inr b)
    then have b using e f read_db_InrD by fastforce
    then have "credit_topup E retrieve cs oid c s = (Inr (rsp, mail), t)"
      using assms(4) j f Inr by (simp add: handleCheckoutCompleted_def bind_apply)
    then show ?thesis using credit_topup_acknowledged assms(1,5) r by simp
  qed
qed

lemma succeeded_acknowledged:
  assumes "justified \<lparr>ev_livemode = b, ev_object = Payment_succeeded p\<rparr> r"
    and "handleAutoRechargeSucceeded E origin p s = (Inr (rsp, mail), t)" and "status rsp = 200"
  shows "key_taken r (credit_ledger t)"
proof -
  from assms(1) obtain oid c where j: "our_recharge p" "pi_currency p = ''usd''"
    "credited_org (meta (pi_metadata p) ''org_id'') (Some (intent_cents p)) = Some (oid, c)"
    and r: "r = recharge_row oid (pi_id p) (js_div c (js_int 100)) ''auto-recharge''"
    by (auto simp: justified_def split: option.splits)
  obtain x u where x: "exec (faults E ''record_auto_recharge_success'')
      (record_auto_recharge_success (now_ms E) oid (pi_id p) (js_div c (js_int 100)) ''auto-recharge'') s = (x, u)"
    by (metis surj_pair)
  have k: "(case x of Inl _ \<Rightarrow> ret ledger_failed | Inr Replay \<Rightarrow> ret (received True True, None)
        | Inr Credited \<Rightarrow> bind (notifyRecharge E origin oid (js_div c (js_int 100))) (\<lambda>mail. ret (received True False, mail))) u
      = (Inr (rsp, mail), t)"
    using assms(2) j x by (simp add: handleAutoRechargeSucceeded_def bind_apply [of "call _ _"] call_apply)
  then obtain y where y: "x = Inr y" using assms(3) by (cases x) auto
  have "key_taken r (credit_ledger u)"
    using x y recharge.taken_after [of "now_ms E" r s y u]
    by (auto dest!: exec_InrD simp: record_auto_recharge_success_def r ledger_key_def recharge_row_def)
  moreover have "keeps (\<lambda>z. key_taken r (credit_ledger z)) (case y of Replay \<Rightarrow> ret (received True True, None)
        | Credited \<Rightarrow> bind (notifyRecharge E origin oid (js_div c (js_int 100))) (\<lambda>mail. ret (received True False, mail)))"
    by (cases y) (auto intro: keeps_intros)
  ultimately show ?thesis using k y keeps_result [of "\<lambda>z. key_taken r (credit_ledger z)"] by simp blast
qed

text \<open>
  C12. No payment is lost behind an acknowledgement: when the webhook answers 200 to a verified event
  that justifies a credit for an organization that exists, the ledger holds that credit's key, be
  it new or a replay; otherwise Stripe sees an error and retries. (A broken connection is taken not
  to report a unique violation.)
\<close>

theorem acknowledged_payment_is_in_the_ledger:
  assumes "accept_event cfg verify sig payload = Inr ev" and "justified ev r" and "org_exists (l_org r) s" and "honest E"
    and "webhook_POST E cfg verify retrieve sig payload s = (Inr (rsp, mail), t)" and "status rsp = 200"
  shows "key_taken r (credit_ledger t)"
proof -
  obtain b obj where ev: "ev = \<lparr>ev_livemode = b, ev_object = obj\<rparr>" by (cases ev)
  show ?thesis
  proof (cases obj)
    case (Checkout_completed cs)
    then show ?thesis using assms checkout_acknowledged [of E b cs r s retrieve rsp mail t]
      by (simp add: ev webhook_POST_def dispatch_event_def)
  next
    case (Payment_succeeded p)
    then show ?thesis using assms succeeded_acknowledged [of b p r E "sk_origin cfg" s rsp mail t]
      by (simp add: ev webhook_POST_def dispatch_event_def)
  qed (use assms(2) in \<open>simp_all add: ev justified_def\<close>)
qed

theorem acknowledged_payment_is_in_the_ledger_witness:
  "key_taken (topup_row paid_session ''o1'' (js_int 2500)) (credit_ledger (deliver_paid sample_db))"
proof -
  let ?w = "webhook_POST sample_env live_config sample_verify (\<lambda>_. None) (Some ''good'') ''{}'' sample_db"
  have acc: "accept_event live_config sample_verify (Some ''good'') ''{}'' = Inr paid_event" by code_simp
  have j: "justified paid_event (topup_row paid_session ''o1'' (js_int 2500))" by code_simp
  have o': "org_exists (l_org (topup_row paid_session ''o1'' (js_int 2500))) sample_db" by code_simp
  have h: "honest sample_env" by (simp add: honest_def sample_env_def)
  have "case fst ?w of Inr (rsp, mail) \<Rightarrow> status rsp = 200 | _ \<Rightarrow> False" by code_simp
  then obtain rsp mail where w: "?w = (Inr (rsp, mail), snd ?w)" "status rsp = 200"
    by (cases ?w) (auto split: sum.splits)
  show ?thesis
    using acknowledged_payment_is_in_the_ledger [OF acc j o' h w] by (simp add: deliver_paid_def)
qed


lemma cents_positive: "500 \<le> c \<Longrightarrow> c \<le> 1000000 \<Longrightarrow> \<not> js_le (js_int c) (js_int 0)"
  by (simp add: js_le_def js_int_def)

lemma cents_amount_ok:
  assumes "500 \<le> c" and "c \<le> 1000000"
  defines "d \<equiv> js_div (js_int c) (js_int 100)"
  shows "js_is_finite d \<and> 0 < numeric6 (jsval d) \<and> fits_numeric (numeric6 (jsval d))"
proof -
  have "fl 5 \<le> fl (of_int c / 100)" "fl (of_int c / 100) \<le> fl 10000" using assms(1,2) by (intro fl_mono; simp)+
  then have b: "5 \<le> fl (of_int c / 100)" "fl (of_int c / 100) \<le> 10000"
    using fl_of_int [of 5] fl_of_int [of 10000] by simp_all
  have d: "d = Fin False (fl (of_int c / 100))"
    unfolding d_def using assms(1,2) by (intro dollars_of_cents) auto
  have "0 < numeric6 (fl (of_int c / 100))" using b(1) by (intro numeric6_mono_0) simp
  moreover have "numeric6 (fl (of_int c / 100)) < 10 ^ 8"
    using numeric6_near [of "fl (of_int c / 100)"] b(2) by (simp add: abs_if split: if_splits)
  ultimately show ?thesis using d by (simp add: fits_numeric_def)
qed

text \<open>
  The buyer is credited what they asked for: when the checkout route builds a Stripe session
  and Stripe reports that very session as paid (its metadata, reference and amounts unchanged),
  the webhook appends one row, for the same organization and for the very dollar amount the form
  was parsed to, although the amount travelled as \<open>Math.round (amount * 100)\<close> and came back divided
  by 100.
\<close>

theorem buyer_is_credited_what_they_asked:
  assumes "plan_checkout E listOrgs origin ident req s = (Inr (Inr q), s')"
    and "json_number_wf (jget ''amount_usd'' req)"
    and "cs_payment_status cs = ''paid''" and "cs_currency cs = Some ''usd''" and "cs_metadata cs = Some (cq_metadata q)"
    and "cs_client_reference_id cs = Some (cq_client_reference_id q)" and "cs_amount_total cs = Some (cq_unit_amount q)"
    and "cs_amount_subtotal cs = Some (cq_unit_amount q)"
    and "cq_client_reference_id q \<noteq> ''''" and "org_exists (cq_client_reference_id q) t"
    and "faults F ''organizations.exists'' = None" and "faults F ''credit_ledger.insert'' = None"
    and "\<not> key_taken (topup_row cs (cq_client_reference_id q) (cq_unit_amount q)) (credit_ledger t)"
    and "counter_fits (topup_row cs (cq_client_reference_id q) (cq_unit_amount q)) t"
  shows "\<exists>r amount. parseTopupAmountUsd (jget ''amount_usd'' req) = Inr amount
    \<and> credit_ledger (snd (handleCheckoutCompleted F retrieve cs t)) = credit_ledger t @ [r]
    \<and> l_org r = cq_client_reference_id q \<and> l_amount_usd r = amount \<and> l_entry_type r = ''topup''"
proof -
  obtain uid org amount recharge where am: "parseTopupAmountUsd (jget ''amount_usd'' req) = Inr amount"
    and q: "q = session_params origin org uid amount recharge"
    using plan_checkout_InrE [OF assms(1)] by metis
  obtain c where c: "500 \<le> c" "c \<le> 1000000" "amount = js_div (js_int c) (js_int 100)" "cents_of amount = js_int c"
    by (rule parseTopup_cents [OF am assms(2)])
  let ?oid = "cq_client_reference_id q" and ?r = "topup_row cs (cq_client_reference_id q) (js_int c)"
  have unit: "cq_unit_amount q = js_int c" using q c by (simp add: session_params_def)
  have marked: "our_topup cs"
    using assms(4,5) q by (simp add: our_topup_def meta_def session_params_def)
  have same: "\<not> repriced cs" using assms(7,8) unit c by (simp add: repriced_def js_int_def)
  have who: "credited_org (session_org cs) (cs_amount_total cs) = Some (?oid, js_int c)"
    using assms(6,7,9) unit cents_positive [OF c(1,2)] by (simp add: credited_org_def session_org_def)
  have "amount_ok ?r \<and> fits_numeric (entry_amount ?r)"
    using cents_amount_ok [OF c(1,2)] by (simp add: amount_ok_def entry_amount_def topup_row_def)
  then have ins: "insert_ledger ?r t = Inr ((), track_credit_ledger_entry ?r (t\<lparr>credit_ledger := credit_ledger t @ [?r]\<rparr>))"
    using assms(10,13,14) unit by (simp add: insert_ledger_def) (simp add: topup_row_def)
  have k: "keeps (\<lambda>z. credit_ledger z = credit_ledger t @ [?r]) (bind
      (if meta (cs_metadata cs) ''autorecharge'' = Some ''on'' then persistAutoRecharge F retrieve cs ?oid else ret ())
      (\<lambda>_. ret (received True False, None)))"
    by (intro keeps_if keeps_ret keeps_bind keeps_persist) (simp_all add: unlock_org_frame)
  have "handleCheckoutCompleted F retrieve cs t = credit_topup F retrieve cs ?oid (js_int c) t"
    using assms(3,10,11) marked same who by (simp add: handleCheckoutCompleted_def bind_apply)
  moreover have "credit_ledger (snd (credit_topup F retrieve cs ?oid (js_int c) t)) = credit_ledger t @ [?r]"
    using keepsD [OF k, of "track_credit_ledger_entry ?r (t\<lparr>credit_ledger := credit_ledger t @ [?r]\<rparr>)"] assms(12) ins
    by (simp add: credit_topup_def bind_apply [of "call _ _"] call_apply)
  ultimately show ?thesis using am c(3) by (auto simp: topup_row_def)
qed

definition session_for :: "checkout_request \<Rightarrow> checkout_session" where
  "session_for q = \<lparr>cs_id = ''cs_9'', cs_payment_status = ''paid'', cs_metadata = Some (cq_metadata q),
     cs_currency = Some ''usd'', cs_amount_subtotal = Some (cq_unit_amount q), cs_amount_total = Some (cq_unit_amount q),
     cs_client_reference_id = Some (cq_client_reference_id q), cs_payment_intent = Some ''pi_9'', cs_customer = None, cs_email = None\<rparr>"

theorem buyer_is_credited_what_they_asked_witness:
  "\<exists>q r. fst (plan_checkout sample_env sample_orgs ''https://x.test'' ''acme'' sample_topup sample_db) = Inr (Inr q)
     \<and> credit_ledger (snd (handleCheckoutCompleted sample_env (\<lambda>_. None) (session_for q) sample_db)) = [r]
     \<and> parseTopupAmountUsd (jget ''amount_usd'' sample_topup) = Inr (l_amount_usd r)"
proof -
  let ?p = "plan_checkout sample_env sample_orgs ''https://x.test'' ''acme'' sample_topup sample_db"
  have "case fst ?p of Inr (Inr q) \<Rightarrow> cq_client_reference_id q = ''o1'' \<and> cq_unit_amount q = js_int 2500 | _ \<Rightarrow> False"
    by code_simp
  then obtain q where q: "?p = (Inr (Inr q), snd ?p)" "cq_client_reference_id q = ''o1''" and unit: "cq_unit_amount q = js_int 2500"
    by (cases ?p) (auto split: sum.splits)
  have wf: "json_number_wf (jget ''amount_usd'' sample_topup)"
    by (simp add: json_number_wf_def sample_topup_def js_int_def)
  have "org_exists ''o1'' sample_db" and "credit_ledger sample_db = []" by code_simp+
  moreover have "counter_fits (topup_row (session_for q) ''o1'' (cq_unit_amount q)) sample_db"
  proof -
    have "fits_numeric (20 + numeric6 (jsval (js_div (js_int 2500) (js_int 100))))" by code_simp
    then show ?thesis using unit
      by (simp add: counter_fits_def granted_after_def entry_amount_def topup_row_def sample_db_def empty_db_def js_int_def)
  qed
  ultimately show ?thesis
    using buyer_is_credited_what_they_asked [OF q(1) wf, of "session_for q" sample_db sample_env "\<lambda>_. None"] q
    by (auto simp: session_for_def sample_env_def key_taken_def ledger_key_def topup_row_def ledger_keys_def prod_eq_iff)
qed

lemma history_appends:
  assumes "billing_history cfg verify s evs t"
  shows "\<exists>rows. credit_ledger t = credit_ledger s @ rows \<and> (\<forall>r\<in>set rows. \<exists>ev\<in>set evs. justified ev r)"
  using assms
proof (induction rule: billing_history.induct)
  case (start s)
  then show ?case by simp
next
  case (more s evs t new u)
  then obtain rows where t: "credit_ledger t = credit_ledger s @ rows" "\<forall>r\<in>set rows. \<exists>ev\<in>set evs. justified ev r" by auto
  from step_ledger [OF more.hyps(2)]
  consider "credit_ledger u = credit_ledger t"
    | ev r where "ev \<in> set new" "justified ev r" "credit_ledger u = credit_ledger t @ [r]"
    by (auto simp: adds_at_most_def)
  then show ?case
  proof cases
    case 1
    then show ?thesis using t by auto
  next
    case (2 ev r)
    then show ?thesis using t by (auto intro!: exI [of _ "rows @ [r]"])
  qed
qed

lemma justified_source: "justified ev r \<Longrightarrow> l_source r = ''stripe''"
  by (auto simp: justified_def topup_row_def recharge_row_def split: event_object.splits option.splits)

text \<open>
  The launch grant a welcome screen announces never includes purchases: over any billing
  history, reading it answers the same as before.
\<close>

theorem purchases_never_change_the_launch_grant:
  assumes "billing_history cfg verify s evs t"
  shows "fst (readLaunchGrantUsd E oid t) = fst (readLaunchGrantUsd E oid s)"
proof -
  obtain rows where rows: "credit_ledger t = credit_ledger s @ rows" "\<forall>r\<in>set rows. \<exists>ev\<in>set evs. justified ev r"
    using history_appends [OF assms] by blast
  have "filter (\<lambda>r. l_org r = oid \<and> List.member launch_sources (l_source r)) rows = []"
    using rows(2) justified_source by (fastforce simp: filter_empty_conv launch_sources_def)
  then have "launch_rows oid t = launch_rows oid s" using rows(1) by (simp add: launch_rows_def)
  then show ?thesis
    by (simp add: readLaunchGrantUsd_def bind_apply read_db_def split: option.split fault.split sum.split)
qed

theorem purchases_never_change_the_launch_grant_witness:
  "fst (readLaunchGrantUsd sample_env ''o1'' (deliver_paid sample_db)) = fst (readLaunchGrantUsd sample_env ''o1'' sample_db)
   \<and> length (credit_ledger (deliver_paid sample_db)) = 1"
proof -
  have acc: "accept_event live_config sample_verify (Some ''good'') ''{}'' = Inr paid_event" by code_simp
  have "billing_history live_config sample_verify sample_db ([] @ [paid_event]) (deliver_paid sample_db)"
    unfolding deliver_paid_def by (rule billing_history.more [OF billing_history.start billing_step.deliver [OF acc]])
  then have "fst (readLaunchGrantUsd sample_env ''o1'' (deliver_paid sample_db)) = fst (readLaunchGrantUsd sample_env ''o1'' sample_db)"
    by (rule purchases_never_change_the_launch_grant)
  moreover have "length (credit_ledger (deliver_paid sample_db)) = 1" by code_simp
  ultimately show ?thesis by blast
qed


section \<open>The recharge queue over a history\<close>

definition paid_for :: "(string \<times> string \<times> jsnum) list \<Rightarrow> charge_request \<Rightarrow> bool" where
  "paid_for F q \<longleftrightarrow> list_ex (\<lambda>(i, o', m). i = ch_idempotency_key q \<and> o' = ch_org q \<and> cents_of m = ch_amount_cents q) F"

definition queue_inv :: "(string \<times> string \<times> jsnum) list \<Rightarrow> db \<Rightarrow> bool" where
  "queue_inv F s \<longleftrightarrow> attempt_facts s = F \<and> one_active (recharge_attempts s) \<and> list_all (paid_for F) (stripe_charges s)"

definition queue_ok :: "db \<Rightarrow> bool" where
  "queue_ok s \<longleftrightarrow> distinct (map t_id (recharge_attempts s)) \<and> queue_inv (attempt_facts s) s"

interpretation queue: recharge_frame "queue_inv F" "paid_for F" for F
proof unfold_locales
  show "queue_inv F t" if "queue_inv F s" "claim_update now a s = Inr (x, t)" for s now a x t
    using that facts.claim [OF _ that(2), of F] slot.claim [OF _ that(2)] quiet.claim [OF refl that(2)]
    by (simp add: queue_inv_def)
  show "queue_inv F t" if "queue_inv F s" "intent_update now aid pid s = Inr (y, t)" for s now aid pid y t
    using that facts.intent [OF _ that(2), of F] slot.intent [OF _ that(2)] quiet.intent [OF refl that(2)]
    by (simp add: queue_inv_def)
  show "queue_inv F t" if "queue_inv F s" "release_update now aid msg s = Inr (y, t)" for s now aid msg y t
    using that facts.release [OF _ that(2), of F] slot.release [OF _ that(2)] quiet.release [OF refl that(2)]
    by (simp add: queue_inv_def)
  show "queue_inv F t" if "queue_inv F s" "fail_update now aid msg s = Inr (y, t)" for s now aid msg y t
    using that facts.fail [OF _ that(2), of F] slot.fail [OF _ that(2)] quiet.fail [OF refl that(2)]
    by (simp add: queue_inv_def)
  show "queue_inv F t" if "queue_inv F s" "record_auto_recharge_failure now oid pid msg s = Inr (y, t)" for s now oid pid msg y t
    using that facts.failure [OF _ that(2), of F] slot.failure [OF _ that(2)] quiet.failure [OF refl that(2)]
    by (simp add: queue_inv_def)
  show "queue_inv F (s\<lparr>stripe_charges := stripe_charges s @ [q]\<rparr>)" if "queue_inv F s" "paid_for F q" for s q
    using that by (simp add: queue_inv_def attempt_facts_def)
qed

lemma queue_inv_frame:
  "queue_inv F (s\<lparr>credit_ledger := a\<rparr>) = queue_inv F s" "queue_inv F (s\<lparr>recharge_settings := b\<rparr>) = queue_inv F s"
  "queue_inv F (s\<lparr>sso_cache := c\<rparr>) = queue_inv F s" "queue_inv F (s\<lparr>audit_log := d\<rparr>) = queue_inv F s"
  "queue_inv F (unlock_org now oid s) = queue_inv F s"
  "queue_inv F (track_credit_ledger_entry r s) = queue_inv F s"
  by (simp_all add: queue_inv_def attempt_facts_def unlock_org_frame)

lemma close_success_queue: "queue_inv F s \<Longrightarrow> queue_inv F (close_success now oid pid s)"
  by (auto simp: queue_inv_def attempt_facts_def close_success_def settles_def active_status_def map_update_where_key
      intro!: one_active_update)

lemma record_success_queue:
  assumes "queue_inv F s" and "record_auto_recharge_success now oid pid amount by s = Inr (a, t)"
  shows "queue_inv F t"
  using assms(2) unfolding record_auto_recharge_success_def
  by (rule post_recharge_InrE) (simp_all add: close_success_queue queue_inv_frame assms(1))

lemma keeps_case_settlement: "keeps P m \<Longrightarrow> keeps P n \<Longrightarrow> keeps P (case x of Credited \<Rightarrow> m | Replay \<Rightarrow> n)"
  by (cases x) simp_all

lemma keeps_dispatch: "keeps (queue_inv F) (dispatch_event E origin retrieve ev)"
proof -
  have "keeps (queue_inv F) (call flt (insert_ledger r))" for flt r
    by (intro keeps_call) (simp add: insert_ledger_Inr queue_inv_frame)
  then have "keeps (queue_inv F) (handleCheckoutCompleted E retrieve cs)" for cs
    unfolding handleCheckoutCompleted_def credit_topup_def Let_def
    by (intro keeps_if keeps_ret keeps_case_option keeps_case_prod keeps_bind keeps_query keeps_case_sum keeps_persist)
       (simp_all add: queue_inv_frame)
  moreover have "keeps (queue_inv F) (handleAutoRechargeSucceeded E origin p)" for p
    unfolding handleAutoRechargeSucceeded_def
    by (intro keeps_if keeps_ret keeps_case_option keeps_case_prod keeps_bind keeps_call keeps_case_sum
        keeps_case_settlement keeps_notify) (rule record_success_queue)
  moreover have "keeps (queue_inv F) (handleAutoRechargeFailed E p)" for p
    unfolding handleAutoRechargeFailed_def
    by (intro keeps_if keeps_ret keeps_case_option keeps_bind keeps_call keeps_case_sum) (rule queue.failure)
  ultimately show ?thesis by (cases "ev_object ev") (simp_all add: dispatch_event_def keeps_ret)
qed

lemma enqueue_queue_ok:
  assumes "queue_ok s" and "aid \<notin> t_id ` set (recharge_attempts s)"
  shows "queue_ok (snd (enqueue_auto_recharge_if_low aid now oid s))"
proof -
  have "queue_ok (s\<lparr>recharge_attempts := recharge_attempts s @ [new_attempt aid now r]\<rparr>)"
    if "\<not> list_ex (\<lambda>a. t_org a = oid \<and> active a) (recharge_attempts s)" "settings_of oid s = Some r" for r
  proof -
    have o': "s_org r = oid" using that(2) by (auto simp: settings_of_def dest: first_where_SomeD)
    have "one_active (recharge_attempts s @ [new_attempt aid now r])"
      using assms(1) that(1) o' by (auto simp: queue_ok_def queue_inv_def one_active_def new_attempt_def list_ex_iff)
    moreover have "list_all (paid_for (attempt_facts s @ x)) (stripe_charges s)" for x
      using assms(1) by (auto simp: queue_ok_def queue_inv_def list_all_iff paid_for_def)
    ultimately show ?thesis
      using assms by (simp add: queue_ok_def queue_inv_def attempt_facts_def) (auto simp: new_attempt_def)
  qed
  then show ?thesis using assms(1) by (auto simp: enqueue_auto_recharge_if_low_def split: option.split)
qed

lemma queue_ok_keeps:
  assumes "queue_ok s" and "queue_inv (attempt_facts s) t"
  shows "queue_ok t"
proof -
  have "map t_id (recharge_attempts x) = map fst (attempt_facts x)" for x by (simp add: attempt_facts_def comp_def)
  then show ?thesis using assms by (simp add: queue_ok_def queue_inv_def)
qed

lemma step_queue_ok:
  assumes "billing_step cfg verify s evs t" and "queue_ok s"
  shows "queue_ok t"
proof -
  let ?F = "attempt_facts s"
  have i: "queue_inv ?F s" using assms(2) by (simp add: queue_ok_def)
  from assms(1) show ?thesis
  proof cases
    case (deliver sig payload ev E retrieve)
    then show ?thesis using queue_ok_keeps [OF assms(2)] keepsD [OF keeps_dispatch i] by (simp add: webhook_state)
  next
    case (refuse sig payload r E retrieve)
    then show ?thesis using assms(2) by (simp add: webhook_state)
  next
    case (poll E stripe secret auth)
    have "paid_for ?F (charge_request_of a c p)" if "a \<in> set (recharge_attempts s)" for a c p
      using that by (auto simp: paid_for_def attempt_facts_def charge_request_of_def list_ex_iff)
    then show ?thesis
      using poll poller_state [of E stripe secret auth s] queue.run_keeps [OF i] queue_ok_keeps [OF assms(2)] assms(2)
      by metis
  next
    case (enqueue aid now oid)
    then show ?thesis using enqueue_queue_ok [OF assms(2)] by simp
  next
    case (save E listOrgs ident req)
    have "keeps (queue_inv ?F) (auto_recharge_PATCH E listOrgs ident req)"
      by (intro keeps_settings_PATCH) (simp_all add: queue_inv_frame)
    then show ?thesis using save keepsD i queue_ok_keeps [OF assms(2)] by metis
  next
    case (checkout E listOrgs create origin ident req)
    have "keeps (queue_inv ?F) (checkout_POST E listOrgs create origin ident req)"
      by (intro keeps_checkout_POST) (simp add: queue_inv_frame)
    then show ?thesis using checkout keepsD i queue_ok_keeps [OF assms(2)] by metis
  qed
qed

text \<open>
  C13. An organization never has two recharges in flight, and every payment asked of Stripe stays
  backed by an attempt: over any billing history attempt ids stay distinct, no organization has
  two pending or processing attempts, and each off-session request that reached Stripe carries the id,
  organization and amount of an attempt, so two requests under one idempotency key never differ
  in amount or organization.
\<close>

theorem one_recharge_in_flight:
  assumes "billing_history cfg verify s evs t" and "queue_ok s"
  shows "queue_ok t \<and> (\<forall>p\<in>set (stripe_charges t). \<forall>q\<in>set (stripe_charges t).
    ch_idempotency_key p = ch_idempotency_key q \<longrightarrow> ch_amount_cents p = ch_amount_cents q \<and> ch_org p = ch_org q)"
proof -
  have ok: "queue_ok t" using assms
    by (induction rule: billing_history.induct) (auto intro: step_queue_ok)
  have "distinct (map fst (attempt_facts t))"
    using ok by (simp add: queue_ok_def attempt_facts_def comp_def)
  then have "ch_amount_cents p = ch_amount_cents q \<and> ch_org p = ch_org q"
    if "p \<in> set (stripe_charges t)" "q \<in> set (stripe_charges t)" "ch_idempotency_key p = ch_idempotency_key q" for p q
  proof -
    note pq = that
    have backed: "\<exists>m. (ch_idempotency_key x, ch_org x, m) \<in> set (attempt_facts t) \<and> cents_of m = ch_amount_cents x"
      if "x \<in> set (stripe_charges t)" for x
      using ok that by (fastforce simp: queue_ok_def queue_inv_def list_all_iff paid_for_def list_ex_iff)
    obtain m n where "(ch_idempotency_key p, ch_org p, m) \<in> set (attempt_facts t)" "cents_of m = ch_amount_cents p"
      "(ch_idempotency_key q, ch_org q, n) \<in> set (attempt_facts t)" "cents_of n = ch_amount_cents q"
      using backed pq(1,2) by blast
    then show ?thesis
      using \<open>distinct (map fst (attempt_facts t))\<close> pq(3) by (metis eq_key_imp_eq_value prod.inject)
  qed
  with ok show ?thesis by blast
qed

theorem one_recharge_in_flight_witness:
  "queue_ok (snd (poller_POST sample_env (Some settled) (Some ''k'') (Some ''Bearer k'') queued_db))
   \<and> length (stripe_charges (snd (poller_POST sample_env (Some settled) (Some ''k'') (Some ''Bearer k'') queued_db))) = 1"
proof
  have "queue_ok queued_db" by code_simp
  then show "queue_ok (snd (poller_POST sample_env (Some settled) (Some ''k'') (Some ''Bearer k'') queued_db))"
    using one_recharge_in_flight [OF billing_history.more [OF billing_history.start billing_step.poll], of queued_db] by blast
qed code_simp


section \<open>An attempt that never closes\<close>

definition early_webhook :: "db \<Rightarrow> db" where
  "early_webhook s =
     (let a = hd (recharge_attempts s);
          claimed = snd (claimAttempt sample_env a s);
          asked = snd (reach_stripe (charge_request_of a ''cus_1'' ''pm_1'') claimed);
          paid = snd (handleAutoRechargeSucceeded sample_env '''' \<lparr>pi_id = ''pi_a1'',
             pi_metadata = Some [(''purpose'', AUTORECHARGE_PURPOSE), (''org_id'', ''o1'')], pi_currency = ''usd'',
             pi_amount_received = js_int 500, pi_amount = js_int 500, pi_last_error = None\<rparr> asked)
      in snd (settle_intent later_env a ''pi_a1'' ''succeeded'' paid))"

text \<open>
  The success webhook can overtake the poller: it closes attempts by their payment id, which
  the poller stores only after Stripe has answered. When the event arrives in between, the payment
  is credited but the attempt keeps the status processing with an id: no later run picks it up at any
  clock, and as long as it is there the queue refuses every further recharge of the organization.
\<close>

theorem early_webhook_blocks_recharging:
  "length (credit_ledger (early_webhook queued_db)) = 1
   \<and> map t_status (recharge_attempts (early_webhook queued_db)) = [''processing'']
   \<and> (\<forall>cutoff limit. candidate_attempts cutoff limit (early_webhook queued_db) = [])
   \<and> (\<forall>aid now. snd (enqueue_auto_recharge_if_low aid now ''o1'' (early_webhook queued_db)) = early_webhook queued_db)"
proof (intro conjI allI)
  show "length (credit_ledger (early_webhook queued_db)) = 1" by code_simp
  show st: "map t_status (recharge_attempts (early_webhook queued_db)) = [''processing'']" by code_simp
  have i: "map t_intent (recharge_attempts (early_webhook queued_db)) = [Some ''pi_a1'']" by code_simp
  have o': "map t_org (recharge_attempts (early_webhook queued_db)) = [''o1'']" by code_simp
  obtain a where a: "recharge_attempts (early_webhook queued_db) = [a]" "t_status a = ''processing''"
    "t_intent a = Some ''pi_a1''" "t_org a = ''o1''"
    using st i o' by (auto simp: map_eq_Cons_conv)
  then show "candidate_attempts cutoff limit (early_webhook queued_db) = []" for cutoff limit
    by (simp add: candidate_attempts_def claimable_def)
  show "snd (enqueue_auto_recharge_if_low aid now ''o1'' (early_webhook queued_db)) = early_webhook queued_db" for aid now
    using a by (simp add: enqueue_auto_recharge_if_low_def active_status_def split: option.split)
qed

end
