(* ===== verification/Redirects.thy ===== *)
theory Redirects
  imports Prelude
begin

text \<open>
  The guards on values that arrive from outside, \<open>lib/auth/redirects.ts\<close>: the post-sign-in redirect
  target and the e-mail prefill. \<open>requestOrigin\<close> builds the public origin with the URL parser; the
  handlers of the development take the origin as an argument.

  \<open>own_authority\<close> is the part of the URL standard the redirect relies on: \<open>new URL(path, origin)\<close>
  trims C0 controls and spaces at both ends, drops every tab and newline inside, and a reference
  that then begins with two slashes (either kind) names its own host.
\<close>

section \<open>Resolving a path against the origin\<close>

definition is_c0_or_space :: "char \<Rightarrow> bool" where
  "is_c0_or_space c \<longleftrightarrow> (of_char c :: nat) \<le> 32"

definition is_tab_or_newline :: "char \<Rightarrow> bool" where
  "is_tab_or_newline c \<longleftrightarrow> (let n = (of_char c :: nat) in n = 9 \<or> n = 10 \<or> n = 13)"

definition url_clean :: "string \<Rightarrow> string" where
  "url_clean s = filter (\<lambda>c. \<not> is_tab_or_newline c)
     (rev (dropWhile is_c0_or_space (rev (dropWhile is_c0_or_space s))))"

definition is_slash :: "char \<Rightarrow> bool" where
  "is_slash c \<longleftrightarrow> c = CHR ''/'' \<or> c = CHR 0x5C"

definition own_authority :: "string \<Rightarrow> string option" where
  "own_authority s =
     (case url_clean s of
        a # b # rest \<Rightarrow>
          if is_slash a \<and> is_slash b
          then Some (takeWhile (\<lambda>c. \<not> is_slash c \<and> c \<noteq> CHR ''?'' \<and> c \<noteq> CHR ''#'') (dropWhile is_slash rest))
          else None
      | _ \<Rightarrow> None)"

section \<open>The guards\<close>

definition safeNextPath :: "string option \<Rightarrow> string" where
  "safeNextPath v =
     (case v of
        None \<Rightarrow> ''/''
      | Some s \<Rightarrow>
          if s = '''' \<or> \<not> startsWith s ''/'' \<or> startsWith s ''//'' \<or> str_includes s [CHR 0x5C] then ''/'' else s)"

definition local_char :: "char \<Rightarrow> bool" where
  "local_char c \<longleftrightarrow> is_alpha c \<or> is_digit c \<or> List.member ''._%+-'' c \<or> c = CHR 0x27"

definition domain_char :: "char \<Rightarrow> bool" where
  "domain_char c \<longleftrightarrow> is_alpha c \<or> is_digit c \<or> List.member ''.-'' c"

definition email_shape :: "string \<Rightarrow> bool" where
  "email_shape s =
     (case split_on (CHR ''@'') s of
        [user, host] \<Rightarrow>
          (let labels = split_on (CHR ''.'') host; front = join_with ''.'' (butlast labels); tld = last labels
           in user \<noteq> [] \<and> list_all local_char user
              \<and> 2 \<le> length labels \<and> front \<noteq> [] \<and> list_all domain_char front
              \<and> 2 \<le> length tld \<and> list_all is_alpha tld)
      | _ \<Rightarrow> False)"

definition safePrefillEmail :: "string option \<Rightarrow> string option" where
  "safePrefillEmail v =
     (let trimmed = (case v of None \<Rightarrow> '''' | Some s \<Rightarrow> trim s)
      in if trimmed = '''' \<or> 254 < length trimmed \<or> \<not> email_shape trimmed then None else Some trimmed)"

section \<open>Lemmas\<close>

lemma split_join: "join_with [d] (split_on d s) = s"
proof (induction s)
  case (Cons c s)
  obtain w ws where "split_on d s = w # ws" using split_on_nonempty by (meson neq_Nil_conv)
  with Cons show ?case by (cases ws) auto
qed simp

lemma split_on_last: "d \<notin> set b \<Longrightarrow> split_on d (a @ d # b) = split_on d a @ [b]"
proof (induction a)
  case Nil
  then show ?case by (simp add: split_on_absent)
next
  case (Cons c a)
  obtain v vs where "split_on d a = v # vs" using split_on_nonempty by (meson neq_Nil_conv)
  with Cons show ?case by simp
qed

lemma join_snoc: "ws \<noteq> [] \<Longrightarrow> join_with [d] (ws @ [w]) = join_with [d] ws @ d # w"
proof (induction ws)
  case (Cons v vs)
  then show ?case by (cases vs) auto
qed simp

lemma separators:
  "\<not> local_char (CHR ''@'')" "\<not> domain_char (CHR ''@'')" "\<not> is_alpha (CHR ''@'')" "\<not> is_alpha (CHR ''.'')"
  by code_simp+

section \<open>Properties\<close>

text \<open>
  The executable shape test is the pattern of the source: an address passes exactly when it is a
  non-empty local part, an at sign, a non-empty host front, a dot and two or more letters, each
  over its character class.
\<close>

theorem email_shape_is_the_pattern:
  "email_shape s \<longleftrightarrow> (\<exists>user front tld. s = user @ ''@'' @ front @ ''.'' @ tld
     \<and> user \<noteq> [] \<and> (\<forall>c\<in>set user. local_char c) \<and> front \<noteq> [] \<and> (\<forall>c\<in>set front. domain_char c)
     \<and> 2 \<le> length tld \<and> (\<forall>c\<in>set tld. is_alpha c))" (is "_ \<longleftrightarrow> ?pattern")
proof
  assume "email_shape s"
  then obtain user host where s: "split_on (CHR ''@'') s = [user, host]"
    and u: "user \<noteq> []" "list_all local_char user"
    and h: "2 \<le> length (split_on (CHR ''.'') host)" "join_with ''.'' (butlast (split_on (CHR ''.'') host)) \<noteq> []"
      "list_all domain_char (join_with ''.'' (butlast (split_on (CHR ''.'') host)))"
      "2 \<le> length (last (split_on (CHR ''.'') host))" "list_all is_alpha (last (split_on (CHR ''.'') host))"
    by (auto simp: email_shape_def Let_def split: list.splits)
  let ?ls = "split_on (CHR ''.'') host"
  have "butlast ?ls \<noteq> []" using h(2) by auto
  then have "join_with ''.'' (butlast ?ls @ [last ?ls]) = join_with ''.'' (butlast ?ls) @ ''.'' @ last ?ls"
    unfolding append_Cons append_Nil by (rule join_snoc)
  then have "host = join_with ''.'' (butlast ?ls) @ ''.'' @ last ?ls"
    using split_join [of "CHR ''.''" host] by simp
  moreover have "s = user @ ''@'' @ host" using split_join [of "CHR ''@''" s] s by simp
  ultimately have "s = user @ ''@'' @ join_with ''.'' (butlast ?ls) @ ''.'' @ last ?ls" by (rule back_subst [rotated])
  with u h show ?pattern unfolding list_all_iff by blast
next
  assume ?pattern
  then obtain user front tld where s: "s = user @ ''@'' @ front @ ''.'' @ tld"
    and u: "user \<noteq> []" "\<forall>c\<in>set user. local_char c" and f: "front \<noteq> []" "\<forall>c\<in>set front. domain_char c"
    and t: "2 \<le> length tld" "\<forall>c\<in>set tld. is_alpha c" by blast
  have at: "CHR ''@'' \<notin> set user" "CHR ''@'' \<notin> set (front @ ''.'' @ tld)"
    using u f t separators by auto
  have dot: "CHR ''.'' \<notin> set tld" using t separators by blast
  have "split_on (CHR ''@'') s = [user, front @ ''.'' @ tld]"
    using split_on_first [OF at(1), of "front @ ''.'' @ tld"] split_on_absent [OF at(2)] by (simp add: s)
  moreover have "split_on (CHR ''.'') (front @ ''.'' @ tld) = split_on (CHR ''.'') front @ [tld]"
    using split_on_last [OF dot, of front] by simp
  moreover have "1 \<le> length (split_on (CHR ''.'') front)" by (simp add: Suc_leI)
  ultimately show "email_shape s"
    using u f t by (simp add: email_shape_def Let_def split_join list_all_iff)
qed

text \<open>
  A redirect target without tabs and newlines stays on the origin: whatever the query carried,
  resolving the guarded path keeps the host, and a path that was fine is kept as it is.
\<close>

theorem safe_next_path_stays_on_origin:
  assumes "\<forall>s. v = Some s \<longrightarrow> list_all (\<lambda>c. \<not> is_tab_or_newline c) s"
  shows "own_authority (safeNextPath v) = None \<and> startsWith (safeNextPath v) ''/''"
proof (cases "safeNextPath v = ''/''")
  case True
  have "own_authority ''/'' = None" by code_simp
  then show ?thesis by (simp add: True)
next
  case False
  then obtain s where v: "v = Some s" and s: "safeNextPath v = s" "s \<noteq> []" "startsWith s ''/''" "\<not> startsWith s ''//''"
    "CHR 0x5C \<notin> set s"
    by (auto simp: safeNextPath_def includes_iff split: option.splits if_splits dest: split_list)
  then obtain t where t: "s = CHR ''/'' # t" and t1: "\<not> startsWith t ''/''" by (auto simp: startsWith_iff)
  have nt: "list_all (\<lambda>c. \<not> is_tab_or_newline c) s" using assms v by blast
  have front: "dropWhile is_c0_or_space s = s" by (simp add: t is_c0_or_space_def)
  obtain w where w: "s = rev (dropWhile is_c0_or_space (rev s)) @ w"
    using rev_dropWhile_prefix [of s is_c0_or_space] by blast
  have "filter (\<lambda>c. \<not> is_tab_or_newline c) (rev (dropWhile is_c0_or_space (rev s))) = rev (dropWhile is_c0_or_space (rev s))"
    using nt w unfolding list_all_iff by (metis (no_types, lifting) Un_iff filter_True set_append)
  then have u: "s = url_clean s @ w" using w by (simp add: url_clean_def front)
  have "own_authority s = None"
  proof (cases "url_clean s")
    case (Cons a r)
    show ?thesis
    proof (cases r)
      case (Cons b rest)
      with \<open>url_clean s = a # r\<close> u t have ab: "a = CHR ''/''" "t = b # rest @ w" by simp_all
      have "b \<noteq> CHR ''/''" using t1 ab by (auto simp: startsWith_iff)
      moreover have "b \<noteq> CHR 0x5C" using s(5) t ab by auto
      ultimately show ?thesis by (simp add: own_authority_def \<open>url_clean s = a # r\<close> Cons is_slash_def)
    qed (simp add: own_authority_def Cons)
  qed (simp add: own_authority_def)
  with s show ?thesis by simp
qed

theorem safe_next_path_stays_on_origin_witness:
  "safeNextPath (Some ''/overview?welcome=1'') = ''/overview?welcome=1''
   \<and> own_authority (safeNextPath (Some ''/overview?welcome=1'')) = None"
proof
  show "own_authority (safeNextPath (Some ''/overview?welcome=1'')) = None"
    using safe_next_path_stays_on_origin [of "Some ''/overview?welcome=1''"] by (simp add: is_tab_or_newline_def)
qed code_simp

text \<open>
  A tab defeats the guard: the path slash, tab, slash, host begins with one slash for the check,
  and the URL parser drops the tab, so the redirect goes to the named host.
\<close>

theorem tab_escapes_the_redirect_guard:
  "let path = ''/'' @ [CHR 0x09] @ ''/evil.example/x'' in
     safeNextPath (Some path) = path \<and> own_authority path = Some ''evil.example''"
  unfolding Let_def by (intro conjI) code_simp+

end
