(* ===== verification/Base64.thy ===== *)
theory Base64
  imports Prelude "HOL-Library.Word"
begin

text \<open>
  The \<open>base64url\<close> encoding of Node's \<open>Buffer\<close> and \<open>Hmac.digest\<close>: bytes are \<open>8 word\<close>, the encoder
  writes no padding, and the decoder accepts both alphabets, skips characters of neither and stops
  at an equals sign. Decoding what was encoded gives the bytes back.
\<close>

type_synonym byte = "8 word"

fun to_sextets :: "byte list \<Rightarrow> nat list" where
  "to_sextets [] = []"
| "to_sextets [a] = (let n = unat a * 16 in [n div 64, n mod 64])"
| "to_sextets [a, b] = (let n = (unat a * 256 + unat b) * 4 in [n div 4096, n div 64 mod 64, n mod 64])"
| "to_sextets (a # b # c # bs) =
     (let n = unat a * 65536 + unat b * 256 + unat c
      in n div 262144 # n div 4096 mod 64 # n div 64 mod 64 # n mod 64 # to_sextets bs)"

fun from_sextets :: "nat list \<Rightarrow> byte list" where
  "from_sextets [] = []"
| "from_sextets [x] = []"
| "from_sextets [x, y] = [of_nat ((x * 64 + y) div 16)]"
| "from_sextets [x, y, z] = (let n = (x * 4096 + y * 64 + z) div 4 in [of_nat (n div 256), of_nat (n mod 256)])"
| "from_sextets (x # y # z # w # xs) =
     (let n = x * 262144 + y * 4096 + z * 64 + w
      in of_nat (n div 65536) # of_nat (n div 256 mod 256) # of_nat (n mod 256) # from_sextets xs)"

definition b64_char :: "nat \<Rightarrow> char" where
  "b64_char n = ''ABCDEFGHIJKLMNOPQRSTUVWXYZabcdefghijklmnopqrstuvwxyz0123456789-_'' ! n"

definition b64_value :: "char \<Rightarrow> nat option" where
  "b64_value c = (let n = (of_char c :: nat) in
     if 65 \<le> n \<and> n \<le> 90 then Some (n - 65)
     else if 97 \<le> n \<and> n \<le> 122 then Some (n - 71)
     else if 48 \<le> n \<and> n \<le> 57 then Some (n + 4)
     else if c = CHR ''-'' \<or> c = CHR ''+'' then Some 62
     else if c = CHR ''_'' \<or> c = CHR ''/'' then Some 63
     else None)"

definition b64_encode :: "byte list \<Rightarrow> string" where
  "b64_encode bs = map b64_char (to_sextets bs)"

definition b64_decode :: "string \<Rightarrow> byte list" where
  "b64_decode s = from_sextets (List.map_filter b64_value (takeWhile (\<lambda>c. c \<noteq> CHR ''='') s))"

section \<open>Round trip\<close>

lemma byte_bound: "unat (a :: byte) < 256"
  using unsigned_less [of a] by simp

lemma byte_unat: "of_nat (unat (a :: byte)) = a"
  by simp

lemma split_digit: "c < k \<Longrightarrow> (q * k + c) div k = q \<and> (q * k + c) mod k = (c :: nat)"
  by simp

lemma base64_digits:
  fixes n :: nat
  shows "n div 64 * 64 + n mod 64 = n"
    and "n div 4096 * 4096 + n div 64 mod 64 * 64 + n mod 64 = n"
    and "n div 262144 * 262144 + n div 4096 mod 64 * 4096 + n div 64 mod 64 * 64 + n mod 64 = n"
proof -
  have d: "n div 4096 = n div 64 div 64" "n div 262144 = n div 64 div 64 div 64" by (simp_all add: div_mult2_eq [symmetric])
  note e = div_mult_mod_eq [of n 64] div_mult_mod_eq [of "n div 64" 64] div_mult_mod_eq [of "n div 64 div 64" 64]
  show "n div 64 * 64 + n mod 64 = n" using e(1) by simp
  show "n div 4096 * 4096 + n div 64 mod 64 * 64 + n mod 64 = n" using e unfolding d by linarith
  show "n div 262144 * 262144 + n div 4096 mod 64 * 4096 + n div 64 mod 64 * 64 + n mod 64 = n" using e unfolding d by linarith
qed

lemma byte_digits:
  assumes "b < 256" and "c < (256 :: nat)"
  shows "(a * 65536 + b * 256 + c) div 65536 = a" and "(a * 65536 + b * 256 + c) div 256 mod 256 = b"
    and "(a * 65536 + b * 256 + c) mod 256 = c"
proof -
  have n: "a * 65536 + b * 256 + c = (a * 256 + b) * 256 + c" by simp
  have "(a * 65536 + b * 256 + c) div 256 = a * 256 + b" unfolding n using split_digit [OF assms(2), of "a * 256 + b"] by (rule conjunct1)
  moreover have "(a * 65536 + b * 256 + c) div 65536 = (a * 65536 + b * 256 + c) div 256 div 256"
    by (simp add: div_mult2_eq [symmetric])
  ultimately show "(a * 65536 + b * 256 + c) div 65536 = a" "(a * 65536 + b * 256 + c) div 256 mod 256 = b"
    using split_digit [OF assms(1), of a] by (simp_all only:)
  show "(a * 65536 + b * 256 + c) mod 256 = c" unfolding n using split_digit [OF assms(2), of "a * 256 + b"] by (rule conjunct2)
qed

lemma sextets_roundtrip: "from_sextets (to_sextets bs) = bs"
proof (induction bs rule: to_sextets.induct)
  case (2 a)
  have "(of_nat (unat a * 16 div 16) :: byte) = a" by simp
  then show ?case by (simp only: to_sextets.simps from_sextets.simps Let_def base64_digits)
next
  case (3 a b)
  have d: "(unat a * 256 + unat b) div 256 = unat a" "(unat a * 256 + unat b) mod 256 = unat b"
    using split_digit [OF byte_bound, of "unat a" b] by simp_all
  have "(unat a * 256 + unat b) * 4 div 4 = unat a * 256 + unat b" by simp
  then show ?case by (simp only: to_sextets.simps from_sextets.simps Let_def base64_digits d byte_unat)
next
  case (4 a b c bs)
  then show ?case
    by (simp only: to_sextets.simps from_sextets.simps Let_def base64_digits
        byte_digits [OF byte_bound byte_bound] byte_unat)
qed simp

lemma sextet_top: "n < m \<Longrightarrow> m = k * 64 \<Longrightarrow> n div k < (64 :: nat)"
  by (simp add: less_mult_imp_div_less mult.commute)

lemma sextet_rest: "n mod 64 < (64 :: nat)"
  by simp

lemma byte_le: "unat (a :: byte) \<le> 255"
  using byte_bound [of a] by simp

lemma sextets_small: "list_all (\<lambda>x. x < 64) (to_sextets bs)"
proof (induction bs rule: to_sextets.induct)
  case (2 a)
  have "unat a * 16 < 4096" using byte_le [of a] by linarith
  then have "unat a * 16 div 64 < 64" by (rule sextet_top) simp
  then show ?case by (simp only: to_sextets.simps Let_def list.pred_inject sextet_rest simp_thms)
next
  case (3 a b)
  have "unat a * 256 + unat b \<le> 65535" using byte_le [of a] byte_le [of b] by linarith
  from mult_le_mono1 [OF this, of 4] have "(unat a * 256 + unat b) * 4 < 262144" by (rule le_less_trans) simp
  then have "(unat a * 256 + unat b) * 4 div 4096 < 64" by (rule sextet_top) simp
  then show ?case by (simp only: to_sextets.simps Let_def list.pred_inject sextet_rest simp_thms)
next
  case (4 a b c bs)
  have "unat a * 65536 + unat b * 256 + unat c < 16777216"
    using byte_le [of a] byte_le [of b] byte_le [of c] by linarith
  then have "(unat a * 65536 + unat b * 256 + unat c) div 262144 < 64" by (rule sextet_top) simp
  with 4 show ?case by (simp only: to_sextets.simps Let_def list.pred_inject sextet_rest simp_thms)
qed simp

lemma sextets_bound: "\<forall>x\<in>set (to_sextets bs). x < 64"
  using sextets_small unfolding list_all_iff .

lemma b64_chars: "list_all (\<lambda>n. b64_value (b64_char n) = Some n \<and> b64_char n \<noteq> CHR ''='' \<and> b64_char n \<noteq> CHR ''.'') [0..<64]"
  by (simp add: upt_rec b64_value_def b64_char_def)

lemma b64_char_value: "n < 64 \<Longrightarrow> b64_value (b64_char n) = Some n \<and> b64_char n \<noteq> CHR ''='' \<and> b64_char n \<noteq> CHR ''.''"
  using b64_chars by (simp add: list_all_iff)

lemma b64_encode_chars: "c \<in> set (b64_encode bs) \<Longrightarrow> c \<noteq> CHR ''='' \<and> c \<noteq> CHR ''.''"
  using sextets_bound b64_char_value by (auto simp: b64_encode_def)

lemma b64_roundtrip: "b64_decode (b64_encode bs) = bs"
proof -
  have t: "takeWhile (\<lambda>c. c \<noteq> CHR ''='') (b64_encode bs) = b64_encode bs"
    using b64_encode_chars by (intro takeWhile_eq_all_conv [THEN iffD2]) blast
  have m: "List.map_filter b64_value (map b64_char xs) = xs" if "\<forall>x\<in>set xs. x < 64" for xs
    using that by (induction xs) (simp_all add: List.map_filter_def b64_char_value)
  show ?thesis unfolding b64_decode_def t unfolding b64_encode_def m [OF sextets_bound] by (rule sextets_roundtrip)
qed

end
