(* ===== verification/Auth_Flows.thy ===== *)
theory Auth_Flows
  imports Api_Keys Spend_Unlock Redirects "HOL-Library.Sublist"
begin

text \<open>
  The public sign-in and sign-up entry points: \<open>app/auth/password/signin\<close>, \<open>app/auth/otp\<close>,
  \<open>app/auth/otp/verify\<close>, \<open>app/auth/password/reset\<close>, \<open>app/auth/resend-verification\<close>, \<open>app/signup\<close>
  and \<open>app/api/signup/instant\<close> with \<open>lib/auth/instant-signup.ts\<close>, \<open>lib/auth/verification.ts\<close> and
  \<open>lib/auth/signin-methods.ts\<close>.

  What GoTrue and the mailer answer to one request is the record \<open>auth_service\<close>; it may differ from
  request to request. The account tables are GoTrue's, so a created account is its effect on the
  shared tables (the provisioning trigger), with the process state untouched. A mail that left
  is a row of \<open>mails\<close>, confirmed when the sender was told so; \<open>slips\<close> says for which requests a mail
  leaves although the answer is an error. The texts of the mails and the console output are not modelled.
\<close>

section \<open>The services\<close>

record auth_error =
  ae_code :: "string option"
  ae_status :: "int option"
  ae_message :: "string option"

datatype otp_answer = Otp_sent | Otp_threw | Otp_error auth_error

record auth_service =
  service_key :: bool
  sign_in_password :: "string \<Rightarrow> string \<Rightarrow> string option"
  send_otp :: "string \<Rightarrow> bool \<Rightarrow> string option \<Rightarrow> otp_answer"
  verify_otp :: "string \<Rightarrow> string \<Rightarrow> (string \<times> jsnum) option"
  generate_link :: "string \<Rightarrow> string \<Rightarrow> string option"
  send_mail :: "string \<Rightarrow> string \<Rightarrow> bool"
  slips :: "string \<Rightarrow> string \<Rightarrow> bool"
  methods_lookup :: "string \<Rightarrow> json option"
  create_user :: "string \<Rightarrow> string \<Rightarrow> string option \<Rightarrow> db \<Rightarrow> auth_error + (string option \<times> db)"
  delete_user :: "string \<Rightarrow> db \<Rightarrow> db"
  uuid_a :: string
  uuid_b :: string

definition createServiceRoleSupabaseClient :: "auth_service \<Rightarrow> unit act" where
  "createServiceRoleSupabaseClient A =
     (if service_key A then ret () else throw (PlainError ''SUPABASE_SERVICE_ROLE_KEY must be set for admin operations.''))"

text \<open>GoTrue runs elsewhere: it can touch the tables, not the memory of this process or the mail log.\<close>

definition remote_effect :: "(db \<Rightarrow> db) \<Rightarrow> db \<Rightarrow> db" where
  "remote_effect f s = (f s)\<lparr>limiter := limiter s, mails := mails s, sso_cache := sso_cache s\<rparr>"

definition limit :: "(limits \<Rightarrow> bool \<times> limits) \<Rightarrow> bool act" where
  "limit f = (\<lambda>s. let (ok, l) = f (limiter s) in (Inr ok, s\<lparr>limiter := l\<rparr>))"

definition mailed :: "env \<Rightarrow> string \<Rightarrow> string \<Rightarrow> unit act" where
  "mailed E to kind = modify (\<lambda>s. s\<lparr>mails := mails s @ [\<lparr>ml_to = to, ml_kind = kind, ml_at = now_ms E, ml_confirmed = True\<rparr>]\<rparr>)"

text \<open>A send that fails in the eyes of the sender; the mail may have left all the same.\<close>

definition slipped :: "env \<Rightarrow> auth_service \<Rightarrow> string \<Rightarrow> string \<Rightarrow> unit act" where
  "slipped E A to kind = (if slips A to kind
     then modify (\<lambda>s. s\<lparr>mails := mails s @ [\<lparr>ml_to = to, ml_kind = kind, ml_at = now_ms E, ml_confirmed = False\<rparr>]\<rparr>)
     else ret ())"

definition code_resp :: "string \<Rightarrow> string \<Rightarrow> int \<Rightarrow> resp" where
  "code_resp c msg st = json_resp (JObj [(''code'', JStr c), (''error'', JStr msg)]) st"

definition ok_resp :: resp where
  "ok_resp = json_resp (JObj [(''ok'', JBool True)]) 200"

section \<open>Mail\<close>

definition sendResendEmail :: "env \<Rightarrow> auth_service \<Rightarrow> string \<Rightarrow> string \<Rightarrow> bool act" where
  "sendResendEmail E A to kind =
     (if send_mail A to kind then bind (mailed E to kind) (\<lambda>_. ret True)
      else bind (slipped E A to kind) (\<lambda>_. ret False))"

definition send_link :: "env \<Rightarrow> auth_service \<Rightarrow> string \<Rightarrow> string \<Rightarrow> bool act" where
  "send_link E A kind email =
     (case generate_link A kind email of
        None \<Rightarrow> ret False
      | Some token \<Rightarrow> if token = '''' then ret False else sendResendEmail E A email kind)"

definition sendVerificationEmail :: "env \<Rightarrow> auth_service \<Rightarrow> string \<Rightarrow> bool act" where
  "sendVerificationEmail E A email = send_link E A ''magiclink'' email"

definition sendPasswordResetEmail :: "env \<Rightarrow> auth_service \<Rightarrow> string \<Rightarrow> bool act" where
  "sendPasswordResetEmail E A email = send_link E A ''recovery'' email"

definition request_otp :: "env \<Rightarrow> auth_service \<Rightarrow> string \<Rightarrow> bool \<Rightarrow> string option \<Rightarrow> otp_answer act" where
  "request_otp E A email create tok =
     (case send_otp A email create tok of
        Otp_sent \<Rightarrow> bind (mailed E email ''otp'') (\<lambda>_. ret Otp_sent)
      | a \<Rightarrow> bind (slipped E A email ''otp'') (\<lambda>_. ret a))"

definition sendEmailCode :: "env \<Rightarrow> auth_service \<Rightarrow> string \<Rightarrow> bool \<Rightarrow> bool act" where
  "sendEmailCode E A email shouldCreateUser =
     bind (request_otp E A email shouldCreateUser None) (\<lambda>a. ret (a = Otp_sent))"

definition sendSigninCode :: "env \<Rightarrow> auth_service \<Rightarrow> string \<Rightarrow> bool act" where
  "sendSigninCode E A email = sendEmailCode E A email False"

definition sendSignupCode :: "env \<Rightarrow> auth_service \<Rightarrow> string \<Rightarrow> bool act" where
  "sendSignupCode E A email = sendEmailCode E A email True"

section \<open>Shared lookups\<close>

definition signinMethodsForEmail :: "auth_service \<Rightarrow> string \<Rightarrow> string list option" where
  "signinMethodsForEmail A email =
     (case methods_lookup A email of
        Some (JArr xs) \<Rightarrow> Some (List.map_filter (\<lambda>j. jstr (Some j)) xs)
      | _ \<Rightarrow> None)"

definition signupAllowed :: "env \<Rightarrow> auth_service \<Rightarrow> string \<Rightarrow> string option \<Rightarrow> bool act" where
  "signupAllowed E A email tok =
     catching (bind (createServiceRoleSupabaseClient A) (\<lambda>_. isSignupAllowed E email tok)) (\<lambda>_. ret False)"

definition emailHasAccount :: "auth_service \<Rightarrow> string \<Rightarrow> bool option" where
  "emailHasAccount A email =
     (if \<not> service_key A then None
      else (case methods_lookup A email of Some (JArr xs) \<Rightarrow> Some (0 < length xs) | _ \<Rightarrow> None))"

section \<open>Password sign-in\<close>

definition email_field :: "json \<Rightarrow> string option" where
  "email_field v = (case jstr (jget ''email'' v) of None \<Rightarrow> None | Some e \<Rightarrow> safePrefillEmail (Some e))"

definition parseSigninPayload :: "json \<Rightarrow> string + (string \<times> string)" where
  "parseSigninPayload v =
     (if \<not> is_jobject v then Inl ''Request must be an object.''
      else (case email_field v of
              None \<Rightarrow> Inl ''A valid email is required.''
            | Some email \<Rightarrow>
                (case jstr (jget ''password'' v) of
                   None \<Rightarrow> Inl ''A password is required.''
                 | Some p \<Rightarrow> if p = '''' then Inl ''A password is required.'' else Inr (email, p))))"

definition rejected_signin :: "auth_service \<Rightarrow> string \<Rightarrow> resp" where
  "rejected_signin A email =
     (if service_key A \<and> signinMethodsForEmail A email = Some []
      then code_resp ''no_account'' ''No account found for that email.'' 401
      else code_resp ''wrong_password'' ''Wrong password.'' 401)"

definition signin_POST :: "env \<Rightarrow> auth_service \<Rightarrow> string \<Rightarrow> json \<Rightarrow> resp act" where
  "signin_POST E A ip request =
     (case parseSigninPayload request of
        Inl msg \<Rightarrow> ret (code_resp ''invalid_request'' msg 400)
      | Inr (email, password) \<Rightarrow>
          bind (limit (allowSigninAttempt (now_ms E) ip email)) (\<lambda>ok.
          if \<not> ok then ret (code_resp ''rate_limited'' ''Too many sign-in attempts; try again shortly.'' 429)
          else (case sign_in_password A email password of
                  None \<Rightarrow> ret (rejected_signin A email)
                | Some _ \<Rightarrow> ret (json_resp (JObj [(''ok'', JBool True), (''created'', JBool False)]) 200))))"

section \<open>The e-mailed code\<close>

definition parseOtpPayload :: "json \<Rightarrow> string + (string \<times> string option)" where
  "parseOtpPayload v =
     (if \<not> is_jobject v then Inl ''Request must be an object.''
      else (case email_field v of
              None \<Rightarrow> Inl ''A valid email is required.''
            | Some email \<Rightarrow>
                (case jget ''inviteToken'' v of
                   Some (JStr t) \<Rightarrow> Inr (email, if trim t = '''' then None else Some (trim t))
                 | None \<Rightarrow> Inr (email, None)
                 | Some JNull \<Rightarrow> Inr (email, None)
                 | Some _ \<Rightarrow> Inl ''Invite token must be a string.'')))"

definition code_sent_recently :: resp where
  "code_sent_recently =
     code_resp ''rate_limited'' ''A code was sent recently. Check your inbox, or wait a minute and try again.'' 429"

definition otp_send_failed :: resp where
  "otp_send_failed = code_resp ''otp_send_failed'' ''Couldn't send the code. Try again, or use a password.'' 502"

definition otp_reserve :: "env \<Rightarrow> auth_service \<Rightarrow> string \<Rightarrow> string option \<Rightarrow> (resp + bool) act" where
  "otp_reserve E A email tok =
     bind (signupAllowed E A email tok) (\<lambda>allowSignup.
     bind (limit (allowEmailSend (now_ms E) email)) (\<lambda>ok.
     ret (if ok then Inr allowSignup else Inl code_sent_recently)))"

definition handBack :: "string \<Rightarrow> unit act" where
  "handBack email = modify (\<lambda>s. s\<lparr>limiter := releaseEmailSend email (limiter s)\<rparr>)"

definition otp_dispatch :: "env \<Rightarrow> auth_service \<Rightarrow> string \<Rightarrow> string option \<Rightarrow> bool \<Rightarrow> resp act" where
  "otp_dispatch E A email tok allowSignup =
     bind (request_otp E A email allowSignup tok) (\<lambda>a.
     case a of
       Otp_sent \<Rightarrow> ret ok_resp
     | Otp_threw \<Rightarrow> bind (handBack email) (\<lambda>_. ret otp_send_failed)
     | Otp_error err \<Rightarrow>
         bind (handBack email) (\<lambda>_.
         ret (if ae_status err = Some 429 then code_sent_recently
              else if ae_code err = Some ''otp_disabled'' \<or> ae_status err = Some 422 then ok_resp
              else otp_send_failed)))"

definition otp_POST :: "env \<Rightarrow> auth_service \<Rightarrow> json \<Rightarrow> resp act" where
  "otp_POST E A request =
     (case parseOtpPayload request of
        Inl msg \<Rightarrow> ret (code_resp ''invalid_request'' msg 400)
      | Inr (email, tok) \<Rightarrow>
          bind (otp_reserve E A email tok) (\<lambda>p.
          case p of Inl r \<Rightarrow> ret r | Inr allowSignup \<Rightarrow> otp_dispatch E A email tok allowSignup))"

section \<open>Entering the code\<close>

definition CREATED_WINDOW_MS :: int where "CREATED_WINDOW_MS = 30 * 60 * 1000"

definition parseVerifyPayload :: "json \<Rightarrow> string + (string \<times> string)" where
  "parseVerifyPayload v =
     (if \<not> is_jobject v then Inl ''Request must be an object.''
      else (case email_field v of
              None \<Rightarrow> Inl ''A valid email is required.''
            | Some email \<Rightarrow>
                (let token = (case jstr (jget ''token'' v) of None \<Rightarrow> '''' | Some t \<Rightarrow> trim t)
                 in if length token = 6 \<and> list_all is_digit token then Inr (email, token)
                    else Inl ''The sign-in code is 6 digits.'')))"

definition otp_verify_POST :: "env \<Rightarrow> auth_service \<Rightarrow> json \<Rightarrow> resp act" where
  "otp_verify_POST E A request =
     (case parseVerifyPayload request of
        Inl msg \<Rightarrow> ret (code_resp ''invalid_request'' msg 400)
      | Inr (email, token) \<Rightarrow>
          (case verify_otp A email token of
             None \<Rightarrow> ret (code_resp ''otp_invalid'' ''That code is invalid or has expired. Request a new one.'' 400)
           | Some (uid, createdAt) \<Rightarrow>
               bind (createServiceRoleSupabaseClient A) (\<lambda>_.
               bind (unlockSpendOnInboxProof E uid) (\<lambda>_.
               ret (json_resp (JObj [(''ok'', JBool True),
                 (''created'', JBool (js_is_finite createdAt
                    \<and> js_lt (js_sub (js_int (now_ms E)) createdAt) (js_int CREATED_WINDOW_MS)))]) 200)))))"

section \<open>Password reset and verification mail\<close>

definition parseResetPayload :: "json \<Rightarrow> string + string" where
  "parseResetPayload v =
     (if \<not> is_jobject v then Inl ''Request must be an object.''
      else (case email_field v of None \<Rightarrow> Inl ''A valid email is required.'' | Some email \<Rightarrow> Inr email))"

definition swallow :: "bool act \<Rightarrow> unit act" where
  "swallow m = catching (bind m (\<lambda>_. ret ())) (\<lambda>_. ret ())"

definition reset_POST :: "env \<Rightarrow> auth_service \<Rightarrow> json \<Rightarrow> resp act" where
  "reset_POST E A request =
     (case parseResetPayload request of
        Inl msg \<Rightarrow> ret (code_resp ''invalid_request'' msg 400)
      | Inr email \<Rightarrow>
          bind (limit (allowEmailSend (now_ms E) email)) (\<lambda>ok.
          bind (if ok
                then swallow (bind (createServiceRoleSupabaseClient A) (\<lambda>_. sendPasswordResetEmail E A email))
                else ret ()) (\<lambda>_.
          ret ok_resp)))"

definition resend_POST :: "env \<Rightarrow> auth_service \<Rightarrow> resp act" where
  "resend_POST E A =
     (case Option.bind (getAuthenticatedUser E) usr_email of
        None \<Rightarrow> ret (error_resp ''Authentication required.'' 401)
      | Some email \<Rightarrow>
          bind (limit (allowEmailSend (now_ms E) email)) (\<lambda>ok.
          bind (if ok
                then swallow (bind (createServiceRoleSupabaseClient A) (\<lambda>_. sendVerificationEmail E A email))
                else ret ()) (\<lambda>_.
          ret ok_resp)))"

section \<open>The marketing sign-up\<close>

record redirect =
  rd_path :: string
  rd_query :: "(string, string) jsmap"

definition bounceToSignin :: "string \<Rightarrow> (string \<times> string) list \<Rightarrow> redirect" where
  "bounceToSignin email params =
     \<lparr>rd_path = ''/signin'', rd_query = foldl (\<lambda>q (k, v). map_set k v q) [(''email'', email)] params\<rparr>"

definition send_and_bounce :: "string \<Rightarrow> bool act \<Rightarrow> (string \<times> string) list \<Rightarrow> redirect act" where
  "send_and_bounce email send extra =
     bind send (\<lambda>sent.
     bind (if sent then ret () else handBack email) (\<lambda>_.
     ret (bounceToSignin email ((if sent then (''sent'', ''1'') else (''error'', ''otp_send_failed'')) # extra))))"

definition signup_GET :: "env \<Rightarrow> auth_service \<Rightarrow> string \<Rightarrow> string option \<Rightarrow> redirect act" where
  "signup_GET E A ip emailParam =
     (case safePrefillEmail emailParam of
        None \<Rightarrow> ret \<lparr>rd_path = ''/signin'', rd_query = []\<rparr>
      | Some email \<Rightarrow>
          bind (limit (allowSignupStart (now_ms E) ip)) (\<lambda>started.
          if \<not> started then ret (bounceToSignin email [(''error'', ''rate_limited'')])
          else if emailHasAccount A email \<noteq> Some False then
            bind (limit (allowEmailSend (now_ms E) email)) (\<lambda>ok.
            if \<not> ok then ret (bounceToSignin email [(''error'', ''rate_limited'')])
            else send_and_bounce email (sendSigninCode E A email) [])
          else
            bind (signupAllowed E A email None) (\<lambda>allowed.
            if \<not> allowed then ret (bounceToSignin email [(''error'', ''signup_disabled'')])
            else bind (limit (allowEmailSend (now_ms E) email)) (\<lambda>ok.
                 if \<not> ok then ret (bounceToSignin email [(''error'', ''rate_limited''), (''signup'', ''1'')])
                 else send_and_bounce email (sendSignupCode E A email) [(''signup'', ''1'')]))))"

section \<open>Instant sign-up\<close>

datatype instant_result =
    Created (ir_user: string) (ir_org: string) (ir_secret: "string option") (ir_credits: "jsnum option") (ir_password: string)
  | Account_exists
  | Signup_failed string

definition isAlreadyRegistered :: "auth_error \<Rightarrow> bool" where
  "isAlreadyRegistered err \<longleftrightarrow>
     ae_code err = Some ''email_exists'' \<or> ae_code err = Some ''user_already_exists''
     \<or> str_includes (toLowerCase (case ae_message err of None \<Rightarrow> '''' | Some m \<Rightarrow> m)) ''already registered''"

definition bootstrap_secret :: "auth_service \<Rightarrow> string" where
  "bootstrap_secret A = ''xpl-'' @ filter (\<lambda>c. c \<noteq> CHR ''-'') (uuid_a A) @ filter (\<lambda>c. c \<noteq> CHR ''-'') (uuid_b A)"

definition register :: "auth_service \<Rightarrow> string \<Rightarrow> string option \<Rightarrow> (instant_result + string) act" where
  "register A email inviteToken = (\<lambda>s.
     let tok = (case inviteToken of Some t \<Rightarrow> if t = '''' then None else Some t | None \<Rightarrow> None) in
     case create_user A email (bootstrap_secret A) tok s of
       Inl err \<Rightarrow>
         (Inr (Inl (if isAlreadyRegistered err then Account_exists
                    else Signup_failed (case ae_message err of None \<Rightarrow> ''Could not create the account.'' | Some m \<Rightarrow> m))), s)
     | Inr (None, t) \<Rightarrow> (Inr (Inl (Signup_failed ''Could not create the account.'')), remote_effect (\<lambda>_. t) s)
     | Inr (Some uid, t) \<Rightarrow> (Inr (Inr uid), remote_effect (\<lambda>_. t) s))"

definition founder_orgs :: "string \<Rightarrow> db \<Rightarrow> string list" where
  "founder_orgs uid s = map m_org (filter (\<lambda>m. m_user m = uid \<and> m_role m = ''admin'') (members s))"

definition granted_credits :: "env \<Rightarrow> string \<Rightarrow> jsnum option act" where
  "granted_credits E oid =
     bind (query (faults E ''organizations.credit_granted_usd'') (\<lambda>s. first_where (\<lambda>r. o_id r = oid) (organizations s))) (\<lambda>r.
     ret (case r of Inr (Some row) \<Rightarrow> Some (read_numeric (o_credit_granted_usd row)) | _ \<Rightarrow> None))"

definition mint_first_key :: "(string \<Rightarrow> string) \<Rightarrow> env \<Rightarrow> auth_service \<Rightarrow> string \<Rightarrow> string \<Rightarrow> jsnum option \<Rightarrow> string \<Rightarrow> instant_result act" where
  "mint_first_key sha E A uid oid credits keyName =
     (let minted = mintApiKeySecret sha E in
      bind (call (faults E ''api_keys.insert'') (insert_key (new_key E minted oid keyName uid None None))) (\<lambda>r.
      case r of
        Inl err \<Rightarrow> ret (Signup_failed (message err))
      | Inr k \<Rightarrow>
          bind (recordAuditEvent E \<lparr>ev_org = Some oid, ev_actor_kind = ''user'', ev_actor_id = Some uid,
                  ev_action = ''keys.mint'', ev_object_type = ''api_key'', ev_object_id = k_id k,
                  ev_before = None, ev_after = None,
                  ev_context = Some (JObj [(''via'', JStr ''instant_signup'')])\<rparr>) (\<lambda>_.
          ret (Created uid oid (Some (mk_secret minted)) credits (bootstrap_secret A)))))"

definition provisionInstantAccount ::
    "(string \<Rightarrow> string) \<Rightarrow> env \<Rightarrow> auth_service \<Rightarrow> string \<Rightarrow> string option \<Rightarrow> string option \<Rightarrow> instant_result act" where
  "provisionInstantAccount sha E A email inviteToken keyName =
     bind (register A email inviteToken) (\<lambda>p.
     case p of
       Inl r \<Rightarrow> ret r
     | Inr uid \<Rightarrow>
         bind (query (faults E ''organization_members.founder'') (founder_orgs uid)) (\<lambda>m.
         case m of
           Inr [oid] \<Rightarrow>
             bind (granted_credits E oid) (\<lambda>credits.
             case keyName of
               None \<Rightarrow> ret (Created uid oid None credits (bootstrap_secret A))
             | Some name \<Rightarrow> mint_first_key sha E A uid oid credits name)
         | _ \<Rightarrow>
             bind (modify (remote_effect (delete_user A uid))) (\<lambda>_.
             ret (Signup_failed ''Account provisioning did not complete; try again.''))))"

definition parseEmail :: "json \<Rightarrow> string + string" where
  "parseEmail payload =
     (if \<not> is_jobject payload then Inl ''Signup request must be a JSON object.''
      else (case jstr (jget ''email'' payload) of
              None \<Rightarrow> Inl ''Signup request must include an email.''
            | Some raw \<Rightarrow>
                if trim raw = '''' then Inl ''Signup request must include an email.''
                else (case safePrefillEmail (Some raw) of
                        None \<Rightarrow> Inl ''That email address is not valid.''
                      | Some email \<Rightarrow> Inr email)))"

definition created_json :: "string \<Rightarrow> string option \<Rightarrow> string \<Rightarrow> jsnum option \<Rightarrow> bool \<Rightarrow> json" where
  "created_json origin secret oid credits sent =
     JObj [(''api_key'', jopt JStr secret), (''org_id'', JStr oid), (''credits_granted'', jopt JNum credits),
       (''verification_required'', JBool True), (''verification_email_sent'', JBool sent),
       (''overview_url'', JStr (origin @ ''/overview''))]"

definition instant_POST :: "(string \<Rightarrow> string) \<Rightarrow> env \<Rightarrow> auth_service \<Rightarrow> string \<Rightarrow> string \<Rightarrow> json \<Rightarrow> resp act" where
  "instant_POST sha E A origin ip request = handler (
     case parseEmail request of
       Inl msg \<Rightarrow> ret (code_resp ''invalid_request'' msg 400)
     | Inr email \<Rightarrow>
         bind (limit (allowSignupStart (now_ms E) ip)) (\<lambda>started.
         if \<not> started then ret (code_resp ''rate_limited'' ''Too many signups from this address; try again shortly.'' 429)
         else
           bind (createServiceRoleSupabaseClient A) (\<lambda>_.
           bind (catching (isSignupAllowed E email None) (\<lambda>_. ret False)) (\<lambda>allowed.
           if \<not> allowed then ret (code_resp ''signup_disabled'' SIGNUP_DISABLED_MESSAGE 403)
           else
             bind (provisionInstantAccount sha E A email None (Some ''Coding agent (instant signup)'')) (\<lambda>result.
             case result of
               Account_exists \<Rightarrow>
                 ret (code_resp ''account_exists'' ''An account already exists for this email. Sign in to get an API key.'' 409)
             | Signup_failed msg \<Rightarrow> ret (code_resp ''signup_failed'' msg 500)
             | Created uid oid secret credits password \<Rightarrow>
                 bind (limit (allowEmailSend (now_ms E) email)) (\<lambda>ok.
                 bind (if ok then sendVerificationEmail E A email else ret False) (\<lambda>sent.
                 ret (jsonOk (created_json origin secret oid credits sent)))))))))"

section \<open>Requests over time\<close>

datatype auth_request =
    Password_signin string json
  | Otp_request json
  | Otp_entry json
  | Reset_request json
  | Resend_request
  | Signup_visit string "string option"
  | Instant_signup string json

definition answer :: "resp act \<Rightarrow> db \<Rightarrow> int \<times> db" where
  "answer m s = (status (response m s), snd (m s))"

fun serve :: "(string \<Rightarrow> string) \<Rightarrow> string \<Rightarrow> env \<Rightarrow> auth_service \<Rightarrow> auth_request \<Rightarrow> db \<Rightarrow> int \<times> db" where
  "serve sha origin E A (Password_signin ip b) s = answer (signin_POST E A ip b) s"
| "serve sha origin E A (Otp_request b) s = answer (otp_POST E A b) s"
| "serve sha origin E A (Otp_entry b) s = answer (otp_verify_POST E A b) s"
| "serve sha origin E A (Reset_request b) s = answer (reset_POST E A b) s"
| "serve sha origin E A Resend_request s = answer (resend_POST E A) s"
| "serve sha origin E A (Signup_visit ip q) s = (303, snd (signup_GET E A ip q s))"
| "serve sha origin E A (Instant_signup ip b) s = answer (instant_POST sha E A origin ip b) s"

type_synonym served = "(int \<times> auth_request \<times> int) list"

text \<open>
  A history of one process: requests one after another in clock order, each with its own
  environment (faults, session, ids) and its own answers of GoTrue and the mailer.
\<close>

inductive auth_history :: "(string \<Rightarrow> string) \<Rightarrow> string \<Rightarrow> db \<Rightarrow> served \<Rightarrow> int \<Rightarrow> db \<Rightarrow> bool"
  for sha origin s where
  start: "auth_history sha origin s [] now s"
| request: "auth_history sha origin s evs now t \<Longrightarrow> now \<le> now_ms E \<Longrightarrow> serve sha origin E A req t = (st, u)
    \<Longrightarrow> auth_history sha origin s (evs @ [(now_ms E, req, st)]) (now_ms E) u"

inductive_cases auth_historyE: "auth_history sha origin s evs now t"

definition mail_log :: "mail_row list \<Rightarrow> hit_log" where
  "mail_log ms = map (\<lambda>m. (address_key (ml_to m), ml_at m)) (filter ml_confirmed ms)"

definition passed :: "int \<Rightarrow> bool" where
  "passed st \<longleftrightarrow> st \<noteq> 400 \<and> st \<noteq> 429"

definition probes_by_ip :: "served \<Rightarrow> hit_log" where
  "probes_by_ip evs = List.map_filter (\<lambda>(t, req, st). case req of
     Password_signin ip b \<Rightarrow> if passed st then Some (ip, t) else None | _ \<Rightarrow> None) evs"

definition probes_by_address :: "served \<Rightarrow> hit_log" where
  "probes_by_address evs = List.map_filter (\<lambda>(t, req, st). case req of
     Password_signin ip b \<Rightarrow>
       (if passed st then map_option (\<lambda>e. (address_key e, t)) (email_field b) else None) | _ \<Rightarrow> None) evs"

definition instant_by_ip :: "served \<Rightarrow> hit_log" where
  "instant_by_ip evs = List.map_filter (\<lambda>(t, req, st). case req of
     Instant_signup ip b \<Rightarrow> if passed st then Some (ip, t) else None | _ \<Rightarrow> None) evs"

section \<open>What the steps touch\<close>

definition view :: "db \<Rightarrow> limits \<times> mail_row list" where
  "view s = (limiter s, mails s)"

lemma view_eq: "view s = view t \<longleftrightarrow> limiter s = limiter t \<and> mails s = mails t"
  by (simp add: view_def)

lemma view_remote [simp]: "view (remote_effect f s) = view s"
  by (simp add: view_def remote_effect_def)

lemma untouched_keeps: "(\<And>v. keeps (\<lambda>s. view s = v) m) \<Longrightarrow> keeps (\<lambda>s. Q (view s)) m"
  by (simp add: keeps_def)

lemma view_unlock_org: "view (unlock_org now oid s) = view s"
  by (simp add: unlock_org_def rotate_credentials_def mark_unlocked_def view_def split: option.split)

lemma view_unlock_many: "view (foldl (\<lambda>t oid. unlock_org now oid t) s ids) = view s"
  by (induction ids arbitrary: s) (simp_all add: view_unlock_org)

lemma untouched_unlock: "keeps (\<lambda>s. view s = v) (unlockSpendOnInboxProof E uid)"
  unfolding unlockSpendOnInboxProof_def unlockSpendForUser_def
  by (intro keeps_intros) (auto simp: unlock_founder_spend_def view_unlock_many)

lemma keeps_service [keeps_intros]: "keeps P (createServiceRoleSupabaseClient A)"
  by (simp add: createServiceRoleSupabaseClient_def keeps_intros)

lemma keeps_isSignupAllowed [keeps_intros]: "keeps P (isSignupAllowed E email tok)"
  unfolding isSignupAllowed_def invited_signup_def by (intro keeps_intros)

lemma keeps_signupAllowed [keeps_intros]: "keeps P (signupAllowed E A email tok)"
  unfolding signupAllowed_def by (intro keeps_intros)

lemma untouched_provision: "keeps (\<lambda>s. view s = v) (provisionInstantAccount sha E A email tok name)"
proof -
  have reg: "keeps (\<lambda>s. view s = v) (register A email tok)"
    by (auto simp: keeps_def register_def Let_def split: sum.split prod.split option.split)
  have key: "keeps (\<lambda>s. view s = v) (mint_first_key sha E A uid oid credits nm)" for uid oid credits nm
    unfolding mint_first_key_def Let_def recordAuditEvent_def
    by (intro keeps_intros) (auto simp: view_def insert_key_def split: if_splits)
  have cr: "keeps (\<lambda>s. view s = v) (granted_credits E oid)" for oid
    unfolding granted_credits_def by (intro keeps_intros)
  have del: "keeps (\<lambda>s. view s = v) (modify (remote_effect f))" for f by (rule keeps_modify) simp
  have one: "keeps (\<lambda>s. view s = v) (case m of Inr [oid] \<Rightarrow> f oid | _ \<Rightarrow> g)"
    if "\<And>oid. keeps (\<lambda>s. view s = v) (f oid)" "keeps (\<lambda>s. view s = v) g" for f g and m :: "dberror + string list"
    using that by (simp split: sum.split list.split)
  show ?thesis unfolding provisionInstantAccount_def by (intro keeps_intros reg key cr del one)
qed

section \<open>The mail cooldown over a history\<close>

definition mail_ok :: "int \<Rightarrow> limits \<times> mail_row list \<Rightarrow> bool" where
  "mail_ok now v \<longleftrightarrow> cooled now (fst v) (mail_log (snd v)) \<and> spaced EMAIL_COOLDOWN_MS (mail_log (snd v))"

definition mail_reserved :: "int \<Rightarrow> string \<Rightarrow> limits \<times> mail_row list \<Rightarrow> bool" where
  "mail_reserved now email v \<longleftrightarrow> (\<exists>l. mail_ok now (l, snd v) \<and> allowEmailSend now email l = (True, fst v))"

lemma mail_ok_later: "mail_ok now v \<Longrightarrow> now \<le> now' \<Longrightarrow> mail_ok now' v"
  unfolding mail_ok_def by (blast intro: cooled_later)

lemma mail_log_snoc [simp]: "mail_log (ms @ [m]) = mail_log ms @ (if ml_confirmed m then [(address_key (ml_to m), ml_at m)] else [])"
  by (simp add: mail_log_def)

lemma reserved_ok: "mail_reserved now email v \<Longrightarrow> mail_ok now v"
proof -
  assume "mail_reserved now email v"
  then obtain l where "mail_ok now (l, snd v)" "allowEmailSend now email l = (True, fst v)"
    by (auto simp: mail_reserved_def)
  with delivered_cooled [of now l "mail_log (snd v)" now email "fst v"] show ?thesis
    by (auto simp: mail_ok_def cooled_def)
qed

lemma reserved_mailed:
  "mail_reserved (now_ms E) email (view s) \<Longrightarrow> mail_ok (now_ms E) (view (snd (mailed E email kind s)))"
  by (auto simp: mail_reserved_def mail_ok_def mailed_def view_def intro: delivered_cooled delivered_spaced)

lemma slipped_view:
  "mail_ok now (view (snd (slipped E A email kind s))) \<longleftrightarrow> mail_ok now (view s)"
  "mail_reserved now a (view (snd (slipped E A email kind s))) \<longleftrightarrow> mail_reserved now a (view s)"
  by (auto simp: slipped_def view_def mail_ok_def mail_reserved_def)

lemma slipped_returns [simp]: "fst (slipped E A email kind s) = Inr ()"
  by (simp add: slipped_def)

lemma bind_slipped: "bind (slipped E A email kind) f s = f () (snd (slipped E A email kind s))"
  using slipped_returns [of E A email kind s] by (cases "slipped E A email kind s") (simp add: bind_apply)

lemma bind_mailed: "bind (mailed E email kind) f s = f () (snd (mailed E email kind s))"
  by (simp add: mailed_def act_simps)

lemma bind_request_otp:
  "bind (request_otp E A email create tok) f s = f (send_otp A email create tok)
     (snd (if send_otp A email create tok = Otp_sent then mailed E email ''otp'' s else slipped E A email ''otp'' s))"
  using slipped_returns [of E A email "''otp''" s]
  by (cases "send_otp A email create tok"; cases "slipped E A email ''otp'' s") (simp_all add: request_otp_def bind_apply mailed_def)

lemmas posting = bind_slipped bind_mailed bind_request_otp slipped_view reserved_mailed

lemma reserved_handBack:
  "mail_reserved now email (view s) \<Longrightarrow> mail_ok now (view (snd (handBack email s)))"
  by (auto simp: mail_reserved_def mail_ok_def handBack_def view_def intro: released_cooled)

text \<open>
  \<open>sends now email m\<close>: the action delivers at most one mail, to that address, and says so.
\<close>

definition sends :: "int \<Rightarrow> string \<Rightarrow> bool act \<Rightarrow> bool" where
  "sends now email m \<longleftrightarrow> (\<forall>s. mail_reserved now email (view s) \<longrightarrow>
     (if fst (m s) = Inr True then mail_ok now (view (snd (m s))) else mail_reserved now email (view (snd (m s)))))"

lemma sends_resend: "sends (now_ms E) email (sendResendEmail E A email kind)"
  unfolding sends_def sendResendEmail_def
  by (simp add: posting)

lemma sends_link: "sends (now_ms E) email (send_link E A kind email)"
  using sends_resend [of E email A kind] by (auto simp: send_link_def sends_def split: option.split)

lemma sends_code: "sends (now_ms E) email (sendEmailCode E A email create)"
  unfolding sends_def sendEmailCode_def by (simp add: posting)

lemma sends_service: "sends now email m \<Longrightarrow> sends now email (bind (createServiceRoleSupabaseClient A) (\<lambda>_. m))"
  by (auto simp: sends_def createServiceRoleSupabaseClient_def)

lemma limit_send:
  assumes "keeps (\<lambda>s. mail_ok now (view s)) (f False)"
    and "\<And>s. mail_reserved now email (view s) \<Longrightarrow> mail_ok now (view (snd (f True s)))"
  shows "keeps (\<lambda>s. mail_ok now (view s)) (bind (limit (allowEmailSend now email)) f)"
proof -
  have "mail_ok now (view (snd (bind (limit (allowEmailSend now email)) f s)))" if ok: "mail_ok now (view s)" for s
  proof -
    obtain b l where a: "allowEmailSend now email (limiter s) = (b, l)" by fastforce
    show ?thesis
    proof (cases b)
      case True
      have "mail_reserved now email (view (s\<lparr>limiter := l\<rparr>))"
        using ok a True by (auto simp: mail_reserved_def view_def)
      from assms(2) [OF this] show ?thesis by (simp add: act_simps limit_def a True)
    next
      case False
      then have "l = limiter s" using a allowEmailSend_False by simp
      then have "mail_ok now (view (s\<lparr>limiter := l\<rparr>))" using ok by (simp add: view_def)
      from keepsD [OF assms(1) this] show ?thesis by (simp add: act_simps limit_def a False)
    qed
  qed
  then show ?thesis by (simp add: keeps_def)
qed


lemma bind_assoc: "bind (bind m f) g = bind m (\<lambda>x. bind (f x) g)"
  by (rule ext) (simp add: bind_def split: prod.split sum.split)

lemma snd_swallow: "snd (swallow m s) = snd (m s)"
  by (simp add: swallow_def act_simps split: prod.split sum.split)

lemma reserved_swallow:
  "sends now email m \<Longrightarrow> mail_reserved now email (view s) \<Longrightarrow> mail_ok now (view (snd (swallow m s)))"
  by (auto simp: snd_swallow sends_def split: if_splits intro: reserved_ok)

lemma otp_POST_alt:
  "otp_POST E A request =
     (case parseOtpPayload request of
        Inl msg \<Rightarrow> ret (code_resp ''invalid_request'' msg 400)
      | Inr (email, tok) \<Rightarrow>
          bind (signupAllowed E A email tok) (\<lambda>allowSignup.
          bind (limit (allowEmailSend (now_ms E) email)) (\<lambda>ok.
          if ok then otp_dispatch E A email tok allowSignup else ret code_sent_recently)))"
proof -
  have "(case (if ok then Inr a else Inl r) of Inl r \<Rightarrow> ret r | Inr a \<Rightarrow> f a) = (if ok then f a else ret r)"
    for ok a r and f :: "bool \<Rightarrow> resp act" by simp
  then show ?thesis by (simp add: otp_POST_def otp_reserve_def bind_assoc cong: sum.case_cong)
qed

lemma reserved_dispatch:
  assumes "mail_reserved (now_ms E) email (view s)"
  shows "mail_ok (now_ms E) (view (snd (otp_dispatch E A email tok b s)))"
proof -
  have handed: "mail_ok (now_ms E) (view (snd (bind (handBack email) (\<lambda>_. ret r) t)))" if "mail_reserved (now_ms E) email (view t)" for t and r :: resp
    using reserved_handBack [OF that] by (simp add: handBack_def act_simps)
  show ?thesis
    using assms by (cases "send_otp A email b tok") (simp_all add: otp_dispatch_def posting handed)
qed

lemma mail_otp: "keeps (\<lambda>s. mail_ok (now_ms E) (view s)) (otp_POST E A request)"
proof -
  have "keeps (\<lambda>s. mail_ok (now_ms E) (view s)) (bind (signupAllowed E A email tok) (\<lambda>allowSignup.
      bind (limit (allowEmailSend (now_ms E) email)) (\<lambda>ok.
      if ok then otp_dispatch E A email tok allowSignup else ret code_sent_recently)))" for email tok
    by (rule keeps_bind [OF keeps_signupAllowed limit_send]) (simp_all add: keeps_ret reserved_dispatch)
  then show ?thesis by (simp add: otp_POST_alt keeps_ret split: sum.split prod.split)
qed

text \<open>The routes that answer the same whatever the mailer did.\<close>

lemma mail_quietly:
  assumes "sends now email m"
  shows "keeps (\<lambda>s. mail_ok now (view s))
    (bind (limit (allowEmailSend now email)) (\<lambda>ok. bind (if ok then swallow m else ret ()) (\<lambda>_. ret r)))"
proof (rule limit_send)
  fix s assume "mail_reserved now email (view s)"
  then show "mail_ok now (view (snd (bind (if True then swallow m else ret ()) (\<lambda>_. ret r) s)))"
    using reserved_swallow [OF assms] by (simp add: act_simps split: prod.split sum.split) (metis snd_conv)
qed (simp add: keeps_def)

lemma mail_reset: "keeps (\<lambda>s. mail_ok (now_ms E) (view s)) (reset_POST E A request)"
  unfolding reset_POST_def sendPasswordResetEmail_def
  by (simp add: keeps_ret mail_quietly sends_service sends_link split: sum.split)

lemma mail_resend: "keeps (\<lambda>s. mail_ok (now_ms E) (view s)) (resend_POST E A)"
  unfolding resend_POST_def sendVerificationEmail_def
  by (simp add: keeps_ret mail_quietly sends_service sends_link split: option.split)

lemma mail_bounce:
  assumes "sends now email send" and "mail_reserved now email (view s)"
  shows "mail_ok now (view (snd (send_and_bounce email send extra s)))"
proof -
  obtain r t where m: "send s = (r, t)" by fastforce
  have v: "if r = Inr True then mail_ok now (view t) else mail_reserved now email (view t)"
    using assms m unfolding sends_def by (metis fst_conv snd_conv)
  show ?thesis
  proof (cases r)
    case (Inl e)
    with v show ?thesis by (simp add: send_and_bounce_def act_simps m reserved_ok)
  next
    case (Inr sent)
    show ?thesis
    proof (cases sent)
      case True
      with Inr v show ?thesis by (simp add: send_and_bounce_def act_simps m)
    next
      case False
      with Inr v have "mail_reserved now email (view t)" by simp
      from reserved_handBack [OF this] show ?thesis
        using Inr False by (simp add: send_and_bounce_def act_simps m handBack_def)
    qed
  qed
qed

lemma keeps_start:
  "(\<And>s l. P s \<Longrightarrow> (\<exists>ok. allowSignupStart now ip (limiter s) = (ok, l)) \<Longrightarrow> P (s\<lparr>limiter := l\<rparr>)) \<Longrightarrow> keeps P (limit (allowSignupStart now ip))"
  by (auto simp: keeps_def limit_def split: prod.split)

lemma start_mail: "allowSignupStart now ip l = (ok, l') \<Longrightarrow> last_email_at l' = last_email_at l"
  by (auto simp: allowSignupStart_def split: prod.splits)

lemma mail_start: "keeps (\<lambda>s. mail_ok now' (view s)) (limit (allowSignupStart now ip))"
  by (rule keeps_start) (auto simp: mail_ok_def view_def dest!: start_mail intro: cooled_other)

lemma mail_signup: "keeps (\<lambda>s. mail_ok (now_ms E) (view s)) (signup_GET E A ip q)"
proof -
  have quiet: "keeps (\<lambda>s. mail_ok (now_ms E) (view s)) (bind (limit (allowEmailSend (now_ms E) email)) (\<lambda>ok.
      if \<not> ok then ret r else send_and_bounce email (sendEmailCode E A email create) extra))" for email r create extra
    by (rule limit_send) (simp_all add: keeps_ret mail_bounce [OF sends_code])
  show ?thesis unfolding signup_GET_def sendSigninCode_def sendSignupCode_def
    by (auto split: option.split intro!: keeps_ret keeps_bind [OF mail_start] keeps_bind [OF keeps_signupAllowed] quiet)
qed

lemma mail_instant: "keeps (\<lambda>s. mail_ok (now_ms E) (view s)) (instant_POST sha E A origin ip request)"
proof -
  have send: "keeps (\<lambda>s. mail_ok (now_ms E) (view s)) (bind (limit (allowEmailSend (now_ms E) email)) (\<lambda>ok.
      bind (if ok then sendVerificationEmail E A email else ret False) (\<lambda>sent. ret (f sent))))" for email and f :: "bool \<Rightarrow> resp"
  proof (rule limit_send)
    fix s assume r: "mail_reserved (now_ms E) email (view s)"
    have "mail_ok (now_ms E) (view (snd (sendVerificationEmail E A email s)))"
      using sends_link [of E email A "''magiclink''"] r
      by (auto simp: sends_def sendVerificationEmail_def split: if_splits intro: reserved_ok)
    then show "mail_ok (now_ms E) (view (snd (bind (if True then sendVerificationEmail E A email else ret False) (\<lambda>sent. ret (f sent)) s)))"
      by (simp add: act_simps split: prod.split sum.split) (metis snd_conv)
  qed (simp add: keeps_def)
  have res: "keeps P (case r of Account_exists \<Rightarrow> a | Signup_failed msg \<Rightarrow> b msg | Created uid oid secret credits password \<Rightarrow> c uid oid secret credits password)"
    if "keeps P a" "\<And>msg. keeps P (b msg)" "\<And>uid oid secret credits password. keeps P (c uid oid secret credits password)"
    for P r and a :: "resp act" and b c using that by (simp split: instant_result.split)
  show ?thesis unfolding instant_POST_def
    by (intro keeps_handler) (auto split: sum.split intro!: keeps_ret keeps_catching keeps_bind [OF mail_start] keeps_bind [OF keeps_service]
        keeps_bind [OF keeps_catching [OF keeps_isSignupAllowed]] keeps_bind [OF untouched_keeps [OF untouched_provision]] res send)
qed

lemma mail_signin: "keeps (\<lambda>s. mail_ok now (view s)) (signin_POST E A ip request)"
proof -
  have "keeps (\<lambda>s. mail_ok now (view s)) (limit (allowSigninAttempt t ip email))" for t email
    by (auto simp: keeps_def limit_def mail_ok_def view_def allowSigninAttempt_def count_source_def count_address_def
        intro: cooled_other split: prod.split)
  then show ?thesis unfolding signin_POST_def
    by (auto split: sum.split option.split intro!: keeps_ret keeps_bind)
qed

lemma mail_entry: "keeps (\<lambda>s. mail_ok now (view s)) (otp_verify_POST E A request)"
  unfolding otp_verify_POST_def
  by (intro keeps_intros untouched_keeps [OF untouched_unlock])


lemma answer_state: "snd (answer m s) = snd (m s)"
  by (simp add: answer_def)

lemma serve_mail: "mail_ok (now_ms E) (view t) \<Longrightarrow> serve sha origin E A req t = (st, u) \<Longrightarrow> mail_ok (now_ms E) (view u)"
  by (cases req)
    (auto simp: answer_def intro: keepsD [OF mail_signin] keepsD [OF mail_otp] keepsD [OF mail_entry]
      keepsD [OF mail_reset] keepsD [OF mail_resend] keepsD [OF mail_signup] keepsD [OF mail_instant])

lemma history_mail:
  "auth_history sha origin s evs now t \<Longrightarrow> limiter s = no_limits \<Longrightarrow> mails s = [] \<Longrightarrow> mail_ok now (view t)"
proof (induction rule: auth_history.induct)
  case (start now)
  then show ?case by (simp add: mail_ok_def view_def mail_log_def cooled_def)
next
  case (request evs now t E req A st u)
  then show ?case by (blast intro: serve_mail mail_ok_later)
qed

section \<open>The counters over a history\<close>

definition covered :: "nat \<Rightarrow> int \<Rightarrow> int \<Rightarrow> hit_table \<Rightarrow> hit_log \<Rightarrow> bool" where
  "covered budget window now m seen \<longleftrightarrow>
     (\<exists>past. tracks window now m past \<and> bounded budget window past \<and> subseq seen past)"

lemma covered_later: "covered budget window now m seen \<Longrightarrow> now \<le> now' \<Longrightarrow> covered budget window now' m seen"
  unfolding covered_def by (blast intro: tracks_later)

lemma covered_bound: "covered budget window now m seen \<Longrightarrow> length (within_window window t key seen) \<le> budget"
proof -
  assume "covered budget window now m seen"
  then obtain past where b: "bounded budget window past" and s: "subseq seen past" by (auto simp: covered_def)
  have "subseq (within_window window t key seen) (within_window window t key past)"
    unfolding within_window_def hit_times_def by (intro subseq_filter subseq_map s)
  then have "length (within_window window t key seen) \<le> length (within_window window t key past)"
    by (rule list_emb_length)
  with b show ?thesis by (meson bounded_def order_trans)
qed

lemma covered_start: "covered budget window now [] []"
  unfolding covered_def by (intro exI [of _ "[]"]) simp

context sliding_window
begin

lemma covered_hit:
  assumes "covered budget window now (table s) seen" and "now \<le> now'" and "hit now' key s = (ok, s')" and "a \<longrightarrow> ok"
  shows "covered budget window now' (table s') (if a then seen @ [(key, now')] else seen)"
proof -
  obtain past where p: "tracks window now (table s) past" "bounded budget window past" "subseq seen past"
    using assms(1) by (auto simp: covered_def)
  have "subseq (if a then seen @ [(key, now')] else seen) (if ok then past @ [(key, now')] else past)"
    using p(3) assms(4) by (auto intro: list_emb_append2 subseq_order.order_trans [OF p(3)])
  with hit_tracks [OF p(1) assms(2,3)] hit_bounded [OF p(1) assms(2,3) p(2)] show ?thesis
    unfolding covered_def by blast
qed

end

definition counters :: "limits \<Rightarrow> hit_table \<times> hit_table \<times> hit_table" where
  "counters l = (starts_by_ip l, signins_by_ip l, signins_by_email l)"

abbreviation counts :: "db \<Rightarrow> hit_table \<times> hit_table \<times> hit_table" where
  "counts s \<equiv> counters (limiter s)"

lemma untouched_counts: "(\<And>v. keeps (\<lambda>s. view s = v) m) \<Longrightarrow> keeps (\<lambda>s. Q (counts s)) m"
  using untouched_keeps [of m "\<lambda>v. Q (counters (fst v))"] by (simp add: view_def)

lemma counts_email: "keeps (\<lambda>s. Q (counts s)) (limit (allowEmailSend now email))"
  by (auto simp: keeps_def limit_def counters_def split: prod.split dest!: allowEmailSend_frame)

lemma counts_handBack: "keeps (\<lambda>s. Q (counts s)) (handBack email)"
  unfolding handBack_def by (rule keeps_modify) (simp add: counters_def releaseEmailSend_def)

lemma counts_slipped: "keeps (\<lambda>s. Q (counts s)) (slipped E A to kind)"
  unfolding slipped_def by (cases "slips A to kind") (simp_all add: keeps_def)

lemma counts_mailed: "keeps (\<lambda>s. Q (counts s)) (mailed E to kind)"
  unfolding mailed_def by (rule keeps_modify) simp

lemma counts_link: "keeps (\<lambda>s. Q (counts s)) (send_link E A kind email)"
  unfolding send_link_def sendResendEmail_def by (intro keeps_intros counts_mailed counts_slipped)

lemma keeps_otp_answer:
  "keeps P a \<Longrightarrow> keeps P b \<Longrightarrow> (\<And>err. keeps P (c err)) \<Longrightarrow> keeps P (case r of Otp_sent \<Rightarrow> a | Otp_threw \<Rightarrow> b | Otp_error err \<Rightarrow> c err)"
  by (simp split: otp_answer.split)

lemma counts_otp: "keeps (\<lambda>s. Q (counts s)) (request_otp E A email create tok)"
  unfolding request_otp_def by (intro keeps_otp_answer keeps_intros counts_mailed counts_slipped)

lemma counts_bounce: "keeps (\<lambda>s. Q (counts s)) (send_and_bounce email (sendEmailCode E A email' create) extra)"
  unfolding send_and_bounce_def sendEmailCode_def by (intro keeps_intros counts_otp counts_handBack)

text \<open>The routes without a counter of their own.\<close>

lemma counts_otp_POST: "keeps (\<lambda>s. Q (counts s)) (otp_POST E A request)"
  unfolding otp_POST_def otp_reserve_def otp_dispatch_def
  by (intro keeps_intros keeps_otp_answer counts_otp counts_handBack counts_email)

lemma counts_entry: "keeps (\<lambda>s. Q (counts s)) (otp_verify_POST E A request)"
  unfolding otp_verify_POST_def by (intro keeps_intros untouched_counts [OF untouched_unlock])

lemma counts_reset: "keeps (\<lambda>s. Q (counts s)) (reset_POST E A request)"
  unfolding reset_POST_def sendPasswordResetEmail_def swallow_def
  by (intro keeps_intros counts_link counts_email)

lemma counts_resend: "keeps (\<lambda>s. Q (counts s)) (resend_POST E A)"
  unfolding resend_POST_def sendVerificationEmail_def swallow_def
  by (intro keeps_intros counts_link counts_email)

text \<open>Sign-up visits use the sign-up counter only.\<close>

lemma start_frame:
  "allowSignupStart now ip l = (ok, l') \<Longrightarrow> signins_by_ip l' = signins_by_ip l \<and> signins_by_email l' = signins_by_email l"
  by (auto simp: allowSignupStart_def split: prod.splits)

lemma signup_counts:
  "let l = snd (allowSignupStart (now_ms E) ip (limiter s)) in
   counts (snd (signup_GET E A ip q s)) = counts s \<or> counts (snd (signup_GET E A ip q s)) = counters l"
proof (cases "safePrefillEmail q")
  case None
  then show ?thesis by (simp add: signup_GET_def Let_def)
next
  case (Some email)
  obtain ok l where a: "allowSignupStart (now_ms E) ip (limiter s) = (ok, l)" by fastforce
  let ?rest = "\<lambda>started. if \<not> started then ret (bounceToSignin email [(''error'', ''rate_limited'')])
          else if emailHasAccount A email \<noteq> Some False then
            bind (limit (allowEmailSend (now_ms E) email)) (\<lambda>ok.
            if \<not> ok then ret (bounceToSignin email [(''error'', ''rate_limited'')])
            else send_and_bounce email (sendSigninCode E A email) [])
          else
            bind (signupAllowed E A email None) (\<lambda>allowed.
            if \<not> allowed then ret (bounceToSignin email [(''error'', ''signup_disabled'')])
            else bind (limit (allowEmailSend (now_ms E) email)) (\<lambda>ok.
                 if \<not> ok then ret (bounceToSignin email [(''error'', ''rate_limited''), (''signup'', ''1'')])
                 else send_and_bounce email (sendSignupCode E A email) [(''signup'', ''1'')]))"
  have "keeps (\<lambda>t. counts t = counters l) (?rest ok)"
    unfolding sendSigninCode_def sendSignupCode_def by (intro keeps_intros counts_email counts_bounce)
  from keepsD [OF this, of "s\<lparr>limiter := l\<rparr>"]
  have "counts (snd (?rest ok (s\<lparr>limiter := l\<rparr>))) = counters l" by simp
  moreover have "signup_GET E A ip q s = ?rest ok (s\<lparr>limiter := l\<rparr>)"
    by (simp add: signup_GET_def Some bind_apply limit_def a)
  ultimately show ?thesis by (simp add: a Let_def)
qed


lemma instant_malformed:
  assumes "parseEmail request = Inl msg"
  shows "answer (instant_POST sha E A origin ip request) s = (400, s)"
  by (simp add: answer_def instant_POST_def assms response_def handler_def code_resp_def)

lemma instant_counts:
  assumes "parseEmail request = Inr email" and "allowSignupStart (now_ms E) ip (limiter s) = (ok, l)"
    and "answer (instant_POST sha E A origin ip request) s = (st, u)"
  shows "counts u = counters l \<and> (\<not> ok \<longrightarrow> st = 429)"
proof -
  let ?rest = "\<lambda>started. if \<not> started then ret (code_resp ''rate_limited'' ''Too many signups from this address; try again shortly.'' 429)
         else
           bind (createServiceRoleSupabaseClient A) (\<lambda>_.
           bind (catching (isSignupAllowed E email None) (\<lambda>_. ret False)) (\<lambda>allowed.
           if \<not> allowed then ret (code_resp ''signup_disabled'' SIGNUP_DISABLED_MESSAGE 403)
           else
             bind (provisionInstantAccount sha E A email None (Some ''Coding agent (instant signup)'')) (\<lambda>result.
             case result of
               Account_exists \<Rightarrow>
                 ret (code_resp ''account_exists'' ''An account already exists for this email. Sign in to get an API key.'' 409)
             | Signup_failed msg \<Rightarrow> ret (code_resp ''signup_failed'' msg 500)
             | Created uid oid secret credits password \<Rightarrow>
                 bind (limit (allowEmailSend (now_ms E) email)) (\<lambda>ok.
                 bind (if ok then sendVerificationEmail E A email else ret False) (\<lambda>sent.
                 ret (jsonOk (created_json origin secret oid credits sent)))))))"
  have res: "keeps P (case r of Account_exists \<Rightarrow> a | Signup_failed msg \<Rightarrow> b msg | Created uid oid secret credits password \<Rightarrow> c uid oid secret credits password)"
    if "keeps P a" "\<And>msg. keeps P (b msg)" "\<And>uid oid secret credits password. keeps P (c uid oid secret credits password)"
    for P r and a :: "resp act" and b c using that by (simp split: instant_result.split)
  have "keeps (\<lambda>t. counts t = counters l) (?rest ok)"
    unfolding sendVerificationEmail_def
    by (intro keeps_intros counts_email counts_link res untouched_counts [OF untouched_provision])
  from keepsD [OF this, of "s\<lparr>limiter := l\<rparr>"]
  have "counts (snd (?rest ok (s\<lparr>limiter := l\<rparr>))) = counters l" by simp
  moreover have m: "instant_POST sha E A origin ip request = handler (bind (limit (allowSignupStart (now_ms E) ip)) ?rest)"
    by (simp only: instant_POST_def assms(1) sum.case)
  have "bind (limit (allowSignupStart (now_ms E) ip)) ?rest s = ?rest ok (s\<lparr>limiter := l\<rparr>)"
    by (simp add: bind_apply limit_def assms(2))
  moreover from this have "\<not> ok \<Longrightarrow> response (bind (limit (allowSignupStart (now_ms E) ip)) ?rest) s
      = code_resp ''rate_limited'' ''Too many signups from this address; try again shortly.'' 429"
    by (simp add: response_def)
  ultimately show ?thesis
    using assms(3) by (auto simp: m answer_def snd_handler response_handler code_resp_def)
qed

lemma signin_malformed:
  "parseSigninPayload request = Inl msg \<Longrightarrow> answer (signin_POST E A ip request) s = (400, s)"
  by (simp add: answer_def signin_POST_def response_def code_resp_def)

lemma signin_counts:
  assumes "parseSigninPayload request = Inr (email, password)"
    and "allowSigninAttempt (now_ms E) ip email (limiter s) = (ok, l)"
    and "answer (signin_POST E A ip request) s = (st, u)"
  shows "limiter u = l \<and> (\<not> ok \<longrightarrow> st = 429)"
  using assms by (auto simp: answer_def signin_POST_def response_def code_resp_def act_simps limit_def split: option.splits)

lemma signin_address: "parseSigninPayload request = Inr (email, password) \<Longrightarrow> email_field request = Some email"
  by (auto simp: parseSigninPayload_def split: if_splits option.splits)

lemma map_filter_snoc: "List.map_filter f (xs @ [x]) = List.map_filter f xs @ (case f x of None \<Rightarrow> [] | Some y \<Rightarrow> [y])"
  by (simp add: List.map_filter_def split: option.split)

definition counts_ok :: "int \<Rightarrow> limits \<Rightarrow> served \<Rightarrow> bool" where
  "counts_ok now l evs \<longleftrightarrow>
     covered START_PER_IP_MAX START_PER_IP_WINDOW_MS now (starts_by_ip l) (instant_by_ip evs)
     \<and> covered SIGNIN_PER_IP_MAX SIGNIN_PER_IP_WINDOW_MS now (signins_by_ip l) (probes_by_ip evs)
     \<and> covered SIGNIN_PER_EMAIL_MAX SIGNIN_PER_EMAIL_WINDOW_MS now (signins_by_email l) (probes_by_address evs)"

lemma counts_ok_later: "counts_ok now l evs \<Longrightarrow> now \<le> now' \<Longrightarrow> counts_ok now' l evs"
  unfolding counts_ok_def by (blast intro: covered_later)

lemma counts_ok_cong: "counters l' = counters l \<Longrightarrow> counts_ok now l' evs = counts_ok now l evs"
  by (simp add: counts_ok_def counters_def)

lemmas log_defs = probes_by_ip_def probes_by_address_def instant_by_ip_def

lemma other_counts:
  assumes "counts_ok now l evs" and "now \<le> now'" and "counters l' = counters l"
    and "probes_by_ip (evs @ [ev]) = probes_by_ip evs" and "probes_by_address (evs @ [ev]) = probes_by_address evs"
    and "instant_by_ip (evs @ [ev]) = instant_by_ip evs"
  shows "counts_ok now' l' (evs @ [ev])"
  using counts_ok_later [OF assms(1,2)] assms(3-) by (simp add: counts_ok_def counters_def)

lemma start_counts:
  assumes "counts_ok now l evs" and "now \<le> now'" and "allowSignupStart now' ip l = (ok, l1)" and "a \<longrightarrow> ok"
    and "counters l' = counters l1" and "probes_by_ip (evs @ [ev]) = probes_by_ip evs"
    and "probes_by_address (evs @ [ev]) = probes_by_address evs"
    and "instant_by_ip (evs @ [ev]) = (if a then instant_by_ip evs @ [(ip, now')] else instant_by_ip evs)"
  shows "counts_ok now' l' (evs @ [ev])"
  using counts_ok_later [OF assms(1,2)] starts.covered_hit [OF _ assms(2,3,4), of "instant_by_ip evs"]
    assms(1,5-) start_frame [OF assms(3)] by (simp add: counts_ok_def counters_def)

lemma signin_counts_ok:
  assumes "counts_ok now l evs" and "now \<le> now'" and "allowSigninAttempt now' ip email l = (ok, l')" and "a \<longrightarrow> ok"
    and "probes_by_ip (evs @ [ev]) = (if a then probes_by_ip evs @ [(ip, now')] else probes_by_ip evs)"
    and "probes_by_address (evs @ [ev]) = (if a then probes_by_address evs @ [(address_key email, now')] else probes_by_address evs)"
    and "instant_by_ip (evs @ [ev]) = instant_by_ip evs"
  shows "counts_ok now' l' (evs @ [ev])"
proof -
  obtain b l1 where s: "count_source now' ip l = (b, l1)" by fastforce
  obtain c where e: "count_address now' (address_key email) l1 = (c, l')" and ok: "ok \<longleftrightarrow> b \<and> c"
    using assms(3) by (auto simp: allowSigninAttempt_def s Let_def split: prod.splits)
  have f1: "starts_by_ip l1 = starts_by_ip l" "signins_by_email l1 = signins_by_email l"
    using s by (auto simp: count_source_def split: prod.splits)
  have f2: "starts_by_ip l' = starts_by_ip l1" "signins_by_ip l' = signins_by_ip l1"
    using e by (auto simp: count_address_def split: prod.splits)
  show ?thesis
    using counts_ok_later [OF assms(1,2)] sources.covered_hit [OF _ assms(2) s, of "probes_by_ip evs" a]
      addresses.covered_hit [OF _ assms(2) e, of "probes_by_address evs" a] assms(1,4-) ok f1 f2
    by (simp add: counts_ok_def)
qed


lemma serve_counts:
  assumes "counts_ok now (limiter t) evs" and "now \<le> now_ms E" and "serve sha origin E A req t = (st, u)"
  shows "counts_ok (now_ms E) (limiter u) (evs @ [(now_ms E, req, st)])"
proof (cases req)
  case (Password_signin ip b)
  show ?thesis
  proof (cases "parseSigninPayload b")
    case (Inl msg)
    with assms(3) signin_malformed [OF Inl] have "st = 400" "u = t" by (simp_all add: Password_signin)
    then show ?thesis
      by (intro other_counts [OF assms(1,2)]) (simp_all add: log_defs map_filter_snoc Password_signin passed_def)
  next
    case (Inr p)
    obtain email password where p: "p = (email, password)" by fastforce
    obtain ok l where a: "allowSigninAttempt (now_ms E) ip email (limiter t) = (ok, l)" by fastforce
    have eff: "limiter u = l" "\<not> ok \<longrightarrow> st = 429"
      using signin_counts [OF Inr [unfolded p] a] assms(3) by (simp_all add: Password_signin)
    have e: "email_field b = Some email" using Inr p signin_address by simp
    show ?thesis unfolding eff(1)
      by (rule signin_counts_ok [OF assms(1,2) a, of "passed st"])
        (use eff(2) in \<open>auto simp: log_defs map_filter_snoc Password_signin passed_def e\<close>)
  qed
next
  case (Otp_request b)
  with assms(3) have "counts u = counts t"
    using keepsD [OF counts_otp_POST [of "\<lambda>c. c = counts t"], of t] by (auto simp: answer_def)
  then show ?thesis by (intro other_counts [OF assms(1,2)]) (simp_all add: log_defs map_filter_snoc Otp_request)
next
  case (Otp_entry b)
  with assms(3) have "counts u = counts t"
    using keepsD [OF counts_entry [of "\<lambda>c. c = counts t"], of t] by (auto simp: answer_def)
  then show ?thesis by (intro other_counts [OF assms(1,2)]) (simp_all add: log_defs map_filter_snoc Otp_entry)
next
  case (Reset_request b)
  with assms(3) have "counts u = counts t"
    using keepsD [OF counts_reset [of "\<lambda>c. c = counts t"], of t] by (auto simp: answer_def)
  then show ?thesis by (intro other_counts [OF assms(1,2)]) (simp_all add: log_defs map_filter_snoc Reset_request)
next
  case Resend_request
  with assms(3) have "counts u = counts t"
    using keepsD [OF counts_resend [of "\<lambda>c. c = counts t"], of t] by (auto simp: answer_def)
  then show ?thesis by (intro other_counts [OF assms(1,2)]) (simp_all add: log_defs map_filter_snoc Resend_request)
next
  case (Signup_visit ip q)
  obtain ok l where a: "allowSignupStart (now_ms E) ip (limiter t) = (ok, l)" by fastforce
  from assms(3) signup_counts [of E ip t A q] have "counts u = counts t \<or> counts u = counters l"
    by (auto simp: Signup_visit a Let_def)
  then show ?thesis
  proof
    assume "counts u = counts t"
    then show ?thesis by (intro other_counts [OF assms(1,2)]) (simp_all add: log_defs map_filter_snoc Signup_visit)
  next
    assume "counts u = counters l"
    then show ?thesis
      by (intro start_counts [OF assms(1,2) a, of False]) (simp_all add: log_defs map_filter_snoc Signup_visit)
  qed
next
  case (Instant_signup ip b)
  show ?thesis
  proof (cases "parseEmail b")
    case (Inl msg)
    with assms(3) instant_malformed [OF Inl] have "st = 400" "u = t" by (simp_all add: Instant_signup)
    then show ?thesis
      by (intro other_counts [OF assms(1,2)]) (simp_all add: log_defs map_filter_snoc Instant_signup passed_def)
  next
    case (Inr email)
    obtain ok l where a: "allowSignupStart (now_ms E) ip (limiter t) = (ok, l)" by fastforce
    have eff: "counts u = counters l" "\<not> ok \<longrightarrow> st = 429"
      using instant_counts [OF Inr a] assms(3) by (simp_all add: Instant_signup)
    show ?thesis
      by (rule start_counts [OF assms(1,2) a, of "passed st"])
        (use eff in \<open>auto simp: log_defs map_filter_snoc Instant_signup passed_def\<close>)
  qed
qed

lemma history_counts:
  "auth_history sha origin s evs now t \<Longrightarrow> limiter s = no_limits \<Longrightarrow> counts_ok now (limiter t) evs"
proof (induction rule: auth_history.induct)
  case (start now)
  then show ?case by (simp add: counts_ok_def no_limits_def log_defs covered_start List.map_filter_def)
next
  case (request evs now t E req A st u)
  then show ?case by (blast intro: serve_counts)
qed

lemma spaced_mails:
  "spaced gap (map (\<lambda>m. (address_key (ml_to m), ml_at m)) ms) \<Longrightarrow>
   sorted_wrt (\<lambda>m n. address_key (ml_to m) = address_key (ml_to n) \<longrightarrow> ml_at m + gap \<le> ml_at n) ms"
proof (induction ms)
  case (Cons m ms)
  let ?log = "\<lambda>ms. map (\<lambda>m. (address_key (ml_to m), ml_at m)) ms"
  have cons: "hit_times k (?log (m # ms)) = (if k = address_key (ml_to m) then [ml_at m] else []) @ hit_times k (?log ms)" for k
    by (simp add: hit_times_def)
  have tail: "spaced gap (?log ms)"
    using Cons.prems unfolding spaced_def cons by (auto simp: sorted_wrt_append split: if_splits)
  have "ml_at m + gap \<le> ml_at n" if "n \<in> set ms" "address_key (ml_to m) = address_key (ml_to n)" for n
  proof -
    have "sorted_wrt (\<lambda>a b. a + gap \<le> b) (hit_times (address_key (ml_to m)) (?log (m # ms)))"
      using Cons.prems unfolding spaced_def by blast
    then have "sorted_wrt (\<lambda>a b. a + gap \<le> b) (ml_at m # hit_times (address_key (ml_to m)) (?log ms))"
      by (simp only: cons refl if_True append_Cons append_Nil)
    moreover have "ml_at n \<in> set (hit_times (address_key (ml_to m)) (?log ms))"
      using that by (force simp: hit_times_def)
    ultimately show ?thesis by simp
  qed
  with tail Cons.IH show ?case by simp
qed simp

section \<open>Properties\<close>

text \<open>
  C15. The account-existence answers stay bounded: over any history of one process that starts with
  empty counters, in clock order and whatever GoTrue and the database answer, no window of ten
  minutes holds more than ten password attempts that were let through for one source address, nor
  for one account address, nor more than five instant sign-ups for one source address.
\<close>

theorem attempts_stay_within_budget:
  assumes "auth_history sha origin s evs now t" and "limiter s = no_limits"
  shows "length (within_window 600000 at_time ip (probes_by_ip evs)) \<le> 10
    \<and> length (within_window 600000 at_time key (probes_by_address evs)) \<le> 10
    \<and> length (within_window 600000 at_time ip (instant_by_ip evs)) \<le> 5"
  using history_counts [OF assms] by (auto simp: counts_ok_def limit_constants dest: covered_bound)

text \<open>Of the confirmed mails to one address at most one falls into any minute.\<close>

definition within_a_minute :: "string \<Rightarrow> int \<Rightarrow> mail_row \<Rightarrow> bool" where
  "within_a_minute key x m \<longleftrightarrow> address_key (ml_to m) = key \<and> x - 60000 < ml_at m \<and> ml_at m \<le> x"

lemma one_per_minute:
  "sorted_wrt (\<lambda>m n. address_key (ml_to m) = address_key (ml_to n) \<longrightarrow> ml_at m + 60000 \<le> ml_at n) ms
    \<Longrightarrow> length (filter (within_a_minute key x) ms) \<le> 1"
proof (induction ms)
  case (Cons m ms)
  show ?case
  proof (cases "within_a_minute key x m")
    case True
    have "\<not> within_a_minute key x n" if "n \<in> set ms" for n
    proof
      assume "within_a_minute key x n"
      then have "address_key (ml_to m) = address_key (ml_to n)" "ml_at n < ml_at m + 60000"
        using True by (auto simp: within_a_minute_def)
      then show False using Cons.prems that by auto
    qed
    then have "filter (within_a_minute key x) ms = []" by (simp add: filter_empty_conv)
    then show ?thesis by simp
  qed (use Cons in simp)
qed simp

lemma length_split_confirmed:
  "length (filter P ms) = length (filter P (filter ml_confirmed ms)) + length (filter (\<lambda>m. P m \<and> \<not> ml_confirmed m) ms)"
  by (induction ms) auto


text \<open>An honest GoTrue for a list of known accounts; the mailer takes everything.\<close>

definition sample_auth :: "string list \<Rightarrow> auth_service" where
  "sample_auth known =
     \<lparr>service_key = True,
      sign_in_password = (\<lambda>email pw. if List.member known email \<and> pw = ''right'' then Some ''u1'' else None),
      send_otp = (\<lambda>email create tok. if List.member known email \<or> create then Otp_sent
        else Otp_error \<lparr>ae_code = Some ''otp_disabled'', ae_status = Some 422, ae_message = None\<rparr>),
      verify_otp = (\<lambda>email token. if token = ''123456'' then Some (''u1'', js_int 0) else None),
      generate_link = (\<lambda>kind email. if List.member known email then Some ''t0ken'' else None),
      send_mail = (\<lambda>_ _. True), slips = (\<lambda>_ _. False),
      methods_lookup = (\<lambda>email. Some (JArr (if List.member known email then [JStr ''email''] else []))),
      create_user = (\<lambda>email pw tok s.
        if List.member known email then Inl \<lparr>ae_code = Some ''email_exists'', ae_status = Some 422, ae_message = None\<rparr>
        else Inr (Some ''u9'', s\<lparr>members := members s @ [\<lparr>m_org = ''o9'', m_user = ''u9'', m_role = ''admin'', m_created_at = 7\<rparr>]\<rparr>)),
      delete_user = (\<lambda>uid s. s\<lparr>members := filter (\<lambda>m. m_user m \<noteq> uid) (members s)\<rparr>),
      uuid_a = ''00000000-0000-4000-8000-000000000000'', uuid_b = ''11111111-1111-4111-8111-111111111111''\<rparr>"

definition attempt_body :: json where
  "attempt_body = JObj [(''email'', JStr ''Ada@acme.test''), (''password'', JStr ''guess'')]"

definition code_body :: json where
  "code_body = JObj [(''email'', JStr ''Ada@acme.test'')]"

definition clock :: "int \<Rightarrow> env" where
  "clock t = sample_env\<lparr>now_ms := t\<rparr>"

lemma clock_now [simp]: "now_ms (clock t) = t"
  by (simp add: clock_def)

fun attack :: "nat \<Rightarrow> served \<times> db" where
  "attack 0 = ([], sample_db)"
| "attack (Suc n) = (let (evs, t) = attack n; b = attempt_body;
     (st, u) = serve (\<lambda>x. x) ''https://app.test'' (clock (int n)) (sample_auth []) (Password_signin ''6.6.6.6'' b) t
   in (evs @ [(int n, Password_signin ''6.6.6.6'' b, st)], u))"

lemma attack_history:
  "\<exists>c\<le>int n. auth_history (\<lambda>x. x) ''https://app.test'' sample_db (fst (attack n)) c (snd (attack n))"
proof (induction n)
  case 0
  then show ?case by (auto intro: auth_history.start)
next
  case (Suc n)
  obtain evs t where a: "attack n = (evs, t)" by fastforce
  obtain st u where v: "serve (\<lambda>x. x) ''https://app.test'' (clock (int n)) (sample_auth []) (Password_signin ''6.6.6.6'' attempt_body) t = (st, u)"
    by fastforce
  from Suc a obtain c where "c \<le> now_ms (clock (int n))" and "auth_history (\<lambda>x. x) ''https://app.test'' sample_db evs c t" by auto
  from auth_history.request [OF this(2,1) v] show ?case using a v by (auto simp: Let_def intro!: exI [of _ "int n"])
qed

theorem attempts_stay_within_budget_witness:
  "map (\<lambda>(_, _, st). st) (fst (attack 12)) = replicate 10 401 @ [429, 429]
   \<and> length (within_window 600000 11 ''6.6.6.6'' (probes_by_ip (fst (attack 12)))) \<le> 10"
proof
  show "map (\<lambda>(_, _, st). st) (fst (attack 12)) = replicate 10 401 @ [429, 429]" by code_simp
  have "limiter sample_db = no_limits" by code_simp
  with attack_history [of 12] attempts_stay_within_budget
  show "length (within_window 600000 11 ''6.6.6.6'' (probes_by_ip (fst (attack 12)))) \<le> 10" by blast
qed

definition two_codes :: "int \<Rightarrow> int \<times> int \<times> db" where
  "two_codes gap =
     (let (st, t) = serve (\<lambda>x. x) ''https://app.test'' (clock 0) (sample_auth [''Ada@acme.test'']) (Otp_request code_body) sample_db;
          (st', u) = serve (\<lambda>x. x) ''https://app.test'' (clock gap) (sample_auth [''Ada@acme.test'']) (Otp_request code_body) t
      in (st, st', u))"

definition spaced_by_a_minute :: "mail_row list \<Rightarrow> bool" where
  "spaced_by_a_minute ms = sorted_wrt (\<lambda>m n. address_key (ml_to m) = address_key (ml_to n) \<longrightarrow> ml_at m + 60000 \<le> ml_at n) ms"


text \<open>
  The cooldown can be undone by a slow request: a reservation is one time per address, so a request whose
  mailer fails after its minute deletes the reservation a later request made; here two mails go
  out one millisecond apart.
\<close>

definition overlapping_codes :: "db \<Rightarrow> db" where
  "overlapping_codes s =
     (let ok = sample_auth [''Ada@acme.test''];
          failing = ok\<lparr>send_otp := (\<lambda>_ _ _. Otp_threw)\<rparr>;
          s1 = snd (otp_reserve (clock 0) failing ''Ada@acme.test'' None s);
          s2 = snd (otp_POST (clock 60000) ok code_body s1);
          s3 = snd (otp_dispatch (clock 0) failing ''Ada@acme.test'' None False s2)
      in snd (otp_POST (clock 60001) ok code_body s3))"

theorem a_late_failure_lifts_the_cooldown:
  "map ml_at (mails (overlapping_codes sample_db)) = [60000, 60001]"
  by code_simp

text \<open>
  A lost answer lifts the cooldown too: GoTrue mails the code, its answer does not arrive, the route hands the
  reservation back, and the next request mails again a millisecond later.
\<close>

theorem a_lost_answer_lifts_the_cooldown:
  "let losing = (sample_auth [''Ada@acme.test''])\<lparr>send_otp := (\<lambda>_ _ _. Otp_threw), slips := (\<lambda>_ _. True)\<rparr>
   in map (\<lambda>m. (ml_at m, ml_confirmed m)) (mails (snd (otp_POST (clock 1) (sample_auth [''Ada@acme.test'']) code_body
        (snd (otp_POST (clock 0) losing code_body sample_db))))) = [(0, False), (1, True)]"
  by code_simp

definition ask_twice :: "string list \<Rightarrow> db \<Rightarrow> int list" where
  "ask_twice known s =
     (let (st, t) = answer (otp_POST (clock 0) (sample_auth known) code_body) s;
          (st', u) = answer (otp_POST (clock 1) (sample_auth known) code_body) t
      in [st, st'])"

text \<open>
  Where sign-up is closed the code request tells whether an address has an account, although it is
  meant to answer the same: both first requests answer 200, but only a real send keeps the
  cooldown, so a second request at once answers 429 for an account and 200 for a stranger.
\<close>

theorem gated_code_request_reveals_accounts:
  "ask_twice [''Ada@acme.test''] sample_db = [200, 429] \<and> ask_twice [] sample_db = [200, 200]"
  by (intro conjI) code_simp+


fun reset_answers :: "(env \<times> auth_service \<times> json) list \<Rightarrow> db \<Rightarrow> resp list" where
  "reset_answers [] s = []"
| "reset_answers ((E, A, b) # rs) s = response (reset_POST E A b) s # reset_answers rs (snd (reset_POST E A b s))"

lemma limiter_link: "keeps (\<lambda>t. limiter t = l) (send_link E A kind email)"
  unfolding send_link_def sendResendEmail_def mailed_def slipped_def by (intro keeps_intros keeps_modify) simp_all

lemma limiter_swallow:
  "limiter (snd (swallow (bind (createServiceRoleSupabaseClient A) (\<lambda>_. send_link E A kind email)) s)) = limiter s"
proof -
  have "keeps (\<lambda>t. limiter t = limiter s) (swallow (bind (createServiceRoleSupabaseClient A) (\<lambda>_. send_link E A kind email)))"
    unfolding swallow_def by (intro keeps_intros limiter_link)
  from keepsD [OF this] show ?thesis by simp
qed

lemma swallow_returns: "\<exists>t. swallow m s = (Inr (), t)"
  by (simp add: swallow_def act_simps split: prod.split sum.split)

lemma reset_answer:
  "response (reset_POST E A b) s = (case parseResetPayload b of Inl msg \<Rightarrow> code_resp ''invalid_request'' msg 400 | Inr _ \<Rightarrow> ok_resp)
   \<and> limiter (snd (reset_POST E A b s))
     = (case parseResetPayload b of Inl _ \<Rightarrow> limiter s | Inr email \<Rightarrow> snd (allowEmailSend (now_ms E) email (limiter s)))"
proof (cases "parseResetPayload b")
  case (Inl msg)
  then show ?thesis by (simp add: reset_POST_def response_def)
next
  case (Inr email)
  obtain ok l where a: "allowEmailSend (now_ms E) email (limiter s) = (ok, l)" by fastforce
  let ?m = "bind (createServiceRoleSupabaseClient A) (\<lambda>_. send_link E A ''recovery'' email)"
  obtain t where w: "swallow ?m (s\<lparr>limiter := l\<rparr>) = (Inr (), t)" using swallow_returns by blast
  have "limiter t = l" using limiter_swallow [of A E "''recovery''" email "s\<lparr>limiter := l\<rparr>"] w by simp
  with w show ?thesis
    by (cases ok) (simp_all add: reset_POST_def sendPasswordResetEmail_def Inr response_def bind_apply limit_def a)
qed

text \<open>
  The reset request is no account oracle: the answers to any sequence of requests are the same
  for every two sets of accounts, mailers, databases and failures, as long as the bodies, the clock
  and the counters of the process are the same; the cooldown is kept whether or not a mail went out.
\<close>

theorem reset_reveals_no_account:
  assumes "map (\<lambda>(E, A, b). (now_ms E, b)) xs = map (\<lambda>(E, A, b). (now_ms E, b)) ys" and "limiter s = limiter t"
  shows "reset_answers xs s = reset_answers ys t"
  using assms
proof (induction xs arbitrary: ys s t)
  case Nil
  then show ?case by simp
next
  case (Cons x xs)
  obtain E A b where x: "x = (E, A, b)" by (cases x) auto
  from Cons.prems(1) x obtain F B zs where ys: "ys = (F, B, b) # zs" and n: "now_ms E = now_ms F"
    and tl: "map (\<lambda>(E, A, b). (now_ms E, b)) xs = map (\<lambda>(E, A, b). (now_ms E, b)) zs"
    by (cases ys) auto
  have "limiter (snd (reset_POST E A b s)) = limiter (snd (reset_POST F B b t))"
    using reset_answer [of E A b s] reset_answer [of F B b t] Cons.prems(2) n by (simp split: sum.splits)
  from Cons.IH [OF tl this] show ?case
    using reset_answer [of E A b s] reset_answer [of F B b t] by (simp add: x ys)
qed

theorem reset_reveals_no_account_witness:
  "reset_answers [(clock 0, sample_auth [''Ada@acme.test''], code_body), (clock 1, sample_auth [''Ada@acme.test''], code_body)] sample_db
     = reset_answers [(clock 0, sample_auth [], code_body), (clock 1, sample_auth [], code_body)] empty_db
   \<and> length (mails (snd (reset_POST (clock 0) (sample_auth [''Ada@acme.test'']) code_body sample_db))) = 1
   \<and> mails (snd (reset_POST (clock 0) (sample_auth []) code_body empty_db)) = []"
proof (intro conjI)
  have "limiter sample_db = limiter empty_db" by code_simp
  then show "reset_answers [(clock 0, sample_auth [''Ada@acme.test''], code_body), (clock 1, sample_auth [''Ada@acme.test''], code_body)] sample_db
     = reset_answers [(clock 0, sample_auth [], code_body), (clock 1, sample_auth [], code_body)] empty_db"
    by (intro reset_reveals_no_account) simp_all
qed code_simp+

text \<open>
  Entering a code opens the credit gate of an organization only for its founder with a code GoTrue
  verified for the address entered: a request that changed a locked organization to unlocked had a
  six-digit code that verified to the earliest-joined admin.
\<close>

theorem code_entry_unlocks_only_the_founder:
  assumes "is_locked oid s" and "\<not> is_locked oid (snd (otp_verify_POST E A request s))"
  shows "\<exists>email token uid created. parseVerifyPayload request = Inr (email, token) \<and> length token = 6
    \<and> verify_otp A email token = Some (uid, created) \<and> founded_by uid oid s"
proof (cases "parseVerifyPayload request")
  case (Inl msg)
  with assms show ?thesis by (simp add: otp_verify_POST_def)
next
  case (Inr p)
  obtain email token where p: "p = (email, token)" by fastforce
  have len: "length token = 6" using Inr p by (auto simp: parseVerifyPayload_def Let_def split: if_splits option.splits)
  show ?thesis
  proof (cases "verify_otp A email token")
    case None
    with assms show ?thesis by (simp add: otp_verify_POST_def Inr p)
  next
    case (Some r)
    obtain uid c where r: "r = (uid, c)" by fastforce
    have "founded_by uid oid s"
    proof (rule ccontr)
      assume nf: "\<not> founded_by uid oid s"
      have "is_locked oid (snd (unlockSpendOnInboxProof E uid s))"
        using unlockSpendForUser_state [of E uid s] unlock_founder_keeps_locked [OF assms(1) nf] assms(1)
        by (auto simp: unlockSpendOnInboxProof_def act_simps spendUnlockRequirement_eval)
      then have "is_locked oid (snd (otp_verify_POST E A request s))"
        using assms(1) by (simp add: otp_verify_POST_def Inr p Some r createServiceRoleSupabaseClient_def act_simps
            split: prod.split sum.split) (metis snd_conv)
      with assms(2) show False by simp
    qed
    with Inr p len Some r show ?thesis by blast
  qed
qed

definition entry_body :: "string \<Rightarrow> json" where
  "entry_body digits = JObj [(''email'', JStr ''ada@acme.test''), (''token'', JStr digits)]"

theorem code_entry_unlocks_only_the_founder_witness:
  "(\<exists>email token uid created. parseVerifyPayload (entry_body '' 123456 '') = Inr (email, token) \<and> length token = 6
      \<and> verify_otp (sample_auth []) email token = Some (uid, created) \<and> founded_by uid ''o1'' sample_db)
   \<and> is_locked ''o1'' (snd (otp_verify_POST sample_env (sample_auth []) (entry_body ''123457'') sample_db))"
proof
  have "is_locked ''o1'' sample_db" and "\<not> is_locked ''o1'' (snd (otp_verify_POST sample_env (sample_auth []) (entry_body '' 123456 '') sample_db))"
    by code_simp+
  then show "\<exists>email token uid created. parseVerifyPayload (entry_body '' 123456 '') = Inr (email, token) \<and> length token = 6
      \<and> verify_otp (sample_auth []) email token = Some (uid, created) \<and> founded_by uid ''o1'' sample_db"
    by (rule code_entry_unlocks_only_the_founder)
qed code_simp


section \<open>Instant sign-up\<close>

definition hands_out :: "resp \<Rightarrow> string \<Rightarrow> bool" where
  "hands_out r sec \<longleftrightarrow> (case body r of None \<Rightarrow> False | Some j \<Rightarrow> jget ''api_key'' j = Some (JStr sec))"

lemma code_resp_silent [simp]: "\<not> hands_out (code_resp c m st) sec"
  by (simp add: hands_out_def code_resp_def)

lemma error_silent [simp]: "\<not> hands_out (jsonError err) sec"
  by (cases err) (auto simp: hands_out_def error_resp_def map_of_Cons_code split: option.split)

lemma created_hands_out [simp]: "hands_out (jsonOk (created_json origin secret oid credits sent)) sec \<longleftrightarrow> secret = Some sec"
  by (simp add: hands_out_def jsonOk_def created_json_def jopt_def split: option.split)

lemma mint_first_key_CreatedD:
  assumes "mint_first_key sha E A uid oid cr name s = (Inr (Created uid' oid' (Some sec) credits pw), t)"
  shows "uid' = uid \<and> oid' = oid \<and> sec = mk_secret (mintApiKeySecret sha E)
    \<and> api_keys t = api_keys s @ [new_key E (mintApiKeySecret sha E) oid name uid None None]"
proof -
  let ?m = "mintApiKeySecret sha E"
  obtain r s2 where c: "call (faults E ''api_keys.insert'') (insert_key (new_key E ?m oid name uid None None)) s = (Inr r, s2)"
    and rest: "(case r of Inl err \<Rightarrow> ret (Signup_failed (message err)) | Inr k \<Rightarrow>
        bind (recordAuditEvent E \<lparr>ev_org = Some oid, ev_actor_kind = ''user'', ev_actor_id = Some uid,
                  ev_action = ''keys.mint'', ev_object_type = ''api_key'', ev_object_id = k_id k,
                  ev_before = None, ev_after = None,
                  ev_context = Some (JObj [(''via'', JStr ''instant_signup'')])\<rparr>) (\<lambda>_.
          ret (Created uid oid (Some (mk_secret ?m)) cr (bootstrap_secret A)))) s2
      = (Inr (Created uid' oid' (Some sec) credits pw), t)"
    using assms unfolding mint_first_key_def Let_def by (rule bind_InrE)
  have "\<exists>k. r = Inr k" using rest by (cases r) simp_all
  then obtain k where r: "r = Inr k" ..
  have "api_keys s2 = api_keys s @ [new_key E ?m oid name uid None None]"
    using insert_key_SomeD [OF conjunct2 [OF call_InrD [OF c [unfolded r]]]] by simp
  moreover obtain u row where u: "u = s2 \<or> u = s2\<lparr>audit_log := row\<rparr>"
    and f: "ret (Created uid oid (Some (mk_secret ?m)) cr (bootstrap_secret A)) u = (Inr (Created uid' oid' (Some sec) credits pw), t)"
    using rest unfolding r sum.case by (rule bind_recordAuditEvent_InrE) blast
  have "api_keys u = api_keys s2" using u by (elim disjE) simp_all
  moreover have "t = u \<and> uid' = uid \<and> oid' = oid \<and> sec = mk_secret ?m" using f by simp
  ultimately show ?thesis by simp
qed

lemma provision_CreatedE:
  assumes "provisionInstantAccount sha E A email None (Some name) s = (Inr (Created uid oid (Some sec) credits pw), t)"
  obtains u k where "create_user A email (bootstrap_secret A) None s = Inr (Some uid, u)"
    and "founder_orgs uid (remote_effect (\<lambda>_. u) s) = [oid]" and "api_keys t = api_keys u @ [k]"
    and "k = new_key E (mintApiKeySecret sha E) oid name uid None None" and "sec = mk_secret (mintApiKeySecret sha E)"
proof -
  obtain p s1 where reg: "register A email None s = (Inr p, s1)"
    and rest: "(case p of Inl r \<Rightarrow> ret r | Inr uid \<Rightarrow>
       bind (query (faults E ''organization_members.founder'') (founder_orgs uid)) (\<lambda>m. case m of
         Inr [oid] \<Rightarrow> bind (granted_credits E oid) (\<lambda>credits. mint_first_key sha E A uid oid credits name)
       | _ \<Rightarrow> bind (modify (remote_effect (delete_user A uid))) (\<lambda>_.
             ret (Signup_failed ''Account provisioning did not complete; try again.'')))) s1
       = (Inr (Created uid oid (Some sec) credits pw), t)"
    using assms unfolding provisionInstantAccount_def by (auto elim!: bind_InrE)
  have "\<exists>uid'. p = Inr uid'"
    using reg rest by (cases p) (auto simp: register_def Let_def split: sum.splits option.splits prod.splits if_splits)
  then obtain uid' where p: "p = Inr uid'" by blast
  then obtain u where cu: "create_user A email (bootstrap_secret A) None s = Inr (Some uid', u)"
    and s1: "s1 = remote_effect (\<lambda>_. u) s"
    using reg by (auto simp: register_def Let_def split: sum.splits option.splits prod.splits)
  obtain m where m: "m = read_db (faults E ''organization_members.founder'') (founder_orgs uid') s1"
    and r2: "(case m of Inr [oid] \<Rightarrow> bind (granted_credits E oid) (\<lambda>credits. mint_first_key sha E A uid' oid credits name)
       | _ \<Rightarrow> bind (modify (remote_effect (delete_user A uid'))) (\<lambda>_.
             ret (Signup_failed ''Account provisioning did not complete; try again.''))) s1
       = (Inr (Created uid oid (Some sec) credits pw), t)"
    using rest unfolding p by (auto simp: act_simps)
  have "\<exists>o'. m = Inr [o']" using r2 by (auto simp: act_simps split: sum.splits list.splits)
  then obtain o' where o': "m = Inr [o']" by blast
  have fo: "founder_orgs uid' s1 = [o']" using m o' by (metis read_db_InrD)
  obtain cr s2 where cr: "granted_credits E o' s1 = (Inr cr, s2)"
    and mk: "mint_first_key sha E A uid' o' cr name s2 = (Inr (Created uid oid (Some sec) credits pw), t)"
    using r2 unfolding o' by (auto elim!: bind_InrE)
  have s2: "s2 = s1" using cr by (auto simp: granted_credits_def act_simps)
  have fin: "uid = uid' \<and> oid = o' \<and> sec = mk_secret (mintApiKeySecret sha E)
      \<and> api_keys t = api_keys s1 @ [new_key E (mintApiKeySecret sha E) o' name uid' None None]"
    using mint_first_key_CreatedD [OF mk] s2 by simp
  show ?thesis
    by (rule that [of u "new_key E (mintApiKeySecret sha E) oid name uid None None"])
      (use cu fo fin s1 in \<open>simp_all add: remote_effect_def\<close>)
qed


definition sweep :: "limits \<Rightarrow> db \<Rightarrow> db" where
  "sweep l s = s\<lparr>limiter := l\<rparr>"

lemma limit_bind: "f (limiter s) = (ok, l) \<Longrightarrow> bind (limit f) g s = g ok (s\<lparr>limiter := l\<rparr>)"
  by (simp add: bind_def limit_def)

lemma isSignupAllowed_open:
  assumes "catching (isSignupAllowed E email None) (\<lambda>_. ret False) s = (Inr True, t)"
  shows "t = s \<and> (\<exists>row. app_settings s = Some row \<and> signups_enabled row)"
proof -
  have "isSignupAllowed E email None s = (Inr True, t)"
    using assms by (auto simp: catching_apply split: prod.splits sum.splits)
  then show ?thesis
    by (auto simp: isSignupAllowed_def invited_signup_def elim!: bind_InrE orThrow_InrE dest!: read_db_InrD
        split: option.splits if_splits) metis
qed

lemma keys_after_mail: "keeps (\<lambda>t. api_keys t = ks) (bind (limit (allowEmailSend now email)) (\<lambda>ok.
    bind (if ok then sendVerificationEmail E A email else ret False) (\<lambda>sent. ret (f sent))))"
proof -
  have "keeps (\<lambda>t. api_keys t = ks) (limit g)" for g by (simp add: keeps_def limit_def split: prod.split)
  moreover have "keeps (\<lambda>t. api_keys t = ks) (sendVerificationEmail E A email)"
    unfolding sendVerificationEmail_def send_link_def sendResendEmail_def mailed_def slipped_def
    by (intro keeps_intros keeps_modify) simp_all
  ultimately show ?thesis by (intro keeps_intros)
qed

lemma answered_createdE:
  assumes "(case result of
      Account_exists \<Rightarrow> ret a | Signup_failed msg \<Rightarrow> ret (b msg)
    | Created uid oid secret credits password \<Rightarrow>
        bind (limit (allowEmailSend now email)) (\<lambda>ok.
        bind (if ok then sendVerificationEmail E A email else ret False) (\<lambda>sent.
        ret (jsonOk (created_json origin secret oid credits sent))))) s = (Inr r, t)"
    and "hands_out r sec" and "\<not> hands_out a sec" and "\<And>msg. \<not> hands_out (b msg) sec"
  obtains uid oid credits password where "result = Created uid oid (Some sec) credits password" and "api_keys t = api_keys s"
proof (cases result)
  case (Created uid oid secret credits password)
  have m: "bind (limit (allowEmailSend now email)) (\<lambda>ok.
        bind (if ok then sendVerificationEmail E A email else ret False) (\<lambda>sent.
        ret (jsonOk (created_json origin secret oid credits sent)))) s = (Inr r, t)"
    using assms(1) Created by simp
  obtain sent where "r = jsonOk (created_json origin secret oid credits sent)"
    using m by (auto elim!: bind_InrE)
  then have "secret = Some sec" using assms(2) by simp
  moreover have "api_keys t = api_keys s"
    using keepsD [OF keys_after_mail [where ks="api_keys s" and now=now and email=email and E=E and A=A
        and f="\<lambda>sent. jsonOk (created_json origin secret oid credits sent)"], of s] m by simp
  ultimately show ?thesis using that Created by simp
qed (use assms in auto)

text \<open>
  The instant sign-up hands out a key only for an account it created: when an answer carries a
  secret, sign-up was open, GoTrue created a new user for the parsed address, that user is admin of
  exactly one organization, and the only key added is that user's for that organization, stored by
  the digest of the secret. An address GoTrue knows gets no key and leaves the keys as they were.
\<close>

theorem instant_signup_contract:
  assumes "instant_POST sha E A origin ip request s = (Inr r, t)" and "hands_out r sec"
  shows "\<exists>email uid l u k. parseEmail request = Inr email
    \<and> (\<exists>row. app_settings s = Some row \<and> signups_enabled row)
    \<and> create_user A email (bootstrap_secret A) None (sweep l s) = Inr (Some uid, u)
    \<and> founder_orgs uid u = [k_org k] \<and> api_keys t = api_keys u @ [k]
    \<and> k_created_by k = uid \<and> k_hash k = sha sec \<and> k_revoked_at k = None"
proof (cases "parseEmail request")
  case (Inl msg)
  then have "instant_POST sha E A origin ip request s = (Inr (code_resp ''invalid_request'' msg 400), s)"
    by (simp add: instant_POST_def handler_def)
  with assms(1) have "r = code_resp ''invalid_request'' msg 400" by simp
  with assms(2) show ?thesis by simp
next
  case (Inr email)
  obtain started l where a: "allowSignupStart (now_ms E) ip (limiter s) = (started, l)" by fastforce
  let ?fin = "\<lambda>result. case result of
       Account_exists \<Rightarrow> ret (code_resp ''account_exists'' ''An account already exists for this email. Sign in to get an API key.'' 409)
     | Signup_failed msg \<Rightarrow> ret (code_resp ''signup_failed'' msg 500)
     | Created uid oid secret credits password \<Rightarrow>
         bind (limit (allowEmailSend (now_ms E) email)) (\<lambda>ok.
         bind (if ok then sendVerificationEmail E A email else ret False) (\<lambda>sent.
         ret (jsonOk (created_json origin secret oid credits sent))))"
  let ?gate = "bind (createServiceRoleSupabaseClient A) (\<lambda>_.
      bind (catching (isSignupAllowed E email None) (\<lambda>_. ret False)) (\<lambda>allowed.
      if \<not> allowed then ret (code_resp ''signup_disabled'' SIGNUP_DISABLED_MESSAGE 403)
      else bind (provisionInstantAccount sha E A email None (Some ''Coding agent (instant signup)'')) ?fin))"
  let ?body = "bind (limit (allowSignupStart (now_ms E) ip)) (\<lambda>started.
      if \<not> started then ret (code_resp ''rate_limited'' ''Too many signups from this address; try again shortly.'' 429) else ?gate)"
  have "handler ?body s = (Inr r, t)" using assms(1) by (simp only: instant_POST_def Inr sum.case)
  then have "?body s = (Inr r, t)"
    using assms(2) by (auto simp: handler_def catching_apply split: prod.splits sum.splits)
  then have "(if \<not> started then ret (code_resp ''rate_limited'' ''Too many signups from this address; try again shortly.'' 429) else ?gate)
      (sweep l s) = (Inr r, t)"
    by (simp only: limit_bind [of "allowSignupStart (now_ms E) ip", OF a] sweep_def)
  then have "?gate (sweep l s) = (Inr r, t)" using assms(2) by (cases started) auto
  then obtain x1 s1 where "createServiceRoleSupabaseClient A (sweep l s) = (Inr x1, s1)"
    and g1: "bind (catching (isSignupAllowed E email None) (\<lambda>_. ret False)) (\<lambda>allowed.
      if \<not> allowed then ret (code_resp ''signup_disabled'' SIGNUP_DISABLED_MESSAGE 403)
      else bind (provisionInstantAccount sha E A email None (Some ''Coding agent (instant signup)'')) ?fin) s1 = (Inr r, t)"
    by (rule bind_InrE)
  then have s1: "s1 = sweep l s" by (auto simp: createServiceRoleSupabaseClient_def split: if_splits)
  from g1 obtain allowed s2 where al: "catching (isSignupAllowed E email None) (\<lambda>_. ret False) s1 = (Inr allowed, s2)"
    and g2: "(if \<not> allowed then ret (code_resp ''signup_disabled'' SIGNUP_DISABLED_MESSAGE 403)
      else bind (provisionInstantAccount sha E A email None (Some ''Coding agent (instant signup)'')) ?fin) s2 = (Inr r, t)"
    by (rule bind_InrE)
  have allowed: "allowed" using g2 assms(2) by (cases allowed) auto
  with al s1 isSignupAllowed_open have s2: "s2 = sweep l s" and gate: "\<exists>row. app_settings s = Some row \<and> signups_enabled row"
    by (fastforce simp: sweep_def)+
  from g2 allowed obtain result s3 where pr: "provisionInstantAccount sha E A email None (Some ''Coding agent (instant signup)'') s2 = (Inr result, s3)"
    and fin: "?fin result s3 = (Inr r, t)"
    by (simp only: not_True_eq_False if_False) (rule bind_InrE)
  from fin assms(2) obtain uid oid credits password where res: "result = Created uid oid (Some sec) credits password"
    and keys: "api_keys t = api_keys s3"
    by (rule answered_createdE) simp_all
  from pr [unfolded res s2] obtain u k where "create_user A email (bootstrap_secret A) None (sweep l s) = Inr (Some uid, u)"
    and "founder_orgs uid (remote_effect (\<lambda>_. u) (sweep l s)) = [oid]" and "api_keys s3 = api_keys u @ [k]"
    and k: "k = new_key E (mintApiKeySecret sha E) oid ''Coding agent (instant signup)'' uid None None"
    and "sec = mk_secret (mintApiKeySecret sha E)"
    by (rule provision_CreatedE)
  with Inr gate keys show ?thesis
    by (intro exI [of _ email] exI [of _ uid] exI [of _ l] exI [of _ u] exI [of _ k])
      (simp add: new_key_def mintApiKeySecret_def mintKeySecret_def Let_def founder_orgs_def remote_effect_def)
qed

definition open_db :: db where
  "open_db = sample_db\<lparr>app_settings := Some \<lparr>signups_enabled = True, spend_unlock_requirement = ''email'', welcome_grant_micro_usd = 20000000\<rparr>\<rparr>"

theorem instant_signup_contract_witness:
  "(\<exists>k. api_keys (snd (instant_POST (\<lambda>x. rev x) sample_env (sample_auth []) ''https://app.test'' ''1.2.3.4'' code_body open_db)) = [k]
      \<and> k_created_by k = ''u9'' \<and> k_hash k = rev (''xpl_'' @ random_hex sample_env))
   \<and> response (instant_POST (\<lambda>x. rev x) sample_env (sample_auth [''Ada@acme.test'']) ''https://app.test'' ''1.2.3.4'' code_body) open_db
      = code_resp ''account_exists'' ''An account already exists for this email. Sign in to get an API key.'' 409"
proof
  let ?m = "instant_POST (\<lambda>x. rev x) sample_env (sample_auth []) ''https://app.test'' ''1.2.3.4'' code_body"
  obtain r t where m: "?m open_db = (Inr r, t)" and h: "hands_out r (''xpl_'' @ random_hex sample_env)"
  proof -
    have "(case fst (?m open_db) of Inl e \<Rightarrow> False | Inr r \<Rightarrow> hands_out r (''xpl_'' @ random_hex sample_env))" by code_simp
    then show ?thesis using that by (cases "?m open_db") (auto split: sum.splits)
  qed
  obtain email uid l u k where c: "create_user (sample_auth []) email (bootstrap_secret (sample_auth [])) None (sweep l open_db) = Inr (Some uid, u)"
    and k: "api_keys t = api_keys u @ [k]" "k_created_by k = uid" "k_hash k = rev (''xpl_'' @ random_hex sample_env)"
    using instant_signup_contract [OF m h] by blast
  have "uid = ''u9'' \<and> api_keys u = []"
    using c by (auto simp: sample_auth_def sweep_def open_db_def sample_db_def empty_db_def)
  with k m show "\<exists>k. api_keys (snd (?m open_db)) = [k] \<and> k_created_by k = ''u9'' \<and> k_hash k = rev (''xpl_'' @ random_hex sample_env)"
    by auto
qed code_simp

end
