(* ===== verification/Password_Recovery.thy ===== *)
theory Password_Recovery
  imports Auth_Flows Base64 Number_Text
begin

text \<open>
  Setting a password: \<open>lib/auth/password-recovery.ts\<close> (the signed, session-bound ticket), \<open>lib/auth/password.ts\<close>
  (payloads and the proofs a session carries), \<open>app/auth/password/reset/confirm\<close> and
  \<open>app/auth/password\<close>.

  The keyed digest is the argument \<open>hmac\<close> (none: the service key is missing and signing throws).
  What GoTrue answers is \<open>password_service\<close>; the routes return with the response the password they
  had GoTrue set, as the user of the session.
\<close>

section \<open>The ticket\<close>

definition PASSWORD_RECOVERY_TTL_SECONDS :: int where "PASSWORD_RECOVERY_TTL_SECONDS = 60 * 60"

record recovery_identity =
  rc_user :: string
  rc_session :: string

definition recoverySessionIdentity :: "json option \<Rightarrow> recovery_identity option" where
  "recoverySessionIdentity claims =
     (case claims of
        None \<Rightarrow> None
      | Some c \<Rightarrow>
          (case (jstr (jget ''sub'' c), jstr (jget ''session_id'' c)) of
             (Some u, Some sid) \<Rightarrow> Some \<lparr>rc_user = u, rc_session = sid\<rparr>
           | _ \<Rightarrow> None))"

definition sessionIdFromAccessToken :: "(string \<Rightarrow> json option) \<Rightarrow> string option \<Rightarrow> string option" where
  "sessionIdFromAccessToken json_parse accessToken =
     (case accessToken of
        None \<Rightarrow> None
      | Some t \<Rightarrow>
          (case split_on (CHR ''.'') t of
             _ # (c # cs) # _ \<Rightarrow>
               map_option rc_session (recoverySessionIdentity
                 (json_parse (map (\<lambda>b. char_of (unat b)) (b64_decode (c # cs)))))
           | _ \<Rightarrow> None))"

definition ticket_message :: "recovery_identity \<Rightarrow> int \<Rightarrow> string" where
  "ticket_message identity expiresAt =
     ''password-recovery:'' @ rc_user identity @ '':'' @ rc_session identity @ '':'' @ dec_string expiresAt"

definition signTicket :: "(string \<Rightarrow> byte list) option \<Rightarrow> recovery_identity \<Rightarrow> int \<Rightarrow> app_error + string" where
  "signTicket hmac identity expiresAt =
     (case hmac of
        None \<Rightarrow> Inl (PlainError ''SUPABASE_SERVICE_ROLE_KEY must be set for password recovery.'')
      | Some h \<Rightarrow> Inr (b64_encode (h (ticket_message identity expiresAt))))"

definition createPasswordRecoveryTicket :: "(string \<Rightarrow> byte list) option \<Rightarrow> recovery_identity \<Rightarrow> int \<Rightarrow> app_error + string" where
  "createPasswordRecoveryTicket hmac identity now =
     (let expiresAt = now div 1000 + PASSWORD_RECOVERY_TTL_SECONDS in
      case signTicket hmac identity expiresAt of
        Inl e \<Rightarrow> Inl e
      | Inr sig \<Rightarrow> Inr (dec_string expiresAt @ ''.'' @ sig))"

definition verifyPasswordRecoveryTicket ::
    "(string \<Rightarrow> byte list) option \<Rightarrow> string option \<Rightarrow> recovery_identity \<Rightarrow> int \<Rightarrow> app_error + bool" where
  "verifyPasswordRecoveryTicket hmac ticket identity now =
     (case ticket of
        None \<Rightarrow> Inr False
      | Some t \<Rightarrow>
          (let parts = split_on (CHR ''.'') t;
               expiresAt = js_Number (hd parts);
               signature = (if 1 < length parts then parts ! 1 else '''')
           in if 2 < length parts \<or> \<not> js_is_safe_integer expiresAt \<or> js_to_int expiresAt \<le> now div 1000
              then Inr False
              else (case signTicket hmac identity (js_to_int expiresAt) of
                      Inl e \<Rightarrow> Inl e
                    | Inr expected \<Rightarrow> Inr (b64_decode expected = b64_decode signature))))"

section \<open>Payloads and proofs\<close>

definition MIN_PASSWORD_LENGTH :: nat where "MIN_PASSWORD_LENGTH = 6"

record change_password =
  cp_current :: "string option"
  cp_new :: string

definition at_least :: "string \<Rightarrow> string" where
  "at_least subject = subject @ '' must be at least '' @ dec_string (int MIN_PASSWORD_LENGTH) @ '' characters.''"

definition long_enough :: "json option \<Rightarrow> bool" where
  "long_enough v = (case jstr v of None \<Rightarrow> False | Some p \<Rightarrow> MIN_PASSWORD_LENGTH \<le> length p)"

definition parseChangePasswordPayload :: "json \<Rightarrow> string + change_password" where
  "parseChangePasswordPayload v =
     (if \<not> is_jobject v then Inl ''Password change request must be an object.''
      else (let raw = jget ''currentPassword'' v; new = jget ''newPassword'' v; confirm = jget ''confirmPassword'' v;
                current = (case jstr raw of None \<Rightarrow> None | Some p \<Rightarrow> if p = '''' then None else Some p)
            in if \<not> (raw = None \<or> raw = Some JNull \<or> jstr raw \<noteq> None) then Inl ''Current password must be a string.''
               else if \<not> long_enough new then Inl (at_least ''New password'')
               else if \<not> long_enough confirm then Inl (at_least ''Password confirmation'')
               else if jstr new \<noteq> jstr confirm then Inl ''New password and confirmation must match.''
               else if current \<noteq> None \<and> jstr new = current then Inl ''New password must be different from your current password.''
               else Inr \<lparr>cp_current = current, cp_new = the (jstr new)\<rparr>))"

definition parseResetPassword :: "json \<Rightarrow> string + string" where
  "parseResetPassword v =
     (if \<not> is_jobject v then Inl ''Request must be an object.''
      else if \<not> long_enough (jget ''password'' v) then Inl (at_least ''Password'')
      else Inr (the (jstr (jget ''password'' v))))"

definition amr_entries :: "json option \<Rightarrow> json list" where
  "amr_entries claims =
     (case claims of None \<Rightarrow> [] | Some c \<Rightarrow> (case jget ''amr'' c of Some (JArr xs) \<Rightarrow> xs | _ \<Rightarrow> []))"

definition amr_method :: "json \<Rightarrow> string option" where
  "amr_method entry = (case jstr (Some entry) of Some m \<Rightarrow> Some m | None \<Rightarrow> jstr (jget ''method'' entry))"

definition hasPasswordAuthMethod :: "json option \<Rightarrow> bool" where
  "hasPasswordAuthMethod claims = list_ex (\<lambda>entry. amr_method entry = Some ''password'') (amr_entries claims)"

definition RECOVERY_AUTH_METHODS :: "string list" where
  "RECOVERY_AUTH_METHODS = [''magiclink'', ''otp'', ''recovery'']"

definition hasRecoveryAuthMethod :: "json option \<Rightarrow> bool" where
  "hasRecoveryAuthMethod claims =
     list_ex (\<lambda>entry. case amr_method entry of None \<Rightarrow> False | Some m \<Rightarrow> List.member RECOVERY_AUTH_METHODS m) (amr_entries claims)"

record session_user =
  su_id :: string
  su_provider :: "string option"
  su_providers :: "string list"
  su_identities :: "string list"

definition hasPasswordIdentity :: "session_user option \<Rightarrow> bool" where
  "hasPasswordIdentity user =
     (case user of
        None \<Rightarrow> False
      | Some u \<Rightarrow>
          List.member ((case su_provider u of None \<Rightarrow> [] | Some p \<Rightarrow> [p]) @ su_providers u @ su_identities u) ''email'')"

definition canChangePasswordForSession :: "session_user option \<Rightarrow> json option \<Rightarrow> bool" where
  "canChangePasswordForSession user claims \<longleftrightarrow> hasPasswordIdentity user \<and> hasPasswordAuthMethod claims"

section \<open>The routes\<close>

record password_service =
  ps_service_key :: bool
  ps_session_user :: "session_user option"
  ps_has_password :: "string \<Rightarrow> json option"
  ps_sign_in :: "string \<Rightarrow> string \<Rightarrow> string option"
  ps_sign_in_again :: "string \<Rightarrow> string \<Rightarrow> string option"
  ps_update :: "string \<Rightarrow> bool"

definition emailHasPassword :: "password_service \<Rightarrow> string \<Rightarrow> bool option" where
  "emailHasPassword A email = (case ps_has_password A email of Some (JBool b) \<Rightarrow> Some b | _ \<Rightarrow> None)"

definition checkEmailHasPassword :: "password_service \<Rightarrow> string \<Rightarrow> bool option" where
  "checkEmailHasPassword A email = (if ps_service_key A then emailHasPassword A email else None)"

type_synonym password_set = "(string \<times> string) option"

definition no_recovery :: resp where
  "no_recovery = code_resp ''no_recovery'' ''This reset link has expired. Request a new one.'' 401"

definition reset_confirm_POST ::
    "(string \<Rightarrow> byte list) option \<Rightarrow> env \<Rightarrow> password_service \<Rightarrow> string option \<Rightarrow> json \<Rightarrow> app_error + (resp \<times> password_set)" where
  "reset_confirm_POST hmac E A cookie request =
     (case parseResetPassword request of
        Inl msg \<Rightarrow>
          Inr (code_resp (if str_includes (toLowerCase msg) ''at least'' then ''weak_password'' else ''invalid_request'') msg 400, None)
      | Inr password \<Rightarrow>
          (case recoverySessionIdentity (jwt_claims E) of
             None \<Rightarrow> Inr (no_recovery, None)
           | Some identity \<Rightarrow>
               if \<not> hasRecoveryAuthMethod (jwt_claims E) then Inr (no_recovery, None)
               else (case verifyPasswordRecoveryTicket hmac cookie identity (now_ms E) of
                       Inl e \<Rightarrow> Inl e
                     | Inr ok \<Rightarrow>
                         if \<not> ok then Inr (no_recovery, None)
                         else if \<not> ps_update A password
                         then Inr (error_resp ''Unable to set the password. Please try again.'' 422, None)
                         else Inr (ok_resp, Some (rc_user identity, password)))))"

definition not_a_password_account :: resp where
  "not_a_password_account = error_resp ''This account does not have an email/password sign-in to change.'' 422"

definition replace_password :: "password_service \<Rightarrow> auth_user \<Rightarrow> string \<Rightarrow> string \<Rightarrow> string \<Rightarrow> resp \<times> password_set" where
  "replace_password A user email current new =
     (if ps_sign_in A email current \<noteq> Some (usr_id user) then (error_resp ''Current password is incorrect.'' 401, None)
      else if \<not> ps_update A new then (error_resp ''Unable to update password. Please try again.'' 422, None)
      else if ps_sign_in_again A email new \<noteq> Some (usr_id user)
      then (error_resp ''Password updated, but your session could not be refreshed. Please sign in again.'' 500, Some (usr_id user, new))
      else (ok_resp, Some (usr_id user, new)))"

definition change_password_POST :: "env \<Rightarrow> password_service \<Rightarrow> json \<Rightarrow> resp \<times> password_set" where
  "change_password_POST E A request =
     (case parseChangePasswordPayload request of
        Inl msg \<Rightarrow> (error_resp msg 400, None)
      | Inr payload \<Rightarrow>
          (case Option.bind (jwt_claims E) authenticatedUserFromClaims of
             None \<Rightarrow> (error_resp ''Authentication required.'' 401, None)
           | Some user \<Rightarrow>
               (case usr_email user of
                  None \<Rightarrow> (not_a_password_account, None)
                | Some email \<Rightarrow>
                    if map_option su_id (ps_session_user A) \<noteq> Some (usr_id user)
                    then (error_resp ''Authentication required.'' 401, None)
                    else if hasPasswordIdentity (ps_session_user A) \<and> checkEmailHasPassword A email = Some False
                    then (if ps_update A (cp_new payload) then (ok_resp, Some (usr_id user, cp_new payload))
                          else (error_resp ''Unable to set the password. Please try again.'' 422, None))
                    else if \<not> canChangePasswordForSession (ps_session_user A) (jwt_claims E) then (not_a_password_account, None)
                    else (case cp_current payload of
                            None \<Rightarrow> (error_resp ''Current password is required.'' 400, None)
                          | Some current \<Rightarrow> replace_password A user email current (cp_new payload)))))"

section \<open>Lemmas on the ticket\<close>

lemma colon_split:
  fixes d :: char
  assumes "d \<notin> set a" and "d \<notin> set b" and "a @ d # x = b @ d # y"
  shows "a = b \<and> x = y"
proof -
  have "a # split_on d x = b # split_on d y"
    using assms(3) split_on_first [OF assms(1), of x] split_on_first [OF assms(2), of y] by simp
  with assms(3) show ?thesis by simp
qed

lemma no_colon_digits: "0 \<le> n \<Longrightarrow> CHR '':'' \<notin> set (dec_string n) \<and> CHR ''.'' \<notin> set (dec_string n)"
proof -
  assume "0 \<le> n"
  then have "list_all is_digit (dec_string n)" by (rule digits_dec_string)
  moreover have "\<not> is_digit (CHR '':'')" "\<not> is_digit (CHR ''.'')" by code_simp+
  ultimately show ?thesis by (auto simp: list_all_iff)
qed

lemma dec_string_inj: "0 \<le> m \<Longrightarrow> 0 \<le> n \<Longrightarrow> dec_string m = dec_string n \<Longrightarrow> m = n"
  by (metis num_value_dec_string)

lemma ticket_message_inj:
  assumes "CHR '':'' \<notin> set (rc_user i)" and "CHR '':'' \<notin> set (rc_session i)"
    and "CHR '':'' \<notin> set (rc_user j)" and "CHR '':'' \<notin> set (rc_session j)"
    and "ticket_message i m = ticket_message j n" and "0 \<le> m" and "0 \<le> n"
  shows "rc_user i = rc_user j \<and> rc_session i = rc_session j \<and> m = n"
proof -
  have "rc_user i @ CHR '':'' # (rc_session i @ CHR '':'' # dec_string m)
      = rc_user j @ CHR '':'' # (rc_session j @ CHR '':'' # dec_string n)"
    using assms(5) by (simp add: ticket_message_def)
  from colon_split [OF assms(1,3) this] have u: "rc_user i = rc_user j"
    and s: "rc_session i @ CHR '':'' # dec_string m = rc_session j @ CHR '':'' # dec_string n" by auto
  from colon_split [OF assms(2,4) s] u show ?thesis using dec_string_inj assms(6,7) by blast
qed

lemma ticket_parts:
  assumes "0 \<le> e"
  shows "split_on (CHR ''.'') (dec_string e @ ''.'' @ b64_encode bs) = [dec_string e, b64_encode bs]"
proof -
  have "CHR ''.'' \<notin> set (b64_encode bs)" using b64_encode_chars by blast
  then show ?thesis using split_on_first [of "CHR ''.''" "dec_string e" "b64_encode bs"] no_colon_digits [OF assms]
    by (simp add: split_on_absent)
qed

lemma ticket_verdict:
  assumes "createPasswordRecoveryTicket (Some h) i minted = Inr ticket" and "inj h"
    and "CHR '':'' \<notin> set (rc_user i @ rc_session i)" and "CHR '':'' \<notin> set (rc_user j @ rc_session j)"
    and "0 \<le> minted" and "minted < 2 ^ 60"
  shows "verifyPasswordRecoveryTicket (Some h) (Some ticket) j now
    = Inr (rc_user j = rc_user i \<and> rc_session j = rc_session i \<and> now div 1000 < minted div 1000 + 3600)"
proof -
  let ?e = "minted div 1000 + 3600"
  have e: "0 \<le> ?e" "?e < 2 ^ 53" using assms(5,6) by auto
  have t: "ticket = dec_string ?e @ ''.'' @ b64_encode (h (ticket_message i ?e))"
    using assms(1) by (simp add: createPasswordRecoveryTicket_def PASSWORD_RECOVERY_TTL_SECONDS_def signTicket_def Let_def)
  have same: "h (ticket_message j ?e) = h (ticket_message i ?e) \<longleftrightarrow> rc_user j = rc_user i \<and> rc_session j = rc_session i"
  proof
    assume "h (ticket_message j ?e) = h (ticket_message i ?e)"
    then have "ticket_message j ?e = ticket_message i ?e" by (rule injD [OF assms(2)])
    with ticket_message_inj [of j i ?e ?e] assms(3,4) e(1)
    show "rc_user j = rc_user i \<and> rc_session j = rc_session i" by simp
  qed (simp add: ticket_message_def)
  show ?thesis
    by (auto simp: verifyPasswordRecoveryTicket_def t ticket_parts [OF e(1), simplified] js_Number_dec_string [OF e]
        safe_integer_int [OF e] signTicket_def b64_roundtrip same Let_def)
qed


section \<open>Properties\<close>

text \<open>
  C18. A recovery ticket is good for exactly one session and one hour: a ticket minted at one time for a
  user and session verifies for a user and session at another time if and only if it is the same
  user and the same session and the hour, counted in whole seconds, is not over. The digest is
  taken to be collision-free and the ids to be free of colons, as GoTrue's UUIDs are.
\<close>

theorem recovery_ticket_is_bound:
  assumes "createPasswordRecoveryTicket (Some h) i minted = Inr ticket" and "inj h"
    and "CHR '':'' \<notin> set (rc_user i @ rc_session i)" and "CHR '':'' \<notin> set (rc_user j @ rc_session j)"
    and "0 \<le> minted" and "minted < 2 ^ 60"
  shows "verifyPasswordRecoveryTicket (Some h) (Some ticket) j now
    = Inr (rc_user j = rc_user i \<and> rc_session j = rc_session i \<and> now div 1000 < minted div 1000 + 3600)"
  using assms by (rule ticket_verdict)

definition sample_hmac :: "string \<Rightarrow> byte list" where
  "sample_hmac m = map (\<lambda>c. of_nat (of_char c)) m"

definition recovery_of :: "string \<Rightarrow> recovery_identity" where
  "recovery_of sid = \<lparr>rc_user = ''u1'', rc_session = sid\<rparr>"

lemma sample_hmac_inj: "inj sample_hmac"
proof -
  have u: "unat (of_nat (of_char c) :: byte) = of_char c" for c :: char
    by (simp add: unsigned_of_nat take_bit_nat_eq_self)
  have "inj (\<lambda>c :: char. (of_nat (of_char c) :: byte))"
    by (rule inj_on_inverseI [where g = "\<lambda>w. char_of (unat w)"]) (simp add: u)
  then show ?thesis unfolding sample_hmac_def by (rule inj_mapI)
qed

theorem recovery_ticket_is_bound_witness:
  "\<exists>ticket. createPasswordRecoveryTicket (Some sample_hmac) (recovery_of ''s1'') 5000 = Inr ticket
    \<and> verifyPasswordRecoveryTicket (Some sample_hmac) (Some ticket) (recovery_of ''s1'') 3604999 = Inr True
    \<and> verifyPasswordRecoveryTicket (Some sample_hmac) (Some ticket) (recovery_of ''s1'') 3605000 = Inr False
    \<and> verifyPasswordRecoveryTicket (Some sample_hmac) (Some ticket) (recovery_of ''s2'') 5000 = Inr False"
proof -
  obtain ticket where t: "createPasswordRecoveryTicket (Some sample_hmac) (recovery_of ''s1'') 5000 = Inr ticket"
    by (simp add: createPasswordRecoveryTicket_def signTicket_def Let_def)
  note r = recovery_ticket_is_bound [OF t sample_hmac_inj]
  show ?thesis
    by (intro exI [of _ ticket] conjI t) (subst r; simp add: recovery_of_def)+
qed

text \<open>
  C17. The reset page sets a password only behind an e-mailed link: when the confirm route had GoTrue
  set a password, the session's verified claims name the account whose password it was and carry an
  e-mail-link method, and the cookie verified for that very session; the password is long enough.
\<close>

theorem reset_sets_only_behind_the_link:
  assumes "reset_confirm_POST hmac E A cookie request = Inr (r, Some (uid, password))"
  shows "\<exists>sid. recoverySessionIdentity (jwt_claims E) = Some \<lparr>rc_user = uid, rc_session = sid\<rparr>
    \<and> hasRecoveryAuthMethod (jwt_claims E)
    \<and> verifyPasswordRecoveryTicket hmac cookie \<lparr>rc_user = uid, rc_session = sid\<rparr> (now_ms E) = Inr True
    \<and> jget ''password'' request = Some (JStr password) \<and> 6 \<le> length password \<and> status r = 200"
proof -
  have js: "jstr v = Some p \<Longrightarrow> v = Some (JStr p)" for v p by (cases v rule: jstr.cases) auto
  obtain i where i: "recoverySessionIdentity (jwt_claims E) = Some i" "hasRecoveryAuthMethod (jwt_claims E)"
    and v: "verifyPasswordRecoveryTicket hmac cookie i (now_ms E) = Inr True"
    and p: "parseResetPassword request = Inr password" "uid = rc_user i" "r = ok_resp"
    using assms unfolding reset_confirm_POST_def
    by (auto split: sum.splits option.splits if_splits)
  have "jget ''password'' request = Some (JStr password)" "6 \<le> length password"
    using p(1) js by (auto simp: parseResetPassword_def long_enough_def MIN_PASSWORD_LENGTH_def split: if_splits option.splits)
  moreover obtain sid where sid: "i = \<lparr>rc_user = uid, rc_session = sid\<rparr>" using p(2) by (cases i) simp
  ultimately show ?thesis using i v p(3) unfolding sid by (intro exI [of _ sid] conjI) (simp_all add: ok_resp_def)
qed

definition linked_env :: "string \<Rightarrow> string \<Rightarrow> env" where
  "linked_env sid how = sample_env\<lparr>jwt_claims := Some (JObj [(''sub'', JStr ''u1''), (''session_id'', JStr sid),
     (''email'', JStr ''ada@acme.test''), (''amr'', JArr [JObj [(''method'', JStr how)]])])\<rparr>"

definition sample_passwords :: "json option \<Rightarrow> password_service" where
  "sample_passwords has =
     \<lparr>ps_service_key = True,
      ps_session_user = Some \<lparr>su_id = ''u1'', su_provider = Some ''email'', su_providers = [], su_identities = []\<rparr>,
      ps_has_password = (\<lambda>_. has), ps_sign_in = (\<lambda>email pw. if pw = ''old-one'' then Some ''u1'' else None),
      ps_sign_in_again = (\<lambda>_ _. Some ''u1''), ps_update = (\<lambda>_. True)\<rparr>"

definition sample_cookie :: "string option" where
  "sample_cookie = (case createPasswordRecoveryTicket (Some sample_hmac) (recovery_of ''s1'') 0 of Inl _ \<Rightarrow> None | Inr t \<Rightarrow> Some t)"

definition new_password_body :: json where
  "new_password_body = JObj [(''password'', JStr ''fresh-one'')]"

lemma sample_verdict:
  "verifyPasswordRecoveryTicket (Some sample_hmac) sample_cookie (recovery_of sid) 1000000 = Inr (sid = ''s1'')"
  if "CHR '':'' \<notin> set sid"
proof -
  obtain ticket where t: "createPasswordRecoveryTicket (Some sample_hmac) (recovery_of ''s1'') 0 = Inr ticket"
    by (simp add: createPasswordRecoveryTicket_def signTicket_def Let_def)
  then have "sample_cookie = Some ticket" by (simp add: sample_cookie_def)
  then show ?thesis using ticket_verdict [OF t sample_hmac_inj, of "recovery_of sid" 1000000] that
    by (simp add: recovery_of_def)
qed

lemma linked_claims:
  "recoverySessionIdentity (jwt_claims (linked_env sid how)) = Some (recovery_of sid)"
  "hasRecoveryAuthMethod (jwt_claims (linked_env sid how)) \<longleftrightarrow> List.member RECOVERY_AUTH_METHODS how"
  "now_ms (linked_env sid how) = 1000000"
  by (simp_all add: linked_env_def sample_env_def recoverySessionIdentity_def recovery_of_def hasRecoveryAuthMethod_def
      amr_entries_def amr_method_def)

lemma sample_reset:
  "CHR '':'' \<notin> set sid \<Longrightarrow>
   reset_confirm_POST (Some sample_hmac) (linked_env sid how) (sample_passwords None) sample_cookie new_password_body
     = Inr (if List.member RECOVERY_AUTH_METHODS how \<and> sid = ''s1'' then (ok_resp, Some (''u1'', ''fresh-one'')) else (no_recovery, None))"
proof -
  assume c: "CHR '':'' \<notin> set sid"
  have p: "parseResetPassword new_password_body = Inr ''fresh-one''" by code_simp
  show ?thesis
    by (simp add: reset_confirm_POST_def p linked_claims sample_verdict [OF c] sample_passwords_def) (simp add: recovery_of_def)
qed

theorem reset_sets_only_behind_the_link_witness:
  "(\<exists>sid. recoverySessionIdentity (jwt_claims (linked_env ''s1'' ''otp'')) = Some \<lparr>rc_user = ''u1'', rc_session = sid\<rparr>
      \<and> verifyPasswordRecoveryTicket (Some sample_hmac) sample_cookie \<lparr>rc_user = ''u1'', rc_session = sid\<rparr> 1000000 = Inr True)
   \<and> reset_confirm_POST (Some sample_hmac) (linked_env ''s2'' ''otp'') (sample_passwords None) sample_cookie new_password_body
      = Inr (no_recovery, None)
   \<and> reset_confirm_POST (Some sample_hmac) (linked_env ''s1'' ''password'') (sample_passwords None) sample_cookie new_password_body
      = Inr (no_recovery, None)"
proof (intro conjI)
  have r: "reset_confirm_POST (Some sample_hmac) (linked_env ''s1'' ''otp'') (sample_passwords None) sample_cookie new_password_body
      = Inr (ok_resp, Some (''u1'', ''fresh-one''))" by (simp add: sample_reset RECOVERY_AUTH_METHODS_def)
  show "\<exists>sid. recoverySessionIdentity (jwt_claims (linked_env ''s1'' ''otp'')) = Some \<lparr>rc_user = ''u1'', rc_session = sid\<rparr>
      \<and> verifyPasswordRecoveryTicket (Some sample_hmac) sample_cookie \<lparr>rc_user = ''u1'', rc_session = sid\<rparr> 1000000 = Inr True"
    using reset_sets_only_behind_the_link [OF r] unfolding linked_claims(3) by blast
qed (simp_all add: sample_reset RECOVERY_AUTH_METHODS_def)

text \<open>
  C19. A signed-in session alone does not replace a password: when the change route had GoTrue set a
  password, it was the session user's own, two equal texts of at least six characters gave it, and
  either the account has an e-mail identity and verifiably no password, or the current password
  was given and signed in as that same user in a session that itself began with a password.
\<close>

theorem password_change_needs_proof:
  assumes "change_password_POST E A request = (r, Some (uid, password))"
  shows "\<exists>email. Option.bind (jwt_claims E) authenticatedUserFromClaims = Some \<lparr>usr_id = uid, usr_email = Some email\<rparr>
    \<and> map_option su_id (ps_session_user A) = Some uid \<and> hasPasswordIdentity (ps_session_user A) \<and> 6 \<le> length password
    \<and> (checkEmailHasPassword A email = Some False
       \<or> (\<exists>current. jget ''currentPassword'' request = Some (JStr current) \<and> current \<noteq> password
            \<and> ps_sign_in A email current = Some uid \<and> hasPasswordAuthMethod (jwt_claims E)))"
proof -
  have js: "jstr v = Some p \<Longrightarrow> v = Some (JStr p)" for v p by (cases v rule: jstr.cases) auto
  obtain payload user email where p: "parseChangePasswordPayload request = Inr payload"
    and u: "Option.bind (jwt_claims E) authenticatedUserFromClaims = Some user" "usr_email user = Some email"
    and su: "map_option su_id (ps_session_user A) = Some (usr_id user)"
    and rest: "(if hasPasswordIdentity (ps_session_user A) \<and> checkEmailHasPassword A email = Some False
                    then (if ps_update A (cp_new payload) then (ok_resp, Some (usr_id user, cp_new payload))
                          else (error_resp ''Unable to set the password. Please try again.'' 422, None))
                    else if \<not> canChangePasswordForSession (ps_session_user A) (jwt_claims E) then (not_a_password_account, None)
                    else (case cp_current payload of
                            None \<Rightarrow> (error_resp ''Current password is required.'' 400, None)
                          | Some current \<Rightarrow> replace_password A user email current (cp_new payload))) = (r, Some (uid, password))"
    using assms unfolding change_password_POST_def by (auto split: sum.splits option.splits if_splits)
  have pw: "password = cp_new payload \<and> uid = usr_id user"
    using rest by (auto simp: replace_password_def split: if_splits option.splits)
  have len: "6 \<le> length (cp_new payload)"
    and cur: "\<And>c. cp_current payload = Some c \<Longrightarrow> jget ''currentPassword'' request = Some (JStr c) \<and> c \<noteq> cp_new payload"
    using p js by (auto simp: parseChangePasswordPayload_def long_enough_def MIN_PASSWORD_LENGTH_def Let_def split: if_splits option.splits)
  have proof_given: "checkEmailHasPassword A email = Some False \<or> (\<exists>c. cp_current payload = Some c
      \<and> ps_sign_in A email c = Some (usr_id user) \<and> hasPasswordAuthMethod (jwt_claims E))" "hasPasswordIdentity (ps_session_user A)"
    using rest by (auto simp: replace_password_def canChangePasswordForSession_def split: if_splits option.splits)
  have "user = \<lparr>usr_id = uid, usr_email = Some email\<rparr>" using pw u(2) by (cases user) simp
  then have first: "Option.bind (jwt_claims E) authenticatedUserFromClaims = Some \<lparr>usr_id = uid, usr_email = Some email\<rparr>"
    using u(1) by simp
  have last: "checkEmailHasPassword A email = Some False
       \<or> (\<exists>current. jget ''currentPassword'' request = Some (JStr current) \<and> current \<noteq> password
            \<and> ps_sign_in A email current = Some uid \<and> hasPasswordAuthMethod (jwt_claims E))"
    using proof_given(1) cur pw by metis
  show ?thesis
    by (intro exI [of _ email] conjI first last) (use su pw len proof_given(2) in simp_all)
qed

definition change_body :: "string \<Rightarrow> json" where
  "change_body current = JObj [(''currentPassword'', JStr current), (''newPassword'', JStr ''fresh-one''), (''confirmPassword'', JStr ''fresh-one'')]"

theorem password_change_needs_proof_witness:
  "ps_sign_in (sample_passwords (Some (JBool True))) ''ada@acme.test'' ''old-one'' = Some ''u1''
   \<and> snd (change_password_POST sample_env (sample_passwords (Some (JBool True))) (change_body ''old-one'')) = Some (''u1'', ''fresh-one'')
   \<and> snd (change_password_POST sample_env (sample_passwords (Some (JBool True))) (change_body ''bad-one'')) = None
   \<and> snd (change_password_POST sample_env (sample_passwords None) (change_body '''')) = None"
proof (intro conjI)
  let ?A = "sample_passwords (Some (JBool True))"
  show c: "snd (change_password_POST sample_env ?A (change_body ''old-one'')) = Some (''u1'', ''fresh-one'')" by code_simp
  then obtain r where "change_password_POST sample_env ?A (change_body ''old-one'') = (r, Some (''u1'', ''fresh-one''))"
    by (metis prod.collapse)
  from password_change_needs_proof [OF this] obtain email where
    e: "Option.bind (jwt_claims sample_env) authenticatedUserFromClaims = Some \<lparr>usr_id = ''u1'', usr_email = Some email\<rparr>"
    and d: "checkEmailHasPassword ?A email = Some False \<or> (\<exists>current. jget ''currentPassword'' (change_body ''old-one'') = Some (JStr current)
       \<and> ps_sign_in ?A email current = Some ''u1'')" by blast
  have "email = ''ada@acme.test''" using e by (simp add: sample_env_def authenticatedUserFromClaims_def)
  with d show "ps_sign_in ?A ''ada@acme.test'' ''old-one'' = Some ''u1''"
    by (auto simp: checkEmailHasPassword_def emailHasPassword_def sample_passwords_def change_body_def)
qed code_simp+

end
