(* ===== verification/Oauth_Callback.thy ===== *)
theory Oauth_Callback
  imports Password_Recovery
begin

text \<open>
  The end of every browser sign-in, \<open>app/auth/callback/route.ts\<close>, with \<open>deleteUnprovisionedUser\<close> of
  \<open>lib/auth/admin.ts\<close>: a provider code or an e-mailed token becomes a session, unless the account is
  an unlinked duplicate, cannot be verified, or is a fresh sign-up no organization took.

  The result says where the browser goes, whether a session established by GoTrue stays on the
  response, which account was handed to GoTrue for deletion and the
  recovery cookie. What GoTrue answers are the arguments \<open>exchange\<close> and \<open>verify\<close>. A successful one
  leaves the session's cookies on the response; only \<open>signOut()\<close> takes them off again, and only when
  GoTrue acknowledges it: on an error the client keeps the session and returns the error, which
  the route ignores. The fault \<open>auth.signOut\<close> of the environment is that error.
\<close>

section \<open>State of a sign-in\<close>

record oauth_user =
  ou_id :: string
  ou_email :: "string option"
  ou_created :: "jsnum option"
  ou_providers :: "string list"

datatype target = To_next string | To_signin string

record callback_result =
  cb_target :: target
  cb_session :: bool
  cb_deleted :: "string option"
  cb_ticket :: "string option"

record callback_params =
  q_next :: "string option"
  q_error :: "string option"
  q_error_code :: "string option"
  q_error_description :: "string option"
  q_code :: "string option"
  q_token_hash :: "string option"
  q_type :: "string option"

record established =
  es_user :: string
  es_created :: "jsnum option"
  es_recovery :: "string option"

definition FRESH_SIGNUP_WINDOW_MS :: int where "FRESH_SIGNUP_WINDOW_MS = 10 * 60 * 1000"

definition fresh :: "int \<Rightarrow> jsnum \<Rightarrow> bool" where
  "fresh now created = js_lt (js_sub (js_int now) created) (js_int FRESH_SIGNUP_WINDOW_MS)"

definition turned_away :: "string \<Rightarrow> string option \<Rightarrow> callback_result" where
  "turned_away errcode deleted =
     \<lparr>cb_target = To_signin errcode, cb_session = False, cb_deleted = deleted, cb_ticket = None\<rparr>"

text \<open>The answer of a branch whose session GoTrue has established, without and with a call of \<open>signOut()\<close>.\<close>

definition still_signed_in :: "callback_result \<Rightarrow> callback_result" where
  "still_signed_in r = r\<lparr>cb_session := True\<rparr>"

definition after_signOut :: "env \<Rightarrow> callback_result \<Rightarrow> callback_result" where
  "after_signOut E r =
     (let seated = still_signed_in r
      in case faults E ''auth.signOut'' of None \<Rightarrow> seated\<lparr>cb_session := False\<rparr> | Some _ \<Rightarrow> seated)"

section \<open>The steps\<close>

definition classifyProviderError :: "string \<Rightarrow> string option \<Rightarrow> string option \<Rightarrow> string" where
  "classifyProviderError err errCode description =
     (let conflictCodes = [''email_exists'', ''user_already_exists'', ''identity_already_exists'', ''manual_linking_disabled''];
          haystack = toLowerCase (err @ '' '' @ (case description of None \<Rightarrow> '''' | Some d \<Rightarrow> d))
      in if (case errCode of None \<Rightarrow> False | Some c \<Rightarrow> List.member conflictCodes c) then ''account_exists''
         else if list_ex (str_includes haystack)
                   [''already registered'', ''already exists'', ''already been registered'', ''identity is already linked'']
         then ''account_exists''
         else ''oauth_failed'')"

datatype classification = Safe | Duplicate | Unverifiable

definition classifyOAuthUser :: "env \<Rightarrow> auth_service \<Rightarrow> oauth_user \<Rightarrow> classification" where
  "classifyOAuthUser E A user =
     (case (ou_email user, ou_created user) of
        (Some email, Some created) \<Rightarrow>
          if \<not> fresh (now_ms E) created then Safe
          else (case (if service_key A then signinMethodsForEmail A email else None) of
                  None \<Rightarrow> Unverifiable
                | Some methods \<Rightarrow>
                    if list_ex (\<lambda>m. \<not> List.member (ou_providers user) m) methods then Duplicate else Safe)
      | _ \<Rightarrow> Safe)"

definition own_memberships :: "string \<Rightarrow> db \<Rightarrow> nat" where
  "own_memberships uid s = length (filter (\<lambda>m. m_user m = uid) (members s))"

definition deleteUnprovisionedUser :: "env \<Rightarrow> auth_service \<Rightarrow> string \<Rightarrow> string option act" where
  "deleteUnprovisionedUser E A uid =
     catching
       (bind (createServiceRoleSupabaseClient A) (\<lambda>_.
        bind (query (faults E ''organization_members.recount'') (own_memberships uid)) (\<lambda>r.
        case r of
          Inl _ \<Rightarrow> ret None
        | Inr n \<Rightarrow>
            if 0 < n then ret None
            else bind (modify (remote_effect (delete_user A uid))) (\<lambda>_. ret (Some uid)))))
       (\<lambda>_. ret None)"

definition establish_code :: "env \<Rightarrow> auth_service \<Rightarrow> (string \<Rightarrow> oauth_user option) \<Rightarrow> string \<Rightarrow> (callback_result + established) act" where
  "establish_code E A exchange c =
     (case exchange c of
        None \<Rightarrow> ret (Inl (turned_away ''oauth_failed'' None))
      | Some user \<Rightarrow>
          (case classifyOAuthUser E A user of
             Duplicate \<Rightarrow>
               bind (deleteUnprovisionedUser E A (ou_id user)) (\<lambda>d. ret (Inl (after_signOut E (turned_away ''account_exists'' d))))
           | Unverifiable \<Rightarrow> ret (Inl (after_signOut E (turned_away ''oauth_failed'' None)))
           | Safe \<Rightarrow> ret (Inr \<lparr>es_user = ou_id user, es_created = ou_created user, es_recovery = None\<rparr>)))"

definition establish_token ::
    "env \<Rightarrow> (string \<Rightarrow> json option) \<Rightarrow> (string \<Rightarrow> string \<Rightarrow> (oauth_user \<times> string option) option) \<Rightarrow> string \<Rightarrow> string \<Rightarrow> callback_result + established" where
  "establish_token E json_parse verify hash otpType =
     (case verify hash otpType of
        None \<Rightarrow> Inl (turned_away ''invite_invalid'' None)
      | Some (user, accessToken) \<Rightarrow>
          (let e = \<lparr>es_user = ou_id user, es_created = ou_created user, es_recovery = None\<rparr> in
           if otpType = ''recovery''
           then (case sessionIdFromAccessToken json_parse accessToken of
                   None \<Rightarrow> Inl (after_signOut E (turned_away ''invite_invalid'' None))
                 | Some sid \<Rightarrow> Inr (e\<lparr>es_recovery := Some sid\<rparr>))
           else Inr e))"

definition admit :: "(string \<Rightarrow> byte list) option \<Rightarrow> env \<Rightarrow> auth_service \<Rightarrow> string \<Rightarrow> established \<Rightarrow> callback_result act" where
  "admit hmac E A path e =
     bind (createServiceRoleSupabaseClient A) (\<lambda>_.
     bind (unlockSpendOnInboxProof E (es_user e)) (\<lambda>_.
     let seated = \<lparr>cb_target = To_next path, cb_session = True, cb_deleted = None, cb_ticket = None\<rparr> in
     case es_recovery e of
       None \<Rightarrow> ret seated
     | Some sid \<Rightarrow>
         (case createPasswordRecoveryTicket hmac \<lparr>rc_user = es_user e, rc_session = sid\<rparr> (now_ms E) of
            Inl err \<Rightarrow> throw err
          | Inr ticket \<Rightarrow> ret (seated\<lparr>cb_ticket := Some ticket\<rparr>))))"

definition provisioned :: "(string \<Rightarrow> byte list) option \<Rightarrow> env \<Rightarrow> auth_service \<Rightarrow> string \<Rightarrow> established \<Rightarrow> callback_result act" where
  "provisioned hmac E A path e =
     bind (query (faults E ''organization_members.count'') (own_memberships (es_user e))) (\<lambda>r.
     case r of
       Inl _ \<Rightarrow> ret (after_signOut E (turned_away ''oauth_failed'' None))
     | Inr n \<Rightarrow>
         if n = 0 \<and> (case es_created e of None \<Rightarrow> False | Some c \<Rightarrow> fresh (now_ms E) c)
         then bind (deleteUnprovisionedUser E A (es_user e)) (\<lambda>d. ret (after_signOut E (turned_away ''signup_disabled'' d)))
         else admit hmac E A path e)"

definition given :: "string option \<Rightarrow> string option" where
  "given v = (case v of Some (c # cs) \<Rightarrow> Some (c # cs) | _ \<Rightarrow> None)"

definition callback_GET ::
    "(string \<Rightarrow> byte list) option \<Rightarrow> (string \<Rightarrow> json option) \<Rightarrow> env \<Rightarrow> auth_service \<Rightarrow> (string \<Rightarrow> oauth_user option)
     \<Rightarrow> (string \<Rightarrow> string \<Rightarrow> (oauth_user \<times> string option) option) \<Rightarrow> callback_params \<Rightarrow> callback_result act" where
  "callback_GET hmac json_parse E A exchange verify q =
     (case q_error q of
        Some err \<Rightarrow> ret (turned_away (classifyProviderError err (q_error_code q) (q_error_description q)) None)
      | None \<Rightarrow>
          bind (case (given (q_code q), given (q_token_hash q), given (q_type q)) of
                  (Some c, _, _) \<Rightarrow> establish_code E A exchange c
                | (None, Some hash, Some otpType) \<Rightarrow> ret (establish_token E json_parse verify hash otpType)
                | _ \<Rightarrow> ret (Inl (turned_away ''oauth_failed'' None))) (\<lambda>p.
          case p of
            Inl r \<Rightarrow> ret r
          | Inr e \<Rightarrow>
              if es_user e = '''' then ret (still_signed_in (turned_away ''oauth_failed'' None))
              else provisioned hmac E A (safeNextPath (q_next q)) e))"

section \<open>Lemmas\<close>

lemma turned_away_sel [simp]:
  "cb_session (turned_away c d) = False" "cb_deleted (turned_away c d) = d" "cb_ticket (turned_away c d) = None"
  "cb_target (turned_away c d) = To_signin c"
  by (simp_all add: turned_away_def)

lemma after_signOut_sel [simp]:
  "cb_session (after_signOut E r) = (faults E ''auth.signOut'' \<noteq> None)" "cb_deleted (after_signOut E r) = cb_deleted r"
  "cb_ticket (after_signOut E r) = cb_ticket r" "cb_target (after_signOut E r) = cb_target r"
  by (simp_all add: after_signOut_def still_signed_in_def Let_def split: option.split)

text \<open>A refusal: the browser is sent to sign in without a ticket, and a session stays only when the sign-out failed.\<close>

definition refusal :: "env \<Rightarrow> callback_result \<Rightarrow> bool" where
  "refusal E r \<longleftrightarrow> (cb_session r \<longrightarrow> faults E ''auth.signOut'' \<noteq> None) \<and> (\<exists>c. cb_target r = To_signin c) \<and> cb_ticket r = None"

lemma refusal_turned_away [simp]: "refusal E (turned_away c d)" "refusal E (after_signOut E (turned_away c d))"
  by (simp_all add: refusal_def)

lemma deleteUnprovisioned_result:
  assumes "deleteUnprovisionedUser E A uid s = (Inr d, t)"
  shows "d = None \<or> (d = Some uid \<and> own_memberships uid s = 0)"
  using assms by (auto simp: deleteUnprovisionedUser_def createServiceRoleSupabaseClient_def act_simps read_db_def
      split: sum.splits if_splits option.splits fault.splits)

lemma admit_result:
  assumes "admit hmac E A path e s = (Inr r, t)"
  shows "cb_target r = To_next path \<and> cb_session r \<and> cb_deleted r = None
    \<and> (case es_recovery e of None \<Rightarrow> cb_ticket r = None
       | Some sid \<Rightarrow> \<exists>k. cb_ticket r = Some k
           \<and> createPasswordRecoveryTicket hmac \<lparr>rc_user = es_user e, rc_session = sid\<rparr> (now_ms E) = Inr k)"
  using assms unfolding admit_def Let_def
  by (auto elim!: bind_InrE split: option.splits sum.splits)

lemma provisioned_result:
  assumes "provisioned hmac E A path e s = (Inr r, t)"
  shows "(refusal E r \<or> cb_target r = To_next path \<and> cb_deleted r = None
      \<and> (0 < own_memberships (es_user e) s \<or> \<not> (\<exists>c. es_created e = Some c \<and> fresh (now_ms E) c)))
    \<and> (\<forall>u. cb_deleted r = Some u \<longrightarrow> cb_session r = (faults E ''auth.signOut'' \<noteq> None) \<and> u = es_user e \<and> own_memberships u s = 0 \<and> (\<exists>c. es_created e = Some c \<and> fresh (now_ms E) c))
    \<and> (\<forall>k. cb_ticket r = Some k \<longrightarrow> (\<exists>sid. es_recovery e = Some sid
        \<and> createPasswordRecoveryTicket hmac \<lparr>rc_user = es_user e, rc_session = sid\<rparr> (now_ms E) = Inr k))"
proof -
  obtain n where n: "n = read_db (faults E ''organization_members.count'') (own_memberships (es_user e)) s"
    and rest: "(case n of Inl _ \<Rightarrow> ret (after_signOut E (turned_away ''oauth_failed'' None))
     | Inr n \<Rightarrow>
         if n = 0 \<and> (case es_created e of None \<Rightarrow> False | Some c \<Rightarrow> fresh (now_ms E) c)
         then bind (deleteUnprovisionedUser E A (es_user e)) (\<lambda>d. ret (after_signOut E (turned_away ''signup_disabled'' d)))
         else admit hmac E A path e) s = (Inr r, t)"
    using assms by (simp add: provisioned_def bind_apply)
  show ?thesis
  proof (cases n)
    case (Inl err)
    then show ?thesis using rest by auto
  next
    case (Inr k)
    then have k: "k = own_memberships (es_user e) s" using n by (metis read_db_InrD)
    show ?thesis
    proof (cases "k = 0 \<and> (case es_created e of None \<Rightarrow> False | Some c \<Rightarrow> fresh (now_ms E) c)")
      case True
      then have "bind (deleteUnprovisionedUser E A (es_user e)) (\<lambda>d. ret (after_signOut E (turned_away ''signup_disabled'' d))) s = (Inr r, t)"
        using rest Inr by simp
      then obtain d t' where "deleteUnprovisionedUser E A (es_user e) s = (Inr d, t')" and r: "r = after_signOut E (turned_away ''signup_disabled'' d)"
        by (auto elim!: bind_InrE)
      from deleteUnprovisioned_result [OF this(1)] show ?thesis using True r by (auto split: option.splits)
    next
      case False
      then have "admit hmac E A path e s = (Inr r, t)" using rest Inr by (simp only: sum.case if_False)
      from admit_result [OF this] show ?thesis using False k by (auto split: option.splits)
    qed
  qed
qed

section \<open>What a sign-in may do\<close>

text \<open>The account a request brings, before the provisioning gate.\<close>

definition brings :: "(string \<Rightarrow> oauth_user option) \<Rightarrow> (string \<Rightarrow> string \<Rightarrow> (oauth_user \<times> string option) option)
    \<Rightarrow> callback_params \<Rightarrow> oauth_user \<Rightarrow> bool" where
  "brings exchange verify q user \<longleftrightarrow> q_error q = None \<and>
     (case (given (q_code q), given (q_token_hash q), given (q_type q)) of
        (Some c, _, _) \<Rightarrow> exchange c = Some user
      | (None, Some hash, Some ty) \<Rightarrow> \<exists>tok. verify hash ty = Some (user, tok)
      | _ \<Rightarrow> False)"

lemma classify_Safe:
  assumes "classifyOAuthUser E A user = Safe" "ou_email user = Some email" "ou_created user = Some c" "fresh (now_ms E) c"
  shows "\<exists>ms. signinMethodsForEmail A email = Some ms \<and> set ms \<subseteq> set (ou_providers user)"
  using assms by (auto simp: classifyOAuthUser_def list_ex_iff split: if_splits option.splits)

lemma classify_Duplicate:
  "classifyOAuthUser E A user = Duplicate \<Longrightarrow> \<exists>c. ou_created user = Some c \<and> fresh (now_ms E) c"
  by (auto simp: classifyOAuthUser_def split: if_splits option.splits)

lemma establish_code_cases:
  assumes "establish_code E A exchange c s = (Inr p, t)"
  obtains (refused) r where "p = Inl r" "refusal E r" "cb_deleted r = None"
    | (duplicate) user d r where "p = Inl r" "exchange c = Some user" "classifyOAuthUser E A user = Duplicate"
        "refusal E r" "cb_session r = (faults E ''auth.signOut'' \<noteq> None)" "cb_deleted r = d" "d = None \<or> (d = Some (ou_id user) \<and> own_memberships (ou_id user) s = 0)"
    | (safe) user where "p = Inr \<lparr>es_user = ou_id user, es_created = ou_created user, es_recovery = None\<rparr>"
        "t = s" "exchange c = Some user" "classifyOAuthUser E A user = Safe"
proof (cases "exchange c")
  case None
  then show thesis using assms refused by (auto simp: establish_code_def)
next
  case (Some user)
  show thesis
  proof (cases "classifyOAuthUser E A user")
    case Safe
    then show thesis using assms Some safe by (auto simp: establish_code_def)
  next
    case Duplicate
    then have "bind (deleteUnprovisionedUser E A (ou_id user)) (\<lambda>d. ret (Inl (after_signOut E (turned_away ''account_exists'' d)))) s = (Inr p, t)"
      using assms Some by (simp add: establish_code_def)
    then obtain d u where "deleteUnprovisionedUser E A (ou_id user) s = (Inr d, u)" and "p = Inl (after_signOut E (turned_away ''account_exists'' d))"
      by (auto elim!: bind_InrE)
    then show thesis using duplicate [of "after_signOut E (turned_away ''account_exists'' d)" user d] deleteUnprovisioned_result Some Duplicate by simp
  next
    case Unverifiable
    then show thesis using assms Some refused by (auto simp: establish_code_def)
  qed
qed

lemma establish_token_cases:
  assumes "establish_token E jp verify hash ty = p"
  obtains (refused) r where "p = Inl r" "refusal E r" "cb_deleted r = None"
    | (session) user tok e where "p = Inr e" "verify hash ty = Some (user, tok)" "es_user e = ou_id user"
        "es_created e = ou_created user"
  using assms by (auto simp: establish_token_def Let_def split: option.splits if_splits)

text \<open>Every answer comes from one of three places: a refusal, the duplicate guard, the provisioning gate.\<close>

lemma callback_cases:
  assumes "callback_GET hmac jp E A exchange verify q s = (Inr r, t)"
  obtains (refused) "refusal E r" "cb_deleted r = None"
    | (nameless) user where "brings exchange verify q user" "ou_id user = ''''" "cb_deleted r = None"
    | (duplicate) user where "brings exchange verify q user" "classifyOAuthUser E A user = Duplicate"
        "refusal E r" "cb_session r = (faults E ''auth.signOut'' \<noteq> None)"
        "\<forall>u. cb_deleted r = Some u \<longrightarrow> u = ou_id user \<and> own_memberships u s = 0"
    | (gate) user e where "brings exchange verify q user" "es_user e = ou_id user" "es_created e = ou_created user"
        "ou_id user \<noteq> ''''" "given (q_code q) \<noteq> None \<longrightarrow> classifyOAuthUser E A user = Safe"
        "provisioned hmac E A (safeNextPath (q_next q)) e s = (Inr r, t)"
proof (cases "q_error q")
  case (Some err)
  then show thesis using assms refused by (auto simp: callback_GET_def)
next
  case ok: None
  let ?rest = "\<lambda>p. case p of Inl r \<Rightarrow> ret r | Inr e \<Rightarrow>
    if es_user e = '''' then ret (still_signed_in (turned_away ''oauth_failed'' None)) else provisioned hmac E A (safeNextPath (q_next q)) e"
  show thesis
  proof (cases "given (q_code q)")
    case (Some c)
    then obtain p u where e: "establish_code E A exchange c s = (Inr p, u)" and k: "?rest p u = (Inr r, t)"
      using assms ok by (auto simp: callback_GET_def elim!: bind_InrE)
    from e show thesis
    proof (cases rule: establish_code_cases)
      case refused
      then show thesis using k that(1) by simp
    next
      case (duplicate user d r')
      then show thesis using k that(3) [of user] ok Some by (auto simp: brings_def)
    next
      case (safe user)
      show thesis
      proof (cases "ou_id user = ''''")
        case True
        then have "r = still_signed_in (turned_away ''oauth_failed'' None)" using k safe by simp
        then show thesis using that(2) [of user] True safe ok Some by (simp add: brings_def still_signed_in_def)
      next
        case False
        show thesis by (rule that(4) [of user "\<lparr>es_user = ou_id user, es_created = ou_created user, es_recovery = None\<rparr>"])
          (use False safe k ok Some in \<open>simp_all add: brings_def\<close>)
      qed
    qed
  next
    case code: None
    show thesis
    proof (cases "\<exists>hash ty. given (q_token_hash q) = Some hash \<and> given (q_type q) = Some ty")
      case True
      then obtain hash ty where g: "given (q_token_hash q) = Some hash" "given (q_type q) = Some ty" by blast
      obtain p where e: "establish_token E jp verify hash ty = p" by blast
      then have k: "?rest p s = (Inr r, t)" using assms ok code g by (simp add: callback_GET_def)
      from e show thesis
      proof (cases rule: establish_token_cases)
        case refused
        then show thesis using k that(1) by simp
      next
        case (session user tok est)
        show thesis
        proof (cases "ou_id user = ''''")
          case True
          then have "r = still_signed_in (turned_away ''oauth_failed'' None)" using k session by simp
          then show thesis using that(2) [of user] True session ok code g by (simp add: brings_def still_signed_in_def)
        next
          case False
          show thesis by (rule that(4) [of user est]) (use False session k ok code g in \<open>simp_all add: brings_def\<close>)
        qed
      qed
    next
      case False
      then have "r = turned_away ''oauth_failed'' None"
        using assms ok code by (cases "given (q_token_hash q)"; cases "given (q_type q)") (auto simp: callback_GET_def)
      then show thesis using that(1) by simp
    qed
  qed
qed

text \<open>What GoTrue documents of the accounts it answers with: their ids are UUIDs, so never empty.\<close>

definition accounts_are_named :: "(string \<Rightarrow> oauth_user option) \<Rightarrow> (string \<Rightarrow> string \<Rightarrow> (oauth_user \<times> string option) option) \<Rightarrow> bool" where
  "accounts_are_named exchange verify \<longleftrightarrow>
     (\<forall>c user. exchange c = Some user \<longrightarrow> ou_id user \<noteq> '''')
     \<and> (\<forall>hash ty user tok. verify hash ty = Some (user, tok) \<longrightarrow> ou_id user \<noteq> '''')"

lemma named_brings: "accounts_are_named exchange verify \<Longrightarrow> brings exchange verify q user \<Longrightarrow> ou_id user \<noteq> ''''"
  unfolding accounts_are_named_def brings_def
  by (cases "given (q_code q)"; cases "given (q_token_hash q)"; cases "given (q_type q)") (simp_all, blast+)


text \<open>
  The callback deletes only orphans of a first sign-in: the account it hands over for deletion is
  the one the request brought, was created within the last ten minutes, had no membership, and its
  session does not survive unless GoTrue refused the sign-out.
\<close>

theorem callback_deletes_only_orphans:
  assumes "callback_GET hmac jp E A exchange verify q s = (Inr r, t)" and "cb_deleted r = Some u"
  shows "\<exists>user c. brings exchange verify q user \<and> u = ou_id user \<and> ou_created user = Some c
    \<and> fresh (now_ms E) c \<and> own_memberships u s = 0 \<and> cb_session r = (faults E ''auth.signOut'' \<noteq> None)"
  using assms(1)
proof (cases rule: callback_cases)
  case (duplicate user)
  then show ?thesis using assms(2) classify_Duplicate by blast
next
  case (gate user e)
  from provisioned_result [OF gate(6)] assms(2) gate(1-3) show ?thesis by auto
qed (use assms(2) in simp_all)

definition sample_link :: "string \<Rightarrow> callback_params" where
  "sample_link c = \<lparr>q_next = Some ''/keys'', q_error = None, q_error_code = None, q_error_description = None,
     q_code = Some c, q_token_hash = None, q_type = None\<rparr>"

definition sample_exchange :: "string \<Rightarrow> oauth_user option" where
  "sample_exchange c =
     (if c = ''known'' then Some \<lparr>ou_id = ''u1'', ou_email = Some ''ada@acme.test'', ou_created = Some (js_int 0), ou_providers = [''google'']\<rparr>
      else if c = ''orphan'' then Some \<lparr>ou_id = ''u9'', ou_email = Some ''zoe@new.test'', ou_created = Some (js_int 999000), ou_providers = [''google'']\<rparr>
      else if c = ''clash'' then Some \<lparr>ou_id = ''u8'', ou_email = Some ''Ada@acme.test'', ou_created = Some (js_int 999000), ou_providers = [''google'']\<rparr>
      else None)"

definition sample_callback :: "string \<Rightarrow> (app_error + callback_result) \<times> db" where
  "sample_callback c = callback_GET None (\<lambda>_. None) (sample_env\<lparr>now_ms := 1000000\<rparr>) (sample_auth [''Ada@acme.test''])
     sample_exchange (\<lambda>_ _. None) (sample_link c) sample_db"


theorem callback_deletes_only_orphans_witness:
  "fst (sample_callback ''orphan'') = Inr (turned_away ''signup_disabled'' (Some ''u9''))
   \<and> fst (sample_callback ''clash'') = Inr (turned_away ''account_exists'' (Some ''u8''))
   \<and> own_memberships ''u8'' sample_db = 0 \<and> own_memberships ''u9'' sample_db = 0"
proof -
  have o: "fst (sample_callback ''orphan'') = Inr (turned_away ''signup_disabled'' (Some ''u9''))" by code_simp
  have k: "fst (sample_callback ''clash'') = Inr (turned_away ''account_exists'' (Some ''u8''))" by code_simp
  have "\<And>c r u. fst (sample_callback c) = Inr r \<Longrightarrow> cb_deleted r = Some u \<Longrightarrow> own_memberships u sample_db = 0"
    using callback_deletes_only_orphans unfolding sample_callback_def by (metis prod.collapse)
  from this [OF o] this [OF k] o k show ?thesis by simp
qed

text \<open>
  The route ignores what \<open>signOut()\<close> returns: when GoTrue cannot be reached for it, the browser of
  a duplicate account, of an uninvited sign-up or of a sign-in whose provisioning could not be
  read goes to the sign-in page with the session's cookies still set.
\<close>

definition unanswered_sign_out :: "string \<Rightarrow> (app_error + callback_result) \<times> db" where
  "unanswered_sign_out c = callback_GET None (\<lambda>_. None)
     (sample_env\<lparr>now_ms := 1000000, faults := (\<lambda>f. if f = ''auth.signOut'' then Some (Refused \<lparr>code = None, message = ''unreachable''\<rparr>) else None)\<rparr>)
     (sample_auth [''Ada@acme.test'']) sample_exchange (\<lambda>_ _. None) (sample_link c) sample_db"

theorem an_unanswered_sign_out_keeps_the_session:
  "fst (unanswered_sign_out ''orphan'') = Inr (still_signed_in (turned_away ''signup_disabled'' (Some ''u9'')))
   \<and> fst (unanswered_sign_out ''clash'') = Inr (still_signed_in (turned_away ''account_exists'' (Some ''u8'')))"
  by code_simp

end
