(* ===== verification/Operators.thy ===== *)
theory Operators
  imports Members Api_Keys
begin

text \<open>
  The operator panel's authority over accounts: banning organizations and accounts
  (\<open>app/api/admin/orgs/[orgId]/ban/route.ts\<close>, \<open>app/api/admin/users/[userId]/ban/route.ts\<close> with the SQL
  functions of the migrations \<open>20260829120000\<close>, \<open>20260829160000\<close> and \<open>20260829180000\<close>), granting and
  revoking operator status (\<open>app/api/admin/users/[userId]/site-admin/route.ts\<close>) and the superadmin
  machine keys (\<open>lib/admin/superadmin-keys.ts\<close>).

  A column \<open>banned_at\<close>, a roster row and GoTrue's \<open>banned_until\<close> must agree; keys and invitations die
  with a ban and stay dead; unbanning frees exactly who the ban swept. The theorems hold over
  histories that interleave these requests with the key and membership requests of the other
  theories. GoTrue's session table is not modelled.
\<close>

section \<open>Bans in the database\<close>

definition sql_trim :: "string \<Rightarrow> string" where
  "sql_trim x = rev (dropWhile (\<lambda>c. c = CHR '' '') (rev (dropWhile (\<lambda>c. c = CHR '' '') x)))"

definition reason_ok :: "string \<Rightarrow> bool" where
  "reason_ok reason \<longleftrightarrow> 1 \<le> length (sql_trim reason) \<and> length (sql_trim reason) \<le> 500"

definition reason_check_violation :: dberror where
  "reason_check_violation = \<lparr>code = Some ''23514'', message = ''new row violates check constraint on reason''\<rparr>"

definition apply_user_ban :: "string \<Rightarrow> string \<Rightarrow> string \<Rightarrow> int \<Rightarrow> db \<Rightarrow> db" where
  "apply_user_ban uid actor reason now s = s\<lparr>
     user_bans :=
       (if list_ex (\<lambda>b. b_user b = uid) (user_bans s)
        then update_where (\<lambda>b. b_user b = uid) (\<lambda>b. b\<lparr>b_reason := reason, b_banned_by := actor, b_at := now\<rparr>) (user_bans s)
        else user_bans s @ [\<lparr>b_user = uid, b_reason = reason, b_banned_by = actor, b_at = now, b_via_org = None\<rparr>]),
     api_keys := update_where (\<lambda>k. k_created_by k = uid \<and> k_revoked_at k = None) (\<lambda>k. k\<lparr>k_revoked_at := Some now\<rparr>) (api_keys s),
     superadmin_keys := update_where (\<lambda>k. pk_user k = uid \<and> pk_revoked_at k = None) (\<lambda>k. k\<lparr>pk_revoked_at := Some now\<rparr>) (superadmin_keys s),
     users := update_where (\<lambda>u. u_id u = uid) (\<lambda>u. u\<lparr>u_banned := True\<rparr>) (users s)\<rparr>"

definition record_user_ban :: "string \<Rightarrow> string \<Rightarrow> string \<Rightarrow> int \<Rightarrow> db \<Rightarrow> dberror + (unit \<times> db)" where
  "record_user_ban uid actor reason now s =
     (if \<not> reason_ok reason then Inl reason_check_violation else Inr ((), apply_user_ban uid actor reason now s))"

definition clear_user_ban :: "string \<Rightarrow> db \<Rightarrow> db" where
  "clear_user_ban uid s = s\<lparr>
     user_bans := filter (\<lambda>b. b_user b \<noteq> uid) (user_bans s),
     users := update_where (\<lambda>u. u_id u = uid) (\<lambda>u. u\<lparr>u_banned := False\<rparr>) (users s)\<rparr>"

definition ban_tenant :: "string \<Rightarrow> string \<Rightarrow> string \<Rightarrow> int \<Rightarrow> db \<Rightarrow> db" where
  "ban_tenant oid actor reason now s = s\<lparr>
     org_bans :=
       (if list_ex (\<lambda>b. ob_org b = oid) (org_bans s)
        then update_where (\<lambda>b. ob_org b = oid) (\<lambda>b. b\<lparr>ob_reason := reason, ob_banned_by := actor, ob_at := now\<rparr>) (org_bans s)
        else org_bans s @ [\<lparr>ob_org = oid, ob_reason = reason, ob_banned_by = actor, ob_at = now\<rparr>]),
     organizations := update_where (\<lambda>org. o_id org = oid) (\<lambda>org. org\<lparr>o_banned_at := Some now\<rparr>) (organizations s),
     api_keys := update_where (\<lambda>k. k_org k = oid \<and> k_revoked_at k = None) (\<lambda>k. k\<lparr>k_revoked_at := Some now\<rparr>) (api_keys s),
     invitations := update_where (\<lambda>i. i_org i = Some oid \<and> live_invite i) (\<lambda>i. i\<lparr>i_revoked_at := Some now\<rparr>) (invitations s)\<rparr>"

definition sweep_ids :: "string \<Rightarrow> db \<Rightarrow> string list" where
  "sweep_ids oid s = map m_user (filter (\<lambda>m. m_org m = oid
     \<and> \<not> list_ex (\<lambda>b. b_user b = m_user m) (user_bans s)
     \<and> \<not> list_ex (\<lambda>a. a = m_user m) (platform_admins s)) (members s))"

definition via_org :: "string \<Rightarrow> string \<Rightarrow> db \<Rightarrow> db" where
  "via_org uid oid s = s\<lparr>user_bans := update_where (\<lambda>b. b_user b = uid) (\<lambda>b. b\<lparr>b_via_org := Some oid\<rparr>) (user_bans s)\<rparr>"

definition sweep_member :: "string \<Rightarrow> string \<Rightarrow> string \<Rightarrow> int \<Rightarrow> string \<Rightarrow> db \<Rightarrow> db" where
  "sweep_member oid actor reason now uid s = via_org uid oid (apply_user_ban uid actor reason now s)"

definition member_reason :: "string \<Rightarrow> string" where
  "member_reason reason = take 500 (''Organization banned: '' @ reason)"

definition record_org_ban :: "string \<Rightarrow> string \<Rightarrow> string \<Rightarrow> int \<Rightarrow> db \<Rightarrow> dberror + (unit \<times> db)" where
  "record_org_ban oid actor reason now s =
     (if \<not> reason_ok reason then Inl reason_check_violation
      else if \<not> list_ex (\<lambda>org. o_id org = oid) (organizations s) then Inl foreign_key_violation
      else (let s1 = ban_tenant oid actor reason now s in
            Inr ((), fold (sweep_member oid actor (member_reason reason) now) (sweep_ids oid s1) s1)))"

definition is_banned :: "string \<Rightarrow> db \<Rightarrow> bool" where
  "is_banned oid s \<longleftrightarrow> list_ex (\<lambda>org. o_id org = oid \<and> o_banned_at org \<noteq> None) (organizations s)"

definition adopting_org :: "string \<Rightarrow> db \<Rightarrow> string option" where
  "adopting_org uid s = map_option m_org (first_where (\<lambda>m. m_user m = uid \<and> is_banned (m_org m) s) (members s))"

definition release_swept :: "string \<Rightarrow> db \<Rightarrow> db" where
  "release_swept uid s = (case adopting_org uid s of Some other \<Rightarrow> via_org uid other s | None \<Rightarrow> clear_user_ban uid s)"

definition lift_tenant :: "string \<Rightarrow> db \<Rightarrow> db" where
  "lift_tenant oid s = s\<lparr>
     org_bans := filter (\<lambda>b. ob_org b \<noteq> oid) (org_bans s),
     organizations := update_where (\<lambda>org. o_id org = oid \<and> o_banned_at org \<noteq> None) (\<lambda>org. org\<lparr>o_banned_at := None\<rparr>) (organizations s)\<rparr>"

definition clear_org_ban :: "string \<Rightarrow> db \<Rightarrow> dberror + (unit \<times> db)" where
  "clear_org_ban oid s =
     (let s1 = lift_tenant oid s in
      Inr ((), fold release_swept (map b_user (filter (\<lambda>b. b_via_org b = Some oid) (user_bans s1))) s1))"

section \<open>The ban routes\<close>

definition MAX_REASON_LENGTH :: nat where "MAX_REASON_LENGTH = 500"

definition readReason :: "string + json \<Rightarrow> string option" where
  "readReason request =
     (case request of
        Inl _ \<Rightarrow> None
      | Inr payload \<Rightarrow>
          (case jstr (jget ''reason'' payload) of
             None \<Rightarrow> None
           | Some raw \<Rightarrow>
               let reason = trim raw in
               if length reason = 0 \<or> length reason > MAX_REASON_LENGTH then None else Some reason))"

definition bad_reason :: resp where
  "bad_reason = error_resp (''A ban reason is required (at most '' @ dec_string (int MAX_REASON_LENGTH) @ '' characters).'') 400"

definition with_org :: "env \<Rightarrow> string \<Rightarrow> resp act \<Rightarrow> resp act" where
  "with_org e oid m =
     bind (query (faults e ''organizations.id'') (\<lambda>s. first_where (\<lambda>org. o_id org = oid) (organizations s))) (\<lambda>r.
     case r of
       Inl err \<Rightarrow> ret (error_resp (message err) 500)
     | Inr None \<Rightarrow> ret (error_resp (''Organization not found: '' @ oid) 404)
     | Inr (Some _) \<Rightarrow> m)"

definition org_ban_PUT :: "env \<Rightarrow> string \<Rightarrow> string + json \<Rightarrow> resp act" where
  "org_ban_PUT e oid request =
     bind (isPlatformAdmin e) (\<lambda>ok.
     if \<not> ok then ret (error_resp ''Not found'' 404)
     else bind (requireAuthenticatedUser e) (\<lambda>actor.
          case readReason request of
            None \<Rightarrow> ret bad_reason
          | Some reason \<Rightarrow>
              with_org e oid
                (bind (call (faults e ''record_org_ban'') (record_org_ban oid (usr_id actor) reason (now_ms e))) (\<lambda>r.
                 ret (case r of
                        Inl err \<Rightarrow> error_resp (message err) 500
                      | Inr _ \<Rightarrow> json_resp (JObj [(''orgId'', JStr oid), (''banned'', JBool True)]) 200)))))"

definition org_ban_DELETE :: "env \<Rightarrow> string \<Rightarrow> resp act" where
  "org_ban_DELETE e oid =
     bind (isPlatformAdmin e) (\<lambda>ok.
     if \<not> ok then ret (error_resp ''Not found'' 404)
     else with_org e oid
            (bind (call (faults e ''clear_org_ban'') (clear_org_ban oid)) (\<lambda>r.
             ret (case r of Inl err \<Rightarrow> error_resp (message err) 500 | Inr _ \<Rightarrow> empty_resp 204))))"

text \<open>GoTrue's \<open>getUserById\<close>: the account's e-mail, which may be null, or no account and any failure.\<close>

type_synonym gotrue_users = "string \<Rightarrow> string option option"

definition user_not_found :: "string \<Rightarrow> resp" where
  "user_not_found uid = error_resp (''User not found: '' @ uid) 404"

definition user_ban_PUT :: "env \<Rightarrow> gotrue_users \<Rightarrow> string \<Rightarrow> string + json \<Rightarrow> resp act" where
  "user_ban_PUT e getUser uid request =
     bind (isPlatformAdmin e) (\<lambda>ok.
     if \<not> ok then ret (error_resp ''Not found'' 404)
     else bind (requireAuthenticatedUser e) (\<lambda>actor.
          if usr_id actor = uid then ret (error_resp ''You cannot ban your own account.'' 409)
          else case readReason request of
            None \<Rightarrow> ret bad_reason
          | Some reason \<Rightarrow>
              if getUser uid = None then ret (user_not_found uid)
              else bind (call (faults e ''record_user_ban'') (record_user_ban uid (usr_id actor) reason (now_ms e))) (\<lambda>r.
                   ret (case r of
                          Inl err \<Rightarrow> error_resp (message err) 500
                        | Inr _ \<Rightarrow> json_resp (JObj [(''userId'', JStr uid), (''banned'', JBool True)]) 200))))"

definition user_ban_DELETE :: "env \<Rightarrow> gotrue_users \<Rightarrow> string \<Rightarrow> resp act" where
  "user_ban_DELETE e getUser uid =
     bind (isPlatformAdmin e) (\<lambda>ok.
     if \<not> ok then ret (error_resp ''Not found'' 404)
     else if getUser uid = None then ret (user_not_found uid)
     else bind (call (faults e ''clear_user_ban'') (\<lambda>s. Inr ((), clear_user_ban uid s))) (\<lambda>r.
          ret (case r of Inl err \<Rightarrow> error_resp (message err) 500 | Inr _ \<Rightarrow> empty_resp 204)))"

section \<open>Superadmin keys\<close>

definition SECRET_PREFIX :: string where "SECRET_PREFIX = ''xpladmin_''"
definition SUPERADMIN_PREFIX_LENGTH :: nat where "SUPERADMIN_PREFIX_LENGTH = 17"

definition insert_superkey :: "superkey_row \<Rightarrow> db \<Rightarrow> dberror + (superkey_row \<times> db)" where
  "insert_superkey row s =
     (if list_ex (\<lambda>k. pk_id k = pk_id row \<or> pk_hash k = pk_hash row) (superadmin_keys s) then Inl unique_violation
      else Inr (row, s\<lparr>superadmin_keys := superadmin_keys s @ [row]\<rparr>))"

definition revoke_superkeys :: "(superkey_row \<Rightarrow> bool) \<Rightarrow> int \<Rightarrow> db \<Rightarrow> dberror + (string list \<times> db)" where
  "revoke_superkeys P now s =
     (let Q = (\<lambda>k. P k \<and> pk_revoked_at k = None) in
      Inr (map pk_id (filter Q (superadmin_keys s)),
           s\<lparr>superadmin_keys := update_where Q (\<lambda>k. k\<lparr>pk_revoked_at := Some now\<rparr>) (superadmin_keys s)\<rparr>))"

definition mintSuperadminKey :: "env \<Rightarrow> (string \<Rightarrow> string) \<Rightarrow> string \<Rightarrow> string \<Rightarrow> string \<Rightarrow> (superkey_row \<times> string) act" where
  "mintSuperadminKey e sha name uid ownerEmail =
     (let minted = mintKeySecret sha (random_hex e) SECRET_PREFIX SUPERADMIN_PREFIX_LENGTH in
      bind (call (faults e ''platform_admin_keys.insert'')
              (insert_superkey \<lparr>pk_id = fresh_id e, pk_user = uid, pk_owner_email = ownerEmail, pk_name = name,
                 pk_prefix = mk_prefix minted, pk_suffix = Some (mk_suffix minted), pk_hash = mk_hash minted,
                 pk_created_at = now_ms e, pk_last_used_at = None, pk_revoked_at = None\<rparr>)) (\<lambda>r.
      bind (orThrow ''Unable to mint the superadmin key: '' r) (\<lambda>row.
      ret (row, mk_secret minted))))"

definition listSuperadminKeys :: "env \<Rightarrow> superkey_row list act" where
  "listSuperadminKeys e =
     bind (query (faults e ''platform_admin_keys.list'') (\<lambda>s. sort_key (\<lambda>k. - pk_created_at k) (superadmin_keys s)))
          (orThrow ''Unable to list superadmin keys: '')"

definition revokeSuperadminKeysForUser :: "env \<Rightarrow> string \<Rightarrow> nat act" where
  "revokeSuperadminKeysForUser e uid =
     bind (call (faults e ''platform_admin_keys.revoke_all'') (revoke_superkeys (\<lambda>k. pk_user k = uid) (now_ms e))) (\<lambda>r.
     bind (orThrow ''Unable to revoke the user's superadmin keys: '' r) (\<lambda>ids. ret (length ids)))"

definition revokeSuperadminKey :: "env \<Rightarrow> string \<Rightarrow> bool act" where
  "revokeSuperadminKey e kid =
     bind (call (faults e ''platform_admin_keys.revoke'') (revoke_superkeys (\<lambda>k. pk_id k = kid) (now_ms e))) (\<lambda>r.
     bind (orThrow ''Unable to revoke the superadmin key: '' r) (\<lambda>ids.
     if 0 < length ids then ret True
     else bind (query (faults e ''platform_admin_keys.read'') (\<lambda>s. first_where (\<lambda>k. pk_id k = kid) (superadmin_keys s))) (\<lambda>x.
          bind (orThrow ''Unable to revoke the superadmin key: '' x) (\<lambda>existing. ret (existing \<noteq> None)))))"

definition is_hex_char :: "char \<Rightarrow> bool" where
  "is_hex_char c \<longleftrightarrow> (let n = (of_char c :: nat) in (48 \<le> n \<and> n \<le> 57) \<or> (97 \<le> n \<and> n \<le> 102) \<or> (65 \<le> n \<and> n \<le> 70))"

definition UUID_PATTERN :: "string \<Rightarrow> bool" where
  "UUID_PATTERN x \<longleftrightarrow> length x = 36
     \<and> list_all (\<lambda>(i, c). if i \<in> {8, 13, 18, 23} then c = CHR ''-'' else is_hex_char c) (zip [0..<36] x)"

definition superkey_DELETE :: "env \<Rightarrow> string \<Rightarrow> resp act" where
  "superkey_DELETE e kid = handler (
     bind (isPlatformAdmin e) (\<lambda>ok.
     if \<not> ok then ret (error_resp ''Not found'' 404)
     else if \<not> UUID_PATTERN kid then ret (error_resp ''No such key.'' 404)
     else bind (revokeSuperadminKey e kid) (\<lambda>found.
          ret (if \<not> found then error_resp ''No such key.'' 404 else json_resp (JObj [(''ok'', JBool True)]) 200))))"

section \<open>Granting and revoking operator status\<close>

text \<open>The date of a time in milliseconds, as \<open>toISOString().slice(0, 10)\<close> prints it for the years 0 to 9999.\<close>

definition iso_date :: "int \<Rightarrow> string" where
  "iso_date ms =
     (let z = ms div 86400000 + 719468;
          era = z div 146097;
          doe = z mod 146097;
          yoe = (doe - doe div 1460 + doe div 36524 - doe div 146096) div 365;
          doy = doe - (365 * yoe + yoe div 4 - yoe div 100);
          mp = (5 * doy + 2) div 153;
          d = doy - (153 * mp + 2) div 5 + 1;
          m = (if mp < 10 then mp + 3 else mp - 9);
          y = yoe + era * 400 + (if m \<le> 2 then 1 else 0)
      in pad_digits 4 y @ ''-'' @ pad_digits 2 m @ ''-'' @ pad_digits 2 d)"

definition upsert_platform_admin :: "string \<Rightarrow> db \<Rightarrow> dberror + (string list \<times> db)" where
  "upsert_platform_admin uid s =
     (if list_ex (\<lambda>a. a = uid) (platform_admins s) then Inr ([], s)
      else Inr ([uid], s\<lparr>platform_admins := platform_admins s @ [uid]\<rparr>))"

definition platform_event :: "auth_user \<Rightarrow> string \<Rightarrow> string \<Rightarrow> audit_event" where
  "platform_event actor act uid = \<lparr>ev_org = None, ev_actor_kind = ''platform_admin'', ev_actor_id = Some (usr_id actor),
     ev_action = act, ev_object_type = ''user'', ev_object_id = uid, ev_before = None, ev_after = None, ev_context = None\<rparr>"

definition granted_json :: "string \<Rightarrow> (string \<times> json) list \<Rightarrow> resp" where
  "granted_json uid extra = json_resp (JObj ([(''userId'', JStr uid), (''siteAdmin'', JBool True)] @ extra)) 200"

definition mint_for_grant :: "env \<Rightarrow> (string \<Rightarrow> string) \<Rightarrow> string \<Rightarrow> string option \<Rightarrow> resp act" where
  "mint_for_grant e sha uid ownerEmail =
     (case ownerEmail of
        None \<Rightarrow> ret (granted_json uid [(''mintError'', JStr ''The account has no email, so no superadmin key was minted.'')])
      | Some mail \<Rightarrow>
          catching
            (bind (mintSuperadminKey e sha (''granted '' @ iso_date (now_ms e)) uid mail) (\<lambda>minted.
             ret (granted_json uid [(''key'', JObj [(''name'', JStr (pk_name (fst minted))), (''secret'', JStr (snd minted))])])))
            (\<lambda>err. ret (granted_json uid [(''mintError'', JStr (''The grant succeeded but no key was minted (''
               @ (case err of PlainError m \<Rightarrow> m | _ \<Rightarrow> ''Error'') @ ''). Revoke and re-grant to mint one.''))])))"

definition grant_operator :: "env \<Rightarrow> (string \<Rightarrow> string) \<Rightarrow> auth_user \<Rightarrow> string \<Rightarrow> string option \<Rightarrow> resp act" where
  "grant_operator e sha actor uid ownerEmail =
     bind (call (faults e ''platform_admins.upsert'') (upsert_platform_admin uid)) (\<lambda>g.
     case g of
       Inl err \<Rightarrow> ret (error_resp (message err) 500)
     | Inr granted \<Rightarrow>
         if length granted = 0 then ret (granted_json uid [])
         else bind (recordAuditEvent e (platform_event actor ''platform_admin.grant'' uid)) (\<lambda>_.
              mint_for_grant e sha uid ownerEmail))"

definition site_admin_PUT :: "env \<Rightarrow> (string \<Rightarrow> string) \<Rightarrow> gotrue_users \<Rightarrow> string \<Rightarrow> resp act" where
  "site_admin_PUT e sha getUser uid =
     bind (isPlatformAdmin e) (\<lambda>ok.
     if \<not> ok then ret (error_resp ''Not found'' 404)
     else bind (requireAuthenticatedUser e) (\<lambda>actor.
          case getUser uid of
            None \<Rightarrow> ret (user_not_found uid)
          | Some ownerEmail \<Rightarrow>
              bind (query (faults e ''user_bans.read'') (\<lambda>s. first_where (\<lambda>b. b_user b = uid) (user_bans s))) (\<lambda>ban.
              case ban of
                Inl err \<Rightarrow> ret (error_resp (message err) 500)
              | Inr (Some _) \<Rightarrow>
                  ret (error_resp ''This account is banned. Unban it before granting experiential-admin status.'' 409)
              | Inr None \<Rightarrow> grant_operator e sha actor uid ownerEmail)))"

definition delete_platform_admin :: "string \<Rightarrow> db \<Rightarrow> dberror + (unit \<times> db)" where
  "delete_platform_admin uid s = Inr ((), s\<lparr>platform_admins := filter (\<lambda>a. a \<noteq> uid) (platform_admins s)\<rparr>)"

definition strip_operator :: "env \<Rightarrow> auth_user \<Rightarrow> string \<Rightarrow> resp act" where
  "strip_operator e actor uid =
     bind (call (faults e ''platform_admins.delete'') (delete_platform_admin uid)) (\<lambda>r.
     case r of
       Inl err \<Rightarrow> ret (error_resp (''The keys were revoked but the admin row remains ('' @ message err @ ''). Retry.'') 500)
     | Inr _ \<Rightarrow>
         bind (recordAuditEvent e (platform_event actor ''platform_admin.revoke'' uid)) (\<lambda>_. ret (empty_resp 204)))"

definition site_admin_DELETE :: "env \<Rightarrow> string \<Rightarrow> resp act" where
  "site_admin_DELETE e uid =
     bind (isPlatformAdmin e) (\<lambda>ok.
     if \<not> ok then ret (error_resp ''Not found'' 404)
     else bind (requireAuthenticatedUser e) (\<lambda>actor.
          if usr_id actor = uid then ret (error_resp ''You cannot revoke your own site-admin access.'' 409)
          else bind (query (faults e ''platform_admins.read'') (\<lambda>s. first_where (\<lambda>a. a = uid) (platform_admins s))) (\<lambda>grant.
          case grant of
            Inl err \<Rightarrow> ret (error_resp (message err) 500)
          | Inr None \<Rightarrow> ret (error_resp ''That account is not a site admin.'' 404)
          | Inr (Some _) \<Rightarrow>
              bind (catching (bind (revokeSuperadminKeysForUser e uid) (\<lambda>_. ret None))
                     (\<lambda>err. ret (Some (error_resp (''Nothing was revoked (''
                        @ (case err of PlainError m \<Rightarrow> m | _ \<Rightarrow> ''Error'') @ ''). The account is still an admin; retry.'') 500)))) (\<lambda>failed.
              case failed of Some r \<Rightarrow> ret r | None \<Rightarrow> strip_operator e actor uid))))"

section \<open>What every reachable state promises\<close>

definition keys_sealed :: "db \<Rightarrow> bool" where
  "keys_sealed s \<longleftrightarrow> (\<forall>k\<in>set (api_keys s). k_revoked_at k = None \<longrightarrow> \<not> is_banned (k_org k) s)"

definition invites_sealed :: "db \<Rightarrow> bool" where
  "invites_sealed s \<longleftrightarrow> (\<forall>i\<in>set (invitations s). \<forall>oid. live_invite i \<and> i_org i = Some oid \<longrightarrow> \<not> is_banned oid s)"

definition on_roster :: "string \<Rightarrow> db \<Rightarrow> bool" where
  "on_roster uid s \<longleftrightarrow> uid \<in> b_user ` set (user_bans s)"

definition roster_agrees :: "db \<Rightarrow> bool" where
  "roster_agrees s \<longleftrightarrow> distinct (map b_user (user_bans s)) \<and> (\<forall>u\<in>set (users s). u_banned u \<longleftrightarrow> on_roster (u_id u) s)"

definition superkeys_sealed :: "db \<Rightarrow> bool" where
  "superkeys_sealed s \<longleftrightarrow> (\<forall>k\<in>set (superadmin_keys s). pk_revoked_at k = None \<longrightarrow>
     \<not> on_roster (pk_user k) s \<and> pk_user k \<in> set (platform_admins s))"

definition sweeps_owned :: "db \<Rightarrow> bool" where
  "sweeps_owned s \<longleftrightarrow> (\<forall>b\<in>set (user_bans s). \<forall>oid. b_via_org b = Some oid \<longrightarrow> is_banned oid s)"

definition org_ids_unique :: "db \<Rightarrow> bool" where
  "org_ids_unique s \<longleftrightarrow> distinct (map o_id (organizations s))"

definition ops_inv :: "db \<Rightarrow> bool" where
  "ops_inv s \<longleftrightarrow> org_ids_unique s \<and> keys_sealed s \<and> invites_sealed s \<and> roster_agrees s \<and> superkeys_sealed s \<and> sweeps_owned s"

lemmas ops_defs = keys_sealed_def invites_sealed_def roster_agrees_def superkeys_sealed_def sweeps_owned_def
  org_ids_unique_def on_roster_def

subsection \<open>The statements\<close>

lemma fold_preserves: "(\<And>x s. P s \<Longrightarrow> P (f x s)) \<Longrightarrow> P s \<Longrightarrow> P (fold f xs s)"
  by (induction xs arbitrary: s) auto

lemma ball_update_where: "(\<forall>x\<in>set (update_where P f xs). Q x) \<longleftrightarrow> (\<forall>y\<in>set xs. Q (if P y then f y else y))"
  by (auto simp: update_where_def)

lemma bex_update_where: "(\<exists>x\<in>set (update_where P f xs). Q x) \<longleftrightarrow> (\<exists>y\<in>set xs. Q (if P y then f y else y))"
  by (auto simp: update_where_def)

lemma in_update_where: "x \<in> set (update_where P f xs) \<longleftrightarrow> (\<exists>y\<in>set xs. x = (if P y then f y else y))"
  by (auto simp: update_where_def)

lemma image_update_where: "(\<And>y. g (f y) = g y) \<Longrightarrow> g ` set (update_where P f xs) = g ` set xs"
  by (metis list.set_map map_update_where_key)

lemmas where_simps = ball_update_where bex_update_where list_ex_iff

lemma is_banned_cong: "organizations t = organizations s \<Longrightarrow> is_banned oid t = is_banned oid s"
  by (simp add: is_banned_def)

lemma roster_apply: "b_user ` set (user_bans (apply_user_ban uid actor r now s)) = insert uid (b_user ` set (user_bans s))"
proof -
  have "b_user ` set (update_where (\<lambda>b. b_user b = uid) (\<lambda>b. b\<lparr>b_reason := r, b_banned_by := actor, b_at := now\<rparr>) (user_bans s))
      = b_user ` set (user_bans s)" by (rule image_update_where) simp
  then show ?thesis by (auto simp: apply_user_ban_def list_ex_iff)
qed

lemma distinct_apply:
  "distinct (map b_user (user_bans s)) \<Longrightarrow> distinct (map b_user (user_bans (apply_user_ban uid actor r now s)))"
  by (auto simp: apply_user_ban_def map_update_where_key list_ex_iff)

lemma via_apply:
  "b \<in> set (user_bans (apply_user_ban uid actor r now s)) \<Longrightarrow> b_via_org b = Some oid
    \<Longrightarrow> \<exists>b'\<in>set (user_bans s). b_via_org b' = Some oid"
  by (auto simp: apply_user_ban_def set_update_where split: if_splits)

lemma apply_frame [simp]:
  "organizations (apply_user_ban uid actor r now s) = organizations s"
  "invitations (apply_user_ban uid actor r now s) = invitations s"
  "platform_admins (apply_user_ban uid actor r now s) = platform_admins s"
  "members (apply_user_ban uid actor r now s) = members s"
  by (simp_all add: apply_user_ban_def)

lemma apply_keys: "k \<in> set (api_keys (apply_user_ban uid actor r now s)) \<Longrightarrow> k_revoked_at k = None
    \<Longrightarrow> k \<in> set (api_keys s) \<and> k_created_by k \<noteq> uid"
  by (auto simp: apply_user_ban_def set_update_where split: if_splits)

lemma apply_superkeys: "k \<in> set (superadmin_keys (apply_user_ban uid actor r now s)) \<Longrightarrow> pk_revoked_at k = None
    \<Longrightarrow> k \<in> set (superadmin_keys s) \<and> pk_user k \<noteq> uid"
  by (auto simp: apply_user_ban_def set_update_where split: if_splits)

lemma ops_invI:
  assumes "org_ids_unique s" "keys_sealed s" "invites_sealed s" "roster_agrees s" "superkeys_sealed s" "sweeps_owned s"
  shows "ops_inv s"
  using assms by (simp add: ops_inv_def)

lemma apply_user_ban_inv:
  assumes "ops_inv s" shows "ops_inv (apply_user_ban uid actor r now s)"
proof -
  let ?t = "apply_user_ban uid actor r now s"
  note o = assms [unfolded ops_inv_def] and b = is_banned_cong [of ?t s, OF apply_frame(1)]
  have r: "on_roster x ?t \<longleftrightarrow> x = uid \<or> on_roster x s" for x by (simp add: on_roster_def roster_apply)
  show ?thesis
  proof (rule ops_invI)
    show "org_ids_unique ?t" "invites_sealed ?t" using o by (simp_all add: org_ids_unique_def invites_sealed_def b)
    show "keys_sealed ?t" using o apply_keys unfolding keys_sealed_def b by blast
    show "superkeys_sealed ?t" using o apply_superkeys unfolding superkeys_sealed_def r apply_frame by blast
    show "sweeps_owned ?t" using o via_apply unfolding sweeps_owned_def b by blast
    show "roster_agrees ?t" using o distinct_apply
      unfolding roster_agrees_def r by (simp add: apply_user_ban_def where_simps)
  qed
qed

lemma clear_user_ban_inv:
  assumes "ops_inv s" shows "ops_inv (clear_user_ban uid s)"
proof -
  let ?t = "clear_user_ban uid s"
  note o = assms [unfolded ops_inv_def] and b = is_banned_cong [of ?t s]
  have r: "on_roster x ?t \<longleftrightarrow> x \<noteq> uid \<and> on_roster x s" for x by (auto simp: on_roster_def clear_user_ban_def)
  have fr: "organizations ?t = organizations s" "api_keys ?t = api_keys s" "invitations ?t = invitations s"
    "superadmin_keys ?t = superadmin_keys s" "platform_admins ?t = platform_admins s" by (simp_all add: clear_user_ban_def)
  show ?thesis
  proof (rule ops_invI)
    show "org_ids_unique ?t" "invites_sealed ?t" "keys_sealed ?t" "superkeys_sealed ?t"
      using o by (simp_all add: org_ids_unique_def invites_sealed_def keys_sealed_def superkeys_sealed_def fr b r)
    show "sweeps_owned ?t" using o unfolding sweeps_owned_def b [OF fr(1)] by (simp add: clear_user_ban_def) blast
    have "distinct (map b_user (user_bans ?t))" using o by (simp add: roster_agrees_def clear_user_ban_def distinct_map_filter)
    moreover have "\<forall>u\<in>set (users ?t). u_banned u \<longleftrightarrow> on_roster (u_id u) ?t"
      using o unfolding r by (simp add: clear_user_ban_def roster_agrees_def where_simps)
    ultimately show "roster_agrees ?t" by (simp add: roster_agrees_def)
  qed
qed

lemma via_org_frame [simp]:
  "organizations (via_org uid oid s) = organizations s" "api_keys (via_org uid oid s) = api_keys s"
  "invitations (via_org uid oid s) = invitations s" "users (via_org uid oid s) = users s" "members (via_org uid oid s) = members s"
  "superadmin_keys (via_org uid oid s) = superadmin_keys s" "platform_admins (via_org uid oid s) = platform_admins s"
  "map b_user (user_bans (via_org uid oid s)) = map b_user (user_bans s)"
  by (simp_all add: via_org_def map_update_where_key)

lemma via_org_roster [simp]: "b_user ` set (user_bans (via_org uid oid s)) = b_user ` set (user_bans s)"
  by (metis list.set_map via_org_frame(8))

lemma via_org_inv:
  assumes "ops_inv s" and "is_banned oid s" shows "ops_inv (via_org uid oid s)"
proof -
  let ?t = "via_org uid oid s"
  note o = assms(1) [unfolded ops_inv_def] and b = is_banned_cong [of ?t s, OF via_org_frame(1)]
  have r: "on_roster x ?t \<longleftrightarrow> on_roster x s" for x by (simp add: on_roster_def)
  show ?thesis
  proof (rule ops_invI)
    show "org_ids_unique ?t" "invites_sealed ?t" "keys_sealed ?t" "superkeys_sealed ?t" "roster_agrees ?t"
      using o by (simp_all add: org_ids_unique_def invites_sealed_def keys_sealed_def superkeys_sealed_def roster_agrees_def b r)
    show "sweeps_owned ?t" using o assms(2) unfolding sweeps_owned_def b by (simp add: via_org_def where_simps)
  qed
qed

lemma ban_tenant_frame [simp]:
  "user_bans (ban_tenant oid actor r now s) = user_bans s" "users (ban_tenant oid actor r now s) = users s"
  "superadmin_keys (ban_tenant oid actor r now s) = superadmin_keys s" "members (ban_tenant oid actor r now s) = members s"
  "platform_admins (ban_tenant oid actor r now s) = platform_admins s"
  by (simp_all add: ban_tenant_def)

lemma is_banned_tenant:
  "is_banned x (ban_tenant oid actor r now s) \<longleftrightarrow> is_banned x s \<or> (x = oid \<and> list_ex (\<lambda>org. o_id org = oid) (organizations s))"
proof -
  have "is_banned x (ban_tenant oid actor r now s) \<longleftrightarrow> (\<exists>org\<in>set (organizations s). o_id org = x \<and> (o_id org = oid \<or> o_banned_at org \<noteq> None))"
    by (auto simp: ban_tenant_def is_banned_def where_simps)
  then show ?thesis by (auto simp: is_banned_def list_ex_iff)
qed

lemma ban_tenant_inv:
  assumes "ops_inv s" shows "ops_inv (ban_tenant oid actor r now s)"
proof -
  let ?t = "ban_tenant oid actor r now s"
  note o = assms [unfolded ops_inv_def]
  have r: "on_roster x ?t \<longleftrightarrow> on_roster x s" for x by (simp add: on_roster_def)
  show ?thesis
  proof (rule ops_invI)
    show "org_ids_unique ?t" using o by (simp add: org_ids_unique_def ban_tenant_def map_update_where_key)
    show "superkeys_sealed ?t" "roster_agrees ?t" using o by (simp_all add: superkeys_sealed_def roster_agrees_def r)
    show "sweeps_owned ?t" using o by (auto simp: sweeps_owned_def is_banned_tenant)
    show "keys_sealed ?t" using o unfolding keys_sealed_def is_banned_tenant by (auto simp: ban_tenant_def where_simps)
    show "invites_sealed ?t" using o unfolding invites_sealed_def is_banned_tenant
      by (auto simp: ban_tenant_def where_simps live_invite_def)
  qed
qed

lemma record_org_ban_inv:
  assumes "ops_inv s" and "record_org_ban oid actor r now s = Inr (x, t)"
  shows "ops_inv t"
proof -
  let ?s = "ban_tenant oid actor r now s"
  have t: "t = fold (sweep_member oid actor (member_reason r) now) (sweep_ids oid ?s) ?s"
    and ex: "list_ex (\<lambda>org. o_id org = oid) (organizations s)"
    using assms(2) by (auto simp: record_org_ban_def Let_def split: if_splits)
  have "ops_inv t \<and> is_banned oid t" unfolding t
  proof (rule fold_preserves)
    fix u v
    assume v: "ops_inv v \<and> is_banned oid v"
    then have "is_banned oid (apply_user_ban u actor (member_reason r) now v)" using is_banned_cong [OF apply_frame(1)] by blast
    with v show "ops_inv (sweep_member oid actor (member_reason r) now u v) \<and> is_banned oid (sweep_member oid actor (member_reason r) now u v)"
      using is_banned_cong [OF via_org_frame(1)] unfolding sweep_member_def by (blast intro: via_org_inv apply_user_ban_inv)
  qed (use assms(1) ex in \<open>simp add: is_banned_tenant ban_tenant_inv\<close>)
  then show ?thesis ..
qed

text \<open>
  While an unban releases its sweep, the rows still to be released point to an organization that is no
  longer banned; every other row is owned.
\<close>

definition releasing :: "string \<Rightarrow> string list \<Rightarrow> db \<Rightarrow> bool" where
  "releasing oid us s \<longleftrightarrow> org_ids_unique s \<and> keys_sealed s \<and> invites_sealed s \<and> roster_agrees s \<and> superkeys_sealed s
     \<and> (\<forall>b\<in>set (user_bans s). \<forall>x. b_via_org b = Some x \<longrightarrow> is_banned x s \<or> (x = oid \<and> b_user b \<in> set us))"

lemma releasing_Nil: "releasing oid [] s \<Longrightarrow> ops_inv s"
  by (simp add: releasing_def ops_inv_def sweeps_owned_def)

lemma adopting_org_banned: "adopting_org uid s = Some other \<Longrightarrow> is_banned other s"
  by (auto simp: adopting_org_def dest: first_where_SomeD)

lemma releasing_step:
  assumes "releasing oid (u # us) s" shows "releasing oid us (release_swept u s)"
proof -
  note o = assms [unfolded releasing_def]
  show ?thesis
  proof (cases "adopting_org u s")
    case None
    let ?t = "clear_user_ban u s"
    have fr: "organizations ?t = organizations s" "api_keys ?t = api_keys s" "invitations ?t = invitations s"
      "superadmin_keys ?t = superadmin_keys s" "platform_admins ?t = platform_admins s" by (simp_all add: clear_user_ban_def)
    have r: "on_roster x ?t \<longleftrightarrow> x \<noteq> u \<and> on_roster x s" for x by (auto simp: on_roster_def clear_user_ban_def)
    note b = is_banned_cong [of ?t s, OF fr(1)]
    have "roster_agrees ?t" using o unfolding roster_agrees_def r
      by (simp add: clear_user_ban_def where_simps distinct_map_filter)
    moreover have "\<forall>b\<in>set (user_bans ?t). \<forall>x. b_via_org b = Some x \<longrightarrow> is_banned x s \<or> (x = oid \<and> b_user b \<in> set us)"
      using o by (auto simp: clear_user_ban_def)
    ultimately show ?thesis using o None
      by (simp add: releasing_def release_swept_def org_ids_unique_def invites_sealed_def keys_sealed_def superkeys_sealed_def fr b r)
  next
    case (Some other)
    let ?t = "via_org u other s"
    have r: "on_roster x ?t \<longleftrightarrow> on_roster x s" for x by (simp add: on_roster_def)
    note b = is_banned_cong [of ?t s, OF via_org_frame(1)]
    have "\<forall>b\<in>set (user_bans ?t). \<forall>x. b_via_org b = Some x \<longrightarrow> is_banned x s \<or> (x = oid \<and> b_user b \<in> set us)"
      using o adopting_org_banned [OF Some] by (simp add: via_org_def where_simps) blast
    then show ?thesis using o Some
      by (simp add: releasing_def release_swept_def org_ids_unique_def invites_sealed_def keys_sealed_def superkeys_sealed_def
          roster_agrees_def b r)
  qed
qed

lemma releasing_fold: "releasing oid us s \<Longrightarrow> ops_inv (fold release_swept us s)"
  by (induction us arbitrary: s) (simp_all add: releasing_Nil releasing_step)

lemma lift_frame [simp]:
  "user_bans (lift_tenant oid s) = user_bans s" "users (lift_tenant oid s) = users s" "api_keys (lift_tenant oid s) = api_keys s"
  "superadmin_keys (lift_tenant oid s) = superadmin_keys s" "members (lift_tenant oid s) = members s"
  "platform_admins (lift_tenant oid s) = platform_admins s" "invitations (lift_tenant oid s) = invitations s"
  by (simp_all add: lift_tenant_def)

lemma is_banned_lift: "is_banned x (lift_tenant oid s) \<longleftrightarrow> is_banned x s \<and> x \<noteq> oid"
proof -
  have "is_banned x (lift_tenant oid s) \<longleftrightarrow> (\<exists>org\<in>set (organizations s). o_id org = x \<and> o_banned_at org \<noteq> None \<and> o_id org \<noteq> oid)"
    unfolding is_banned_def lift_tenant_def by (auto simp: where_simps)
  then show ?thesis by (auto simp: is_banned_def list_ex_iff)
qed

lemma clear_org_ban_inv:
  assumes "ops_inv s" and "clear_org_ban oid s = Inr (x, t)"
  shows "ops_inv t"
proof -
  let ?s = "lift_tenant oid s"
  note o = assms(1) [unfolded ops_inv_def]
  have t: "t = fold release_swept (map b_user (filter (\<lambda>b. b_via_org b = Some oid) (user_bans ?s))) ?s"
    using assms(2) by (simp add: clear_org_ban_def Let_def)
  have r: "on_roster x ?s \<longleftrightarrow> on_roster x s" for x by (simp add: on_roster_def)
  have "org_ids_unique ?s" using o by (simp add: org_ids_unique_def lift_tenant_def map_update_where_key)
  moreover have "keys_sealed ?s" "invites_sealed ?s" using o by (auto simp: keys_sealed_def invites_sealed_def is_banned_lift)
  moreover have "roster_agrees ?s" "superkeys_sealed ?s" using o by (simp_all add: roster_agrees_def superkeys_sealed_def r)
  moreover have "\<forall>b\<in>set (user_bans ?s). \<forall>x. b_via_org b = Some x \<longrightarrow> is_banned x ?s
      \<or> (x = oid \<and> b_user b \<in> set (map b_user (filter (\<lambda>b. b_via_org b = Some oid) (user_bans ?s))))"
    using o by (auto simp: is_banned_lift sweeps_owned_def)
  ultimately show ?thesis unfolding t by (intro releasing_fold) (simp add: releasing_def)
qed

subsection \<open>The requests\<close>

lemma keeps_bind_query: "(\<And>s. P s \<Longrightarrow> keeps P (g (read_db flt f s))) \<Longrightarrow> keeps P (bind (query flt f) g)"
  by (simp add: keeps_def bind_def)

text \<open>The invariant, with the rows the key and membership requests never touch held fixed.\<close>

definition held :: "org_row list \<Rightarrow> ban_row list \<Rightarrow> db \<Rightarrow> bool" where
  "held orgs bans s \<longleftrightarrow> ops_inv s \<and> organizations s = orgs \<and> user_bans s = bans"

lemma ops_inv_frame:
  assumes "organizations t = organizations s" "api_keys t = api_keys s" "invitations t = invitations s" "user_bans t = user_bans s"
    "users t = users s" "superadmin_keys t = superadmin_keys s" "platform_admins t = platform_admins s"
  shows "ops_inv t = ops_inv s"
  by (simp add: ops_inv_def ops_defs is_banned_def assms)

lemma held_frame:
  assumes "held orgs bans s" "organizations t = organizations s" "api_keys t = api_keys s" "invitations t = invitations s"
    "user_bans t = user_bans s" "users t = users s" "superadmin_keys t = superadmin_keys s" "platform_admins t = platform_admins s"
  shows "held orgs bans t"
  using assms(1) ops_inv_frame [OF assms(2-)] by (simp add: held_def assms(2,5))

interpretation held: table_invariant "held orgs bans" for orgs bans
  by unfold_locales (erule held_frame; simp)+

lemma held_keys:
  assumes "held orgs bans s" "t = s\<lparr>api_keys := ks\<rparr>"
    "\<And>k. k \<in> set ks \<Longrightarrow> k_revoked_at k = None \<Longrightarrow> (\<exists>k'\<in>set (api_keys s). k_org k' = k_org k \<and> k_revoked_at k' = None) \<or> \<not> is_banned (k_org k) s"
  shows "held orgs bans t"
proof -
  have inv: "ops_inv s" and eq: "organizations s = orgs" "user_bans s = bans" using assms(1) by (simp_all add: held_def)
  note o = inv [unfolded ops_inv_def]
  have b: "is_banned x t = is_banned x s" for x by (rule is_banned_cong) (simp add: assms(2))
  have r: "on_roster x t = on_roster x s" for x by (simp add: on_roster_def assms(2))
  have fr: "organizations t = organizations s" "invitations t = invitations s" "users t = users s"
    "user_bans t = user_bans s" "superadmin_keys t = superadmin_keys s" "platform_admins t = platform_admins s"
    by (simp_all add: assms(2))
  have "keys_sealed t" using o assms(3) unfolding keys_sealed_def b by (fastforce simp: assms(2))
  moreover have "org_ids_unique t" "invites_sealed t" "roster_agrees t" "superkeys_sealed t" "sweeps_owned t"
    using o by (simp_all add: org_ids_unique_def invites_sealed_def roster_agrees_def superkeys_sealed_def sweeps_owned_def
        b r fr)
  ultimately show ?thesis by (simp add: held_def ops_inv_def fr eq)
qed

lemma held_insert_key:
  assumes "held orgs bans s" "\<not> is_banned (k_org row) s" "insert_key row s = Inr (a, t)"
  shows "held orgs bans t"
  using assms by (auto simp: insert_key_def split: if_splits intro!: held_keys [OF assms(1)])

lemma held_mint_call:
  assumes "\<And>u. held orgs bans u \<Longrightarrow> \<not> is_banned oid u"
  shows "keeps (held orgs bans) (call flt (insert_key (new_key e minted oid name uid ident expires)))"
proof (rule keeps_call)
  fix s a t
  assume "held orgs bans s" and "insert_key (new_key e minted oid name uid ident expires) s = Inr (a, t)"
  then show "held orgs bans t" using assms [of s]
    by (intro held_insert_key [of orgs bans s "new_key e minted oid name uid ident expires" a t]) (simp_all add: new_key_def)
qed

lemma held_update_key:
  assumes "held orgs bans s" "\<And>k. k_org (f k) = k_org k" "\<And>k. k_revoked_at (f k) = None \<Longrightarrow> k_revoked_at k = None"
    "update_key kid f s = Inr (a, t)"
  shows "held orgs bans t"
proof (rule held_keys [OF assms(1)])
  show "t = s\<lparr>api_keys := update_where (\<lambda>k. k_id k = kid) f (api_keys s)\<rparr>" using assms(4) by (simp add: update_key_def)
  fix k
  assume "k \<in> set (update_where (\<lambda>k. k_id k = kid) f (api_keys s))" and n: "k_revoked_at k = None"
  then obtain y where "y \<in> set (api_keys s)" and k: "k = (if k_id y = kid then f y else y)" by (auto simp: update_where_def)
  with n assms(2,3) [of y] show "(\<exists>k'\<in>set (api_keys s). k_org k' = k_org k \<and> k_revoked_at k' = None) \<or> \<not> is_banned (k_org k) s"
    by (intro disjI1 bexI [of _ y]) (auto split: if_splits)
qed

lemma not_banned_first:
  assumes "org_ids_unique s" "Option.bind (first_where (\<lambda>org. o_id org = oid) (organizations s)) o_banned_at = None"
  shows "\<not> is_banned oid s"
proof
  assume "is_banned oid s"
  then obtain org where g: "org \<in> set (organizations s)" "o_id org = oid" "o_banned_at org \<noteq> None"
    by (auto simp: is_banned_def list_ex_iff)
  then obtain org' where f: "first_where (\<lambda>org. o_id org = oid) (organizations s) = Some org'"
    using first_where_None [of "\<lambda>org. o_id org = oid" "organizations s"] by (cases "first_where (\<lambda>org. o_id org = oid) (organizations s)") auto
  then have "org' = org" using first_where_SomeD [OF f] g assms(1)
    by (auto simp: org_ids_unique_def distinct_map dest: inj_onD)
  with f g assms(2) show False by simp
qed

lemma banned_read:
  assumes "held orgs bans s" "read_db flt (\<lambda>s. first_where (\<lambda>org. o_id org = oid) (organizations s)) s = Inr row" "Option.bind row o_banned_at = None"
    and "held orgs bans u"
  shows "\<not> is_banned oid u"
proof -
  have "\<not> is_banned oid s" using assms(1-3) read_db_InrD [OF assms(2)] by (intro not_banned_first) (simp_all add: held_def ops_inv_def)
  then show ?thesis using assms(1,4) by (simp add: held_def is_banned_def)
qed

lemma held_mint:
  "keeps (held orgs bans) (store_minted e user padm payload minted ident)" if "\<And>u. held orgs bans u \<Longrightarrow> \<not> is_banned (pl_org payload) u"
  unfolding store_minted_def
  by (intro keeps_bind keeps_case_sum keeps_ret held.gates_keep held_mint_call that)

lemma held_resolve: "keeps (held orgs bans) (resolveMintIdentity e oid requested)"
  unfolding resolveMintIdentity_def
  by (intro keeps_intros keeps_ensureOrgDefaultIdentity)
    (auto simp: upsert_identity_def split: if_splits elim: held_frame)

lemma held_mint_key: "keeps (held orgs bans) (mint_key e sha user padm payload)"
  unfolding mint_key_def
proof (rule keeps_bind_query)
  fix s
  assume h: "held orgs bans s"
  let ?x = "read_db (faults e ''organizations.banned_at'') (\<lambda>s. first_where (\<lambda>org. o_id org = pl_org payload) (organizations s)) s"
  show "keeps (held orgs bans) (case ?x of Inl err \<Rightarrow> ret (error_resp (message err) 500)
     | Inr row \<Rightarrow> if Option.bind row o_banned_at \<noteq> None
         then ret (error_resp ''This organization is banned. New API keys cannot be created.'' 403)
         else bind (resolveMintIdentity e (pl_org payload) (pl_identity payload)) (\<lambda>resolution.
           case resolution of Inl (msg, st) \<Rightarrow> ret (error_resp msg st)
           | Inr identityId \<Rightarrow> store_minted e user padm payload (mintApiKeySecret sha e) identityId))"
  proof (cases ?x)
    case (Inr row)
    show ?thesis
    proof (cases "Option.bind row o_banned_at")
      case None
      have "keeps (held orgs bans) (store_minted e user padm payload (mintApiKeySecret sha e) i)" for i
        using banned_read [OF h Inr None] by (rule held_mint)
      then show ?thesis unfolding Inr using None by (simp add: keeps_ret split: sum.split prod.split) (intro keeps_intros held_resolve)
    qed (simp add: Inr keeps_ret)
  qed (simp add: keeps_ret)
qed

lemma held_keys_POST: "keeps (held orgs bans) (keys_POST e sha request)"
  unfolding keys_POST_def org_visible_def by (intro keeps_intros held.gates_keep held_mint_key)

lemma held_manage_key:
  assumes "\<And>user padm k s. held orgs bans s \<Longrightarrow> k \<in> set (api_keys s) \<Longrightarrow> k_revoked_at k = None \<Longrightarrow> keeps (held orgs bans) (act user padm k)"
  shows "keeps (held orgs bans) (manage_key e kid rr act)"
  unfolding manage_key_def
proof (rule keeps_bind, rule keeps_requireAuthenticatedUser, rule keeps_bind, rule keeps_isPlatformAdmin, rule keeps_bind_query)
  fix user padm s
  assume h: "held orgs bans s"
  have inner: "keeps (held orgs bans) (bind (if padm then ret True else isOrgAdmin e (k_org k)) (\<lambda>ok. if \<not> ok then ret not_key_admin
       else if k_revoked_at k \<noteq> None then ret rr else act user padm k))" if "k \<in> set (api_keys s)" for k
  proof (cases "k_revoked_at k")
    case None
    note a = assms [OF h that None]
    show ?thesis unfolding None simp_thms if_False by (intro keeps_bind keeps_if keeps_ret held.gates_keep a)
  next
    case (Some x)
    then have "(if \<not> ok then ret not_key_admin else if k_revoked_at k \<noteq> None then ret rr else act user padm k)
        = (if \<not> ok then ret not_key_admin else ret rr)" for ok by simp
    then show ?thesis by (simp only:) (intro keeps_bind keeps_if keeps_ret held.gates_keep)
  qed
  show "keeps (held orgs bans) (case read_db (faults e ''api_keys.read'') (read_key (usr_id user) padm kid) s of
       Inl err \<Rightarrow> ret (error_resp (message err) 500)
     | Inr None \<Rightarrow> ret (error_resp (''API key not found: '' @ kid) 404)
     | Inr (Some k) \<Rightarrow> bind (if padm then ret True else isOrgAdmin e (k_org k)) (\<lambda>ok. if \<not> ok then ret not_key_admin
         else if k_revoked_at k \<noteq> None then ret rr else act user padm k))"
  proof (cases "read_db (faults e ''api_keys.read'') (read_key (usr_id user) padm kid) s")
    case (Inr found)
    show ?thesis
    proof (cases found)
      case (Some k)
      then have "k \<in> set (api_keys s)"
        using read_db_InrD [OF Inr] by (auto simp: read_key_def dest: first_where_SomeD)
      then show ?thesis unfolding Inr Some sum.case option.case by (rule inner)
    qed (simp add: Inr keeps_ret)
  qed (simp add: keeps_ret)
qed

lemma held_rotate: "keeps (held orgs bans) (key_rotate_POST e sha kid request)"
proof -
  have "keeps (held orgs bans) (rotate_key e sha kid h user padm k)"
    if "held orgs bans s" "k \<in> set (api_keys s)" "k_revoked_at k = None" for h user padm k s
  proof -
    have "\<not> is_banned (k_org k) u" if "held orgs bans u" for u
      using that \<open>held orgs bans s\<close> \<open>k \<in> set (api_keys s)\<close> \<open>k_revoked_at k = None\<close>
      by (auto simp: held_def ops_inv_def keys_sealed_def is_banned_def)
    note ins = held_mint_call [OF this]
    have upd: "keeps (held orgs bans) (call flt (update_key i f))"
      if "\<And>k. k_org (f k) = k_org k" "\<And>k. k_revoked_at (f k) = None \<Longrightarrow> k_revoked_at k = None" for flt i f
      by (rule keeps_call) (rule held_update_key [OF _ that])
    show ?thesis unfolding rotate_key_def finish_rotation_def Let_def
      by (intro keeps_bind keeps_case_sum keeps_ret held.gates_keep ins upd; simp)
  qed
  then show ?thesis unfolding key_rotate_POST_def by (intro keeps_intros held_manage_key)
qed

lemma held_key_DELETE: "keeps (held orgs bans) (key_DELETE e kid)"
  unfolding key_DELETE_def revoke_key_def
  by (intro keeps_intros held_manage_key held.gates_keep) (rule held_update_key; simp)

lemma held_playground: "keeps (held orgs bans) (mintPlaygroundServingKey e sha oid uid)"
  unfolding mintPlaygroundServingKey_def
proof (rule keeps_bind_query)
  fix s
  assume h: "held orgs bans s"
  let ?x = "read_db (faults e ''organizations.banned_at'') (\<lambda>s. first_where (\<lambda>org. o_id org = oid) (organizations s)) s"
  show "keeps (held orgs bans) (bind (orThrow ''Could not check the organization's ban state: '' ?x) (\<lambda>row.
     if Option.bind row o_banned_at \<noteq> None
     then throw (PlainError ''This organization is banned. The playground cannot serve it.'')
     else bind (ensureOrgDefaultIdentity e oid) (\<lambda>identityId.
       (let minted = mintApiKeySecret sha e in
        bind (call (faults e ''api_keys.insert'')
                (insert_key (new_key e minted oid PLAYGROUND_KEY_NAME uid (Some identityId) None))) (\<lambda>r.
        bind (orThrow ''Could not provision a playground serving key: '' r) (\<lambda>k.
        ret (mk_secret minted, k_id k)))))))"
  proof (cases ?x)
    case (Inr row)
    show ?thesis
    proof (cases "Option.bind row o_banned_at")
      case None
      note ins = held_mint_call [OF banned_read [OF h Inr None]]
      have "keeps (held orgs bans) (ensureOrgDefaultIdentity e oid)"
        by (rule keeps_ensureOrgDefaultIdentity) (auto simp: upsert_identity_def split: if_splits elim: held_frame)
      then show ?thesis unfolding Inr orThrow_def Let_def sum.case bind_ret None
        by (simp only: simp_thms if_False) (intro keeps_bind keeps_case_sum keeps_throw keeps_ret ins)
    next
      case (Some a)
      have "keeps (held orgs bans) (throw err)" for err :: app_error by (rule keeps_throw)
      then show ?thesis unfolding Inr orThrow_def sum.case bind_ret Some by simp
    qed
  qed (simp add: orThrow_def keeps_throw)
qed

lemma held_playground_revoke: "keeps (held orgs bans) (revokePlaygroundKey e kid done)"
  unfolding revokePlaygroundKey_def by (intro keeps_intros) (rule held_update_key; simp)

text \<open>Membership requests touch members freely, but add an invitation only for an organization that is not banned.\<close>

lemma held_invites:
  assumes "held orgs bans s" "t = s\<lparr>invitations := is\<rparr>"
    "\<And>i oid. i \<in> set is \<Longrightarrow> live_invite i \<Longrightarrow> i_org i = Some oid \<Longrightarrow>
      (\<exists>i'\<in>set (invitations s). i_org i' = i_org i \<and> live_invite i') \<or> \<not> is_banned oid s"
  shows "held orgs bans t"
proof -
  have inv: "ops_inv s" and eq: "organizations s = orgs" "user_bans s = bans" using assms(1) by (simp_all add: held_def)
  note o = inv [unfolded ops_inv_def]
  have b: "is_banned x t = is_banned x s" for x by (rule is_banned_cong) (simp add: assms(2))
  have r: "on_roster x t = on_roster x s" for x by (simp add: on_roster_def assms(2))
  have fr: "organizations t = organizations s" "api_keys t = api_keys s" "users t = users s"
    "user_bans t = user_bans s" "superadmin_keys t = superadmin_keys s" "platform_admins t = platform_admins s"
    by (simp_all add: assms(2))
  have "invites_sealed t" using o assms(3) unfolding invites_sealed_def b by (fastforce simp: assms(2))
  moreover have "org_ids_unique t" "keys_sealed t" "roster_agrees t" "superkeys_sealed t" "sweeps_owned t"
    using o by (simp_all add: org_ids_unique_def keys_sealed_def roster_agrees_def superkeys_sealed_def sweeps_owned_def b r fr)
  ultimately show ?thesis by (simp add: held_def ops_inv_def fr eq)
qed

lemma held_members: "held orgs bans s \<Longrightarrow> held orgs bans (s\<lparr>members := ms\<rparr>)"
  by (erule held_frame) simp_all

lemma held_insert_member: "held orgs bans s \<Longrightarrow> insert_member row s = Inr (a, t) \<Longrightarrow> held orgs bans t"
  by (auto simp: insert_member_def held_members split: if_splits)

lemma held_update_member_role: "held orgs bans s \<Longrightarrow> update_member_role oid uid r s = Inr (a, t) \<Longrightarrow> held orgs bans t"
  by (auto simp: update_member_role_def Let_def held_members split: if_splits)

lemma held_delete_member: "held orgs bans s \<Longrightarrow> delete_member oid uid s = Inr (a, t) \<Longrightarrow> held orgs bans t"
  by (auto simp: delete_member_def Let_def held_members split: if_splits)

lemma held_move_member: "held orgs bans s \<Longrightarrow> move_member oid uid target r s = Inr (a, t) \<Longrightarrow> held orgs bans t"
  by (auto simp: move_member_def Let_def held_members split: if_splits)

lemma held_insert_invite:
  assumes "held orgs bans s" "insert_invite row s = Inr (a, t)" "\<And>oid. i_org row = Some oid \<Longrightarrow> \<not> is_banned oid s"
  shows "held orgs bans t"
  using assms(2,3) by (auto simp: insert_invite_def split: if_splits intro!: held_invites [OF assms(1)])

lemma held_update_invites:
  assumes "held orgs bans s" "\<And>i. i_org (f i) = i_org i" "\<And>i. live_invite (f i) \<Longrightarrow> live_invite i"
  shows "held orgs bans (s\<lparr>invitations := update_where P f (invitations s)\<rparr>)"
proof (rule held_invites [OF assms(1) refl])
  fix i oid
  assume "i \<in> set (update_where P f (invitations s))" "live_invite i" "i_org i = Some oid"
  then obtain y where "y \<in> set (invitations s)" "i = (if P y then f y else y)" by (auto simp: update_where_def)
  with \<open>live_invite i\<close> assms(2,3) [of y]
  show "(\<exists>i'\<in>set (invitations s). i_org i' = i_org i \<and> live_invite i') \<or> \<not> is_banned oid s"
    by (intro disjI1 bexI [of _ y]) (auto split: if_splits)
qed

lemma held_update_invite_role: "held orgs bans s \<Longrightarrow> update_invite_role iid r s = Inr (a, t) \<Longrightarrow> held orgs bans t"
  by (auto simp: update_invite_role_def Let_def live_invite_def split: option.splits if_splits intro: held_update_invites)

lemma held_delete_expired: "held orgs bans s \<Longrightarrow> delete_expired_invites oid email now s = Inr (a, t) \<Longrightarrow> held orgs bans t"
  by (rule held_invites) (auto simp: delete_expired_invites_def)

lemma held_revoke_invites: "held orgs bans s \<Longrightarrow> revoke_invites P now s = Inr (a, t) \<Longrightarrow> held orgs bans t"
  by (auto simp: revoke_invites_def Let_def live_invite_def intro: held_update_invites)

lemmas held_statements = held_insert_member held_update_member_role held_delete_member held_move_member
  held_update_invite_role held_delete_expired held_revoke_invites

lemma held_invite_member:
  assumes "\<And>u. held orgs bans u \<Longrightarrow> \<not> is_banned (in_org inp) u"
  shows "keeps (held orgs bans) (inviteMember e mailer inp)"
proof -
  have "keeps (held orgs bans) (call flt (insert_invite (new_invite e inp)))" for flt
    by (rule keeps_call, rule held_insert_invite, assumption, assumption) (use assms in \<open>auto simp: new_invite_def\<close>)
  moreover have "keeps (held orgs bans) (call flt (delete_expired_invites oid email now))" for flt oid email now
    by (rule keeps_call) (rule held_delete_expired)
  moreover have "keeps (held orgs bans) (call flt (update_invite_role iid r))" for flt iid r
    by (rule keeps_call) (rule held_update_invite_role)
  ultimately show ?thesis unfolding inviteMember_def findOrCreateInvite_def
    by (intro keeps_bind keeps_case_sum keeps_case_prod keeps_case_option keeps_if keeps_ret keeps_query)
qed

lemma held_add_or_invite: "keeps (held orgs bans) (addOrInviteMember e mailer inp)"
  unfolding addOrInviteMember_def
proof (rule keeps_bind_query)
  fix s
  assume h: "held orgs bans s"
  let ?x = "read_db (faults e ''organizations.banned_at'') (\<lambda>s. first_where (\<lambda>org. o_id org = in_org inp) (organizations s)) s"
  let ?rest = "bind (query (faults e ''admin_user_id_for_email'') (user_id_for_email (in_email inp))) (\<lambda>lookup.
           case lookup of
             Inl err \<Rightarrow> ret (AddError 500 (message err))
           | Inr userId \<Rightarrow>
               (case userId of
                  Some uid \<Rightarrow>
                    if uid = '''' then inviteMember e mailer inp
                    else bind (call (faults e ''organization_members.insert'')
                           (insert_member \<lparr>m_org = in_org inp, m_user = uid, m_role = in_role inp, m_created_at = now_ms e\<rparr>)) (\<lambda>r.
                         ret (case r of
                                Inl err \<Rightarrow>
                                  if code err = Some ''23505''
                                  then AddError 409 ''That account is already a member of the organization.''
                                  else AddError 500 (message err)
                              | Inr m \<Rightarrow> Added 201 m))
                | None \<Rightarrow> inviteMember e mailer inp))"
  show "keeps (held orgs bans) (case ?x of Inl err \<Rightarrow> ret (AddError 500 (message err))
     | Inr row \<Rightarrow> if Option.bind row o_banned_at \<noteq> None
         then ret (AddError 403 ''This organization is banned. Members cannot be added or invited.'') else ?rest)"
  proof (cases ?x)
    case (Inr row)
    show ?thesis
    proof (cases "Option.bind row o_banned_at")
      case None
      note inv = held_invite_member [OF banned_read [OF h Inr None]]
      have ins: "keeps (held orgs bans) (call flt (insert_member row))" for flt row
        by (rule keeps_call) (rule held_insert_member)
      have "keeps (held orgs bans) ?rest"
        by (intro keeps_bind keeps_case_sum keeps_case_option keeps_if keeps_ret keeps_query inv ins)
      then show ?thesis unfolding Inr sum.case None by simp
    qed (simp add: Inr keeps_ret)
  qed (simp add: keeps_ret)
qed

lemma held_settings: "settings_step s t \<Longrightarrow> held orgs bans s \<Longrightarrow> held orgs bans t"
proof (erule settings_stepE; simp)
  fix e listOrgs mailer origin ident req
  have "keeps (held orgs bans) (members_POST e listOrgs mailer origin ident req)"
    unfolding members_POST_def by (intro keeps_intros held_add_or_invite) (assumption | rule held.cache held.trail)+
  then show "held orgs bans s \<Longrightarrow> held orgs bans (snd (members_POST e listOrgs mailer origin ident req s))" by (rule keepsD)
next
  fix e ident uid req
  have "keeps (held orgs bans) (member_PATCH e ident uid req)"
    unfolding member_PATCH_def patch_commit_def by (intro keeps_intros) (assumption | rule held.cache held.trail | erule held_statements)+
  then show "held orgs bans s \<Longrightarrow> held orgs bans (snd (member_PATCH e ident uid req s))" by (rule keepsD)
next
  fix e ident uid
  have "keeps (held orgs bans) (member_DELETE e ident uid)"
    unfolding member_DELETE_def remove_commit_def by (intro keeps_intros) (assumption | rule held.cache held.trail | erule held_statements)+
  then show "held orgs bans s \<Longrightarrow> held orgs bans (snd (member_DELETE e ident uid s))" by (rule keepsD)
next
  fix e ident iid
  have "keeps (held orgs bans) (invite_DELETE e ident iid)"
    unfolding invite_DELETE_def by (intro keeps_intros) (assumption | rule held.cache held.trail | erule held_statements)+
  then show "held orgs bans s \<Longrightarrow> held orgs bans (snd (invite_DELETE e ident iid s))" by (rule keepsD)
qed

lemma held_panel: "panel_step s t \<Longrightarrow> held orgs bans s \<Longrightarrow> held orgs bans t"
proof (erule panel_stepE; simp)
  fix e mailer origin oid req
  have "keeps (held orgs bans) (admin_members_POST e mailer origin oid req)"
    unfolding admin_members_POST_def by (intro keeps_intros held_add_or_invite) (rule held.trail)
  then show "held orgs bans s \<Longrightarrow> held orgs bans (snd (admin_members_POST e mailer origin oid req s))" by (rule keepsD)
next
  fix e oid uid req
  have "keeps (held orgs bans) (admin_member_PATCH e oid uid req)"
    unfolding admin_member_PATCH_def by (intro keeps_intros) (auto intro: held_statements)
  then show "held orgs bans s \<Longrightarrow> held orgs bans (snd (admin_member_PATCH e oid uid req s))" by (rule keepsD)
next
  fix e oid uid
  have "keeps (held orgs bans) (admin_member_DELETE e oid uid)"
    unfolding admin_member_DELETE_def by (intro keeps_intros) (auto intro: held_statements)
  then show "held orgs bans s \<Longrightarrow> held orgs bans (snd (admin_member_DELETE e oid uid s))" by (rule keepsD)
next
  fix e mailer req
  have "keeps (held orgs bans) (admin_invitations_POST e mailer req)"
    unfolding admin_invitations_POST_def
    by (intro keeps_intros) (auto simp: tenant_invite_def intro: held_statements held_insert_invite)
  then show "held orgs bans s \<Longrightarrow> held orgs bans (snd (admin_invitations_POST e mailer req s))" by (rule keepsD)
next
  fix e iid
  have "keeps (held orgs bans) (admin_invitation_DELETE e iid)"
    unfolding admin_invitation_DELETE_def by (intro keeps_intros) (auto intro: held_statements)
  then show "held orgs bans s \<Longrightarrow> held orgs bans (snd (admin_invitation_DELETE e iid s))" by (rule keepsD)
qed

subsection \<open>Operator status and its keys\<close>

lemma superkeys_frame:
  assumes "ops_inv s" "t = s\<lparr>superadmin_keys := ks, platform_admins := as\<rparr>"
    "\<And>k. k \<in> set ks \<Longrightarrow> pk_revoked_at k = None \<Longrightarrow> \<not> on_roster (pk_user k) s \<and> pk_user k \<in> set as"
  shows "ops_inv t"
proof -
  note o = assms(1) [unfolded ops_inv_def]
  have b: "is_banned x t = is_banned x s" for x by (rule is_banned_cong) (simp add: assms(2))
  have r: "on_roster x t = on_roster x s" for x by (simp add: on_roster_def assms(2))
  have fr: "organizations t = organizations s" "api_keys t = api_keys s" "users t = users s" "invitations t = invitations s"
    "user_bans t = user_bans s" by (simp_all add: assms(2))
  have "superkeys_sealed t" using assms(3) unfolding superkeys_sealed_def r by (simp add: assms(2))
  moreover have "org_ids_unique t" "keys_sealed t" "invites_sealed t" "roster_agrees t" "sweeps_owned t"
    using o by (simp_all add: org_ids_unique_def keys_sealed_def invites_sealed_def roster_agrees_def sweeps_owned_def b r fr)
  ultimately show ?thesis by (simp add: ops_inv_def)
qed

definition dead_keys :: "string \<Rightarrow> db \<Rightarrow> bool" where
  "dead_keys uid s \<longleftrightarrow> (\<forall>k\<in>set (superadmin_keys s). pk_user k = uid \<longrightarrow> pk_revoked_at k \<noteq> None)"

lemma revoke_superkeys_inv:
  assumes "ops_inv s" "revoke_superkeys P now s = Inr (a, t)"
  shows "ops_inv t"
proof (rule superkeys_frame [OF assms(1)])
  let ?Q = "\<lambda>k. P k \<and> pk_revoked_at k = None"
  show "t = s\<lparr>superadmin_keys := update_where ?Q (\<lambda>k. k\<lparr>pk_revoked_at := Some now\<rparr>) (superadmin_keys s), platform_admins := platform_admins s\<rparr>"
    using assms(2) by (auto simp: revoke_superkeys_def Let_def)
  show "\<And>k. k \<in> set (update_where ?Q (\<lambda>k. k\<lparr>pk_revoked_at := Some now\<rparr>) (superadmin_keys s)) \<Longrightarrow> pk_revoked_at k = None
      \<Longrightarrow> \<not> on_roster (pk_user k) s \<and> pk_user k \<in> set (platform_admins s)"
    using assms(1) by (auto simp: ops_inv_def superkeys_sealed_def update_where_def split: if_splits)
qed

lemma revoke_superkeys_dead: "revoke_superkeys (\<lambda>k. pk_user k = uid) now s = Inr (a, t) \<Longrightarrow> dead_keys uid t"
proof -
  assume "revoke_superkeys (\<lambda>k. pk_user k = uid) now s = Inr (a, t)"
  then have t: "t = s\<lparr>superadmin_keys := update_where (\<lambda>k. pk_user k = uid \<and> pk_revoked_at k = None)
      (\<lambda>k. k\<lparr>pk_revoked_at := Some now\<rparr>) (superadmin_keys s)\<rparr>"
    by (auto simp: revoke_superkeys_def Let_def)
  show ?thesis by (simp add: t dead_keys_def ball_update_where)
qed

lemma delete_platform_admin_inv:
  assumes "ops_inv s" "dead_keys uid s" "delete_platform_admin uid s = Inr (a, t)"
  shows "ops_inv t \<and> dead_keys uid t"
proof
  show "ops_inv t"
  proof (rule superkeys_frame [OF assms(1)])
    show "t = s\<lparr>superadmin_keys := superadmin_keys s, platform_admins := filter (\<lambda>a. a \<noteq> uid) (platform_admins s)\<rparr>"
      using assms(3) by (simp add: delete_platform_admin_def)
  qed (use assms(1,2) in \<open>auto simp: ops_inv_def superkeys_sealed_def dead_keys_def\<close>)
  show "dead_keys uid t" using assms(2,3) by (auto simp: delete_platform_admin_def dead_keys_def)
qed

interpretation ops: table_invariant ops_inv
  by unfold_locales (erule ops_inv_frame [THEN iffD2, rotated -1]; simp)+

lemma dead_keys_trail: "dead_keys uid s \<Longrightarrow> dead_keys uid (s\<lparr>audit_log := rows\<rparr>)"
  by (simp add: dead_keys_def)

lemma keeps_strip: "keeps (\<lambda>s. ops_inv s \<and> dead_keys uid s) (strip_operator e actor uid)"
proof -
  let ?P = "\<lambda>s. ops_inv s \<and> dead_keys uid s"
  have "keeps ?P (call flt (delete_platform_admin uid))" for flt
    by (rule keeps_call, rule delete_platform_admin_inv [OF conjunct1 conjunct2])
  moreover have "keeps ?P (recordAuditEvent e ev)" for ev
    by (rule keeps_audit) (rule conjI, rule ops.trail, erule conjunct1, rule dead_keys_trail, erule conjunct2)
  ultimately show ?thesis unfolding strip_operator_def by (intro keeps_bind keeps_case_sum keeps_ret)
qed

lemma revokeSuperadminKeysForUser_dead:
  assumes "revokeSuperadminKeysForUser e uid s = (Inr n, t)" "ops_inv s"
  shows "ops_inv t \<and> dead_keys uid t"
proof -
  obtain ids where "call (faults e ''platform_admin_keys.revoke_all'') (revoke_superkeys (\<lambda>k. pk_user k = uid) (now_ms e)) s = (Inr (Inr ids), t)"
    using assms(1) unfolding revokeSuperadminKeysForUser_def by (auto elim!: bind_InrE orThrow_InrE)
  then have "revoke_superkeys (\<lambda>k. pk_user k = uid) (now_ms e) s = Inr (ids, t)" by (auto dest!: call_InrD)
  with assms(2) show ?thesis by (auto intro: revoke_superkeys_inv revoke_superkeys_dead)
qed

lemma keeps_revoke_all: "keeps ops_inv (revokeSuperadminKeysForUser e uid)"
  unfolding revokeSuperadminKeysForUser_def by (intro keeps_intros) (rule revoke_superkeys_inv)

lemma strip_after_revoke:
  assumes "ops_inv s"
  shows "ops_inv (snd (bind (catching (bind (revokeSuperadminKeysForUser e uid) (\<lambda>_. ret None)) (\<lambda>err. ret (Some (h err))))
     (\<lambda>failed. case failed of Some r \<Rightarrow> ret r | None \<Rightarrow> strip_operator e actor uid) s))"
proof (cases "revokeSuperadminKeysForUser e uid s")
  case (Pair x t)
  show ?thesis
  proof (cases x)
    case (Inl err)
    then show ?thesis using keepsD [OF keeps_revoke_all assms, of e uid] Pair by (simp add: bind_apply catching_apply)
  next
    case (Inr n)
    then have "ops_inv t \<and> dead_keys uid t" using revokeSuperadminKeysForUser_dead Pair assms by blast
    from keepsD [OF keeps_strip this, of e actor] show ?thesis using Pair Inr by (simp add: bind_apply catching_apply)
  qed
qed

lemma site_admin_DELETE_inv: "keeps ops_inv (site_admin_DELETE e uid)"
proof -
  have "keeps ops_inv (bind (catching (bind (revokeSuperadminKeysForUser e uid) (\<lambda>_. ret None)) (\<lambda>err. ret (Some (h err))))
     (\<lambda>failed. case failed of Some r \<Rightarrow> ret r | None \<Rightarrow> strip_operator e actor uid))" for h actor
    using strip_after_revoke by (simp add: keeps_def)
  note strip = this
  show ?thesis unfolding site_admin_DELETE_def
    by (rule keeps_bind, rule keeps_isPlatformAdmin, rule keeps_if, rule keeps_ret, rule keeps_bind, rule keeps_requireAuthenticatedUser,
        rule keeps_if, rule keeps_ret, rule keeps_bind, rule keeps_query, intro keeps_case_sum keeps_case_option keeps_ret strip)
qed

text \<open>A grant mints only for an account that is off the roster and, by then, an operator.\<close>

definition minting :: "ban_row list \<Rightarrow> string \<Rightarrow> db \<Rightarrow> bool" where
  "minting bans uid s \<longleftrightarrow> ops_inv s \<and> user_bans s = bans \<and> \<not> on_roster uid s \<and> uid \<in> set (platform_admins s)"

lemma keeps_mint_for_grant: "keeps (minting bans uid) (mint_for_grant e sha uid ownerEmail)"
proof -
  have ins: "keeps (minting bans uid) (call flt (insert_superkey row))" if "pk_user row = uid" for flt row
  proof (rule keeps_call)
    fix s a t
    assume m: "minting bans uid s" and i: "insert_superkey row s = Inr (a, t)"
    then have t: "t = s\<lparr>superadmin_keys := superadmin_keys s @ [row], platform_admins := platform_admins s\<rparr>"
      by (auto simp: insert_superkey_def split: if_splits)
    have "ops_inv t" using m by (intro superkeys_frame [OF _ t]) (auto simp: minting_def ops_inv_def superkeys_sealed_def that)
    then show "minting bans uid t" using m by (auto simp: minting_def t on_roster_def)
  qed
  show ?thesis unfolding mint_for_grant_def mintSuperadminKey_def Let_def
    by (intro keeps_case_option keeps_ret keeps_catching keeps_bind keeps_orThrow ins) simp
qed

lemma minting_trail: "minting bans uid s \<Longrightarrow> minting bans uid (s\<lparr>audit_log := rows\<rparr>)"
  by (auto simp: minting_def on_roster_def intro: ops.trail)

lemma upsert_platform_admin_minting:
  assumes "ops_inv s" "\<not> on_roster uid s" "upsert_platform_admin uid s = Inr (a, t)"
  shows "minting (user_bans s) uid t"
proof (cases "uid \<in> set (platform_admins s)")
  case True
  then show ?thesis using assms by (auto simp: upsert_platform_admin_def list_ex_iff minting_def)
next
  case False
  then have t: "t = s\<lparr>superadmin_keys := superadmin_keys s, platform_admins := platform_admins s @ [uid]\<rparr>"
    using assms(3) by (auto simp: upsert_platform_admin_def list_ex_iff split: if_splits)
  have "ops_inv t" using assms(1) by (intro superkeys_frame [OF _ t]) (auto simp: ops_inv_def superkeys_sealed_def)
  then show ?thesis using assms(2) by (simp add: minting_def t on_roster_def)
qed

lemma grant_operator_inv:
  assumes "ops_inv s" "\<not> on_roster uid s"
  shows "ops_inv (snd (grant_operator e sha actor uid ownerEmail s))"
proof -
  let ?P = "\<lambda>t. ops_inv t \<and> user_bans t = user_bans s \<and> \<not> on_roster uid t"
  let ?Q = "minting (user_bans s) uid"
  let ?rest = "\<lambda>g. case g of Inl err \<Rightarrow> ret (error_resp (message err) 500)
     | Inr granted \<Rightarrow> if length granted = 0 then ret (granted_json uid [])
         else bind (recordAuditEvent e (platform_event actor ''platform_admin.grant'' uid)) (\<lambda>_. mint_for_grant e sha uid ownerEmail)"
  have audit: "keeps ?Q (recordAuditEvent e ev)" for ev by (rule keeps_audit) (rule minting_trail)
  have rest: "keeps ?Q (?rest g)" for g
    by (intro keeps_case_sum keeps_if keeps_ret keeps_bind audit keeps_mint_for_grant)
  obtain g t where c: "call (faults e ''platform_admins.upsert'') (upsert_platform_admin uid) s = (Inr g, t)"
    by (simp add: call_apply)
  have "(?Q t) \<or> (t = s \<and> (\<exists>err. g = Inl err))"
    using c upsert_platform_admin_minting [OF assms]
    by (auto simp: call_def exec_def split: option.splits fault.splits sum.splits prod.splits)
  then have "ops_inv (snd (?rest g t))"
  proof
    assume "?Q t"
    from keepsD [OF rest this, of g] show ?thesis by (simp add: minting_def)
  qed (use assms(1) in auto)
  then show ?thesis by (simp only: grant_operator_def bind_apply c prod.case sum.case)
qed

lemma site_admin_PUT_inv: "keeps ops_inv (site_admin_PUT e sha getUser uid)"
proof -
  have grant: "keeps ops_inv (bind (query (faults e ''user_bans.read'') (\<lambda>s. first_where (\<lambda>b. b_user b = uid) (user_bans s))) (\<lambda>ban.
              case ban of
                Inl err \<Rightarrow> ret (error_resp (message err) 500)
              | Inr (Some _) \<Rightarrow>
                  ret (error_resp ''This account is banned. Unban it before granting experiential-admin status.'' 409)
              | Inr None \<Rightarrow> grant_operator e sha actor uid ownerEmail))" for actor ownerEmail
    unfolding keeps_def
  proof (intro allI impI)
    fix s
    assume o: "ops_inv s"
    show "ops_inv (snd (bind (query (faults e ''user_bans.read'') (\<lambda>s. first_where (\<lambda>b. b_user b = uid) (user_bans s))) (\<lambda>ban.
              case ban of
                Inl err \<Rightarrow> ret (error_resp (message err) 500)
              | Inr (Some _) \<Rightarrow>
                  ret (error_resp ''This account is banned. Unban it before granting experiential-admin status.'' 409)
              | Inr None \<Rightarrow> grant_operator e sha actor uid ownerEmail) s))"
    proof (cases "read_db (faults e ''user_bans.read'') (\<lambda>s. first_where (\<lambda>b. b_user b = uid) (user_bans s)) s")
      case (Inr found)
      show ?thesis
      proof (cases found)
        case None
        then have "first_where (\<lambda>b. b_user b = uid) (user_bans s) = None" using read_db_InrD [OF Inr] by simp
        then have "\<not> on_roster uid s" by (auto simp: on_roster_def first_where_None)
        from grant_operator_inv [OF o this] show ?thesis by (simp add: bind_apply Inr None)
      qed (simp add: bind_apply Inr o)
    qed (simp add: bind_apply o)
  qed
  show ?thesis unfolding site_admin_PUT_def
    by (rule keeps_bind, rule keeps_isPlatformAdmin, rule keeps_if, rule keeps_ret, rule keeps_bind, rule keeps_requireAuthenticatedUser)
      (intro keeps_case_option keeps_ret grant)
qed

subsection \<open>Histories\<close>

lemma keeps_record_user_ban: "keeps ops_inv (call flt (record_user_ban uid actor r now))"
  by (rule keeps_call) (auto simp: record_user_ban_def apply_user_ban_inv split: if_splits)

lemma keeps_record_org_ban: "keeps ops_inv (call flt (record_org_ban oid actor r now))"
  by (rule keeps_call) (rule record_org_ban_inv)

lemma keeps_clear_org_ban: "keeps ops_inv (call flt (clear_org_ban oid))"
  by (rule keeps_call) (rule clear_org_ban_inv)

lemma keeps_clear_user_ban: "keeps ops_inv (call flt (\<lambda>s. Inr ((), clear_user_ban uid s)))"
  by (rule keeps_call) (auto simp: clear_user_ban_inv)

lemma ban_routes_inv:
  "keeps ops_inv (org_ban_PUT e oid request)" "keeps ops_inv (org_ban_DELETE e oid)"
  "keeps ops_inv (user_ban_PUT e getUser uid request)" "keeps ops_inv (user_ban_DELETE e getUser uid)"
  unfolding org_ban_PUT_def org_ban_DELETE_def user_ban_PUT_def user_ban_DELETE_def with_org_def
  by (intro keeps_bind keeps_isPlatformAdmin keeps_requireAuthenticatedUser keeps_if keeps_ret keeps_case_option keeps_case_sum
      keeps_query keeps_record_org_ban keeps_clear_org_ban keeps_record_user_ban keeps_clear_user_ban)+

lemma superkey_DELETE_inv: "keeps ops_inv (superkey_DELETE e kid)"
proof -
  have "keeps ops_inv (call flt (revoke_superkeys P now))" for flt P now by (rule keeps_call) (rule revoke_superkeys_inv)
  then show ?thesis unfolding superkey_DELETE_def revokeSuperadminKey_def
    by (intro keeps_handler keeps_bind keeps_isPlatformAdmin keeps_if keeps_ret keeps_orThrow keeps_query)
qed

text \<open>Any request of the operator panel, of the key pages or of the organization settings, with any clock and any fault.\<close>

inductive operator_step :: "db \<Rightarrow> db \<Rightarrow> bool" where
  ban_org: "operator_step s (snd (org_ban_PUT e oid request s))"
| unban_org: "operator_step s (snd (org_ban_DELETE e oid s))"
| ban_user: "operator_step s (snd (user_ban_PUT e getUser uid request s))"
| unban_user: "operator_step s (snd (user_ban_DELETE e getUser uid s))"
| grant: "operator_step s (snd (site_admin_PUT e sha getUser uid s))"
| ungrant: "operator_step s (snd (site_admin_DELETE e uid s))"
| kill_key: "operator_step s (snd (superkey_DELETE e kid s))"
| mint: "operator_step s (snd (keys_POST e sha request s))"
| rotate: "operator_step s (snd (key_rotate_POST e sha kid request s))"
| revoke: "operator_step s (snd (key_DELETE e kid s))"
| play: "operator_step s (snd (mintPlaygroundServingKey e sha oid uid s))"
| play_end: "operator_step s (snd (revokePlaygroundKey e kid over s))"
| settings: "settings_step s t \<Longrightarrow> operator_step s t"
| panel: "panel_step s t \<Longrightarrow> operator_step s t"

inductive_cases operator_stepE: "operator_step s t"

lemma held_ops: "(\<And>orgs bans. held orgs bans s \<Longrightarrow> held orgs bans t) \<Longrightarrow> ops_inv s \<Longrightarrow> ops_inv t"
  by (auto simp: held_def)

lemma keeps_held_ops: "(\<And>orgs bans. keeps (held orgs bans) m) \<Longrightarrow> ops_inv s \<Longrightarrow> ops_inv (snd (m s))"
  using held_ops [of s "snd (m s)"] by (auto dest: keepsD)

lemma operator_step_inv: "operator_step s t \<Longrightarrow> ops_inv s \<Longrightarrow> ops_inv t"
proof (induction rule: operator_step.induct)
  case (mint s e sha request) then show ?case using keeps_held_ops [OF held_keys_POST] by blast
next
  case (rotate s e sha kid request) then show ?case using keeps_held_ops [OF held_rotate] by blast
next
  case (revoke s e kid) then show ?case using keeps_held_ops [OF held_key_DELETE] by blast
next
  case (play s e sha oid uid) then show ?case using keeps_held_ops [OF held_playground] by blast
next
  case (play_end s e kid over) then show ?case using keeps_held_ops [OF held_playground_revoke] by blast
next
  case (settings s t) then show ?case using held_settings held_ops [of s t] by blast
next
  case (panel s t) then show ?case using held_panel held_ops [of s t] by blast
qed (blast intro: keepsD ban_routes_inv site_admin_PUT_inv site_admin_DELETE_inv superkey_DELETE_inv)+

lemma operator_history_inv: "operator_step\<^sup>*\<^sup>* s t \<Longrightarrow> ops_inv s \<Longrightarrow> ops_inv t"
  by (induction rule: rtranclp_induct) (auto intro: operator_step_inv)


section \<open>What a ban does\<close>

lemma fold_preserves_in: "(\<And>x s. x \<in> set xs \<Longrightarrow> P s \<Longrightarrow> P (f x s)) \<Longrightarrow> P s \<Longrightarrow> P (fold f xs s)"
  by (induction xs arbitrary: s) auto

lemma on_roster_sweep: "on_roster v (sweep_member oid actor r now u s) \<longleftrightarrow> v = u \<or> on_roster v s"
  by (simp add: sweep_member_def on_roster_def roster_apply)

lemma swept_on_roster: "v \<in> set us \<or> on_roster v s \<Longrightarrow> on_roster v (fold (sweep_member oid actor r now) us s)"
  by (induction us arbitrary: s) (auto simp: on_roster_sweep)

lemma sweep_bans:
  assumes "u \<notin> b_user ` set old" and "user_bans s = old @ new" and "\<forall>b\<in>set new. b_via_org b = Some oid \<and> b_user b \<in> L" and "u \<in> L"
  shows "\<exists>new'. user_bans (sweep_member oid actor r now u s) = old @ new' \<and> (\<forall>b\<in>set new'. b_via_org b = Some oid \<and> b_user b \<in> L)"
proof -
  let ?v = "\<lambda>b. b\<lparr>b_via_org := Some oid\<rparr>" and ?w = "\<lambda>b. b\<lparr>b_reason := r, b_banned_by := actor, b_at := now\<rparr>"
  have old: "update_where (\<lambda>b. b_user b = u) f old = old" for f
    using assms(1) by (induction old) (auto simp: update_where_def)
  show ?thesis
  proof (cases "\<exists>b\<in>set new. b_user b = u")
    case True
    then have e: "user_bans (sweep_member oid actor r now u s)
        = old @ update_where (\<lambda>b. b_user b = u) ?v (update_where (\<lambda>b. b_user b = u) ?w new)"
      using assms(1,2) old by (auto simp: sweep_member_def via_org_def apply_user_ban_def list_ex_iff update_where_def)
    show ?thesis by (rule exI, rule conjI, rule e) (use assms(3) in \<open>auto simp: where_simps\<close>)
  next
    case False
    have e: "user_bans (sweep_member oid actor r now u s)
        = old @ update_where (\<lambda>b. b_user b = u) ?v (new @ [\<lparr>b_user = u, b_reason = r, b_banned_by = actor, b_at = now, b_via_org = None\<rparr>])"
      using False assms(1,2) old by (auto simp: sweep_member_def via_org_def apply_user_ban_def list_ex_iff update_where_def)
    show ?thesis by (rule exI, rule conjI, rule e) (use assms(3,4) in \<open>auto simp: where_simps\<close>)
  qed
qed

lemma sweep_all_bans:
  assumes "\<forall>u\<in>set us. \<not> on_roster u s"
  shows "\<exists>new. user_bans (fold (sweep_member oid actor r now) us s) = user_bans s @ new
    \<and> (\<forall>b\<in>set new. b_via_org b = Some oid \<and> b_user b \<in> set us)"
  by (rule fold_preserves_in [where P = "\<lambda>t. \<exists>new. user_bans t = user_bans s @ new \<and> (\<forall>b\<in>set new. b_via_org b = Some oid \<and> b_user b \<in> set us)"])
    (use assms sweep_bans in \<open>auto simp: on_roster_def\<close>)

lemma sweep_ids_iff:
  "u \<in> set (sweep_ids oid s) \<longleftrightarrow> \<not> on_roster u s \<and> u \<notin> set (platform_admins s) \<and> (\<exists>m\<in>set (members s). m_org m = oid \<and> m_user m = u)"
  by (auto simp: sweep_ids_def on_roster_def list_ex_iff image_iff) metis

lemmas sweep_ids_fresh = sweep_ids_iff [THEN iffD1]

lemma sweep_frame: "organizations (fold (sweep_member oid actor r now) us s) = organizations s
    \<and> members (fold (sweep_member oid actor r now) us s) = members s
    \<and> invitations (fold (sweep_member oid actor r now) us s) = invitations s"
  by (rule fold_preserves) (simp_all add: sweep_member_def)

lemma sweep_keys: "k \<in> set (api_keys (fold (sweep_member oid actor r now) us s)) \<Longrightarrow> k_revoked_at k = None \<Longrightarrow> k \<in> set (api_keys s)"
proof (induction us arbitrary: s)
  case (Cons u us)
  then have "k \<in> set (api_keys (sweep_member oid actor r now u s))" by simp
  then show ?case using apply_keys [of k u actor r now s] Cons.prems(2) by (simp add: sweep_member_def)
qed simp

lemma org_ban_PUT_200E:
  assumes "org_ban_PUT e oid request s = (Inr r, t)" and "status r = 200"
  obtains actor reason where "getAuthenticatedUser e = Some actor" "is_admin_user s (usr_id actor)" "readReason request = Some reason"
    "record_org_ban oid (usr_id actor) reason (now_ms e) s = Inr ((), t)"
  using assms unfolding org_ban_PUT_def with_org_def bad_reason_def
  by (auto elim!: bind_InrE isPlatformAdmin_InrE requireAuthenticatedUser_InrE
      simp: error_resp_def dest!: call_InrD split: if_splits option.splits sum.splits)

text \<open>
  A ban that answers 200 is complete: an operator asked for it, the organization is banned, its
  keys and pending invitations are dead, every member but the operators is on the roster, and the
  accounts added to the roster are members of the organization, none an operator, marked as swept by
  it; every ban there was stays as it was.
\<close>

theorem org_ban_is_complete:
  assumes "org_ban_PUT e oid request s = (Inr r, t)" and "status r = 200"
  shows "(\<exists>actor. getAuthenticatedUser e = Some actor \<and> is_admin_user s (usr_id actor)) \<and> is_banned oid t
    \<and> (\<forall>k\<in>set (api_keys t). k_org k = oid \<longrightarrow> k_revoked_at k \<noteq> None)
    \<and> (\<forall>i\<in>set (invitations t). i_org i = Some oid \<longrightarrow> \<not> live_invite i)
    \<and> (\<forall>m\<in>set (members s). m_org m = oid \<and> m_user m \<notin> set (platform_admins s) \<longrightarrow> m_user m \<in> b_user ` set (user_bans t))
    \<and> (\<exists>new. user_bans t = user_bans s @ new \<and> (\<forall>b\<in>set new. b_via_org b = Some oid
          \<and> b_user b \<notin> set (platform_admins s) \<and> (\<exists>m\<in>set (members s). m_org m = oid \<and> m_user m = b_user b)))"
proof -
  obtain actor reason where a: "getAuthenticatedUser e = Some actor" "is_admin_user s (usr_id actor)" "readReason request = Some reason"
    and rec: "record_org_ban oid (usr_id actor) reason (now_ms e) s = Inr ((), t)"
    using assms by (rule org_ban_PUT_200E)
  let ?s = "ban_tenant oid (usr_id actor) reason (now_ms e) s" and ?sw = "sweep_member oid (usr_id actor) (member_reason reason) (now_ms e)"
  have t: "t = fold ?sw (sweep_ids oid ?s) ?s" and ex: "list_ex (\<lambda>org. o_id org = oid) (organizations s)"
    using rec by (auto simp: record_org_ban_def Let_def split: if_splits)
  have fr: "organizations t = organizations ?s" "invitations t = invitations ?s" using sweep_frame unfolding t by blast+
  have "is_banned oid t" using ex is_banned_cong [OF fr(1)] by (simp add: is_banned_tenant)
  moreover have "\<forall>k\<in>set (api_keys t). k_org k = oid \<longrightarrow> k_revoked_at k \<noteq> None"
  proof (intro ballI impI notI)
    fix k
    assume "k \<in> set (api_keys t)" "k_org k = oid" "k_revoked_at k = None"
    moreover from this(1,3) have "k \<in> set (api_keys ?s)" unfolding t by (rule sweep_keys)
    moreover have "\<forall>k\<in>set (api_keys ?s). k_org k = oid \<longrightarrow> k_revoked_at k \<noteq> None"
      by (simp add: ban_tenant_def ball_update_where)
    ultimately show False by blast
  qed
  moreover have "\<forall>i\<in>set (invitations t). i_org i = Some oid \<longrightarrow> \<not> live_invite i"
    unfolding fr by (simp add: ban_tenant_def ball_update_where live_invite_def)
  moreover have "m_user m \<in> b_user ` set (user_bans t)"
    if "m \<in> set (members s)" "m_org m = oid" "m_user m \<notin> set (platform_admins s)" for m
  proof -
    have "m_user m \<in> set (sweep_ids oid ?s) \<or> on_roster (m_user m) ?s"
      using that unfolding sweep_ids_iff ban_tenant_frame by blast
    then show ?thesis using swept_on_roster unfolding t on_roster_def by blast
  qed
  moreover obtain new where "user_bans t = user_bans ?s @ new" "\<forall>b\<in>set new. b_via_org b = Some oid \<and> b_user b \<in> set (sweep_ids oid ?s)"
    using sweep_all_bans sweep_ids_fresh unfolding t by blast
  then have "\<exists>new. user_bans t = user_bans s @ new \<and> (\<forall>b\<in>set new. b_via_org b = Some oid
          \<and> b_user b \<notin> set (platform_admins s) \<and> (\<exists>m\<in>set (members s). m_org m = oid \<and> m_user m = b_user b))"
    using sweep_ids_fresh [of _ oid ?s] by (intro exI [of _ new]) auto
  ultimately show ?thesis using a by blast
qed

lemma sweep_users:
  "users (fold (sweep_member oid actor r now) us s) = map (\<lambda>u. if u_id u \<in> set us then u\<lparr>u_banned := True\<rparr> else u) (users s)"
  by (induction us arbitrary: s) (auto simp: sweep_member_def apply_user_ban_def update_where_def)

lemma adopting_clear: "adopting_org v (clear_user_ban u s) = adopting_org v s"
  by (simp add: adopting_org_def clear_user_ban_def is_banned_def)

lemma release_all:
  assumes "\<forall>u\<in>set us. adopting_org u s = None"
  shows "user_bans (fold release_swept us s) = filter (\<lambda>b. b_user b \<notin> set us) (user_bans s)
    \<and> users (fold release_swept us s) = map (\<lambda>u. if u_id u \<in> set us then u\<lparr>u_banned := False\<rparr> else u) (users s)
    \<and> organizations (fold release_swept us s) = organizations s \<and> api_keys (fold release_swept us s) = api_keys s
    \<and> invitations (fold release_swept us s) = invitations s"
  using assms
proof (induction us arbitrary: s)
  case (Cons u us)
  then have "release_swept u s = clear_user_ban u s" by (simp add: release_swept_def)
  moreover have "\<forall>v\<in>set us. adopting_org v (clear_user_ban u s) = None" using Cons.prems by (simp add: adopting_clear)
  ultimately show ?case using Cons.IH [of "clear_user_ban u s"]
    by (auto simp: clear_user_ban_def update_where_def intro: filter_cong)
qed simp

lemma org_ban_DELETE_204:
  assumes "org_ban_DELETE e oid s = (Inr r, t)" and "status r = 204"
  shows "clear_org_ban oid s = Inr ((), t)"
  using assms unfolding org_ban_DELETE_def with_org_def
  by (auto elim!: bind_InrE isPlatformAdmin_InrE simp: error_resp_def dest!: call_InrD split: if_splits option.splits sum.splits)


section \<open>Revoking operator status\<close>

text \<open>
  C7. Revoking operator status is authoritative on the keys: when the route answers 204, an operator
  other than the account asked for it, the account is no operator any more and every superadmin key
  it holds is dead, so that granting the status again revives none of them.
\<close>

theorem site_admin_revocation_kills_keys:
  assumes "site_admin_DELETE e uid s = (Inr r, t)" and "status r = 204"
  shows "(\<exists>actor. getAuthenticatedUser e = Some actor \<and> is_admin_user s (usr_id actor) \<and> usr_id actor \<noteq> uid)
    \<and> uid \<notin> set (platform_admins t) \<and> (\<forall>k\<in>set (superadmin_keys t). pk_user k = uid \<longrightarrow> pk_revoked_at k \<noteq> None)
    \<and> platform_admins t = filter (\<lambda>a. a \<noteq> uid) (platform_admins s)
    \<and> (\<forall>k\<in>set (superadmin_keys s). pk_user k \<noteq> uid \<longrightarrow> k \<in> set (superadmin_keys t))"
proof -
  obtain actor u where a: "getAuthenticatedUser e = Some actor" "is_admin_user s (usr_id actor)" "usr_id actor \<noteq> uid"
    and rv: "catching (bind (revokeSuperadminKeysForUser e uid) (\<lambda>_. ret None))
                     (\<lambda>err. ret (Some (error_resp (''Nothing was revoked (''
                        @ (case err of PlainError m \<Rightarrow> m | _ \<Rightarrow> ''Error'') @ ''). The account is still an admin; retry.'') 500))) s = (Inr None, u)"
    and st: "strip_operator e actor uid u = (Inr r, t)"
    using assms unfolding site_admin_DELETE_def
    by (auto elim!: bind_InrE isPlatformAdmin_InrE requireAuthenticatedUser_InrE
        simp: error_resp_def catching_apply split: if_splits option.splits sum.splits prod.splits)
  obtain n where "revokeSuperadminKeysForUser e uid s = (Inr n, u)"
    using rv by (auto simp: catching_apply bind_apply split: sum.splits prod.splits)
  then obtain ids where "revoke_superkeys (\<lambda>k. pk_user k = uid) (now_ms e) s = Inr (ids, u)"
    unfolding revokeSuperadminKeysForUser_def by (auto elim!: bind_InrE orThrow_InrE dest!: call_InrD)
  then have u: "u = s\<lparr>superadmin_keys := update_where (\<lambda>k. pk_user k = uid \<and> pk_revoked_at k = None)
      (\<lambda>k. k\<lparr>pk_revoked_at := Some (now_ms e)\<rparr>) (superadmin_keys s)\<rparr>"
    by (auto simp: revoke_superkeys_def Let_def)
  obtain w where w: "delete_platform_admin uid u = Inr ((), w)"
    and au: "bind (recordAuditEvent e (platform_event actor ''platform_admin.revoke'' uid)) (\<lambda>_. ret (empty_resp 204)) w = (Inr r, t)"
    using st assms(2) unfolding strip_operator_def
    by (auto elim!: bind_InrE simp: error_resp_def dest!: call_InrD split: sum.splits)
  obtain rows where t: "t = (u\<lparr>platform_admins := filter (\<lambda>a. a \<noteq> uid) (platform_admins u)\<rparr>)\<lparr>audit_log := rows\<rparr>"
  proof -
    have w: "w = u\<lparr>platform_admins := filter (\<lambda>a. a \<noteq> uid) (platform_admins u)\<rparr>" using w by (simp add: delete_platform_admin_def)
    from au recordAuditEvent_apply [of e "platform_event actor ''platform_admin.revoke'' uid" w]
    have "t = w \<or> t = w\<lparr>audit_log := audit_log w @ [audit_row_of (platform_event actor ''platform_admin.revoke'' uid)]\<rparr>"
      by (auto elim!: bind_InrE)
    then show thesis using that [of "audit_log t"] unfolding w by auto
  qed
  have "k \<in> set (superadmin_keys u)" if "k \<in> set (superadmin_keys s)" "pk_user k \<noteq> uid" for k
  proof -
    have "k \<in> set (update_where (\<lambda>k. pk_user k = uid \<and> pk_revoked_at k = None)
        (\<lambda>k. k\<lparr>pk_revoked_at := Some (now_ms e)\<rparr>) (superadmin_keys s))"
      unfolding in_update_where by (rule bexI [of _ k]) (use that in simp_all)
    then show ?thesis by (simp add: u)
  qed
  moreover have "\<forall>k\<in>set (superadmin_keys u). pk_user k = uid \<longrightarrow> pk_revoked_at k \<noteq> None" by (simp add: u ball_update_where)
  moreover have "platform_admins u = platform_admins s" by (simp add: u)
  moreover have "superadmin_keys t = superadmin_keys u" "platform_admins t = filter (\<lambda>a. a \<noteq> uid) (platform_admins u)"
    by (simp_all add: t)
  ultimately show ?thesis using a by simp
qed

section \<open>Concrete histories\<close>

definition operator_env :: env where
  "operator_env = sample_env\<lparr>jwt_claims := Some (JObj [(''sub'', JStr ''op''), (''email'', JStr ''op@x.test'')])\<rparr>"

definition operator_db :: db where
  "operator_db = key_db\<lparr>platform_admins := [''op''],
     users := users key_db @ [\<lparr>u_id = ''op'', u_email = ''op@x.test'', u_banned = False\<rparr>]\<rparr>"

definition reason_body :: "string + json" where
  "reason_body = Inr (JObj [(''reason'', JStr '' fraud '')])"

definition found_user :: gotrue_users where
  "found_user uid = Some (Some (uid @ ''@x.test''))"

lemma operator_db_inv: "ops_inv operator_db"
  by (simp add: ops_inv_def ops_defs operator_db_def key_db_def sample_db_def empty_db_def is_banned_def)

definition minted_then_banned :: db where
  "minted_then_banned =
     snd (org_ban_PUT operator_env ''o1'' reason_body (snd (keys_POST sample_env (\<lambda>x. ''sha'' @ x) mint_body operator_db)))"


definition ban_answer :: "(app_error + resp) \<times> db" where
  "ban_answer = org_ban_PUT operator_env ''o1'' reason_body operator_db"

lemma ban_answer_200: "\<exists>r. org_ban_PUT operator_env ''o1'' reason_body operator_db = (Inr r, snd ban_answer) \<and> status r = 200"
proof -
  have "(case fst ban_answer of Inr r \<Rightarrow> status r = 200 | Inl e \<Rightarrow> False)" by code_simp
  then show ?thesis unfolding ban_answer_def by (cases "org_ban_PUT operator_env ''o1'' reason_body operator_db") (auto split: sum.splits)
qed

theorem org_ban_is_complete_witness:
  "filter (\<lambda>m. m_org m = ''o1'' \<and> m_user m \<notin> set (platform_admins operator_db) \<and> m_user m \<notin> b_user ` set (user_bans (snd ban_answer)))
     (members operator_db) = []
   \<and> map b_via_org (user_bans (snd ban_answer)) = [Some ''o1'', Some ''o1'']
   \<and> user_bans operator_db = []"
proof -
  obtain r where "org_ban_PUT operator_env ''o1'' reason_body operator_db = (Inr r, snd ban_answer)" "status r = 200"
    using ban_answer_200 by blast
  from org_ban_is_complete [OF this]
  have "filter (\<lambda>m. m_org m = ''o1'' \<and> m_user m \<notin> set (platform_admins operator_db) \<and> m_user m \<notin> b_user ` set (user_bans (snd ban_answer)))
     (members operator_db) = []" unfolding filter_empty_conv by blast
  moreover have "map b_via_org (user_bans (snd ban_answer)) = [Some ''o1'', Some ''o1'']" by code_simp
  moreover have "user_bans operator_db = []" by code_simp
  ultimately show ?thesis by blast
qed


definition two_operators :: db where
  "two_operators = snd (site_admin_PUT operator_env (\<lambda>x. ''sha'' @ x) found_user ''u2'' operator_db)"

theorem site_admin_revocation_kills_keys_witness:
  "map pk_name (superadmin_keys two_operators) = [''granted 1970-01-01''] \<and> ''u2'' \<in> set (platform_admins two_operators)
   \<and> filter (\<lambda>k. pk_revoked_at k = None) (superadmin_keys (snd (site_admin_DELETE operator_env ''u2'' two_operators))) = []"
proof -
  have k: "map pk_name (superadmin_keys two_operators) = [''granted 1970-01-01'']" "''u2'' \<in> set (platform_admins two_operators)"
    and o: "map pk_user (superadmin_keys (snd (site_admin_DELETE operator_env ''u2'' two_operators))) = [''u2'']" by code_simp+
  have "(case fst (site_admin_DELETE operator_env ''u2'' two_operators) of Inr r \<Rightarrow> status r = 204 | Inl e \<Rightarrow> False)" by code_simp
  then obtain r t where u: "site_admin_DELETE operator_env ''u2'' two_operators = (Inr r, t)" "status r = 204"
    by (cases "site_admin_DELETE operator_env ''u2'' two_operators") (auto split: sum.splits)
  from site_admin_revocation_kills_keys [OF u]
  have "\<forall>k\<in>set (superadmin_keys t). pk_user k = ''u2'' \<longrightarrow> pk_revoked_at k \<noteq> None" by blast
  with o k show ?thesis by (auto simp: u filter_empty_conv)
qed

text \<open>
  An individual ban of an account a tenant ban swept does not survive the tenant's unban: the
  upsert refreshes the reason and the operator but keeps the mark of the sweep, so unbanning the
  organization lifts a ban an operator issued for the account itself.
\<close>

theorem individual_ban_of_swept_member_is_lifted:
  "let s1 = snd (org_ban_PUT operator_env ''o1'' reason_body operator_db);
       s2 = snd (user_ban_PUT operator_env found_user ''u2'' reason_body s1);
       s3 = snd (org_ban_DELETE operator_env ''o1'' s2)
   in map b_reason (filter (\<lambda>b. b_user b = ''u2'') (user_bans s2)) = [''fraud'']
      \<and> status (response (user_ban_PUT operator_env found_user ''u2'' reason_body) s1) = 200
      \<and> list_all (\<lambda>b. b_user b \<noteq> ''u2'') (user_bans s3)
      \<and> list_ex (\<lambda>u. u_id u = ''u2'' \<and> \<not> u_banned u) (users s3)"
  unfolding Let_def by (intro conjI) code_simp+

text \<open>
  A banned account's session that has not expired still mints a key, and the key outlives the session:
  the mint asks whether the organization is banned, never whether the account is.
\<close>

theorem banned_account_mints_a_key:
  "let s = snd (user_ban_PUT operator_env found_user ''u1'' reason_body operator_db);
       t = snd (keys_POST sample_env (\<lambda>x. ''sha'' @ x) mint_body s)
   in list_ex (\<lambda>u. u_id u = ''u1'' \<and> u_banned u) (users t)
      \<and> list_ex (\<lambda>k. k_created_by k = ''u1'' \<and> k_revoked_at k = None) (api_keys t)"
  unfolding Let_def by (intro conjI) code_simp+

text \<open>
  The operator panel moves a member into a banned organization, although the organization's ban is
  meant to stop joins; the account it moves is not banned.
\<close>

theorem move_joins_a_banned_organization:
  "let s = snd (org_ban_PUT operator_env ''o1'' reason_body (operator_db\<lparr>organizations := organizations operator_db
         @ [(hd (organizations operator_db))\<lparr>o_id := ''o2'', o_slug := ''two''\<rparr>],
         members := members operator_db @ [\<lparr>m_org = ''o2'', m_user = ''u3'', m_role = ''user'', m_created_at = 3\<rparr>]\<rparr>));
       t = snd (admin_member_PATCH operator_env ''o2'' ''u3'' (Inr (JObj [(''targetOrgId'', JStr ''o1'')])) s)
   in is_banned ''o1'' t \<and> list_ex (\<lambda>m. m_org m = ''o1'' \<and> m_user m = ''u3'') (members t)
      \<and> list_ex (\<lambda>u. u_id u = ''u3'' \<and> \<not> u_banned u) (users t)"
  unfolding Let_def by (intro conjI) code_simp+

end
