(* ===== verification/Number_String.thy ===== *)
theory Number_String
  imports Number_Text
begin

text \<open>
  \<open>String(x)\<close> reads back as \<open>x\<close>. The search for the fewest digits always succeeds, because a decimal
  with 17 significant digits lies closer to a double than half the distance to its neighbours; what is
  printed is a numeric literal; and reading it rounds to the double it came from.
\<close>

section \<open>Rounding something near a double\<close>

lemma round_half_even_near: "\<bar>x - of_int k\<bar> < 1 / 2 \<Longrightarrow> round_half_even x = k"
proof -
  assume a: "\<bar>x - of_int k\<bar> < 1 / 2"
  have "\<bar>of_int (round_half_even x) - x\<bar> \<le> 1 / 2" by (rule round_half_even_error)
  with a have "\<bar>of_int (round_half_even x) - (of_int k :: rat)\<bar> < 1" by linarith
  then have "\<bar>of_int (round_half_even x - k) :: rat\<bar> < 1" by simp
  then show ?thesis by linarith
qed

lemma fl_at_grid: "0 < d \<Longrightarrow> \<bar>d / 2 powi ulp_exp d - of_int k\<bar> < 1 / 2 \<Longrightarrow> fl d = of_int k * 2 powi ulp_exp d"
  by (simp add: fl_def round_half_even_near)

lemma ulp_exp_eq:
  assumes "0 < r" and "2 powi (u + 52) \<le> r" and "r < 2 powi (u + 53)" and "- 1074 \<le> u"
  shows "ulp_exp r = u"
proof (rule antisym)
  show "ulp_exp r \<le> u"
  proof (rule ccontr)
    assume a: "\<not> ulp_exp r \<le> u"
    then have "2 powi (ulp_exp r + 52) \<le> r" using assms by (intro ulp_exp_lower) auto
    moreover have "(2 :: rat) powi (u + 53) \<le> 2 powi (ulp_exp r + 52)" using a by (intro powi_mono2) simp
    ultimately show False using assms(3) by linarith
  qed
  show "u \<le> ulp_exp r"
  proof (rule ccontr)
    assume a: "\<not> u \<le> ulp_exp r"
    have "r < 2 powi (ulp_exp r + 53)" using assms(1) by (rule ulp_exp_upper)
    moreover have "(2 :: rat) powi (ulp_exp r + 53) \<le> 2 powi (u + 52)" using a by (intro powi_mono2) simp
    ultimately show False using assms(2) by linarith
  qed
qed

lemma double_on_grid:
  assumes "0 < m" and "fl m = m"
  obtains k where "m = of_int k * 2 powi ulp_exp m" and "0 < k" and "k < 2 ^ 53"
proof -
  let ?U = "(2 :: rat) powi ulp_exp m"
  have m: "m = of_int (round_half_even (m / ?U)) * ?U" using assms by (simp add: fl_def)
  let ?k = "round_half_even (m / ?U)"
  have "0 < (of_int ?k :: rat) * ?U" using assms(1) m by simp
  then have "0 < ?k" using powi_pos2 [of "ulp_exp m"] by (auto simp: zero_less_mult_iff simp del: powi_pos2)
  moreover have "of_int ?k * ?U < 2 ^ 53 * ?U"
    using ulp_exp_upper [OF assms(1)] m by (simp add: powi_add2 mult.commute)
  then have "(of_int ?k :: rat) < of_int (2 ^ 53)" by simp
  then have "?k < 2 ^ 53" unfolding of_int_less_iff .
  ultimately show thesis using m that by blast
qed

lemma scale_difference: "0 < g \<Longrightarrow> \<bar>a - b\<bar> * g = \<bar>a * g - b * g\<bar>" for a b g :: rat
  by (simp add: abs_mult_pos left_diff_distrib)

lemma binade_bottom: "k - x < k / 2 ^ 54 \<Longrightarrow> x < 2 ^ 52 \<Longrightarrow> k < 2 ^ 52 + 1" for k x :: rat
  by (simp add: field_simps)

lemma binade_half: "\<bar>x - k\<bar> < 1 / 2 \<Longrightarrow> 2 ^ 52 \<le> k \<Longrightarrow> 2 ^ 51 \<le> x" for k x :: rat
proof -
  assume "\<bar>x - k\<bar> < 1 / 2" and k: "2 ^ 52 \<le> k"
  then have "k - 1 \<le> x" by linarith
  with k show ?thesis by simp
qed

lemma binade_quarter: "\<bar>x - k\<bar> < k / 2 ^ 54 \<Longrightarrow> k = 2 ^ 52 \<Longrightarrow> \<bar>2 * x - 2 * k\<bar> < 1 / 2" for k x :: rat
proof -
  assume a: "\<bar>x - k\<bar> < k / 2 ^ 54" and k: "k = 2 ^ 52"
  have "k / 2 ^ 54 = 1 / 4" by (simp add: k)
  with a have "\<bar>x - k\<bar> < 1 / 4" by simp
  then show ?thesis by linarith
qed

lemma fl_near_double:
  assumes m: "0 < m" "fl m = m" and near: "\<bar>d - m\<bar> < m / 2 ^ 54"
  shows "fl d = m"
proof -
  obtain k where k: "m = of_int k * 2 powi ulp_exp m" "0 < k" "k < 2 ^ 53" using m by (rule double_on_grid)
  let ?u = "ulp_exp m" and ?v = "ulp_exp d" and ?U = "(2 :: rat) powi ulp_exp m"
  have "m / 2 ^ 54 \<le> m" using m(1) by (simp add: field_simps)
  then have d: "0 < d" using near by linarith
  have K: "(of_int k :: rat) \<le> 2 ^ 53 - 1"
  proof -
    have "k \<le> 2 ^ 53 - 1" using k(3) by simp
    then have "(of_int k :: rat) \<le> of_int (2 ^ 53 - 1)" by (simp only: of_int_le_iff)
    then show ?thesis by simp
  qed
  let ?x = "d / ?U"
  have x: "d = ?x * ?U" by simp
  have scaled: "\<bar>?x - of_int k\<bar> < of_int k / 2 ^ 54"
  proof -
    have "\<bar>?x - of_int k\<bar> * ?U = \<bar>d - m\<bar>" using scale_difference [OF powi_pos2, of ?x "of_int k" ?u] k(1) by simp
    moreover have "m / 2 ^ 54 = of_int k / 2 ^ 54 * ?U" by (subst k(1)) simp
    ultimately have "\<bar>?x - of_int k\<bar> * ?U < of_int k / 2 ^ 54 * ?U" using near by simp
    then show ?thesis by (simp only: mult_less_cancel_right_pos [OF powi_pos2])
  qed
  have "of_int k / 2 ^ 54 < (1 / 2 :: rat)" using K by simp
  with scaled have half: "\<bar>?x - of_int k\<bar> < 1 / 2" by linarith
  consider "?v = ?u" | "?v < ?u" | "?u < ?v" by linarith
  then show ?thesis
  proof cases
    case 1
    then show ?thesis using fl_at_grid [OF d, of k] half k(1) by simp
  next
    case 3
    then have "2 powi (?v + 52) \<le> d" using ulp_exp_lower [OF d] ulp_exp_ge [of m] by simp
    moreover have "2 powi (?u + 53) \<le> (2 :: rat) powi (?v + 52)" using 3 by (intro powi_mono2) simp
    moreover have "2 powi (?u + 53) = 2 ^ 53 * ?U" by (simp add: powi_add2)
    ultimately have "2 ^ 53 * ?U \<le> ?x * ?U" using x by simp
    then have "2 ^ 53 \<le> ?x" by (simp only: mult_le_cancel_right_pos [OF powi_pos2])
    then show ?thesis using half K by linarith
  next
    case 2
    have u: "2 powi (?u + 52) \<le> m" using 2 ulp_exp_ge [of d] by (intro ulp_exp_lower m) simp
    have "2 ^ 52 * ?U \<le> of_int k * ?U" using u k(1) by (simp add: powi_add2)
    then have k52: "(2 ^ 52 :: rat) \<le> of_int k" by (simp only: mult_le_cancel_right_pos [OF powi_pos2])
    have "d < 2 powi (?v + 53)" using d by (rule ulp_exp_upper)
    also have "\<dots> \<le> 2 powi (?u + 52)" using 2 by (intro powi_mono2) simp
    finally have "?x * ?U < 2 ^ 52 * ?U" by (simp add: powi_add2)
    then have x52: "?x < 2 ^ 52" by (simp only: mult_less_cancel_right_pos [OF powi_pos2])
    have "of_int k - ?x < of_int k / 2 ^ 54" using scaled by linarith
    then have "(of_int k :: rat) < 2 ^ 52 + 1" using x52 by (rule binade_bottom)
    then have "(of_int k :: rat) < of_int (2 ^ 52 + 1)" by simp
    then have "k < 2 ^ 52 + 1" unfolding of_int_less_iff .
    moreover have "(of_int (2 ^ 52) :: rat) \<le> of_int k" using k52 by simp
    then have "2 ^ 52 \<le> k" unfolding of_int_le_iff .
    ultimately have k': "k = 2 ^ 52" by simp
    have v: "?v = ?u - 1"
    proof (rule ulp_exp_eq [OF d])
      have h: "(2 :: rat) powi (?u - 1 + 52) = 2 ^ 51 * ?U" using powi_add2 [of 51 ?u] by (simp add: algebra_simps)
      have "2 ^ 51 \<le> ?x" using half k52 by (rule binade_half)
      then have "2 ^ 51 * ?U \<le> ?x * ?U" by (intro mult_right_mono) auto
      then show "2 powi (?u - 1 + 52) \<le> d" unfolding h using x by simp
      have "?x * ?U < 2 ^ 52 * ?U" using x52 by (simp only: mult_less_cancel_right_pos [OF powi_pos2])
      moreover have "(2 :: rat) powi (?u - 1 + 53) = 2 ^ 52 * ?U" using powi_add2 [of 52 ?u] by (simp add: algebra_simps)
      ultimately show "d < 2 powi (?u - 1 + 53)" using x by simp
      show "- 1074 \<le> ?u - 1" using 2 ulp_exp_ge [of d] by simp
    qed
    have U: "?U = 2 * 2 powi (?u - 1)" using powi_add2 [of 1 "?u - 1"] by simp
    have "d / 2 powi ?v = 2 * ?x" unfolding v U by simp
    moreover have "\<bar>2 * ?x - 2 * of_int k\<bar> < 1 / 2" using scaled by (rule binade_quarter) (simp add: k')
    ultimately have "\<bar>d / 2 powi ?v - of_int (2 * k)\<bar> < 1 / 2" by simp
    then have "fl d = of_int (2 * k) * 2 powi ?v" by (rule fl_at_grid [OF d])
    also have "\<dots> = of_int k * ?U" unfolding v U by simp
    also have "\<dots> = m" by (rule k(1) [symmetric])
    finally show ?thesis .
  qed
qed

section \<open>Seventeen digits suffice\<close>

lemma seventeen_digits: "0 < g \<Longrightarrow> 10 ^ 16 * g \<le> m \<Longrightarrow> 1 / 2 * g < m / 2 ^ 54" for g m :: rat
  by (simp add: field_simps)

lemma nearest_error: "\<bar>of_int \<lfloor>y + 1 / 2\<rfloor> - y\<bar> \<le> 1 / 2" for y :: rat
  by linarith

lemma candidates_value:
  assumes m: "0 < m" "fl m = m"
  shows "\<exists>(d, e)\<in>set (digit_candidates m). fl (of_int d * 10 powi e) = m"
proof -
  let ?n = "ilog 10 m + 1" let ?g = "(10 :: rat) powi (?n - 17)"
  let ?d = "\<lfloor>m / ?g + 1 / 2\<rfloor>"
  have g: "0 < ?g" by (simp add: zero_less_power_int)
  have "10 powi (ilog 10 m) \<le> m" using ilog_bounds [OF m(1), of 10] by simp
  moreover have "(10 :: rat) powi (ilog 10 m) = 10 ^ 16 * ?g" using power_int_add [of "10 :: rat" 16 "?n - 17"] by simp
  ultimately have big: "10 ^ 16 * ?g \<le> m" by simp
  have "\<bar>of_int ?d * ?g - m\<bar> = \<bar>of_int ?d - m / ?g\<bar> * ?g"
    using scale_difference [OF g, of "of_int ?d" "m / ?g"] g by simp
  also have "\<dots> \<le> 1 / 2 * ?g" by (rule mult_right_mono [OF nearest_error]) (use g in simp)
  also have "\<dots> < m / 2 ^ 54" using g big by (rule seventeen_digits)
  finally have "\<bar>of_int ?d * ?g - m\<bar> < m / 2 ^ 54" .
  then have "fl (of_int ?d * ?g) = m" by (rule fl_near_double [OF m])
  moreover have "(?d, ?n - 17) \<in> set (digit_candidates m)" by (auto simp: digit_candidates_def Let_def intro!: bexI [of _ 17])
  ultimately show ?thesis by (intro bexI [of _ "(?d, ?n - 17)"]) simp_all
qed

lemma shortest_digits_value:
  assumes "0 < m" "fl m = m"
  obtains d e where "shortest_digits m = Some (d, e)" and "0 < d" and "fl (of_int d * 10 powi e) = m"
proof -
  let ?P = "\<lambda>(d, e). fl (of_int d * 10 powi e) = m"
  obtain d e where f: "List.find ?P (digit_candidates m) = Some (d, e)"
    using candidates_value [OF assms] by (cases "List.find ?P (digit_candidates m)") (auto simp: find_None_iff)
  then have v: "fl (of_int d * 10 powi e) = m" by (auto simp: find_Some_iff)
  have p: "0 < d"
  proof (rule ccontr)
    assume "\<not> 0 < d"
    then have "of_int d * (10 :: rat) powi e \<le> 0" by (simp add: mult_nonpos_nonneg)
    then have "fl (of_int d * 10 powi e) = 0" by (simp add: fl_def)
    with v assms(1) show False by simp
  qed
  have "(10 :: rat) powi (e + 1) = 10 * 10 powi e" using power_int_add [of "10 :: rat" e 1] by simp
  then show thesis using f v p that [of 1 "e + 1"] that [of d e] by (cases "d = 10") (simp_all add: shortest_digits_def)
qed

section \<open>What is printed reads as the decimal\<close>

lemma not_digit_marks [simp]: "\<not> is_digit (CHR ''e'')" "\<not> is_digit (CHR ''E'')" "\<not> is_digit (CHR ''+'')" "\<not> is_digit (CHR ''-'')"
    "\<not> is_digit (CHR ''x'')" "\<not> is_digit (CHR ''o'')" "\<not> is_digit (CHR ''b'')" "\<not> is_digit (CHR ''I'')"
  by code_simp+

lemma takeWhile_digits: "list_all is_digit ds \<Longrightarrow> (r = [] \<or> \<not> is_digit (hd r)) \<Longrightarrow> takeWhile is_digit (ds @ r) = ds \<and> dropWhile is_digit (ds @ r) = r"
  by (induction ds) (cases r; simp)+

lemma takeWhile_upto: "list_all P ds \<Longrightarrow> (r = [] \<or> \<not> P (hd r)) \<Longrightarrow> takeWhile P (ds @ r) = ds \<and> dropWhile P (ds @ r) = r"
  by (induction ds) (cases r; simp)+

definition fraction :: "string \<Rightarrow> string" where
  "fraction fp = (if fp = [] then '''' else ''.'' @ fp)"

definition exponent_part :: "string \<Rightarrow> bool" where
  "exponent_part ex \<longleftrightarrow> ex = [] \<or> hd ex = CHR ''e''"

lemma decimal_of_parts:
  assumes "list_all is_digit ip" and "ip \<noteq> []" and "list_all is_digit fp" and "exponent_part ex" and "exponent_of ex = Some x"
  shows "decimal_of (ip @ fraction fp @ ex) = Some (of_int (num_value (ip @ fp)) * 10 powi (x - int (length fp)))"
proof -
  let ?not_e = "\<lambda>c. c \<noteq> CHR ''e'' \<and> c \<noteq> CHR ''E''"
  have ne: "?not_e c" if "is_digit c" for c using that by auto
  have l: "list_all ?not_e (ip @ fraction fp)" using assms(1,3) ne by (auto simp: fraction_def list_all_iff)
  have r: "ex = [] \<or> \<not> ?not_e (hd ex)" using assms(4) by (auto simp: exponent_part_def)
  have a: "takeWhile ?not_e (ip @ fraction fp @ ex) = ip @ fraction fp" "dropWhile ?not_e (ip @ fraction fp @ ex) = ex"
    using takeWhile_upto [OF l r] by simp_all
  have b: "takeWhile is_digit (ip @ fraction fp) = ip" "dropWhile is_digit (ip @ fraction fp) = fraction fp"
    using takeWhile_upto [OF assms(1), of "fraction fp"] by (auto simp: fraction_def)
  show ?thesis unfolding decimal_of_def Let_def a b using assms(2,3,5) by (simp add: fraction_def)
qed

definition literal_start :: "string \<Rightarrow> bool" where
  "literal_start u \<longleftrightarrow> u \<noteq> [] \<and> is_digit (hd u) \<and> is_digit (List.last u)
     \<and> list_all (\<lambda>c. is_digit c \<or> c \<in> set ''.e+-'') u"

lemma js_Number_literal:
  assumes u: "literal_start u" and d: "decimal_of u = Some r"
  shows "js_Number u = num_round False r" and "js_Number (CHR ''-'' # u) = num_round True r"
proof -
  obtain c cs where c: "u = c # cs" "is_digit c" using u by (cases u) (auto simp: literal_start_def)
  have ws: "\<not> is_ws x" if "is_digit x" for x using that by (auto simp: is_digit_def is_ws_def Let_def)
  have mws: "\<not> is_ws (CHR ''-'')" by code_simp
  obtain l ls where l: "rev u = l # ls" "is_digit l" using u by (cases "rev u") (auto simp: literal_start_def last_conv_nth hd_rev simp flip: hd_rev)
  have t: "trim u = u" using ws c l by (simp add: trim_def trim_start_def) (metis append.assoc rev.simps(2) rev_rev_ident)
  have t2: "trim (CHR ''-'' # u) = CHR ''-'' # u" using ws mws c l
    by (simp add: trim_def trim_start_def) (metis append.assoc append_Cons rev.simps(2) rev_rev_ident)
  have low: "lower_char x = x" if "is_digit x \<or> x \<in> set ''.e+-''" for x using that by (auto simp: is_digit_def lower_char_def Let_def)
  have ok: "list_all (\<lambda>x. is_digit x \<or> x \<in> set ''.e+-'') u" using u by (simp add: literal_start_def)
  then have "map lower_char (take 2 u) = take 2 u" by (auto simp: list_all_iff intro!: map_idI low dest: in_set_takeD)
  moreover have "map lower_char (take 2 (CHR ''-'' # u)) = take 2 (CHR ''-'' # u)"
    using ok low by (auto simp: list_all_iff intro!: map_idI dest: in_set_takeD)
  ultimately have p: "toLowerCase (take 2 u) = take 2 u" "toLowerCase (take 2 (CHR ''-'' # u)) = take 2 (CHR ''-'' # u)"
    by (simp_all add: toLowerCase_def)
  have "take 2 u \<noteq> ''0x'' \<and> take 2 u \<noteq> ''0o'' \<and> take 2 u \<noteq> ''0b''" using ok c by (cases cs) auto
  moreover have h: "hd u \<noteq> CHR ''-''" "hd u \<noteq> CHR ''+''" "u \<noteq> ''Infinity''" using c by auto
  ultimately show "js_Number u = num_round False r" using d c(1) unfolding js_Number_def Let_def t p by auto
  show "js_Number (CHR ''-'' # u) = num_round True r" using d h(3) c unfolding js_Number_def Let_def t2 p by auto
qed

section \<open>The layout of a number\<close>

text \<open>A literal in parts: integer digits, fraction digits, and an exponent with its sign.\<close>

definition literal_parts :: "string \<Rightarrow> string \<Rightarrow> string \<Rightarrow> int \<Rightarrow> bool" where
  "literal_parts ip fp ex x \<longleftrightarrow>
     list_all is_digit ip \<and> ip \<noteq> [] \<and> (hd ip \<noteq> CHR ''0'' \<or> length ip = 1) \<and> list_all is_digit fp \<and> exponent_of ex = Some x
     \<and> (ex = [] \<or> (\<exists>sg zs. ex = CHR ''e'' # sg # zs \<and> (sg = CHR ''+'' \<or> sg = CHR ''-'') \<and> list_all is_digit zs \<and> zs \<noteq> []))"

lemma digit_char_zero [simp]: "digit_char 0 = CHR ''0''"
  by code_simp

lemma dec_string_hd: "0 < d \<Longrightarrow> hd (dec_string d) \<noteq> CHR ''0''"
proof (induction d rule: dec_string.induct)
  case (1 d)
  show ?case
  proof (cases "d < 10")
    case True
    have "digit_char d \<noteq> CHR ''0''"
    proof -
      have "(of_char (digit_char d) :: nat) = 48 + nat d" using True "1.prems" by (simp add: digit_char_def)
      moreover have "(of_char (CHR ''0'') :: nat) = 48" by code_simp
      ultimately have "(of_char (digit_char d) :: nat) \<noteq> of_char (CHR ''0'')" using "1.prems" by simp
      then show ?thesis by auto
    qed
    then show ?thesis using True by (simp add: dec_string.simps [of d])
  next
    case False
    then have "0 < d div 10" by simp
    then have "hd (dec_string (d div 10)) \<noteq> CHR ''0''" using "1.IH" False by simp
    then show ?thesis using False by (simp add: dec_string.simps [of d])
  qed
qed

lemma num_value_zero_first: "num_value_from a (CHR ''0'' # s) = num_value_from (10 * a) s"
proof -
  have "num_value_from a (CHR ''0'' # s) = num_value_from (num_value_from a [CHR ''0'']) s" by (simp add: num_value_from_def)
  also have "num_value_from a [CHR ''0''] = 10 * a" using num_value_digit [of 0 a] by simp
  finally show ?thesis .
qed

lemma num_value_zeros: "num_value_from a (replicate k (CHR ''0'')) = a * 10 ^ k"
  by (induction k arbitrary: a) (simp_all add: num_value_zero_first)

lemma num_value_zero_prefix: "num_value (CHR ''0'' # s) = num_value s"
  by (simp add: num_value_zero_first)

lemma zeros_digits [simp]: "list_all is_digit (replicate k (CHR ''0''))"
proof -
  have "is_digit (CHR ''0'')" by code_simp
  then show ?thesis by (auto simp: list_all_iff)
qed

lemma exponent_of_signed:
  assumes "0 \<le> z"
  shows "exponent_of (CHR ''e'' # CHR ''+'' # dec_string z) = Some z" and "exponent_of (CHR ''e'' # CHR ''-'' # dec_string z) = Some (- z)"
  using digits_dec_string [OF assms] num_value_dec_string [OF assms] by (simp_all add: exponent_of_def Let_def)

lemma powi_shift: "(10 :: rat) powi e * 10 ^ k = 10 powi (e + int k)"
  by (simp add: power_int_add)

lemma layout_partsI:
  "s = ip @ fraction fp @ ex \<Longrightarrow> literal_parts ip fp ex x \<Longrightarrow> num_value (ip @ fp) = d \<Longrightarrow> x - int (length fp) = e \<Longrightarrow>
   \<exists>ip fp ex x. s = ip @ fraction fp @ ex \<and> literal_parts ip fp ex x
     \<and> of_int (num_value (ip @ fp)) * 10 powi (x - int (length fp)) = (of_int d * 10 powi e :: rat)"
  by blast

lemma layout_parts:
  assumes "0 < d"
  shows "\<exists>ip fp ex x. number_layout d e = ip @ fraction fp @ ex \<and> literal_parts ip fp ex x
           \<and> of_int (num_value (ip @ fp)) * 10 powi (x - int (length fp)) = (of_int d * 10 powi e :: rat)"
proof -
  let ?ds = "dec_string d" let ?k = "int (length ?ds)" let ?n = "?k + e"
  have ds: "list_all is_digit ?ds" "?ds \<noteq> []" "hd ?ds \<noteq> CHR ''0''" "num_value ?ds = d"
    using assms by (simp_all add: digits_dec_string dec_string_hd num_value_dec_string)
  have dig: "list_all is_digit (take i ?ds)" "list_all is_digit (drop i ?ds)" for i
    using ds(1) by (auto simp: list_all_iff dest: in_set_takeD in_set_dropD)
  have ex0: "exponent_of [] = Some 0" by (simp add: exponent_of_def)
  have k: "0 < ?k" using ds(2) by simp
  consider (whole) "0 \<le> e" "?n \<le> 21" | (point) "e < 0" "0 < ?n" "?n \<le> 21"
    | (small) "e < 0" "- 6 < ?n" "?n \<le> 0" | (sci) "\<not> (0 \<le> e \<and> ?n \<le> 21)" "\<not> (0 < ?n \<and> ?n \<le> 21)" "\<not> (- 6 < ?n \<and> ?n \<le> 0)"
    by linarith
  then show ?thesis
  proof cases
    case whole
    let ?ip = "?ds @ replicate (nat e) (CHR ''0'')"
    have "literal_parts ?ip [] [] 0" using ds ex0 by (auto simp: literal_parts_def)
    moreover have "number_layout d e = ?ip @ fraction [] @ []" using whole by (simp add: number_layout_def Let_def fraction_def)
    moreover have "(of_int (num_value ?ip) :: rat) = of_int d * 10 powi e"
      using whole ds(4) by (simp add: num_value_zeros power_int_def)
    ultimately show ?thesis by (intro exI [of _ ?ip] exI [of _ "[]"] exI [of _ 0]) simp
  next
    case point
    let ?i = "nat ?n"
    have i: "?i < length ?ds" "0 < ?i" using point by linarith+
    have "literal_parts (take ?i ?ds) (drop ?i ?ds) [] 0" using ds ex0 dig i by (auto simp: literal_parts_def)
    moreover have "number_layout d e = take ?i ?ds @ fraction (drop ?i ?ds) @ []"
      using point i by (simp add: number_layout_def Let_def fraction_def)
    moreover have "num_value (take ?i ?ds @ drop ?i ?ds) = d" using ds(4) by (simp only: append_take_drop_id)
    moreover have "0 - int (length (drop ?i ?ds)) = e" using point i by simp
    ultimately show ?thesis by (intro layout_partsI [of _ "take ?i ?ds" "drop ?i ?ds" "[]" 0])
  next
    case small
    let ?fp = "replicate (nat (- ?n)) (CHR ''0'') @ ?ds"
    have "literal_parts ''0'' ?fp [] 0" using ds ex0 zeros_digits [of 1] by (auto simp: literal_parts_def)
    moreover have "number_layout d e = ''0'' @ fraction ?fp @ []" using small ds(2) by (simp add: number_layout_def Let_def fraction_def)
    moreover have "num_value (''0'' @ ?fp) = d" using ds(4) by (simp add: num_value_zero_prefix num_value_zeros)
    moreover have "0 - int (length ?fp) = e" using small by simp
    ultimately show ?thesis by (intro layout_partsI [of _ "''0''" ?fp "[]" 0])
  next
    case sci
    let ?x = "?n - 1"
    let ?ex = "''e'' @ (if 0 < ?n then ''+'' @ dec_string (?n - 1) else ''-'' @ dec_string (1 - ?n))"
    have x: "exponent_of ?ex = Some ?x" using exponent_of_signed [of "?n - 1"] exponent_of_signed [of "1 - ?n"] by simp
    have exf: "\<exists>sg zs. ?ex = CHR ''e'' # sg # zs \<and> (sg = CHR ''+'' \<or> sg = CHR ''-'') \<and> list_all is_digit zs \<and> zs \<noteq> []"
      using digits_dec_string [of "?n - 1"] digits_dec_string [of "1 - ?n"] by simp
    have t: "take 1 ?ds \<noteq> []" "hd (take 1 ?ds) \<noteq> CHR ''0''" using ds by (cases ?ds; simp)+
    have "literal_parts (take 1 ?ds) (drop 1 ?ds) ?ex ?x" using dig [of 1] t x exf by (auto simp: literal_parts_def simp del: append.simps)
    moreover have "drop 1 ?ds = [] \<longleftrightarrow> ?k = 1" using ds(2) by (cases ?ds) auto
    then have "number_layout d e = take 1 ?ds @ fraction (drop 1 ?ds) @ ?ex"
      unfolding number_layout_def Let_def fraction_def if_not_P [OF sci(1)] if_not_P [OF sci(2)] if_not_P [OF sci(3)]
      by (simp del: drop_eq_Nil)
    moreover have "num_value (take 1 ?ds @ drop 1 ?ds) = d" using ds(4) by (simp only: append_take_drop_id)
    moreover have "?x - int (length (drop 1 ?ds)) = e" using ds(2) by (cases ?ds) auto
    ultimately show ?thesis by (intro layout_partsI [of _ "take 1 ?ds" "drop 1 ?ds" ?ex ?x])
  qed
qed

lemma literal_parts_start: "literal_parts ip fp ex x \<Longrightarrow> literal_start (ip @ fraction fp @ ex)"
proof -
  assume p: "literal_parts ip fp ex x"
  have m: "is_digit c \<or> c \<in> set ''.e+-''" if "c \<in> set (ip @ fraction fp @ ex)" for c
    using that p by (auto simp: literal_parts_def fraction_def list_all_iff split: if_splits)
  have h: "is_digit (hd (ip @ fraction fp @ ex))" using p by (cases ip) (auto simp: literal_parts_def)
  have l: "is_digit (last xs)" if "list_all is_digit xs" "xs \<noteq> []" for xs using that by (auto simp: list_all_iff)
  have "is_digit (last (ip @ fraction fp @ ex))"
  proof (cases "ex = []")
    case True
    then show ?thesis using p l [of ip] l [of fp] by (cases "fp = []") (auto simp: literal_parts_def fraction_def)
  next
    case False
    then obtain sg zs where "ex = CHR ''e'' # sg # zs" "list_all is_digit zs" "zs \<noteq> []" using p by (auto simp: literal_parts_def)
    then show ?thesis using l [of zs] by simp
  qed
  then show ?thesis using p m h by (simp add: literal_start_def literal_parts_def list_all_iff)
qed

lemma literal_parts_value:
  "literal_parts ip fp ex x \<Longrightarrow> decimal_of (ip @ fraction fp @ ex) = Some (of_int (num_value (ip @ fp)) * 10 powi (x - int (length fp)))"
  by (rule decimal_of_parts) (auto simp: literal_parts_def exponent_part_def)

section \<open>Doubles\<close>

fun is_double :: "jsnum \<Rightarrow> bool" where
  "is_double (Fin s m) \<longleftrightarrow> 0 \<le> m \<and> fl m = m \<and> m < 2 ^ 1024"
| "is_double _ \<longleftrightarrow> False"

fun negative_zero :: "jsnum \<Rightarrow> bool" where
  "negative_zero (Fin s m) \<longleftrightarrow> s \<and> m = 0"
| "negative_zero _ \<longleftrightarrow> False"

lemma fl_overflow_bound: "2 ^ 1024 \<le> fl overflow_bound"
proof -
  have u: "ulp_exp overflow_bound = 971"
  proof (rule ulp_exp_eq)
    have b: "overflow_bound = (2 ^ 54 - 1) * 2 ^ 970" by (simp add: overflow_bound_def left_diff_distrib flip: power_add)
    then show "0 < overflow_bound" by simp
    have e: "(2 :: rat) powi (971 + 52) = 2 ^ 53 * 2 ^ 970" "(2 :: rat) powi (971 + 53) = 2 ^ 54 * 2 ^ 970"
      by (simp_all add: power_int_def flip: power_add)
    show "2 powi (971 + 52) \<le> overflow_bound" unfolding b e by (intro mult_right_mono) simp_all
    show "overflow_bound < 2 powi (971 + 53)" unfolding b e by (intro mult_strict_right_mono) simp_all
  qed simp
  have q: "overflow_bound / 2 powi 971 = of_int (2 ^ 53) - 1 / 2"
  proof -
    have "overflow_bound = (of_int (2 ^ 53) - 1 / 2) * 2 powi 971"
      by (simp add: overflow_bound_def left_diff_distrib power_int_def flip: power_add)
    then show ?thesis by simp
  qed
  have "round_half_even (of_int (2 ^ 53) - 1 / 2) = 2 ^ 53"
  proof -
    have "\<lfloor>of_int (2 ^ 53) - 1 / 2 :: rat\<rfloor> = 2 ^ 53 - 1" by (simp add: floor_unique)
    then show ?thesis by (simp add: round_half_even_def Let_def)
  qed
  moreover have "\<not> overflow_bound \<le> 0" by (simp add: overflow_bound_def)
  ultimately have "fl overflow_bound = of_int (2 ^ 53) * 2 powi 971" unfolding fl_def u q by (simp only: if_False)
  also have "\<dots> = 2 ^ 1024" by (simp add: power_int_def flip: power_add)
  finally show ?thesis by simp
qed

lemma below_overflow: "fl r < 2 ^ 1024 \<Longrightarrow> \<not> overflow_bound \<le> r"
  using fl_mono [of overflow_bound r] fl_overflow_bound by linarith

text \<open>What \<open>String\<close> prints for a double, in parts.\<close>

lemma js_String_parts:
  assumes "is_double (Fin s m)"
  obtains ip fp ex x where "js_String (Fin s m) = (if s \<and> 0 < m then ''-'' else '''') @ ip @ fraction fp @ ex"
    and "literal_parts ip fp ex x" and "num_round s (of_int (num_value (ip @ fp)) * 10 powi (x - int (length fp))) = Fin s m"
proof (cases "m = 0")
  case True
  have "literal_parts ''0'' [] [] 0" using zeros_digits [of 1] by (simp add: literal_parts_def exponent_of_def)
  moreover have "js_String (Fin s m) = ''0'' @ fraction [] @ []" using True by (simp add: shortest_string_def fraction_def)
  moreover have "\<not> overflow_bound \<le> 0" by (simp add: overflow_bound_def)
  then have "num_round s (of_int (num_value ''0'') * 10 powi (0 - int (length ''''))) = Fin s m"
    using True num_value_zero_first [of 0 "[]"] by (simp add: num_round_def)
  ultimately show thesis using that [of "''0''" "[]" "[]" 0] True by simp
next
  case False
  then have m: "0 < m" "fl m = m" "m < 2 ^ 1024" using assms by auto
  obtain d e where d: "shortest_digits m = Some (d, e)" "0 < d" "fl (of_int d * 10 powi e) = m"
    using m(1,2) by (rule shortest_digits_value)
  obtain ip fp ex x where p: "number_layout d e = ip @ fraction fp @ ex" "literal_parts ip fp ex x"
      "of_int (num_value (ip @ fp)) * 10 powi (x - int (length fp)) = (of_int d * 10 powi e :: rat)"
    using layout_parts [OF d(2)] by blast
  have "num_round s (of_int d * 10 powi e) = Fin s m"
    using below_overflow [of "of_int d * 10 powi e"] d(3) m(3) by (simp add: num_round_def)
  then show thesis using that [OF _ p(2)] p m(1) d(1) by (simp add: shortest_string_def)
qed

theorem js_Number_String:
  assumes "is_double x" and "\<not> negative_zero x"
  shows "js_Number (js_String x) = x"
proof (cases x)
  case (Fin s m)
  then obtain ip fp ex z where p: "js_String (Fin s m) = (if s \<and> 0 < m then ''-'' else '''') @ ip @ fraction fp @ ex"
    "literal_parts ip fp ex z" "num_round s (of_int (num_value (ip @ fp)) * 10 powi (z - int (length fp))) = Fin s m"
    using assms(1) js_String_parts [of s m] by blast
  have "s \<and> 0 < m \<longleftrightarrow> s" using assms Fin by auto
  then show ?thesis using p js_Number_literal [OF literal_parts_start [OF p(2)] literal_parts_value [OF p(2)]] Fin by (cases s) simp_all
qed (use assms in simp_all)

end
