(* ===== verification/Json_Text.thy ===== *)
theory Json_Text
  imports Number_String Http
begin

text \<open>
  \<open>JSON.stringify\<close> and \<open>JSON.parse\<close> on the values of \<open>Http\<close>. Text is UTF-8: a \<open>\u\<close> escape becomes
  the bytes of its code point, two surrogate escapes in a row one code point. Numbers are written by
  \<open>String(number)\<close> and read by \<open>Number(text)\<close>, restricted to the number grammar of JSON. The parser is a
  recursive descent; that it terminates is proved with the length of the remaining text. The main
  lemma is the round trip: what the printer wrote, the parser reads back.
\<close>

section \<open>Printing\<close>

definition hex_lower :: "nat \<Rightarrow> char" where
  "hex_lower n = ''0123456789abcdef'' ! n"

definition json_escape :: "char \<Rightarrow> string" where
  "json_escape c =
     (let n = (of_char c :: nat) in
      if n = 34 then [CHR 0x5C, CHR 0x22]
      else if n = 92 then [CHR 0x5C, CHR 0x5C]
      else if n = 8 then [CHR 0x5C, CHR ''b'']
      else if n = 9 then [CHR 0x5C, CHR ''t'']
      else if n = 10 then [CHR 0x5C, CHR ''n'']
      else if n = 12 then [CHR 0x5C, CHR ''f'']
      else if n = 13 then [CHR 0x5C, CHR ''r'']
      else if n < 32 then [CHR 0x5C, CHR ''u'', CHR ''0'', CHR ''0'', hex_lower (n div 16), hex_lower (n mod 16)]
      else [c])"

definition json_quote :: "string \<Rightarrow> string" where
  "json_quote s = CHR 0x22 # concat (map json_escape s) @ [CHR 0x22]"

fun json_stringify :: "json \<Rightarrow> string" where
  "json_stringify JNull = ''null''"
| "json_stringify (JBool b) = (if b then ''true'' else ''false'')"
| "json_stringify (JNum x) = (if js_is_finite x then js_String x else ''null'')"
| "json_stringify (JStr s) = json_quote s"
| "json_stringify (JArr vs) = ''['' @ join_with '','' (map json_stringify vs) @ '']''"
| "json_stringify (JObj kvs) =
     ''{'' @ join_with '','' (map (\<lambda>kv. json_quote (fst kv) @ '':'' @ json_stringify (snd kv)) kvs) @ ''}''"

section \<open>Parsing\<close>

definition json_ws :: "char \<Rightarrow> bool" where
  "json_ws c \<longleftrightarrow> (let n = (of_char c :: nat) in n = 32 \<or> n = 9 \<or> n = 10 \<or> n = 13)"

abbreviation skip_ws :: "string \<Rightarrow> string" where
  "skip_ws \<equiv> dropWhile json_ws"

definition utf8 :: "nat \<Rightarrow> string" where
  "utf8 n =
     (if n < 128 then [char_of n]
      else if n < 2048 then [char_of (192 + n div 64), char_of (128 + n mod 64)]
      else if n < 65536 then [char_of (224 + n div 4096), char_of (128 + n div 64 mod 64), char_of (128 + n mod 64)]
      else [char_of (240 + n div 262144), char_of (128 + n div 4096 mod 64), char_of (128 + n div 64 mod 64), char_of (128 + n mod 64)])"

definition hex4 :: "string \<Rightarrow> nat option" where
  "hex4 ds =
     (if length ds = 4 \<and> list_all (\<lambda>c. hex_val c \<noteq> None) ds
      then Some (foldl (\<lambda>a c. 16 * a + nat (the (hex_val c))) 0 ds) else None)"

definition simple_escape :: "char \<Rightarrow> char option" where
  "simple_escape c =
     map_of [(CHR 0x22, CHR 0x22), (CHR 0x5C, CHR 0x5C), (CHR ''/'', CHR ''/''), (CHR ''b'', char_of (8 :: nat)),
             (CHR ''f'', char_of (12 :: nat)), (CHR ''n'', char_of (10 :: nat)), (CHR ''r'', char_of (13 :: nat)), (CHR ''t'', char_of (9 :: nat))] c"

definition cons_chars :: "string \<Rightarrow> (string \<times> string) option \<Rightarrow> (string \<times> string) option" where
  "cons_chars cs r = map_option (\<lambda>(s, rest). (cs @ s, rest)) r"

definition low_surrogate :: "string \<Rightarrow> nat option" where
  "low_surrogate s =
     (if take 2 s = [CHR 0x5C, CHR ''u'']
      then (case hex4 (take 4 (drop 2 s)) of Some n \<Rightarrow> if 56320 \<le> n \<and> n < 57344 then Some n else None | None \<Rightarrow> None)
      else None)"

text \<open>The characters up to the closing quote, and what follows it.\<close>

function p_string :: "string \<Rightarrow> (string \<times> string) option" where
  "p_string s =
     (case s of
        [] \<Rightarrow> None
      | c # r \<Rightarrow>
          if c = CHR 0x22 then Some ([], r)
          else if (of_char c :: nat) < 32 then None
          else if c \<noteq> CHR 0x5C then cons_chars [c] (p_string r)
          else (case r of
                  [] \<Rightarrow> None
                | e # t \<Rightarrow>
                    if e = CHR ''u'' then
                      (case hex4 (take 4 t) of
                         None \<Rightarrow> None
                       | Some n \<Rightarrow>
                           if 55296 \<le> n \<and> n < 56320 \<and> low_surrogate (drop 4 t) \<noteq> None
                           then cons_chars (utf8 (65536 + 1024 * (n - 55296) + (the (low_surrogate (drop 4 t)) - 56320)))
                                  (p_string (drop 10 t))
                           else cons_chars (utf8 n) (p_string (drop 4 t)))
                    else (case simple_escape e of None \<Rightarrow> None | Some x \<Rightarrow> cons_chars [x] (p_string t))))"
  by pat_completeness auto
termination
  by (relation "measure length") auto

declare p_string.simps [simp del]

definition number_char :: "char \<Rightarrow> bool" where
  "number_char c \<longleftrightarrow> is_digit c \<or> c \<in> set ''+-.eE''"

text \<open>The number grammar: no leading zero, no bare point, no leading plus sign.\<close>

definition json_number :: "string \<Rightarrow> bool" where
  "json_number s =
     (let u = (if s \<noteq> [] \<and> hd s = CHR ''-'' then tl s else s);
          ip = takeWhile is_digit u; r = dropWhile is_digit u;
          hasfp = (r \<noteq> [] \<and> hd r = CHR ''.'');
          fp = (if hasfp then takeWhile is_digit (tl r) else []);
          q = (if hasfp then dropWhile is_digit (tl r) else r)
      in ip \<noteq> [] \<and> (hd ip \<noteq> CHR ''0'' \<or> length ip = 1) \<and> (hasfp \<longrightarrow> fp \<noteq> [])
         \<and> (q = [] \<or> ((hd q = CHR ''e'' \<or> hd q = CHR ''E'') \<and> exponent_of q \<noteq> None)))"

definition p_number :: "string \<Rightarrow> (json \<times> string) option" where
  "p_number s =
     (let tok = takeWhile number_char s in
      if json_number tok then Some (JNum (js_Number tok), dropWhile number_char s) else None)"

definition p_word :: "string \<Rightarrow> (json \<times> string) option" where
  "p_word s =
     (if startsWith s ''null'' then Some (JNull, drop 4 s)
      else if startsWith s ''true'' then Some (JBool True, drop 4 s)
      else if startsWith s ''false'' then Some (JBool False, drop 5 s)
      else p_number s)"

text \<open>
  A value; the elements of an array after its bracket; the members of an object after its brace. The
  length guard of a list's recursion always holds: it tells the termination proof that a value consumes
  text.
\<close>

function (sequential) p_value :: "string \<Rightarrow> (json \<times> string) option"
  and p_items :: "string \<Rightarrow> (json list \<times> string) option"
  and p_members :: "string \<Rightarrow> ((string \<times> json) list \<times> string) option" where
  "p_value s =
     (case skip_ws s of
        [] \<Rightarrow> None
      | c # r \<Rightarrow>
          if c = CHR 0x22 then map_option (\<lambda>(x, t). (JStr x, t)) (p_string r)
          else if c = CHR ''['' then
            (if take 1 (skip_ws r) = '']'' then Some (JArr [], tl (skip_ws r))
             else map_option (\<lambda>(vs, t). (JArr vs, t)) (if length r < length s then p_items r else None))
          else if c = CHR ''{'' then
            (if take 1 (skip_ws r) = ''}'' then Some (JObj [], tl (skip_ws r))
             else map_option (\<lambda>(kvs, t). (JObj (fold (\<lambda>(k, v). AList.update k v) kvs []), t)) (if length r < length s then p_members r else None))
          else p_word (c # r))"
| "p_items s =
     (case p_value s of
        None \<Rightarrow> None
      | Some (v, r) \<Rightarrow>
          (case skip_ws r of
             [] \<Rightarrow> None
           | c # t \<Rightarrow>
               if c = CHR '']'' then Some ([v], t)
               else if c = CHR '','' \<and> length t < length s then map_option (\<lambda>(vs, u). (v # vs, u)) (p_items t)
               else None))"
| "p_members s =
     (case skip_ws s of
        [] \<Rightarrow> None
      | q # r \<Rightarrow>
          if q \<noteq> CHR 0x22 then None
          else (case p_string r of
                  None \<Rightarrow> None
                | Some (k, r1) \<Rightarrow>
                    (case skip_ws r1 of
                       [] \<Rightarrow> None
                     | d # r2 \<Rightarrow>
                         if d \<noteq> CHR '':'' \<or> \<not> length r2 < length s then None
                         else (case p_value r2 of
                                 None \<Rightarrow> None
                               | Some (v, r3) \<Rightarrow>
                                   (case skip_ws r3 of
                                      [] \<Rightarrow> None
                                    | c # t \<Rightarrow>
                                        if c = CHR ''}'' then Some ([(k, v)], t)
                                        else if c = CHR '','' \<and> length t < length s then map_option (\<lambda>(kvs, u). ((k, v) # kvs, u)) (p_members t)
                                        else None)))))"
  by pat_completeness auto
termination
  by (relation "measure (\<lambda>x. case x of Inl s \<Rightarrow> 2 * length s | Inr (Inl s) \<Rightarrow> 2 * length s + 1 | Inr (Inr s) \<Rightarrow> 2 * length s + 1)") auto

declare p_value.simps [simp del] p_items.simps [simp del] p_members.simps [simp del]

definition json_parse :: "string \<Rightarrow> json option" where
  "json_parse s = (case p_value s of None \<Rightarrow> None | Some (v, r) \<Rightarrow> if skip_ws r = [] then Some v else None)"


section \<open>Strings round-trip\<close>

lemma p_string_quote: "p_string (CHR 0x22 # r) = Some ([], r)"
  by (simp add: p_string.simps [of "CHR 0x22 # r"])

lemma code_of_char: "(of_char c :: nat) = k \<Longrightarrow> c = char_of k"
  by (metis char_of_char)

lemma hex4_control: "n < 32 \<Longrightarrow> hex4 [CHR ''0'', CHR ''0'', hex_lower (n div 16), hex_lower (n mod 16)] = Some n"
proof -
  have "\<forall>n\<in>set [0..<32]. hex4 [CHR ''0'', CHR ''0'', hex_lower (n div 16), hex_lower (n mod 16)] = Some n" by code_simp
  then show "n < 32 \<Longrightarrow> ?thesis" by simp
qed

lemma p_string_unicode:
  assumes "hex4 ds = Some n" and "length ds = 4" and "n < 55296"
  shows "p_string (CHR 0x5C # CHR ''u'' # ds @ t) = cons_chars (utf8 n) (p_string t)"
  using assms by (simp add: p_string.simps [of "CHR 0x5C # CHR ''u'' # ds @ t"])

lemma p_string_simple: "simple_escape e = Some x \<Longrightarrow> e \<noteq> CHR ''u'' \<Longrightarrow> p_string (CHR 0x5C # e # t) = cons_chars [x] (p_string t)"
  by (simp add: p_string.simps [of "CHR 0x5C # e # t"])

lemma p_string_raw:
  "\<not> (of_char c :: nat) < 32 \<Longrightarrow> c \<noteq> CHR 0x22 \<Longrightarrow> c \<noteq> CHR 0x5C \<Longrightarrow> p_string (c # t) = cons_chars [c] (p_string t)"
  by (simp add: p_string.simps [of "c # t"])

lemma p_string_escape: "p_string (json_escape c @ t) = cons_chars [c] (p_string t)"
proof -
  let ?n = "of_char c :: nat"
  have sp: "simple_escape (CHR 0x22) = Some (char_of (34 :: nat))" "simple_escape (CHR 0x5C) = Some (char_of (92 :: nat))"
    "simple_escape (CHR ''b'') = Some (char_of (8 :: nat))" "simple_escape (CHR ''t'') = Some (char_of (9 :: nat))"
    "simple_escape (CHR ''n'') = Some (char_of (10 :: nat))" "simple_escape (CHR ''f'') = Some (char_of (12 :: nat))"
    "simple_escape (CHR ''r'') = Some (char_of (13 :: nat))"
    by code_simp+
  consider "?n \<in> {34, 92, 8, 9, 10, 12, 13}" | "?n < 32" "?n \<notin> {34, 92, 8, 9, 10, 12, 13}" | "\<not> ?n < 32" "?n \<notin> {34, 92, 8, 9, 10, 12, 13}"
    by blast
  then show ?thesis
  proof cases
    case 1
    then show ?thesis by (auto simp: json_escape_def Let_def p_string_simple sp dest!: code_of_char)
  next
    case 2
    have "json_escape c = [CHR 0x5C, CHR ''u''] @ [CHR ''0'', CHR ''0'', hex_lower (?n div 16), hex_lower (?n mod 16)]"
      using 2 by (simp add: json_escape_def Let_def)
    moreover have "utf8 ?n = [c]" using 2 by (simp add: utf8_def)
    ultimately show ?thesis using p_string_unicode [OF hex4_control [OF 2(1)], of t] 2(1) by simp
  next
    case 3
    moreover have "c \<noteq> CHR 0x22" "c \<noteq> CHR 0x5C" using 3(2) by auto
    ultimately show ?thesis by (simp add: json_escape_def Let_def p_string_raw)
  qed
qed

lemma cons_chars_Some [simp]: "cons_chars cs (Some (s, r)) = Some (cs @ s, r)"
  by (simp add: cons_chars_def)

lemma p_string_roundtrip: "p_string (concat (map json_escape s) @ CHR 0x22 # r) = Some (s, r)"
  by (induction s) (simp_all add: p_string_quote p_string_escape)

section \<open>Numbers round-trip\<close>

lemma exponent_chars:
  "literal_parts ip fp ex x \<Longrightarrow> list_all number_char (ip @ fraction fp @ ex)"
  by (auto simp: literal_parts_def fraction_def number_char_def list_all_iff)

lemma json_number_parts: "literal_parts ip fp ex x \<Longrightarrow> json_number (ip @ fraction fp @ ex)"
proof -
  assume p: "literal_parts ip fp ex x"
  have i: "list_all is_digit ip" "ip \<noteq> []" "hd ip \<noteq> CHR ''0'' \<or> length ip = 1" "list_all is_digit fp" "exponent_of ex = Some x"
    using p by (auto simp: literal_parts_def)
  have e: "ex = [] \<or> hd ex = CHR ''e''" using p by (auto simp: literal_parts_def)
  have h: "hd (ip @ fraction fp @ ex) \<noteq> CHR ''-''" using i(1,2) by (cases ip) auto
  have r: "fraction fp @ ex = [] \<or> \<not> is_digit (hd (fraction fp @ ex))" using e by (auto simp: fraction_def)
  have a: "takeWhile is_digit (ip @ fraction fp @ ex) = ip" "dropWhile is_digit (ip @ fraction fp @ ex) = fraction fp @ ex"
    using takeWhile_upto [OF i(1) r] by simp_all
  have x: "ex = [] \<or> \<not> is_digit (hd ex)" using e by auto
  have b: "takeWhile is_digit (fp @ ex) = fp" "dropWhile is_digit (fp @ ex) = ex" using takeWhile_upto [OF i(4) x] by simp_all
  show ?thesis
  proof (cases "fp = []")
    case True
    then show ?thesis unfolding json_number_def Let_def using h a i e by (auto simp: fraction_def)
  next
    case False
    then show ?thesis unfolding json_number_def Let_def using h a b i e by (auto simp: fraction_def)
  qed
qed

lemma json_number_minus: "json_number u \<Longrightarrow> hd u \<noteq> CHR ''-'' \<Longrightarrow> json_number (CHR ''-'' # u)"
  by (cases u) (simp_all add: json_number_def)

definition ends_value :: "string \<Rightarrow> bool" where
  "ends_value r \<longleftrightarrow> r = [] \<or> \<not> number_char (hd r)"

lemma p_number_roundtrip:
  assumes "is_double x" and "\<not> negative_zero x" and "ends_value r"
  shows "p_number (js_String x @ r) = Some (JNum x, r)"
proof -
  obtain s m where x: "x = Fin s m" using assms(1) by (cases x) auto
  obtain ip fp ex z where p: "js_String x = (if s \<and> 0 < m then ''-'' else '''') @ ip @ fraction fp @ ex" "literal_parts ip fp ex z"
    using assms(1) js_String_parts [of s m] x by metis
  have "hd (ip @ fraction fp @ ex) \<noteq> CHR ''-''" using p(2) by (cases ip) (auto simp: literal_parts_def)
  then have j: "json_number (js_String x)" unfolding p(1) using json_number_minus json_number_parts [OF p(2)] by auto
  have "number_char (CHR ''-'')" by code_simp
  then have "list_all number_char (js_String x)" unfolding p(1) using exponent_chars [OF p(2)] by auto
  then have "takeWhile number_char (js_String x @ r) = js_String x \<and> dropWhile number_char (js_String x @ r) = r"
    using assms(3) by (intro takeWhile_upto) (auto simp: ends_value_def)
  then show ?thesis using j js_Number_String [OF assms(1,2)] by (simp add: p_number_def Let_def)
qed


section \<open>Values round-trip\<close>

text \<open>
  The values text can carry: finite numbers other than the negative zero, and objects without a
  repeated key. They are the values a program builds from parsed text and literals.
\<close>

fun plain :: "json \<Rightarrow> bool" where
  "plain (JNum x) \<longleftrightarrow> is_double x \<and> \<not> negative_zero x"
| "plain (JArr vs) \<longleftrightarrow> list_all plain vs"
| "plain (JObj kvs) \<longleftrightarrow> distinct (map fst kvs) \<and> list_all (\<lambda>kv. plain (snd kv)) kvs"
| "plain v \<longleftrightarrow> True"

lemma is_double_finite: "is_double x \<Longrightarrow> js_is_finite x"
  by (cases x) auto

lemma js_String_hd:
  assumes "is_double x"
  shows "js_String x \<noteq> [] \<and> (is_digit (hd (js_String x)) \<or> hd (js_String x) = CHR ''-'')"
proof -
  obtain s m where x: "x = Fin s m" using assms by (cases x) auto
  obtain ip fp ex z where "js_String x = (if s \<and> 0 < m then ''-'' else '''') @ ip @ fraction fp @ ex" "literal_parts ip fp ex z"
    using assms js_String_parts [of s m] x by metis
  then show ?thesis by (cases ip) (auto simp: literal_parts_def)
qed

lemma value_start:
  assumes "plain v"
  shows "\<exists>c cs. json_stringify v = c # cs \<and> \<not> json_ws c \<and> c \<noteq> CHR '']'' \<and> c \<noteq> CHR ''}''"
proof -
  have w: "\<not> json_ws c \<and> c \<noteq> CHR '']'' \<and> c \<noteq> CHR ''}''" if "is_digit c \<or> c = CHR ''-''" for c
    using that by (auto simp: is_digit_def json_ws_def Let_def)
  have n: "\<not> json_ws (CHR ''n'')" "\<not> json_ws (CHR ''t'')" "\<not> json_ws (CHR ''f'')" "\<not> json_ws (CHR 0x22)" "\<not> json_ws (CHR ''['')" "\<not> json_ws (CHR ''{'')"
    by code_simp+
  show ?thesis
  proof (cases v)
    case (JNum x)
    then have x: "is_double x" using assms by simp
    obtain c cs where "js_String x = c # cs" using js_String_hd [OF x] by (cases "js_String x") auto
    then show ?thesis using JNum is_double_finite [OF x] js_String_hd [OF x] w [of c] by auto
  qed (use n in \<open>simp_all add: json_quote_def\<close>)
qed

lemma skip_ws_value: "plain v \<Longrightarrow> skip_ws (json_stringify v @ r) = json_stringify v @ r"
  using value_start [of v] by auto

lemma not_ws_marks [simp]: "\<not> json_ws (CHR '','')" "\<not> json_ws (CHR '']'')" "\<not> json_ws (CHR ''}'')" "\<not> json_ws (CHR '':'')" "\<not> json_ws (CHR 0x22)"
    "\<not> json_ws (CHR ''['')" "\<not> json_ws (CHR ''{'')"
  by code_simp+

lemma ends_value_marks [simp]: "ends_value []" "ends_value (CHR '','' # t)" "ends_value (CHR '']'' # t)" "ends_value (CHR ''}'' # t)"
proof -
  have "\<not> number_char (CHR '','')" "\<not> number_char (CHR '']'')" "\<not> number_char (CHR ''}'')" by code_simp+
  then show "ends_value []" "ends_value (CHR '','' # t)" "ends_value (CHR '']'' # t)" "ends_value (CHR ''}'' # t)"
    by (simp_all add: ends_value_def)
qed

lemma join_Cons: "join_with sep (w # ws) = w @ (if ws = [] then [] else sep @ join_with sep ws)"
  by (cases ws) simp_all

definition reads_back :: "json \<Rightarrow> bool" where
  "reads_back v \<longleftrightarrow> (\<forall>r. ends_value r \<longrightarrow> p_value (json_stringify v @ r) = Some (v, r))"

lemma p_items_roundtrip:
  assumes "vs \<noteq> []" and "\<forall>v\<in>set vs. reads_back v"
  shows "p_items (join_with '','' (map json_stringify vs) @ CHR '']'' # r) = Some (vs, r)"
  using assms
proof (induction vs)
  case (Cons v vs)
  let ?rest = "join_with '','' (map json_stringify vs) @ CHR '']'' # r"
  show ?case
  proof (cases "vs = []")
    case True
    have "p_value (json_stringify v @ CHR '']'' # r) = Some (v, CHR '']'' # r)" using Cons.prems by (simp add: reads_back_def)
    then show ?thesis using True by (simp add: p_items.simps [of "json_stringify v @ CHR '']'' # r"])
  next
    case False
    have "p_value (json_stringify v @ CHR '','' # ?rest) = Some (v, CHR '','' # ?rest)" using Cons.prems by (simp add: reads_back_def)
    moreover have "p_items ?rest = Some (vs, r)" using Cons False by simp
    ultimately show ?thesis using False by (simp add: join_Cons p_items.simps [of "json_stringify v @ CHR '','' # ?rest"])
  qed
qed simp

abbreviation member_text :: "string \<times> json \<Rightarrow> string" where
  "member_text kv \<equiv> json_quote (fst kv) @ '':'' @ json_stringify (snd kv)"

lemma p_members_one:
  assumes "reads_back v" and "ends_value (c # t)" and "\<not> json_ws c"
  shows "p_members (member_text (k, v) @ c # t) =
    (if c = CHR ''}'' then Some ([(k, v)], t)
     else if c = CHR '','' then map_option (\<lambda>(kvs, u). ((k, v) # kvs, u)) (p_members t) else None)"
proof -
  have "p_value (json_stringify v @ c # t) = Some (v, c # t)" using assms by (simp add: reads_back_def)
  then show ?thesis using assms(3)
    p_members.simps [of "CHR 0x22 # concat (map json_escape k) @ CHR 0x22 # CHR '':'' # json_stringify v @ c # t"]
    by (simp add: json_quote_def p_string_roundtrip)
qed

lemma p_members_roundtrip:
  assumes "kvs \<noteq> []" and "\<forall>kv\<in>set kvs. reads_back (snd kv)"
  shows "p_members (join_with '','' (map member_text kvs) @ CHR ''}'' # r) = Some (kvs, r)"
  using assms
proof (induction kvs)
  case (Cons kv kvs)
  let ?rest = "join_with '','' (map member_text kvs) @ CHR ''}'' # r"
  obtain k v where kv: "kv = (k, v)" by force
  have v: "reads_back v" using Cons.prems kv by simp
  show ?case
  proof (cases "kvs = []")
    case True
    then show ?thesis using p_members_one [OF v, of "CHR ''}''" r k] kv by simp
  next
    case False
    then have "p_members ?rest = Some (kvs, r)" using Cons by simp
    then show ?thesis using p_members_one [OF v, of "CHR '',''" ?rest k] kv False by (simp add: join_Cons)
  qed
qed simp

lemma fold_update_distinct:
  "distinct (map fst kvs) \<Longrightarrow> fst ` set kvs \<inter> fst ` set acc = {} \<Longrightarrow> fold (\<lambda>(k, v). AList.update k v) kvs acc = acc @ kvs"
proof (induction kvs arbitrary: acc)
  case (Cons kv kvs)
  obtain k v where kv: "kv = (k, v)" by force
  have u: "AList.update k v acc = acc @ [(k, v)]" if "k \<notin> fst ` set acc"
    using that by (induction acc) auto
  have "fold (\<lambda>(k, v). AList.update k v) kvs (acc @ [(k, v)]) = (acc @ [(k, v)]) @ kvs"
    by (rule Cons.IH) (use Cons.prems kv in \<open>auto simp: image_iff\<close>)
  moreover have "k \<notin> fst ` set acc" using Cons.prems kv by auto
  ultimately show ?case using u kv by simp
qed simp


lemma reads_back_array:
  assumes "\<forall>v\<in>set vs. reads_back v" and "list_all plain vs"
  shows "reads_back (JArr vs)"
  unfolding reads_back_def
proof (intro allI impI)
  fix r
  show "p_value (json_stringify (JArr vs) @ r) = Some (JArr vs, r)"
  proof (cases vs)
    case Nil
    then show ?thesis by (simp add: p_value.simps [of "CHR ''['' # CHR '']'' # r"])
  next
    case (Cons v ws)
    let ?t = "join_with '','' (map json_stringify vs) @ CHR '']'' # r"
    have t: "p_items ?t = Some (vs, r)" using assms Cons by (intro p_items_roundtrip) auto
    obtain c cs where "json_stringify v = c # cs" "\<not> json_ws c" "c \<noteq> CHR '']''" using value_start [of v] assms(2) Cons by auto
    then have "take 1 (skip_ws ?t) \<noteq> '']''" by (simp add: Cons join_Cons)
    then show ?thesis using t by (simp add: p_value.simps [of "CHR ''['' # ?t"])
  qed
qed

lemma reads_back_object:
  assumes "\<forall>kv\<in>set kvs. reads_back (snd kv)" and "distinct (map fst kvs)"
  shows "reads_back (JObj kvs)"
  unfolding reads_back_def
proof (intro allI impI)
  fix r
  show "p_value (json_stringify (JObj kvs) @ r) = Some (JObj kvs, r)"
  proof (cases kvs)
    case Nil
    then show ?thesis by (simp add: p_value.simps [of "CHR ''{'' # CHR ''}'' # r"])
  next
    case (Cons kv ws)
    let ?t = "join_with '','' (map member_text kvs) @ CHR ''}'' # r"
    have t: "p_members ?t = Some (kvs, r)" using assms Cons by (intro p_members_roundtrip) auto
    have "take 1 (skip_ws ?t) \<noteq> ''}''" by (simp add: Cons join_Cons json_quote_def)
    moreover have "fold (\<lambda>(k, v). AList.update k v) kvs [] = kvs" using fold_update_distinct [OF assms(2), of "[]"] by simp
    ultimately show ?thesis using t p_value.simps [of "CHR ''{'' # ?t"] by simp
  qed
qed

lemma reads_back_number:
  assumes "is_double x" and "\<not> negative_zero x"
  shows "reads_back (JNum x)"
  unfolding reads_back_def
proof (intro allI impI)
  fix r assume r: "ends_value r"
  obtain c cs where c: "js_String x = c # cs" "is_digit c \<or> c = CHR ''-''" using js_String_hd [OF assms(1)] by (cases "js_String x") auto
  have k: "\<not> json_ws c" "c \<noteq> CHR 0x22" "c \<noteq> CHR ''[''" "c \<noteq> CHR ''{''" "c \<noteq> CHR ''n''" "c \<noteq> CHR ''t''" "c \<noteq> CHR ''f''"
    using c(2) by (auto simp: is_digit_def json_ws_def Let_def)
  have "p_word (js_String x @ r) = Some (JNum x, r)" using p_number_roundtrip [OF assms r] k c(1) by (simp add: p_word_def)
  then show "p_value (json_stringify (JNum x) @ r) = Some (JNum x, r)"
    using k c(1) is_double_finite [OF assms(1)] by (simp add: p_value.simps [of "c # cs @ r"])
qed

lemma plain_reads_back: "plain v \<Longrightarrow> reads_back v"
proof (induction v rule: json_stringify.induct)
  case 1
  have w: "\<not> json_ws (CHR ''n'')" by code_simp
  show ?case by (simp add: reads_back_def p_value.simps [of "CHR ''n'' # _"] p_word_def w)
next
  case (2 b)
  have w: "\<not> json_ws (CHR ''t'')" "\<not> json_ws (CHR ''f'')" by code_simp+
  show ?case by (simp add: reads_back_def p_value.simps [of "CHR ''t'' # _"] p_value.simps [of "CHR ''f'' # _"] p_word_def w)
next
  case (3 x)
  then show ?case by (simp add: reads_back_number)
next
  case (4 s)
  show ?case unfolding reads_back_def
    using p_value.simps [of "CHR 0x22 # concat (map json_escape s) @ CHR 0x22 # r" for r] by (simp add: json_quote_def p_string_roundtrip)
next
  case (5 vs)
  then show ?case by (intro reads_back_array) (auto simp: list_all_iff)
next
  case (6 kvs)
  then show ?case by (intro reads_back_object) (auto simp: list_all_iff)
qed

theorem json_parse_stringify: "plain v \<Longrightarrow> json_parse (json_stringify v) = Some v"
  using plain_reads_back [of v] by (auto simp: reads_back_def json_parse_def dest: spec [of _ "[]"])

section \<open>One line\<close>

text \<open>Printed JSON never contains a line break: control characters leave a string only as escapes.\<close>

definition no_break :: "string \<Rightarrow> bool" where
  "no_break s \<longleftrightarrow> list_all (\<lambda>c. 32 \<le> (of_char c :: nat)) s"

lemma no_break_append [simp]: "no_break (s @ t) \<longleftrightarrow> no_break s \<and> no_break t"
  by (simp add: no_break_def)

lemma no_break_concat: "no_break (concat xs) \<longleftrightarrow> (\<forall>x\<in>set xs. no_break x)"
  by (induction xs) (simp_all, simp add: no_break_def)

lemma no_break_join: "no_break sep \<Longrightarrow> \<forall>w\<in>set ws. no_break w \<Longrightarrow> no_break (join_with sep ws)"
  by (induction sep ws rule: join_with.induct) (simp_all, simp add: no_break_def)

lemma no_break_escape: "no_break (json_escape c)"
proof -
  have h: "\<forall>n\<in>set [0..<16]. 32 \<le> (of_char (hex_lower n) :: nat)" by code_simp
  then have "32 \<le> (of_char (hex_lower n) :: nat)" if "n < 16" for n using that by simp
  then show ?thesis by (auto simp: json_escape_def Let_def no_break_def)
qed

lemma no_break_quote: "no_break (json_quote s)"
proof -
  have "no_break (concat (map json_escape s))" by (simp add: no_break_concat no_break_escape)
  moreover have "no_break [CHR 0x22]" by code_simp
  ultimately show ?thesis unfolding json_quote_def using no_break_append [of "[CHR 0x22]"] by simp
qed

lemma no_break_number: "is_double x \<Longrightarrow> no_break (js_String x)"
proof -
  assume x: "is_double x"
  obtain s m where sm: "x = Fin s m" using x by (cases x) auto
  obtain ip fp ex z where p: "js_String x = (if s \<and> 0 < m then ''-'' else '''') @ ip @ fraction fp @ ex" "literal_parts ip fp ex z"
    using x js_String_parts [of s m] sm by metis
  have "32 \<le> (of_char c :: nat)" if "number_char c" for c
    using that by (auto simp: number_char_def is_digit_def Let_def)
  then have "no_break (ip @ fraction fp @ ex)" using exponent_chars [OF p(2)] unfolding no_break_def list_all_iff by blast
  moreover have "no_break ''-''" "no_break ''''" by code_simp+
  ultimately show ?thesis unfolding p(1) by (auto simp del: append.simps)
qed

lemma no_break_stringify: "plain v \<Longrightarrow> no_break (json_stringify v)"
proof (induction v rule: json_stringify.induct)
  case (5 vs)
  have "no_break (join_with '','' (map json_stringify vs))" using 5 by (intro no_break_join) (auto simp: list_all_iff no_break_def)
  then show ?case by (simp add: no_break_def)
next
  case (6 kvs)
  have "no_break (member_text kv)" if m: "kv \<in> set kvs" for kv
  proof -
    obtain k v where kv: "kv = (k, v)" by force
    then have "plain v" using m 6 by (auto simp: list_all_iff)
    then have "no_break (json_stringify v)" using 6(1) m unfolding kv by fastforce
    then show ?thesis using no_break_quote [of k] by (simp add: kv no_break_def)
  qed
  then have "no_break (join_with '','' (map member_text kvs))" by (intro no_break_join) (auto simp: no_break_def)
  then show ?case by (simp add: no_break_def)
next
  case (3 x)
  then show ?case by (simp add: no_break_number is_double_finite)
qed (simp_all add: no_break_quote, simp_all add: no_break_def)

end
