(* ===== verification/Sse.thy ===== *)
theory Sse
  imports Prelude
begin

text \<open>
  Server-sent events, \<open>lib/sse.ts\<close>. The reader keeps a buffer of undecided text and the data lines of
  the event it is inside, as the code does; its inner loop is a \<open>partial_function\<close>, so that it ends is a
  theorem. A stream is the texts its reads deliver (\<open>TextDecoder\<close> in stream mode hands on whole
  characters, so the texts concatenate to the decoded stream) and how it ends: with \<open>done\<close>, or with a
  read that throws. The reference is \<open>event_stream\<close>, which looks at the whole text at once: blocks of
  lines between blank lines, and in each block its data fields.
\<close>

section \<open>The reader\<close>

record sse_state =
  buffer :: string
  dataLines :: "string list"

type_synonym stream_body = "string list \<times> string option"

abbreviation newline :: char where
  "newline \<equiv> char_of (10 :: nat)"

abbreviation carriage_return :: char where
  "carriage_return \<equiv> char_of (13 :: nat)"

text \<open>\<open>replace(/\r$/, "")\<close> and \<open>replace(/^ /, "")\<close>.\<close>

definition strip_cr :: "string \<Rightarrow> string" where
  "strip_cr s = (if s \<noteq> [] \<and> last s = carriage_return then butlast s else s)"

definition strip_space :: "string \<Rightarrow> string" where
  "strip_space s = (if s \<noteq> [] \<and> hd s = CHR '' '' then tl s else s)"

definition takeEvent :: "sse_state \<Rightarrow> string option \<times> sse_state" where
  "takeEvent st =
     (if dataLines st = [] then (None, st)
      else (Some (join_with [newline] (dataLines st)), st\<lparr>dataLines := []\<rparr>))"

definition yield_event :: "sse_state \<Rightarrow> string list \<times> sse_state" where
  "yield_event st = (let (payload, st1) = takeEvent st in (case payload of None \<Rightarrow> [] | Some p \<Rightarrow> [p], st1))"

definition on_line :: "string \<Rightarrow> sse_state \<Rightarrow> string list \<times> sse_state" where
  "on_line line st =
     (if line = '''' then yield_event st
      else if startsWith line ''data:'' then ([], st\<lparr>dataLines := dataLines st @ [strip_space (drop 5 line)]\<rparr>)
      else ([], st))"

partial_function (option) drain :: "string list \<Rightarrow> sse_state \<Rightarrow> (string list \<times> sse_state) option" where
  "drain out st =
     (if newline \<notin> set (buffer st) then Some (out, st)
      else (let line = strip_cr (takeWhile (\<lambda>c. c \<noteq> newline) (buffer st));
                rest = tl (dropWhile (\<lambda>c. c \<noteq> newline) (buffer st));
                (ys, st1) = on_line line (st\<lparr>buffer := rest\<rparr>)
            in drain (out @ ys) st1))"

declare drain.simps [code]

definition at_end :: "sse_state \<Rightarrow> string list" where
  "at_end st =
     fst (yield_event (if buffer st \<noteq> '''' \<and> startsWith (buffer st) ''data:''
            then st\<lparr>dataLines := dataLines st @ [strip_space (drop 5 (strip_cr (buffer st)))]\<rparr> else st))"

primrec read_loop :: "string list \<Rightarrow> string option \<Rightarrow> string list \<Rightarrow> sse_state \<Rightarrow> (string list \<times> string option) option" where
  "read_loop [] failure out st =
     (case failure of
        Some msg \<Rightarrow> Some (out, Some msg)
      | None \<Rightarrow> (case drain out st of None \<Rightarrow> None | Some (out1, st1) \<Rightarrow> Some (out1 @ at_end st1, None)))"
| "read_loop (chunk # chunks) failure out st =
     (case drain out (st\<lparr>buffer := buffer st @ chunk\<rparr>) of
        None \<Rightarrow> None
      | Some (out1, st1) \<Rightarrow> read_loop chunks failure out1 st1)"

definition readSseData :: "stream_body \<Rightarrow> (string list \<times> string option) option" where
  "readSseData b = read_loop (fst b) (snd b) [] \<lparr>buffer = '''', dataLines = []\<rparr>"

section \<open>The reference: the events of a text\<close>

definition lines_of :: "string \<Rightarrow> string list" where
  "lines_of inp = map strip_cr (split_on newline inp)"

definition data_field :: "string \<Rightarrow> string option" where
  "data_field line = (if startsWith line ''data:'' then Some (strip_space (drop 5 line)) else None)"

fun blocks :: "string list \<Rightarrow> string list list" where
  "blocks [] = [[]]"
| "blocks (l # ls) =
     (if l = '''' then [] # blocks ls
      else (case blocks ls of [] \<Rightarrow> [[l]] | b # bs \<Rightarrow> (l # b) # bs))"

definition payloads_of :: "string list list \<Rightarrow> string list" where
  "payloads_of bs = map (join_with [newline]) (filter (\<lambda>ds. ds \<noteq> []) (map (List.map_filter data_field) bs))"

definition event_stream :: "string \<Rightarrow> string list" where
  "event_stream inp = payloads_of (blocks (lines_of inp))"

text \<open>What a stream that breaks off has delivered: the blocks a blank line closed.\<close>

definition closed_events :: "string \<Rightarrow> string list" where
  "closed_events inp = payloads_of (butlast (blocks (butlast (lines_of inp))))"

section \<open>The reader against the reference\<close>

definition opened :: "string list \<Rightarrow> string list list \<Rightarrow> string list list" where
  "opened acc bs = (acc @ hd bs) # tl bs"

definition fields_of :: "string list \<Rightarrow> string list list" where
  "fields_of ls = map (List.map_filter data_field) (blocks ls)"

definition joined :: "string list list \<Rightarrow> string list" where
  "joined bs = map (join_with [newline]) (filter (\<lambda>ds. ds \<noteq> []) bs)"

lemma payloads_fields: "payloads_of (blocks ls) = joined (fields_of ls)" "payloads_of (butlast (blocks ls)) = joined (butlast (fields_of ls))"
  by (simp_all add: payloads_of_def joined_def fields_of_def map_butlast)

lemma blocks_nonempty [simp]: "blocks ls \<noteq> []"
  by (induction ls) (auto split: list.split)

lemma fields_nonempty [simp]: "fields_of ls \<noteq> []"
  by (simp add: fields_of_def)

lemma fields_of_Nil: "fields_of [] = [[]]"
  by (simp add: fields_of_def List.map_filter_def)

lemma fields_of_Cons:
  "fields_of (l # ls) =
     (if l = '''' then [] # fields_of ls
      else (case data_field l of None \<Rightarrow> fields_of ls | Some d \<Rightarrow> opened [d] (fields_of ls)))"
proof -
  obtain b bs where b: "blocks ls = b # bs" by (cases "blocks ls") auto
  then show ?thesis by (auto simp: fields_of_def opened_def List.map_filter_def split: option.splits)
qed

lemma opened_opened [simp]: "opened acc (opened [d] bs) = opened (acc @ [d]) bs"
  by (simp add: opened_def)

lemma joined_Cons: "joined (b # bs) = (if b = [] then joined bs else join_with [newline] b # joined bs)"
  by (simp add: joined_def)

text \<open>One line: what it yields and the data lines it leaves, against the fields of the remaining lines.\<close>

lemma on_line_fields:
  assumes "on_line l st = (ys, st1)"
  shows "buffer st1 = buffer st"
    and "joined (butlast (opened (dataLines st) (fields_of (l # ls)))) = ys @ joined (butlast (opened (dataLines st1) (fields_of ls)))"
    and "last (opened (dataLines st) (fields_of (l # ls))) = last (opened (dataLines st1) (fields_of ls))"
proof -
  have n: "data_field '''' = None" by (simp add: data_field_def)
  obtain b bs where b: "fields_of ls = b # bs" by (cases "fields_of ls") auto
  show "buffer st1 = buffer st"
    using assms by (auto simp: on_line_def yield_event_def takeEvent_def Let_def split: if_splits)
  show "joined (butlast (opened (dataLines st) (fields_of (l # ls)))) = ys @ joined (butlast (opened (dataLines st1) (fields_of ls)))"
    and "last (opened (dataLines st) (fields_of (l # ls))) = last (opened (dataLines st1) (fields_of ls))"
    using assms b
    by (auto simp: on_line_def yield_event_def takeEvent_def Let_def fields_of_Cons data_field_def opened_def joined_Cons split: if_splits)
qed

text \<open>The inner loop ends, leaves the text after the last line break, and yields what the complete lines close.\<close>

lemma drain_result:
  "\<exists>ys st1. drain out st = Some (out @ ys, st1) \<and> buffer st1 = last (split_on newline (buffer st))
     \<and> (\<forall>ls. joined (butlast (opened (dataLines st) (fields_of (map strip_cr (butlast (split_on newline (buffer st))) @ ls))))
             = ys @ joined (butlast (opened (dataLines st1) (fields_of ls)))
           \<and> last (opened (dataLines st) (fields_of (map strip_cr (butlast (split_on newline (buffer st))) @ ls)))
             = last (opened (dataLines st1) (fields_of ls)))"
proof (induction "length (buffer st)" arbitrary: st out rule: less_induct)
  case less
  let ?b = "buffer st"
  show ?case
  proof (cases "newline \<in> set ?b")
    case False
    then show ?thesis by (simp add: drain.simps [of out st] split_on_absent)
  next
    case True
    let ?l = "takeWhile (\<lambda>c. c \<noteq> newline) ?b" and ?r = "tl (dropWhile (\<lambda>c. c \<noteq> newline) ?b)"
    have "dropWhile (\<lambda>c. c \<noteq> newline) ?b \<noteq> []" using True by auto
    then have d: "dropWhile (\<lambda>c. c \<noteq> newline) ?b = newline # ?r" using hd_dropWhile [of "\<lambda>c. c \<noteq> newline" ?b] by (metis list.collapse)
    then have b: "?b = ?l @ newline # ?r" by (metis takeWhile_dropWhile_id)
    have nl: "newline \<notin> set ?l" by (auto dest: set_takeWhileD)
    have sp: "split_on newline ?b = ?l # split_on newline ?r" by (subst b) (rule split_on_first [OF nl])
    obtain zs st1 where o: "on_line (strip_cr ?l) (st\<lparr>buffer := ?r\<rparr>) = (zs, st1)" by force
    note ol = on_line_fields [OF o]
    have b1: "buffer st1 = ?r" using ol(1) by simp
    have "length (buffer st1) < length ?b" unfolding b1 by (subst b) simp
    from less [OF this, of "out @ zs"] obtain ys st2 where IH: "drain (out @ zs) st1 = Some ((out @ zs) @ ys, st2)"
        "buffer st2 = last (split_on newline ?r)"
        "\<And>ls. joined (butlast (opened (dataLines st1) (fields_of (map strip_cr (butlast (split_on newline ?r)) @ ls))))
             = ys @ joined (butlast (opened (dataLines st2) (fields_of ls)))
           \<and> last (opened (dataLines st1) (fields_of (map strip_cr (butlast (split_on newline ?r)) @ ls)))
             = last (opened (dataLines st2) (fields_of ls))"
      unfolding b1 by blast
    have "drain out st = Some (out @ (zs @ ys), st2)"
      using True IH(1) by (simp add: drain.simps [of out st] Let_def o)
    moreover have "buffer st2 = last (split_on newline ?b)" using IH(2) sp by simp
    moreover have "butlast (split_on newline ?b) = ?l # butlast (split_on newline ?r)" by (simp add: sp)
    ultimately show ?thesis using ol(2,3) IH(3)
      by (intro exI [of _ "zs @ ys"] exI [of _ st2]) simp
  qed
qed


text \<open>What holds between two reads: the state against the text read so far.\<close>

definition in_step :: "string \<Rightarrow> string list \<Rightarrow> sse_state \<Rightarrow> bool" where
  "in_step inp out st \<longleftrightarrow> buffer st = last (split_on newline inp)
     \<and> (\<forall>ls. joined (butlast (fields_of (map strip_cr (butlast (split_on newline inp)) @ ls)))
             = out @ joined (butlast (opened (dataLines st) (fields_of ls)))
           \<and> last (fields_of (map strip_cr (butlast (split_on newline inp)) @ ls)) = last (opened (dataLines st) (fields_of ls)))"

lemma opened_Nil [simp]: "bs \<noteq> [] \<Longrightarrow> opened [] bs = bs"
  by (simp add: opened_def)

lemma in_step_start: "in_step '''' [] \<lparr>buffer = '''', dataLines = []\<rparr>"
  by (simp add: in_step_def)

lemma in_step_chunk:
  assumes "in_step inp out st"
  obtains ys st1 where "drain out (st\<lparr>buffer := buffer st @ chunk\<rparr>) = Some (out @ ys, st1)" and "in_step (inp @ chunk) (out @ ys) st1"
proof -
  let ?b = "buffer st @ chunk"
  obtain ys st1 where d: "drain out (st\<lparr>buffer := ?b\<rparr>) = Some (out @ ys, st1)" "buffer st1 = last (split_on newline ?b)"
      "\<And>ls. joined (butlast (opened (dataLines st) (fields_of (map strip_cr (butlast (split_on newline ?b)) @ ls))))
             = ys @ joined (butlast (opened (dataLines st1) (fields_of ls)))
           \<and> last (opened (dataLines st) (fields_of (map strip_cr (butlast (split_on newline ?b)) @ ls)))
             = last (opened (dataLines st1) (fields_of ls))"
    using drain_result [of out "st\<lparr>buffer := ?b\<rparr>"] by auto
  have sp: "split_on newline (inp @ chunk) = butlast (split_on newline inp) @ split_on newline ?b"
    using split_on_append [of newline inp chunk] assms by (simp add: in_step_def)
  have "in_step (inp @ chunk) (out @ ys) st1"
    using assms d(2,3) by (simp add: in_step_def sp butlast_append)
  with d(1) show thesis by (rule that)
qed

lemma joined_append: "joined (xs @ ys) = joined xs @ joined ys"
  by (simp add: joined_def)

lemma joined_split: "bs \<noteq> [] \<Longrightarrow> joined bs = joined (butlast bs) @ joined [last bs]"
  using joined_append [of "butlast bs" "[last bs]"] by simp

lemma opened_nonempty [simp]: "opened acc bs \<noteq> []"
  by (simp add: opened_def)

lemma startsWith_snoc: "c \<notin> set p \<Longrightarrow> startsWith (w @ [c]) p \<longleftrightarrow> startsWith w p"
  by (induction w p rule: startsWith.induct) auto

lemma strip_cr_data: "startsWith (strip_cr b) ''data:'' \<longleftrightarrow> startsWith b ''data:''"
proof (cases "b = [] \<or> last b \<noteq> carriage_return")
  case False
  then obtain w where b: "b = w @ [carriage_return]" using append_butlast_last_id by metis
  have "carriage_return \<notin> set ''data:''" by code_simp
  then show ?thesis using b startsWith_snoc [of carriage_return "''data:''" w] by (simp add: strip_cr_def)
qed (auto simp: strip_cr_def)

lemma at_end_fields: "at_end st = joined (opened (dataLines st) (fields_of [strip_cr (buffer st)]))"
proof -
  have n: "data_field '''' = None" by (simp add: data_field_def)
  have e: "strip_cr (buffer st) = '''' \<Longrightarrow> \<not> startsWith (buffer st) ''data:''" using strip_cr_data [of "buffer st"] by auto
  have "startsWith [] ''data:'' = False" by simp
  then show ?thesis using e strip_cr_data [of "buffer st"]
    by (auto simp: at_end_def yield_event_def takeEvent_def Let_def fields_of_Cons fields_of_Nil data_field_def opened_def joined_def)
qed

lemma in_step_end:
  assumes "in_step inp out st"
  shows "drain out st = Some (out, st)" and "out @ at_end st = event_stream inp" and "out = closed_events inp"
proof -
  have "newline \<notin> set (buffer st)" using assms split_on_parts [of "last (split_on newline inp)" newline inp] by (simp add: in_step_def)
  then show "drain out st = Some (out, st)" by (simp add: drain.simps [of out st])
  have b: "split_on newline inp = butlast (split_on newline inp) @ [buffer st]" using assms by (simp add: in_step_def)
  have l: "lines_of inp = map strip_cr (butlast (split_on newline inp)) @ [strip_cr (buffer st)]"
    using arg_cong [OF b, of "map strip_cr"] by (simp add: lines_of_def)
  have "event_stream inp = joined (butlast (fields_of (lines_of inp))) @ joined [last (fields_of (lines_of inp))]"
    using joined_split [OF fields_nonempty] by (simp add: event_stream_def payloads_fields)
  also have "\<dots> = out @ joined (butlast (opened (dataLines st) (fields_of [strip_cr (buffer st)])))
      @ joined [last (opened (dataLines st) (fields_of [strip_cr (buffer st)]))]"
    unfolding l using assms by (simp add: in_step_def)
  also have "\<dots> = out @ at_end st" using joined_split [OF opened_nonempty] by (simp add: at_end_fields)
  finally show "out @ at_end st = event_stream inp" by simp
  have "butlast (lines_of inp) = map strip_cr (butlast (split_on newline inp)) @ []" by (simp add: l)
  then have "closed_events inp = out @ joined (butlast (opened (dataLines st) (fields_of [])))"
    unfolding closed_events_def payloads_fields using assms unfolding in_step_def by metis
  then show "out = closed_events inp" by (simp add: fields_of_Nil opened_def joined_def)
qed

lemma read_loop_result:
  "in_step inp out st \<Longrightarrow> read_loop chunks failure out st =
     Some (case failure of None \<Rightarrow> (event_stream (inp @ concat chunks), None) | Some msg \<Rightarrow> (closed_events (inp @ concat chunks), Some msg))"
proof (induction chunks arbitrary: inp out st)
  case Nil
  then show ?case using in_step_end [OF Nil] by (simp split: option.split)
next
  case (Cons c cs)
  obtain ys st1 where "drain out (st\<lparr>buffer := buffer st @ c\<rparr>) = Some (out @ ys, st1)" "in_step (inp @ c) (out @ ys) st1"
    using Cons.prems by (rule in_step_chunk)
  then show ?case using Cons.IH by (simp split: option.split)
qed

text \<open>
  C21. The reader always returns, whatever the stream delivers and however the reads cut it: with the events
  of the whole text when the stream ends, and with the events that are complete when a read throws.
\<close>

theorem reader_terminates_with_the_events:
  "readSseData (chunks, failure) =
     Some (case failure of None \<Rightarrow> (event_stream (concat chunks), None) | Some msg \<Rightarrow> (closed_events (concat chunks), Some msg))"
  using read_loop_result [OF in_step_start, of chunks failure] by (simp add: readSseData_def split: option.split)

section \<open>What a producer emits\<close>

definition sse_event :: "string \<Rightarrow> string" where
  "sse_event payload = ''data: '' @ payload @ [newline, newline]"

definition one_line :: "string \<Rightarrow> bool" where
  "one_line s \<longleftrightarrow> newline \<notin> set s \<and> carriage_return \<notin> set s"

lemma event_stream_emit: "one_line p \<Longrightarrow> event_stream (sse_event p @ inp) = p # event_stream inp"
proof -
  assume p: "one_line p"
  have d: "newline \<notin> set ''data: ''" "carriage_return \<notin> set ''data: ''" by code_simp+
  have w: "newline \<notin> set (''data: '' @ p)" using p d by (simp add: one_line_def)
  have c: "last (''data: '' @ p) \<noteq> carriage_return" 
  proof (cases "p = []")
    case False
    then have "last p \<in> set p" by (rule last_in_set)
    then show ?thesis using p False by (metis last_appendR one_line_def)
  qed (use d in auto)
  have "sse_event p @ inp = (''data: '' @ p) @ newline # newline # inp" by (simp add: sse_event_def)
  then have "split_on newline (sse_event p @ inp) = (''data: '' @ p) # split_on newline (newline # inp)"
    using split_on_first [OF w, of "newline # inp"] by (simp only:)
  also have "split_on newline (newline # inp) = [] # split_on newline inp" by simp
  finally have l: "lines_of (sse_event p @ inp) = (''data: '' @ p) # '''' # lines_of inp"
    using c by (simp add: lines_of_def strip_cr_def)
  have "data_field (''data: '' @ p) = Some p" by (simp add: data_field_def strip_space_def)
  then have f: "fields_of (lines_of (sse_event p @ inp)) = opened [p] ([] # fields_of (lines_of inp))"
    unfolding l by (simp add: fields_of_Cons)
  show ?thesis unfolding event_stream_def payloads_fields f by (simp add: opened_def joined_Cons)
qed

lemma event_stream_emitted: "\<forall>p\<in>set ps. one_line p \<Longrightarrow> event_stream (concat (map sse_event ps)) = ps"
proof (induction ps)
  case Nil
  show ?case by (simp add: event_stream_def lines_of_def strip_cr_def payloads_of_def List.map_filter_def)
next
  case (Cons p ps)
  then show ?case by (simp add: event_stream_emit)
qed

end
