(* ===== verification/Playground.thy ===== *)
theory Playground
  imports Json_Text Sse Api_Keys
begin

text \<open>
  The chat playground: the events of \<open>lib/playground/chat-events.ts\<close>, the browser side of
  \<open>lib/playground/dispatch.ts\<close>, and the route \<open>app/api/playground/chat/route.ts\<close> that mints a key for one
  exchange, relays the gateway's stream and revokes the key. The gateway is a parameter: what it
  answers to a secret and a payload. Whether the browser has gone, the measured latency and the text of
  a type error (the engine's own) are parameters too.
\<close>

section \<open>The events on the wire\<close>

datatype chat_event =
    Delta string
  | Usage "jsnum option" "jsnum option" jsnum
  | ChatError string
  | ChatDone

fun event_json :: "chat_event \<Rightarrow> json" where
  "event_json (Delta t) = JObj [(''type'', JStr ''delta''), (''text'', JStr t)]"
| "event_json (Usage p c latency) = JObj [(''type'', JStr ''usage''), (''promptTokens'', jopt JNum p),
     (''completionTokens'', jopt JNum c), (''latencyMs'', JNum latency)]"
| "event_json (ChatError m) = JObj [(''type'', JStr ''error''), (''message'', JStr m)]"
| "event_json ChatDone = JObj [(''type'', JStr ''done'')]"

definition number_field :: "string \<Rightarrow> json \<Rightarrow> jsnum option" where
  "number_field k v = (case jget k v of Some (JNum x) \<Rightarrow> Some x | _ \<Rightarrow> None)"

definition parsePlaygroundChatEvent :: "string \<Rightarrow> chat_event option" where
  "parsePlaygroundChatEvent payload =
     (case json_parse payload of
        None \<Rightarrow> None
      | Some data \<Rightarrow>
          (case jstr (jget ''type'' data) of
             None \<Rightarrow> None
           | Some ty \<Rightarrow>
               if ty = ''delta'' then map_option Delta (jstr (jget ''text'' data))
               else if ty = ''usage'' then
                 map_option (Usage (number_field ''promptTokens'' data) (number_field ''completionTokens'' data))
                   (number_field ''latencyMs'' data)
               else if ty = ''error'' then map_option ChatError (jstr (jget ''message'' data))
               else if ty = ''done'' then Some ChatDone
               else None))"

text \<open>\<open>emit\<close>: one event as one server-sent event.\<close>

definition emit :: "chat_event \<Rightarrow> string" where
  "emit ev = sse_event (json_stringify (event_json ev))"

section \<open>The browser's side\<close>

text \<open>A fetch response: its status class, its body, and what \<open>response.json()\<close> gives when the body is read as JSON.\<close>

record fetched =
  f_ok :: bool
  f_body :: "stream_body option"
  f_json :: "json option"

definition could_not_serve :: string where
  "could_not_serve = ''The model could not serve this request.''"

definition refused_event :: "fetched \<Rightarrow> chat_event" where
  "refused_event answer = ChatError (case jstr (Option.bind (f_json answer) (jget ''error'')) of Some m \<Rightarrow> m | None \<Rightarrow> could_not_serve)"

definition streamPlaygroundChat :: "fetched \<Rightarrow> (chat_event list \<times> string option) option" where
  "streamPlaygroundChat answer =
     (case f_body answer of
        None \<Rightarrow> Some ([refused_event answer], None)
      | Some b \<Rightarrow>
          if \<not> f_ok answer then Some ([refused_event answer], None)
          else map_option (\<lambda>(payloads, failure). (List.map_filter parsePlaygroundChatEvent payloads, failure)) (readSseData b))"

section \<open>What the route accepts\<close>

definition MAX_MESSAGES :: nat where "MAX_MESSAGES = 40"
definition MAX_TOTAL_CONTENT_CHARS :: int where "MAX_TOTAL_CONTENT_CHARS = 200000"
definition MAX_BODY_BYTES :: int where "MAX_BODY_BYTES = 8000000"

definition contentChars :: "json \<Rightarrow> int" where
  "contentChars content = (case content of JStr s \<Rightarrow> int (length s) | _ \<Rightarrow> int (length (json_stringify content)))"

definition parse_message :: "json \<Rightarrow> (string \<times> json) option" where
  "parse_message item =
     (case jstr (jget ''role'' item) of
        None \<Rightarrow> None
      | Some role \<Rightarrow>
          (case jget ''content'' item of
             Some (JStr s) \<Rightarrow> Some (role, JStr s)
           | Some (JArr parts) \<Rightarrow> Some (role, JArr parts)
           | _ \<Rightarrow> None))"

fun parse_loop :: "int \<Rightarrow> json list \<Rightarrow> (string \<times> json) list option" where
  "parse_loop total_chars [] = Some []"
| "parse_loop total_chars (item # items) =
     (case parse_message item of
        None \<Rightarrow> None
      | Some (role, content) \<Rightarrow>
          (let n = total_chars + contentChars content in
           if MAX_TOTAL_CONTENT_CHARS < n then None
           else map_option (\<lambda>ms. (role, content) # ms) (parse_loop n items)))"

definition parseMessages :: "json option \<Rightarrow> (string \<times> json) list option" where
  "parseMessages raw =
     (case raw of
        Some (JArr items) \<Rightarrow> if items = [] \<or> MAX_MESSAGES < length items then None else parse_loop 0 items
      | _ \<Rightarrow> None)"

definition in_range :: "int \<Rightarrow> int \<Rightarrow> jsnum \<Rightarrow> bool" where
  "in_range lo hi x \<longleftrightarrow> js_is_finite x \<and> js_le (js_int lo) x \<and> js_le x (js_int hi)"

fun string_value :: "json \<Rightarrow> bool" where
  "string_value (JStr s) = True"
| "string_value _ = False"

text \<open>One entry of the allowlist: the parameters it contributes.\<close>

definition pick_number :: "string \<Rightarrow> (jsnum \<Rightarrow> bool) \<Rightarrow> json \<Rightarrow> (string \<times> json) list" where
  "pick_number k P raw = (case number_field k raw of Some x \<Rightarrow> if P x then [(k, JNum x)] else [] | None \<Rightarrow> [])"

definition pick_effort :: "json \<Rightarrow> (string \<times> json) list" where
  "pick_effort raw =
     (case jstr (jget ''reasoning_effort'' raw) of
        Some r \<Rightarrow> if r = ''low'' \<or> r = ''medium'' \<or> r = ''high'' then [(''reasoning_effort'', JStr r)] else []
      | None \<Rightarrow> [])"

definition pick_stop :: "json \<Rightarrow> (string \<times> json) list" where
  "pick_stop raw =
     (case jget ''stop'' raw of
        Some (JArr vs) \<Rightarrow> if length vs \<le> 8 \<and> list_all string_value vs then [(''stop'', JArr vs)] else []
      | _ \<Rightarrow> [])"

definition pick_tools :: "json \<Rightarrow> (string \<times> json) list" where
  "pick_tools raw =
     (case jget ''tools'' raw of
        Some (JArr vs) \<Rightarrow> if length vs \<le> 64 then [(''tools'', JArr vs), (''tool_choice'', JStr ''auto'')] else []
      | _ \<Rightarrow> [])"

definition json_object_format :: json where
  "json_object_format = JObj [(''type'', JStr ''json_object'')]"

definition pick_format :: "json \<Rightarrow> (string \<times> json) list" where
  "pick_format raw =
     (case jget ''response_format'' raw of
        Some f \<Rightarrow> if jget ''type'' f = Some (JStr ''json_object'') then [(''response_format'', json_object_format)] else []
      | None \<Rightarrow> [])"

definition pickServingParams :: "json option \<Rightarrow> (string \<times> json) list" where
  "pickServingParams raw =
     (case raw of
        None \<Rightarrow> []
      | Some v \<Rightarrow>
          pick_number ''temperature'' (in_range 0 2) v @ pick_number ''top_p'' (in_range 0 1) v
          @ pick_number ''max_tokens'' (\<lambda>x. js_is_integer x \<and> in_range 1 200000 x) v
          @ pick_effort v @ pick_number ''seed'' js_is_integer v @ pick_stop v @ pick_tools v @ pick_format v)"

section \<open>The relay\<close>

definition parseChunk :: "string \<Rightarrow> json option" where
  "parseChunk payload =
     (case json_parse payload of Some (JObj kvs) \<Rightarrow> Some (JObj kvs) | Some (JArr vs) \<Rightarrow> Some (JArr vs) | _ \<Rightarrow> None)"

definition upstreamErrorMessage :: "fetched \<Rightarrow> string" where
  "upstreamErrorMessage answer =
     (case Option.bind (f_json answer) (jget ''error'') of
        Some (JStr s) \<Rightarrow> s
      | Some err \<Rightarrow> (case jstr (jget ''message'' err) of Some m \<Rightarrow> m | None \<Rightarrow> could_not_serve)
      | None \<Rightarrow> could_not_serve)"

text \<open>The loop over a chunk's choices: the deltas it emits, and the type error that may end it.\<close>

fun relay_choices :: "string \<Rightarrow> json list \<Rightarrow> chat_event list \<times> string option" where
  "relay_choices te [] = ([], None)"
| "relay_choices te (choice # choices) =
     (if choice = JNull then ([], Some te)
      else (let now = (case jstr (Option.bind (jget ''delta'' choice) (jget ''content'')) of
                         Some t \<Rightarrow> if 0 < length t then [Delta t] else []
                       | None \<Rightarrow> []);
                (later, err) = relay_choices te choices
            in (now @ later, err)))"

definition relay_chunk :: "string \<Rightarrow> json \<Rightarrow> chat_event list \<times> string option" where
  "relay_chunk te chunk =
     (case jget ''choices'' chunk of
        None \<Rightarrow> ([], None)
      | Some JNull \<Rightarrow> ([], None)
      | Some (JStr s) \<Rightarrow> ([], None)
      | Some (JArr choices) \<Rightarrow> relay_choices te choices
      | Some _ \<Rightarrow> ([], Some te))"

type_synonym token_counts = "jsnum option \<times> jsnum option"

definition note_usage :: "json \<Rightarrow> token_counts \<Rightarrow> token_counts" where
  "note_usage chunk pc =
     (case jget ''usage'' chunk of
        None \<Rightarrow> pc
      | Some u \<Rightarrow> (case number_field ''prompt_tokens'' u of None \<Rightarrow> fst pc | Some x \<Rightarrow> Some x,
                   case number_field ''completion_tokens'' u of None \<Rightarrow> snd pc | Some x \<Rightarrow> Some x))"

text \<open>How the loop over the upstream events ends: at the end of the stream, at \<open>[DONE]\<close>, or with an error.\<close>

datatype relay_end = Exhausted | Stopped | Threw string

fun relay :: "string \<Rightarrow> string list \<Rightarrow> token_counts \<Rightarrow> chat_event list \<times> token_counts \<times> relay_end" where
  "relay te [] pc = ([], pc, Exhausted)"
| "relay te (payload # payloads) pc =
     (if payload = ''[DONE]'' then ([], pc, Stopped)
      else (case parseChunk payload of
              None \<Rightarrow> relay te payloads pc
            | Some chunk \<Rightarrow>
                (case relay_chunk te chunk of
                   (evs, Some err) \<Rightarrow> (evs, pc, Threw err)
                 | (evs, None) \<Rightarrow>
                     (let (later, pc1, how) = relay te payloads (note_usage chunk pc) in (evs @ later, pc1, how)))))"

definition relay_failure :: "relay_end \<Rightarrow> string option \<Rightarrow> string option" where
  "relay_failure how failure = (case how of Threw m \<Rightarrow> Some m | Stopped \<Rightarrow> None | Exhausted \<Rightarrow> failure)"

definition chat_stream :: "string \<Rightarrow> bool \<Rightarrow> jsnum \<Rightarrow> fetched \<Rightarrow> chat_event list option" where
  "chat_stream te aborted latency upstream =
     (case f_body upstream of
        Some b \<Rightarrow>
          if f_ok upstream then
            map_option (\<lambda>(payloads, failure).
               let (evs, (p, c), how) = relay te payloads (None, None) in
               (case relay_failure how failure of
                  None \<Rightarrow> evs @ [Usage p c latency, ChatDone]
                | Some m \<Rightarrow> evs @ (if aborted then [] else [ChatError m, ChatDone])))
              (readSseData b)
          else Some [ChatError (upstreamErrorMessage upstream), ChatDone]
      | None \<Rightarrow> Some [ChatError (upstreamErrorMessage upstream), ChatDone])"

section \<open>The route\<close>

text \<open>
  What the handler does to the response's controller: \<open>enqueue\<close> and, in the \<open>finally\<close> branch after the revocation,
  \<open>close\<close>. A body of the gateway's answer is the chunks it delivers before it ends or fails.
\<close>

datatype stream_op = Enqueue chat_event | Close

datatype chat_answer = Answered resp | Streamed "stream_op list" | Hangs

record exchange =
  content_length :: "string option"
  request_body :: "string + json"
  gateway :: "string \<Rightarrow> json \<Rightarrow> app_error + fetched"
  gone :: bool
  latency_ms :: jsnum
  engine_error :: string

definition serving_payload :: "string \<Rightarrow> (string \<times> json) list \<Rightarrow> (string \<times> json) list \<Rightarrow> json" where
  "serving_payload model messages params =
     JObj ([(''model'', JStr model),
            (''messages'', JArr (map (\<lambda>(r, c). JObj [(''role'', JStr r), (''content'', c)]) messages)),
            (''stream'', JBool True), (''stream_options'', JObj [(''include_usage'', JBool True)])] @ params)"

definition serve_exchange :: "env \<Rightarrow> (string \<Rightarrow> string) \<Rightarrow> exchange \<Rightarrow> string \<Rightarrow> string \<Rightarrow> json \<Rightarrow> chat_answer act" where
  "serve_exchange e sha x oid uid payload =
     bind (mintPlaygroundServingKey e sha oid uid) (\<lambda>(secret, kid).
       (case gateway x secret payload of
          Inl err \<Rightarrow> bind (revokePlaygroundKey e kid False) (\<lambda>_. throw err)
        | Inr upstream \<Rightarrow>
            (case chat_stream (engine_error x) (gone x) (latency_ms x) upstream of
               None \<Rightarrow> ret Hangs
             | Some evs \<Rightarrow> bind (revokePlaygroundKey e kid False) (\<lambda>_. ret (Streamed (map Enqueue evs @ [Close]))))))"

definition chat_POST :: "env \<Rightarrow> (string \<Rightarrow> string) \<Rightarrow> exchange \<Rightarrow> chat_answer act" where
  "chat_POST e sha x = catching (
     (case getAuthenticatedUser e of
        None \<Rightarrow> ret (Answered (error_resp ''Authentication required.'' 401))
      | Some user \<Rightarrow>
          if js_lt (js_int MAX_BODY_BYTES) (js_Number (case content_length x of None \<Rightarrow> ''0'' | Some n \<Rightarrow> n))
          then ret (Answered (error_resp ''Request body is too large.'' 413))
          else (let bdy = (case request_body x of Inl _ \<Rightarrow> JNull | Inr v \<Rightarrow> v) in
            (case jstr (jget ''model'' bdy) of
               None \<Rightarrow> ret (Answered (error_resp ''A model must be selected.'' 400))
             | Some model \<Rightarrow>
                 if trim model = '''' \<or> 200 < int (length model) then ret (Answered (error_resp ''A model must be selected.'' 400))
                 else (case jstr (jget ''orgId'' bdy) of
                    None \<Rightarrow> ret (Answered (error_resp ''An organization is required.'' 400))
                  | Some orgIdentifier \<Rightarrow>
                      if trim orgIdentifier = '''' then ret (Answered (error_resp ''An organization is required.'' 400))
                      else (case parseMessages (jget ''messages'' bdy) of
                         None \<Rightarrow> ret (Answered (error_resp ''Malformed or oversized conversation.'' 400))
                       | Some messages \<Rightarrow>
                           bind (requireOrgId e orgIdentifier) (\<lambda>oid.
                             serve_exchange e sha x oid (usr_id user)
                               (serving_payload model messages (pickServingParams (jget ''params'' bdy))))))))))
     (\<lambda>err. ret (Answered (jsonError err)))"


section \<open>What the route writes, the browser reads\<close>

definition wire_event :: "chat_event \<Rightarrow> bool" where
  "wire_event ev \<longleftrightarrow> plain (event_json ev)"

lemma no_break_one_line: "no_break s \<Longrightarrow> one_line s"
  by (auto simp: no_break_def one_line_def list_all_iff)

lemma parse_emitted: "wire_event ev \<Longrightarrow> parsePlaygroundChatEvent (json_stringify (event_json ev)) = Some ev"
proof -
  assume w: "wire_event ev"
  have "json_parse (json_stringify (event_json ev)) = Some (event_json ev)" using w by (simp add: wire_event_def json_parse_stringify)
  then show ?thesis
    by (cases ev) (auto simp: parsePlaygroundChatEvent_def number_field_def jopt_def split: option.splits)
qed

lemma map_filter_all: "(\<And>x. x \<in> set xs \<Longrightarrow> f (g x) = Some x) \<Longrightarrow> List.map_filter f (map g xs) = xs"
  by (induction xs) (simp_all add: List.map_filter_def)

lemma read_emitted:
  assumes "\<forall>ev\<in>set evs. wire_event ev"
  shows "List.map_filter parsePlaygroundChatEvent (event_stream (concat (map emit evs))) = evs"
proof -
  have "one_line (json_stringify (event_json ev))" if "ev \<in> set evs" for ev
    using that assms by (auto simp: wire_event_def intro!: no_break_one_line no_break_stringify)
  moreover have "map emit evs = map sse_event (map (\<lambda>ev. json_stringify (event_json ev)) evs)" by (simp add: emit_def)
  ultimately have "event_stream (concat (map emit evs)) = map (\<lambda>ev. json_stringify (event_json ev)) evs"
    by (simp only:) (rule event_stream_emitted, auto)
  then show ?thesis using assms by (simp add: map_filter_all parse_emitted)
qed

text \<open>
  C22. Whatever the route emits, the browser reads back exactly: the events of a finished stream, in their
  order, however the network cuts the bytes into chunks. Each event has to be one JSON can carry.
\<close>

theorem browser_reads_what_the_route_wrote:
  assumes "\<forall>ev\<in>set evs. wire_event ev" and "concat chunks = concat (map emit evs)"
    and "f_ok answer" and "f_body answer = Some (chunks, None)"
  shows "streamPlaygroundChat answer = Some (evs, None)"
  using read_emitted [OF assms(1)] assms
  by (simp add: streamPlaygroundChat_def read_loop_result [OF in_step_start] readSseData_def)

section \<open>Every exchange ends\<close>

lemma readSseData_returns: "\<exists>ys failure. readSseData b = Some (ys, failure)"
  using read_loop_result [OF in_step_start, of "fst b" "snd b"] by (auto simp: readSseData_def split: option.splits)

lemma chat_stream_returns: "\<exists>evs. chat_stream te aborted latency up = Some evs"
proof (cases "f_body up")
  case (Some b)
  then show ?thesis using readSseData_returns [of b] by (auto simp: chat_stream_def)
qed (simp add: chat_stream_def)

lemma relay_choices_deltas: "relay_choices te cs = (evs, err) \<Longrightarrow> \<forall>ev\<in>set evs. \<exists>t. ev = Delta t"
proof (induction cs arbitrary: evs err)
  case (Cons c cs)
  obtain evs1 err1 where l: "relay_choices te cs = (evs1, err1)" by force
  then have "\<forall>ev\<in>set evs1. \<exists>t. ev = Delta t" by (rule Cons.IH)
  then show ?case using Cons.prems l by (auto simp: Let_def split: if_splits option.splits)
qed simp

lemma relay_chunk_deltas: "relay_chunk te chunk = (evs, err) \<Longrightarrow> \<forall>ev\<in>set evs. \<exists>t. ev = Delta t"
  unfolding relay_chunk_def by (auto split: option.splits json.splits dest: relay_choices_deltas)

lemma relay_deltas: "relay te ps pc = (evs, pc1, how) \<Longrightarrow> \<forall>ev\<in>set evs. \<exists>t. ev = Delta t"
proof (induction ps arbitrary: pc evs pc1 how)
  case (Cons p ps)
  show ?case
  proof (cases "p = ''[DONE]''")
    case False
    show ?thesis
    proof (cases "parseChunk p")
      case None
      then show ?thesis using False Cons by simp
    next
      case (Some chunk)
      obtain evs1 err where c: "relay_chunk te chunk = (evs1, err)" by force
      obtain evs2 pc2 how2 where l: "relay te ps (note_usage chunk pc) = (evs2, pc2, how2)" by (metis prod.exhaust)
      have "\<forall>ev\<in>set evs1. \<exists>t. ev = Delta t" "\<forall>ev\<in>set evs2. \<exists>t. ev = Delta t"
        using relay_chunk_deltas [OF c] Cons.IH [OF l] .
      then show ?thesis using False Some c l Cons.prems by (cases err) auto
    qed
  qed (use Cons.prems in simp)
qed simp

text \<open>What a relay enqueues: the texts, and one closing pair of events unless the browser has gone.\<close>

definition finished :: "bool \<Rightarrow> jsnum \<Rightarrow> chat_event list \<Rightarrow> bool" where
  "finished aborted latency evs \<longleftrightarrow> (\<exists>ts.
     (\<exists>p c. evs = map Delta ts @ [Usage p c latency, ChatDone]) \<or> (\<exists>m. evs = map Delta ts @ [ChatError m, ChatDone])
     \<or> aborted \<and> evs = map Delta ts)"

lemma chat_stream_ends:
  assumes "chat_stream te aborted latency up = Some evs"
  shows "finished aborted latency evs"
proof -
  have error_only: "finished aborted latency [ChatError m, ChatDone]" for m
    unfolding finished_def by (rule exI [of _ "[]"]) simp
  show ?thesis
  proof (cases "f_body up")
    case None
    then show ?thesis using assms error_only by (auto simp: chat_stream_def)
  next
    case (Some b)
    obtain ys failure where r: "readSseData b = Some (ys, failure)" using readSseData_returns by blast
    obtain ds p c how where d: "relay te ys (None, None) = (ds, (p, c), how)" by (metis prod.exhaust)
    obtain ts where ts: "ds = map Delta ts" using relay_deltas [OF d] ex_map_conv [of ds Delta] by blast
    show ?thesis
    proof (cases "f_ok up")
      case True
      then have "evs = (case relay_failure how failure of None \<Rightarrow> ds @ [Usage p c latency, ChatDone]
          | Some m \<Rightarrow> ds @ (if aborted then [] else [ChatError m, ChatDone]))"
        using assms Some r d by (simp add: chat_stream_def)
      then show ?thesis unfolding finished_def ts by (cases "relay_failure how failure") auto
    next
      case False
      then show ?thesis using assms Some error_only by (auto simp: chat_stream_def)
    qed
  qed
qed

text \<open>The two ways an exchange goes: no key was minted, or one was, and the revocation ran last.\<close>

lemma serve_exchange_cases:
  assumes "serve_exchange e sha x oid uid payload s = (r, t)"
  obtains (unminted) err where "mintPlaygroundServingKey e sha oid uid s = (Inl err, t)" and "r = Inl err"
  | (served) secret kid u where "mintPlaygroundServingKey e sha oid uid s = (Inr (secret, kid), u)"
      and "t = snd (revokePlaygroundKey e kid False u)"
      and "(\<exists>err. r = Inl err) \<or> (\<exists>up evs. gateway x secret payload = Inr up
             \<and> chat_stream (engine_error x) (gone x) (latency_ms x) up = Some evs \<and> r = Inr (Streamed (map Enqueue evs @ [Close])))"
proof (cases "mintPlaygroundServingKey e sha oid uid s")
  case (Pair m u)
  show thesis
  proof (cases m)
    case (Inl err)
    then show thesis using Pair assms unminted [of err] by (simp add: serve_exchange_def bind_apply)
  next
    case (Inr key)
    obtain secret kid where k: "key = (secret, kid)" by force
    obtain w where v: "revokePlaygroundKey e kid False u = (Inr True, w)"
      by (simp add: revokePlaygroundKey_def bind_apply call_apply)
    show thesis
    proof (cases "gateway x secret payload")
      case (Inl err)
      then show thesis using Pair Inr k assms v served [of secret kid u] by (auto simp: serve_exchange_def bind_apply)
    next
      case up: (Inr up)
      obtain evs where "chat_stream (engine_error x) (gone x) (latency_ms x) up = Some evs" using chat_stream_returns by blast
      then show thesis using Pair Inr k up assms v served [of secret kid u] by (simp add: serve_exchange_def bind_apply)
    qed
  qed
qed


section \<open>The key of an exchange\<close>

text \<open>What minting does to the table of keys: nothing unless the insert ran, and then one fresh key.\<close>

lemma ensureOrgDefaultIdentity_keys: "api_keys (snd (ensureOrgDefaultIdentity e oid s)) = api_keys s"
proof -
  have "keeps (\<lambda>u. api_keys u = api_keys s) (ensureOrgDefaultIdentity e oid)"
    by (rule keeps_ensureOrgDefaultIdentity) (auto simp: upsert_identity_def split: if_splits)
  from keepsD [OF this] show ?thesis by simp
qed

definition playground_key :: "env \<Rightarrow> (string \<Rightarrow> string) \<Rightarrow> string \<Rightarrow> string \<Rightarrow> string \<Rightarrow> key_row" where
  "playground_key e sha oid uid ident = new_key e (mintApiKeySecret sha e) oid PLAYGROUND_KEY_NAME uid (Some ident) None"

lemma mint_served:
  assumes "mintPlaygroundServingKey e sha oid uid s = (Inr (secret, kid), u)"
  obtains ident where "api_keys u = api_keys s @ [playground_key e sha oid uid ident]" and "kid = fresh_id e"
    and "secret = mk_secret (mintApiKeySecret sha e)" and "\<forall>k\<in>set (api_keys s). k_id k \<noteq> kid"
    and "Option.bind (first_where (\<lambda>org. o_id org = oid) (organizations s)) o_banned_at = None"
proof -
  from assms obtain row v ident k where row: "Option.bind row o_banned_at = None"
      "read_db (faults e ''organizations.banned_at'') (\<lambda>s. first_where (\<lambda>org. o_id org = oid) (organizations s)) s = Inr row"
    and i: "ensureOrgDefaultIdentity e oid s = (Inr ident, v)"
    and k: "insert_key (playground_key e sha oid uid ident) v = Inr (k, u)" and key: "secret = mk_secret (mintApiKeySecret sha e)" "kid = k_id k"
    unfolding mintPlaygroundServingKey_def Let_def playground_key_def [symmetric]
    by (auto elim!: bind_InrE orThrow_InrE dest!: call_InrD split: if_splits)
  have kk: "k = playground_key e sha oid uid ident" using k by (auto simp: insert_key_def split: if_splits option.splits)
  then have ins: "insert_key (playground_key e sha oid uid ident) v = Inr (playground_key e sha oid uid ident, u)" using k by simp
  have out: "secret = mk_secret (mintApiKeySecret sha e)" "kid = k_id (playground_key e sha oid uid ident)" using key kk by simp_all
  have org: "row = first_where (\<lambda>org. o_id org = oid) (organizations s)" using row(2) by (auto simp: read_db_def split: option.splits fault.splits)
  have v: "api_keys v = api_keys s" using ensureOrgDefaultIdentity_keys [of e oid s] i by simp
  have "api_keys u = api_keys s @ [playground_key e sha oid uid ident]"
    and "\<forall>k\<in>set (api_keys s). k_id k \<noteq> k_id (playground_key e sha oid uid ident)"
    using ins v by (auto simp: insert_key_def list_ex_iff split: if_splits)
  then show thesis using that [of ident] out row org by (auto simp: playground_key_def new_key_def)
qed

lemma mint_refused:
  assumes "mintPlaygroundServingKey e sha oid uid s = (Inl err, t)"
  shows "api_keys t = api_keys s \<or> (\<exists>f ident. faults e ''api_keys.insert'' = Some (Lost f) \<and> api_keys t = api_keys s @ [playground_key e sha oid uid ident])"
  using assms ensureOrgDefaultIdentity_keys [of e oid s] unfolding mintPlaygroundServingKey_def Let_def playground_key_def [symmetric]
  by (auto elim!: bind_InlE bind_InrE simp: orThrow_def call_apply exec_def insert_key_def
      split: if_splits option.splits fault.splits sum.splits prod.splits) (rule exI, rule refl)+


lemma revoke_new_key:
  assumes "faults e ''api_keys.revoke'' = None" and "api_keys u = ks @ [k]" and "\<forall>k\<in>set ks. k_id k \<noteq> kid" and "k_id k = kid"
  shows "api_keys (snd (revokePlaygroundKey e kid False u)) = ks @ [k\<lparr>k_revoked_at := Some (now_ms e)\<rparr>]"
proof -
  have "map (\<lambda>x. if k_id x = kid then x\<lparr>k_revoked_at := Some (now_ms e)\<rparr> else x) ks = ks"
    using assms(3) by (auto intro!: map_idI)
  then show ?thesis using assms
    by (simp add: revokePlaygroundKey_def bind_apply call_apply exec_def update_key_def update_where_def)
qed

lemma requireOrgId_Inr:
  assumes "requireOrgId e ident s = (Inr oid, t)"
  shows "same_tables s t" and "authorized_for s e oid User"
proof -
  obtain slug where g: "requireOrgAccess e ident User s = (Inr (oid, slug), t)"
    using assms unfolding requireOrgId_def by (auto elim!: bind_InrE)
  show "same_tables s t" using requireOrgAccess_same_tables [of s e ident User] g by simp
  show "authorized_for s e oid User" using access.sound [OF g] by blast
qed

lemma chat_POST_cases:
  assumes "chat_POST e sha x s = (r, t)"
  obtains (refused) a where "r = Inr (Answered a)" and "same_tables s t"
  | (exchanged) user oid s1 r1 payload where "getAuthenticatedUser e = Some user" and "same_tables s s1" and "authorized_for s e oid User"
      and "serve_exchange e sha x oid (usr_id user) payload s1 = (r1, t)"
      and "r = (case r1 of Inl err \<Rightarrow> Inr (Answered (jsonError err)) | Inr a \<Rightarrow> Inr a)"
proof -
  have same: "same_tables s s" by (simp add: same_tables_def)
  have gate: "same_tables s (snd (requireOrgId e ident s))" for ident
    using requireOrgAccess_same_tables [of s e ident User]
    by (auto simp: requireOrgId_def bind_apply split: prod.splits sum.splits)
  show thesis
  proof (cases "\<exists>a. chat_POST e sha x s = (Inr (Answered a), t) \<and> same_tables s t")
    case True
    then show thesis using assms refused by auto
  next
    case False
    let ?b = "case request_body x of Inl _ \<Rightarrow> JNull | Inr v \<Rightarrow> v"
    obtain user where u: "getAuthenticatedUser e = Some user" using False assms same by (cases "getAuthenticatedUser e") (auto simp: chat_POST_def)
    obtain model where m: "jstr (jget ''model'' ?b) = Some model" using False assms same u
      by (cases "jstr (jget ''model'' ?b)") (auto simp: chat_POST_def Let_def split: if_splits)
    obtain ident where i: "jstr (jget ''orgId'' ?b) = Some ident" using False assms same u m
      by (cases "jstr (jget ''orgId'' ?b)") (auto simp: chat_POST_def Let_def split: if_splits)
    obtain messages where ms: "parseMessages (jget ''messages'' ?b) = Some messages" using False assms same u m i
      by (cases "parseMessages (jget ''messages'' ?b)") (auto simp: chat_POST_def Let_def split: if_splits)
    let ?p = "serving_payload model messages (pickServingParams (jget ''params'' ?b))"
    have c: "chat_POST e sha x s = catching (bind (requireOrgId e ident) (\<lambda>oid. serve_exchange e sha x oid (usr_id user) ?p))
        (\<lambda>err. ret (Answered (jsonError err))) s"
      using False assms same u m i ms by (auto simp: chat_POST_def Let_def split: if_splits)
    show thesis
    proof (cases "requireOrgId e ident s")
      case (Pair g s1)
      show thesis
      proof (cases g)
        case (Inl err)
        then show thesis using Pair c False assms gate [of ident] by (auto simp: catching_apply bind_apply)
      next
        case (Inr oid)
        obtain r1 t1 where sv: "serve_exchange e sha x oid (usr_id user) ?p s1 = (r1, t1)" by force
        have "same_tables s s1" "authorized_for s e oid User" using requireOrgId_Inr [of e ident s oid s1] Pair Inr by simp_all
        moreover have "t1 = t" "r = (case r1 of Inl err \<Rightarrow> Inr (Answered (jsonError err)) | Inr a \<Rightarrow> Inr a)"
          using c Pair Inr sv assms by (auto simp: catching_apply bind_apply split: sum.splits)
        ultimately show thesis using exchanged u sv by blast
      qed
    qed
  qed
qed


text \<open>
  C23. The playground's key never outlives its exchange: if the revocation's statement runs, then whatever
  the gateway answers, and wherever the stream breaks, the route has left the keys as they were, or added
  one key and revoked it. Only an insert whose answer was lost leaves a row behind, and then its secret
  went to nobody. A streamed answer is for a member of the organization, or an operator, and the key was
  made for that organization in that account's name.
\<close>

theorem exchange_leaves_no_live_key:
  assumes "chat_POST e sha x s = (r, t)" and "faults e ''api_keys.revoke'' = None"
  shows "(api_keys t = api_keys s
      \<or> (\<exists>k. api_keys t = api_keys s @ [k] \<and> (k_revoked_at k = Some (now_ms e)
             \<or> ((\<exists>f. faults e ''api_keys.insert'' = Some (Lost f)) \<and> (\<exists>a. r = Inr (Answered a))))))
    \<and> (\<forall>evs. r = Inr (Streamed evs) \<longrightarrow>
         (\<exists>user oid k. getAuthenticatedUser e = Some user \<and> authorized_for s e oid User
            \<and> api_keys t = api_keys s @ [k] \<and> k_org k = oid \<and> k_created_by k = usr_id user \<and> k_revoked_at k = Some (now_ms e)))"
  using assms(1)
proof (cases rule: chat_POST_cases)
  case (refused a)
  then have "api_keys t = api_keys s" by (intro same_tables_keys)
  then show ?thesis using refused(1) by simp
next
  case (exchanged user oid s1 r1 payload)
  have s1: "api_keys s1 = api_keys s" using exchanged(2) by (rule same_tables_keys)
  from exchanged(4) show ?thesis
  proof (cases rule: serve_exchange_cases)
    case (unminted err)
    then show ?thesis using mint_refused [OF unminted(1)] exchanged(5) s1 by auto
  next
    case (served secret kid u)
    obtain ident where k: "api_keys u = api_keys s1 @ [playground_key e sha oid (usr_id user) ident]" "kid = fresh_id e"
        "\<forall>k\<in>set (api_keys s1). k_id k \<noteq> kid"
      using served(1) by (rule mint_served)
    have t: "api_keys t = api_keys s @ [(playground_key e sha oid (usr_id user) ident)\<lparr>k_revoked_at := Some (now_ms e)\<rparr>]"
      unfolding served(2) s1 [symmetric] using assms(2) k(1,3)
      by (rule revoke_new_key) (simp add: playground_key_def new_key_def k(2))
    then show ?thesis using exchanged(1,3) by (auto simp: playground_key_def new_key_def)
  qed
qed

text \<open>
  C24. However the gateway's answer ends, broken off included, a streamed reply is written to its end and once: the texts
  of the answer, then exactly one event that settles it (the usage, or the error) and one \<open>done\<close>, then the stream is
  closed. Only when the browser has gone may the settling pair be missing, and then the stream is closed all the same.
\<close>

theorem every_stream_is_finished:
  assumes "chat_POST e sha x s = (r, t)"
  shows "(\<exists>a. r = Inr (Answered a)) \<or> (\<exists>ts.
      (\<exists>p c. r = Inr (Streamed (map (Enqueue \<circ> Delta) ts @ [Enqueue (Usage p c (latency_ms x)), Enqueue ChatDone, Close])))
      \<or> (\<exists>m. r = Inr (Streamed (map (Enqueue \<circ> Delta) ts @ [Enqueue (ChatError m), Enqueue ChatDone, Close])))
      \<or> gone x \<and> r = Inr (Streamed (map (Enqueue \<circ> Delta) ts @ [Close])))"
  using assms
proof (cases rule: chat_POST_cases)
  case (exchanged user oid s1 r1 payload)
  from exchanged(4) show ?thesis
  proof (cases rule: serve_exchange_cases)
    case (served secret kid u)
    show ?thesis
    proof (cases r1)
      case (Inr a)
      then obtain up evs where "chat_stream (engine_error x) (gone x) (latency_ms x) up = Some evs"
        and r1: "r1 = Inr (Streamed (map Enqueue evs @ [Close]))" using served(3) by auto
      then have "finished (gone x) (latency_ms x) evs" using chat_stream_ends by blast
      moreover have "r = r1" using exchanged(5) Inr by simp
      ultimately show ?thesis unfolding r1 finished_def by auto
    qed (use exchanged(5) in simp)
  qed (use exchanged(5) in simp)
qed simp


section \<open>The allowlist\<close>

text \<open>What a parameter that reaches the gateway may be, by its name.\<close>

definition number_in :: "rat \<Rightarrow> rat \<Rightarrow> json \<Rightarrow> bool" where
  "number_in lo hi v = (case v of JNum x \<Rightarrow> js_is_finite x \<and> lo \<le> jsval x \<and> jsval x \<le> hi | _ \<Rightarrow> False)"

definition integer_value :: "json \<Rightarrow> bool" where
  "integer_value v = (case v of JNum x \<Rightarrow> js_is_integer x | _ \<Rightarrow> False)"

definition serving_param :: "string \<times> json \<Rightarrow> bool" where
  "serving_param kv =
     (case kv of (k, v) \<Rightarrow>
        if k = ''temperature'' then number_in 0 2 v
        else if k = ''top_p'' then number_in 0 1 v
        else if k = ''max_tokens'' then integer_value v \<and> number_in 1 200000 v
        else if k = ''reasoning_effort'' then v \<in> {JStr ''low'', JStr ''medium'', JStr ''high''}
        else if k = ''seed'' then integer_value v
        else if k = ''stop'' then (case v of JArr vs \<Rightarrow> length vs \<le> 8 \<and> list_all string_value vs | _ \<Rightarrow> False)
        else if k = ''tools'' then (case v of JArr vs \<Rightarrow> length vs \<le> 64 | _ \<Rightarrow> False)
        else if k = ''tool_choice'' then v = JStr ''auto''
        else k = ''response_format'' \<and> v = json_object_format)"

lemma js_le_int_iff: "js_is_finite x \<Longrightarrow> js_le (js_int lo) x \<longleftrightarrow> of_int lo \<le> jsval x" "js_is_finite x \<Longrightarrow> js_le x (js_int hi) \<longleftrightarrow> jsval x \<le> of_int hi"
  by (cases x; auto simp: js_le_def js_int_def)+

lemma in_range_number: "in_range lo hi x \<Longrightarrow> number_in (of_int lo) (of_int hi) (JNum x)"
  by (auto simp: in_range_def number_in_def js_le_int_iff)

lemma picks_typed:
  "list_all serving_param (pick_number ''temperature'' (in_range 0 2) v)" "list_all serving_param (pick_number ''top_p'' (in_range 0 1) v)"
  "list_all serving_param (pick_number ''max_tokens'' (\<lambda>x. js_is_integer x \<and> in_range 1 200000 x) v)"
  "list_all serving_param (pick_effort v)" "list_all serving_param (pick_number ''seed'' js_is_integer v)"
  "list_all serving_param (pick_stop v)" "list_all serving_param (pick_tools v)" "list_all serving_param (pick_format v)"
  using in_range_number [of 0 2] in_range_number [of 0 1] in_range_number [of 1 200000]
  by (auto simp: pick_number_def pick_effort_def pick_stop_def pick_tools_def pick_format_def serving_param_def integer_value_def
      split: option.splits json.splits)

lemma pick_keys:
  "map fst (pick_number k P v) \<in> {[], [k]}" "map fst (pick_effort v) \<in> {[], [''reasoning_effort'']}"
  "map fst (pick_stop v) \<in> {[], [''stop'']}" "map fst (pick_tools v) \<in> {[], [''tools'', ''tool_choice'']}"
  "map fst (pick_format v) \<in> {[], [''response_format'']}"
  by (auto simp: pick_number_def pick_effort_def pick_stop_def pick_tools_def pick_format_def split: option.splits json.splits)

text \<open>
  C25. Whatever a request carries as its parameters, only named ones of the right type and range reach the
  gateway, each once: a temperature between 0 and 2, a nucleus mass between 0 and 1, at most 200000
  tokens, a listed effort, an integer seed, at most 8 stop texts and 64 tools, and the one JSON format.
\<close>

theorem serving_params_are_typed:
  "list_all serving_param (pickServingParams raw) \<and> distinct (map fst (pickServingParams raw))"
proof (cases raw)
  case (Some v)
  have "distinct (map fst (pickServingParams raw))"
    using pick_keys(1) [of "''temperature''" "in_range 0 2" v] pick_keys(1) [of "''top_p''" "in_range 0 1" v]
      pick_keys(1) [of "''max_tokens''" "\<lambda>x. js_is_integer x \<and> in_range 1 200000 x" v] pick_keys(2-5) [of v]
      pick_keys(1) [of "''seed''" js_is_integer v]
    unfolding Some pickServingParams_def option.case map_append insert_iff empty_iff
    by (elim disjE FalseE) (simp_all only: append.simps, simp_all)
  then show ?thesis using Some picks_typed by (simp add: pickServingParams_def)
qed (simp add: pickServingParams_def)

section \<open>Concrete exchanges\<close>

lemma plain_int: "0 \<le> n \<Longrightarrow> n < 2 ^ 53 \<Longrightarrow> plain (JNum (js_int n))"
proof -
  assume n: "0 \<le> n" "n < 2 ^ 53"
  have "(of_int n :: rat) < of_int (2 ^ 53)" using n(2) by (simp only: of_int_less_iff)
  also have "\<dots> \<le> 2 ^ 1024" by simp
  finally show ?thesis using n fl_of_int [OF n] by (simp add: js_int_def)
qed

definition sample_events :: "chat_event list" where
  "sample_events = [Delta ''Hi '', Delta [newline], Usage (Some (js_int 3)) None (js_int 12), ChatDone]"

definition sample_wire :: string where
  "sample_wire = concat (map emit sample_events)"

theorem browser_reads_what_the_route_wrote_witness:
  "streamPlaygroundChat \<lparr>f_ok = True, f_body = Some ([take 9 sample_wire, drop 9 sample_wire], None), f_json = None\<rparr>
   = Some (sample_events, None) \<and> length sample_events = 4"
proof -
  have "wire_event (Usage (Some (js_int 3)) None (js_int 12))"
    using plain_int [of 3] plain_int [of 12] by (simp add: wire_event_def jopt_def)
  then have w: "\<forall>ev\<in>set sample_events. wire_event ev" by (simp add: sample_events_def wire_event_def)
  have "concat [take 9 sample_wire, drop 9 sample_wire] = concat (map emit sample_events)" by (simp add: sample_wire_def)
  from browser_reads_what_the_route_wrote [OF w this, of "\<lparr>f_ok = True, f_body = Some ([take 9 sample_wire, drop 9 sample_wire], None), f_json = None\<rparr>"]
  show ?thesis by (simp add: sample_events_def)
qed

definition sample_answer :: fetched where
  "sample_answer = \<lparr>f_ok = True, f_body = Some ([sse_event (json_stringify (JObj [(''choices'',
       JArr [JObj [(''delta'', JObj [(''content'', JStr ''Hi'')])]])])), sse_event ''[DONE]''], None), f_json = None\<rparr>"

definition sample_chat_exchange :: exchange where
  "sample_chat_exchange = \<lparr>content_length = Some ''90'',
     request_body = Inr (JObj [(''model'', JStr ''m1''), (''orgId'', JStr ''acme''),
       (''messages'', JArr [JObj [(''role'', JStr ''user''), (''content'', JStr ''Hello'')]])]),
     gateway = (\<lambda>secret payload. Inr sample_answer), gone = False, latency_ms = js_int 12, engine_error = ''x is not iterable''\<rparr>"

definition sample_chat :: "(app_error + chat_answer) \<times> db" where
  "sample_chat = chat_POST sample_env (\<lambda>x. ''sha'' @ x) sample_chat_exchange key_db"

lemma sample_chat_streams: "fst sample_chat = Inr (Streamed [Enqueue (Delta ''Hi''), Enqueue (Usage None None (js_int 12)), Enqueue ChatDone, Close])"
  by code_simp

theorem exchange_leaves_no_live_key_witness:
  "(\<exists>k. api_keys (snd sample_chat) = api_keys key_db @ [k] \<and> k_org k = ''o1'' \<and> k_revoked_at k = Some 1000000)
   \<and> fst sample_chat = Inr (Streamed [Enqueue (Delta ''Hi''), Enqueue (Usage None None (js_int 12)), Enqueue ChatDone, Close])"
proof -
  obtain t where c: "chat_POST sample_env (\<lambda>x. ''sha'' @ x) sample_chat_exchange key_db
      = (Inr (Streamed [Enqueue (Delta ''Hi''), Enqueue (Usage None None (js_int 12)), Enqueue ChatDone, Close]), t)" and t: "t = snd sample_chat"
    using sample_chat_streams unfolding sample_chat_def by (metis prod.collapse)
  have "faults sample_env ''api_keys.revoke'' = None" by (simp add: sample_env_def)
  from exchange_leaves_no_live_key [OF c this] obtain k where "api_keys t = api_keys key_db @ [k]" "k_revoked_at k = Some (now_ms sample_env)"
    by blast
  moreover have "map k_org (api_keys (snd sample_chat)) = map k_org (api_keys key_db) @ [''o1'']" by code_simp
  ultimately show ?thesis using sample_chat_streams t by (simp add: sample_env_def)
qed

theorem every_stream_is_finished_witness:
  "\<exists>ts p c. fst sample_chat = Inr (Streamed (map (Enqueue \<circ> Delta) ts @ [Enqueue (Usage p c (js_int 12)), Enqueue ChatDone, Close]))"
proof -
  obtain t where "chat_POST sample_env (\<lambda>x. ''sha'' @ x) sample_chat_exchange key_db = (fst sample_chat, t)"
    unfolding sample_chat_def by (metis prod.collapse)
  from every_stream_is_finished [OF this] show ?thesis
    unfolding sample_chat_streams by (auto simp: sample_chat_exchange_def Cons_eq_append_conv)
qed

text \<open>
  A revocation the database refuses is not noticed: the handle's promise resolves whatever the update
  answered and is never retried, so the exchange's key stays alive, and it was minted without an expiry.
\<close>

theorem refused_revocation_leaves_a_live_key:
  "let e = sample_env\<lparr>faults := (\<lambda>q. if q = ''api_keys.revoke'' then Some (Refused unique_violation) else None)\<rparr>;
       out = chat_POST e (\<lambda>x. ''sha'' @ x) sample_chat_exchange key_db
   in fst out = Inr (Streamed [Enqueue (Delta ''Hi''), Enqueue (Usage None None (js_int 12)), Enqueue ChatDone, Close])
      \<and> map k_revoked_at (drop (length (api_keys key_db)) (api_keys (snd out))) = [None]
      \<and> map k_expires_at (drop (length (api_keys key_db)) (api_keys (snd out))) = [None]"
  unfolding Let_def by (intro conjI) code_simp+

end
