(* ===== verification/Stable_Sort.thy ===== *)
theory Stable_Sort
  imports "HOL-Library.Multiset"
begin

text \<open>
  \<open>Array.prototype.sort\<close> and the choice of a best element with it. The locale \<open>ranking\<close> is the contract of a
  comparison: total and transitive on the values it meets. The components that sort interpret it for their
  comparisons and take from it that the result is sorted and that its first element is a best one.
\<close>

section \<open>Sorting\<close>

text \<open>\<open>Array.prototype.sort\<close>: stable, by a comparison given as \<open>less or equal\<close>.\<close>

primrec insert_by :: "('a \<Rightarrow> 'a \<Rightarrow> bool) \<Rightarrow> 'a \<Rightarrow> 'a list \<Rightarrow> 'a list" where
  "insert_by le x [] = [x]"
| "insert_by le x (y # ys) = (if le x y then x # y # ys else y # insert_by le x ys)"

definition sort_by :: "('a \<Rightarrow> 'a \<Rightarrow> bool) \<Rightarrow> 'a list \<Rightarrow> 'a list" where
  "sort_by le xs = foldr (insert_by le) xs []"

definition first_by :: "('a \<Rightarrow> 'a \<Rightarrow> bool) \<Rightarrow> 'a list \<Rightarrow> 'a option" where
  "first_by le xs = (case sort_by le xs of [] \<Rightarrow> None | x # _ \<Rightarrow> Some x)"

section \<open>Sorting, and the best of a list\<close>

lemma mset_insert_by [simp]: "mset (insert_by le x ys) = add_mset x (mset ys)"
  by (induction ys) simp_all

lemma mset_sort_by: "mset (sort_by le xs) = mset xs"
  by (induction xs) (simp_all add: sort_by_def)

lemma distinct_sort_by: "distinct (sort_by le xs) \<longleftrightarrow> distinct xs"
  by (metis mset_eq_imp_distinct_iff mset_sort_by)

lemma set_insert_by: "set (insert_by le x ys) = insert x (set ys)"
  by (metis mset_insert_by set_mset_add_mset_insert set_mset_mset)

lemma set_sort_by: "set (sort_by le xs) = set xs"
  by (metis mset_sort_by set_mset_mset)

text \<open>
  What a comparison has to satisfy on the values it meets for \<open>first_by\<close> to find a best one: it is total
  and transitive there. \<open>first_by\<close> is how the promotions pick a winner.
\<close>

locale ranking =
  fixes A :: "'a set" and le :: "'a \<Rightarrow> 'a \<Rightarrow> bool"
  assumes total: "x \<in> A \<Longrightarrow> y \<in> A \<Longrightarrow> le x y \<or> le y x"
    and trans: "x \<in> A \<Longrightarrow> y \<in> A \<Longrightarrow> z \<in> A \<Longrightarrow> le x y \<Longrightarrow> le y z \<Longrightarrow> le x z"
begin

lemma sort_first:
  assumes "set xs \<subseteq> A" and "xs \<noteq> []"
  shows "\<exists>y ys. sort_by le xs = y # ys \<and> y \<in> set xs \<and> (\<forall>z\<in>set xs. le y z)"
  using assms
proof (induction xs)
  case (Cons x xs)
  show ?case
  proof (cases "xs = []")
    case True
    then show ?thesis using Cons.prems total [of x x] by (auto simp: sort_by_def)
  next
    case False
    then obtain y ys where y: "sort_by le xs = y # ys" "y \<in> set xs" "\<forall>z\<in>set xs. le y z" using Cons by auto
    have A: "x \<in> A" "y \<in> A" "\<forall>z\<in>set xs. z \<in> A" using Cons.prems y(2) by auto
    show ?thesis
    proof (cases "le x y")
      case True
      have "le x z" if "z \<in> set xs" for z using trans [of x y z] A True y(3) that by blast
      then show ?thesis using y(1) True total [of x x] A by (auto simp: sort_by_def)
    next
      case False
      then have "le y x" using total A by blast
      then show ?thesis using y False by (auto simp: sort_by_def)
    qed
  qed
qed simp

lemma insert_sorted: "set (x # xs) \<subseteq> A \<Longrightarrow> sorted_wrt le xs \<Longrightarrow> sorted_wrt le (insert_by le x xs)"
proof (induction xs)
  case (Cons y ys)
  show ?case
  proof (cases "le x y")
    case True
    then have "\<forall>z\<in>set ys. le x z" using Cons.prems trans [of x y] by fastforce
    then show ?thesis using True Cons.prems by simp
  next
    case False
    then have "le y x" using Cons.prems total [of x y] by simp
    then show ?thesis using False Cons by (auto simp: set_insert_by)
  qed
qed simp

lemma sort_sorted: "set xs \<subseteq> A \<Longrightarrow> sorted_wrt le (sort_by le xs)"
  by (induction xs) (simp_all add: sort_by_def insert_sorted set_sort_by [unfolded sort_by_def])

lemma first_by_Some:
  assumes "set xs \<subseteq> A" and "first_by le xs = Some y"
  shows "y \<in> set xs \<and> (\<forall>z\<in>set xs. le y z)"
proof -
  have "xs \<noteq> []" using assms(2) by (auto simp: first_by_def sort_by_def)
  then show ?thesis using sort_first [OF assms(1)] assms(2) by (auto simp: first_by_def)
qed

lemma first_by_None: "set xs \<subseteq> A \<Longrightarrow> first_by le xs = None \<longleftrightarrow> xs = []"
  using sort_first [of xs] by (cases "xs = []") (auto simp: first_by_def sort_by_def)

end

end
