(* ===== verification/Calendar.thy ===== *)
theory Calendar
  imports Money Stable_Sort
begin

text \<open>
  UTC calendar days as the dashboards use them: JavaScript's \<open>Date\<close> at midnight of a \<open>YYYY-MM-DD\<close> text, and
  \<open>toISOString().slice(0, 10)\<close> back. A day is a number of days since 1970-01-01. The theory proves that the
  two directions are inverse and that the texts are ordered as the days are, which is what the code relies
  on when it compares dates as strings. A text that is not a date of this form is an invalid date.
\<close>

section \<open>The Gregorian calendar\<close>

definition leap_year :: "int \<Rightarrow> bool" where
  "leap_year y \<longleftrightarrow> (4 dvd y \<and> \<not> 100 dvd y) \<or> 400 dvd y"

definition days_in_month :: "int \<Rightarrow> int \<Rightarrow> int" where
  "days_in_month y m = (if m = 2 then (if leap_year y then 29 else 28) else if m \<in> {4, 6, 9, 11} then 30 else 31)"

text \<open>Days from 0000-01-01 to the first day of a year, and from there to the first of a month.\<close>

definition year_start :: "int \<Rightarrow> int" where
  "year_start y = 365 * y + (y + 3) div 4 - (y + 99) div 100 + (y + 399) div 400"

definition month_start :: "int \<Rightarrow> int \<Rightarrow> int" where
  "month_start y m = sum_list (map (days_in_month y) [1..m - 1])"

definition epoch :: int where "epoch = 719528"

definition day_number :: "int \<Rightarrow> int \<Rightarrow> int \<Rightarrow> int" where
  "day_number y m d = year_start y + month_start y m + d - 1 - epoch"

definition year_of :: "int \<Rightarrow> int" where
  "year_of n = (let y = (n * 400) div 146097 in if n < year_start y then y - 1 else if year_start (y + 1) \<le> n then y + 1 else y)"

definition month_of :: "int \<Rightarrow> int \<Rightarrow> int" where
  "month_of y k = int (length (takeWhile (\<lambda>m. month_start y m \<le> k) [1..12]))"

definition date_of :: "int \<Rightarrow> int \<times> int \<times> int" where
  "date_of n = (let k = n + epoch; y = year_of k; m = month_of y (k - year_start y) in (y, m, k - year_start y - month_start y m + 1))"

definition valid_date :: "int \<Rightarrow> int \<Rightarrow> int \<Rightarrow> bool" where
  "valid_date y m d \<longleftrightarrow> 1 \<le> m \<and> m \<le> 12 \<and> 1 \<le> d \<and> d \<le> days_in_month y m"

section \<open>Texts\<close>

definition iso_day_text :: "int \<Rightarrow> int \<Rightarrow> int \<Rightarrow> string" where
  "iso_day_text y m d =
     (if 0 \<le> y \<and> y \<le> 9999 then pad_digits 4 y else (if y < 0 then CHR ''-'' else CHR ''+'') # pad_digits 6 \<bar>y\<bar>)
     @ ''-'' @ pad_digits 2 m @ ''-'' @ pad_digits 2 d"

text \<open>\<open>new Date(n days).toISOString().slice(0, 10)\<close>\<close>

definition day_text :: "int \<Rightarrow> string" where
  "day_text n = (case date_of n of (y, m, d) \<Rightarrow> take 10 (iso_day_text y m d))"

text \<open>\<open>new Date(`${s}T00:00:00Z`)\<close> in days\<close>

definition parse_day :: "string \<Rightarrow> int option" where
  "parse_day s =
     (case split_on (CHR ''-'') s of
        [y, m, d] \<Rightarrow>
          if length y = 4 \<and> length m = 2 \<and> length d = 2 \<and> list_all is_digit (y @ m @ d) \<and> valid_date (num_value y) (num_value m) (num_value d)
          then Some (day_number (num_value y) (num_value m) (num_value d)) else None
      | _ \<Rightarrow> None)"

text \<open>Text comparison with \<open>\<le>\<close>: by code units.\<close>

fun code_le :: "string \<Rightarrow> string \<Rightarrow> bool" where
  "code_le [] t = True"
| "code_le (c # s) [] = False"
| "code_le (c # s) (d # t) = (if c = d then code_le s t else (of_char c :: nat) < of_char d)"

section \<open>Years\<close>

lemma div_ceiling: "0 < k \<Longrightarrow> (y + k) div k = (y + (k - 1)) div k + (if k dvd y then 1 else (0::int))"
proof -
  assume k: "0 < k"
  have y: "y = k * (y div k) + y mod k" by simp
  have r: "0 \<le> y mod k" "y mod k < k" using k by simp_all
  have a: "(y + k) div k = y div k + 1" using k by simp
  show ?thesis
  proof (cases "k dvd y")
    case True
    then have "(y + (k - 1)) div k = y div k" using k by (auto simp: div_pos_pos_trivial)
    then show ?thesis using a True by simp
  next
    case False
    then have "0 < y mod k" using r(1) by (simp add: dvd_eq_mod_eq_0 order_less_le)
    then have "(y mod k - 1 + k * (y div k + 1)) div k = y div k + 1" using r by simp
    moreover have "y mod k - 1 + k * (y div k + 1) = y + (k - 1)" using y by (simp add: algebra_simps)
    ultimately show ?thesis using a False by simp
  qed
qed

lemma div_bounds: "numeral k * (x div numeral k) \<le> x \<and> x < numeral k * (x div numeral k) + (numeral k :: int)"
  using mult_div_mod_eq [of "numeral k" x] pos_mod_bound [of "numeral k" x] pos_mod_sign [of "numeral k" x] zero_less_numeral [of k, where 'a = int]
  by linarith

lemma year_start_Suc: "year_start (y + 1) = year_start y + 365 + (if leap_year y then 1 else 0)"
proof -
  have d: "(400::int) dvd y \<Longrightarrow> 100 dvd y" "(100::int) dvd y \<Longrightarrow> 4 dvd y" by (auto elim: dvd_trans [rotated])
  show ?thesis
    using div_ceiling [of 4 y] div_ceiling [of 100 y] div_ceiling [of 400 y] d by (auto simp: year_start_def leap_year_def algebra_simps)
qed

lemma year_start_bounds: "400 * year_start y \<le> 146097 * y + 700" "146097 * y - 396 \<le> 400 * year_start y"
proof -
  have "4 * ((y + 3) div 4) \<le> y + 3 \<and> y + 3 < 4 * ((y + 3) div 4) + 4"
    "100 * ((y + 99) div 100) \<le> y + 99 \<and> y + 99 < 100 * ((y + 99) div 100) + 100"
    "400 * ((y + 399) div 400) \<le> y + 399 \<and> y + 399 < 400 * ((y + 399) div 400) + 400"
    by (rule div_bounds)+
  then have "400 * year_start y \<le> 146097 * y + 700 \<and> 146097 * y - 396 \<le> 400 * year_start y"
    unfolding year_start_def ring_distribs right_diff_distrib by linarith
  then show "400 * year_start y \<le> 146097 * y + 700" "146097 * y - 396 \<le> 400 * year_start y" by simp_all
qed

lemma year_start_mono: "y \<le> z \<Longrightarrow> year_start y \<le> year_start z"
proof -
  have "year_start y \<le> year_start (y + int k)" for k
  proof (induction k)
    case (Suc k)
    have "y + int (Suc k) = (y + int k) + 1" by simp
    then show ?case using Suc year_start_Suc [of "y + int k"] by (simp only:) simp
  qed simp
  from this [of "nat (z - y)"] show "y \<le> z \<Longrightarrow> year_start y \<le> year_start z" by simp
qed

lemma year_of_bounds: "year_start (year_of n) \<le> n \<and> n < year_start (year_of n + 1)"
proof -
  define y where "y = (n * 400) div 146097"
  have "146097 * y \<le> n * 400 \<and> n * 400 < 146097 * y + 146097" unfolding y_def by (rule div_bounds)
  then have y: "146097 * y \<le> 400 * n" "400 * n < 146097 * y + 146097" by linarith+
  have "year_start (y - 1) \<le> n" using year_start_bounds(1) [of "y - 1"] y by (simp add: algebra_simps)
  moreover have "n < year_start (y + 2)" using year_start_bounds(2) [of "y + 2"] y by (simp add: algebra_simps)
  ultimately show ?thesis unfolding year_of_def Let_def y_def [symmetric] by (auto simp: algebra_simps)
qed

lemma year_of_eq: "year_start y \<le> n \<Longrightarrow> n < year_start (y + 1) \<Longrightarrow> year_of n = y"
  using year_of_bounds [of n] year_start_mono [of "y + 1" "year_of n"] year_start_mono [of "year_of n + 1" y] by linarith

lemma year_of_mono: "a \<le> b \<Longrightarrow> year_of a \<le> year_of b"
  using year_of_bounds [of a] year_of_bounds [of b] year_start_mono [of "year_of b + 1" "year_of a"] by linarith

section \<open>Months\<close>

lemma month_start_Suc: "1 \<le> m \<Longrightarrow> month_start y (m + 1) = month_start y m + days_in_month y m"
  by (simp add: month_start_def upto_rec2)

lemma days_in_month_pos: "28 \<le> days_in_month y m"
  by (simp add: days_in_month_def)

lemma twelve_months: "[1..12::int] = [1,2,3,4,5,6,7,8,9,10,11,12]"
  by code_simp

lemma month_starts:
  "month_start y 1 = 0" "month_start y 2 = 31" "month_start y 13 = 365 + (if leap_year y then 1 else 0)"
proof -
  have "[1..0::int] = []" "[1..1::int] = [1]" by code_simp+
  then show "month_start y 1 = 0" "month_start y 2 = 31" "month_start y 13 = 365 + (if leap_year y then 1 else 0)"
    by (simp_all add: month_start_def twelve_months days_in_month_def)
qed

lemma month_start_mono: "1 \<le> m \<Longrightarrow> m < k \<Longrightarrow> month_start y m + days_in_month y m \<le> month_start y k"
proof -
  have "month_start y m + days_in_month y m \<le> month_start y (m + 1 + int j)" if "1 \<le> m" for j
  proof (induction j)
    case (Suc j)
    then show ?case using that month_start_Suc [of "m + 1 + int j" y] days_in_month_pos [of y "m + 1 + int j"] by (simp add: algebra_simps)
  qed (use that month_start_Suc [of m y] in simp)
  from this [of "nat (k - m - 1)"] show "1 \<le> m \<Longrightarrow> m < k \<Longrightarrow> month_start y m + days_in_month y m \<le> month_start y k" by simp
qed

lemma month_start_nonneg: "1 \<le> m \<Longrightarrow> 0 \<le> month_start y m"
  using month_start_mono [of 1 m y] days_in_month_pos [of y 1] month_starts(1) [of y] by (cases "m = 1") simp_all

lemma month_of_eq:
  assumes "1 \<le> m" and "m \<le> 12" and "month_start y m \<le> k" and "k < month_start y (m + 1)"
  shows "month_of y k = m"
proof -
  have "[1..12] = [1..m] @ [m + 1..12]" using assms(1,2) by (intro upto_split2) auto
  moreover have "month_start y i \<le> k" if "i \<in> set [1..m]" for i
    using that assms month_start_mono [of i m y] days_in_month_pos [of y i] by (cases "i = m") auto
  moreover have "\<not> month_start y i \<le> k" if "i \<in> set [m + 1..12]" for i
    using that assms month_start_mono [of "m + 1" i y] days_in_month_pos [of y "m + 1"] by (cases "i = m + 1") auto
  ultimately have "takeWhile (\<lambda>i. month_start y i \<le> k) [1..12] = [1..m]"
    by (cases "[m + 1..12]") (auto simp: takeWhile_append)
  then show ?thesis using assms(1) by (simp add: month_of_def)
qed

lemma month_exists:
  assumes "0 \<le> k" and "k < month_start y (m + 1)" and "0 \<le> m"
  shows "\<exists>i. 1 \<le> i \<and> i \<le> m \<and> month_start y i \<le> k \<and> k < month_start y (i + 1)"
  using assms(3,2)
proof (induction m rule: int_ge_induct)
  case base
  then show ?case using assms(1) month_starts(1) [of y] by simp
next
  case (step m)
  show ?case
  proof (cases "k < month_start y (m + 1)")
    case True
    then show ?thesis using step.IH by fastforce
  next
    case False
    then show ?thesis using step by (intro exI [of _ "m + 1"]) simp
  qed
qed


lemma valid_date_of: "case date_of n of (y, m, d) \<Rightarrow> valid_date y m d \<and> day_number y m d = n"
proof -
  define y where "y = year_of (n + epoch)"
  define k where "k = n + epoch - year_start y"
  have k: "0 \<le> k" "k < month_start y (12 + 1)"
    using year_of_bounds [of "n + epoch"] year_start_Suc [of y] by (auto simp: k_def y_def [symmetric] month_starts)
  obtain m where m: "1 \<le> m" "m \<le> 12" "month_start y m \<le> k" "k < month_start y (m + 1)" using month_exists [OF k] by auto
  then have "date_of n = (y, m, k - month_start y m + 1)"
    using month_of_eq [OF m] by (simp add: date_of_def Let_def y_def [symmetric] k_def [symmetric])
  then show ?thesis using m month_start_Suc [of m y] by (simp add: valid_date_def day_number_def k_def)
qed

lemma date_of_day_number:
  assumes "valid_date y m d"
  shows "date_of (day_number y m d) = (y, m, d)"
proof -
  note v = assms [unfolded valid_date_def]
  have m: "month_start y m \<le> month_start y m + d - 1" "month_start y m + d - 1 < month_start y (m + 1)"
    using v month_start_Suc [of m y] by simp_all
  have b: "0 \<le> month_start y m" "month_start y (m + 1) \<le> month_start y 13"
    using v month_start_nonneg [of m y] month_start_mono [of m 13 y] month_start_Suc [of m y] by simp_all
  have "year_of (day_number y m d + epoch) = y"
    using v b m(2) year_start_Suc [of y] month_starts(3) [of y] by (intro year_of_eq) (simp_all add: day_number_def)
  moreover have "month_of y (month_start y m + d - 1) = m" using v m by (intro month_of_eq) simp_all
  moreover have "day_number y m d + epoch - year_start y = month_start y m + d - 1" by (simp add: day_number_def)
  ultimately show ?thesis by (simp add: date_of_def Let_def)
qed

section \<open>The order of dates and of their texts\<close>

definition day_less :: "int \<times> int \<times> int \<Rightarrow> int \<times> int \<times> int \<Rightarrow> bool" where
  "day_less a b = (case (a, b) of ((y, m, d), (z, k, e)) \<Rightarrow> y < z \<or> (y = z \<and> (m < k \<or> (m = k \<and> d < e))))"

lemma day_number_less:
  assumes "valid_date y m d" and "valid_date z k e" and "day_less (y, m, d) (z, k, e)"
  shows "day_number y m d < day_number z k e"
proof -
  note v = assms(1,2) [unfolded valid_date_def]
  have up: "month_start y m + d \<le> month_start y 13"
    using v(1) month_start_mono [of m 13 y] by simp
  have lo: "0 \<le> month_start z k" using v(2) month_start_nonneg by blast
  consider "y < z" | "y = z" "m < k" | "y = z" "m = k" "d < e" using assms(3) by (auto simp: day_less_def)
  then show ?thesis
  proof cases
    case 1
    then have "year_start y + month_start y 13 \<le> year_start z"
      using year_start_mono [of "y + 1" z] year_start_Suc [of y] by (simp add: month_starts)
    then show ?thesis using up lo v by (simp add: day_number_def)
  next
    case 2
    then show ?thesis using v month_start_mono [of m k y] by (simp add: day_number_def)
  qed (simp add: day_number_def)
qed

lemma date_of_less: "a < b \<longleftrightarrow> day_less (date_of a) (date_of b)"
proof -
  obtain y m d z k e where t: "date_of a = (y, m, d)" "date_of b = (z, k, e)" by (metis prod_cases3)
  then have v: "valid_date y m d" "day_number y m d = a" "valid_date z k e" "day_number z k e = b"
    using valid_date_of [of a] valid_date_of [of b] by auto
  have "day_less (y, m, d) (z, k, e) \<or> (y, m, d) = (z, k, e) \<or> day_less (z, k, e) (y, m, d)" by (auto simp: day_less_def)
  then show ?thesis unfolding t using day_number_less [OF v(1,3)] day_number_less [OF v(3,1)] v(2,4) by (auto simp: day_less_def)
qed

lemma of_char_less: "c \<noteq> d \<Longrightarrow> \<not> (of_char d :: nat) < of_char c \<Longrightarrow> (of_char c :: nat) < of_char d"
  by (metis linorder_neqE_nat of_char_eq_iff)

lemma code_le_Cons: "code_le (c # s) (d # t) \<longleftrightarrow> (of_char c :: nat) < of_char d \<or> (c = d \<and> code_le s t)"
  by (cases "c = d") simp_all

declare code_le.simps(3) [simp del]

lemma code_le_total: "code_le s t \<or> code_le t s"
proof (induction s t rule: code_le.induct)
  case (3 c s d t)
  then show ?case unfolding code_le_Cons using of_char_less [of c d] by blast
qed simp_all

lemma code_le_trans: "code_le s t \<Longrightarrow> code_le t u \<Longrightarrow> code_le s u"
proof (induction s t arbitrary: u rule: code_le.induct)
  case (3 c s d t)
  show ?case
  proof (cases u)
    case (Cons e v)
    then show ?thesis
      using 3 unfolding Cons code_le_Cons by (elim disjE conjE) (blast intro: less_trans)+
  qed (use 3 in simp)
qed simp_all

lemma code_le_refl [simp]: "code_le s s"
  using code_le_total by blast

interpretation by_code: ranking UNIV code_le
  by unfold_locales (use code_le_total code_le_trans in blast)+

lemma of_char_digit: "0 \<le> d \<Longrightarrow> d < 10 \<Longrightarrow> (of_char (digit_char d) :: nat) = 48 + nat d"
  by (simp add: digit_char_def)

lemma code_le_digit:
  assumes "0 \<le> a" "a < 10" "0 \<le> b" "b < 10"
  shows "code_le (digit_char a # s) (digit_char b # t) \<longleftrightarrow> a < b \<or> (a = b \<and> code_le s t)"
  using assms of_char_digit [of a] of_char_digit [of b] by (auto simp: code_le_Cons)

lemma less_by_digits:
  fixes r :: int
  assumes "0 \<le> r" "r < 10" "0 \<le> u" "u < 10"
  shows "p < q \<or> (p = q \<and> (r < u \<or> (r = u \<and> P))) \<longleftrightarrow> 10 * p + r < 10 * q + u \<or> (10 * p + r = 10 * q + u \<and> P)"
proof (cases p q rule: linorder_cases)
  case less
  then show ?thesis using assms by linarith
next
  case greater
  then have "\<not> 10 * p + r \<le> 10 * q + u" using assms by linarith
  then show ?thesis using greater by auto
qed simp

lemma code_le_pad:
  "0 \<le> a \<Longrightarrow> a < 10 ^ k \<Longrightarrow> 0 \<le> b \<Longrightarrow> b < 10 ^ k
   \<Longrightarrow> code_le (pad_digits k a @ s) (pad_digits k b @ t) \<longleftrightarrow> a < b \<or> (a = b \<and> code_le s t)"
proof (induction k arbitrary: a b s t)
  case (Suc k)
  have "a div 10 < 10 ^ k" "b div 10 < 10 ^ k" using Suc.prems by auto
  then have "code_le (pad_digits (Suc k) a @ s) (pad_digits (Suc k) b @ t) \<longleftrightarrow>
      a div 10 < b div 10 \<or> (a div 10 = b div 10 \<and> (a mod 10 < b mod 10 \<or> (a mod 10 = b mod 10 \<and> code_le s t)))"
    using Suc.IH [of "a div 10" "b div 10"] Suc.prems by (simp add: code_le_digit)
  moreover have "\<dots> \<longleftrightarrow> a < b \<or> (a = b \<and> code_le s t)"
    using less_by_digits [of "a mod 10" "b mod 10" "a div 10" "b div 10"] by simp
  ultimately show ?case by simp
qed simp

text \<open>The days whose year has four digits.\<close>

definition in_years :: "int \<Rightarrow> bool" where
  "in_years n \<longleftrightarrow> 0 \<le> fst (date_of n) \<and> fst (date_of n) \<le> 9999"

lemma length_pad_digits [simp]: "length (pad_digits k n) = k"
  by (induction k arbitrary: n) simp_all

lemma day_text_in_years:
  assumes "in_years n" and "date_of n = (y, m, d)"
  shows "day_text n = pad_digits 4 y @ ''-'' @ pad_digits 2 m @ ''-'' @ pad_digits 2 d"
  using assms by (simp add: day_text_def iso_day_text_def in_years_def del: pad_digits.simps)

lemma date_bounds:
  assumes "in_years n" and "date_of n = (y, m, d)"
  shows "0 \<le> y" "y < 10 ^ 4" "0 \<le> m" "m < 10 ^ 2" "0 \<le> d" "d < 10 ^ 2" "valid_date y m d" "day_number y m d = n"
proof -
  have "valid_date y m d" "day_number y m d = n" using valid_date_of [of n] assms(2) by simp_all
  moreover have "days_in_month y m \<le> 31" by (simp add: days_in_month_def)
  ultimately show "0 \<le> y" "y < 10 ^ 4" "0 \<le> m" "m < 10 ^ 2" "0 \<le> d" "d < 10 ^ 2" "valid_date y m d" "day_number y m d = n"
    using assms by (simp_all add: in_years_def valid_date_def)
qed

lemma day_text_le:
  assumes "in_years a" and "in_years b"
  shows "code_le (day_text a) (day_text b) \<longleftrightarrow> a \<le> b"
proof -
  obtain y m d z k e where t: "date_of a = (y, m, d)" "date_of b = (z, k, e)" by (metis prod_cases3)
  note x = date_bounds [OF assms(1) t(1)] and w = date_bounds [OF assms(2) t(2)]
  have dash: "code_le (CHR ''-'' # s) (CHR ''-'' # u) = code_le s u" for s u by (simp add: code_le_Cons)
  have same: "(y, m, d) = (z, k, e) \<longleftrightarrow> a = b"
  proof
    assume "(y, m, d) = (z, k, e)"
    then show "a = b" using x(8) w(8) by simp
  qed (use t in simp)
  have e: "code_le (pad_digits 2 d) (pad_digits 2 e) \<longleftrightarrow> d \<le> e"
    using code_le_pad [OF x(5,6) w(5,6), of "[]" "[]"] by auto
  have "code_le (day_text a) (day_text b) \<longleftrightarrow> y < z \<or> (y = z \<and> (m < k \<or> (m = k \<and> d \<le> e)))"
    unfolding day_text_in_years [OF assms(1) t(1)] day_text_in_years [OF assms(2) t(2)] code_le_pad [OF x(1,2) w(1,2)]
      append.simps dash code_le_pad [OF x(3,4) w(3,4)] e ..
  also have "\<dots> \<longleftrightarrow> day_less (y, m, d) (z, k, e) \<or> (y, m, d) = (z, k, e)" by (auto simp: day_less_def)
  also have "\<dots> \<longleftrightarrow> a < b \<or> a = b" unfolding date_of_less [of a b] t using same by simp
  finally show ?thesis by linarith
qed


lemma day_text_eq: "in_years a \<Longrightarrow> in_years b \<Longrightarrow> day_text a = day_text b \<longleftrightarrow> a = b"
  using day_text_le [of a b] day_text_le [of b a] by auto

lemma in_years_between: "in_years a \<Longrightarrow> in_years c \<Longrightarrow> a \<le> b \<Longrightarrow> b \<le> c \<Longrightarrow> in_years b"
  using year_of_mono [of "a + epoch" "b + epoch"] year_of_mono [of "b + epoch" "c + epoch"]
  by (auto simp: in_years_def date_of_def Let_def)

section \<open>Reading a date back\<close>

lemma is_digit_mod [simp]: "is_digit (digit_char (n mod 10))"
  by (simp add: is_digit_def digit_char_def Let_def)

lemma digits_pad [simp]: "list_all is_digit (pad_digits k n)"
  by (induction k arbitrary: n) simp_all

lemma dash_in_digits: "list_all is_digit s \<Longrightarrow> CHR ''-'' \<notin> set s"
  by (auto simp: list_all_iff is_digit_def)

lemma parse_day_text:
  assumes "in_years n"
  shows "parse_day (day_text n) = Some n"
proof -
  obtain y m d where t: "date_of n = (y, m, d)" by (metis prod_cases3)
  note x = date_bounds [OF assms t]
  have num: "num_value (pad_digits 4 y) = y" "num_value (pad_digits 2 m) = m" "num_value (pad_digits 2 d) = d"
    using x unfolding num_value_pad_digits by simp_all
  have "split_on (CHR ''-'') (day_text n) = [pad_digits 4 y, pad_digits 2 m, pad_digits 2 d]"
    unfolding day_text_in_years [OF assms t] append.simps
    by (simp add: split_on_first split_on_absent dash_in_digits [OF digits_pad] del: pad_digits.simps)
  then show ?thesis using x(7,8) unfolding parse_day_def by (simp add: num del: pad_digits.simps)
qed

text \<open>Day arithmetic as the dashboards do it, on the texts; a text that is no date throws (\<open>None\<close>).\<close>

definition addDays :: "string \<Rightarrow> int \<Rightarrow> string option" where
  "addDays day delta = map_option (\<lambda>n. day_text (n + delta)) (parse_day day)"

lemma addDays_text: "in_years n \<Longrightarrow> addDays (day_text n) delta = Some (day_text (n + delta))"
  by (simp add: addDays_def parse_day_text)

section \<open>Concrete days\<close>

lemma sample_days:
  "parse_day ''2024-02-29'' = Some 19782" "day_text 19782 = ''2024-02-29''" "day_text 20513 = ''2026-03-01''"
  "parse_day ''2025-02-29'' = None" "parse_day ''today'' = None"
  by code_simp+

end
