(* ===== verification/Catalog.thy ===== *)
theory Catalog
  imports Calendar Http Number_Text
begin

text \<open>
  The model catalog: the rows of \<open>lib/models-catalog/types.ts\<close> (the fields the modelled functions read),
  the display strings of \<open>format.ts\<close> and the promotions of \<open>promotions.ts\<close>. Prices, counts and statistics are JavaScript
  numbers, \<open>null\<close> an absent one. \<open>localeCompare\<close> (the host's collation) is a parameter.
\<close>

section \<open>The rows\<close>

record catalog_model =
  cm_id :: string
  cm_slug :: string
  cm_display_name :: string
  cm_icon :: "string option"
  cm_release_date :: "string option"
  cm_context_window :: "jsnum option"
  cm_max_output_tokens :: "jsnum option"
  cm_input_modalities :: "string list"
  cm_supported_params :: "(string \<times> json) list"
  cm_category :: "string option"
  cm_tags :: "string list"

record catalog_deployment =
  cd_provider :: string
  cd_provider_model_id :: string
  cd_owning_org_id :: "string option"
  cd_billing_source :: string
  cd_input_micro :: "jsnum option"
  cd_cached_input_micro :: "jsnum option"
  cd_output_micro :: "jsnum option"
  cd_uptime_30d :: "jsnum option"
  cd_throughput_tps :: "jsnum option"
  cd_status :: string

record catalog_entry =
  ce_model :: catalog_model
  ce_providers :: "catalog_deployment list"

record model_promotion =
  mp_label :: string
  mp_slugs :: "string list"
  mp_display_order :: int
  mp_free :: bool
  mp_percent_off :: jsnum
  mp_providers :: "string list"

section \<open>Display strings\<close>

definition PROVIDER_LABELS :: "(string \<times> string) list" where
  "PROVIDER_LABELS = [(''openai'', ''OpenAI''), (''anthropic'', ''Anthropic''), (''gemini'', ''Gemini''),
     (''azure_openai'', ''Azure Foundry''), (''openrouter'', ''OpenRouter''), (''bedrock'', ''Bedrock''), (''local'', ''Local''),
     (''fireworks'', ''Fireworks''), (''modal'', ''Modal''), (''experiential_cloud'', ''Experiential Cloud'')]"

definition EXPERIENTIAL_CLOUD_DESCRIPTION :: string where
  "EXPERIENTIAL_CLOUD_DESCRIPTION =
     ''Experiential Cloud is a curated collection of models, hosted and optimized by Experiential Labs.''"

definition providerLabel :: "string \<Rightarrow> string" where
  "providerLabel p = (case map_of PROVIDER_LABELS p of Some l \<Rightarrow> l | None \<Rightarrow> p)"

definition providerDescription :: "string \<Rightarrow> string option" where
  "providerDescription p = (if p = ''experiential_cloud'' then Some EXPERIENTIAL_CLOUD_DESCRIPTION else None)"

definition trimmed :: "jsnum \<Rightarrow> nat \<Rightarrow> string" where
  "trimmed v k =
     (let s = toFixed k v; r = dropWhile (\<lambda>c. c \<noteq> CHR ''.'') s
      in strip_dot (if r \<noteq> [] \<and> list_all is_digit (tl r) then strip_zeros s else s))"

definition formatTokenCount :: "jsnum option \<Rightarrow> string" where
  "formatTokenCount tokens =
     (case tokens of
        None \<Rightarrow> em_dash
      | Some x \<Rightarrow>
          if js_le (js_int 1000000) x then
            (let millions = js_div x (js_int 1000000) in trimmed millions (if js_le (js_int 10) millions then 0 else 2) @ ''M'')
          else if js_le (js_int 1000) x then js_String (js_round (js_div x (js_int 1000))) @ ''K''
          else js_String x)"

definition formatUptime :: "jsnum option \<Rightarrow> string" where
  "formatUptime uptime =
     (case uptime of None \<Rightarrow> em_dash | Some x \<Rightarrow> trimmed x (if js_le (js_lit (9995 / 100)) x then 2 else 1) @ ''%'')"

definition formatThroughput :: "jsnum option \<Rightarrow> string" where
  "formatThroughput tps =
     (case tps of None \<Rightarrow> em_dash | Some x \<Rightarrow> trimmed x (if js_le (js_int 100) x then 0 else 1) @ '' tok/s'')"

definition formatLatency :: "jsnum option \<Rightarrow> string" where
  "formatLatency ms =
     (case ms of
        None \<Rightarrow> em_dash
      | Some x \<Rightarrow>
          if js_le (js_int 1000) x then trimmed (js_div x (js_int 1000)) 2 @ ''s'' else js_String (js_round x) @ ''ms'')"

definition month_names :: "string list" where
  "month_names = [''Jan'', ''Feb'', ''Mar'', ''Apr'', ''May'', ''Jun'', ''Jul'', ''Aug'', ''Sep'', ''Oct'', ''Nov'', ''Dec'']"

definition formatReleaseDate :: "string option \<Rightarrow> string" where
  "formatReleaseDate isoDate =
     (case isoDate of
        None \<Rightarrow> em_dash
      | Some s \<Rightarrow>
          (case split_on (CHR ''-'') s of
             y # m # _ \<Rightarrow>
               (let year = js_Number y; month = js_Number m in
                if \<not> js_is_finite year \<or> \<not> js_is_finite month \<or> js_lt month (js_int 1) \<or> js_lt (js_int 12) month then em_dash
                else (if js_is_integer month then month_names ! nat (\<lfloor>jsval month\<rfloor> - 1) else ''undefined'') @ '' '' @ js_String year)
           | _ \<Rightarrow> em_dash))"

definition param_order :: "string list" where
  "param_order = [''tools'', ''reasoning'', ''temperature'', ''top_p'', ''response_format'', ''structured_outputs'', ''stop'', ''seed'', ''logprobs'']"

definition order_index :: "string \<Rightarrow> nat" where
  "order_index k = length (takeWhile (\<lambda>x. x \<noteq> k) param_order)"

definition declared :: "(string \<times> json) list \<Rightarrow> string \<Rightarrow> bool" where
  "declared params k \<longleftrightarrow> map_of params k = Some (JBool True)"

definition supportedParamList :: "(string \<Rightarrow> string \<Rightarrow> bool) \<Rightarrow> (string \<times> json) list \<Rightarrow> string list" where
  "supportedParamList locale_le params =
     sort_by (\<lambda>a b. order_index a < order_index b \<or> (order_index a = order_index b \<and> locale_le a b))
       (filter (declared params) (map fst params))"

definition chip_labels :: "(string \<times> string) list" where
  "chip_labels = [(''tools'', ''tools''), (''reasoning'', ''reasoning''), (''temperature'', ''temp''), (''top_p'', ''top_p''),
     (''response_format'', ''response format''), (''structured_outputs'', ''structured''), (''stop'', ''stop''), (''seed'', ''seed''), (''logprobs'', ''logprobs'')]"

definition paramChipLabel :: "string \<Rightarrow> string" where
  "paramChipLabel p =
     (case map_of chip_labels p of Some l \<Rightarrow> l | None \<Rightarrow> map (\<lambda>c. if c = CHR ''_'' then CHR '' '' else c) p)"

section \<open>Prices and statistics of a model\<close>

definition hasCacheDiscount :: "catalog_deployment \<Rightarrow> bool" where
  "hasCacheDiscount d =
     (case (cd_input_micro d, cd_cached_input_micro d) of (Some i, Some c) \<Rightarrow> js_lt c i | _ \<Rightarrow> False)"

definition known_values :: "'a option list \<Rightarrow> 'a list" where
  "known_values vs = List.map_filter id vs"

definition math_min :: "jsnum list \<Rightarrow> jsnum" where
  "math_min vs = foldl js_min (Infty False) vs"

definition math_max :: "jsnum list \<Rightarrow> jsnum" where
  "math_max vs = foldl js_max (Infty True) vs"

definition minKnown :: "jsnum option list \<Rightarrow> jsnum option" where
  "minKnown vs = (let known = known_values vs in if known = [] then None else Some (math_min known))"

definition maxKnown :: "jsnum option list \<Rightarrow> jsnum option" where
  "maxKnown vs = (let known = known_values vs in if known = [] then None else Some (math_max known))"

definition cheapestInputMicro :: "catalog_entry \<Rightarrow> jsnum option" where
  "cheapestInputMicro entry = minKnown (map cd_input_micro (ce_providers entry))"

definition cheapestOutputMicro :: "catalog_entry \<Rightarrow> jsnum option" where
  "cheapestOutputMicro entry = minKnown (map cd_output_micro (ce_providers entry))"

definition bestThroughput :: "catalog_entry \<Rightarrow> jsnum option" where
  "bestThroughput entry = maxKnown (map cd_throughput_tps (ce_providers entry))"

definition bestUptime :: "catalog_entry \<Rightarrow> jsnum option" where
  "bestUptime entry = maxKnown (map cd_uptime_30d (ce_providers entry))"

section \<open>Promotions\<close>

datatype promo_chip = FreeChip "string list" | PercentChip jsnum "string list"

fun chip_providers :: "promo_chip \<Rightarrow> string list" where
  "chip_providers (FreeChip ps) = ps"
| "chip_providers (PercentChip p ps) = ps"

definition discount_before :: "model_promotion \<Rightarrow> model_promotion \<Rightarrow> bool" where
  "discount_before a b \<longleftrightarrow> js_lt (mp_percent_off b) (mp_percent_off a)
     \<or> (js_eq (mp_percent_off a) (mp_percent_off b) \<and> mp_display_order a \<le> mp_display_order b)"

definition rankPromosForSlug :: "model_promotion list \<Rightarrow> promo_chip option" where
  "rankPromosForSlug promos =
     (case first_by (\<lambda>a b. mp_display_order a \<le> mp_display_order b) (filter mp_free promos) of
        Some p \<Rightarrow> Some (FreeChip (mp_providers p))
      | None \<Rightarrow>
          (case first_by discount_before (filter (\<lambda>p. js_lt (js_int 0) (mp_percent_off p)) promos) of
             Some p \<Rightarrow> Some (PercentChip (mp_percent_off p) (mp_providers p))
           | None \<Rightarrow> None))"

definition promoEffectiveMicro :: "promo_chip option \<Rightarrow> jsnum option \<Rightarrow> jsnum option" where
  "promoEffectiveMicro chip micro =
     (case (chip, micro) of
        (Some (FreeChip _), Some m) \<Rightarrow> Some (js_int 0)
      | (Some (PercentChip p _), Some m) \<Rightarrow> Some (js_round (js_mult m (js_sub (js_int 1) (js_div p (js_int 100)))))
      | _ \<Rightarrow> micro)"

type_synonym priced_lane = "string \<times> jsnum option"

definition promoEffectivePrice :: "promo_chip option \<Rightarrow> priced_lane list \<Rightarrow> jsnum option \<times> jsnum option" where
  "promoEffectivePrice chip lanes =
     (let list_price = minKnown (map snd lanes) in
      case (chip, list_price) of
        (Some c, Some lp) \<Rightarrow>
          if chip_providers c = [] then (list_price, promoEffectiveMicro chip list_price)
          else (let covered = minKnown (map snd (filter (\<lambda>l. fst l \<in> set (chip_providers c)) lanes));
                    discounted = promoEffectiveMicro chip covered
                in (list_price, case discounted of None \<Rightarrow> list_price | Some d \<Rightarrow> Some (js_min lp d)))
      | _ \<Rightarrow> (list_price, list_price))"

definition add_promo :: "model_promotion \<Rightarrow> (string, model_promotion list) jsmap \<Rightarrow> string \<Rightarrow> (string, model_promotion list) jsmap" where
  "add_promo promo m slug = (case map_get m slug of Some ps \<Rightarrow> map_set slug (ps @ [promo]) m | None \<Rightarrow> map_set slug [promo] m)"

definition promosBySlug :: "model_promotion list \<Rightarrow> (string, model_promotion list) jsmap" where
  "promosBySlug promotions = foldl (\<lambda>m promo. foldl (add_promo promo) m (mp_slugs promo)) [] promotions"

definition promoChipsBySlug :: "model_promotion list \<Rightarrow> (string, promo_chip) jsmap" where
  "promoChipsBySlug promotions =
     foldl (\<lambda>chips (slug, promos). case rankPromosForSlug promos of Some c \<Rightarrow> map_set slug c chips | None \<Rightarrow> chips)
       [] (promosBySlug promotions)"


section \<open>Comparisons of promotions\<close>

lemma js_compare_finite:
  "js_is_finite a \<Longrightarrow> js_is_finite b \<Longrightarrow> js_lt a b \<longleftrightarrow> jsval a < jsval b"
  "js_is_finite a \<Longrightarrow> js_is_finite b \<Longrightarrow> js_eq a b \<longleftrightarrow> jsval a = jsval b"
  by (cases a; cases b; simp)+

interpretation by_order: ranking UNIV "\<lambda>a b. mp_display_order a \<le> mp_display_order b"
  by unfold_locales auto

interpretation by_discount: ranking "{p. js_is_finite (mp_percent_off p)}" discount_before
  by unfold_locales (auto simp: discount_before_def js_compare_finite)

section \<open>Which promotion a model wears\<close>

text \<open>
  The chip of a model is the one the gateway would apply: a free promotion if there is one, the first
  in display order; otherwise the highest discount, the first in display order among equals; none only
  when no promotion is free or discounts.
\<close>

theorem promotion_precedence:
  assumes "\<forall>p\<in>set promos. js_is_finite (mp_percent_off p)"
  shows "case rankPromosForSlug promos of
      None \<Rightarrow> (\<forall>q\<in>set promos. \<not> mp_free q \<and> jsval (mp_percent_off q) \<le> 0)
    | Some (FreeChip lanes) \<Rightarrow> (\<exists>p\<in>set promos. mp_free p \<and> mp_providers p = lanes
        \<and> (\<forall>q\<in>set promos. mp_free q \<longrightarrow> mp_display_order p \<le> mp_display_order q))
    | Some (PercentChip x lanes) \<Rightarrow> (\<forall>q\<in>set promos. \<not> mp_free q) \<and> 0 < jsval x
        \<and> (\<exists>p\<in>set promos. mp_percent_off p = x \<and> mp_providers p = lanes
            \<and> (\<forall>q\<in>set promos. jsval (mp_percent_off q) \<le> jsval x
                 \<and> (jsval (mp_percent_off q) = jsval x \<longrightarrow> mp_display_order p \<le> mp_display_order q)))"
proof (cases "first_by (\<lambda>a b. mp_display_order a \<le> mp_display_order b) (filter mp_free promos)")
  case (Some p)
  then show ?thesis using by_order.first_by_Some [OF _ Some] by (auto simp: rankPromosForSlug_def)
next
  case None
  then have nofree: "\<forall>q\<in>set promos. \<not> mp_free q" by (simp add: by_order.first_by_None filter_empty_conv)
  let ?d = "filter (\<lambda>p. js_lt (js_int 0) (mp_percent_off p)) promos"
  have pos: "js_lt (js_int 0) (mp_percent_off q) \<longleftrightarrow> 0 < jsval (mp_percent_off q)" if "q \<in> set promos" for q
    using assms that by (simp add: js_compare_finite js_int_def)
  have fin: "set ?d \<subseteq> {p. js_is_finite (mp_percent_off p)}" using assms by auto
  show ?thesis
  proof (cases "first_by discount_before ?d")
    case none: None
    then have "?d = []" using by_discount.first_by_None [OF fin] by simp
    then have "\<forall>q\<in>set promos. \<not> 0 < jsval (mp_percent_off q)" using pos by (simp add: filter_empty_conv)
    moreover have "rankPromosForSlug promos = None" unfolding rankPromosForSlug_def None none by simp
    ultimately show ?thesis using nofree by auto
  next
    case (Some p)
    have b: "p \<in> set ?d" "\<forall>q\<in>set ?d. discount_before p q" using by_discount.first_by_Some [OF fin Some] by auto
    have "jsval (mp_percent_off q) \<le> jsval (mp_percent_off p) \<and> (jsval (mp_percent_off q) = jsval (mp_percent_off p) \<longrightarrow> mp_display_order p \<le> mp_display_order q)"
      if q: "q \<in> set promos" for q
    proof (cases "q \<in> set ?d")
      case True
      then show ?thesis using b assms q by (auto simp: discount_before_def js_compare_finite)
    next
      case False
      then show ?thesis using q pos b(1) by auto
    qed
    then show ?thesis using None Some nofree b(1) pos by (auto simp: rankPromosForSlug_def)
  qed
qed


section \<open>What a promoted model costs\<close>

text \<open>Prices as the catalog's contract has them: integers of micro-dollars, exactly representable.\<close>

definition micro_price :: "int \<Rightarrow> bool" where
  "micro_price n \<longleftrightarrow> 0 \<le> n \<and> n < 2 ^ 53"

definition lane_prices :: "(string \<times> int option) list \<Rightarrow> priced_lane list" where
  "lane_prices L = map (\<lambda>l. (fst l, map_option js_int (snd l))) L"

definition discount_chip :: "promo_chip \<Rightarrow> bool" where
  "discount_chip c = (case c of FreeChip _ \<Rightarrow> True | PercentChip p _ \<Rightarrow> (case p of Fin s q \<Rightarrow> \<not> s \<and> 0 \<le> q \<and> q \<le> 100 | _ \<Rightarrow> False))"

definition covers :: "promo_chip \<Rightarrow> string \<Rightarrow> bool" where
  "covers c lane \<longleftrightarrow> chip_providers c = [] \<or> lane \<in> set (chip_providers c)"

text \<open>What one lane costs under the chip: the discounted price if the promotion covers it.\<close>

definition payable :: "promo_chip option \<Rightarrow> priced_lane \<Rightarrow> jsnum option" where
  "payable chip l = (case chip of Some c \<Rightarrow> if covers c (fst l) then promoEffectiveMicro chip (snd l) else snd l | None \<Rightarrow> snd l)"

definition keeps_share :: "promo_chip \<Rightarrow> rat" where
  "keeps_share c = (case c of FreeChip _ \<Rightarrow> 0 | PercentChip p _ \<Rightarrow> jsval (js_sub (js_int 1) (js_div p (js_int 100))))"

definition repriced_int :: "promo_chip \<Rightarrow> int \<Rightarrow> int" where
  "repriced_int c n = (case c of FreeChip _ \<Rightarrow> 0 | PercentChip _ _ \<Rightarrow> \<lfloor>fl (of_int n * keeps_share c) + 1 / 2\<rfloor>)"

lemma fl_unit: "0 \<le> q \<Longrightarrow> q \<le> 1 \<Longrightarrow> 0 \<le> fl q \<and> fl q \<le> 1"
  using fl_mono [of q 1] fl_of_int [of 1] by simp

lemma discount_share:
  assumes "discount_chip (PercentChip p ls)"
  shows "js_sub (js_int 1) (js_div p (js_int 100)) = Fin False (keeps_share (PercentChip p ls))"
    and "0 \<le> keeps_share (PercentChip p ls)" and "keeps_share (PercentChip p ls) \<le> 1"
proof -
  obtain q where p: "p = Fin False q" "0 \<le> q" "q \<le> 100" using assms by (auto simp: discount_chip_def split: jsnum.splits)
  have y: "0 \<le> fl (q / 100)" "fl (q / 100) \<le> 1" using fl_unit [of "q / 100"] p by auto
  have "1 - fl (q / 100) \<le> 1" using y(1) by simp
  also have "(1 :: rat) \<le> 10 ^ 30" by simp
  finally have o: "q / 100 \<le> 10 ^ 30" "1 - fl (q / 100) \<le> 10 ^ 30" using p by auto
  have d: "js_div p (js_int 100) = Fin False (fl (q / 100))" using p o by (simp add: js_int_def num_round_ordinary)
  have z: "0 \<le> fl (1 - fl (q / 100))" "fl (1 - fl (q / 100)) \<le> 1" using fl_unit [of "1 - fl (q / 100)"] y by auto
  have "js_sub (js_int 1) (Fin False (fl (q / 100))) = Fin False (if fl (q / 100) = 1 then 0 else fl (1 - fl (q / 100)))"
    using y o by (simp add: js_sub_def js_int_def js_lit_def num_round_ordinary)
  then show "js_sub (js_int 1) (js_div p (js_int 100)) = Fin False (keeps_share (PercentChip p ls))"
    and "0 \<le> keeps_share (PercentChip p ls)" and "keeps_share (PercentChip p ls) \<le> 1"
    using d z by (auto simp: keeps_share_def)
qed

lemma micro_rat: "micro_price n \<Longrightarrow> 0 \<le> (of_int n :: rat) \<and> (of_int n :: rat) < 2 ^ 53"
proof -
  assume "micro_price n"
  then have "(of_int n :: rat) < of_int (2 ^ 53)" unfolding of_int_less_iff by (simp add: micro_price_def)
  with \<open>micro_price n\<close> show ?thesis by (simp add: micro_price_def)
qed

lemma js_round_int: "0 \<le> x \<Longrightarrow> js_round (Fin False x) = js_int \<lfloor>x + 1 / 2\<rfloor>"
proof -
  assume "0 \<le> x"
  then have "0 \<le> \<lfloor>x + 1 / 2\<rfloor>" by simp
  then show ?thesis by (simp add: js_int_def)
qed

lemma promoEffectiveMicro_int:
  assumes "discount_chip c" and "micro_price n"
  shows "promoEffectiveMicro (Some c) (Some (js_int n)) = Some (js_int (repriced_int c n))"
    and "0 \<le> repriced_int c n" and "repriced_int c n \<le> n"
proof -
  have "promoEffectiveMicro (Some c) (Some (js_int n)) = Some (js_int (repriced_int c n)) \<and> 0 \<le> repriced_int c n \<and> repriced_int c n \<le> n"
  proof (cases c)
    case (PercentChip p ls)
    let ?r = "keeps_share c"
    have r: "js_sub (js_int 1) (js_div p (js_int 100)) = Fin False ?r" "0 \<le> ?r" "?r \<le> 1" using discount_share assms(1) PercentChip by auto
    have n: "0 \<le> (of_int n :: rat)" "(of_int n :: rat) < 2 ^ 53" "0 \<le> n" using micro_rat [OF assms(2)] assms(2) by (auto simp: micro_price_def)
    have le: "of_int n * ?r \<le> of_int n" "0 \<le> of_int n * ?r" using r n by (auto intro: mult_left_le)
    have "(2 :: rat) ^ 53 \<le> 10 ^ 30" by simp
    then have o: "of_int n * ?r \<le> 10 ^ 30" using le n by linarith
    have f: "fl (of_int n * ?r) \<le> of_int n" using fl_mono [OF le(1)] fl_of_int [of n] assms(2) by (simp add: micro_price_def)
    have m: "js_mult (js_int n) (Fin False ?r) = Fin False (fl (of_int n * ?r))" using n o by (simp add: js_int_def num_round_ordinary)
    have nn: "0 \<le> fl (of_int n * ?r)" by simp
    then have p: "0 \<le> repriced_int c n" using PercentChip by (simp add: repriced_int_def)
    have q: "repriced_int c n \<le> n" using f PercentChip by (simp add: repriced_int_def floor_le_iff)
    have "promoEffectiveMicro (Some c) (Some (js_int n)) = Some (js_int (repriced_int c n))"
      using PercentChip r(1) m js_round_int [OF nn] by (simp add: promoEffectiveMicro_def repriced_int_def)
    with p q show ?thesis by blast
  qed (use assms in \<open>simp_all add: promoEffectiveMicro_def repriced_int_def micro_price_def\<close>)
  then show "promoEffectiveMicro (Some c) (Some (js_int n)) = Some (js_int (repriced_int c n))" and "0 \<le> repriced_int c n" and "repriced_int c n \<le> n"
    by blast+
qed

lemma repriced_int_mono:
  assumes "discount_chip c" and "0 \<le> n" and "n \<le> m"
  shows "repriced_int c n \<le> repriced_int c m"
proof (cases c)
  case (PercentChip p ls)
  have "of_int n * keeps_share c \<le> of_int m * keeps_share c"
    using discount_share(2) assms PercentChip by (intro mult_right_mono) auto
  then have "fl (of_int n * keeps_share c) \<le> fl (of_int m * keeps_share c)" by (rule fl_mono)
  then show ?thesis using PercentChip by (simp add: repriced_int_def floor_mono)
qed (simp add: repriced_int_def)


lemma js_min_int: "0 \<le> a \<Longrightarrow> 0 \<le> b \<Longrightarrow> js_min (js_int a) (js_int b) = js_int (min a b)"
  by (auto simp: js_min_def js_int_def min_def)

lemma foldl_js_min: "0 \<le> a \<Longrightarrow> \<forall>x\<in>set xs. 0 \<le> x \<Longrightarrow> foldl js_min (js_int a) (map js_int xs) = js_int (Min (insert a (set xs)))"
proof (induction xs arbitrary: a)
  case (Cons x xs)
  have "Min (insert (min a x) (set xs)) = Min (insert a (insert x (set xs)))"
  proof (cases "xs = []")
    case False
    then show ?thesis by (simp add: min.assoc)
  qed simp
  then show ?case using Cons by (simp add: js_min_int)
qed simp

lemma math_min_ints:
  assumes "xs \<noteq> []" and "\<forall>x\<in>set xs. 0 \<le> x"
  shows "math_min (map js_int xs) = js_int (Min (set xs))"
proof -
  obtain y ys where x: "xs = y # ys" using assms(1) by (cases xs) auto
  have "js_min (Infty False) (js_int y) = js_int y" by (simp add: js_min_def js_int_def)
  then show ?thesis using foldl_js_min [of y ys] assms(2) x by (simp add: math_min_def)
qed

lemma in_known_values: "x \<in> set (known_values vs) \<longleftrightarrow> Some x \<in> set vs"
  by (induction vs) (auto simp: known_values_def List.map_filter_def)

lemma known_values_ints: "known_values (map (map_option js_int) vs) = map js_int (known_values vs)"
  by (induction vs) (auto simp: known_values_def List.map_filter_def)

lemma minKnown_ints:
  assumes "\<forall>x. Some x \<in> set vs \<longrightarrow> 0 \<le> x"
  shows "minKnown (map (map_option js_int) vs) = (if known_values vs = [] then None else Some (js_int (Min (set (known_values vs)))))"
  using assms math_min_ints [of "known_values vs"] by (simp add: minKnown_def Let_def known_values_ints in_known_values)

text \<open>The price of one lane in whole micro-dollars.\<close>

definition lane_pay :: "promo_chip \<Rightarrow> string \<times> int option \<Rightarrow> int option" where
  "lane_pay c l = map_option (\<lambda>n. if covers c (fst l) then repriced_int c n else n) (snd l)"

lemma lane_pay_iff: "Some v = lane_pay c l \<longleftrightarrow> (\<exists>n. snd l = Some n \<and> v = (if covers c (fst l) then repriced_int c n else n))"
  by (cases "snd l") (auto simp: lane_pay_def)

lemma payable_lanes:
  assumes "discount_chip c" and "\<forall>l\<in>set L. \<forall>n. snd l = Some n \<longrightarrow> micro_price n"
  shows "map (payable (Some c)) (lane_prices L) = map (map_option js_int) (map (lane_pay c) L)"
proof -
  have "payable (Some c) (fst l, map_option js_int (snd l)) = map_option js_int (lane_pay c l)" if l: "l \<in> set L" for l
  proof (cases "snd l")
    case None
    then show ?thesis by (simp add: payable_def lane_pay_def promoEffectiveMicro_def split: promo_chip.split)
  next
    case (Some n)
    then have "micro_price n" using assms(2) l by blast
    then show ?thesis using Some promoEffectiveMicro_int(1) [OF assms(1)] by (simp add: payable_def lane_pay_def)
  qed
  then show ?thesis by (simp add: lane_prices_def)
qed

lemma Min_is: "finite S \<Longrightarrow> v \<in> S \<Longrightarrow> (\<And>x. x \<in> S \<Longrightarrow> v \<le> x) \<Longrightarrow> Min S = (v :: int)"
  by (rule Min_eqI)

text \<open>The best price over the lanes is reached from the cheapest lane and the cheapest covered lane.\<close>

lemma best_payable:
  assumes chip: "discount_chip c" and prices: "\<forall>l\<in>set L. \<forall>n. snd l = Some n \<longrightarrow> micro_price n"
    and S: "known_values (map snd L) \<noteq> []"
  defines "C \<equiv> known_values (map snd (filter (\<lambda>l. covers c (fst l)) L))"
  shows "Min (set (known_values (map (lane_pay c) L))) =
    (if C = [] then Min (set (known_values (map snd L))) else min (Min (set (known_values (map snd L)))) (repriced_int c (Min (set C))))"
proof -
  let ?S = "set (known_values (map snd L))" and ?T = "set (known_values (map (lane_pay c) L))"
  have inS: "n \<in> ?S \<longleftrightarrow> (\<exists>l\<in>set L. snd l = Some n)" for n by (force simp: in_known_values image_iff)
  have inC: "n \<in> set C \<longleftrightarrow> (\<exists>l\<in>set L. covers c (fst l) \<and> snd l = Some n)" for n by (force simp: C_def in_known_values image_iff)
  have inT: "v \<in> ?T \<longleftrightarrow> (\<exists>l\<in>set L. \<exists>n. snd l = Some n \<and> v = (if covers c (fst l) then repriced_int c n else n))" for v
    unfolding in_known_values set_map image_iff lane_pay_iff by (rule refl)
  have mS: "Min ?S \<in> ?S" "\<And>n. n \<in> ?S \<Longrightarrow> Min ?S \<le> n" using S by auto
  have pos: "0 \<le> n" "micro_price n" if "n \<in> ?S" for n using that prices inS by (auto simp: micro_price_def)
  have CS: "n \<in> ?S" if "n \<in> set C" for n using that inC inS by blast
  show ?thesis
  proof (cases "C = []")
    case True
    then have nc: "\<not> covers c (fst l)" if "l \<in> set L" "snd l = Some n" for l n using that inC [of n] by auto
    have "v \<in> ?T \<longleftrightarrow> v \<in> ?S" for v unfolding inT inS using nc by metis
    then have "?T = ?S" by blast
    then show ?thesis using True by simp
  next
    case False
    then have mC: "Min (set C) \<in> set C" "\<And>n. n \<in> set C \<Longrightarrow> Min (set C) \<le> n" by auto
    let ?v = "min (Min ?S) (repriced_int c (Min (set C)))"
    have low: "?v \<le> v" if v: "v \<in> ?T" for v
    proof -
      obtain l n where l: "l \<in> set L" "snd l = Some n" "v = (if covers c (fst l) then repriced_int c n else n)" using v inT by blast
      show ?thesis
      proof (cases "covers c (fst l)")
        case True
        then have n: "n \<in> set C" using inC l by blast
        have "repriced_int c (Min (set C)) \<le> repriced_int c n" by (rule repriced_int_mono [OF chip]) (use mC n pos CS in auto)
        then show ?thesis using l True by simp
      next
        case cov: False
        have "n \<in> ?S" using inS l by blast
        then have "Min ?S \<le> n" by (rule mS(2))
        then show ?thesis using cov l by simp
      qed
    qed
    have "?v \<in> ?T"
    proof (cases "repriced_int c (Min (set C)) \<le> Min ?S")
      case True
      obtain l where "l \<in> set L" "covers c (fst l)" "snd l = Some (Min (set C))" using mC(1) inC by blast
      then have "repriced_int c (Min (set C)) \<in> ?T" unfolding inT by (intro bexI [of _ l] exI [of _ "Min (set C)"]) simp_all
      then show ?thesis using True by (simp add: min_absorb2)
    next
      case less: False
      obtain l where l: "l \<in> set L" "snd l = Some (Min ?S)" using mS(1) inS by blast
      have "\<not> covers c (fst l)"
      proof
        assume "covers c (fst l)"
        then have "Min ?S \<in> set C" using inC l by blast
        then have "Min (set C) \<le> Min ?S" using mC(2) by blast
        moreover have "repriced_int c (Min (set C)) \<le> Min (set C)" using promoEffectiveMicro_int(3) [OF chip] pos(2) CS mC(1) by blast
        ultimately show False using less by simp
      qed
      then have "Min ?S \<in> ?T" unfolding inT using l by (intro bexI [of _ l] exI [of _ "Min ?S"]) simp_all
      then show ?thesis using less by (simp add: min_absorb1)
    qed
    then show ?thesis using Min_is [of ?T ?v] low False by simp
  qed
qed

text \<open>
  C26. The effective price of a promoted model is the best price anyone can pay: the minimum over its lanes
  of what each lane costs, discounted where the promotion covers it; its list price is the minimum
  without the promotion, and the effective price is unknown exactly when the list price is.
\<close>

theorem effective_price_is_the_best_payable:
  assumes "case chip of Some c \<Rightarrow> discount_chip c | None \<Rightarrow> True"
    and "\<forall>l\<in>set L. \<forall>n. snd l = Some n \<longrightarrow> micro_price n"
  shows "promoEffectivePrice chip (lane_prices L) = (minKnown (map snd (lane_prices L)), minKnown (map (payable chip) (lane_prices L)))"
proof (cases chip)
  case None
  then have "payable chip = snd" by (auto simp: payable_def)
  then show ?thesis using None by (simp add: promoEffectivePrice_def Let_def)
next
  case (Some c)
  then have chip: "discount_chip c" using assms(1) by simp
  let ?vs = "map snd L" and ?cov = "filter (\<lambda>l. covers c (fst l)) L"
  have nn: "\<forall>x. Some x \<in> set ?vs \<longrightarrow> 0 \<le> x" using assms(2) by (auto simp: micro_price_def)
  have lp: "map snd (lane_prices L) = map (map_option js_int) ?vs" by (simp add: lane_prices_def)
  have list_price: "minKnown (map snd (lane_prices L)) = (if known_values ?vs = [] then None else Some (js_int (Min (set (known_values ?vs)))))"
    unfolding lp by (rule minKnown_ints [OF nn])
  have pay_pos: "\<forall>x. Some x \<in> set (map (lane_pay c) L) \<longrightarrow> 0 \<le> x"
  proof (intro allI impI)
    fix x assume "Some x \<in> set (map (lane_pay c) L)"
    then obtain l n where "l \<in> set L" "snd l = Some n" "x = (if covers c (fst l) then repriced_int c n else n)"
      unfolding set_map image_iff lane_pay_iff by blast
    then show "0 \<le> x" using assms(2) promoEffectiveMicro_int(2) [OF chip, of n] by (auto simp: micro_price_def)
  qed
  have pay: "minKnown (map (payable chip) (lane_prices L)) =
      (if known_values (map (lane_pay c) L) = [] then None else Some (js_int (Min (set (known_values (map (lane_pay c) L))))))"
    unfolding Some payable_lanes [OF chip assms(2)] by (rule minKnown_ints [OF pay_pos])
  have same: "known_values (map (lane_pay c) L) = [] \<longleftrightarrow> known_values ?vs = []"
    by (simp add: known_values_def List.map_filter_def filter_empty_conv lane_pay_def)
  have covered: "minKnown (map snd (filter (\<lambda>l. covers c (fst l)) (lane_prices L))) =
      (if known_values (map snd ?cov) = [] then None else Some (js_int (Min (set (known_values (map snd ?cov))))))"
  proof -
    have eq: "map snd (filter (\<lambda>l. covers c (fst l)) (lane_prices L)) = map (map_option js_int) (map snd ?cov)"
      by (simp add: lane_prices_def filter_map o_def)
    have "\<forall>x. Some x \<in> set (map snd ?cov) \<longrightarrow> 0 \<le> x" using nn by auto
    then show ?thesis unfolding eq by (rule minKnown_ints)
  qed
  show ?thesis
  proof (cases "known_values ?vs = []")
    case True
    then show ?thesis using Some list_price pay same by (simp add: promoEffectivePrice_def Let_def)
  next
    case False
    note best = best_payable [OF chip assms(2) False]
    have S: "0 \<le> Min (set (known_values ?vs))" "micro_price (Min (set (known_values ?vs)))"
    proof -
      have "Min (set (known_values ?vs)) \<in> set (known_values ?vs)" using False by simp
      then show "0 \<le> Min (set (known_values ?vs))" "micro_price (Min (set (known_values ?vs)))"
        using nn assms(2) by (auto simp: in_known_values image_iff)
    qed
    show ?thesis
    proof (cases "chip_providers c = []")
      case True
      then have all: "filter (\<lambda>l. covers c (fst l)) L = L" by (simp add: covers_def)
      have "min (Min (set (known_values ?vs))) (repriced_int c (Min (set (known_values ?vs)))) = repriced_int c (Min (set (known_values ?vs)))"
        using promoEffectiveMicro_int(3) [OF chip S(2)] by (rule min_absorb2)
      then show ?thesis using Some True False best list_price pay same promoEffectiveMicro_int(1) [OF chip S(2)]
        by (simp add: promoEffectivePrice_def Let_def all del: Min_le_iff)
    next
      case scoped: False
      then have cov: "(\<lambda>l. fst l \<in> set (chip_providers c)) = (\<lambda>l. covers c (fst l :: string))" for l by (simp add: covers_def)
      let ?C = "known_values (map snd ?cov)"
      show ?thesis
      proof (cases "?C = []")
        case True
        then show ?thesis using Some scoped False best list_price pay same covered
          by (simp add: promoEffectivePrice_def Let_def promoEffectiveMicro_def covers_def split: promo_chip.split)
      next
        case known: False
        then have "Min (set ?C) \<in> set ?C" by simp
        then have C: "micro_price (Min (set ?C))" using assms(2) by (auto simp: in_known_values image_iff)
        show ?thesis using Some scoped False known best list_price pay same covered promoEffectiveMicro_int [OF chip C] S(1)
          by (simp add: promoEffectivePrice_def Let_def covers_def js_min_int)
      qed
    qed
  qed
qed


section \<open>The chips of the whole catalog\<close>

lemma map_of_update [simp]: "map_of (AList.update k v m) = (map_of m)(k \<mapsto> v)"
  by (rule update_conv')

definition promo_list :: "(string, model_promotion list) jsmap \<Rightarrow> string \<Rightarrow> model_promotion list" where
  "promo_list m slug = (case map_of m slug of Some ps \<Rightarrow> ps | None \<Rightarrow> [])"

definition slugs_wf :: "(string, model_promotion list) jsmap \<Rightarrow> bool" where
  "slugs_wf m \<longleftrightarrow> distinct (map fst m)"

lemma add_promo_list: "promo_list (add_promo p m k) slug = promo_list m slug @ (if k = slug then [p] else [])"
  by (auto simp: promo_list_def add_promo_def split: option.splits)

lemma add_promo_wf: "slugs_wf m \<Longrightarrow> slugs_wf (add_promo p m k)"
  by (auto simp: slugs_wf_def add_promo_def distinct_update split: option.splits)

lemma add_promos:
  "slugs_wf m \<Longrightarrow> slugs_wf (foldl (add_promo p) m ks)
    \<and> promo_list (foldl (add_promo p) m ks) slug = promo_list m slug @ replicate (count_list ks slug) p"
proof (induction ks arbitrary: m)
  case (Cons k ks)
  then show ?case using Cons.IH [OF add_promo_wf [OF Cons.prems]] by (simp add: add_promo_list replicate_app_Cons_same)
qed simp

lemma distinct_count: "distinct xs \<Longrightarrow> count_list xs x = (if x \<in> set xs then 1 else 0)"
  by (induction xs) auto

lemma all_promos:
  "slugs_wf m \<Longrightarrow> \<forall>p\<in>set ps. distinct (mp_slugs p) \<Longrightarrow> slugs_wf (foldl (\<lambda>m promo. foldl (add_promo promo) m (mp_slugs promo)) m ps)
    \<and> promo_list (foldl (\<lambda>m promo. foldl (add_promo promo) m (mp_slugs promo)) m ps) slug
        = promo_list m slug @ filter (\<lambda>p. slug \<in> set (mp_slugs p)) ps"
proof (induction ps arbitrary: m)
  case (Cons p ps)
  let ?m = "foldl (add_promo p) m (mp_slugs p)"
  have c: "count_list (mp_slugs p) slug = (if slug \<in> set (mp_slugs p) then 1 else 0)"
    by (rule distinct_count) (use Cons.prems(2) in simp)
  have m: "slugs_wf ?m" "promo_list ?m slug = promo_list m slug @ (if slug \<in> set (mp_slugs p) then [p] else [])"
    using add_promos [OF Cons.prems(1), of p "mp_slugs p" slug] c by auto
  then show ?case using Cons.IH [OF m(1)] Cons.prems(2) by simp
qed simp

lemma chips_fold:
  "distinct (map fst m) \<Longrightarrow> map_of (foldl (\<lambda>chips (slug, promos). case rankPromosForSlug promos of Some c \<Rightarrow> map_set slug c chips | None \<Rightarrow> chips) chips m) slug
     = (case map_of m slug of
          Some ps \<Rightarrow> (case rankPromosForSlug ps of Some c \<Rightarrow> Some c | None \<Rightarrow> map_of chips slug)
        | None \<Rightarrow> map_of chips slug)"
proof (induction m arbitrary: chips)
  case (Cons x m)
  obtain k ps where x: "x = (k, ps)" by force
  have "map_of m k = None" using Cons.prems x by (simp add: map_of_eq_None_iff)
  then show ?case using Cons x by (auto split: option.splits)
qed simp

text \<open>
  The chips computed once for the whole catalog are the ones each model's own promotions give: looking
  a model up finds what ranking the promotions that name it finds, and nothing for a model none names.
\<close>

theorem chips_by_slug_are_the_ranked_ones:
  assumes "\<forall>p\<in>set promotions. distinct (mp_slugs p)"
  shows "map_get (promoChipsBySlug promotions) slug = rankPromosForSlug (filter (\<lambda>p. slug \<in> set (mp_slugs p)) promotions)"
proof -
  let ?m = "promosBySlug promotions"
  have "slugs_wf []" by (simp add: slugs_wf_def)
  then have m: "slugs_wf ?m" "promo_list ?m slug = filter (\<lambda>p. slug \<in> set (mp_slugs p)) promotions"
    using all_promos [of "[]" promotions slug] assms by (auto simp: promosBySlug_def promo_list_def)
  have e: "rankPromosForSlug [] = None" by (simp add: rankPromosForSlug_def first_by_def sort_by_def)
  have "map_of (promoChipsBySlug promotions) slug = (case map_of ?m slug of Some ps \<Rightarrow> rankPromosForSlug ps | None \<Rightarrow> None)"
    unfolding promoChipsBySlug_def using chips_fold [of ?m "[]" slug] m(1) by (auto simp: slugs_wf_def split: option.splits)
  also have "\<dots> = rankPromosForSlug (promo_list ?m slug)" by (auto simp: promo_list_def e split: option.split)
  finally show ?thesis unfolding m(2) .
qed

section \<open>Concrete promotions\<close>

definition sample_promos :: "model_promotion list" where
  "sample_promos =
     [\<lparr>mp_label = ''Spring'', mp_slugs = [''m1'', ''m2''], mp_display_order = 2, mp_free = False, mp_percent_off = js_int 50, mp_providers = [''bedrock'']\<rparr>,
      \<lparr>mp_label = ''Launch'', mp_slugs = [''m2''], mp_display_order = 9, mp_free = True, mp_percent_off = js_int 0, mp_providers = []\<rparr>]"

theorem promotion_precedence_witness:
  "filter mp_free (filter (\<lambda>p. ''m1'' \<in> set (mp_slugs p)) sample_promos) = []
   \<and> rankPromosForSlug (filter (\<lambda>p. ''m1'' \<in> set (mp_slugs p)) sample_promos) = Some (PercentChip (js_int 50) [''bedrock''])"
proof -
  let ?l = "filter (\<lambda>p. ''m1'' \<in> set (mp_slugs p)) sample_promos"
  have r: "rankPromosForSlug ?l = Some (PercentChip (js_int 50) [''bedrock''])" by code_simp
  have "\<forall>p\<in>set ?l. js_is_finite (mp_percent_off p)" by (simp add: sample_promos_def js_int_def)
  from promotion_precedence [OF this] show ?thesis unfolding r by (simp add: filter_empty_conv)
qed

definition sample_lanes :: "(string \<times> int option) list" where
  "sample_lanes = [(''openai'', Some 300), (''bedrock'', Some 500), (''azure_openai'', None)]"

theorem effective_price_is_the_best_payable_witness:
  "promoEffectivePrice (Some (PercentChip (js_int 50) [''bedrock''])) (lane_prices sample_lanes) = (Some (js_int 300), Some (js_int 250))"
proof -
  let ?c = "PercentChip (js_int 50) [''bedrock'']"
  have "case Some ?c of Some c \<Rightarrow> discount_chip c | None \<Rightarrow> True" by (simp add: discount_chip_def js_int_def)
  moreover have "\<forall>l\<in>set sample_lanes. \<forall>n. snd l = Some n \<longrightarrow> micro_price n" by (simp add: sample_lanes_def micro_price_def)
  ultimately have "promoEffectivePrice (Some ?c) (lane_prices sample_lanes)
      = (minKnown (map snd (lane_prices sample_lanes)), minKnown (map (payable (Some ?c)) (lane_prices sample_lanes)))"
    by (rule effective_price_is_the_best_payable)
  moreover have "minKnown (map snd (lane_prices sample_lanes)) = Some (js_int 300)" by code_simp
  moreover have "minKnown (map (payable (Some ?c)) (lane_prices sample_lanes)) = Some (js_int 250)" by code_simp
  ultimately show ?thesis by simp
qed

theorem chips_by_slug_are_the_ranked_ones_witness:
  "map_get (promoChipsBySlug sample_promos) ''m2'' = Some (FreeChip [])"
proof -
  have "\<forall>p\<in>set sample_promos. distinct (mp_slugs p)" by (simp add: sample_promos_def)
  from chips_by_slug_are_the_ranked_ones [OF this, of "''m2''"]
  have "map_get (promoChipsBySlug sample_promos) ''m2'' = rankPromosForSlug (filter (\<lambda>p. ''m2'' \<in> set (mp_slugs p)) sample_promos)" .
  also have "\<dots> = Some (FreeChip [])" by code_simp
  finally show ?thesis .
qed

end
