(* ===== verification/Catalog_Views.thy ===== *)
theory Catalog_Views
  imports Catalog
begin

text \<open>
  What the catalog shows: the serving lanes of \<open>lib/models-catalog/serving.ts\<close>, the brand families of
  \<open>families.ts\<close>, and the filters of \<open>components/models-catalog/filtering.ts\<close>. A family rule's regular
  expression is the list of its alternatives, each a text with its word boundaries. A model's
  release date is a calendar date of the catalog's \<open>date\<close> column.
\<close>

section \<open>Serving lanes\<close>

datatype serving_lane = Experiential | Byok | Local

definition isHostServed :: "catalog_deployment \<Rightarrow> bool" where
  "isHostServed d \<longleftrightarrow> cd_billing_source d = ''host_managed'' \<and> cd_status d = ''active'' \<and> cd_owning_org_id d = None"

definition pinExperientialCloudFirst :: "catalog_deployment list \<Rightarrow> catalog_deployment list" where
  "pinExperientialCloudFirst ds =
     (let leading = filter (\<lambda>d. cd_provider d = ''experiential_cloud'') ds in
      if leading = [] then ds else leading @ filter (\<lambda>d. cd_provider d \<noteq> ''experiential_cloud'') ds)"

definition servingLane :: "catalog_deployment \<Rightarrow> serving_lane" where
  "servingLane d = (if isHostServed d then Experiential else if cd_provider d = ''local'' then Local else Byok)"

definition servedThroughExperiential :: "catalog_deployment list \<Rightarrow> bool" where
  "servedThroughExperiential ds = list_ex isHostServed ds"

definition requiresOwnKey :: "catalog_entry \<Rightarrow> bool" where
  "requiresOwnKey entry \<longleftrightarrow> 0 < length (ce_providers entry) \<and> \<not> servedThroughExperiential (ce_providers entry)"

section \<open>Families\<close>

text \<open>A pattern: a text, and whether a word boundary has to stand before and after it.\<close>

type_synonym pattern = "bool \<times> string \<times> bool"

definition word_char :: "char \<Rightarrow> bool" where
  "word_char c \<longleftrightarrow> is_alpha c \<or> is_digit c \<or> c = CHR ''_''"

definition boundary :: "char option \<Rightarrow> char option \<Rightarrow> bool" where
  "boundary a b \<longleftrightarrow> (case a of None \<Rightarrow> False | Some c \<Rightarrow> word_char c) \<noteq> (case b of None \<Rightarrow> False | Some c \<Rightarrow> word_char c)"

definition head_of :: "string \<Rightarrow> char option" where
  "head_of s = (case s of [] \<Rightarrow> None | c # _ \<Rightarrow> Some c)"

definition matches_here :: "pattern \<Rightarrow> char option \<Rightarrow> string \<Rightarrow> bool" where
  "matches_here p before s =
     (case p of (l, w, r) \<Rightarrow>
        startsWith s w \<and> (l \<longrightarrow> boundary before (head_of s))
        \<and> (r \<longrightarrow> boundary (if w = [] then before else Some (last w)) (head_of (drop (length w) s))))"

fun matches_from :: "pattern \<Rightarrow> char option \<Rightarrow> string \<Rightarrow> bool" where
  "matches_from p before [] = matches_here p before []"
| "matches_from p before (c # s) = (matches_here p before (c # s) \<or> matches_from p (Some c) s)"

definition rule_matches :: "pattern list \<Rightarrow> string \<Rightarrow> bool" where
  "rule_matches ps s = list_ex (\<lambda>p. matches_from p None s) ps"

abbreviation whole :: "string \<Rightarrow> pattern" where "whole w \<equiv> (True, w, True)"
abbreviation opens :: "string \<Rightarrow> pattern" where "opens w \<equiv> (True, w, False)"
abbreviation inside :: "string \<Rightarrow> pattern" where "inside w \<equiv> (False, w, False)"

definition FAMILY_RULES :: "(string \<times> pattern list) list" where
  "FAMILY_RULES = [
     (''anthropic'', [whole ''claude'']), (''deepseek'', [opens ''deepseek'']),
     (''moonshot'', [whole ''kimi'', inside ''moonshot'']), (''zai'', [whole ''glm'', inside ''z-ai'', inside ''zhipu'']),
     (''qwen'', [opens ''qwen'', whole ''qwq'']), (''google'', [opens ''gemini'', inside ''gemma'']),
     (''nous'', [whole ''nous'']), (''meta'', [opens ''llama'', whole ''meta'']),
     (''mistral'', [inside ''mistral'', inside ''mixtral'', inside ''codestral'', inside ''devstral'', inside ''ministral'']),
     (''cohere'', [whole ''cohere'', inside ''command-r'', inside ''command-a'']), (''ai21'', [whole ''ai21'', inside ''jamba'']),
     (''jais'', [whole ''jais'']), (''stability'', [opens ''stable'', inside ''stability'', whole ''sd3'']),
     (''amazon'', [whole ''nova'', opens ''titan'', whole ''amazon'']), (''nvidia'', [inside ''nemotron'', whole ''nvidia'']),
     (''microsoft'', [opens ''phi'', whole ''mai'', inside ''mai-'', inside ''microsoft'']), (''minimax'', [inside ''minimax'']),
     (''baidu'', [whole ''ernie'', inside ''paddleocr'', whole ''baidu'']), (''bytedance'', [opens ''seed'', inside ''bytedance'']),
     (''writer'', [inside ''palmyra'', whole ''writer'']), (''voyage'', [whole ''voyage'']), (''luma'', [whole ''luma'']),
     (''twelvelabs'', [inside ''twelvelabs'', inside ''marengo'']), (''stepfun'', [inside ''stepfun'', whole ''step'']),
     (''upstage'', [whole ''solar'', inside ''upstage'']), (''sakana'', [whole ''sakana'']),
     (''allenai'', [opens ''molmo'', whole ''olmo'', inside ''allenai'']), (''xai'', [opens ''grok'']), (''blackforest'', [opens ''flux'']),
     (''thinkingmachines'', [whole ''inkling'']),
     (''openai'', [opens ''gpt'', whole ''codex'', whole ''o1'', whole ''o3'', whole ''o4'', inside ''dall-e'', inside ''dalle'',
        whole ''sora'', whole ''whisper'', whole ''davinci'', whole ''curie'', whole ''babbage'', whole ''ada'', inside ''text-embedding'',
        inside ''text-search'', inside ''text-similarity'', inside ''computer-use'', inside ''model-router'', inside ''aoai'']),
     (''fireworks'', [inside ''firefunction'', inside ''firesearch'', inside ''firellava''])]"

definition FAMILY_LABELS :: "(string \<times> string) list" where
  "FAMILY_LABELS = [(''anthropic'', ''Claude''), (''openai'', ''GPT''), (''google'', ''Gemini''), (''qwen'', ''Qwen''),
     (''deepseek'', ''DeepSeek''), (''moonshot'', ''Kimi''), (''meta'', ''Llama''), (''mistral'', ''Mistral''), (''zai'', ''GLM''),
     (''xai'', ''Grok''), (''cohere'', ''Cohere''), (''amazon'', ''Amazon''), (''microsoft'', ''Microsoft''), (''nvidia'', ''NVIDIA''),
     (''perplexity'', ''Perplexity''), (''nous'', ''Nous''), (''minimax'', ''MiniMax''), (''baidu'', ''Baidu''), (''bytedance'', ''ByteDance''),
     (''ai21'', ''AI21''), (''jais'', ''Jais''), (''stability'', ''Stability''), (''voyage'', ''Voyage''), (''writer'', ''Writer''),
     (''luma'', ''Luma''), (''twelvelabs'', ''TwelveLabs''), (''stepfun'', ''StepFun''), (''upstage'', ''Solar''), (''allenai'', ''Molmo''),
     (''blackforest'', ''FLUX''), (''thinkingmachines'', ''Thinking Machines''), (''fireworks'', ''Fireworks''), (''openrouter'', ''Other'')]"

definition upper_char :: "char \<Rightarrow> char" where
  "upper_char c = (let n = (of_char c :: nat) in if 97 \<le> n \<and> n \<le> 122 then char_of (n - 32) else c)"

definition labelFor :: "string \<Rightarrow> string" where
  "labelFor k = (case map_of FAMILY_LABELS k of Some l \<Rightarrow> l | None \<Rightarrow> map upper_char (take 1 k) @ drop 1 k)"

definition nameFamily :: "catalog_model \<Rightarrow> string \<times> string" where
  "nameFamily m =
     (let first = takeWhile (\<lambda>c. \<not> is_ws c) (trim (cm_display_name m)) in
      if first = '''' then (''other'', ''Other'') else (''name:'' @ toLowerCase first, first))"

definition family_haystack :: "catalog_model \<Rightarrow> string" where
  "family_haystack m = toLowerCase (cm_display_name m @ '' '' @ cm_slug m)"

definition familyForModel :: "catalog_model \<Rightarrow> string \<times> string" where
  "familyForModel m =
     (let icon = map_option trim (cm_icon m) in
      case (case icon of Some i \<Rightarrow> if i \<noteq> '''' then Some i else None | None \<Rightarrow> None) of
        Some i \<Rightarrow> (i, labelFor i)
      | None \<Rightarrow>
          (case first_where (\<lambda>rule. rule_matches (snd rule) (family_haystack m)) FAMILY_RULES of
             Some rule \<Rightarrow> (fst rule, labelFor (fst rule))
           | None \<Rightarrow> nameFamily m))"

definition modelFamily :: "catalog_entry \<Rightarrow> string \<times> string" where
  "modelFamily entry = familyForModel (ce_model entry)"

definition modelIconKey :: "catalog_model \<Rightarrow> string" where
  "modelIconKey m = fst (familyForModel m)"

definition PROPRIETARY_FAMILIES :: "string list" where
  "PROPRIETARY_FAMILIES = [''anthropic'', ''openai'', ''google'', ''xai'', ''amazon'', ''perplexity'']"

definition isSelfHostable :: "catalog_model \<Rightarrow> bool" where
  "isSelfHostable m \<longleftrightarrow> matches_from (whole ''gemma'') None (family_haystack m)
     \<or> \<not> List.member PROPRIETARY_FAMILIES (fst (familyForModel m))"

definition modelFamilyKey :: "catalog_entry \<Rightarrow> string" where
  "modelFamilyKey entry = fst (modelFamily entry)"

definition sameFamily :: "catalog_entry \<Rightarrow> catalog_entry \<Rightarrow> bool" where
  "sameFamily a b \<longleftrightarrow> modelFamilyKey a = modelFamilyKey b"

section \<open>Filters\<close>

definition COMPARE_LIMIT :: nat where "COMPARE_LIMIT = 4"

record filter_state =
  fs_query :: string
  fs_modalities :: "string list"
  fs_providers :: "string list"
  fs_params :: "string list"
  fs_category :: "string option"
  fs_minContext :: "jsnum option"
  fs_maxInputMicro :: "jsnum option"
  fs_discountsOnly :: bool
  fs_maxAgeDays :: "jsnum option"

definition EMPTY_FILTERS :: filter_state where
  "EMPTY_FILTERS = \<lparr>fs_query = '''', fs_modalities = [], fs_providers = [], fs_params = [], fs_category = None, fs_minContext = None,
     fs_maxInputMicro = None, fs_discountsOnly = False, fs_maxAgeDays = None\<rparr>"

definition countActiveFilters :: "filter_state \<Rightarrow> nat" where
  "countActiveFilters st =
     (if trim (fs_query st) = '''' then 0 else 1) + length (fs_modalities st) + length (fs_providers st) + length (fs_params st)
     + (if fs_category st = None then 0 else 1) + (if fs_minContext st = None then 0 else 1) + (if fs_maxInputMicro st = None then 0 else 1)
     + (if fs_discountsOnly st then 1 else 0) + (if fs_maxAgeDays st = None then 0 else 1)"

text \<open>\<open>new Date(`${date}T00:00:00Z`).getTime()\<close>\<close>

definition release_time :: "string \<Rightarrow> jsnum" where
  "release_time s = (case parse_day s of None \<Rightarrow> Nan | Some n \<Rightarrow> js_int (86400000 * n))"

definition catalog_haystack :: "catalog_entry \<Rightarrow> string" where
  "catalog_haystack entry =
     (let m = ce_model entry in
      toLowerCase (join_with '' '' ([cm_display_name m, cm_slug m, (case cm_category m of None \<Rightarrow> '''' | Some c \<Rightarrow> c)] @ cm_tags m
        @ map (\<lambda>d. providerLabel (cd_provider d)) (ce_providers entry) @ map cd_provider_model_id (ce_providers entry))))"

definition too_old :: "jsnum \<Rightarrow> filter_state \<Rightarrow> catalog_model \<Rightarrow> bool" where
  "too_old now st m =
     (case fs_maxAgeDays st of
        None \<Rightarrow> False
      | Some cap \<Rightarrow>
          (case cm_release_date m of
             None \<Rightarrow> True
           | Some date \<Rightarrow> js_lt cap (js_div (js_sub now (release_time date)) (js_int 86400000))))"

definition entryMatches :: "catalog_entry \<Rightarrow> filter_state \<Rightarrow> jsnum \<Rightarrow> bool" where
  "entryMatches entry st now =
     (let m = ce_model entry; q = toLowerCase (trim (fs_query st)) in
      if q \<noteq> '''' \<and> \<not> str_includes (catalog_haystack entry) q then False
      else if list_ex (\<lambda>x. \<not> List.member (cm_input_modalities m) x) (fs_modalities st) then False
      else if 0 < length (fs_providers st) \<and> \<not> list_ex (\<lambda>d. List.member (fs_providers st) (cd_provider d)) (ce_providers entry) then False
      else if list_ex (\<lambda>k. \<not> declared (cm_supported_params m) k) (fs_params st) then False
      else if fs_category st \<noteq> None \<and> cm_category m \<noteq> fs_category st then False
      else if (case fs_minContext st of None \<Rightarrow> False | Some c \<Rightarrow> (case cm_context_window m of None \<Rightarrow> True | Some w \<Rightarrow> js_lt w c)) then False
      else if (case fs_maxInputMicro st of None \<Rightarrow> False | Some c \<Rightarrow> (case cheapestInputMicro entry of None \<Rightarrow> True | Some p \<Rightarrow> js_lt c p)) then False
      else if fs_discountsOnly st \<and> \<not> list_ex hasCacheDiscount (ce_providers entry) then False
      else if too_old now st m then False
      else True)"

definition filterEntries :: "catalog_entry list \<Rightarrow> filter_state \<Rightarrow> jsnum \<Rightarrow> catalog_entry list" where
  "filterEntries entries st now = filter (\<lambda>e. entryMatches e st now) entries"

definition route_matches :: "filter_state \<Rightarrow> catalog_deployment \<Rightarrow> bool" where
  "route_matches st d \<longleftrightarrow> \<not> (0 < length (fs_providers st) \<and> \<not> List.member (fs_providers st) (cd_provider d))
     \<and> \<not> (fs_discountsOnly st \<and> \<not> hasCacheDiscount d)"

definition filterRoutes :: "catalog_entry list \<Rightarrow> filter_state \<Rightarrow> jsnum \<Rightarrow> (catalog_entry \<times> catalog_deployment) list" where
  "filterRoutes entries st now =
     concat (map (\<lambda>e. map (\<lambda>d. (e, d)) (filter (route_matches st) (pinExperientialCloudFirst (ce_providers e)))) (filterEntries entries st now))"

definition seen_once :: "string list \<Rightarrow> string list" where
  "seen_once xs = foldl (\<lambda>seen x. if List.member seen x then seen else seen @ [x]) [] xs"

definition catalogCategories :: "catalog_entry list \<Rightarrow> string list" where
  "catalogCategories entries = sort_by code_le (seen_once (known_values (map (\<lambda>e. cm_category (ce_model e)) entries)))"

definition catalogProviders :: "catalog_entry list \<Rightarrow> string list" where
  "catalogProviders entries = sort_by code_le (seen_once (concat (map (\<lambda>e. map cd_provider (ce_providers e)) entries)))"

definition throughputSortValue :: "catalog_entry \<Rightarrow> jsnum option" where
  "throughputSortValue entry = bestThroughput entry"


section \<open>The routes view\<close>

text \<open>\<open>experiential_cloud\<close> leads a model's routes, and nothing else moves: a filter commutes with the pinning.\<close>

definition cloud_route :: "catalog_deployment \<Rightarrow> bool" where
  "cloud_route d \<longleftrightarrow> cd_provider d = ''experiential_cloud''"

lemma pinned_eq: "pinExperientialCloudFirst ds = filter cloud_route ds @ filter (\<lambda>d. \<not> cloud_route d) ds"
proof (cases "filter cloud_route ds = []")
  case True
  then have "filter (\<lambda>d. \<not> cloud_route d) ds = ds" by (simp add: filter_empty_conv)
  then show ?thesis using True by (simp add: pinExperientialCloudFirst_def Let_def cloud_route_def [abs_def])
qed (simp add: pinExperientialCloudFirst_def Let_def cloud_route_def [abs_def])

lemma filter_pinned: "filter P (pinExperientialCloudFirst ds) = pinExperientialCloudFirst (filter P ds)"
  by (simp add: pinned_eq conj_commute)

lemma pinned_mset: "mset (pinExperientialCloudFirst ds) = mset ds"
  by (simp add: pinned_eq)

lemma set_pinned: "set (pinExperientialCloudFirst ds) = set ds"
  by (metis pinned_mset set_mset_mset)

lemma entryMatches_route:
  assumes "entryMatches e st now" and "ce_providers e \<noteq> []" and "fs_providers st = [] \<or> \<not> fs_discountsOnly st"
  shows "\<exists>d\<in>set (ce_providers e). route_matches st d"
proof -
  have m: "fs_providers st = [] \<or> list_ex (\<lambda>d. List.member (fs_providers st) (cd_provider d)) (ce_providers e)"
    "fs_discountsOnly st \<longrightarrow> list_ex hasCacheDiscount (ce_providers e)"
    using assms(1) by (auto simp: entryMatches_def Let_def split: if_splits)
  then show ?thesis using assms(2,3) by (cases "ce_providers e") (auto simp: route_matches_def list_ex_iff)
qed

text \<open>
  The routes view lists, for every model the filters keep and in the catalog's order, exactly its routes
  that pass the provider and discount filters, once each, the Experiential Cloud ones first and the rest in
  their order. A model of the models view that has routes has a row here, unless the provider and the
  discount filter are both set (then one route may satisfy the first and another the second).
\<close>

theorem routes_view_lists_the_matching_routes:
  "filterRoutes entries st now =
     concat (map (\<lambda>e. let ds = filter (route_matches st) (ce_providers e) in
                    map (Pair e) (filter cloud_route ds @ filter (\<lambda>d. \<not> cloud_route d) ds))
       (filter (\<lambda>e. entryMatches e st now) entries))
   \<and> (\<forall>e\<in>set (filterEntries entries st now). ce_providers e \<noteq> [] \<and> (fs_providers st = [] \<or> \<not> fs_discountsOnly st)
        \<longrightarrow> (\<exists>d\<in>set (ce_providers e). (e, d) \<in> set (filterRoutes entries st now)))"
proof
  show "filterRoutes entries st now =
     concat (map (\<lambda>e. let ds = filter (route_matches st) (ce_providers e) in
                    map (Pair e) (filter cloud_route ds @ filter (\<lambda>d. \<not> cloud_route d) ds))
       (filter (\<lambda>e. entryMatches e st now) entries))"
    by (simp only: filterRoutes_def filterEntries_def filter_pinned Let_def) (simp only: pinned_eq)
  have "\<exists>d\<in>set (ce_providers e). (e, d) \<in> set (filterRoutes entries st now)"
    if keeps: "e \<in> set (filterEntries entries st now)" "ce_providers e \<noteq> []" "fs_providers st = [] \<or> \<not> fs_discountsOnly st" for e
  proof -
    obtain d where "d \<in> set (ce_providers e)" "route_matches st d"
      using entryMatches_route [of e st now] keeps unfolding filterEntries_def set_filter mem_Collect_eq by blast
    then show ?thesis using keeps(1) by (auto simp: filterRoutes_def filterEntries_def filter_pinned set_pinned)
  qed
  then show "\<forall>e\<in>set (filterEntries entries st now). ce_providers e \<noteq> [] \<and> (fs_providers st = [] \<or> \<not> fs_discountsOnly st)
        \<longrightarrow> (\<exists>d\<in>set (ce_providers e). (e, d) \<in> set (filterRoutes entries st now))" by blast
qed

section \<open>The filter menus\<close>

lemma set_seen_once: "set (seen_once xs) = set xs" and distinct_seen_once: "distinct (seen_once xs)"
proof -
  have "set (foldl (\<lambda>seen x. if List.member seen x then seen else seen @ [x]) acc xs) = set acc \<union> set xs
      \<and> (distinct acc \<longrightarrow> distinct (foldl (\<lambda>seen x. if List.member seen x then seen else seen @ [x]) acc xs))" for acc
    by (induction xs arbitrary: acc) auto
  then show "set (seen_once xs) = set xs" "distinct (seen_once xs)" by (simp_all add: seen_once_def)
qed

lemma in_catalogProviders: "p \<in> set (catalogProviders entries) \<longleftrightarrow> (\<exists>e\<in>set entries. \<exists>d\<in>set (ce_providers e). cd_provider d = p)"
  by (auto simp: catalogProviders_def set_sort_by set_seen_once)

lemma in_catalogCategories: "c \<in> set (catalogCategories entries) \<longleftrightarrow> (\<exists>e\<in>set entries. cm_category (ce_model e) = Some c)"
  unfolding catalogCategories_def set_sort_by set_seen_once in_known_values set_map image_iff by (metis (no_types))

lemma trim_empty [simp]: "trim [] = []"
  by (simp add: trim_def trim_start_def)

lemma entryMatches_provider: "entryMatches e (EMPTY_FILTERS\<lparr>fs_providers := [p]\<rparr>) now \<longleftrightarrow> (\<exists>d\<in>set (ce_providers e). cd_provider d = p)"
  by (auto simp: entryMatches_def EMPTY_FILTERS_def too_old_def toLowerCase_def Let_def list_ex_iff)

lemma entryMatches_category: "entryMatches e (EMPTY_FILTERS\<lparr>fs_category := Some c\<rparr>) now \<longleftrightarrow> cm_category (ce_model e) = Some c"
  by (auto simp: entryMatches_def EMPTY_FILTERS_def too_old_def toLowerCase_def Let_def list_ex_iff)

text \<open>
  The filter menus are exact: the providers and categories they offer are sorted and without repeats, each
  offered one, chosen alone, finds at least one model, and one that is not offered would find none.
\<close>

theorem filter_menus_are_exact:
  "(p \<in> set (catalogProviders entries) \<longleftrightarrow> filterEntries entries (EMPTY_FILTERS\<lparr>fs_providers := [p]\<rparr>) now \<noteq> [])
   \<and> (c \<in> set (catalogCategories entries) \<longleftrightarrow> filterEntries entries (EMPTY_FILTERS\<lparr>fs_category := Some c\<rparr>) now \<noteq> [])
   \<and> distinct (catalogProviders entries) \<and> sorted_wrt code_le (catalogProviders entries)
   \<and> distinct (catalogCategories entries) \<and> sorted_wrt code_le (catalogCategories entries)"
  unfolding in_catalogProviders in_catalogCategories filterEntries_def filter_empty_conv entryMatches_provider entryMatches_category
  by (simp add: catalogProviders_def catalogCategories_def distinct_sort_by distinct_seen_once by_code.sort_sorted)

section \<open>Serving lanes\<close>

text \<open>A model needs the caller's own key exactly when it has routes and none of them is an Experiential lane.\<close>

lemma requiresOwnKey_lanes:
  "requiresOwnKey e \<longleftrightarrow> ce_providers e \<noteq> [] \<and> (\<forall>d\<in>set (ce_providers e). servingLane d \<noteq> Experiential)"
  by (auto simp: requiresOwnKey_def servedThroughExperiential_def servingLane_def list_ex_iff)

section \<open>Concrete catalogs\<close>

definition sonar :: catalog_model where
  "sonar = \<lparr>cm_id = ''m1'', cm_slug = ''sonar-reasoning-pro'', cm_display_name = ''Sonar Reasoning Pro'', cm_icon = None,
     cm_release_date = Some ''2025-03-07'', cm_context_window = Some (js_int 128000), cm_max_output_tokens = None,
     cm_input_modalities = [''text'', ''image''], cm_supported_params = [], cm_category = Some ''chat'', cm_tags = []\<rparr>"

definition plain_route :: "string \<Rightarrow> int \<Rightarrow> int \<Rightarrow> catalog_deployment" where
  "plain_route p i c = \<lparr>cd_provider = p, cd_provider_model_id = ''sonar'', cd_owning_org_id = None, cd_billing_source = ''host_managed'',
     cd_input_micro = Some (js_int i), cd_cached_input_micro = Some (js_int c), cd_output_micro = Some (js_int i),
     cd_uptime_30d = None, cd_throughput_tps = None, cd_status = ''active''\<rparr>"

definition sample_entry :: catalog_entry where
  "sample_entry = \<lparr>ce_model = sonar, ce_providers = [plain_route ''openrouter'' 20 20, plain_route ''experiential_cloud'' 30 10]\<rparr>"

lemma routes_view_witness:
  "filterRoutes [sample_entry] EMPTY_FILTERS (js_int 0) \<noteq> []"
proof -
  have "filterEntries [sample_entry] EMPTY_FILTERS (js_int 0) = [sample_entry]" "ce_providers sample_entry \<noteq> []"
    "fs_providers EMPTY_FILTERS = []" by code_simp+
  then show ?thesis
    using routes_view_lists_the_matching_routes [of "[sample_entry]" EMPTY_FILTERS "js_int 0"] by force
qed

text \<open>With both filters set, a model of the models view can be missing from the routes view.\<close>

lemma both_filters_empty_the_routes_view:
  "filterEntries [sample_entry] (EMPTY_FILTERS\<lparr>fs_providers := [''openrouter''], fs_discountsOnly := True\<rparr>) (js_int 0) = [sample_entry]
   \<and> filterRoutes [sample_entry] (EMPTY_FILTERS\<lparr>fs_providers := [''openrouter''], fs_discountsOnly := True\<rparr>) (js_int 0) = []"
  by code_simp

text \<open>
  A Sonar model without an icon is filed under its name, not under \<open>perplexity\<close>, which no rule of the list
  yields; so it counts as self-hostable although its family is listed as proprietary.
\<close>

lemma sonar_counts_as_self_hostable:
  "familyForModel sonar = (''name:sonar'', ''Sonar'') \<and> isSelfHostable sonar
   \<and> List.member PROPRIETARY_FAMILIES ''perplexity'' \<and> \<not> list_ex (\<lambda>r. fst r = ''perplexity'') FAMILY_RULES"
  by code_simp

end
