(* ===== verification/Model_Params.thy ===== *)
theory Model_Params
  imports Playground Catalog
begin

text \<open>
  The parameter rail of the chat playground, \<open>lib/playground/model-params.ts\<close>: the controls a catalog model
  offers, the request parameters they build, the attachments it takes and the cost of one answer. The
  theorem at the end composes the rail with the allowlist of the chat route.
\<close>

section \<open>The rail\<close>

datatype param_control =
  Temperature | Top_p | Max_tokens | Reasoning_effort | Seed | Stop | Tools | Response_format

datatype reasoning_level = Low | Medium | High

fun effort_text :: "reasoning_level \<Rightarrow> string" where
  "effort_text Low = ''low''"
| "effort_text Medium = ''medium''"
| "effort_text High = ''high''"

record param_state =
  ps_temperature :: "jsnum option"
  ps_topP :: "jsnum option"
  ps_maxTokens :: string
  ps_reasoningEffort :: "reasoning_level option"
  ps_seed :: string
  ps_stop :: string
  ps_toolsJson :: string
  ps_jsonMode :: bool

definition emptyParamState :: param_state where
  "emptyParamState = \<lparr>ps_temperature = None, ps_topP = None, ps_maxTokens = '''', ps_reasoningEffort = None,
     ps_seed = '''', ps_stop = '''', ps_toolsJson = '''', ps_jsonMode = False\<rparr>"

definition only_if :: "bool \<Rightarrow> 'a list \<Rightarrow> 'a list" where
  "only_if b xs = (if b then xs else [])"

definition availableControls :: "catalog_model \<Rightarrow> param_control list" where
  "availableControls model =
     (let params = cm_supported_params model in
      only_if (map_of params ''temperature'' \<noteq> Some (JBool False)) [Temperature]
      @ only_if (declared params ''top_p'') [Top_p]
      @ [Max_tokens]
      @ only_if (declared params ''reasoning'') [Reasoning_effort]
      @ only_if (declared params ''seed'') [Seed]
      @ only_if (declared params ''stop'') [Stop]
      @ only_if (declared params ''tools'') [Tools]
      @ only_if (declared params ''response_format'' \<or> declared params ''structured_outputs'') [Response_format])"

section \<open>The request parameters\<close>

definition offered :: "catalog_model \<Rightarrow> param_control \<Rightarrow> bool" where
  "offered model c \<longleftrightarrow> c \<in> set (availableControls model)"

definition number_param :: "string \<Rightarrow> jsnum option \<Rightarrow> (string \<times> json) list" where
  "number_param k v = (case v of None \<Rightarrow> [] | Some x \<Rightarrow> [(k, JNum x)])"

definition max_tokens_param :: "catalog_model \<Rightarrow> param_state \<Rightarrow> string + (string \<times> json) list" where
  "max_tokens_param model st =
     (if offered model Max_tokens \<and> trim (ps_maxTokens st) \<noteq> '''' then
        (let parsed = parseInt10 (ps_maxTokens st) in
         if \<not> js_is_integer parsed \<or> js_lt parsed (js_int 1) then Inl ''Max tokens must be a positive integer.''
         else Inr [(''max_tokens'', JNum (js_min parsed (case cm_max_output_tokens model of None \<Rightarrow> js_int 32768 | Some cap \<Rightarrow> cap)))])
      else Inr [])"

definition seed_param :: "catalog_model \<Rightarrow> param_state \<Rightarrow> string + (string \<times> json) list" where
  "seed_param model st =
     (if offered model Seed \<and> trim (ps_seed st) \<noteq> '''' then
        (let parsed = parseInt10 (ps_seed st) in
         if \<not> js_is_integer parsed then Inl ''Seed must be an integer.'' else Inr [(''seed'', JNum parsed)])
      else Inr [])"

definition stop_sequences :: "string \<Rightarrow> string list" where
  "stop_sequences s = filter (\<lambda>e. e \<noteq> '''') (map trim (split_on (CHR '','') s))"

definition stop_param :: "catalog_model \<Rightarrow> param_state \<Rightarrow> (string \<times> json) list" where
  "stop_param model st =
     (if offered model Stop \<and> trim (ps_stop st) \<noteq> '''' then
        (let sequences = stop_sequences (ps_stop st) in only_if (0 < length sequences) [(''stop'', JArr (map JStr sequences))])
      else [])"

definition tools_param :: "catalog_model \<Rightarrow> param_state \<Rightarrow> string + (string \<times> json) list" where
  "tools_param model st =
     (if offered model Tools \<and> trim (ps_toolsJson st) \<noteq> '''' then
        (case json_parse (ps_toolsJson st) of
           None \<Rightarrow> Inl ''Tools must be valid JSON.''
         | Some (JArr vs) \<Rightarrow> Inr [(''tools'', JArr vs), (''tool_choice'', JStr ''auto'')]
         | Some _ \<Rightarrow> Inl ''Tools must be a JSON array of tool definitions.'')
      else Inr [])"

definition buildRequestParams :: "catalog_model \<Rightarrow> param_state \<Rightarrow> string + (string \<times> json) list" where
  "buildRequestParams model st =
     (case max_tokens_param model st of
        Inl e \<Rightarrow> Inl e
      | Inr tokens \<Rightarrow>
          (case seed_param model st of
             Inl e \<Rightarrow> Inl e
           | Inr seeds \<Rightarrow>
               (case tools_param model st of
                  Inl e \<Rightarrow> Inl e
                | Inr tools \<Rightarrow>
                    Inr (only_if (offered model Temperature) (number_param ''temperature'' (ps_temperature st))
                      @ only_if (offered model Top_p) (number_param ''top_p'' (ps_topP st))
                      @ tokens
                      @ (case ps_reasoningEffort st of
                           None \<Rightarrow> []
                         | Some r \<Rightarrow> only_if (offered model Reasoning_effort) [(''reasoning_effort'', JStr (effort_text r))])
                      @ seeds @ stop_param model st @ tools
                      @ only_if (offered model Response_format \<and> ps_jsonMode st) [(''response_format'', json_object_format)]))))"

section \<open>Attachments and cost\<close>

definition supportedAttachmentModalities :: "catalog_model \<Rightarrow> string list" where
  "supportedAttachmentModalities model =
     (let kinds = map toLowerCase (cm_input_modalities model) in
      only_if (List.member kinds ''image'') [''image'']
      @ only_if (List.member kinds ''pdf'' \<or> List.member kinds ''document'' \<or> List.member kinds ''file'') [''pdf''])"

definition estimateResponseCostUsd :: "catalog_entry \<Rightarrow> jsnum option \<Rightarrow> jsnum option \<Rightarrow> jsnum option" where
  "estimateResponseCostUsd entry promptTokens completionTokens =
     (case (cheapestInputMicro entry, cheapestOutputMicro entry, promptTokens, completionTokens) of
        (Some i, Some out, Some p, Some c) \<Rightarrow> Some (js_div (js_add (js_mult p i) (js_mult c out)) (js_int 1000000000000))
      | _ \<Rightarrow> None)"


section \<open>The rail and the allowlist\<close>

lemma map_of_only_if [simp]: "map_of (only_if b [(k, v)]) x = (if b \<and> x = k then Some v else None)"
  by (simp add: only_if_def)

lemma map_of_param:
  "x \<noteq> k \<Longrightarrow> map_of (number_param k v) x = None"
  "max_tokens_param m st = Inr ps \<Longrightarrow> x \<noteq> ''max_tokens'' \<Longrightarrow> map_of ps x = None"
  "seed_param m st = Inr ps \<Longrightarrow> x \<noteq> ''seed'' \<Longrightarrow> map_of ps x = None"
  "x \<noteq> ''stop'' \<Longrightarrow> map_of (stop_param m st) x = None"
  "tools_param m st = Inr ps \<Longrightarrow> x \<noteq> ''tools'' \<Longrightarrow> x \<noteq> ''tool_choice'' \<Longrightarrow> map_of ps x = None"
  by (auto simp: number_param_def max_tokens_param_def seed_param_def stop_param_def tools_param_def only_if_def Let_def
      split: option.splits if_splits json.splits)

lemma map_of_only_if_None: "map_of xs x = None \<Longrightarrow> map_of (only_if b xs) x = None"
  by (simp add: only_if_def)

lemma map_of_append_None:
  "map_of ys x = None \<Longrightarrow> map_of (xs @ ys) x = map_of xs x" "map_of xs x = None \<Longrightarrow> map_of (xs @ ys) x = map_of ys x"
  by (simp_all add: map_add_def split: option.splits)

lemma string_value_texts: "list_all string_value (map JStr ss)"
  by (induction ss) simp_all

text \<open>
  What the allowlist of the route leaves out of the parameters a rail built: a slider value outside its range, more
  than 200000 tokens, more than 8 stop texts, more than 64 tools (and then the choice of tools with them).
\<close>

definition over_limit :: "(string \<times> json) list \<Rightarrow> string \<Rightarrow> bool" where
  "over_limit params k \<longleftrightarrow>
     (case map_of params (if k = ''tool_choice'' then ''tools'' else k) of
        Some (JNum x) \<Rightarrow> k = ''temperature'' \<and> \<not> in_range 0 2 x \<or> k = ''top_p'' \<and> \<not> in_range 0 1 x
          \<or> k = ''max_tokens'' \<and> \<not> (js_is_integer x \<and> in_range 1 200000 x)
      | Some (JArr vs) \<Rightarrow> k = ''stop'' \<and> 8 < length vs \<or> (k = ''tools'' \<or> k = ''tool_choice'') \<and> 64 < length vs
      | _ \<Rightarrow> False)"

abbreviation kept :: "(string \<times> json) list \<Rightarrow> (string \<times> json) list \<Rightarrow> (string \<times> json) list" where
  "kept params ps \<equiv> filter (\<lambda>p. \<not> over_limit params (fst p)) ps"

lemma kept_tokens:
  assumes "max_tokens_param m st = Inr ps" and "map_of params ''max_tokens'' = map_of ps ''max_tokens''"
  shows "pick_number ''max_tokens'' (\<lambda>x. js_is_integer x \<and> in_range 1 200000 x) (JObj params) = kept params ps"
proof (cases "ps = []")
  case False
  then obtain n where "ps = [(''max_tokens'', JNum n)]"
    using assms(1) by (auto simp: max_tokens_param_def Let_def split: if_splits)
  then show ?thesis using assms(2) by (simp add: pick_number_def number_field_def over_limit_def)
qed (use assms(2) in \<open>simp add: pick_number_def number_field_def\<close>)

lemma kept_seed:
  assumes "seed_param m st = Inr ps" and "map_of params ''seed'' = map_of ps ''seed''"
  shows "pick_number ''seed'' js_is_integer (JObj params) = kept params ps"
  using assms by (auto simp: seed_param_def pick_number_def number_field_def over_limit_def Let_def split: if_splits)

lemma kept_number:
  assumes "map_of params k = map_of (only_if b (number_param k v)) k"
    and "\<And>x. map_of params k = Some (JNum x) \<Longrightarrow> over_limit params k \<longleftrightarrow> \<not> P x"
  shows "pick_number k P (JObj params) = kept params (only_if b (number_param k v))"
  using assms by (cases v; cases b) (simp_all add: pick_number_def number_field_def number_param_def only_if_def)

lemma kept_stop:
  assumes "map_of params ''stop'' = map_of (stop_param m st) ''stop''"
  shows "pick_stop (JObj params) = kept params (stop_param m st)"
  using assms string_value_texts
  by (auto simp: pick_stop_def stop_param_def over_limit_def only_if_def Let_def split: if_splits)

lemma kept_tools:
  assumes "tools_param m st = Inr ps" and "map_of params ''tools'' = map_of ps ''tools''"
  shows "pick_tools (JObj params) = kept params ps"
proof (cases "ps = []")
  case False
  then obtain vs where ps: "ps = [(''tools'', JArr vs), (''tool_choice'', JStr ''auto'')]"
    using assms(1) by (auto simp: tools_param_def split: if_splits option.splits json.splits)
  then have m: "map_of params ''tools'' = Some (JArr vs)" using assms(2) by simp
  then have "over_limit params ''tools'' \<longleftrightarrow> 64 < length vs" "over_limit params ''tool_choice'' \<longleftrightarrow> 64 < length vs"
    by (simp_all add: over_limit_def)
  then show ?thesis using m by (simp add: ps pick_tools_def)
qed (use assms(2) in \<open>simp add: pick_tools_def\<close>)


definition reasoner :: "int \<Rightarrow> catalog_model" where
  "reasoner cap = \<lparr>cm_id = ''m1'', cm_slug = ''reasoner'', cm_display_name = ''Reasoner'', cm_icon = None, cm_release_date = None,
     cm_context_window = Some (js_int 1000000), cm_max_output_tokens = Some (js_int cap), cm_input_modalities = [''text''],
     cm_supported_params = [(''reasoning'', JBool True), (''stop'', JBool True), (''temperature'', JBool False)], cm_category = None, cm_tags = []\<rparr>"

definition busy_rail :: param_state where
  "busy_rail = emptyParamState\<lparr>ps_temperature := Some (js_int 1), ps_maxTokens := ''300000'', ps_reasoningEffort := Some High,
     ps_stop := ''END, ,STOP''\<rparr>"

lemma built_for_the_reasoner:
  "buildRequestParams (reasoner 64000) busy_rail =
     Inr [(''max_tokens'', JNum (js_int 64000)), (''reasoning_effort'', JStr ''high''), (''stop'', JArr [JStr ''END'', JStr ''STOP''])]"
  by code_simp


text \<open>Nine stop texts: the rail builds them, the route leaves the parameter out, and the model stops at none of them.\<close>

lemma nine_stops_are_dropped:
  "buildRequestParams (reasoner 64000) (emptyParamState\<lparr>ps_stop := ''a,b,c,d,e,f,g,h,i''\<rparr>)
     = Inr [(''stop'', JArr (map JStr [''a'', ''b'', ''c'', ''d'', ''e'', ''f'', ''g'', ''h'', ''i'']))]
   \<and> pickServingParams (Some (JObj [(''stop'', JArr (map JStr [''a'', ''b'', ''c'', ''d'', ''e'', ''f'', ''g'', ''h'', ''i'']))])) = []"
  by code_simp

text \<open>
  A model that emits more than 200000 tokens: the rail caps the request at the model's own bound, and the
  route, which bounds it by 200000, leaves the parameter out instead of lowering it.
\<close>

lemma large_token_cap_is_dropped:
  "buildRequestParams (reasoner 384000) (emptyParamState\<lparr>ps_maxTokens := ''300000''\<rparr>) = Inr [(''max_tokens'', JNum (js_int 300000))]
   \<and> pickServingParams (Some (JObj [(''max_tokens'', JNum (js_int 300000))])) = []"
  by code_simp

section \<open>The estimate\<close>

lemma minKnown_None: "minKnown vs = None \<longleftrightarrow> (\<forall>v\<in>set vs. v = None)"
  by (auto simp: minKnown_def known_values_def Let_def List.map_filter_def filter_empty_conv)

text \<open>An answer has a cost exactly when both token counts and both prices are known: never free, never invented.\<close>

lemma estimate_unknown:
  "estimateResponseCostUsd entry p c = None \<longleftrightarrow> p = None \<or> c = None
     \<or> (\<forall>d\<in>set (ce_providers entry). cd_input_micro d = None) \<or> (\<forall>d\<in>set (ce_providers entry). cd_output_micro d = None)"
proof -
  have "cheapestInputMicro entry = None \<longleftrightarrow> (\<forall>d\<in>set (ce_providers entry). cd_input_micro d = None)"
    "cheapestOutputMicro entry = None \<longleftrightarrow> (\<forall>d\<in>set (ce_providers entry). cd_output_micro d = None)"
    by (simp_all add: cheapestInputMicro_def cheapestOutputMicro_def minKnown_None)
  then show ?thesis unfolding estimateResponseCostUsd_def by (auto split: option.splits)
qed

end
