(* ===== verification/Usage.thy ===== *)
theory Usage
  imports Calendar
begin

text \<open>
  The overview's figures, \<open>lib/gateway-usage.ts\<close>: rollup rows cut to a period, summed, laid out day by day,
  stacked by model and ranked. Counts and micro-dollars are integers (exact in a double below \<open>2^53\<close>);
  averages and percentages are doubles. The loop over days is a \<open>partial_function\<close>, so that it ends is a
  theorem; it answers \<open>None\<close> where the code throws a RangeError or does not end. \<open>localeCompare\<close> (the
  host's collation) is a parameter.
\<close>

section \<open>Rows, metrics and periods\<close>

record usage_metrics =
  um_requests :: int
  um_input :: int
  um_output :: int
  um_spend :: int

record usage_row =
  ur_day :: "string option"
  ur_alias :: "string option"
  ur_cell :: usage_metrics

datatype usage_metric = Spend | Tokens | Requests

datatype usage_period = Today | Last_7d | Last_30d | Last_1y | All_time

record day_range =
  dr_from :: "string option"
  dr_to :: string

definition USAGE_ROLLUP_LIMIT_CAP :: int where "USAGE_ROLLUP_LIMIT_CAP = 2000"

definition ZERO_METRICS :: usage_metrics where
  "ZERO_METRICS = \<lparr>um_requests = 0, um_input = 0, um_output = 0, um_spend = 0\<rparr>"

definition addMetrics :: "usage_metrics \<Rightarrow> usage_metrics \<Rightarrow> usage_metrics" where
  "addMetrics a b = \<lparr>um_requests = um_requests a + um_requests b, um_input = um_input a + um_input b,
     um_output = um_output a + um_output b, um_spend = um_spend a + um_spend b\<rparr>"

definition hasAnyMetric :: "usage_metrics \<Rightarrow> bool" where
  "hasAnyMetric c \<longleftrightarrow> 0 < um_requests c \<or> 0 < um_input c \<or> 0 < um_output c \<or> 0 < um_spend c"

fun metricValue :: "usage_metrics \<Rightarrow> usage_metric \<Rightarrow> int" where
  "metricValue c Spend = um_spend c"
| "metricValue c Tokens = um_input c + um_output c"
| "metricValue c Requests = um_requests c"

fun PERIOD_DAYS :: "usage_period \<Rightarrow> int option" where
  "PERIOD_DAYS Today = Some 1"
| "PERIOD_DAYS Last_7d = Some 7"
| "PERIOD_DAYS Last_30d = Some 30"
| "PERIOD_DAYS Last_1y = Some 365"
| "PERIOD_DAYS All_time = None"

definition periodRange :: "usage_period \<Rightarrow> string \<Rightarrow> day_range option" where
  "periodRange period today =
     (case PERIOD_DAYS period of
        None \<Rightarrow> Some \<lparr>dr_from = None, dr_to = today\<rparr>
      | Some k \<Rightarrow> map_option (\<lambda>d. \<lparr>dr_from = Some d, dr_to = today\<rparr>) (addDays today (- (k - 1))))"

text \<open>The outer option is the thrown RangeError, the inner one the code's \<open>null\<close>.\<close>

definition previousPeriodRange :: "usage_period \<Rightarrow> string \<Rightarrow> day_range option option" where
  "previousPeriodRange period today =
     (case PERIOD_DAYS period of
        None \<Rightarrow> Some None
      | Some k \<Rightarrow>
          Option.bind (addDays today (- k)) (\<lambda>last_day.
            map_option (\<lambda>d. Some \<lparr>dr_from = Some d, dr_to = last_day\<rparr>) (addDays last_day (- (k - 1)))))"

definition dayInRange :: "string \<Rightarrow> day_range \<Rightarrow> bool" where
  "dayInRange day rg \<longleftrightarrow> (case dr_from rg of None \<Rightarrow> True | Some d \<Rightarrow> code_le d day) \<and> code_le day (dr_to rg)"

definition rowsInRange :: "usage_row list \<Rightarrow> day_range \<Rightarrow> usage_row list" where
  "rowsInRange rows rg = filter (\<lambda>r. case ur_day r of None \<Rightarrow> False | Some d \<Rightarrow> dayInRange d rg) rows"

definition sumMetric :: "usage_row list \<Rightarrow> usage_metric \<Rightarrow> int" where
  "sumMetric rows metric = foldl (\<lambda>acc_total r. acc_total + metricValue (ur_cell r) metric) 0 rows"

definition deltaPercent :: "int \<Rightarrow> int \<Rightarrow> jsnum option" where
  "deltaPercent current previous =
     (if previous \<le> 0 then None
      else Some (js_mult (js_div (js_sub (js_int current) (js_int previous)) (js_int previous)) (js_int 100)))"

section \<open>Figures as text\<close>

text \<open>\<open>lib/format.ts\<close>, with \<open>toFixed(1).replace(/\.0$/, "")\<close>.\<close>

definition drop_point_zero :: "string \<Rightarrow> string" where
  "drop_point_zero s = (if 2 \<le> length s \<and> drop (length s - 2) s = ''.0'' then take (length s - 2) s else s)"

definition formatTokens :: "jsnum \<Rightarrow> string" where
  "formatTokens v =
     (if js_lt v (js_int 1000) then js_String v
      else if js_lt v (js_int 1000000) then drop_point_zero (toFixed 1 (js_div v (js_int 1000))) @ ''k''
      else drop_point_zero (toFixed 1 (js_div v (js_int 1000000))) @ ''M'')"

definition formatBytes :: "jsnum \<Rightarrow> string" where
  "formatBytes v =
     (if js_lt v (js_int 1024) then js_String v @ '' B''
      else if js_lt v (js_int (1024 * 1024)) then toFixed 1 (js_div v (js_int 1024)) @ '' KB''
      else if js_lt v (js_int (1024 * 1024 * 1024)) then toFixed 1 (js_div v (js_int (1024 * 1024))) @ '' MB''
      else toFixed 1 (js_div v (js_int (1024 * 1024 * 1024))) @ '' GB'')"

definition formatPercent :: "jsnum \<Rightarrow> string" where
  "formatPercent v = js_String (js_round (js_mult v (js_int 100))) @ ''%''"

definition formatScore :: "jsnum \<Rightarrow> string" where
  "formatScore v = toFixed 2 v"

fun formatMetricValue :: "usage_metric \<Rightarrow> int \<Rightarrow> string" where
  "formatMetricValue Spend v = formatCostUsd (Some (js_div (js_int v) (js_int 1000000)))"
| "formatMetricValue Tokens v = formatTokens (js_int v)"
| "formatMetricValue Requests v = toLocaleFixed 0 (js_int v)"

definition formatDeltaPercent :: "jsnum \<Rightarrow> string" where
  "formatDeltaPercent delta =
     (let rounded = js_round delta in (if js_le (js_int 0) rounded then ''+'' else '''') @ toLocaleFixed 0 rounded @ ''%'')"

section \<open>Totals by key\<close>

text \<open>The code's \<open>map.set(key, add(map.get(key) ?? zero, row))\<close> over a list of rows.\<close>

definition tally :: "('v \<Rightarrow> 'r \<Rightarrow> 'v) \<Rightarrow> 'v \<Rightarrow> ('r \<Rightarrow> 'k) \<Rightarrow> 'r list \<Rightarrow> ('k, 'v) jsmap" where
  "tally add z key rows =
     foldl (\<lambda>m r. map_set (key r) (add (case map_get m (key r) of None \<Rightarrow> z | Some v \<Rightarrow> v) r) m) [] rows"

text \<open>The day of a row that \<open>rowsInRange\<close> kept.\<close>

definition day_key :: "usage_row \<Rightarrow> string" where
  "day_key r = (case ur_day r of Some d \<Rightarrow> d | None \<Rightarrow> '''')"

definition alias_key :: "usage_row \<Rightarrow> string" where
  "alias_key r = (case ur_alias r of Some a \<Rightarrow> a | None \<Rightarrow> ''unknown'')"

section \<open>The daily series\<close>

partial_function (option) day_loop :: "string \<Rightarrow> string \<Rightarrow> string list option" where
  "day_loop day last_day =
     (if code_le day last_day
      then Option.bind (addDays day 1) (\<lambda>d. Option.bind (day_loop d last_day) (\<lambda>ds. Some (day # ds)))
      else Some [])"

declare day_loop.simps [code]

definition range_start :: "day_range \<Rightarrow> string list \<Rightarrow> string" where
  "range_start rg recorded =
     (case dr_from rg of
        Some d \<Rightarrow> d
      | None \<Rightarrow> (case sort_by code_le recorded of [] \<Rightarrow> dr_to rg | d # _ \<Rightarrow> d))"

definition dailySeries :: "usage_row list \<Rightarrow> day_range \<Rightarrow> usage_metric \<Rightarrow> (string \<times> int) list option" where
  "dailySeries rows rg metric =
     (let byDay = tally (\<lambda>v r. v + metricValue (ur_cell r) metric) 0 day_key (rowsInRange rows rg)
      in map_option (map (\<lambda>d. (d, case map_get byDay d of None \<Rightarrow> 0 | Some v \<Rightarrow> v)))
           (day_loop (range_start rg (map fst byDay)) (dr_to rg)))"

section \<open>Stacks by model\<close>

definition MAX_DAILY_MODEL_SERIES :: nat where "MAX_DAILY_MODEL_SERIES = 8"

definition OTHER_SERIES_KEY :: string where "OTHER_SERIES_KEY = '' other''"

type_synonym stack_series = "string \<times> usage_metrics list"

record model_stacks =
  ms_days :: "string list"
  ms_series :: "stack_series list"
  ms_totals :: "usage_metrics list"

definition spend_before :: "(string \<Rightarrow> string \<Rightarrow> bool) \<Rightarrow> string \<times> usage_metrics \<Rightarrow> string \<times> usage_metrics \<Rightarrow> bool" where
  "spend_before locale_le x y =
     (let a = snd x; b = snd y in
      um_spend b < um_spend a \<or> (um_spend a = um_spend b \<and> (um_requests b < um_requests a
        \<or> (um_requests a = um_requests b \<and> locale_le (fst x) (fst y)))))"

definition day_index :: "string list \<Rightarrow> (string, nat) jsmap" where
  "day_index days = foldl (\<lambda>m (d, i). map_set d i m) [] (zip days [0..<length days])"

definition add_cell :: "string list \<Rightarrow> stack_series list \<Rightarrow> usage_row \<Rightarrow> stack_series list" where
  "add_cell days series r =
     (case map_get (day_index days) (day_key r) of
        None \<Rightarrow> series
      | Some i \<Rightarrow> map (\<lambda>(k, detail). if k = alias_key r then (k, detail[i := addMetrics (detail ! i) (ur_cell r)]) else (k, detail)) series)"

definition model_series :: "string list \<Rightarrow> string list \<Rightarrow> usage_row list \<Rightarrow> stack_series list" where
  "model_series days named cells = foldl (add_cell days) (map (\<lambda>k. (k, map (\<lambda>_. ZERO_METRICS) days)) named) cells"

definition residual :: "usage_metrics \<Rightarrow> usage_metrics \<Rightarrow> usage_metrics" where
  "residual t n = \<lparr>um_requests = max 0 (um_requests t - um_requests n), um_input = max 0 (um_input t - um_input n),
     um_output = max 0 (um_output t - um_output n), um_spend = max 0 (um_spend t - um_spend n)\<rparr>"

definition stack_at :: "stack_series list \<Rightarrow> nat \<Rightarrow> usage_metrics" where
  "stack_at series i = foldl (\<lambda>acc_total s. addMetrics acc_total (snd s ! i)) ZERO_METRICS series"

definition other_detail :: "stack_series list \<Rightarrow> usage_metrics list \<Rightarrow> usage_metrics list" where
  "other_detail series totals = map (\<lambda>i. residual (totals ! i) (stack_at series i)) [0..<length totals]"

definition rank_models :: "(string \<Rightarrow> string \<Rightarrow> bool) \<Rightarrow> usage_row list \<Rightarrow> string list" where
  "rank_models locale_le rows = map fst (sort_by (spend_before locale_le) (tally (\<lambda>v r. addMetrics v (ur_cell r)) ZERO_METRICS alias_key rows))"

definition dailyModelStacks ::
  "(string \<Rightarrow> string \<Rightarrow> bool) \<Rightarrow> usage_row list \<Rightarrow> usage_row list \<Rightarrow> day_range \<Rightarrow> usage_row list option \<Rightarrow> nat \<Rightarrow> model_stacks option" where
  "dailyModelStacks locale_le dayRows modelDayRows rg rankRows maxSeries =
     (let totalsByDay = tally (\<lambda>v r. addMetrics v (ur_cell r)) ZERO_METRICS day_key (rowsInRange dayRows rg) in
      map_option (\<lambda>days.
        let totals = map (\<lambda>d. case map_get totalsByDay d of None \<Rightarrow> ZERO_METRICS | Some v \<Rightarrow> v) days;
            cells = rowsInRange modelDayRows rg;
            named = take maxSeries (rank_models locale_le (case rankRows of None \<Rightarrow> cells | Some rs \<Rightarrow> rs));
            series = model_series days named cells;
            other = other_detail series totals
        in \<lparr>ms_days = days, ms_series = series @ (if list_ex hasAnyMetric other then [(OTHER_SERIES_KEY, other)] else []), ms_totals = totals\<rparr>)
      (day_loop (range_start rg (map fst totalsByDay)) (dr_to rg)))"

section \<open>Rankings and activity\<close>

definition topGroups :: "(string \<Rightarrow> string \<Rightarrow> bool) \<Rightarrow> usage_row list \<Rightarrow> usage_metric \<Rightarrow> (usage_row \<Rightarrow> string) \<Rightarrow> nat \<Rightarrow> (string \<times> int) list" where
  "topGroups locale_le rows metric label k =
     take k (sort_by (\<lambda>a b. snd b < snd a \<or> (snd a = snd b \<and> locale_le (fst a) (fst b)))
       (filter (\<lambda>g. 0 < snd g) (tally (\<lambda>v r. v + metricValue (ur_cell r) metric) 0 label rows)))"

record activity_stats =
  as_longest :: nat
  as_perDay :: jsnum
  as_perWeek :: jsnum
  as_total :: int

definition activity_step :: "nat \<times> nat \<times> int \<Rightarrow> string \<times> int \<Rightarrow> nat \<times> nat \<times> int" where
  "activity_step acc point =
     (case acc of (longest, run, acc_total) \<Rightarrow>
        let run1 = (if 0 < snd point then run + 1 else 0) in (max longest run1, run1, acc_total + snd point))"

definition activityStats :: "(string \<times> int) list \<Rightarrow> activity_stats" where
  "activityStats series =
     (let (longest, run, acc_total) = foldl activity_step (0, 0, 0) series;
          perDay = js_div (js_int acc_total) (js_int (int (max (length series) 1)))
      in \<lparr>as_longest = longest, as_perDay = perDay, as_perWeek = js_mult perDay (js_int 7), as_total = acc_total\<rparr>)"


section \<open>Totals by key, as sums\<close>

lemma tally_get:
  "map_get (tally add z key rows) k = (if k \<in> key ` set rows then Some (foldl add z (filter (\<lambda>r. key r = k) rows)) else None)"
proof (induction rows rule: rev_induct)
  case (snoc r rows)
  have "tally add z key (rows @ [r]) =
      map_set (key r) (add (case map_get (tally add z key rows) (key r) of None \<Rightarrow> z | Some v \<Rightarrow> v) r) (tally add z key rows)"
    by (simp add: tally_def)
  moreover have "filter (\<lambda>q. key q = key r) rows = []" if "key r \<notin> key ` set rows"
    unfolding filter_empty_conv using that by (metis imageI)
  ultimately show ?case using snoc.IH by (cases "key r \<in> key ` set rows"; cases "k = key r") (simp_all add: update_conv')
qed (simp add: tally_def)

lemma tally_keys: "set (map fst (tally add z key rows)) = key ` set rows"
proof -
  have "k \<in> set (map fst (tally add z key rows)) \<longleftrightarrow> k \<in> key ` set rows" for k
    using tally_get [of add z key rows k] map_of_eq_None_iff [of "tally add z key rows" k] by (auto split: if_splits)
  then show ?thesis by blast
qed

lemma tally_distinct: "distinct (map fst (tally add z key rows))"
  by (induction rows rule: rev_induct) (simp_all add: tally_def distinct_update)

lemma foldl_sum: "foldl (\<lambda>v r. v + f r) a rows = a + sum_list (map f (rows :: 'r list) :: int list)"
  by (induction rows arbitrary: a) simp_all

lemma sumMetric_sum: "sumMetric rows m = (\<Sum>r\<leftarrow>rows. metricValue (ur_cell r) m)"
  by (simp add: sumMetric_def foldl_sum)

lemma tally_sum:
  fixes f :: "'r \<Rightarrow> int"
  shows "(case map_get (tally (\<lambda>v r. v + f r) 0 key rows) k of None \<Rightarrow> 0 | Some v \<Rightarrow> v) = (\<Sum>r\<leftarrow>filter (\<lambda>r. key r = k) rows. f r)"
proof (cases "k \<in> key ` set rows")
  case False
  then have "filter (\<lambda>r. key r = k) rows = []" by (auto simp: filter_empty_conv)
  then show ?thesis using False by (simp add: tally_get)
qed (simp add: tally_get foldl_sum)

section \<open>The loop over days\<close>

lemma day_loop_days:
  assumes "in_years a" and "in_years b" and "in_years (b + 1)"
  shows "day_loop (day_text a) (day_text b) = Some (map day_text [a..b])"
  using assms(1)
proof (induction "nat (b + 1 - a)" arbitrary: a)
  case 0
  then show ?case using assms(2) by (subst day_loop.simps) (simp add: day_text_le)
next
  case (Suc k)
  then have ab: "a \<le> b" by simp
  have "in_years (a + 1)" using in_years_between [OF Suc.prems assms(3)] ab by simp
  moreover have "k = nat (b + 1 - (a + 1))" using Suc.hyps(2) by linarith
  ultimately have "day_loop (day_text (a + 1)) (day_text b) = Some (map day_text [a + 1..b])" using Suc.hyps(1) by blast
  then show ?case using ab Suc.prems assms(2)
    by (subst day_loop.simps) (simp add: day_text_le addDays_text upto_rec1)
qed

text \<open>Rows whose day is a calendar date.\<close>

definition dated :: "usage_row list \<Rightarrow> bool" where
  "dated rows \<longleftrightarrow> (\<forall>r\<in>set rows. ur_day r = None \<or> (\<exists>n. in_years n \<and> ur_day r = Some (day_text n)))"

lemma in_range_days:
  assumes "in_years a" and "in_years b" and "in_years n"
  shows "dayInRange (day_text n) \<lparr>dr_from = Some (day_text a), dr_to = day_text b\<rparr> \<longleftrightarrow> a \<le> n \<and> n \<le> b"
  using assms by (simp add: dayInRange_def day_text_le)

lemma rows_of_day:
  "filter (\<lambda>r. day_key r = d) (rowsInRange rows rg) = filter (\<lambda>r. ur_day r = Some d \<and> dayInRange d rg) rows"
  unfolding rowsInRange_def filter_filter by (rule filter_cong) (auto simp: day_key_def split: option.splits)

lemma sum_over_days:
  fixes v :: int
  shows "(\<Sum>n\<leftarrow>[a..b]. if n = k then v else 0) = (if a \<le> k \<and> k \<le> b then v else 0)"
  by (simp add: sum_list_distinct_conv_sum_set sum.delta)

lemma sum_by_day:
  assumes "dated rows" and "in_years a" and "in_years b"
  shows "(\<Sum>n\<leftarrow>[a..b]. \<Sum>r\<leftarrow>filter (\<lambda>r. ur_day r = Some (day_text n)) rows. f r)
    = (\<Sum>r\<leftarrow>rowsInRange rows \<lparr>dr_from = Some (day_text a), dr_to = day_text b\<rparr>. f r :: int)"
  using assms(1)
proof (induction rows)
  case (Cons r rows)
  have IH: "(\<Sum>n\<leftarrow>[a..b]. \<Sum>r\<leftarrow>filter (\<lambda>r. ur_day r = Some (day_text n)) rows. f r)
    = (\<Sum>r\<leftarrow>rowsInRange rows \<lparr>dr_from = Some (day_text a), dr_to = day_text b\<rparr>. f r)"
    using Cons by (simp add: dated_def)
  show ?case
  proof (cases "ur_day r")
    case None
    then show ?thesis using IH by (simp add: rowsInRange_def)
  next
    case (Some d)
    then obtain k where k: "in_years k" "d = day_text k" using Cons.prems by (auto simp: dated_def)
    have "(\<Sum>n\<leftarrow>[a..b]. \<Sum>q\<leftarrow>filter (\<lambda>q. ur_day q = Some (day_text n)) (r # rows). f q)
      = (\<Sum>n\<leftarrow>[a..b]. (if n = k then f r else 0) + (\<Sum>q\<leftarrow>filter (\<lambda>q. ur_day q = Some (day_text n)) rows. f q))"
    proof (rule arg_cong [of _ _ sum_list], rule map_cong [OF refl])
      fix n assume "n \<in> set [a..b]"
      then have "in_years n" using in_years_between [OF assms(2,3)] by simp
      then show "(\<Sum>q\<leftarrow>filter (\<lambda>q. ur_day q = Some (day_text n)) (r # rows). f q)
        = (if n = k then f r else 0) + (\<Sum>q\<leftarrow>filter (\<lambda>q. ur_day q = Some (day_text n)) rows. f q)"
        using Some k by (simp add: day_text_eq)
    qed
    also have "\<dots> = (if a \<le> k \<and> k \<le> b then f r else 0) + (\<Sum>q\<leftarrow>rowsInRange rows \<lparr>dr_from = Some (day_text a), dr_to = day_text b\<rparr>. f q)"
      by (simp only: sum_list_addf sum_over_days IH)
    finally show ?thesis using Some k in_range_days [OF assms(2,3) k(1)] by (simp add: rowsInRange_def)
  qed
qed (simp add: rowsInRange_def)

lemma series_on_days:
  assumes "in_years a" and "in_years b" and "in_years (b + 1)"
    and "range_start rg (map fst (tally (\<lambda>v r. v + metricValue (ur_cell r) m) 0 day_key (rowsInRange rows rg))) = day_text a" and "dr_to rg = day_text b"
  shows "dailySeries rows rg m = Some (map (\<lambda>n. (day_text n, \<Sum>r\<leftarrow>filter (\<lambda>r. ur_day r = Some (day_text n) \<and> dayInRange (day_text n) rg) rows. metricValue (ur_cell r) m)) [a..b])"
  using assms by (simp add: dailySeries_def day_loop_days tally_sum rows_of_day)

lemma daily_series_total:
  assumes "in_years a" and "in_years b" and "in_years (b + 1)" and "dated rows"
  shows "\<exists>points. dailySeries rows \<lparr>dr_from = Some (day_text a), dr_to = day_text b\<rparr> m = Some points
    \<and> map fst points = map day_text [a..b]
    \<and> (\<forall>p\<in>set points. snd p = sumMetric (filter (\<lambda>r. ur_day r = Some (fst p)) rows) m)
    \<and> sum_list (map snd points) = sumMetric (rowsInRange rows \<lparr>dr_from = Some (day_text a), dr_to = day_text b\<rparr>) m"
proof -
  let ?rg = "\<lparr>dr_from = Some (day_text a), dr_to = day_text b\<rparr>"
  have "dayInRange (day_text n) ?rg" if "n \<in> set [a..b]" for n
    using in_range_days [OF assms(1,2)] in_years_between [OF assms(1,2)] that by simp
  then have "dailySeries rows ?rg m = Some (map (\<lambda>n. (day_text n, \<Sum>r\<leftarrow>filter (\<lambda>r. ur_day r = Some (day_text n)) rows. metricValue (ur_cell r) m)) [a..b])"
    using series_on_days [OF assms(1-3), of ?rg m rows] by (simp add: range_start_def cong: map_cong)
  then show ?thesis
    using sum_by_day [OF assms(4,1,2), of "\<lambda>r. metricValue (ur_cell r) m"] by (simp add: sumMetric_sum comp_def)
qed


text \<open>
  C40. For a range between two days, the daily series ends: it has one point per day from the first to the
  last, in order and without gaps, each the sum of that day's rows, and the points add up to the headline
  figure of the same range. A range that begins after it ends has no points.
\<close>

theorem daily_series_is_the_range:
  assumes "in_years a" and "in_years b" and "in_years (b + 1)" and "dated rows"
  shows "\<exists>points. dailySeries rows \<lparr>dr_from = Some (day_text a), dr_to = day_text b\<rparr> m = Some points
    \<and> map fst points = map day_text [a..b]
    \<and> (\<forall>p\<in>set points. snd p = sumMetric (filter (\<lambda>r. ur_day r = Some (fst p)) rows) m)
    \<and> sum_list (map snd points) = sumMetric (rowsInRange rows \<lparr>dr_from = Some (day_text a), dr_to = day_text b\<rparr>) m"
  using assms by (rule daily_series_total)

section \<open>Periods\<close>

lemma periodRange_days:
  "PERIOD_DAYS p = Some k \<Longrightarrow> in_years t \<Longrightarrow>
     periodRange p (day_text t) = Some \<lparr>dr_from = Some (day_text (t - (k - 1))), dr_to = day_text t\<rparr>"
  by (simp add: periodRange_def addDays_text algebra_simps)

lemma previousPeriodRange_days:
  "PERIOD_DAYS p = Some k \<Longrightarrow> in_years t \<Longrightarrow> in_years (t - k) \<Longrightarrow>
     previousPeriodRange p (day_text t) = Some (Some \<lparr>dr_from = Some (day_text (t - (2 * k - 1))), dr_to = day_text (t - k)\<rparr>)"
  by (simp add: previousPeriodRange_def addDays_text algebra_simps)

lemma period_length: "PERIOD_DAYS p = Some k \<Longrightarrow> 1 \<le> k"
  by (cases p) auto

text \<open>
  A period and the one its delta is measured against are equally long and next to each other: their
  series have the period's number of points each, and together they run over the days up to today
  without a gap or an overlap.
\<close>

theorem periods_are_adjacent:
  assumes "PERIOD_DAYS p = Some k" and "in_years t" and "in_years (t + 1)" and "in_years (t - (2 * k - 1))" and "dated rows"
  shows "\<exists>now before cur prev. periodRange p (day_text t) = Some now \<and> previousPeriodRange p (day_text t) = Some (Some before)
    \<and> dailySeries rows now m = Some cur \<and> dailySeries rows before m = Some prev
    \<and> length cur = nat k \<and> length prev = nat k
    \<and> map fst (prev @ cur) = map day_text [t - (2 * k - 1)..t]"
proof -
  have k: "1 \<le> k" using period_length [OF assms(1)] .
  have y: "in_years n" if "t - (2 * k - 1) \<le> n" "n \<le> t + 1" for n using in_years_between [OF assms(4,3)] that by simp
  have ys: "in_years (t - (k - 1))" "in_years (t - k)" "in_years (t - k + 1)" using k by (intro y; simp)+
  obtain cur where c: "dailySeries rows \<lparr>dr_from = Some (day_text (t - (k - 1))), dr_to = day_text t\<rparr> m = Some cur" "map fst cur = map day_text [t - (k - 1)..t]"
    using daily_series_total [OF ys(1) assms(2,3,5)] by blast
  obtain prev where p: "dailySeries rows \<lparr>dr_from = Some (day_text (t - (2 * k - 1))), dr_to = day_text (t - k)\<rparr> m = Some prev"
      "map fst prev = map day_text [t - (2 * k - 1)..t - k]"
    using daily_series_total [OF assms(4) ys(2,3) assms(5)] by blast
  have "[t - (2 * k - 1)..t] = [t - (2 * k - 1)..t - k] @ [t - k + 1..t]" using k by (intro upto_split2) auto
  moreover have "t - k + 1 = t - (k - 1)" by simp
  ultimately have "map fst (prev @ cur) = map day_text [t - (2 * k - 1)..t]" using c(2) p(2) by simp
  moreover have "length cur = nat k" "length prev = nat k"
    using arg_cong [OF c(2), of length] arg_cong [OF p(2), of length] by simp_all
  ultimately show ?thesis using periodRange_days [OF assms(1,2)] previousPeriodRange_days [OF assms(1,2) ys(2)] c(1) p(1) by blast
qed

section \<open>The longest streak\<close>

definition streak :: "(string \<times> int) list \<Rightarrow> nat \<Rightarrow> nat \<Rightarrow> bool" where
  "streak series i n \<longleftrightarrow> i + n \<le> length series \<and> (\<forall>j. i \<le> j \<and> j < i + n \<longrightarrow> 0 < snd (series ! j))"

lemma activity_fold:
  assumes "foldl activity_step (0, 0, 0) series = (longest, run, t)"
  shows "t = sum_list (map snd series) \<and> streak series (length series - run) run \<and> run \<le> length series
    \<and> (\<forall>i n. streak series i n \<and> i + n = length series \<longrightarrow> n \<le> run)
    \<and> (\<exists>i. streak series i longest) \<and> (\<forall>i n. streak series i n \<longrightarrow> n \<le> longest)"
  using assms
proof (induction series arbitrary: longest run t rule: rev_induct)
  case Nil
  then show ?case by (auto simp: streak_def)
next
  case (snoc p series)
  obtain l r u where f: "foldl activity_step (0, 0, 0) series = (l, r, u)" by (metis prod_cases3)
  note IH = snoc.IH [OF f]
  have step: "foldl activity_step (0, 0, 0) (series @ [p]) = activity_step (l, r, u) p" by (simp only: foldl_append f foldl_Cons foldl_Nil)
  have new: "activity_step (l, r, u) p = (longest, run, t)" using step snoc.prems by (simp only:)
  have now: "run = (if 0 < snd p then r + 1 else 0)" "longest = max l run" "t = u + snd p"
    using new by (auto simp: activity_step_def Let_def)
  have inner: "streak (series @ [p]) i n \<longleftrightarrow> streak series i n" if "i + n \<le> length series" for i n
    using that by (auto simp: streak_def nth_append)
  have outer: "streak (series @ [p]) i n \<longleftrightarrow> (n = 0 \<or> 0 < snd p \<and> streak series i (n - 1))" if "i + n = length series + 1" for i n
  proof (cases n)
    case (Suc k)
    then have "i + k = length series" using that by simp
    then show ?thesis unfolding Suc by (auto simp: streak_def nth_append less_Suc_eq all_conj_distrib)
  qed (use that in \<open>simp add: streak_def\<close>)
  have last_run: "\<forall>i n. streak (series @ [p]) i n \<and> i + n = length (series @ [p]) \<longrightarrow> n \<le> run"
  proof (intro allI impI, elim conjE)
    fix i n assume s: "streak (series @ [p]) i n" "i + n = length (series @ [p])"
    then have "n = 0 \<or> 0 < snd p \<and> streak series i (n - 1)" using outer by simp
    moreover have "i + (n - 1) = length series" if "n \<noteq> 0" using s(2) that by simp
    ultimately show "n \<le> run" using IH now(1) by (cases n) auto
  qed
  have run: "streak (series @ [p]) (length (series @ [p]) - run) run" "run \<le> length (series @ [p])"
    using IH now(1) outer [of "length series - r" "r + 1"] by (auto simp: streak_def)
  have all: "n \<le> longest" if s: "streak (series @ [p]) i n" for i n
  proof (cases "i + n = length (series @ [p])")
    case True
    then have "n \<le> run" using last_run s by blast
    then show ?thesis using now(2) by simp
  next
    case False
    then have "streak series i n" using s inner [of i n] by (simp add: streak_def)
    then have "n \<le> l" using IH by blast
    then show ?thesis using now(2) by simp
  qed
  obtain i where i: "streak series i l" using IH by blast
  then have "streak (series @ [p]) i l" using inner [of i l] by (simp add: streak_def)
  then have "\<exists>i. streak (series @ [p]) i longest" using run(1) now(2) by (auto simp: max_def)
  then show ?case using IH now(3) run last_run all by auto
qed

text \<open>
  The activity figures of a series: the longest streak is the length of a longest block of consecutive days
  with activity, and the total is the sum of its points.
\<close>

theorem longest_streak_is_longest:
  "(\<exists>i. streak series i (as_longest (activityStats series)))
   \<and> (\<forall>i n. streak series i n \<longrightarrow> n \<le> as_longest (activityStats series))
   \<and> as_total (activityStats series) = sum_list (map snd series)"
proof -
  obtain l r t where f: "foldl activity_step (0, 0, 0) series = (l, r, t)" by (metis prod_cases3)
  show ?thesis using activity_fold [OF f] by (simp add: activityStats_def f Let_def)
qed


section \<open>Stacks and totals\<close>

definition columns :: "(usage_metrics \<Rightarrow> int) list" where
  "columns = [um_requests, um_input, um_output, um_spend]"

lemma column_add: "f \<in> set columns \<Longrightarrow> f (addMetrics a b) = f a + f b"
  and column_zero: "f \<in> set columns \<Longrightarrow> f ZERO_METRICS = 0"
  and column_residual: "f \<in> set columns \<Longrightarrow> f (residual t n) = max 0 (f t - f n)"
  by (auto simp: columns_def addMetrics_def ZERO_METRICS_def residual_def)

lemma has_any_column: "hasAnyMetric c \<longleftrightarrow> (\<exists>f\<in>set columns. 0 < f c)"
  by (auto simp: hasAnyMetric_def columns_def)

lemma column_fold: "f \<in> set columns \<Longrightarrow> f (foldl (\<lambda>v r. addMetrics v (g r)) c rows) = f c + (\<Sum>r\<leftarrow>rows. f (g r))"
  by (induction rows arbitrary: c) (simp_all add: column_add)

lemma column_tally:
  assumes "f \<in> set columns"
  shows "f (case map_get (tally (\<lambda>v r. addMetrics v (g r)) ZERO_METRICS key rows) k of None \<Rightarrow> ZERO_METRICS | Some v \<Rightarrow> v)
    = (\<Sum>r\<leftarrow>filter (\<lambda>r. key r = k) rows. f (g r))"
proof (cases "k \<in> key ` set rows")
  case False
  then have "filter (\<lambda>r. key r = k) rows = []" unfolding filter_empty_conv by (metis imageI)
  then show ?thesis using False column_zero [OF assms] by (simp add: tally_get)
qed (simp add: tally_get column_fold assms column_zero)

lemma column_stack: "f \<in> set columns \<Longrightarrow> f (stack_at series i) = (\<Sum>s\<leftarrow>series. f (snd s ! i))"
  using column_fold [of f "\<lambda>s. snd s ! i" ZERO_METRICS series] column_zero [of f] by (simp add: stack_at_def)

lemma day_index_get: "distinct days \<Longrightarrow> map_get (day_index days) d = Some i \<longleftrightarrow> i < length days \<and> days ! i = d"
proof (induction days rule: rev_induct)
  case (snoc x days)
  have "day_index (days @ [x]) = map_set x (length days) (day_index days)" by (simp add: day_index_def)
  then show ?case using snoc by (auto simp: update_conv' nth_append less_Suc_eq)
qed (simp add: day_index_def)

text \<open>What the cells of a model add up to, day by day.\<close>

lemma model_series_cells:
  assumes "distinct days"
  shows "\<exists>ds. model_series days named cells = map (\<lambda>k. (k, ds k)) named \<and> (\<forall>k. length (ds k) = length days)
    \<and> (\<forall>k i f. i < length days \<longrightarrow> f \<in> set columns \<longrightarrow>
         f (ds k ! i) = (\<Sum>r\<leftarrow>filter (\<lambda>r. alias_key r = k \<and> day_key r = days ! i) cells. f (ur_cell r)))"
proof (induction cells rule: rev_induct)
  case Nil
  show ?case by (intro exI [of _ "\<lambda>k. map (\<lambda>_. ZERO_METRICS) days"]) (auto simp: model_series_def column_zero)
next
  case (snoc r cells)
  then obtain ds where ds: "model_series days named cells = map (\<lambda>k. (k, ds k)) named" "\<forall>k. length (ds k) = length days"
    "\<And>k i f. i < length days \<Longrightarrow> f \<in> set columns \<Longrightarrow>
       f (ds k ! i) = (\<Sum>r\<leftarrow>filter (\<lambda>r. alias_key r = k \<and> day_key r = days ! i) cells. f (ur_cell r))" by blast
  have next_series: "model_series days named (cells @ [r]) = add_cell days (map (\<lambda>k. (k, ds k)) named) r"
    using ds(1) by (simp add: model_series_def)
  show ?case
  proof (cases "map_get (day_index days) (day_key r)")
    case None
    then have "i < length days \<Longrightarrow> day_key r \<noteq> days ! i" for i using day_index_get [OF assms, of "day_key r" i] by auto
    then show ?thesis using ds None next_series by (intro exI [of _ ds]) (auto simp: add_cell_def)
  next
    case (Some j)
    then have j: "j < length days" "days ! j = day_key r" using day_index_get [OF assms] by auto
    let ?ds = "ds (alias_key r := (ds (alias_key r))[j := addMetrics (ds (alias_key r) ! j) (ur_cell r)])"
    have same: "i < length days \<Longrightarrow> day_key r = days ! i \<longleftrightarrow> i = j" for i using j assms by (metis nth_eq_iff_index_eq)
    have "model_series days named (cells @ [r]) = map (\<lambda>k. (k, ?ds k)) named"
      using next_series Some by (auto simp: add_cell_def)
    moreover have "f (?ds k ! i) = (\<Sum>q\<leftarrow>filter (\<lambda>q. alias_key q = k \<and> day_key q = days ! i) (cells @ [r]). f (ur_cell q))"
      if "i < length days" "f \<in> set columns" for k i f
      using ds(2,3) same [OF that(1)] that by (auto simp: nth_list_update column_add)
    ultimately show ?thesis using ds(2) by (intro exI [of _ ?ds]) simp
  qed
qed

lemma sum_of_parts:
  assumes "distinct ks" and "\<forall>r\<in>set rows. (0::int) \<le> f r"
  shows "(\<Sum>k\<leftarrow>ks. \<Sum>r\<leftarrow>filter (\<lambda>r. key r = k \<and> P r) rows. f r) \<le> (\<Sum>r\<leftarrow>filter P rows. f r)"
  using assms(2)
proof (induction rows)
  case (Cons r rows)
  have one: "(\<Sum>k\<leftarrow>ks. if key r = k then v else 0) = (if key r \<in> set ks then v else (0::int))" for v
    using assms(1) by (induction ks) auto
  have "(\<Sum>k\<leftarrow>ks. \<Sum>q\<leftarrow>filter (\<lambda>q. key q = k \<and> P q) (r # rows). f q)
    = (\<Sum>k\<leftarrow>ks. (if key r = k then (if P r then f r else 0) else 0) + (\<Sum>q\<leftarrow>filter (\<lambda>q. key q = k \<and> P q) rows. f q))"
    by (intro arg_cong [of _ _ sum_list] map_cong refl) auto
  also have "\<dots> = (if key r \<in> set ks then (if P r then f r else 0) else 0) + (\<Sum>k\<leftarrow>ks. \<Sum>q\<leftarrow>filter (\<lambda>q. key q = k \<and> P q) rows. f q)"
    by (simp only: sum_list_addf one)
  also have "\<dots> \<le> (\<Sum>q\<leftarrow>filter P (r # rows). f q)" using Cons by auto
  finally show ?case .
qed (simp add: sum_list_triv)


lemma distinct_ranked: "distinct (rank_models le rows)"
proof -
  have "mset (rank_models le rows) = mset (map fst (tally (\<lambda>v r. addMetrics v (ur_cell r)) ZERO_METRICS alias_key rows))"
    by (simp add: rank_models_def mset_sort_by)
  then show ?thesis using tally_distinct by (metis mset_eq_imp_distinct_iff)
qed

text \<open>Adding the other series, where there is one, lifts each column of the stack to the total, and no further.\<close>

lemma stack_with_other:
  assumes "f \<in> set columns" and "i < length totals"
  shows "f (stack_at (series @ (if list_ex hasAnyMetric (other_detail series totals) then [(OTHER_SERIES_KEY, other_detail series totals)] else [])) i)
    = max (f (totals ! i)) (f (stack_at series i))"
proof (cases "list_ex hasAnyMetric (other_detail series totals)")
  case True
  then show ?thesis using assms by (simp add: column_stack column_residual other_detail_def)
next
  case False
  then have "\<not> hasAnyMetric (residual (totals ! i) (stack_at series i))" using assms(2) by (auto simp: list_ex_iff other_detail_def)
  then have "f (residual (totals ! i) (stack_at series i)) \<le> 0" using assms(1) by (auto simp: has_any_column)
  then show ?thesis using False assms(1) by (simp add: column_residual)
qed

text \<open>The per-model read reports, day by day and column by column, at most what the per-day read does.\<close>

definition splits :: "usage_row list \<Rightarrow> usage_row list \<Rightarrow> bool" where
  "splits modelDayRows dayRows \<longleftrightarrow>
     (\<forall>f\<in>set columns. (\<forall>r\<in>set modelDayRows. 0 \<le> f (ur_cell r))
        \<and> (\<forall>d. (\<Sum>r\<leftarrow>filter (\<lambda>r. ur_day r = Some d) modelDayRows. f (ur_cell r)) \<le> (\<Sum>r\<leftarrow>filter (\<lambda>r. ur_day r = Some d) dayRows. f (ur_cell r))))"

lemma named_below_totals:
  assumes "splits modelDayRows dayRows" and "distinct named" and "distinct days" and "i < length days" and "f \<in> set columns" and "dayInRange (days ! i) rg"
  shows "f (stack_at (model_series days named (rowsInRange modelDayRows rg)) i) \<le> (\<Sum>r\<leftarrow>filter (\<lambda>r. ur_day r = Some (days ! i)) dayRows. f (ur_cell r))"
proof -
  let ?cells = "rowsInRange modelDayRows rg"
  obtain ds where ds: "model_series days named ?cells = map (\<lambda>k. (k, ds k)) named"
    "\<And>k i f. i < length days \<Longrightarrow> f \<in> set columns \<Longrightarrow> f (ds k ! i) = (\<Sum>r\<leftarrow>filter (\<lambda>r. alias_key r = k \<and> day_key r = days ! i) ?cells. f (ur_cell r))"
    using model_series_cells [OF assms(3), of named ?cells] by blast
  have "f (stack_at (model_series days named ?cells) i) = (\<Sum>k\<leftarrow>named. \<Sum>r\<leftarrow>filter (\<lambda>r. alias_key r = k \<and> day_key r = days ! i) ?cells. f (ur_cell r))"
    using ds assms(4,5) by (simp add: column_stack comp_def)
  also have "\<dots> \<le> (\<Sum>r\<leftarrow>filter (\<lambda>r. day_key r = days ! i) ?cells. f (ur_cell r))"
    using assms(1,5) by (intro sum_of_parts [OF assms(2)]) (auto simp: splits_def rowsInRange_def)
  also have "\<dots> = (\<Sum>r\<leftarrow>filter (\<lambda>r. ur_day r = Some (days ! i)) modelDayRows. f (ur_cell r))"
    using assms(6) by (simp add: rows_of_day)
  also have "\<dots> \<le> (\<Sum>r\<leftarrow>filter (\<lambda>r. ur_day r = Some (days ! i)) dayRows. f (ur_cell r))" using assms(1,5) by (simp add: splits_def)
  finally show ?thesis .
qed

lemma metric_columns:
  "metricValue c Spend = um_spend c" "metricValue c Requests = um_requests c" "metricValue c Tokens = um_input c + um_output c"
  "um_spend \<in> set columns" "um_requests \<in> set columns" "um_input \<in> set columns" "um_output \<in> set columns"
  by (simp_all add: columns_def)

lemma metric_by_columns:
  assumes "\<And>f. f \<in> set columns \<Longrightarrow> f c = (\<Sum>r\<leftarrow>rows. f (ur_cell r))"
  shows "metricValue c m = (\<Sum>r\<leftarrow>rows. metricValue (ur_cell r) m)"
  using assms [OF metric_columns(4)] assms [OF metric_columns(5)] assms [OF metric_columns(6)] assms [OF metric_columns(7)]
  by (cases m) (simp_all add: sum_list_addf)

lemma stacks_on_days:
  assumes "in_years a" and "in_years b" and "in_years (b + 1)" and "splits modelDayRows dayRows"
    and "rg = \<lparr>dr_from = Some (day_text a), dr_to = day_text b\<rparr>"
  shows "\<exists>st. dailyModelStacks le dayRows modelDayRows rg rankRows n = Some st \<and> ms_days st = map day_text [a..b]
    \<and> (\<forall>i<length (ms_days st). metricValue (stack_at (ms_series st) i) m
        = (\<Sum>r\<leftarrow>filter (\<lambda>r. ur_day r = Some (ms_days st ! i)) dayRows. metricValue (ur_cell r) m))"
proof -
  define days where "days = map day_text [a..b]"
  define totals where "totals = map (\<lambda>d. case map_get (tally (\<lambda>v r. addMetrics v (ur_cell r)) ZERO_METRICS day_key (rowsInRange dayRows rg)) d of
    None \<Rightarrow> ZERO_METRICS | Some v \<Rightarrow> v) days"
  define named where "named = take n (rank_models le (case rankRows of None \<Rightarrow> rowsInRange modelDayRows rg | Some rs \<Rightarrow> rs))"
  define series where "series = model_series days named (rowsInRange modelDayRows rg)"
  let ?st = "\<lparr>ms_days = days, ms_series = series @ (if list_ex hasAnyMetric (other_detail series totals) then [(OTHER_SERIES_KEY, other_detail series totals)] else []),
    ms_totals = totals\<rparr>"
  have ends: "range_start rg recorded = day_text a" "dr_to rg = day_text b" for recorded using assms(5) by (simp_all add: range_start_def)
  have st: "dailyModelStacks le dayRows modelDayRows rg rankRows n = Some ?st"
    unfolding dailyModelStacks_def Let_def totals_def named_def series_def days_def ends day_loop_days [OF assms(1-3)] option.map ..
  have within: "dayInRange (days ! i) rg \<and> in_years (a + int i)" if "i < length days" for i
  proof -
    have "a + int i \<le> b" using that by (auto simp: days_def)
    then show ?thesis using that in_range_days [OF assms(1,2)] in_years_between [OF assms(1,2)] by (auto simp: days_def assms(5))
  qed
  have "inj_on day_text (set [a..b])" using day_text_eq in_years_between [OF assms(1,2)] by (auto simp: inj_on_def)
  then have dist: "distinct days" "distinct named" by (simp_all add: days_def distinct_map named_def distinct_ranked)
  have col: "f (stack_at (ms_series ?st) i) = (\<Sum>r\<leftarrow>filter (\<lambda>r. ur_day r = Some (days ! i)) dayRows. f (ur_cell r))"
    if f: "f \<in> set columns" and i: "i < length days" for f i
  proof -
    have t: "f (totals ! i) = (\<Sum>r\<leftarrow>filter (\<lambda>r. ur_day r = Some (days ! i)) dayRows. f (ur_cell r))"
      unfolding totals_def nth_map [OF i] column_tally [OF f] rows_of_day using within [OF i] by simp
    have "f (stack_at series i) \<le> f (totals ! i)"
      unfolding series_def t using within [OF i] by (intro named_below_totals [OF assms(4) dist(2,1) i f]) simp
    then show ?thesis using stack_with_other [OF f, of i totals series] i t by (simp add: totals_def)
  qed
  have "metricValue (stack_at (ms_series ?st) i) m = (\<Sum>r\<leftarrow>filter (\<lambda>r. ur_day r = Some (days ! i)) dayRows. metricValue (ur_cell r) m)"
    if "i < length days" for i by (rule metric_by_columns) (rule col [OF _ that])
  then show ?thesis using st by (intro exI [of _ ?st]) (simp add: days_def)
qed

text \<open>
  The stacked chart agrees with the daily series and so with the headline figure: over the same range it has
  the same days, and on each the series and the Other fold add up to that day's point, in every metric,
  whichever models rank highest and however many series are shown, provided the per-model read
  reports no more than the per-day read.
\<close>

theorem stacks_add_up_to_the_series:
  assumes "in_years a" and "in_years b" and "in_years (b + 1)" and "splits modelDayRows dayRows" and "dated dayRows"
    and "rg = \<lparr>dr_from = Some (day_text a), dr_to = day_text b\<rparr>"
  shows "\<exists>st points. dailyModelStacks le dayRows modelDayRows rg rankRows n = Some st \<and> dailySeries dayRows rg m = Some points
    \<and> ms_days st = map fst points
    \<and> map (\<lambda>i. metricValue (stack_at (ms_series st) i) m) [0..<length (ms_days st)] = map snd points"
proof -
  obtain st where st: "dailyModelStacks le dayRows modelDayRows rg rankRows n = Some st" "ms_days st = map day_text [a..b]"
    "\<forall>i<length (ms_days st). metricValue (stack_at (ms_series st) i) m
        = (\<Sum>r\<leftarrow>filter (\<lambda>r. ur_day r = Some (ms_days st ! i)) dayRows. metricValue (ur_cell r) m)"
    using stacks_on_days [OF assms(1-4,6)] by blast
  obtain points where p: "dailySeries dayRows rg m = Some points" "map fst points = map day_text [a..b]"
    "\<forall>q\<in>set points. snd q = sumMetric (filter (\<lambda>r. ur_day r = Some (fst q)) dayRows) m"
    using daily_series_total [OF assms(1-3,5), of m] unfolding assms(6) by blast
  have len: "length points = length (ms_days st)" using p(2) st(2) by (metis length_map)
  have "metricValue (stack_at (ms_series st) i) m = snd (points ! i)" if "i < length points" for i
  proof -
    have "ms_days st ! i = fst (points ! i)" using p(2) st(2) that by (metis nth_map)
    then show ?thesis using st(3) p(3) that len by (simp add: sumMetric_sum)
  qed
  then have "map (\<lambda>i. metricValue (stack_at (ms_series st) i) m) [0..<length (ms_days st)] = map snd points"
    using len by (intro nth_equalityI) simp_all
  then show ?thesis using st(1,2) p(1,2) by auto
qed


section \<open>Concrete figures\<close>

definition usage_cell :: "int \<Rightarrow> int \<Rightarrow> usage_metrics" where
  "usage_cell n spend = \<lparr>um_requests = n, um_input = 10 * n, um_output = n, um_spend = spend\<rparr>"

definition day_rows :: "usage_row list" where
  "day_rows = [\<lparr>ur_day = Some (day_text 20513), ur_alias = None, ur_cell = usage_cell 3 700\<rparr>,
     \<lparr>ur_day = Some (day_text 20515), ur_alias = None, ur_cell = usage_cell 1 50\<rparr>]"

definition model_rows :: "usage_row list" where
  "model_rows = [\<lparr>ur_day = Some (day_text 20513), ur_alias = Some ''sonar'', ur_cell = usage_cell 2 600\<rparr>,
     \<lparr>ur_day = Some (day_text 20515), ur_alias = Some ''grok'', ur_cell = usage_cell 1 50\<rparr>]"

definition three_days :: day_range where
  "three_days = \<lparr>dr_from = Some (day_text 20513), dr_to = day_text 20515\<rparr>"

lemma sample_years: "in_years 20513" "in_years 20514" "in_years 20515" "in_years 20516" "in_years 20500"
  by code_simp+

lemma day_rows_dated: "dated day_rows"
  using sample_years by (auto simp: dated_def day_rows_def)

lemma model_rows_split: "splits model_rows day_rows"
  by (auto simp: splits_def columns_def model_rows_def day_rows_def usage_cell_def)

lemma range_cut: "rowsInRange day_rows three_days = day_rows"
  using in_range_days [OF sample_years(1,3)] sample_years(1,3) by (simp add: rowsInRange_def day_rows_def three_days_def)

theorem daily_series_witness:
  "\<exists>points. dailySeries day_rows three_days Spend = Some points \<and> map fst points = map day_text [20513, 20514, 20515]
    \<and> sum_list (map snd points) = 750"
proof -
  have b: "in_years (20515 + 1)" using sample_years(4) by simp
  have d: "[20513..20515] = [20513, 20514, 20515::int]" by code_simp
  have "sumMetric (rowsInRange day_rows three_days) Spend = 750" unfolding range_cut by code_simp
  with daily_series_is_the_range [OF sample_years(1,3) b day_rows_dated, of Spend] show ?thesis
    unfolding three_days_def [symmetric] d by metis
qed

theorem periods_witness:
  "\<exists>now before cur prev. periodRange Last_7d (day_text 20513) = Some now \<and> previousPeriodRange Last_7d (day_text 20513) = Some (Some before)
    \<and> dailySeries day_rows now Spend = Some cur \<and> dailySeries day_rows before Spend = Some prev \<and> length cur = 7 \<and> length prev = 7"
proof -
  have y: "in_years (20513 + 1)" "in_years (20513 - (2 * 7 - 1))" using sample_years by simp_all
  have "PERIOD_DAYS Last_7d = Some 7" by simp
  from periods_are_adjacent [OF this sample_years(1) y day_rows_dated, of Spend] show ?thesis by force
qed

theorem stacks_witness:
  "\<exists>st points. dailyModelStacks (\<lambda>a b. True) day_rows model_rows three_days None 1 = Some st \<and> dailySeries day_rows three_days Tokens = Some points
    \<and> map (\<lambda>i. metricValue (stack_at (ms_series st) i) Tokens) [0..<length (ms_days st)] = map snd points"
proof -
  have "in_years (20515 + 1)" using sample_years(4) by simp
  from stacks_add_up_to_the_series [OF sample_years(1,3) this model_rows_split day_rows_dated three_days_def] show ?thesis by blast
qed

theorem longest_streak_witness:
  "3 \<le> as_longest (activityStats [(''d1'', 0), (''d2'', 4), (''d3'', 1), (''d4'', 9), (''d5'', 0)])"
proof -
  have "streak [(''d1'', 0), (''d2'', 4), (''d3'', 1), (''d4'', 9), (''d5'', 0)] 1 3" by (auto simp: streak_def less_Suc_eq_le nth_Cons split: nat.splits)
  then show ?thesis using longest_streak_is_longest by blast
qed

text \<open>A drop of less than half a percent rounds to minus zero, which reads as a signed zero with two signs.\<close>

lemma small_drop_has_two_signs: "formatDeltaPercent (js_lit (- 3 / 10)) = ''+-0%''"
  by code_simp

text \<open>Just below a million the compact count reads a thousand thousands.\<close>

lemma thousand_thousands: "formatTokens (js_int 999960) = ''1000k''"
  by code_simp

end
