(* ===== verification/Proxy.thy ===== *)
theory Proxy
  imports Redirects Url_Query Http
begin

text \<open>
  The middleware in front of every page and route, \<open>proxy.ts\<close>, with \<open>lib/auth/{cookies,config}.ts\<close>: which
  requests it sees, which paths need no session, and what it answers to the rest. A request is its path,
  its parsed query and the query's text; the settings, the cookies and the answer of \<open>getClaims\<close> are
  given with it. \<open>None\<close> as an answer is the error thrown when the settings are missing.
\<close>

section \<open>Paths\<close>

definition PUBLIC_EXACT_PATHS :: "string list" where
  "PUBLIC_EXACT_PATHS = [''/'', ''/models'', ''/credits'', ''/logs'', ''/insights'', ''/signup'', ''/security'', ''/yc'', ''/llms.txt'']"

definition signin_path :: string where "signin_path = ''/signin''"

definition PUBLIC_PATH_PREFIXES :: "string list" where
  "PUBLIC_PATH_PREFIXES = [signin_path, ''/auth'', ''/docs'']"

definition PUBLIC_API_PATHS :: "string list" where
  "PUBLIC_API_PATHS = [''/api/health'', ''/api/cli/config'', ''/api/stripe/webhook'', ''/api/signup/instant'',
     ''/api/internal/auto-recharge'', ''/api/internal/spend-alerts'', ''/api/internal/balance-fetch'']"

text \<open>A pattern of the form \<open>^prefix[^/]+$\<close>.\<close>

definition one_segment :: "string \<Rightarrow> string \<Rightarrow> bool" where
  "one_segment prefix path \<longleftrightarrow> startsWith path prefix \<and> drop (length prefix) path \<noteq> [] \<and> CHR ''/'' \<notin> set (drop (length prefix) path)"

definition PUBLIC_MODEL_DETAIL :: "string \<Rightarrow> bool" where
  "PUBLIC_MODEL_DETAIL path = one_segment ''/models/'' path"

definition PUBLIC_MODEL_DETAIL_API :: "string \<Rightarrow> bool" where
  "PUBLIC_MODEL_DETAIL_API path = one_segment ''/api/models/'' path"

definition isPublicPath :: "string \<Rightarrow> bool" where
  "isPublicPath path \<longleftrightarrow>
     (if List.member PUBLIC_API_PATHS path \<or> List.member PUBLIC_EXACT_PATHS path then True
      else if PUBLIC_MODEL_DETAIL path \<or> PUBLIC_MODEL_DETAIL_API path then True
      else list_ex (\<lambda>p. path = p \<or> startsWith path (p @ ''/'')) PUBLIC_PATH_PREFIXES)"

definition ends_with :: "string \<Rightarrow> string \<Rightarrow> bool" where
  "ends_with s w = startsWith (rev s) (rev w)"

text \<open>\<open>config.matcher\<close>: the paths the middleware is asked about at all.\<close>

definition IMAGE_SUFFIXES :: "string list" where
  "IMAGE_SUFFIXES = [''.svg'', ''.png'', ''.jpg'', ''.jpeg'', ''.gif'', ''.webp'']"

definition matcher :: "string \<Rightarrow> bool" where
  "matcher path \<longleftrightarrow> startsWith path ''/''
     \<and> \<not> list_ex (startsWith (drop 1 path)) [''_next/static'', ''_next/image'', ''favicon.ico'']
     \<and> \<not> list_ex (ends_with (drop 1 path)) IMAGE_SUFFIXES"

section \<open>The session\<close>

definition drop_chunk :: "string \<Rightarrow> string" where
  "drop_chunk name =
     (let r = dropWhile is_digit (rev name) in
      if length r < length name \<and> r \<noteq> [] \<and> hd r = CHR ''.'' then rev (tl r) else name)"

definition auth_cookie_name :: "string \<Rightarrow> bool" where
  "auth_cookie_name name \<longleftrightarrow>
     (startsWith name ''sb-'' \<and> ends_with name ''-auth-token'' \<and> 14 < length name)
     \<or> name = ''supabase-auth-token''"

definition hasSupabaseAuthCookie :: "string list \<Rightarrow> bool" where
  "hasSupabaseAuthCookie names = list_ex (\<lambda>n. auth_cookie_name n \<or> auth_cookie_name (drop_chunk n)) names"

text \<open>\<open>a ?? b ?? c\<close>, then the test for an empty text.\<close>

definition first_set :: "string option list \<Rightarrow> string option" where
  "first_set vs =
     (case first_where (\<lambda>v. v \<noteq> None) vs of Some (Some s) \<Rightarrow> if s = '''' then None else Some s | _ \<Rightarrow> None)"

record supabase_env =
  se_urls :: "string option list"
  se_keys :: "string option list"

definition loadSupabaseAuthSettings :: "supabase_env \<Rightarrow> (string \<times> string) option" where
  "loadSupabaseAuthSettings e =
     (case first_set (se_urls e) of
        None \<Rightarrow> None
      | Some url \<Rightarrow> (case first_set (se_keys e) of None \<Rightarrow> None | Some key \<Rightarrow> Some (url, key)))"

section \<open>The middleware\<close>

record web_request =
  rq_path :: string
  rq_query :: search_params
  rq_search :: string
  rq_cookies :: "string list"
  rq_claims :: bool

datatype proxy_answer =
    Forward
  | Go string
  | Sign_in search_params
  | Refuse resp

definition session_of :: "web_request \<Rightarrow> bool" where
  "session_of rq \<longleftrightarrow> (if hasSupabaseAuthCookie (rq_cookies rq) then rq_claims rq else False)"

definition proxy :: "supabase_env \<Rightarrow> web_request \<Rightarrow> proxy_answer option" where
  "proxy e rq =
     (let path = rq_path rq in
      if startsWith path ''/auth/'' \<or> List.member PUBLIC_API_PATHS path then Some Forward
      else (case loadSupabaseAuthSettings e of
        None \<Rightarrow> None
      | Some settings \<Rightarrow>
          (let isAuthenticated = session_of rq in
           if isPublicPath path then
             (if isAuthenticated \<and> path = signin_path \<and> params_get (rq_query rq) ''yc'' \<noteq> Some ''1''
              then Some (Go (safeNextPath (params_get (rq_query rq) ''next'')))
              else Some Forward)
           else if \<not> isAuthenticated then
             (if startsWith path ''/api/'' then Some (Refuse (error_resp ''Authentication required.'' 401))
              else Some (Sign_in (params_set ''next'' (path @ rq_search rq) (rq_query rq))))
           else Some Forward)))"

text \<open>The framework asks the middleware about the requests its matcher covers and serves the others as they come.\<close>

definition middleware :: "supabase_env \<Rightarrow> web_request \<Rightarrow> proxy_answer option" where
  "middleware e rq = (if matcher (rq_path rq) then proxy e rq else Some Forward)"

section \<open>What passes without a session\<close>

lemma startsWith_append: "startsWith s p \<longleftrightarrow> (\<exists>t. s = p @ t)"
  by (induction s p rule: startsWith.induct) auto

lemma public_api_path:
  assumes "startsWith path ''/api/''" and "isPublicPath path"
  shows "path \<in> set PUBLIC_API_PATHS \<or> (\<exists>slug. path = ''/api/models/'' @ slug \<and> slug \<noteq> [] \<and> CHR ''/'' \<notin> set slug)"
proof -
  obtain t where t: "path = ''/api/'' @ t" using assms(1) startsWith_append by blast
  have "path \<notin> set PUBLIC_EXACT_PATHS" "\<not> PUBLIC_MODEL_DETAIL path"
    "\<not> list_ex (\<lambda>p. path = p \<or> startsWith path (p @ ''/'')) PUBLIC_PATH_PREFIXES"
    by (simp_all add: t PUBLIC_EXACT_PATHS_def PUBLIC_MODEL_DETAIL_def one_segment_def PUBLIC_PATH_PREFIXES_def signin_path_def)
  then have "path \<in> set PUBLIC_API_PATHS \<or> PUBLIC_MODEL_DETAIL_API path" using assms(2) by (auto simp: isPublicPath_def split: if_splits)
  then show ?thesis
  proof
    assume "PUBLIC_MODEL_DETAIL_API path"
    then obtain s where "path = ''/api/models/'' @ s" "s \<noteq> []" "CHR ''/'' \<notin> set s"
      by (auto simp: PUBLIC_MODEL_DETAIL_API_def one_segment_def startsWith_append)
    then show ?thesis by blast
  qed blast
qed

lemma startsWith_auth: "startsWith path ''/auth/'' \<Longrightarrow> isPublicPath path"
  by (simp add: isPublicPath_def PUBLIC_PATH_PREFIXES_def)

lemma session_gate:
  assumes "proxy e rq = Some a" and "\<not> session_of rq"
  shows "(startsWith (rq_path rq) ''/api/'' \<longrightarrow>
            (if rq_path rq \<in> set PUBLIC_API_PATHS \<or> (\<exists>slug. rq_path rq = ''/api/models/'' @ slug \<and> slug \<noteq> [] \<and> CHR ''/'' \<notin> set slug)
             then a = Forward else a = Refuse (error_resp ''Authentication required.'' 401)))
    \<and> (\<not> startsWith (rq_path rq) ''/api/'' \<and> \<not> isPublicPath (rq_path rq) \<longrightarrow>
         a = Sign_in (params_set ''next'' (rq_path rq @ rq_search rq) (rq_query rq)))"
proof (intro conjI impI)
  assume api: "startsWith (rq_path rq) ''/api/''"
  have no_auth: "\<not> startsWith (rq_path rq) ''/auth/''" "rq_path rq \<noteq> signin_path"
    using api by (auto simp: startsWith_append signin_path_def)
  have pub: "isPublicPath (rq_path rq) \<longleftrightarrow> rq_path rq \<in> set PUBLIC_API_PATHS \<or> (\<exists>slug. rq_path rq = ''/api/models/'' @ slug \<and> slug \<noteq> [] \<and> CHR ''/'' \<notin> set slug)"
  proof
    show "isPublicPath (rq_path rq) \<Longrightarrow> rq_path rq \<in> set PUBLIC_API_PATHS \<or> (\<exists>slug. rq_path rq = ''/api/models/'' @ slug \<and> slug \<noteq> [] \<and> CHR ''/'' \<notin> set slug)"
      using public_api_path [OF api] .
    show "rq_path rq \<in> set PUBLIC_API_PATHS \<or> (\<exists>slug. rq_path rq = ''/api/models/'' @ slug \<and> slug \<noteq> [] \<and> CHR ''/'' \<notin> set slug) \<Longrightarrow> isPublicPath (rq_path rq)"
      by (auto simp: isPublicPath_def PUBLIC_MODEL_DETAIL_API_def one_segment_def)
  qed
  have listed: "List.member PUBLIC_API_PATHS (rq_path rq) \<Longrightarrow> isPublicPath (rq_path rq)" by (simp add: isPublicPath_def)
  show "if rq_path rq \<in> set PUBLIC_API_PATHS \<or> (\<exists>slug. rq_path rq = ''/api/models/'' @ slug \<and> slug \<noteq> [] \<and> CHR ''/'' \<notin> set slug)
     then a = Forward else a = Refuse (error_resp ''Authentication required.'' 401)"
    using assms no_auth api listed unfolding pub [symmetric] by (auto simp: proxy_def Let_def split: if_splits option.splits)
next
  assume "\<not> startsWith (rq_path rq) ''/api/'' \<and> \<not> isPublicPath (rq_path rq)"
  moreover have "\<not> (startsWith (rq_path rq) ''/auth/'' \<or> List.member PUBLIC_API_PATHS (rq_path rq))" if "\<not> isPublicPath (rq_path rq)"
    using that startsWith_auth by (auto simp: isPublicPath_def)
  ultimately show "a = Sign_in (params_set ''next'' (rq_path rq @ rq_search rq) (rq_query rq))"
    using assms by (auto simp: proxy_def Let_def split: option.splits)
qed

lemma ends_with_suffix: "ends_with p w \<longleftrightarrow> (\<exists>t. p = t @ w)"
proof
  assume "ends_with p w"
  then obtain t where "rev p = rev w @ t" by (auto simp: ends_with_def startsWith_append)
  then have "p = rev t @ w" by (metis rev_append rev_rev_ident)
  then show "\<exists>t. p = t @ w" by blast
qed (auto simp: ends_with_def startsWith_append)

lemma ends_with_slash: "w \<noteq> [] \<Longrightarrow> hd w \<noteq> CHR ''/'' \<Longrightarrow> ends_with (CHR ''/'' # p) w \<longleftrightarrow> ends_with p w"
  by (auto simp: ends_with_suffix Cons_eq_append_conv)

lemma api_matcher:
  assumes "startsWith path ''/api/''"
  shows "matcher path \<longleftrightarrow> \<not> list_ex (ends_with path) IMAGE_SUFFIXES"
proof -
  obtain t where t: "path = CHR ''/'' # ''api/'' @ t" using assms startsWith_append by auto
  show ?thesis unfolding t matcher_def IMAGE_SUFFIXES_def by (simp add: ends_with_slash)
qed


section \<open>There again\<close>

text \<open>
  A visitor who is sent to sign in and returns with a session is sent to the very page and query they asked
  for: the next parameter survives the trip through the address bar and the redirect guard, for every
  path that begins with one slash and holds no backslash, unless the query asks for the deal page.
\<close>

theorem sign_in_returns_the_visitor:
  assumes "proxy e rq = Some (Sign_in ps)" and "startsWith (rq_path rq) ''/''" and "\<not> startsWith (rq_path rq @ rq_search rq) ''//''"
    and "CHR 0x5C \<notin> set (rq_path rq @ rq_search rq)" and "params_get (rq_query rq) ''yc'' \<noteq> Some ''1''"
    and "rq_path rq2 = signin_path" and "rq_query rq2 = params_parse (params_toString ps)" and "session_of rq2"
  shows "proxy e rq2 = Some (Go (rq_path rq @ rq_search rq))"
proof -
  have ps: "ps = params_set ''next'' (rq_path rq @ rq_search rq) (rq_query rq)" and e: "loadSupabaseAuthSettings e \<noteq> None"
    using assms(1) by (auto simp: proxy_def Let_def split: if_splits option.splits)
  have q: "params_get (rq_query rq2) ''next'' = Some (rq_path rq @ rq_search rq)" "params_get (rq_query rq2) ''yc'' \<noteq> Some ''1''"
    using assms(5) by (simp_all add: assms(7) params_roundtrip ps params_get_set)
  obtain t where t: "rq_path rq = ''/'' @ t" using assms(2) startsWith_append by blast
  have no_bs: "\<not> str_includes (rq_path rq @ rq_search rq) [CHR 0x5C]"
    using assms(4) unfolding includes_iff by (metis append_Cons append_Nil in_set_conv_decomp)
  have "safeNextPath (Some (rq_path rq @ rq_search rq)) = rq_path rq @ rq_search rq"
    using assms(3) no_bs unfolding safeNextPath_def by (simp add: t)
  moreover have "isPublicPath signin_path" "\<not> startsWith signin_path ''/auth/''" "\<not> List.member PUBLIC_API_PATHS signin_path" by code_simp+
  ultimately show ?thesis using e q assms(6,8) by (auto simp: proxy_def Let_def)
qed

section \<open>Concrete requests\<close>

definition local_env :: supabase_env where
  "local_env = \<lparr>se_urls = [None, Some ''http://127.0.0.1:54321''], se_keys = [Some ''anon'']\<rparr>"

definition visit :: "string \<Rightarrow> search_params \<Rightarrow> string \<Rightarrow> bool \<Rightarrow> web_request" where
  "visit path query srch signed_in =
     \<lparr>rq_path = path, rq_query = query, rq_search = srch, rq_cookies = [''sb-x-auth-token.0''], rq_claims = signed_in\<rparr>"


lemma sign_in_returns_witness:
  "proxy local_env (visit ''/signin'' (params_parse ''tab=a+b%26c&next=%2Fsettings%3Ftab%3Da%2Bb%2526c'') '''' True) = Some (Go ''/settings?tab=a+b%26c'')"
proof -
  let ?rq = "visit ''/settings'' [(''tab'', ''a b&c'')] ''?tab=a+b%26c'' False"
  let ?rq2 = "visit ''/signin'' (params_parse ''tab=a+b%26c&next=%2Fsettings%3Ftab%3Da%2Bb%2526c'') '''' True"
  have 1: "proxy local_env ?rq = Some (Sign_in [(''tab'', ''a b&c''), (''next'', ''/settings?tab=a+b%26c'')])" by code_simp
  have 2: "rq_query ?rq2 = params_parse (params_toString [(''tab'', ''a b&c''), (''next'', ''/settings?tab=a+b%26c'')])" by code_simp
  have 3: "startsWith (rq_path ?rq) ''/''" "\<not> startsWith (rq_path ?rq @ rq_search ?rq) ''//''" "CHR 0x5C \<notin> set (rq_path ?rq @ rq_search ?rq)"
    "params_get (rq_query ?rq) ''yc'' \<noteq> Some ''1''" "rq_path ?rq2 = signin_path" "session_of ?rq2" by code_simp+
  from sign_in_returns_the_visitor [OF 1 3(1-5) 2 3(6)] show ?thesis by (simp add: visit_def)
qed

text \<open>
  The matcher leaves image names to the static files, whatever directory they are in: an API path that ends
  like one is not seen by the middleware at all, so the session gate of its routes is theirs alone.
\<close>

lemma matcher_skips_api_paths:
  "middleware local_env (visit ''/api/orgs/acme.png'' [] '''' False) = Some Forward
   \<and> middleware local_env (visit ''/api/orgs/acme'' [] '''' False) = Some (Refuse (error_resp ''Authentication required.'' 401))"
  by code_simp

text \<open>A signed-out visitor of a page asked for with \<open>yc=1\<close> is not returned to it: the query rides along to the sign-in page.\<close>

lemma yc_query_strands_the_visitor:
  "proxy local_env (visit ''/overview'' [(''yc'', ''1'')] ''?yc=1'' False) = Some (Sign_in [(''yc'', ''1''), (''next'', ''/overview?yc=1'')])
   \<and> proxy local_env (visit ''/signin'' [(''yc'', ''1''), (''next'', ''/overview?yc=1'')] '''' True) = Some Forward"
  by code_simp

end
