(* ===== verification/Model_Providers.thy ===== *)
theory Model_Providers
  imports Json_Text
begin

text \<open>
  The model providers an organization can bring its own account of: \<open>lib/model-providers.ts\<close> (names,
  the parsers of a submitted credential and of its non-secret settings), \<open>lib/provider-fields.ts\<close> (what the
  form asks for and when it may be sent) and the payload \<open>components/keys/provider-connect-form.tsx\<close> sends.
  A text is a list of bytes, an object the list of its entries in order; the URL constructor is the
  argument \<open>parse_url\<close> (protocol and host of a text it accepts).
\<close>

section \<open>Providers\<close>

definition MODEL_PROVIDERS :: "string list" where
  "MODEL_PROVIDERS = [''openai'', ''anthropic'', ''gemini'', ''azure_openai'', ''openrouter'', ''bedrock'', ''fireworks'', ''modal'']"

definition MODEL_PROVIDER_LABELS :: "(string \<times> string) list" where
  "MODEL_PROVIDER_LABELS = [(''openai'', ''OpenAI''), (''anthropic'', ''Anthropic''), (''gemini'', ''Google Gemini''),
     (''azure_openai'', ''Azure Foundry''), (''openrouter'', ''OpenRouter''), (''bedrock'', ''Amazon Bedrock''),
     (''fireworks'', ''Fireworks AI''), (''modal'', ''Modal'')]"

definition PROVIDER_CONNECTION_STATUSES :: "string list" where
  "PROVIDER_CONNECTION_STATUSES = [''unchecked'', ''valid'', ''invalid'', ''rate_limited'', ''quota_exhausted'', ''provider_error'']"

definition isProviderConnectionStatus :: "string \<Rightarrow> bool" where
  "isProviderConnectionStatus v = List.member PROVIDER_CONNECTION_STATUSES v"

definition isModelProvider :: "string \<Rightarrow> bool" where
  "isModelProvider v = List.member MODEL_PROVIDERS v"

definition modelProviderLabel :: "string \<Rightarrow> string" where
  "modelProviderLabel p = (case map_of MODEL_PROVIDER_LABELS p of Some l \<Rightarrow> l | None \<Rightarrow> p)"

text \<open>\<open>v?.k\<close> of a value that may be missing.\<close>

definition jfield :: "string \<Rightarrow> json option \<Rightarrow> json option" where
  "jfield k v = (case v of None \<Rightarrow> None | Some j \<Rightarrow> jget k j)"

definition checkRemediation :: "json option \<Rightarrow> string option" where
  "checkRemediation detail =
     (case jfield ''remediation'' detail of Some (JStr s) \<Rightarrow> if s \<noteq> '''' then Some s else None | _ \<Rightarrow> None)"

fun connectable_loop :: "string list \<Rightarrow> string list \<Rightarrow> string list" where
  "connectable_loop [] scoped = scoped"
| "connectable_loop (p # ps) scoped =
     connectable_loop ps (if isModelProvider p \<and> \<not> List.member scoped p then scoped @ [p] else scoped)"

definition connectableProvidersForModel :: "string list \<Rightarrow> string list" where
  "connectableProvidersForModel deployments =
     (let scoped = connectable_loop deployments [] in if scoped \<noteq> [] then scoped else MODEL_PROVIDERS)"

section \<open>Parsers\<close>

definition trimmed_field :: "string \<Rightarrow> json option \<Rightarrow> string" where
  "trimmed_field k v = (case jfield k v of Some (JStr s) \<Rightarrow> trim s | _ \<Rightarrow> '''')"

definition trailing_dots :: "string \<Rightarrow> string" where
  "trailing_dots s = rev (dropWhile (\<lambda>c. c = CHR ''.'') (rev s))"

definition ends_in :: "string \<Rightarrow> string \<Rightarrow> bool" where
  "ends_in s w = startsWith (rev s) (rev w)"

text \<open>\<open>^172\.(1[6-9]|2\d|3[01])\.\<close>\<close>

definition private_172 :: "string \<Rightarrow> bool" where
  "private_172 h \<longleftrightarrow> startsWith h ''172.'' \<and>
     (case drop 4 h of
        a # b # c # _ \<Rightarrow> c = CHR ''.'' \<and> ((a = CHR ''1'' \<and> List.member ''6789'' b) \<or> (a = CHR ''2'' \<and> is_digit b) \<or> (a = CHR ''3'' \<and> List.member ''01'' b))
      | _ \<Rightarrow> False)"

definition privateHost :: "string \<Rightarrow> bool" where
  "privateHost host \<longleftrightarrow> List.member [''localhost'', ''host.docker.internal'', ''[::1]'', ''::1''] host \<or> ends_in host ''.local''
     \<or> list_ex (startsWith host) [''127.'', ''10.'', ''192.168.'', ''169.254.''] \<or> private_172 host"

definition validatePublicHttps :: "(string \<Rightarrow> (string \<times> string) option) \<Rightarrow> string \<Rightarrow> string option" where
  "validatePublicHttps parse_url endpoint =
     (case parse_url endpoint of
        None \<Rightarrow> Some ''The Azure endpoint must be a full https URL.''
      | Some (protocol, hostname) \<Rightarrow>
          if protocol \<noteq> ''https:'' \<or> hostname = '''' then Some ''The Azure endpoint must be a public https URL.''
          else if privateHost (trailing_dots (toLowerCase hostname))
            then Some ''The Azure endpoint must be a public https URL, not an internal host.''
          else None)"

text \<open>\<open>^(?:v1|\d{4}-\d{2}-\d{2}(?:-preview)?)$\<close>\<close>

definition azure_version :: "string \<Rightarrow> bool" where
  "azure_version v \<longleftrightarrow> v = ''v1'' \<or>
     (list_all is_digit (take 4 v) \<and> take 1 (drop 4 v) = ''-'' \<and> list_all is_digit (take 2 (drop 5 v)) \<and> take 1 (drop 7 v) = ''-''
      \<and> list_all is_digit (take 2 (drop 8 v)) \<and> 10 \<le> length v \<and> List.member ['''', ''-preview''] (drop 10 v))"

record azure_config =
  az_endpoint :: string
  az_version :: "string option"
  az_deployments :: "(string, string) jsmap"

text \<open>Assigning the key \<open>__proto__\<close> of a plain object to a text leaves the object as it was.\<close>

fun azure_deployments :: "(string \<times> json) list \<Rightarrow> (string, string) jsmap \<Rightarrow> string + (string, string) jsmap" where
  "azure_deployments [] acc = Inr acc"
| "azure_deployments ((modelType, d) # rest) acc =
     (case d of
        JStr deployment \<Rightarrow>
          if trim deployment = '''' then Inl (''Name the Azure deployment serving '' @ modelType @ ''.'')
          else if trim modelType = '''' then Inl ''Every deployment row needs the model it serves.''
          else azure_deployments rest (if trim modelType = ''__proto__'' then acc else map_set (trim modelType) (trim deployment) acc)
      | _ \<Rightarrow> Inl (''Name the Azure deployment serving '' @ modelType @ ''.''))"

definition parseAzureConfig :: "(string \<Rightarrow> (string \<times> string) option) \<Rightarrow> json option \<Rightarrow> string + azure_config" where
  "parseAzureConfig parse_url v =
     (let endpoint = trimmed_field ''endpoint'' v in
      if endpoint = '''' then Inl ''An Azure Foundry resource endpoint is required.''
      else (case validatePublicHttps parse_url endpoint of
        Some err \<Rightarrow> Inl err
      | None \<Rightarrow>
          (let apiVersion = trimmed_field ''api_version'' v in
           if (case jfield ''api_version'' v of None \<Rightarrow> False | Some (JStr _) \<Rightarrow> False | _ \<Rightarrow> True) then Inl ''The API version must be text.''
           else if apiVersion \<noteq> '''' \<and> \<not> azure_version apiVersion
             then Inl ''The API version must be \"v1\" or a dated version like 2024-05-01-preview.''
           else (case (case jfield ''deployments'' v of None \<Rightarrow> Inr [] | Some (JObj kvs) \<Rightarrow> Inr kvs
                         | _ \<Rightarrow> Inl ''Deployments must map each model to its Azure deployment name.'') of
             Inl err \<Rightarrow> Inl err
           | Inr kvs \<Rightarrow>
               (case azure_deployments kvs [] of
                  Inl err \<Rightarrow> Inl err
                | Inr ds \<Rightarrow>
                    if ds = [] then Inl ''Add at least one deployment so requests have somewhere to go.''
                    else Inr \<lparr>az_endpoint = endpoint, az_version = (if apiVersion \<noteq> '''' then Some apiVersion else None),
                              az_deployments = ds\<rparr>)))))"

definition azure_json :: "azure_config \<Rightarrow> json" where
  "azure_json c = JObj ([(''endpoint'', JStr (az_endpoint c))]
     @ (case az_version c of None \<Rightarrow> [] | Some v \<Rightarrow> [(''api_version'', JStr v)])
     @ [(''deployments'', JObj (map (apsnd JStr) (az_deployments c)))])"

definition region_char :: "char \<Rightarrow> bool" where
  "region_char c \<longleftrightarrow> is_digit c \<or> (is_alpha c \<and> lower_char c = c)"

text \<open>\<open>^[a-z0-9](?:[a-z0-9-]*[a-z0-9])?$\<close>\<close>

definition aws_region :: "string \<Rightarrow> bool" where
  "aws_region r \<longleftrightarrow> r \<noteq> '''' \<and> list_all (\<lambda>c. region_char c \<or> c = CHR ''-'') r \<and> region_char (hd r) \<and> region_char (last r)"

definition parseBedrockConfig :: "json option \<Rightarrow> string + (string \<times> string)" where
  "parseBedrockConfig v =
     (let region = trimmed_field ''region'' v; accessKeyId = trimmed_field ''access_key_id'' v in
      if \<not> aws_region region then Inl ''Name the AWS region Bedrock requests should call (e.g. us-east-1).''
      else if length accessKeyId < 16 \<or> 128 < length accessKeyId
        then Inl ''The AWS access key id pairs with the secret and is required.''
      else Inr (region, accessKeyId))"

definition parseFireworksConfig :: "json option \<Rightarrow> string + string" where
  "parseFireworksConfig v =
     (let accountId = trimmed_field ''account_id'' v in
      if accountId = '''' \<or> 128 < length accountId
      then Inl ''The Fireworks account id is required, it is the account slug on fireworks.ai.''
      else Inr accountId)"

definition right_arrow :: string where "right_arrow = [CHR 0xE2, CHR 0x86, CHR 0x92]"

definition parseModalSecret :: "json option \<Rightarrow> string + string" where
  "parseModalSecret v =
     (let tokenId = trimmed_field ''token_id'' v; tokenSecret = trimmed_field ''token_secret'' v in
      if \<not> startsWith tokenId ''ak-'' \<or> length tokenId < 4
        then Inl (''The Modal token id must start with ak- (from modal.com '' @ right_arrow @ '' Settings '' @ right_arrow @ '' API tokens).'')
      else if \<not> startsWith tokenSecret ''as-'' \<or> length tokenSecret < 4
        then Inl ''The Modal token secret must start with as- (shown once when the token is created).''
      else Inr (json_stringify (JObj [(''token_id'', JStr tokenId), (''token_secret'', JStr tokenSecret)])))"

definition SPEND_KEY_PROVIDERS :: "string list" where "SPEND_KEY_PROVIDERS = [''anthropic'', ''openai'']"

definition isSpendKeyProvider :: "string \<Rightarrow> bool" where
  "isSpendKeyProvider p = List.member SPEND_KEY_PROVIDERS p"

definition ADMIN_KEY_PREFIXES :: "string \<Rightarrow> string" where
  "ADMIN_KEY_PREFIXES p = (if p = ''anthropic'' then ''sk-ant-admin'' else ''sk-admin-'')"

definition parseSpendSecret :: "string \<Rightarrow> json \<Rightarrow> string + string" where
  "parseSpendSecret provider v =
     (let secret = (case v of JStr s \<Rightarrow> trim s | _ \<Rightarrow> '''') in
      if secret = '''' then Inl ''An admin key is required when one is provided.''
      else if \<not> startsWith secret (ADMIN_KEY_PREFIXES provider) then
        Inl (if provider = ''anthropic''
             then ''That looks like an Anthropic inference key (sk-ant-api'' @ ellipsis @ ''), but the admin slot needs an ADMIN key (sk-ant-admin''
               @ ellipsis @ ''), the two key types are disjoint. The inference key belongs in the main API-key field.''
             else ''That looks like an OpenAI project/inference key (sk-'' @ ellipsis @ ''), but the admin slot needs an ADMIN key (sk-admin-''
               @ ellipsis @ '', scope api.usage.read), the two key types are disjoint. The project key belongs in the main API-key field.'')
      else Inr secret)"

definition mainSlotAdminKeyError :: "string \<Rightarrow> string \<Rightarrow> string option" where
  "mainSlotAdminKeyError provider secret =
     (if provider = ''anthropic'' \<and> startsWith secret (ADMIN_KEY_PREFIXES ''anthropic'') then
        Some (''That is an Anthropic ADMIN key (sk-ant-admin'' @ ellipsis @ ''), which cannot do inference, the two key types are disjoint. Paste an inference API key (sk-ant-api''
          @ ellipsis @ '') here; the admin key belongs in the optional admin-key field.'')
      else if provider = ''openai'' \<and> startsWith secret (ADMIN_KEY_PREFIXES ''openai'') then
        Some (''That is an OpenAI ADMIN key (sk-admin-'' @ ellipsis @ ''), which does not serve inference, the two key types are disjoint. Paste a project API key (sk-''
          @ ellipsis @ '') here; the admin key belongs in the optional admin-key field.'')
      else None)"

record deployment_fact =
  df_deployment :: string
  df_deployed :: bool
  df_checked_at :: "string option"
  df_remediation :: "string option"

definition modelDeploymentFact :: "json option \<Rightarrow> string \<Rightarrow> deployment_fact option" where
  "modelDeploymentFact detail model =
     (case jfield model (jfield ''models'' detail) of
        None \<Rightarrow> None
      | Some fct \<Rightarrow>
          (case (jget ''deployment'' fct, jget ''deployed'' fct) of
             (Some (JStr d), Some (JBool b)) \<Rightarrow>
               Some \<lparr>df_deployment = d, df_deployed = b, df_checked_at = jstr (jget ''checked_at'' fct), df_remediation = jstr (jget ''remediation'' fct)\<rparr>
           | _ \<Rightarrow> None))"

section \<open>The form\<close>

record config_field =
  fl_name :: string
  fl_required :: bool

datatype secret_field = Single | Pair

record field_schema =
  fs_secret :: secret_field
  fs_config :: "config_field list"
  fs_deployments :: bool
  fs_spend_key :: bool

abbreviation required_field :: "string \<Rightarrow> config_field" where "required_field n \<equiv> \<lparr>fl_name = n, fl_required = True\<rparr>"

definition PROVIDER_FIELD_SCHEMAS :: "(string \<times> field_schema) list" where
  "PROVIDER_FIELD_SCHEMAS =
    [(''openai'', \<lparr>fs_secret = Single, fs_config = [], fs_deployments = False, fs_spend_key = True\<rparr>),
     (''anthropic'', \<lparr>fs_secret = Single, fs_config = [], fs_deployments = False, fs_spend_key = True\<rparr>),
     (''gemini'', \<lparr>fs_secret = Single, fs_config = [], fs_deployments = False, fs_spend_key = False\<rparr>),
     (''azure_openai'', \<lparr>fs_secret = Single, fs_config = [required_field ''endpoint'', \<lparr>fl_name = ''api_version'', fl_required = False\<rparr>],
        fs_deployments = True, fs_spend_key = False\<rparr>),
     (''openrouter'', \<lparr>fs_secret = Single, fs_config = [], fs_deployments = False, fs_spend_key = False\<rparr>),
     (''bedrock'', \<lparr>fs_secret = Single, fs_config = [required_field ''access_key_id'', required_field ''region''], fs_deployments = False, fs_spend_key = False\<rparr>),
     (''fireworks'', \<lparr>fs_secret = Single, fs_config = [required_field ''account_id''], fs_deployments = False, fs_spend_key = False\<rparr>),
     (''modal'', \<lparr>fs_secret = Pair, fs_config = [], fs_deployments = False, fs_spend_key = False\<rparr>)]"

text \<open>What the inputs hold; a deployment row is a model and its deployment.\<close>

record form_values =
  fv_secret :: string
  fv_token_id :: string
  fv_token_secret :: string
  fv_spend_secret :: string
  fv_config :: "string \<Rightarrow> string option"
  fv_rows :: "(string \<times> string) list"

definition complete_rows :: "form_values \<Rightarrow> (string \<times> string) list" where
  "complete_rows v = filter (\<lambda>(m, d). trim m \<noteq> '''' \<and> trim d \<noteq> '''') (fv_rows v)"

definition filled :: "form_values \<Rightarrow> string \<Rightarrow> string" where
  "filled v k = (case fv_config v k of None \<Rightarrow> '''' | Some s \<Rightarrow> trim s)"

definition isProviderFormReady :: "field_schema \<Rightarrow> form_values \<Rightarrow> bool" where
  "isProviderFormReady schema v \<longleftrightarrow>
     (if fs_secret schema = Pair then trim (fv_token_id v) \<noteq> '''' \<and> trim (fv_token_secret v) \<noteq> '''' else trim (fv_secret v) \<noteq> '''')
     \<and> list_all (\<lambda>fd. \<not> fl_required fd \<or> filled v (fl_name fd) \<noteq> '''') (fs_config schema)
     \<and> (\<not> fs_deployments schema \<or> complete_rows v \<noteq> [])"

text \<open>The body the form sends; \<open>Object.fromEntries\<close> keeps the place of a repeated key and its last value.\<close>

definition form_config :: "field_schema \<Rightarrow> form_values \<Rightarrow> (string \<times> json) list" where
  "form_config schema v =
     map (\<lambda>fd. (fl_name fd, JStr (filled v (fl_name fd))))
       (filter (\<lambda>fd. fl_required fd \<or> filled v (fl_name fd) \<noteq> '''') (fs_config schema))
     @ (if fs_deployments schema
        then [(''deployments'', JObj (fold (\<lambda>(m, d). map_set (trim m) (JStr (trim d))) (complete_rows v) []))] else [])"

definition form_payload :: "field_schema \<Rightarrow> form_values \<Rightarrow> json" where
  "form_payload schema v =
     JObj ([(''secret'', if fs_secret schema = Pair
               then JObj [(''token_id'', JStr (trim (fv_token_id v))), (''token_secret'', JStr (trim (fv_token_secret v)))]
               else JStr (trim (fv_secret v)))]
       @ (if trim (fv_spend_secret v) \<noteq> '''' then [(''spendSecret'', JStr (trim (fv_spend_secret v)))] else [])
       @ [(''config'', JObj (form_config schema v))])"

section \<open>What a parser accepts\<close>

lemma trim_Nil [simp]: "trim '''' = ''''"
  by (simp add: trim_def trim_start_def)

definition tidy :: "string \<Rightarrow> bool" where "tidy s \<longleftrightarrow> trim s = s \<and> s \<noteq> ''''"

lemma tidy_trim [simp]: "tidy (trim s) \<longleftrightarrow> trim s \<noteq> ''''"
  by (simp add: tidy_def)

text \<open>The rows that are stored: distinct, trimmed, filled in.\<close>

definition deployments_ok :: "(string, string) jsmap \<Rightarrow> bool" where
  "deployments_ok ds \<longleftrightarrow> distinct (map fst ds) \<and> list_all (\<lambda>(m, d). tidy m \<and> tidy d \<and> m \<noteq> ''__proto__'') ds"

lemma set_update_list: "set (AList.update k v al) \<subseteq> insert (k, v) (set al)"
  by (induction al) auto

lemma azure_deployments_ok:
  "azure_deployments kvs acc = Inr ds \<Longrightarrow> deployments_ok acc \<Longrightarrow> deployments_ok ds"
proof (induction kvs acc rule: azure_deployments.induct)
  case (2 modelType d rest acc)
  have "deployments_ok (map_set (trim modelType) v acc)" if "tidy (trim modelType)" "tidy v" "trim modelType \<noteq> ''__proto__''" for v
    using "2.prems"(2) that set_update_list [of "trim modelType" v acc]
    by (auto simp: deployments_ok_def distinct_update list_all_iff)
  then show ?case using 2 by (auto split: json.splits if_splits)
qed simp

lemma azure_deployments_again:
  "deployments_ok (acc @ ds) \<Longrightarrow> azure_deployments (map (apsnd JStr) ds) acc = Inr (acc @ ds)"
proof (induction ds arbitrary: acc)
  case (Cons kv ds)
  obtain k v where kv: "kv = (k, v)" by (cases kv)
  have ok: "trim k = k" "k \<noteq> ''''" "trim v = v" "v \<noteq> ''''" "k \<noteq> ''__proto__''" "k \<notin> fst ` set acc"
    using Cons.prems by (auto simp: kv deployments_ok_def tidy_def)
  have "AList.update k v acc = acc @ [(k, v)]" using ok(6) by (induction acc) auto
  moreover have "deployments_ok ((acc @ [(k, v)]) @ ds)" using Cons.prems by (simp add: kv)
  ultimately show ?case using Cons.IH [of "acc @ [(k, v)]"] ok by (simp add: kv)
qed simp

text \<open>A stored Azure setting, submitted again as it is stored, is accepted and stays as it is.\<close>

lemma azure_config_is_stable:
  assumes "parseAzureConfig u v = Inr c"
  shows "parseAzureConfig u (Some (azure_json c)) = Inr c"
proof -
  obtain kvs where d: "azure_deployments kvs [] = Inr (az_deployments c)"
    and e: "az_endpoint c = trimmed_field ''endpoint'' v" "az_endpoint c \<noteq> ''''" "validatePublicHttps u (az_endpoint c) = None"
    and a: "az_version c = (if trimmed_field ''api_version'' v \<noteq> '''' then Some (trimmed_field ''api_version'' v) else None)"
      "trimmed_field ''api_version'' v \<noteq> '''' \<longrightarrow> azure_version (trimmed_field ''api_version'' v)"
    and n: "az_deployments c \<noteq> []"
    using assms by (auto simp: parseAzureConfig_def Let_def split: if_splits option.splits json.splits sum.splits)
  have ok: "deployments_ok (az_deployments c)" using azure_deployments_ok [OF d] by (simp add: deployments_ok_def)
  have t: "trim (trimmed_field k v) = trimmed_field k v" for k by (auto simp: trimmed_field_def split: option.splits json.splits)
  have read: "jfield ''endpoint'' (Some (azure_json c)) = Some (JStr (az_endpoint c))"
    "jfield ''api_version'' (Some (azure_json c)) = map_option JStr (az_version c)"
    "jfield ''deployments'' (Some (azure_json c)) = Some (JObj (map (apsnd JStr) (az_deployments c)))"
    by (simp_all add: jfield_def azure_json_def split: option.split)
  then have field: "trimmed_field ''endpoint'' (Some (azure_json c)) = az_endpoint c"
    "trimmed_field ''api_version'' (Some (azure_json c)) = (case az_version c of None \<Rightarrow> '''' | Some w \<Rightarrow> w)"
    using t [of "''endpoint''"] t [of "''api_version''"] e(1) a(1) by (simp_all add: trimmed_field_def split: option.split if_splits)
  have again: "azure_deployments (map (apsnd JStr) (az_deployments c)) [] = Inr (az_deployments c)"
    using azure_deployments_again [of "[]"] ok by simp
  show ?thesis
  proof (cases "az_version c")
    case None
    then show ?thesis unfolding parseAzureConfig_def field read using e n again by simp
  next
    case (Some w)
    then have "azure_version w" "w \<noteq> ''''" using a by (auto split: if_splits)
    then show ?thesis unfolding parseAzureConfig_def field read using Some e n again by simp
  qed
qed

lemma modal_secret_reads_back:
  assumes "parseModalSecret v = Inr s"
  obtains a b where "json_parse s = Some (JObj [(''token_id'', JStr a), (''token_secret'', JStr b)])"
    and "startsWith a ''ak-''" and "startsWith b ''as-''" and "a = trimmed_field ''token_id'' v" and "b = trimmed_field ''token_secret'' v"
proof -
  let ?j = "JObj [(''token_id'', JStr (trimmed_field ''token_id'' v)), (''token_secret'', JStr (trimmed_field ''token_secret'' v))]"
  have "startsWith (trimmed_field ''token_id'' v) ''ak-''" "startsWith (trimmed_field ''token_secret'' v) ''as-''" "s = json_stringify ?j"
    using assms unfolding parseModalSecret_def Let_def by (auto split: if_splits)
  moreover have "json_parse (json_stringify ?j) = Some ?j" by (rule json_parse_stringify) simp
  ultimately show ?thesis using that by simp
qed

lemma connectable_loop_ok:
  "distinct scoped \<Longrightarrow> set scoped \<subseteq> set MODEL_PROVIDERS \<Longrightarrow>
     distinct (connectable_loop ps scoped) \<and> set (connectable_loop ps scoped) = set scoped \<union> (set ps \<inter> set MODEL_PROVIDERS)"
  by (induction ps scoped rule: connectable_loop.induct) (auto simp: isModelProvider_def)

text \<open>The flow that adds a key always has a provider to offer, each once, and none that cannot be connected.\<close>

lemma MODEL_PROVIDERS_listed: "MODEL_PROVIDERS \<noteq> []" "distinct MODEL_PROVIDERS"
  by code_simp+

lemma a_provider_is_always_offered:
  "connectableProvidersForModel ps \<noteq> [] \<and> distinct (connectableProvidersForModel ps)
   \<and> set (connectableProvidersForModel ps) \<subseteq> set MODEL_PROVIDERS
   \<and> (list_ex isModelProvider ps \<longrightarrow> set (connectableProvidersForModel ps) = set ps \<inter> set MODEL_PROVIDERS)"
proof -
  have "distinct (connectable_loop ps [])" "set (connectable_loop ps []) = set ps \<inter> set MODEL_PROVIDERS"
    using connectable_loop_ok [of "[]" ps] by simp_all
  moreover have "list_ex isModelProvider ps \<Longrightarrow> set ps \<inter> set MODEL_PROVIDERS \<noteq> {}"
    by (auto simp: list_ex_iff isModelProvider_def)
  ultimately show ?thesis
    using MODEL_PROVIDERS_listed by (auto simp: connectableProvidersForModel_def Let_def)
qed

text \<open>
  The guard of the Azure endpoint lets addresses through that reach no public host: the unspecified
  address and carrier-grade and IPv6 private ranges, which the backend's rule refuses.
\<close>

lemma internal_addresses_pass:
  "\<not> list_ex (\<lambda>h. privateHost (trailing_dots (toLowerCase h))) [''0.0.0.0'', ''100.64.0.1'', ''[::ffff:7f00:1]'', ''[fd00::1]'']
   \<and> list_all (\<lambda>h. privateHost (trailing_dots (toLowerCase h))) [''LOCALHOST.'', ''127.0.0.1'', ''172.31.0.9'', ''printer.local'']"
  by code_simp

text \<open>The parser bounds no region name; the backend refuses one longer than 64 characters.\<close>

lemma long_region_passes: "aws_region (replicate 65 (CHR ''a''))"
  by code_simp

end
