(* ===== verification/Vault_Store.thy ===== *)
theory Vault_Store
  imports Members Model_Providers "HOL-Library.Multiset"
begin

text \<open>
  Stored credentials: the vault and the SQL functions that are the only way into it
  (\<open>20260724090000_trace_ingests_and_connections.sql\<close>, \<open>20260725100000_trace_connection_disconnect.sql\<close>,
  \<open>20260819210000_provider_connection_status.sql\<close>, \<open>20260820011000_provider_spend_credentials.sql\<close>,
  \<open>20260831120000_gateway_prompt_capture.sql\<close>). A function either raises and changes nothing or answers with the
  row it wrote. The vault of the model holds the secrets of the two connection tables; the ids of a new
  row and of a new secret are arguments, and an id already taken violates its primary key.
\<close>

section \<open>The vault\<close>

definition raised :: "string \<Rightarrow> dberror" where
  "raised msg = \<lparr>code = Some ''P0001'', message = msg\<rparr>"

definition kind_violation :: dberror where
  "kind_violation = \<lparr>code = Some ''23514'', message = ''new row violates check constraint''\<rparr>"

definition create_secret :: "string \<Rightarrow> string \<Rightarrow> (string \<times> string) list \<Rightarrow> dberror + (string \<times> string) list" where
  "create_secret vid secret v = (if vid \<in> set (map fst v) then Inl unique_violation else Inr (v @ [(vid, secret)]))"

definition update_secret :: "string \<Rightarrow> string \<Rightarrow> (string \<times> string) list \<Rightarrow> (string \<times> string) list" where
  "update_secret vid secret v = map (\<lambda>(k, x). (k, if k = vid then secret else x)) v"

definition delete_secrets :: "string list \<Rightarrow> (string \<times> string) list \<Rightarrow> (string \<times> string) list" where
  "delete_secrets vids v = filter (\<lambda>(k, x). \<not> List.member vids k) v"

text \<open>\<open>right(s, 4)\<close>, \<open>nullif(btrim(s), '')\<close> and \<open>lower\<close> of it.\<close>

definition right4 :: "string \<Rightarrow> string" where "right4 s = drop (length s - 4) s"

definition sql_text :: "string \<Rightarrow> string option" where
  "sql_text s = (let t = rev (dropWhile (\<lambda>c. c = CHR '' '') (rev (dropWhile (\<lambda>c. c = CHR '' '') s))) in
     if t = '''' then None else Some t)"

definition sql_name :: "string \<Rightarrow> string option" where
  "sql_name s = map_option toLowerCase (sql_text s)"

definition at_slot :: "string \<Rightarrow> string \<Rightarrow> ('a conn_row_scheme) \<Rightarrow> bool" where
  "at_slot oid kind r \<longleftrightarrow> c_org r = oid \<and> c_kind r = kind"

record store_call =
  sc_org :: string
  sc_kind :: string
  sc_config :: json
  sc_secret :: string
  sc_actor :: string
  sc_now :: int
  sc_new_id :: string
  sc_new_vault :: string

definition rotated :: "store_call \<Rightarrow> ('a conn_row_scheme) \<Rightarrow> ('a conn_row_scheme)" where
  "rotated c r = r\<lparr>c_config := sc_config c, c_last4 := right4 (sc_secret c), c_updated_by := sql_text (sc_actor c), c_updated_at := sc_now c\<rparr>"

definition org_known :: "string \<Rightarrow> db \<Rightarrow> bool" where
  "org_known oid s \<longleftrightarrow> list_ex (\<lambda>g. o_id g = oid) (organizations s)"

section \<open>Trace connections\<close>

definition TRACE_KINDS :: "string list" where
  "TRACE_KINDS = [''phoenix'', ''langfuse'', ''langsmith'', ''braintrust'', ''posthog'', ''mastra'', ''postgres'']"

definition new_trace_row :: "store_call \<Rightarrow> string \<Rightarrow> conn_row" where
  "new_trace_row c kind =
     \<lparr>c_id = sc_new_id c, c_org = sc_org c, c_kind = kind, c_config = sc_config c, c_vault = sc_new_vault c,
      c_last4 = right4 (sc_secret c), c_created_by = sql_text (sc_actor c), c_updated_by = sql_text (sc_actor c),
      c_created_at = sc_now c, c_updated_at = sc_now c\<rparr>"

definition upsert_trace_connection :: "store_call \<Rightarrow> db \<Rightarrow> dberror + (conn_row \<times> db)" where
  "upsert_trace_connection c s =
     (case sql_name (sc_kind c) of
        None \<Rightarrow> Inl (raised ''connection kind is required'')
      | Some kind \<Rightarrow>
          if sc_secret c = '''' then Inl (raised ''connection credential is required'')
          else if \<not> org_known (sc_org c) s then Inl (raised (''organization not found: '' @ sc_org c))
          else (case first_where (at_slot (sc_org c) kind) (trace_connections s) of
             None \<Rightarrow>
               (case create_secret (sc_new_vault c) (sc_secret c) (vault_secrets s) of
                  Inl e \<Rightarrow> Inl e
                | Inr v \<Rightarrow>
                    if \<not> List.member TRACE_KINDS kind then Inl kind_violation
                    else if sc_new_id c \<in> set (map c_id (trace_connections s)) then Inl unique_violation
                    else Inr (new_trace_row c kind,
                              s\<lparr>vault_secrets := v, trace_connections := trace_connections s @ [new_trace_row c kind]\<rparr>))
           | Some r \<Rightarrow>
               Inr (rotated c r, s\<lparr>vault_secrets := update_secret (c_vault r) (sc_secret c) (vault_secrets s),
                                   trace_connections := update_where (\<lambda>x. c_id x = c_id r) (rotated c) (trace_connections s)\<rparr>)))"

text \<open>\<open>config || patch\<close> on objects: a key of the patch replaces the key of the settings.\<close>

definition json_merge :: "json \<Rightarrow> (string \<times> json) list \<Rightarrow> json" where
  "json_merge cfg patch = (case cfg of JObj kvs \<Rightarrow> JObj (fold (\<lambda>(k, v). map_set k v) patch kvs) 
     | JArr xs \<Rightarrow> JArr (xs @ [JObj patch]) | _ \<Rightarrow> JArr [cfg, JObj patch])"

definition update_trace_connection_config :: "string \<Rightarrow> string \<Rightarrow> (string \<times> json) list \<Rightarrow> int \<Rightarrow> db \<Rightarrow> dberror + (conn_row list \<times> db)" where
  "update_trace_connection_config oid kind patch now s =
     (let hit = (\<lambda>r. c_org r = oid \<and> sql_name kind = Some (c_kind r));
          f = (\<lambda>r. r\<lparr>c_config := json_merge (c_config r) patch, c_updated_at := now\<rparr>)
      in Inr (map f (filter hit (trace_connections s)), s\<lparr>trace_connections := update_where hit f (trace_connections s)\<rparr>))"

definition delete_trace_connection :: "string \<Rightarrow> string \<Rightarrow> db \<Rightarrow> dberror + (bool \<times> db)" where
  "delete_trace_connection oid kind s =
     (case first_where (\<lambda>r. c_org r = oid \<and> sql_name kind = Some (c_kind r)) (trace_connections s) of
        None \<Rightarrow> Inr (False, s)
      | Some r \<Rightarrow> Inr (True, s\<lparr>trace_connections := filter (\<lambda>x. c_id x \<noteq> c_id r) (trace_connections s),
                              vault_secrets := delete_secrets [c_vault r] (vault_secrets s)\<rparr>))"

section \<open>Provider connections\<close>

definition touch_endpoints :: "string \<Rightarrow> int \<Rightarrow> endpoint_row list \<Rightarrow> endpoint_row list" where
  "touch_endpoints oid now es = update_where (\<lambda>e. ep_org e = oid) (\<lambda>e. e\<lparr>ep_updated_at := now\<rparr>) es"

definition PROVIDER_KINDS :: "string list" where
  "PROVIDER_KINDS = [''openai'', ''anthropic'', ''azure_openai'', ''openrouter'', ''gemini'', ''bedrock'', ''fireworks'', ''modal'']"

definition new_provider_row :: "store_call \<Rightarrow> string \<Rightarrow> provider_row" where
  "new_provider_row c kind =
     \<lparr>c_id = sc_new_id c, c_org = sc_org c, c_kind = kind, c_config = sc_config c, c_vault = sc_new_vault c,
      c_last4 = right4 (sc_secret c), c_created_by = sql_text (sc_actor c), c_updated_by = sql_text (sc_actor c),
      c_created_at = sc_now c, c_updated_at = sc_now c,
      pr_spend_vault = None, pr_spend_last4 = None, pr_status = ''unchecked'', pr_status_detail = None, pr_status_checked_at = None,
      pr_status_source = None, pr_declared_usd = None, pr_declared_at = None, pr_metered_usd = js_int 0, pr_threshold_usd = js_int 5\<rparr>"

definition reset_verdict :: "provider_row \<Rightarrow> provider_row" where
  "reset_verdict r = r\<lparr>pr_status := ''unchecked'', pr_status_detail := None, pr_status_checked_at := None, pr_status_source := None\<rparr>"

definition upsert_provider_connection :: "store_call \<Rightarrow> db \<Rightarrow> dberror + (provider_row \<times> db)" where
  "upsert_provider_connection c s =
     (case sql_name (sc_kind c) of
        None \<Rightarrow> Inl (raised ''provider is required'')
      | Some kind \<Rightarrow>
          if sc_secret c = '''' then Inl (raised ''provider credential is required'')
          else if length (sc_secret c) < 12 then Inl (raised ''provider credential is too short to be a real API key'')
          else if \<not> org_known (sc_org c) s then Inl (raised (''organization not found: '' @ sc_org c))
          else (case first_where (at_slot (sc_org c) kind) (provider_connections s) of
             None \<Rightarrow>
               (case create_secret (sc_new_vault c) (sc_secret c) (vault_secrets s) of
                  Inl e \<Rightarrow> Inl e
                | Inr v \<Rightarrow>
                    if \<not> List.member PROVIDER_KINDS kind then Inl kind_violation
                    else if sc_new_id c \<in> set (map c_id (provider_connections s)) then Inl unique_violation
                    else Inr (new_provider_row c kind,
                              s\<lparr>vault_secrets := v, provider_connections := provider_connections s @ [new_provider_row c kind],
                                serving_endpoints := touch_endpoints (sc_org c) (sc_now c) (serving_endpoints s)\<rparr>))
           | Some r \<Rightarrow>
               Inr (reset_verdict (rotated c r),
                    s\<lparr>vault_secrets := update_secret (c_vault r) (sc_secret c) (vault_secrets s),
                      provider_connections := update_where (\<lambda>x. c_id x = c_id r) (\<lambda>x. reset_verdict (rotated c x)) (provider_connections s),
                      serving_endpoints := touch_endpoints (sc_org c) (sc_now c) (serving_endpoints s)\<rparr>)))"

text \<open>The admin key: \<open>sc_new_vault\<close> is the id of its secret when the connection has none yet.\<close>

definition with_spend :: "store_call \<Rightarrow> string \<Rightarrow> provider_row \<Rightarrow> provider_row" where
  "with_spend c vid r = r\<lparr>pr_spend_vault := Some vid, pr_spend_last4 := Some (right4 (sc_secret c)),
     c_updated_by := sql_text (sc_actor c), c_updated_at := sc_now c\<rparr>"

definition set_provider_connection_spend_credential :: "store_call \<Rightarrow> db \<Rightarrow> dberror + (provider_row \<times> db)" where
  "set_provider_connection_spend_credential c s =
     (case sql_name (sc_kind c) of
        None \<Rightarrow> Inl (raised ''provider is required'')
      | Some kind \<Rightarrow>
          if sc_secret c = '''' then Inl (raised ''provider spend credential is required'')
          else if length (sc_secret c) < 12 then Inl (raised ''provider spend credential is too short to be a real API key'')
          else (case first_where (at_slot (sc_org c) kind) (provider_connections s) of
             None \<Rightarrow> Inl (raised (''provider connection not found for org '' @ sc_org c @ '' provider '' @ kind))
           | Some r \<Rightarrow>
               (case (case pr_spend_vault r of
                        None \<Rightarrow> map_sum id (\<lambda>v. (sc_new_vault c, v)) (create_secret (sc_new_vault c) (sc_secret c) (vault_secrets s))
                      | Some vid \<Rightarrow> Inr (vid, update_secret vid (sc_secret c) (vault_secrets s))) of
                  Inl e \<Rightarrow> Inl e
                | Inr (vid, v) \<Rightarrow>
                    Inr (with_spend c vid r, s\<lparr>vault_secrets := v,
                      provider_connections := update_where (\<lambda>x. c_id x = c_id r) (with_spend c vid) (provider_connections s)\<rparr>))))"

definition spend_refs :: "provider_row \<Rightarrow> string list" where
  "spend_refs r = (case pr_spend_vault r of None \<Rightarrow> [] | Some v \<Rightarrow> [v])"

text \<open>Deleting a connection takes its account snapshots with it (\<open>on delete cascade\<close>).\<close>

definition delete_provider_connection :: "string \<Rightarrow> string \<Rightarrow> int \<Rightarrow> db \<Rightarrow> dberror + (bool \<times> db)" where
  "delete_provider_connection oid kind now s =
     (case first_where (\<lambda>r. c_org r = oid \<and> sql_name kind = Some (c_kind r)) (provider_connections s) of
        None \<Rightarrow> Inr (False, s)
      | Some r \<Rightarrow> Inr (True, s\<lparr>provider_connections := filter (\<lambda>x. c_id x \<noteq> c_id r) (provider_connections s),
                              account_snapshots := filter (\<lambda>n. sn_connection n \<noteq> c_id r) (account_snapshots s),
                              vault_secrets := delete_secrets (c_vault r # spend_refs r) (vault_secrets s),
                              serving_endpoints := touch_endpoints oid now (serving_endpoints s)\<rparr>))"

section \<open>Every secret has one owner\<close>

text \<open>
  \<open>holds Q v vid tail\<close>: the vault has a secret under the id, it satisfies \<open>Q\<close> and the tail shown to members is its
  last four characters. A connection's secrets are in their slots: the main one is no admin key of a provider that
  has them, the spending one is.
\<close>

definition holds :: "(string \<Rightarrow> bool) \<Rightarrow> (string \<times> string) list \<Rightarrow> string \<Rightarrow> string \<Rightarrow> bool" where
  "holds Q v vid tail \<longleftrightarrow> (case map_of v vid of None \<Rightarrow> False | Some sec \<Rightarrow> tail = right4 sec \<and> Q sec)"

definition main_slot :: "string \<Rightarrow> string \<Rightarrow> bool" where
  "main_slot kind sec \<longleftrightarrow> mainSlotAdminKeyError kind sec = None"

definition spend_slot :: "string \<Rightarrow> string \<Rightarrow> bool" where
  "spend_slot kind sec \<longleftrightarrow> isSpendKeyProvider kind \<and> startsWith sec (ADMIN_KEY_PREFIXES kind)"

definition trace_ok :: "(string \<times> string) list \<Rightarrow> conn_row \<Rightarrow> bool" where
  "trace_ok v r \<longleftrightarrow> holds (\<lambda>_. True) v (c_vault r) (c_last4 r)"

definition provider_ok :: "(string \<times> string) list \<Rightarrow> provider_row \<Rightarrow> bool" where
  "provider_ok v r \<longleftrightarrow> holds (main_slot (c_kind r)) v (c_vault r) (c_last4 r)
     \<and> (case pr_spend_vault r of
          None \<Rightarrow> pr_spend_last4 r = None
        | Some w \<Rightarrow> (case pr_spend_last4 r of None \<Rightarrow> False | Some t \<Rightarrow> holds (spend_slot (c_kind r)) v w t))"

definition trace_refs :: "conn_row list \<Rightarrow> string list" where "trace_refs ts = map c_vault ts"

definition provider_refs :: "provider_row list \<Rightarrow> string list" where
  "provider_refs ps = concat (map (\<lambda>r. c_vault r # spend_refs r) ps)"

abbreviation slot :: "('a conn_row_scheme) \<Rightarrow> string \<times> string" where "slot r \<equiv> (c_org r, c_kind r)"

definition stored :: "(string \<times> string) list \<Rightarrow> conn_row list \<Rightarrow> provider_row list \<Rightarrow> bool" where
  "stored v ts ps \<longleftrightarrow> distinct (map fst v) \<and> mset (trace_refs ts) + mset (provider_refs ps) = mset (map fst v)
     \<and> distinct (map c_id ts) \<and> distinct (map slot ts) \<and> distinct (map c_id ps) \<and> distinct (map slot ps)
     \<and> list_all (trace_ok v) ts \<and> list_all (provider_ok v) ps"

definition vault_wf :: "db \<Rightarrow> bool" where
  "vault_wf s \<longleftrightarrow> stored (vault_secrets s) (trace_connections s) (provider_connections s)"

lemma keys_update_secret [simp]: "map fst (update_secret vid sec v) = map fst v"
  by (induction v) (auto simp: update_secret_def)

lemma map_of_update_secret: "map_of (update_secret vid sec v) k = (if k = vid then map_option (\<lambda>_. sec) (map_of v k) else map_of v k)"
  by (induction v) (auto simp: update_secret_def)

lemma map_of_new_secret:
  "vid \<notin> fst ` set v \<Longrightarrow> map_of (v @ [(vid, sec)]) vid = Some sec"
  "k \<in> fst ` set v \<Longrightarrow> map_of (v @ [(vid, sec)]) k = map_of v k"
  by (induction v) auto

lemma map_of_delete_secrets: "k \<notin> set vids \<Longrightarrow> map_of (delete_secrets vids v) k = map_of v k"
  by (induction v) (auto simp: delete_secrets_def)

lemma keys_delete_secrets: "map fst (delete_secrets vids v) = filter (\<lambda>k. k \<notin> set vids) (map fst v)"
  by (induction v) (auto simp: delete_secrets_def)

lemma holds_new [simp]: "vid \<notin> set (map fst v) \<Longrightarrow> holds Q (v @ [(vid, sec)]) vid tail \<longleftrightarrow> tail = right4 sec \<and> Q sec"
  by (induction v) (auto simp: holds_def)

lemma holds_append: "holds Q v w t \<Longrightarrow> holds Q (v @ x) w t"
  by (auto simp: holds_def split: option.splits)

lemma holds_update_other: "w \<noteq> vid \<Longrightarrow> holds Q (update_secret vid sec v) w t \<longleftrightarrow> holds Q v w t"
  by (simp add: holds_def map_of_update_secret)

lemma holds_update_self: "vid \<in> fst ` set v \<Longrightarrow> holds Q (update_secret vid sec v) vid t \<longleftrightarrow> t = right4 sec \<and> Q sec"
  by (auto simp: holds_def map_of_update_secret map_of_eq_None_iff split: option.splits)

lemma holds_key: "holds Q v w t \<Longrightarrow> w \<in> fst ` set v"
  using map_of_SomeD [of v w] by (force simp: holds_def split: option.splits)

lemma holds_delete: "w \<notin> set vids \<Longrightarrow> holds Q (delete_secrets vids v) w t \<longleftrightarrow> holds Q v w t"
  by (simp add: holds_def map_of_delete_secrets)

lemma trace_ok_append: "trace_ok v r \<Longrightarrow> trace_ok (v @ x) r"
  by (simp add: trace_ok_def holds_append)

lemma provider_ok_append: "provider_ok v r \<Longrightarrow> provider_ok (v @ x) r"
  by (auto simp: provider_ok_def holds_append split: option.splits)

lemma trace_ok_update_other: "c_vault r \<noteq> vid \<Longrightarrow> trace_ok (update_secret vid sec v) r \<longleftrightarrow> trace_ok v r"
  by (simp add: trace_ok_def holds_update_other)

lemma provider_ok_update_other:
  "vid \<notin> set (c_vault r # spend_refs r) \<Longrightarrow> provider_ok (update_secret vid sec v) r \<longleftrightarrow> provider_ok v r"
  by (auto simp: provider_ok_def spend_refs_def holds_update_other split: option.splits)

lemma providers_ok_update_other:
  assumes "\<And>p. p \<in> set ps \<Longrightarrow> vid \<notin> set (c_vault p # spend_refs p)" and "list_all (provider_ok v) ps"
  shows "list_all (provider_ok (update_secret vid sec v)) ps"
  unfolding list_all_iff
proof
  fix p assume "p \<in> set ps"
  with assms show "provider_ok (update_secret vid sec v) p" using provider_ok_update_other [OF assms(1)] by (simp add: list_all_iff)
qed

lemma traces_ok_update_other:
  "vid \<notin> set (map c_vault ts) \<Longrightarrow> list_all (trace_ok v) ts \<Longrightarrow> list_all (trace_ok (update_secret vid sec v)) ts"
  by (induction ts) (auto simp: trace_ok_update_other)

lemma traces_ok_delete:
  "set vids \<inter> set (map c_vault ts) = {} \<Longrightarrow> list_all (trace_ok v) ts \<Longrightarrow> list_all (trace_ok (delete_secrets vids v)) ts"
  by (induction ts) (auto simp: trace_ok_def holds_delete)

lemma provider_ok_delete: "set vids \<inter> set (c_vault r # spend_refs r) = {} \<Longrightarrow> provider_ok (delete_secrets vids v) r \<longleftrightarrow> provider_ok v r"
  by (auto simp: provider_ok_def spend_refs_def holds_delete split: option.splits)

lemma providers_ok_delete:
  assumes "\<And>p. p \<in> set ps \<Longrightarrow> set vids \<inter> set (c_vault p # spend_refs p) = {}" and "list_all (provider_ok v) ps"
  shows "list_all (provider_ok (delete_secrets vids v)) ps"
  unfolding list_all_iff
proof
  fix p assume "p \<in> set ps"
  with assms show "provider_ok (delete_secrets vids v) p" using provider_ok_delete [OF assms(1)] by (simp add: list_all_iff)
qed

section \<open>The statements keep it\<close>

lemma stored_refs:
  assumes "stored v ts ps"
  shows "distinct (trace_refs ts @ provider_refs ps)" and "set (trace_refs ts) \<union> set (provider_refs ps) = fst ` set v"
proof -
  have m: "mset (trace_refs ts @ provider_refs ps) = mset (map fst v)" and "distinct (map fst v)"
    using assms by (simp_all add: stored_def)
  then show "distinct (trace_refs ts @ provider_refs ps)" using mset_eq_imp_distinct_iff by blast
  show "set (trace_refs ts) \<union> set (provider_refs ps) = fst ` set v" using mset_eq_setD [OF m] by simp
qed

lemma refs_append [simp]:
  "trace_refs (as @ bs) = trace_refs as @ trace_refs bs" "trace_refs (t # ts) = c_vault t # trace_refs ts" "trace_refs [] = []"
  "provider_refs (ps @ qs) = provider_refs ps @ provider_refs qs" "provider_refs (p # ps) = c_vault p # spend_refs p @ provider_refs ps"
  "provider_refs [] = []"
  by (simp_all add: trace_refs_def provider_refs_def)

lemma refs_of_row:
  "t \<in> set ts \<Longrightarrow> c_vault t \<in> set (trace_refs ts)"
  "p \<in> set ps \<Longrightarrow> set (c_vault p # spend_refs p) \<subseteq> set (provider_refs ps)"
  by (auto simp: trace_refs_def provider_refs_def)

lemma split_by_id:
  fixes r :: "'a conn_row_scheme"
  assumes "distinct (map c_id rs)" and "r \<in> set rs"
  obtains as bs where "rs = as @ r # bs" and "\<And>f. update_where (\<lambda>x. c_id x = c_id r) f rs = as @ f r # bs"
    and "filter (\<lambda>x. c_id x \<noteq> c_id r) rs = as @ bs"
proof -
  obtain as bs where rs: "rs = as @ r # bs" using assms(2) split_list by metis
  have "c_id r \<notin> c_id ` set as" "c_id r \<notin> c_id ` set bs" using assms(1) by (simp_all add: rs)
  then have n: "c_id x \<noteq> c_id r" if "x \<in> set as \<union> set bs" for x using that by (metis Un_iff imageI)
  have "map (\<lambda>x. if c_id x = c_id r then f x else x) as = as" "map (\<lambda>x. if c_id x = c_id r then f x else x) bs = bs" for f
    using n by (auto intro: map_idI)
  then show ?thesis using that [of as bs] n by (auto simp: rs update_where_def filter_id_conv)
qed

text \<open>What the invariant reads of a row.\<close>

definition trace_core :: "conn_row \<Rightarrow> string \<times> (string \<times> string) \<times> string \<times> string" where
  "trace_core r = (c_id r, slot r, c_vault r, c_last4 r)"

definition provider_core :: "provider_row \<Rightarrow> (string \<times> (string \<times> string) \<times> string \<times> string) \<times> string option \<times> string option" where
  "provider_core r = ((c_id r, slot r, c_vault r, c_last4 r), pr_spend_vault r, pr_spend_last4 r)"

lemma stored_core:
  assumes "map trace_core ts' = map trace_core ts" and "map provider_core ps' = map provider_core ps"
  shows "stored v ts' ps' \<longleftrightarrow> stored v ts ps"
proof -
  have t: "map f ts' = map f ts" if "\<And>x. f x = g (trace_core x)" for f g
    using arg_cong [OF assms(1), of "map g"] by (simp add: comp_def that [symmetric])
  have p: "map f ps' = map f ps" if "\<And>x. f x = g (provider_core x)" for f g
    using arg_cong [OF assms(2), of "map g"] by (simp add: comp_def that [symmetric])
  have all: "list_all P xs = list_all id (map P xs)" for P and xs :: "'z list" by (simp add: list_all_iff)
  have "map (trace_ok v) ts' = map (trace_ok v) ts"
    by (rule t [of _ "\<lambda>(i, sl, vid, l). holds (\<lambda>_. True) v vid l"]) (simp add: trace_ok_def trace_core_def)
  moreover have "map (provider_ok v) ps' = map (provider_ok v) ps"
    by (rule p [of _ "\<lambda>((i, sl, vid, l), w, t). holds (main_slot (snd sl)) v vid l
      \<and> (case w of None \<Rightarrow> t = None | Some u \<Rightarrow> (case t of None \<Rightarrow> False | Some y \<Rightarrow> holds (spend_slot (snd sl)) v u y))"])
      (simp add: provider_ok_def provider_core_def split: option.split)
  moreover have "map c_id ts' = map c_id ts" "map slot ts' = map slot ts" "trace_refs ts' = trace_refs ts"
    unfolding trace_refs_def by (rule t [of _ fst], simp add: trace_core_def) (rule t [of _ "\<lambda>x. fst (snd x)"], simp add: trace_core_def,
      rule t [of _ "\<lambda>x. fst (snd (snd x))"], simp add: trace_core_def)
  moreover have "map c_id ps' = map c_id ps" "map slot ps' = map slot ps"
    by (rule p [of _ "\<lambda>x. fst (fst x)"], simp add: provider_core_def) (rule p [of _ "\<lambda>x. fst (snd (fst x))"], simp add: provider_core_def)
  moreover have "provider_refs ps' = provider_refs ps"
    unfolding provider_refs_def
    by (rule arg_cong [OF p [of _ "\<lambda>x. fst (snd (snd (fst x))) # (case fst (snd x) of None \<Rightarrow> [] | Some w \<Rightarrow> [w])"]])
      (simp add: provider_core_def spend_refs_def)
  ultimately show ?thesis unfolding stored_def all [of "trace_ok v"] all [of "provider_ok v"] by simp
qed

lemma stored_add_trace:
  assumes "stored v ts ps" and "c_vault r \<notin> fst ` set v" and "c_id r \<notin> set (map c_id ts)" and "slot r \<notin> set (map slot ts)"
    and "c_last4 r = right4 sec"
  shows "stored (v @ [(c_vault r, sec)]) (ts @ [r]) ps"
proof -
  have "list_all (trace_ok (v @ [(c_vault r, sec)])) ts" "list_all (provider_ok (v @ [(c_vault r, sec)])) ps"
    using assms(1) by (auto simp: stored_def list_all_iff trace_ok_append provider_ok_append)
  moreover have "trace_ok (v @ [(c_vault r, sec)]) r" using assms(2,5) by (simp add: trace_ok_def)
  ultimately show ?thesis using assms by (auto simp: stored_def)
qed

lemma stored_add_provider:
  assumes "stored v ts ps" and "c_vault r \<notin> fst ` set v" and "c_id r \<notin> set (map c_id ps)" and "slot r \<notin> set (map slot ps)"
    and "c_last4 r = right4 sec" and "main_slot (c_kind r) sec" and "pr_spend_vault r = None" and "pr_spend_last4 r = None"
  shows "stored (v @ [(c_vault r, sec)]) ts (ps @ [r])"
proof -
  have "list_all (trace_ok (v @ [(c_vault r, sec)])) ts" "list_all (provider_ok (v @ [(c_vault r, sec)])) ps"
    using assms(1) by (auto simp: stored_def list_all_iff trace_ok_append provider_ok_append)
  moreover have "provider_ok (v @ [(c_vault r, sec)]) r" using assms(2,5-8) by (simp add: provider_ok_def)
  ultimately show ?thesis using assms by (auto simp: stored_def spend_refs_def)
qed

lemma stored_rotate_trace:
  assumes "stored v (as @ r # bs) ps" and "trace_core r' = (c_id r, slot r, c_vault r, right4 sec)"
  shows "stored (update_secret (c_vault r) sec v) (as @ r' # bs) ps"
proof -
  note d = stored_refs [OF assms(1)]
  have "list_all (trace_ok (update_secret (c_vault r) sec v)) (as @ bs)"
    using assms(1) d(1) by (intro traces_ok_update_other) (auto simp: stored_def trace_refs_def)
  moreover have "list_all (provider_ok (update_secret (c_vault r) sec v)) ps"
  proof -
    have "c_vault r \<notin> set (c_vault p # spend_refs p)" if "p \<in> set ps" for p using d(1) refs_of_row(2) [OF that] by auto
    then show ?thesis using assms(1) by (intro providers_ok_update_other) (simp_all add: stored_def)
  qed
  moreover have "c_vault r \<in> fst ` set v" using d(2) by auto
  then have "trace_ok (update_secret (c_vault r) sec v) r'"
    using assms(2) by (auto simp: trace_ok_def trace_core_def holds_update_self)
  ultimately show ?thesis using assms by (auto simp: stored_def trace_core_def)
qed

lemma stored_other_rows:
  assumes "stored v ts (as @ r # bs)" and "vid \<in> set (c_vault r # spend_refs r)"
  shows "list_all (trace_ok (update_secret vid sec v)) ts" and "list_all (provider_ok (update_secret vid sec v)) (as @ bs)"
proof -
  note d = stored_refs(1) [OF assms(1)]
  have "c_vault t \<noteq> vid" if "t \<in> set ts" for t using d assms(2) refs_of_row(1) [OF that] by auto
  then show "list_all (trace_ok (update_secret vid sec v)) ts"
    using assms(1) by (auto simp: stored_def list_all_iff trace_ok_update_other)
  have "vid \<notin> set (c_vault p # spend_refs p)" if "p \<in> set (as @ bs)" for p
  proof -
    have "set (c_vault p # spend_refs p) \<subseteq> set (provider_refs as) \<union> set (provider_refs bs)"
      using that refs_of_row(2) [of p as] refs_of_row(2) [of p bs] by auto
    then show ?thesis using d assms(2) by auto
  qed
  then show "list_all (provider_ok (update_secret vid sec v)) (as @ bs)"
    using assms(1) by (intro providers_ok_update_other) (simp_all add: stored_def)
qed

lemma stored_rotate_provider:
  assumes "stored v ts (as @ r # bs)" and "main_slot (c_kind r) sec"
    and "provider_core r' = ((c_id r, slot r, c_vault r, right4 sec), pr_spend_vault r, pr_spend_last4 r)"
  shows "stored (update_secret (c_vault r) sec v) ts (as @ r' # bs)"
proof -
  note d = stored_refs [OF assms(1)]
  have others: "list_all (trace_ok (update_secret (c_vault r) sec v)) ts" "list_all (provider_ok (update_secret (c_vault r) sec v)) (as @ bs)"
    using stored_other_rows [OF assms(1), of "c_vault r"] by simp_all
  have "w \<noteq> c_vault r" if "pr_spend_vault r = Some w" for w using d(1) that by (auto simp: spend_refs_def)
  moreover have "c_vault r \<in> fst ` set v" using d(2) by auto
  moreover have "provider_ok v r" using assms(1) by (simp add: stored_def)
  ultimately have "provider_ok (update_secret (c_vault r) sec v) r'"
    using assms(2,3) by (cases "pr_spend_vault r") (auto simp: provider_ok_def provider_core_def holds_update_self holds_update_other split: option.splits)
  then show ?thesis using assms(1,3) others by (auto simp: stored_def provider_core_def spend_refs_def)
qed

lemma stored_rotate_spend:
  assumes "stored v ts (as @ r # bs)" and "spend_slot (c_kind r) sec" and "pr_spend_vault r = Some w"
    and "provider_core r' = ((c_id r, slot r, c_vault r, c_last4 r), Some w, Some (right4 sec))"
  shows "stored (update_secret w sec v) ts (as @ r' # bs)"
proof -
  note d = stored_refs [OF assms(1)]
  have others: "list_all (trace_ok (update_secret w sec v)) ts" "list_all (provider_ok (update_secret w sec v)) (as @ bs)"
    using stored_other_rows [OF assms(1), of w] assms(3) by (simp_all add: spend_refs_def)
  have "w \<noteq> c_vault r" "w \<in> fst ` set v" using d assms(3) by (auto simp: spend_refs_def)
  then have "provider_ok (update_secret w sec v) r'"
    using assms by (auto simp: provider_ok_def provider_core_def stored_def holds_update_self holds_update_other)
  then show ?thesis using assms(1,3,4) others by (auto simp: stored_def provider_core_def spend_refs_def)
qed

lemma stored_add_spend:
  assumes "stored v ts (as @ r # bs)" and "spend_slot (c_kind r) sec" and "pr_spend_vault r = None" and "w \<notin> fst ` set v"
    and "provider_core r' = ((c_id r, slot r, c_vault r, c_last4 r), Some w, Some (right4 sec))"
  shows "stored (v @ [(w, sec)]) ts (as @ r' # bs)"
proof -
  have others: "list_all (trace_ok (v @ [(w, sec)])) ts" "list_all (provider_ok (v @ [(w, sec)])) (as @ bs)"
    using assms(1) by (auto simp: stored_def list_all_iff trace_ok_append provider_ok_append)
  have "provider_ok (v @ [(w, sec)]) r'"
    using assms by (auto simp: provider_ok_def provider_core_def stored_def holds_append)
  then show ?thesis using assms(1,3-5) others by (auto simp: stored_def provider_core_def spend_refs_def)
qed

lemma keys_after_delete:
  assumes "distinct (map fst v)" and "mset xs + mset gone = mset (map fst v)"
  shows "mset xs = mset (map fst (delete_secrets gone v))" and "distinct (map fst (delete_secrets gone v))"
proof -
  have "distinct (xs @ gone)" using assms mset_eq_imp_distinct_iff [of "xs @ gone" "map fst v"] by simp
  then have "filter (\<lambda>k. k \<notin> set gone) (xs @ gone) = xs" by (auto simp: filter_id_conv)
  moreover have "mset (filter (\<lambda>k. k \<notin> set gone) (map fst v)) = filter_mset (\<lambda>k. k \<notin> set gone) (mset (xs @ gone))"
    using assms(2) by simp
  ultimately show "mset xs = mset (map fst (delete_secrets gone v))"
    by (metis keys_delete_secrets mset_filter)
  show "distinct (map fst (delete_secrets gone v))" using assms(1) by (simp add: keys_delete_secrets)
qed

lemma stored_delete_trace:
  assumes "stored v (as @ r # bs) ps"
  shows "stored (delete_secrets [c_vault r] v) (as @ bs) ps"
proof -
  note d = stored_refs(1) [OF assms]
  have "mset (trace_refs (as @ bs) @ provider_refs ps) + mset [c_vault r] = mset (map fst v)" using assms by (simp add: stored_def ac_simps)
  note k = keys_after_delete [OF _ this]
  have "list_all (trace_ok (delete_secrets [c_vault r] v)) (as @ bs)"
    using assms d by (intro traces_ok_delete) (auto simp: stored_def trace_refs_def)
  moreover have "list_all (provider_ok (delete_secrets [c_vault r] v)) ps"
  proof -
    have "set [c_vault r] \<inter> set (c_vault p # spend_refs p) = {}" if "p \<in> set ps" for p using d refs_of_row(2) [OF that] by auto
    then show ?thesis using assms by (intro providers_ok_delete) (simp_all add: stored_def)
  qed
  ultimately show ?thesis using assms k by (auto simp: stored_def add.assoc)
qed

lemma stored_delete_provider:
  assumes "stored v ts (as @ r # bs)"
  shows "stored (delete_secrets (c_vault r # spend_refs r) v) ts (as @ bs)"
proof -
  note d = stored_refs(1) [OF assms]
  have "mset (trace_refs ts @ provider_refs (as @ bs)) + mset (c_vault r # spend_refs r) = mset (map fst v)"
    using assms by (simp add: stored_def ac_simps)
  note k = keys_after_delete [OF _ this]
  have "list_all (trace_ok (delete_secrets (c_vault r # spend_refs r) v)) ts"
    using assms d by (intro traces_ok_delete) (auto simp: stored_def trace_refs_def)
  moreover have "list_all (provider_ok (delete_secrets (c_vault r # spend_refs r) v)) (as @ bs)"
  proof -
    have "set (c_vault r # spend_refs r) \<inter> set (c_vault p # spend_refs p) = {}" if "p \<in> set (as @ bs)" for p
    proof -
      have "set (c_vault p # spend_refs p) \<subseteq> set (provider_refs as) \<union> set (provider_refs bs)"
        using that refs_of_row(2) [of p as] refs_of_row(2) [of p bs] by auto
      then show ?thesis using d by auto
    qed
    then show ?thesis using assms by (intro providers_ok_delete) (simp_all add: stored_def)
  qed
  ultimately show ?thesis using assms k by (auto simp: stored_def add.assoc)
qed

lemma no_slot: "first_where (at_slot oid kind) rs = None \<Longrightarrow> (oid, kind) \<notin> set (map slot rs)"
  by (auto simp: first_where_None at_slot_def)

lemma upsert_trace_wf:
  assumes "vault_wf s" and "upsert_trace_connection c s = Inr (row, t)"
  shows "vault_wf t"
proof -
  obtain kind where kind: "sql_name (sc_kind c) = Some kind" using assms(2) by (auto simp: upsert_trace_connection_def split: option.splits)
  show ?thesis
  proof (cases "first_where (at_slot (sc_org c) kind) (trace_connections s)")
    case None
    then show ?thesis
      using assms kind no_slot [OF None]
        stored_add_trace [of "vault_secrets s" "trace_connections s" "provider_connections s" "new_trace_row c kind" "sc_secret c"]
      by (auto simp: upsert_trace_connection_def create_secret_def vault_wf_def new_trace_row_def split: if_splits simp del: first_where_None)
  next
    case (Some r)
    then have r: "r \<in> set (trace_connections s)" by (auto dest: first_where_SomeD)
    have d: "distinct (map c_id (trace_connections s))" using assms(1) by (simp add: vault_wf_def stored_def)
    obtain as bs where sp: "trace_connections s = as @ r # bs"
      "update_where (\<lambda>x. c_id x = c_id r) (rotated c) (trace_connections s) = as @ rotated c r # bs"
      by (rule split_by_id [OF d r]) blast
    have "stored (vault_secrets s) (as @ r # bs) (provider_connections s)" using assms(1) by (simp add: vault_wf_def sp(1))
    from stored_rotate_trace [OF this, of "rotated c r" "sc_secret c"]
    show ?thesis using assms(2) kind Some sp(2)
      by (auto simp: upsert_trace_connection_def vault_wf_def rotated_def trace_core_def split: if_splits)
  qed
qed

lemma upsert_provider_wf:
  assumes "vault_wf s" and "upsert_provider_connection c s = Inr (row, t)"
    and "\<And>kind. sql_name (sc_kind c) = Some kind \<Longrightarrow> main_slot kind (sc_secret c)"
  shows "vault_wf t"
proof -
  obtain kind where kind: "sql_name (sc_kind c) = Some kind" using assms(2) by (auto simp: upsert_provider_connection_def split: option.splits)
  note main = assms(3) [OF kind]
  show ?thesis
  proof (cases "first_where (at_slot (sc_org c) kind) (provider_connections s)")
    case None
    then show ?thesis
      using assms(1,2) kind no_slot [OF None] main stored_add_provider [of "vault_secrets s" "trace_connections s" "provider_connections s" "new_provider_row c kind" "sc_secret c"]
      by (auto simp: upsert_provider_connection_def create_secret_def vault_wf_def new_provider_row_def split: if_splits simp del: first_where_None)
  next
    case (Some r)
    then have r: "r \<in> set (provider_connections s)" "c_kind r = kind" by (auto simp: at_slot_def dest: first_where_SomeD)
    have d: "distinct (map c_id (provider_connections s))" using assms(1) by (simp add: vault_wf_def stored_def)
    obtain as bs where sp: "provider_connections s = as @ r # bs"
      "update_where (\<lambda>x. c_id x = c_id r) (\<lambda>x. reset_verdict (rotated c x)) (provider_connections s) = as @ reset_verdict (rotated c r) # bs"
      by (rule split_by_id [OF d r(1)]) blast
    have "stored (vault_secrets s) (trace_connections s) (as @ r # bs)" using assms(1) by (simp add: vault_wf_def sp(1))
    from stored_rotate_provider [OF this, of "sc_secret c" "reset_verdict (rotated c r)"]
    show ?thesis using assms(2) kind Some sp(2) main r(2)
      by (auto simp: upsert_provider_connection_def vault_wf_def rotated_def reset_verdict_def provider_core_def split: if_splits)
  qed
qed

lemma set_spend_wf:
  assumes "vault_wf s" and "set_provider_connection_spend_credential c s = Inr (row, t)"
    and "\<And>kind. sql_name (sc_kind c) = Some kind \<Longrightarrow> spend_slot kind (sc_secret c)"
  shows "vault_wf t"
proof -
  obtain kind where kind: "sql_name (sc_kind c) = Some kind"
    using assms(2) by (auto simp: set_provider_connection_spend_credential_def split: option.splits)
  note spend = assms(3) [OF kind]
  obtain r where found: "first_where (at_slot (sc_org c) kind) (provider_connections s) = Some r"
    using assms(2) kind by (auto simp: set_provider_connection_spend_credential_def split: option.splits if_splits)
  then have r: "r \<in> set (provider_connections s)" "c_kind r = kind" by (auto simp: at_slot_def dest: first_where_SomeD)
  have d: "distinct (map c_id (provider_connections s))" using assms(1) by (simp add: vault_wf_def stored_def)
  obtain as bs where sp: "provider_connections s = as @ r # bs"
    and up: "\<And>vid. update_where (\<lambda>x. c_id x = c_id r) (with_spend c vid) (provider_connections s) = as @ with_spend c vid r # bs"
    by (rule split_by_id [OF d r(1)]) blast
  have st: "stored (vault_secrets s) (trace_connections s) (as @ r # bs)" using assms(1) by (simp add: vault_wf_def sp)
  have core: "provider_core (with_spend c vid r) = ((c_id r, slot r, c_vault r, c_last4 r), Some vid, Some (right4 (sc_secret c)))" for vid
    by (simp add: provider_core_def with_spend_def)
  show ?thesis
  proof (cases "pr_spend_vault r")
    case None
    then show ?thesis
      using assms(2) kind found spend r(2) stored_add_spend [OF st _ None _ core]
      by (auto simp: set_provider_connection_spend_credential_def create_secret_def vault_wf_def up split: if_splits)
  next
    case (Some w)
    then show ?thesis
      using assms(2) kind found spend r(2) stored_rotate_spend [OF st _ Some core]
      by (auto simp: set_provider_connection_spend_credential_def vault_wf_def up split: if_splits)
  qed
qed

lemma core_update_where:
  "(\<And>x. g (f x) = g x) \<Longrightarrow> map g (update_where P f xs) = map g xs"
  by (auto simp: update_where_def)

lemma update_config_wf:
  assumes "vault_wf s" and "update_trace_connection_config oid kind patch now s = Inr (rows, t)"
  shows "vault_wf t"
proof -
  have "map trace_core (update_where P (\<lambda>r. r\<lparr>c_config := json_merge (c_config r) patch, c_updated_at := now\<rparr>) (trace_connections s))
      = map trace_core (trace_connections s)" for P
    by (rule core_update_where) (simp add: trace_core_def)
  from stored_core [OF this refl] show ?thesis
    using assms by (auto simp: update_trace_connection_config_def Let_def vault_wf_def)
qed

lemma update_provider_wf:
  assumes "vault_wf s" and "\<And>r. provider_core (f r) = provider_core r"
  shows "vault_wf (s\<lparr>provider_connections := update_where P f (provider_connections s)\<rparr>)"
  using assms stored_core [OF refl, of "update_where P f (provider_connections s)"]
  by (simp add: vault_wf_def core_update_where [of provider_core])

lemma delete_trace_wf:
  assumes "vault_wf s" and "delete_trace_connection oid kind s = Inr (gone, t)"
  shows "vault_wf t"
proof (cases "first_where (\<lambda>r. c_org r = oid \<and> sql_name kind = Some (c_kind r)) (trace_connections s)")
  case (Some r)
  then have r: "r \<in> set (trace_connections s)" by (auto dest: first_where_SomeD)
  have d: "distinct (map c_id (trace_connections s))" using assms(1) by (simp add: vault_wf_def stored_def)
  obtain as bs where sp: "trace_connections s = as @ r # bs" "filter (\<lambda>x. c_id x \<noteq> c_id r) (trace_connections s) = as @ bs"
    by (rule split_by_id [OF d r]) blast
  then show ?thesis
    using assms Some stored_delete_trace [of "vault_secrets s" as r bs] by (auto simp: delete_trace_connection_def vault_wf_def)
qed (use assms in \<open>simp add: delete_trace_connection_def del: first_where_None\<close>)

lemma delete_provider_wf:
  assumes "vault_wf s" and "delete_provider_connection oid kind now s = Inr (gone, t)"
  shows "vault_wf t"
proof (cases "first_where (\<lambda>r. c_org r = oid \<and> sql_name kind = Some (c_kind r)) (provider_connections s)")
  case (Some r)
  then have r: "r \<in> set (provider_connections s)" by (auto dest: first_where_SomeD)
  have d: "distinct (map c_id (provider_connections s))" using assms(1) by (simp add: vault_wf_def stored_def)
  obtain as bs where sp: "provider_connections s = as @ r # bs" "filter (\<lambda>x. c_id x \<noteq> c_id r) (provider_connections s) = as @ bs"
    by (rule split_by_id [OF d r]) blast
  then show ?thesis
    using assms Some stored_delete_provider [of "vault_secrets s" "trace_connections s" as r bs]
    by (auto simp: delete_provider_connection_def vault_wf_def)
qed (use assms in \<open>simp add: delete_provider_connection_def del: first_where_None\<close>)


end
