(* ===== verification/Connections.thy ===== *)
theory Connections
  imports Vault_Store Blind_Actions
begin

text \<open>
  The routes over stored connections: \<open>app/api/orgs/[orgId]/provider-connections/[provider]/\<close> (connect or rotate,
  declare a balance, disconnect, and the thin proxies below it), \<open>app/api/orgs/[orgId]/connections/[kind]/route.ts\<close>
  (the trace connections with their broadcast settings). The URL constructor and the answers of the backend
  are arguments. The check of a fresh key is \<open>hookup\<close>: its answer, if it could be reached, and the status and
  detail it wrote on the row; the backend writes no other column.
\<close>

section \<open>The gate of a connection\<close>

text \<open>The checks every route of a connection makes are those of the member routes, \<open>requireOrgManager\<close>.\<close>

definition managed :: "env \<Rightarrow> string \<Rightarrow> (resp + (string \<times> string)) act" where
  "managed e orgIdentifier =
     bind (requireOrgManager e orgIdentifier) (\<lambda>g. ret (map_sum id (\<lambda>m. (mg_org m, mg_actor m)) g))"

definition requireProviderManager :: "env \<Rightarrow> string \<Rightarrow> string \<Rightarrow> (resp + (string \<times> string)) act" where
  "requireProviderManager e orgIdentifier provider =
     (if \<not> isModelProvider provider
      then ret (Inl (error_resp (''provider must be one of: '' @ join_with '', '' MODEL_PROVIDERS @ ''.'') 400))
      else managed e orgIdentifier)"

definition requireConnectionManager :: "env \<Rightarrow> string \<Rightarrow> string \<Rightarrow> (resp + (string \<times> string)) act" where
  "requireConnectionManager e orgIdentifier kind =
     (if \<not> List.member TRACE_KINDS kind
      then ret (Inl (error_resp (''kind must be one of: '' @ join_with '', '' TRACE_KINDS @ ''.'') 400))
      else managed e orgIdentifier)"

definition gated :: "(resp + 'a) act \<Rightarrow> ('a \<Rightarrow> resp act) \<Rightarrow> resp act" where
  "gated gate f = bind gate (\<lambda>g. case g of Inl r \<Rightarrow> ret r | Inr x \<Rightarrow> f x)"

section \<open>Connecting a provider\<close>

record connect_request =
  cr_secret :: string
  cr_spend :: "string option"
  cr_config :: json

definition parse_secret :: "string \<Rightarrow> json \<Rightarrow> string + string" where
  "parse_secret provider bdy =
     (if provider = ''modal'' then parseModalSecret (jget ''secret'' bdy)
      else (let secret = (case jget ''secret'' bdy of Some (JStr s) \<Rightarrow> trim s | _ \<Rightarrow> '''') in
        if secret = '''' then Inl ((if provider = ''bedrock'' then ''A secret access key'' else ''An API key'') @ '' is required.'')
        else (case mainSlotAdminKeyError provider secret of Some misplaced \<Rightarrow> Inl misplaced | None \<Rightarrow> Inr secret)))"

definition parse_spend :: "string \<Rightarrow> json \<Rightarrow> string + string option" where
  "parse_spend provider bdy =
     (case jget ''spendSecret'' bdy of
        None \<Rightarrow> Inr None
      | Some v \<Rightarrow>
          if v = JNull then Inr None
          else if \<not> isSpendKeyProvider provider then Inl ''Only Anthropic and OpenAI connections take an admin key for spend.''
          else map_sum id Some (parseSpendSecret provider v))"

definition parse_config :: "(string \<Rightarrow> (string \<times> string) option) \<Rightarrow> string \<Rightarrow> json \<Rightarrow> string + json" where
  "parse_config parse_url provider bdy =
     (let cfg = jget ''config'' bdy in
      if provider = ''azure_openai'' then map_sum id azure_json (parseAzureConfig parse_url cfg)
      else if provider = ''bedrock''
        then map_sum id (\<lambda>(r, k). JObj [(''region'', JStr r), (''access_key_id'', JStr k)]) (parseBedrockConfig cfg)
      else if provider = ''fireworks'' then map_sum id (\<lambda>a. JObj [(''account_id'', JStr a)]) (parseFireworksConfig cfg)
      else Inr (JObj []))"

definition parse_connect :: "(string \<Rightarrow> (string \<times> string) option) \<Rightarrow> string \<Rightarrow> json \<Rightarrow> string + connect_request" where
  "parse_connect parse_url provider bdy =
     (case parse_secret provider bdy of
        Inl err \<Rightarrow> Inl err
      | Inr secret \<Rightarrow>
          (case parse_spend provider bdy of
             Inl err \<Rightarrow> Inl err
           | Inr spend \<Rightarrow>
               (case parse_config parse_url provider bdy of
                  Inl err \<Rightarrow> Inl err
                | Inr cfg \<Rightarrow> Inr \<lparr>cr_secret = secret, cr_spend = spend, cr_config = cfg\<rparr>)))"

record hookup =
  hk_answer :: "json option"
  hk_status :: "(string \<times> json option) option"

definition write_verdict :: "string \<Rightarrow> string \<Rightarrow> int \<Rightarrow> hookup \<Rightarrow> db \<Rightarrow> db" where
  "write_verdict oid provider now hk s =
     (case hk_status hk of
        None \<Rightarrow> s
      | Some (st, detail) \<Rightarrow>
          s\<lparr>provider_connections := update_where (at_slot oid provider)
              (\<lambda>r. r\<lparr>pr_status := st, pr_status_detail := detail, pr_status_checked_at := Some now, pr_status_source := Some ''hookup_check''\<rparr>)
              (provider_connections s)\<rparr>)"

definition unreachable_check :: "string \<Rightarrow> json" where
  "unreachable_check provider = JObj [(''provider'', JStr provider), (''status'', JStr ''unchecked''),
     (''status_detail'', JObj [(''remediation'', JStr ''The key was saved, but the verification service could not be reached to check it. Real traffic will verify it, or rotate the key to re-run the check.'')]),
     (''status_checked_at'', JNull), (''status_source'', JNull)]"

definition runHookupCheck :: "string \<Rightarrow> string \<Rightarrow> int \<Rightarrow> hookup \<Rightarrow> json act" where
  "runHookupCheck oid provider now hk =
     bind (modify (write_verdict oid provider now hk)) (\<lambda>_.
     ret (case hk_answer hk of Some j \<Rightarrow> j | None \<Rightarrow> unreachable_check provider))"

definition conn_json :: "string \<Rightarrow> ('a conn_row_scheme) \<Rightarrow> json" where
  "conn_json kind_column r = JObj [(''id'', JStr (c_id r)), (''org_id'', JStr (c_org r)), (kind_column, JStr (c_kind r)),
     (''config'', c_config r), (''credential_last4'', JStr (c_last4 r))]"

text \<open>The ids the database draws during one request.\<close>

record drawn =
  dr_id :: string
  dr_vault :: string
  dr_spend :: string

definition store_of :: "env \<Rightarrow> drawn \<Rightarrow> string \<Rightarrow> string \<Rightarrow> string \<Rightarrow> json \<Rightarrow> string \<Rightarrow> string \<Rightarrow> store_call" where
  "store_of e d oid uid kind cfg secret vid =
     \<lparr>sc_org = oid, sc_kind = kind, sc_config = cfg, sc_secret = secret, sc_actor = uid, sc_now = now_ms e, sc_new_id = dr_id d, sc_new_vault = vid\<rparr>"

definition store_spend :: "env \<Rightarrow> drawn \<Rightarrow> string \<Rightarrow> string \<Rightarrow> string \<Rightarrow> string option \<Rightarrow> string option act" where
  "store_spend e d oid uid provider spend =
     (case spend of
        None \<Rightarrow> ret None
      | Some secret \<Rightarrow>
          bind (call (faults e ''set_provider_connection_spend_credential'')
                  (set_provider_connection_spend_credential (store_of e d oid uid provider JNull secret (dr_spend d)))) (\<lambda>r.
          ret (case r of Inl err \<Rightarrow> Some (message err) | Inr _ \<Rightarrow> None)))"

definition store_connection :: "env \<Rightarrow> drawn \<Rightarrow> hookup \<Rightarrow> string \<Rightarrow> connect_request \<Rightarrow> string \<times> string \<Rightarrow> resp act" where
  "store_connection e d hk provider req g =
     (case g of (oid, uid) \<Rightarrow>
        bind (call (faults e ''upsert_provider_connection'')
                (upsert_provider_connection (store_of e d oid uid provider (cr_config req) (cr_secret req) (dr_vault d)))) (\<lambda>r.
        case r of
          Inl err \<Rightarrow> ret (error_resp (message err) 500)
        | Inr row \<Rightarrow>
            bind (store_spend e d oid uid provider (cr_spend req)) (\<lambda>spendError.
            bind (runHookupCheck oid provider (now_ms e) hk) (\<lambda>check.
            ret (json_resp (JObj [(''connection'', conn_json ''provider'' row), (''check'', check), (''spendError'', jopt JStr spendError)]) 200)))))"

definition provider_PUT :: "(string \<Rightarrow> (string \<times> string) option) \<Rightarrow> env \<Rightarrow> drawn \<Rightarrow> hookup \<Rightarrow> string \<Rightarrow> string \<Rightarrow> json \<Rightarrow> resp act" where
  "provider_PUT parse_url e d hk orgIdentifier provider bdy = handler (
     gated (requireProviderManager e orgIdentifier provider) (\<lambda>g.
     case parse_connect parse_url provider bdy of
       Inl err \<Rightarrow> ret (error_resp err 400)
     | Inr req \<Rightarrow> store_connection e d hk provider req g))"

section \<open>Declaring a balance\<close>

definition money_amount :: "json option \<Rightarrow> jsnum option" where
  "money_amount v = (case v of Some (JNum x) \<Rightarrow> if js_is_finite x \<and> \<not> js_lt x (js_int 0) then Some x else None | _ \<Rightarrow> None)"

definition parse_balance :: "json \<Rightarrow> string + (jsnum option \<times> jsnum option)" where
  "parse_balance bdy =
     (if bdy = JNull then Inl ''A JSON body is required.''
      else (let declared = jget ''declared_balance_usd'' bdy; threshold = jget ''low_balance_threshold_usd'' bdy in
        if declared \<noteq> Some JNull \<and> money_amount declared = None
          then Inl ''declared_balance_usd must be a non-negative number, or null to stop tracking.''
        else if threshold \<noteq> None \<and> money_amount threshold = None
          then Inl ''low_balance_threshold_usd must be a non-negative number.''
        else Inr (money_amount declared, money_amount threshold)))"

definition declare_on :: "int \<Rightarrow> jsnum option \<Rightarrow> jsnum option \<Rightarrow> provider_row \<Rightarrow> provider_row" where
  "declare_on now declared threshold r =
     r\<lparr>pr_declared_usd := declared, pr_declared_at := (case declared of None \<Rightarrow> None | Some _ \<Rightarrow> Some now), pr_metered_usd := js_int 0,
       pr_threshold_usd := (case threshold of None \<Rightarrow> pr_threshold_usd r | Some t \<Rightarrow> t)\<rparr>"

definition update_balances :: "string \<Rightarrow> string \<Rightarrow> (provider_row \<Rightarrow> provider_row) \<Rightarrow> db \<Rightarrow> dberror + (provider_row list \<times> db)" where
  "update_balances oid provider f s =
     Inr (map f (filter (at_slot oid provider) (provider_connections s)),
          s\<lparr>provider_connections := update_where (at_slot oid provider) f (provider_connections s)\<rparr>)"

definition insert_snapshot :: "snapshot_row \<Rightarrow> db \<Rightarrow> dberror + (unit \<times> db)" where
  "insert_snapshot n s =
     (if sn_connection n \<notin> set (map c_id (provider_connections s)) then Inl (raised ''violates foreign key constraint'')
      else Inr ((), s\<lparr>account_snapshots := account_snapshots s @ [n]\<rparr>))"

definition balance_json :: "provider_row \<Rightarrow> json" where
  "balance_json r = JObj [(''id'', JStr (c_id r)), (''provider'', JStr (c_kind r)), (''declared_balance_usd'', jopt JNum (pr_declared_usd r)),
     (''declared_balance_set_at'', jopt (JNum \<circ> js_int) (pr_declared_at r)), (''metered_spend_usd'', JNum (pr_metered_usd r)),
     (''low_balance_threshold_usd'', JNum (pr_threshold_usd r))]"

definition save_balance :: "env \<Rightarrow> string \<Rightarrow> jsnum option \<times> jsnum option \<Rightarrow> string \<times> string \<Rightarrow> resp act" where
  "save_balance e provider amounts g =
     (case g of (oid, uid) \<Rightarrow> case amounts of (declared, threshold) \<Rightarrow>
        bind (call (faults e ''provider_connections.update'') (update_balances oid provider (declare_on (now_ms e) declared threshold))) (\<lambda>r.
        case r of
          Inl err \<Rightarrow> ret (error_resp (message err) 500)
        | Inr [] \<Rightarrow> ret (error_resp ''Connection not found.'' 404)
        | Inr (row # _) \<Rightarrow>
            bind (case declared of
                    None \<Rightarrow> ret (Inr ())
                  | Some x \<Rightarrow> call (faults e ''provider_account_snapshots.insert'') (insert_snapshot
                      \<lparr>sn_org = oid, sn_connection = c_id row, sn_provider = provider, sn_taken_at = now_ms e, sn_spend_usd = None,
                       sn_credits_usd = Some x, sn_limit_usd = None, sn_source = ''self_reported''\<rparr>)) (\<lambda>saved.
            case saved of
              Inl err \<Rightarrow> ret (error_resp (message err) 500)
            | Inr _ \<Rightarrow> ret (json_resp (JObj [(''connection'', balance_json row)]) 200))))"

definition provider_PATCH :: "env \<Rightarrow> string \<Rightarrow> string \<Rightarrow> json \<Rightarrow> resp act" where
  "provider_PATCH e orgIdentifier provider bdy = handler (
     gated (requireProviderManager e orgIdentifier provider) (\<lambda>g.
     case parse_balance bdy of
       Inl err \<Rightarrow> ret (error_resp err 400)
     | Inr amounts \<Rightarrow> save_balance e provider amounts g))"

section \<open>Disconnecting, and the proxies\<close>

definition provider_DELETE :: "env \<Rightarrow> string \<Rightarrow> string \<Rightarrow> resp act" where
  "provider_DELETE e orgIdentifier provider = handler (
     gated (requireProviderManager e orgIdentifier provider) (\<lambda>(oid, uid).
     bind (call (faults e ''delete_provider_connection'') (delete_provider_connection oid provider (now_ms e))) (\<lambda>r.
     case r of
       Inl err \<Rightarrow> ret (error_resp (message err) 500)
     | Inr gone \<Rightarrow> ret (if \<not> gone then error_resp ''Connection not found.'' 404 else empty_resp 204))))"

definition check_POST :: "(string \<Rightarrow> json act) \<Rightarrow> env \<Rightarrow> string \<Rightarrow> string \<Rightarrow> resp act" where
  "check_POST backend e orgIdentifier provider = handler (
     gated (requireProviderManager e orgIdentifier provider) (\<lambda>(oid, uid).
     bind (backend oid) (\<lambda>check. ret (json_resp check 200))))"

definition deployment_check_POST :: "(string \<Rightarrow> string \<Rightarrow> string option \<Rightarrow> json act) \<Rightarrow> env \<Rightarrow> string \<Rightarrow> string \<Rightarrow> json \<Rightarrow> resp act" where
  "deployment_check_POST backend e orgIdentifier provider bdy = handler (
     gated (requireProviderManager e orgIdentifier provider) (\<lambda>(oid, uid).
     let model = trimmed_field ''model'' (Some bdy); deployment = trimmed_field ''deployment'' (Some bdy) in
     if model = '''' then ret (error_resp ''model must name the catalog model slug the deployment serves.'' 400)
     else if (case jget ''deployment'' bdy of None \<Rightarrow> False | Some (JStr _) \<Rightarrow> False | _ \<Rightarrow> True)
       then ret (error_resp ''deployment must be the Azure deployment name as text.'' 400)
     else bind (backend oid model (if deployment \<noteq> '''' then Some deployment else None)) (\<lambda>check. ret (json_resp check 200))))"

section \<open>Trace connections\<close>

definition is_jvalue_object :: "json option \<Rightarrow> bool" where
  "is_jvalue_object v \<longleftrightarrow> (case v of Some (JObj _) \<Rightarrow> True | Some (JArr _) \<Rightarrow> True | _ \<Rightarrow> False)"

definition stored_config :: "string \<Rightarrow> string \<Rightarrow> db \<Rightarrow> json option" where
  "stored_config oid kind s = map_option c_config (first_where (at_slot oid kind) (trace_connections s))"

text \<open>A rotation that brings no broadcast settings carries the stored ones forward; the error of the read is not looked at.\<close>

definition carry_broadcast :: "(string \<times> json) list \<Rightarrow> dberror + json option \<Rightarrow> (string \<times> json) list" where
  "carry_broadcast cfg existing =
     (if map_of cfg ''broadcast'' \<noteq> None then cfg
      else (let kept = jfield ''broadcast'' (case existing of Inl _ \<Rightarrow> None | Inr c \<Rightarrow> c) in
        if is_jvalue_object kept then cfg @ [(''broadcast'', the kept)] else cfg))"

definition trace_PUT :: "env \<Rightarrow> drawn \<Rightarrow> string \<Rightarrow> string \<Rightarrow> json \<Rightarrow> resp act" where
  "trace_PUT e d orgIdentifier kind bdy = handler (
     gated (requireConnectionManager e orgIdentifier kind) (\<lambda>(oid, uid).
     let secret = trimmed_field ''secret'' (Some bdy) in
     if secret = '''' then ret (error_resp ''A credential is required.'' 400)
     else (let cfg = (case jget ''config'' bdy of Some (JObj kvs) \<Rightarrow> kvs | _ \<Rightarrow> []) in
       bind (if map_of cfg ''broadcast'' \<noteq> None then ret (Inr None)
             else query (faults e ''trace_connections.config'') (stored_config oid kind)) (\<lambda>existing.
       bind (call (faults e ''upsert_trace_connection'')
               (upsert_trace_connection (store_of e d oid uid kind (JObj (carry_broadcast cfg existing)) secret (dr_vault d)))) (\<lambda>r.
       case r of
         Inl err \<Rightarrow> ret (error_resp (message err) 500)
       | Inr row \<Rightarrow> ret (json_resp (JObj [(''connection'', conn_json ''kind'' row)]) 200))))))"

definition BROADCAST_KINDS :: "string list" where
  "BROADCAST_KINDS = [''braintrust'', ''langfuse'', ''langsmith'', ''phoenix'', ''posthog'']"

record broadcast =
  bc_enabled :: bool
  bc_privacy :: bool
  bc_token :: "string option"

definition capture_token :: "json option \<Rightarrow> string option" where
  "capture_token b = (let t = trimmed_field ''capture_token'' b in if t \<noteq> '''' then Some t else None)"

definition parse_broadcast :: "string \<Rightarrow> json \<Rightarrow> string + broadcast" where
  "parse_broadcast kind bdy =
     (let b = (case jget ''broadcast'' bdy of Some (JObj kvs) \<Rightarrow> Some (JObj kvs) | _ \<Rightarrow> None); token = capture_token b in
      case (jfield ''enabled'' b, jfield ''privacy_mode'' b) of
        (Some (JBool en), Some (JBool pm)) \<Rightarrow>
          if kind = ''posthog'' \<and> en \<and> token = None then Inl (''PostHog broadcast needs the project API key (phc_'' @ ellipsis @ '').'')
          else Inr \<lparr>bc_enabled = en, bc_privacy = pm, bc_token = token\<rparr>
      | _ \<Rightarrow> Inl ''broadcast must be { enabled: boolean, privacy_mode: boolean }.'')"

definition broadcast_json :: "broadcast \<Rightarrow> json" where
  "broadcast_json b = JObj ([(''enabled'', JBool (bc_enabled b)), (''privacy_mode'', JBool (bc_privacy b))]
     @ (case bc_token b of None \<Rightarrow> [] | Some t \<Rightarrow> [(''capture_token'', JStr t)]))"

definition has_host :: "json option \<Rightarrow> bool" where
  "has_host c \<longleftrightarrow> (case jfield ''host'' c of Some (JStr h) \<Rightarrow> startsWith h ''https://'' | _ \<Rightarrow> False)"

definition trace_PATCH :: "env \<Rightarrow> string \<Rightarrow> string \<Rightarrow> json \<Rightarrow> resp act" where
  "trace_PATCH e orgIdentifier kind bdy = handler (
     gated (requireConnectionManager e orgIdentifier kind) (\<lambda>(oid, uid).
     if \<not> List.member BROADCAST_KINDS kind then ret (error_resp (''Broadcast is not available for '' @ kind @ ''.'') 400)
     else (case parse_broadcast kind bdy of
       Inl err \<Rightarrow> ret (error_resp err 400)
     | Inr b \<Rightarrow>
         bind (if kind = ''phoenix'' \<and> bc_enabled b then query (faults e ''trace_connections.host'') (stored_config oid kind) else ret (Inr None)) (\<lambda>existing.
         if kind = ''phoenix'' \<and> bc_enabled b \<and> \<not> has_host (case existing of Inl _ \<Rightarrow> None | Inr c \<Rightarrow> c)
         then ret (error_resp ''Phoenix broadcast needs the connection host (set it when connecting).'' 400)
         else bind (call (faults e ''update_trace_connection_config'')
                  (update_trace_connection_config oid kind [(''broadcast'', broadcast_json b)] (now_ms e))) (\<lambda>r.
              case r of
                Inl err \<Rightarrow> ret (error_resp (message err) 500)
              | Inr [] \<Rightarrow> ret (error_resp ''Connection not found.'' 404)
              | Inr (row # _) \<Rightarrow> ret (json_resp (JObj [(''connection'', conn_json ''kind'' row)]) 200))))))"

definition trace_DELETE :: "env \<Rightarrow> string \<Rightarrow> string \<Rightarrow> resp act" where
  "trace_DELETE e orgIdentifier kind = handler (
     gated (requireConnectionManager e orgIdentifier kind) (\<lambda>(oid, uid).
     bind (call (faults e ''delete_trace_connection'') (delete_trace_connection oid kind)) (\<lambda>r.
     case r of
       Inl err \<Rightarrow> ret (error_resp (message err) 500)
     | Inr gone \<Rightarrow> ret (if \<not> gone then error_resp ''Connection not found.'' 404 else empty_resp 204))))"

section \<open>What a request may store\<close>

lemma sql_name_listed: "isModelProvider p \<Longrightarrow> sql_name p = Some p" "List.member TRACE_KINDS k \<Longrightarrow> sql_name k = Some k"
proof -
  have "list_all (\<lambda>p. sql_name p = Some p) MODEL_PROVIDERS" "list_all (\<lambda>k. sql_name k = Some k) TRACE_KINDS" by code_simp+
  then show "isModelProvider p \<Longrightarrow> sql_name p = Some p" "List.member TRACE_KINDS k \<Longrightarrow> sql_name k = Some k"
    by (auto simp: list_all_iff isModelProvider_def)
qed

lemma parse_connect_slots:
  assumes "parse_connect u p b = Inr req"
  shows "main_slot p (cr_secret req)" and "\<And>x. cr_spend req = Some x \<Longrightarrow> spend_slot p x" and "cr_secret req \<noteq> ''''"
proof -
  have sec: "parse_secret p b = Inr (cr_secret req)" and sp: "parse_spend p b = Inr (cr_spend req)"
    using assms by (auto simp: parse_connect_def split: sum.splits)
  show "main_slot p (cr_secret req)"
    using sec by (auto simp: parse_secret_def main_slot_def mainSlotAdminKeyError_def Let_def split: if_splits option.splits)
  show "cr_secret req \<noteq> ''''"
    using sec by (auto simp: parse_secret_def parseModalSecret_def Let_def split: if_splits option.splits)
  show "spend_slot p x" if "cr_spend req = Some x" for x
    using sp that by (auto simp: parse_spend_def spend_slot_def parseSpendSecret_def Let_def split: option.splits if_splits json.splits)
qed

interpretation vault: table_invariant vault_wf
  by unfold_locales (simp_all add: vault_wf_def)

lemma keeps_managed:
  "(\<And>s c. P s \<Longrightarrow> P (s\<lparr>sso_cache := c\<rparr>)) \<Longrightarrow> keeps P (managed e ident)"
  unfolding managed_def by (intro keeps_intros)

lemma keeps_gated:
  assumes "\<And>s c. P s \<Longrightarrow> P (s\<lparr>sso_cache := c\<rparr>)" and "\<And>x. keeps P (f x)"
  shows "keeps P (gated (requireProviderManager e ident p) f)" and "keeps P (gated (requireConnectionManager e ident p) f)"
  unfolding gated_def requireProviderManager_def requireConnectionManager_def
  by (intro keeps_intros keeps_managed assms; simp)+

lemma write_verdict_wf: "vault_wf s \<Longrightarrow> vault_wf (write_verdict oid p now hk s)"
  by (auto simp: write_verdict_def provider_core_def intro!: update_provider_wf split: option.split)

lemma keeps_store_connection:
  assumes "isModelProvider p" and "parse_connect u p b = Inr req"
  shows "keeps vault_wf (store_connection e d hk p req g)"
proof -
  note sl = parse_connect_slots [OF assms(2)] and nm = sql_name_listed(1) [OF assms(1)]
  have up: "vault_wf t" if "vault_wf s"
    "upsert_provider_connection (store_of e d (fst g) (snd g) p (cr_config req) (cr_secret req) (dr_vault d)) s = Inr (a, t)" for s a t
    by (rule upsert_provider_wf [OF that]) (simp add: store_of_def nm sl)
  have sp: "keeps vault_wf (store_spend e d oid uid p (cr_spend req))" for oid uid
  proof (cases "cr_spend req")
    case (Some x)
    have "vault_wf t" if "vault_wf s"
      "set_provider_connection_spend_credential (store_of e d oid uid p JNull x (dr_spend d)) s = Inr (a, t)" for s a t
      by (rule set_spend_wf [OF that]) (simp add: store_of_def nm sl(2) [OF Some])
    then show ?thesis unfolding Some store_spend_def option.case by (intro keeps_intros)
  qed (simp add: store_spend_def keeps_def)
  show ?thesis
    unfolding store_connection_def runHookupCheck_def case_prod_beta
    by (intro keeps_intros keeps_modify write_verdict_wf sp) (rule up)
qed

lemma update_balances_wf: "vault_wf s \<Longrightarrow> update_balances oid p (declare_on now x y) s = Inr (r, t) \<Longrightarrow> vault_wf t"
  by (auto simp: update_balances_def declare_on_def provider_core_def intro!: update_provider_wf)

lemma insert_snapshot_wf: "vault_wf s \<Longrightarrow> insert_snapshot n s = Inr (r, t) \<Longrightarrow> vault_wf t"
  by (auto simp: insert_snapshot_def vault_wf_def split: if_splits)

lemma keeps_save_balance: "keeps vault_wf (save_balance e p a g)"
  unfolding save_balance_def case_prod_beta
  by (intro keeps_intros keeps_case_list) (auto intro: update_balances_wf insert_snapshot_wf)

lemma requests_keep_the_vault:
  "keeps vault_wf (provider_PUT u e d hk ident p b)" "keeps vault_wf (provider_PATCH e ident p b)" "keeps vault_wf (provider_DELETE e ident p)"
  "keeps vault_wf (trace_PUT e d ident k b)" "keeps vault_wf (trace_PATCH e ident k b)" "keeps vault_wf (trace_DELETE e ident k)"
proof -
  have "keeps vault_wf (gated (requireProviderManager e ident p) (\<lambda>g. case parse_connect u p b of
       Inl err \<Rightarrow> ret (error_resp err 400) | Inr req \<Rightarrow> store_connection e d hk p req g))"
  proof (cases "isModelProvider p")
    case True
    then show ?thesis by (intro keeps_gated vault.cache) (auto intro: keeps_intros keeps_store_connection split: sum.split)
  next
    case False
    show ?thesis unfolding gated_def requireProviderManager_def if_P [OF False] bind_ret sum.case by (rule keeps_ret)
  qed
  then show "keeps vault_wf (provider_PUT u e d hk ident p b)" unfolding provider_PUT_def by (rule keeps_handler)
  show "keeps vault_wf (provider_PATCH e ident p b)"
    unfolding provider_PATCH_def by (intro keeps_handler keeps_gated vault.cache keeps_case_sum keeps_ret keeps_save_balance)
  show "keeps vault_wf (provider_DELETE e ident p)"
    unfolding provider_DELETE_def case_prod_beta
    by (intro keeps_handler keeps_gated vault.cache keeps_intros) (auto intro: delete_provider_wf)
  show "keeps vault_wf (trace_PUT e d ident k b)"
    unfolding trace_PUT_def case_prod_beta Let_def
    by (intro keeps_handler keeps_gated vault.cache keeps_intros) (auto intro: upsert_trace_wf)
  show "keeps vault_wf (trace_PATCH e ident k b)"
    unfolding trace_PATCH_def case_prod_beta
    by (intro keeps_handler keeps_gated vault.cache keeps_intros keeps_case_list) (auto intro: update_config_wf)
  show "keeps vault_wf (trace_DELETE e ident k)"
    unfolding trace_DELETE_def case_prod_beta
    by (intro keeps_handler keeps_gated vault.cache keeps_intros) (auto intro: delete_trace_wf)
qed

inductive conn_step :: "db \<Rightarrow> db \<Rightarrow> bool" where
  connect: "conn_step s (snd (provider_PUT u e d hk ident p b s))"
| declare_balance: "conn_step s (snd (provider_PATCH e ident p b s))"
| disconnect: "conn_step s (snd (provider_DELETE e ident p s))"
| connect_trace: "conn_step s (snd (trace_PUT e d ident k b s))"
| set_broadcast: "conn_step s (snd (trace_PATCH e ident k b s))"
| disconnect_trace: "conn_step s (snd (trace_DELETE e ident k s))"



section \<open>What an answer shows\<close>

definition hide_secrets :: "db \<Rightarrow> db" where
  "hide_secrets s = s\<lparr>vault_secrets := map (\<lambda>(k, x). (k, '''')) (vault_secrets s)\<rparr>"

interpretation secrets: gate_blind hide_secrets
  by unfold_locales (simp_all add: hide_secrets_def)

text \<open>Two runs on states that look alike under \<open>f\<close> answer the same and leave states that look alike.\<close>

definition alike :: "(db \<Rightarrow> db) \<Rightarrow> 'a act \<Rightarrow> 'a act \<Rightarrow> bool" where
  "alike f m n \<longleftrightarrow> (\<forall>s t. f s = f t \<longrightarrow> fst (m s) = fst (n t) \<and> f (snd (m s)) = f (snd (n t)))"

lemma alikeD: "alike f m n \<Longrightarrow> f s = f t \<Longrightarrow> fst (m s) = fst (n t) \<and> f (snd (m s)) = f (snd (n t))"
  by (simp add: alike_def)

lemma blind_alike: "blind f m \<Longrightarrow> alike f m m"
  unfolding alike_def
proof (intro allI impI)
  fix s t assume "blind f m" and "f s = f t"
  then show "fst (m s) = fst (m t) \<and> f (snd (m s)) = f (snd (m t))" using blindD [of f m s] blindD [of f m t] by simp
qed

lemma alike_ret: "alike f (ret x) (ret x)"
  by (simp add: alike_def)

lemma alike_bind:
  assumes "alike f m n" and "\<And>x. alike f (g x) (h x)"
  shows "alike f (bind m g) (bind n h)"
  unfolding alike_def
proof (intro allI impI)
  fix s t assume st: "f s = f t"
  obtain r s' where m: "m s = (r, s')" by (cases "m s")
  obtain t' where n: "n t = (r, t')" "f s' = f t'" using alikeD [OF assms(1) st] m by (cases "n t") simp
  show "fst (bind m g s) = fst (bind n h t) \<and> f (snd (bind m g s)) = f (snd (bind n h t))"
    using n(2) alikeD [OF assms(2) n(2)] by (cases r) (simp_all add: bind_apply m n(1))
qed

lemma handler_apply: "handler m s = (Inr (response m s), snd (m s))"
  by (auto simp: handler_def catching_apply response_def split: prod.splits sum.splits)

lemma alike_handler: "alike f m n \<Longrightarrow> alike f (handler m) (handler n)"
  by (simp add: alike_def handler_apply response_def)

lemma alike_call:
  assumes "\<And>s t. f s = f t \<Longrightarrow> map_sum id (apsnd f) (p s) = map_sum id (apsnd f) (q t)"
  shows "alike f (call flt p) (call flt q)"
  unfolding alike_def
proof (intro allI impI)
  fix s t assume st: "f s = f t"
  with assms [OF st] show "fst (call flt p s) = fst (call flt q t) \<and> f (snd (call flt p s)) = f (snd (call flt q t))"
    by (cases "p s"; cases "q t") (auto simp: call_apply exec_def split: option.split fault.split)
qed

lemma masked_keys: "map (\<lambda>(k, x). (k, '''' :: string)) v = map (\<lambda>k. (k, '''')) (map fst v)" for v :: "(string \<times> string) list"
  by (induction v) auto

lemma hide_eqE:
  assumes "hide_secrets s = hide_secrets t"
  obtains w where "t = s\<lparr>vault_secrets := w\<rparr>" and "map fst w = map fst (vault_secrets s)"
proof -
  have "map (\<lambda>k. (k, '''' :: string)) (map fst (vault_secrets s)) = map (\<lambda>k. (k, '''')) (map fst (vault_secrets t))"
    using arg_cong [OF assms, of vault_secrets] unfolding masked_keys [symmetric] by (simp add: hide_secrets_def)
  from arg_cong [OF this, of "map fst"] have "map fst (vault_secrets t) = map fst (vault_secrets s)" by (simp add: comp_def)
  moreover have "s\<lparr>vault_secrets := []\<rparr> = t\<lparr>vault_secrets := []\<rparr>"
    using arg_cong [OF assms, of "\<lambda>x. x\<lparr>vault_secrets := []\<rparr>"] by (simp add: hide_secrets_def)
  from arg_cong [OF this, of "\<lambda>x. x\<lparr>vault_secrets := vault_secrets t\<rparr>"] have "t = s\<lparr>vault_secrets := vault_secrets t\<rparr>" by simp
  ultimately show ?thesis using that by blast
qed

text \<open>What a member may learn of a secret: whether it is long enough to be one and its last four characters.\<close>

definition same_face :: "string \<Rightarrow> string \<Rightarrow> bool" where
  "same_face a b \<longleftrightarrow> right4 a = right4 b \<and> (length a < 12 \<longleftrightarrow> length b < 12) \<and> (a = '''' \<longleftrightarrow> b = '''')"


lemma alike_upsert:
  assumes "same_face x y"
  shows "alike hide_secrets (call flt (upsert_provider_connection (store_of e d oid uid p cfg x vid)))
     (call flt (upsert_provider_connection (store_of e d oid uid p cfg y vid)))"
proof (rule alike_call)
  fix s t assume "hide_secrets s = hide_secrets t"
  then obtain w where t: "t = s\<lparr>vault_secrets := w\<rparr>" and keys: "map fst w = map fst (vault_secrets s)" by (rule hide_eqE)
  have set: "fst ` set w = fst ` set (vault_secrets s)" using arg_cong [OF keys, of set] by simp
  have row: "new_provider_row (store_of e d oid uid p cfg x vid) k = new_provider_row (store_of e d oid uid p cfg y vid) k"
    "rotated (store_of e d oid uid p cfg x vid) r = rotated (store_of e d oid uid p cfg y vid) (r :: provider_row)" for k r
    using assms by (simp_all add: new_provider_row_def rotated_def store_of_def same_face_def)
  have sel: "sc_kind (store_of e d oid uid p cfg z vid) = p" "sc_secret (store_of e d oid uid p cfg z vid) = z" "sc_org (store_of e d oid uid p cfg z vid) = oid"
    "sc_now (store_of e d oid uid p cfg z vid) = now_ms e" "sc_new_id (store_of e d oid uid p cfg z vid) = dr_id d"
    "sc_new_vault (store_of e d oid uid p cfg z vid) = vid" for z by (simp_all add: store_of_def)
  have face: "hide_secrets (s\<lparr>vault_secrets := u, provider_connections := P, serving_endpoints := E\<rparr>) = hide_secrets (s\<lparr>vault_secrets := u', provider_connections := P, serving_endpoints := E\<rparr>)"
    if "map fst u = map fst u'" for u u' P E
    by (simp add: hide_secrets_def masked_keys that del: map_map)
  note n = face [of "vault_secrets s @ [(vid, x)]" "w @ [(vid, y)]"] and up = face [of "update_secret v x (vault_secrets s)" "update_secret v y w" for v]
  show "map_sum id (apsnd hide_secrets) (upsert_provider_connection (store_of e d oid uid p cfg x vid) s)
      = map_sum id (apsnd hide_secrets) (upsert_provider_connection (store_of e d oid uid p cfg y vid) t)"
    using assms unfolding upsert_provider_connection_def t sel
    by (auto simp: row org_known_def create_secret_def set same_face_def n up keys split: option.split simp del: first_where_None)
qed

lemma alike_spend:
  assumes "same_face x y"
  shows "alike hide_secrets (call flt (set_provider_connection_spend_credential (store_of e d oid uid p cfg x vid)))
     (call flt (set_provider_connection_spend_credential (store_of e d oid uid p cfg y vid)))"
proof (rule alike_call)
  fix s t assume "hide_secrets s = hide_secrets t"
  then obtain w where t: "t = s\<lparr>vault_secrets := w\<rparr>" and keys: "map fst w = map fst (vault_secrets s)" by (rule hide_eqE)
  have set: "fst ` set w = fst ` set (vault_secrets s)" using arg_cong [OF keys, of set] by simp
  have row: "with_spend (store_of e d oid uid p cfg x vid) k = with_spend (store_of e d oid uid p cfg y vid) k" for k
    using assms by (simp add: with_spend_def store_of_def same_face_def fun_eq_iff)
  have sel: "sc_kind (store_of e d oid uid p cfg z vid) = p" "sc_secret (store_of e d oid uid p cfg z vid) = z" "sc_org (store_of e d oid uid p cfg z vid) = oid"
    "sc_new_vault (store_of e d oid uid p cfg z vid) = vid" for z by (simp_all add: store_of_def)
  have face: "hide_secrets (s\<lparr>vault_secrets := u, provider_connections := P\<rparr>) = hide_secrets (s\<lparr>vault_secrets := u', provider_connections := P\<rparr>)"
    if "map fst u = map fst u'" for u u' P
    by (simp add: hide_secrets_def masked_keys that del: map_map)
  note n = face [of "vault_secrets s @ [(vid, x)]" "w @ [(vid, y)]"] and up = face [of "update_secret v x (vault_secrets s)" "update_secret v y w" for v]
  show "map_sum id (apsnd hide_secrets) (set_provider_connection_spend_credential (store_of e d oid uid p cfg x vid) s)
      = map_sum id (apsnd hide_secrets) (set_provider_connection_spend_credential (store_of e d oid uid p cfg y vid) t)"
    using assms unfolding set_provider_connection_spend_credential_def t sel
    by (auto simp: row create_secret_def set same_face_def n up keys split: option.split simp del: first_where_None)
qed

lemma blind_managed: "blind hide_secrets (managed e ident)"
  unfolding managed_def requireOrgManager_def requireOrgId_def case_prod_beta
  by (intro blind_intros secrets.gates secrets.blind_requireOrgAccess)

lemma alike_store:
  assumes "same_face (cr_secret r1) (cr_secret r2)" and "rel_option same_face (cr_spend r1) (cr_spend r2)" and "cr_config r1 = cr_config r2"
  shows "alike hide_secrets (store_connection e d hk p r1 g) (store_connection e d hk p r2 g)"
proof -
  have sp: "alike hide_secrets (store_spend e d oid uid p (cr_spend r1)) (store_spend e d oid uid p (cr_spend r2))" for oid uid
    using assms(2) by (cases "cr_spend r1"; cases "cr_spend r2") (auto simp: store_spend_def intro!: alike_bind alike_spend alike_ret)
  have ch: "alike hide_secrets (runHookupCheck oid p n hk) (runHookupCheck oid p n hk)" for oid n
    unfolding runHookupCheck_def by (intro blind_alike blind_intros blind_modify) (simp add: write_verdict_def hide_secrets_def split: option.split)
  show ?thesis
    unfolding store_connection_def case_prod_beta assms(3)
    by (rule alike_bind [OF alike_upsert [OF assms(1)]]) (auto intro!: alike_bind sp ch alike_ret split: sum.split)
qed



section \<open>Connecting and disconnecting\<close>

definition refused :: "resp \<Rightarrow> bool" where
  "refused r \<longleftrightarrow> (case body r of Some (JObj ((k, _) # _)) \<Rightarrow> k = ''error'' | _ \<Rightarrow> False)"

lemma refused_errors [simp]: "refused (error_resp m st)" "refused (jsonError e)"
proof -
  show "refused (error_resp m st)" by (simp add: refused_def error_resp_def)
  then show "refused (jsonError e)" by (cases e) (simp_all add: refused_def error_resp_def)
qed

lemma response_bind:
  "response (bind m f) s = (case m s of (Inl err, t) \<Rightarrow> jsonError err | (Inr x, t) \<Rightarrow> response (f x) t)"
  "snd (bind m f s) = (case m s of (Inl err, t) \<Rightarrow> t | (Inr x, t) \<Rightarrow> snd (f x t))"
  by (auto simp: response_def bind_apply split: prod.splits sum.splits)

lemma response_ret [simp]: "response (ret r) s = r" "response (Product_Type.Pair (Inr r)) s = r"
  by (simp_all add: response_def)

lemma managed_InrE:
  assumes "managed e ident s = (Inr (Inr (oid, uid)), v)"
  obtains u where "same_tables s v" and "same_tables s u" and "authorized_for u e oid Admin"
proof -
  have "same_tables s (snd (managed e ident s))"
    by (rule keepsD [OF keeps_managed]) (auto intro: same_tables_trans)
  then have st: "same_tables s v" by (simp add: assms)
  from assms obtain g w where "requireOrgManager e ident s = (Inr g, w)" "map_sum id (\<lambda>m. (mg_org m, mg_actor m)) g = Inr (oid, uid)"
    unfolding managed_def by (auto elim!: bind_InrE)
  then obtain x where "requireOrgManager e ident s = (Inr (Inr x), w)" "mg_org x = oid" by (cases g) auto
  then show ?thesis using requireOrgManager_InrE [of e ident s x w] st that by metis
qed

lemma gatedE:
  assumes "\<not> refused (response (gated (requireProviderManager e ident p) f) s)"
  obtains oid uid v where "isModelProvider p" and "managed e ident s = (Inr (Inr (oid, uid)), v)"
    and "response (gated (requireProviderManager e ident p) f) s = response (f (oid, uid)) v"
    and "snd (gated (requireProviderManager e ident p) f s) = snd (f (oid, uid) v)"
proof (cases "isModelProvider p")
  case True
  obtain r v where m: "managed e ident s = (r, v)" by (cases "managed e ident s")
  have "refused x" if "r = Inr (Inl x)" for x
    using m that by (auto simp: managed_def requireOrgManager_def elim!: bind_InrE split: if_splits sum.splits)
  then show ?thesis
    using assms True m that by (auto simp: gated_def requireProviderManager_def response_bind split: sum.splits)
next
  case False
  then show ?thesis using assms by (simp add: gated_def requireProviderManager_def)
qed

lemma same_tables_stores:
  assumes "same_tables s v"
  shows "vault_secrets v = vault_secrets s" "provider_connections v = provider_connections s" "trace_connections v = trace_connections s"
    "account_snapshots v = account_snapshots s" "serving_endpoints v = serving_endpoints s" "vault_wf v \<longleftrightarrow> vault_wf s"
proof -
  have clear: "v\<lparr>sso_cache := []\<rparr> = s\<lparr>sso_cache := []\<rparr>" using assms by (simp only: same_tables_def)
  show "vault_secrets v = vault_secrets s" "provider_connections v = provider_connections s" "trace_connections v = trace_connections s"
    "account_snapshots v = account_snapshots s" "serving_endpoints v = serving_endpoints s" "vault_wf v \<longleftrightarrow> vault_wf s"
    using arg_cong [OF clear, of vault_secrets] arg_cong [OF clear, of provider_connections] arg_cong [OF clear, of trace_connections]
      arg_cong [OF clear, of account_snapshots] arg_cong [OF clear, of serving_endpoints]
    by (simp_all add: vault_wf_def)
qed

lemma touched [simp]: "filter (\<lambda>ep. ep_org ep = oid \<and> ep_updated_at ep \<noteq> n) (touch_endpoints oid n es) = []"
  by (induction es) (simp_all add: touch_endpoints_def update_where_def)



lemma first_where_Nil_Cons:
  "first_where P [] = None" "first_where P (x # xs) = (if P x then Some x else first_where P xs)"
  by (simp_all add: first_where_def)

lemma first_where_snoc: "first_where P (xs @ [y]) = (case first_where P xs of Some x \<Rightarrow> Some x | None \<Rightarrow> if P y then Some y else None)"
  by (induction xs) (simp_all add: first_where_Nil_Cons)

lemma first_where_update_id:
  "first_where P xs = Some r \<Longrightarrow> distinct (map c_id xs) \<Longrightarrow> P (f r) \<Longrightarrow>
     first_where P (update_where (\<lambda>x. c_id x = c_id r) f xs) = Some (f r)"
proof (induction xs)
  case (Cons x xs)
  show ?case
  proof (cases "P x")
    case False
    then have "first_where P xs = Some r" using Cons.prems(1) by (simp add: first_where_Nil_Cons)
    then have "c_id x \<noteq> c_id r" using Cons.prems(2) by (auto dest!: first_where_SomeD)
    then show ?thesis using Cons False by (simp add: first_where_Nil_Cons update_where_def)
  qed (use Cons.prems in \<open>simp add: first_where_Nil_Cons update_where_def\<close>)
qed (simp add: first_where_Nil_Cons)

lemma first_where_update_slot:
  "(\<And>x. P (f x) \<longleftrightarrow> P x) \<Longrightarrow> first_where P (update_where P f xs) = map_option f (first_where P xs)"
  by (induction xs) (simp_all add: first_where_Nil_Cons update_where_def)

definition connection_of :: "string \<Rightarrow> string \<Rightarrow> db \<Rightarrow> provider_row option" where
  "connection_of oid p s = first_where (at_slot oid p) (provider_connections s)"

definition secret_at :: "string \<Rightarrow> db \<Rightarrow> string option" where
  "secret_at vid s = map_of (vault_secrets s) vid"

lemma secret_known:
  assumes "vault_wf s" and "connection_of oid p s = Some r" and "vid \<in> set (c_vault r # spend_refs r)"
  shows "vid \<in> fst ` set (vault_secrets s)"
proof -
  have "r \<in> set (provider_connections s)" using assms(2) by (auto simp: connection_of_def dest: first_where_SomeD)
  then have "vid \<in> set (provider_refs (provider_connections s))" using refs_of_row(2) assms(3) by blast
  then show ?thesis using stored_refs(2) assms(1) unfolding vault_wf_def by blast
qed

lemma upsert_provider_post:
  assumes "vault_wf s" and "upsert_provider_connection c s = Inr (row, t)" and "sql_name (sc_kind c) = Some p"
  shows "connection_of (sc_org c) p t = Some row" and "c_config row = sc_config c" and "secret_at (c_vault row) t = Some (sc_secret c)"
    and "pr_status row = ''unchecked''"
proof -
  have "connection_of (sc_org c) p t = Some row \<and> c_config row = sc_config c \<and> secret_at (c_vault row) t = Some (sc_secret c)
    \<and> pr_status row = ''unchecked''"
  proof (cases "connection_of (sc_org c) p s")
    case None
    then show ?thesis
      using assms(2,3)
      by (auto simp: upsert_provider_connection_def connection_of_def secret_at_def create_secret_def first_where_snoc new_provider_row_def
          at_slot_def map_of_new_secret split: if_splits option.splits simp del: first_where_None map_of_append)
  next
    case (Some r)
    have d: "distinct (map c_id (provider_connections s))" using assms(1) by (simp add: vault_wf_def stored_def)
    have "at_slot (sc_org c) p r" using Some by (auto simp: connection_of_def dest: first_where_SomeD)
    then have "first_where (at_slot (sc_org c) p) (update_where (\<lambda>x. c_id x = c_id r) (\<lambda>x. reset_verdict (rotated c x)) (provider_connections s))
        = Some (reset_verdict (rotated c r))"
      using Some by (intro first_where_update_id d) (simp_all add: connection_of_def at_slot_def reset_verdict_def rotated_def)
    moreover have "map_of (vault_secrets s) (c_vault r) \<noteq> None" using secret_known [OF assms(1) Some] by (simp add: map_of_eq_None_iff)
    ultimately show ?thesis
      using assms(2,3) Some
      by (auto simp: upsert_provider_connection_def connection_of_def secret_at_def reset_verdict_def rotated_def map_of_update_secret split: if_splits)
  qed
  then show "connection_of (sc_org c) p t = Some row" "c_config row = sc_config c" "secret_at (c_vault row) t = Some (sc_secret c)"
    "pr_status row = ''unchecked''" by simp_all
qed

lemma set_spend_post:
  assumes "vault_wf s" and "set_provider_connection_spend_credential c s = Inr (row, t)" and "sql_name (sc_kind c) = Some p"
    and "connection_of (sc_org c) p s = Some r"
  obtains w where "connection_of (sc_org c) p t = Some (with_spend c w r)" and "secret_at w t = Some (sc_secret c)"
    and "secret_at (c_vault r) t = secret_at (c_vault r) s"
proof -
  have d: "distinct (map c_id (provider_connections s))" using assms(1) by (simp add: vault_wf_def stored_def)
  have "at_slot (sc_org c) p r" using assms(4) by (auto simp: connection_of_def dest: first_where_SomeD)
  then have up: "first_where (at_slot (sc_org c) p) (update_where (\<lambda>x. c_id x = c_id r) (with_spend c w) (provider_connections s)) = Some (with_spend c w r)" for w
    using assms(4) by (intro first_where_update_id d) (simp_all add: connection_of_def at_slot_def with_spend_def)
  have key: "c_vault r \<in> fst ` set (vault_secrets s)" using secret_known [OF assms(1,4)] by simp
  have "distinct (provider_refs (provider_connections s))"
    using stored_refs(1) [of "vault_secrets s" "trace_connections s" "provider_connections s"] assms(1) by (simp add: vault_wf_def)
  then have other: "pr_spend_vault r = Some w \<Longrightarrow> w \<noteq> c_vault r" for w
    using assms(4) split_list [of r "provider_connections s"] by (auto simp: connection_of_def spend_refs_def dest!: first_where_SomeD)
  show ?thesis
  proof (cases "pr_spend_vault r")
    case None
    then have "connection_of (sc_org c) p t = Some (with_spend c (sc_new_vault c) r)" "secret_at (sc_new_vault c) t = Some (sc_secret c)"
      "secret_at (c_vault r) t = secret_at (c_vault r) s"
      using assms(2-4) up key
      by (auto simp: set_provider_connection_spend_credential_def connection_of_def secret_at_def create_secret_def map_of_new_secret(1) map_of_new_secret(2) [OF key]
          simp del: map_of_append split: if_splits)
    then show ?thesis by (rule that)
  next
    case (Some w)
    have "map_of (vault_secrets s) w \<noteq> None"
      using secret_known [OF assms(1,4), of w] Some by (simp add: map_of_eq_None_iff spend_refs_def)
    then have "connection_of (sc_org c) p t = Some (with_spend c w r)" "secret_at w t = Some (sc_secret c)"
      "secret_at (c_vault r) t = secret_at (c_vault r) s"
      using assms(2-4) up other [OF Some] Some
      by (auto simp: set_provider_connection_spend_credential_def connection_of_def secret_at_def map_of_update_secret split: if_splits)
    then show ?thesis by (rule that)
  qed
qed


lemma connection_of_verdict:
  assumes "connection_of oid p s = Some r"
  obtains r' where "connection_of oid p (write_verdict oid p n hk s) = Some r'" and "provider_core r' = provider_core r"
    and "c_config r' = c_config r" and "pr_status r' = (case hk_status hk of None \<Rightarrow> pr_status r | Some x \<Rightarrow> fst x)"
    and "vault_secrets (write_verdict oid p n hk s) = vault_secrets s"
proof (cases "hk_status hk")
  case None
  then show ?thesis using assms that [of r] by (simp add: write_verdict_def)
next
  case (Some x)
  obtain st detail where x: "x = (st, detail)" by (cases x)
  let ?f = "\<lambda>r. r\<lparr>pr_status := st, pr_status_detail := detail, pr_status_checked_at := Some n, pr_status_source := Some ''hookup_check''\<rparr>"
  have "first_where (at_slot oid p) (update_where (at_slot oid p) ?f (provider_connections s)) = Some (?f r)"
    by (subst first_where_update_slot) (use assms in \<open>simp_all add: connection_of_def at_slot_def\<close>)
  then show ?thesis using that [of "?f r"] Some x by (simp add: write_verdict_def connection_of_def provider_core_def)
qed

lemma store_spend_post:
  assumes "store_spend e d oid uid p spend s = (Inr se, t)" and "vault_wf s" and "isModelProvider p" and "connection_of oid p s = Some r"
  obtains r' where "connection_of oid p t = Some r'" and "c_config r' = c_config r" and "pr_status r' = pr_status r"
    and "c_vault r' = c_vault r" and "secret_at (c_vault r) t = secret_at (c_vault r) s"
    and "\<And>x. spend = Some x \<Longrightarrow> se = None \<Longrightarrow> \<exists>w. pr_spend_vault r' = Some w \<and> secret_at w t = Some x"
proof (cases spend)
  case None
  then show ?thesis using assms that [of r] by (simp add: store_spend_def)
next
  case (Some x)
  let ?k = "store_of e d oid uid p JNull x (dr_spend d)" and ?flt = "faults e ''set_provider_connection_spend_credential''"
  have k: "sql_name (sc_kind ?k) = Some p" "sc_org ?k = oid" "sc_secret ?k = x" by (simp_all add: store_of_def sql_name_listed assms(3))
  have run: "t = snd (exec ?flt (set_provider_connection_spend_credential ?k) s)"
    and ok: "se = None \<Longrightarrow> \<exists>y. set_provider_connection_spend_credential ?k s = Inr (y, t)"
    using assms(1) Some by (auto simp: store_spend_def bind_apply call_apply exec_def split: option.splits fault.splits sum.splits)
  show ?thesis
  proof (cases "\<exists>y. set_provider_connection_spend_credential ?k s = Inr (y, t)")
    case True
    then obtain w where "connection_of oid p t = Some (with_spend ?k w r)" "secret_at w t = Some x" "secret_at (c_vault r) t = secret_at (c_vault r) s"
      using set_spend_post [OF assms(2) _ k(1), unfolded k(2,3), OF _ assms(4)] by metis
    then show ?thesis using that [of "with_spend ?k w r"] Some by (simp add: with_spend_def)
  next
    case False
    then have "t = s" "se \<noteq> None" using exec_state_cases [of ?flt "set_provider_connection_spend_credential ?k" s] run ok by auto
    then show ?thesis by (intro that [of r]) (simp_all add: assms(4))
  qed
qed

lemma store_connection_post:
  assumes "\<not> refused (response (store_connection e d hk p req (oid, uid)) s)" and "vault_wf s" and "isModelProvider p"
    and "parse_connect u p b = Inr req" and "t = snd (store_connection e d hk p req (oid, uid) s)"
  shows "\<exists>r. connection_of oid p t = Some r \<and> c_config r = cr_config req \<and> secret_at (c_vault r) t = Some (cr_secret req)
    \<and> pr_status r = (case hk_status hk of None \<Rightarrow> ''unchecked'' | Some x \<Rightarrow> fst x)
    \<and> (jfield ''spendError'' (body (response (store_connection e d hk p req (oid, uid)) s)) = Some JNull \<longrightarrow>
         (case cr_spend req of None \<Rightarrow> True | Some x \<Rightarrow> (\<exists>w. pr_spend_vault r = Some w \<and> secret_at w t = Some x)))"
proof -
  let ?c = "store_of e d oid uid p (cr_config req) (cr_secret req) (dr_vault d)"
  have c: "sql_name (sc_kind ?c) = Some p" "sc_org ?c = oid" "sc_config ?c = cr_config req" "sc_secret ?c = cr_secret req"
    by (simp_all add: store_of_def sql_name_listed assms(3))
  obtain row v1 where up: "upsert_provider_connection ?c s = Inr (row, v1)" "faults e ''upsert_provider_connection'' = None"
    using assms(1) by (auto simp: store_connection_def response_bind call_apply exec_def split: option.splits fault.splits sum.splits)
  note post = upsert_provider_post [OF assms(2) up(1) c(1), unfolded c]
  have wf: "vault_wf v1" by (rule upsert_provider_wf [OF assms(2) up(1)]) (simp add: c parse_connect_slots [OF assms(4)])
  obtain se v2 where sp: "store_spend e d oid uid p (cr_spend req) v1 = (Inr se, v2)"
    by (cases "cr_spend req") (auto simp: store_spend_def bind_apply call_apply)
  have fin: "t = write_verdict oid p (now_ms e) hk v2"
    and ans: "jfield ''spendError'' (body (response (store_connection e d hk p req (oid, uid)) s)) = Some (jopt JStr se)"
    using up sp unfolding assms(5)
    by (simp_all add: store_connection_def response_bind call_apply runHookupCheck_def act_simps jfield_def json_resp_def)
  obtain r where r: "connection_of oid p v2 = Some r" "c_config r = c_config row" "pr_status r = pr_status row" "c_vault r = c_vault row"
    "secret_at (c_vault row) v2 = secret_at (c_vault row) v1"
    "\<And>x. cr_spend req = Some x \<Longrightarrow> se = None \<Longrightarrow> \<exists>w. pr_spend_vault r = Some w \<and> secret_at w v2 = Some x"
    using store_spend_post [OF sp wf assms(3) post(1)] by metis
  obtain r' where r': "connection_of oid p t = Some r'" "provider_core r' = provider_core r" "c_config r' = c_config r"
    "pr_status r' = (case hk_status hk of None \<Rightarrow> pr_status r | Some x \<Rightarrow> fst x)" "vault_secrets t = vault_secrets v2"
    unfolding fin by (rule connection_of_verdict [OF r(1)])
  have "jopt JStr se = JNull \<Longrightarrow> se = None" by (cases se) (simp_all add: jopt_def)
  moreover have "c_vault r' = c_vault r" "pr_spend_vault r' = pr_spend_vault r" using r'(2) by (simp_all add: provider_core_def)
  ultimately show ?thesis
    using r r' post unfolding ans by (intro exI [of _ r']) (auto simp: secret_at_def split: option.split)
qed

text \<open>
  C32. A connect request that is not refused came from an administrator of the organization and is kept: the
  connection carries the settings as they were parsed, its vault slot the credential as it was sent, its status is the
  verdict of this check and never that of an earlier key, and if the answer reports no trouble with the admin key,
  that key is in its slot as well.
\<close>

theorem connect_keeps_what_was_sent:
  assumes "\<not> refused (response (provider_PUT u e d hk ident p b) s)" and "vault_wf s" and "parse_connect u p b = Inr req"
    and "t = snd (provider_PUT u e d hk ident p b s)"
  shows "\<exists>oid r adm. same_tables s adm \<and> authorized_for adm e oid Admin \<and> connection_of oid p t = Some r
    \<and> c_config r = cr_config req \<and> secret_at (c_vault r) t = Some (cr_secret req)
    \<and> pr_status r = (case hk_status hk of None \<Rightarrow> ''unchecked'' | Some x \<Rightarrow> fst x)
    \<and> (jfield ''spendError'' (body (response (provider_PUT u e d hk ident p b) s)) = Some JNull \<longrightarrow>
         (case cr_spend req of None \<Rightarrow> True | Some x \<Rightarrow> (\<exists>w. pr_spend_vault r = Some w \<and> secret_at w t = Some x)))"
proof -
  let ?f = "\<lambda>g. store_connection e d hk p req g"
  have nr: "\<not> refused (response (gated (requireProviderManager e ident p) ?f) s)" and t: "t = snd (gated (requireProviderManager e ident p) ?f s)"
    and an: "response (provider_PUT u e d hk ident p b) s = response (gated (requireProviderManager e ident p) ?f) s"
    using assms(1,4) unfolding provider_PUT_def response_handler snd_handler assms(3) sum.case by simp_all
  obtain oid uid v where p: "isModelProvider p" and m: "managed e ident s = (Inr (Inr (oid, uid)), v)"
    and eq: "response (gated (requireProviderManager e ident p) ?f) s = response (?f (oid, uid)) v"
      "snd (gated (requireProviderManager e ident p) ?f s) = snd (?f (oid, uid) v)"
    by (rule gatedE [OF nr])
  obtain adm where st: "same_tables s v" "same_tables s adm" "authorized_for adm e oid Admin" using m by (rule managed_InrE)
  have "vault_wf v" using same_tables_stores(6) [OF st(1)] assms(2) by simp
  from store_connection_post [OF nr [unfolded eq] this p assms(3) t [unfolded eq]] show ?thesis
    using st(2,3) unfolding an eq by blast
qed

section \<open>Broadcast settings\<close>

text \<open>Rotating a trace credential whose stored settings can be read keeps the broadcast settings it does not name.\<close>

lemma carried_forward:
  assumes "map_of cfg ''broadcast'' = None" and "jfield ''broadcast'' c = Some b" and "is_jvalue_object (Some b)"
  shows "jget ''broadcast'' (JObj (carry_broadcast cfg (Inr c))) = Some b"
  using assms by (auto simp: carry_broadcast_def map_add_def)

text \<open>A read that fails is taken for a connection without settings, and the rotation then drops them.\<close>

lemma failed_read_drops_broadcast:
  "map_of cfg ''broadcast'' = None \<Longrightarrow> jget ''broadcast'' (JObj (carry_broadcast cfg (Inl err))) = None"
  by (simp add: carry_broadcast_def jfield_def is_jvalue_object_def)

lemma carry_own: "map_of cfg ''broadcast'' = Some b \<Longrightarrow> carry_broadcast cfg existing = cfg"
  by (simp add: carry_broadcast_def)

definition broadcasting :: "json \<Rightarrow> db" where
  "broadcasting cfg = sample_db\<lparr>vault_secrets := [(''v1'', ''key-of-the-project'')],
     trace_connections := [\<lparr>c_id = ''c1'', c_org = ''o1'', c_kind = ''posthog'', c_config = cfg, c_vault = ''v1'', c_last4 = ''ject'',
       c_created_by = Some ''u1'', c_updated_by = Some ''u1'', c_created_at = 1, c_updated_at = 1\<rparr>]\<rparr>"

definition ids :: drawn where "ids = \<lparr>dr_id = ''c9'', dr_vault = ''v9'', dr_spend = ''w9''\<rparr>"

definition broadcast_on :: json where
  "broadcast_on = JObj [(''broadcast'', JObj [(''enabled'', JBool True), (''privacy_mode'', JBool True), (''capture_token'', JStr ''phc_1'')])]"

definition read_fails :: env where
  "read_fails = sample_env\<lparr>faults := (\<lambda>n. if n = ''trace_connections.config'' then Some (Refused \<lparr>code = None, message = ''timeout''\<rparr>) else None)\<rparr>"

lemma rotation_loses_broadcast:
  "map c_config (trace_connections (snd (trace_PUT sample_env ids ''acme'' ''posthog'' (JObj [(''secret'', JStr ''new-key'')]) (broadcasting broadcast_on)))) = [broadcast_on]
   \<and> status (response (trace_PUT read_fails ids ''acme'' ''posthog'' (JObj [(''secret'', JStr ''new-key'')])) (broadcasting broadcast_on)) = 200
   \<and> map c_config (trace_connections (snd (trace_PUT read_fails ids ''acme'' ''posthog'' (JObj [(''secret'', JStr ''new-key'')]) (broadcasting broadcast_on)))) = [JObj []]"
  by code_simp

text \<open>The connect request stores broadcast settings the toggle refuses: no capture token, and a kind that cannot broadcast.\<close>

lemma connect_skips_the_broadcast_checks:
  "let on = JObj [(''enabled'', JBool True), (''privacy_mode'', JBool False)]; put = JObj [(''secret'', JStr ''new-key''), (''config'', JObj [(''broadcast'', on)])] in
   status (response (trace_PATCH sample_env ''acme'' ''posthog'' (JObj [(''broadcast'', on)])) (broadcasting (JObj []))) = 400
   \<and> status (response (trace_PUT sample_env ids ''acme'' ''posthog'' put) (broadcasting (JObj []))) = 200
   \<and> status (response (trace_PUT sample_env ids ''acme'' ''mastra'' put) sample_db) = 200
   \<and> map c_config (trace_connections (snd (trace_PUT sample_env ids ''acme'' ''mastra'' put sample_db))) = [JObj [(''broadcast'', on)]]"
  by code_simp

text \<open>
  The tail shown for a Modal connection is the end of the stored JSON text, not of the token, and the floor that
  keeps short secrets out of it is below the length of the JSON text alone.
\<close>

lemma modal_tail_is_not_the_secrets:
  "map_sum id (\<lambda>x. (right4 x, 12 \<le> length x)) (parseModalSecret (Some (JObj [(''token_id'', JStr ''ak-12345''), (''token_secret'', JStr ''as-9'')])))
     = Inr (''-9'' @ [CHR 0x22, CHR ''}''], True)"
  by code_simp

section \<open>Concrete requests\<close>

definition no_url :: "string \<Rightarrow> (string \<times> string) option" where "no_url s = None"

definition openai_body :: "string \<Rightarrow> json" where
  "openai_body key = JObj [(''secret'', JStr key), (''spendSecret'', JStr ''sk-admin-0123456789'')]"

definition verified :: hookup where
  "verified = \<lparr>hk_answer = Some (JObj [(''status'', JStr ''valid'')]), hk_status = Some (''valid'', None)\<rparr>"

definition connected :: db where
  "connected = snd (provider_PUT no_url sample_env ids verified ''acme'' ''openai'' (openai_body ''sk-proj-0123-abcd'') sample_db)"




theorem connect_keeps_witness:
  "\<exists>r. connection_of ''o1'' ''openai'' connected = Some r \<and> secret_at (c_vault r) connected = Some ''sk-proj-0123-abcd'' \<and> pr_status r = ''valid''"
proof -
  let ?r = "\<lparr>cr_secret = ''sk-proj-0123-abcd'', cr_spend = Some ''sk-admin-0123456789'', cr_config = JObj []\<rparr>"
  have 1: "\<not> refused (response (provider_PUT no_url sample_env ids verified ''acme'' ''openai'' (openai_body ''sk-proj-0123-abcd'')) sample_db)"
    "vault_wf sample_db" "parse_connect no_url ''openai'' (openai_body ''sk-proj-0123-abcd'') = Inr ?r" by code_simp+
  obtain oid r where r: "connection_of oid ''openai'' connected = Some r" "secret_at (c_vault r) connected = Some ''sk-proj-0123-abcd''"
    "pr_status r = ''valid''"
    using connect_keeps_what_was_sent [OF 1 connected_def] by (auto simp: verified_def)
  have "list_all (\<lambda>r. c_org r = ''o1'') (provider_connections connected)" by code_simp
  then have "oid = ''o1''" using r(1) by (auto simp: connection_of_def at_slot_def list_all_iff dest!: first_where_SomeD)
  then show ?thesis using r by blast
qed


end
