(* ===== verification/Connection_Views.thy ===== *)
theory Connection_Views
  imports Connections Number_Text
begin

text \<open>
  How stored connections are read and shown: \<open>lib/provider-connections.ts\<close> with the list route
  \<open>app/api/orgs/[orgId]/provider-connections/route.ts\<close>, the rows of \<open>components/keys/provider-meta.ts\<close> and the request of
  \<open>components/keys/store.ts\<close>. The list is read with the caller's own rights: the row policy
  (\<open>provider_connections_select_member\<close>) shows the rows of the organizations the caller is a member of.
\<close>

section \<open>The list\<close>

record snapshot_summary =
  ss_taken_at :: int
  ss_spend_usd :: "jsnum option"
  ss_credits_usd :: "jsnum option"
  ss_limit_usd :: "jsnum option"
  ss_source :: string

record connection_summary =
  cs_provider :: string
  cs_connected :: bool
  cs_config :: "json option"
  cs_last4 :: "string option"
  cs_spend_last4 :: "string option"
  cs_updated_at :: "int option"
  cs_status :: string
  cs_status_detail :: "json option"
  cs_status_checked_at :: "int option"
  cs_status_source :: "string option"
  cs_declared_usd :: "jsnum option"
  cs_declared_at :: "int option"
  cs_metered_usd :: jsnum
  cs_threshold_usd :: jsnum
  cs_latest :: "snapshot_summary option"

definition not_connected :: "string \<Rightarrow> connection_summary" where
  "not_connected provider = \<lparr>cs_provider = provider, cs_connected = False, cs_config = None, cs_last4 = None, cs_spend_last4 = None,
     cs_updated_at = None, cs_status = ''unchecked'', cs_status_detail = None, cs_status_checked_at = None, cs_status_source = None,
     cs_declared_usd = None, cs_declared_at = None, cs_metered_usd = js_int 0, cs_threshold_usd = js_int 5, cs_latest = None\<rparr>"

definition summary_of :: "string \<Rightarrow> provider_row \<Rightarrow> snapshot_summary option \<Rightarrow> connection_summary" where
  "summary_of provider r latest = \<lparr>cs_provider = provider, cs_connected = True, cs_config = Some (c_config r), cs_last4 = Some (c_last4 r),
     cs_spend_last4 = pr_spend_last4 r, cs_updated_at = Some (c_updated_at r),
     cs_status = (if isProviderConnectionStatus (pr_status r) then pr_status r else ''unchecked''), cs_status_detail = pr_status_detail r,
     cs_status_checked_at = pr_status_checked_at r, cs_status_source = pr_status_source r, cs_declared_usd = pr_declared_usd r,
     cs_declared_at = pr_declared_at r, cs_metered_usd = pr_metered_usd r, cs_threshold_usd = pr_threshold_usd r, cs_latest = latest\<rparr>"

text \<open>What the row policies let a session read.\<close>

definition member_of :: "env \<Rightarrow> string \<Rightarrow> db \<Rightarrow> bool" where
  "member_of e oid s \<longleftrightarrow>
     (case getAuthenticatedUser e of None \<Rightarrow> False | Some u \<Rightarrow> list_ex (\<lambda>m. m_org m = oid \<and> m_user m = usr_id u) (members s))"

definition readable_connections :: "env \<Rightarrow> string \<Rightarrow> db \<Rightarrow> provider_row list" where
  "readable_connections e oid s = (if member_of e oid s then filter (\<lambda>r. c_org r = oid) (provider_connections s) else [])"

text \<open>The snapshots of a connection, newest first; equal times stay in the order of the table.\<close>

definition snapshots_desc :: "env \<Rightarrow> string \<Rightarrow> string \<Rightarrow> db \<Rightarrow> snapshot_summary list" where
  "snapshots_desc e oid provider s =
     map (\<lambda>n. \<lparr>ss_taken_at = sn_taken_at n, ss_spend_usd = sn_spend_usd n, ss_credits_usd = sn_credits_usd n, ss_limit_usd = sn_limit_usd n, ss_source = sn_source n\<rparr>)
       (sort_key (\<lambda>n. - sn_taken_at n)
          (if member_of e oid s then filter (\<lambda>n. sn_org n = oid \<and> sn_provider n = provider) (account_snapshots s) else []))"

definition latestSnapshot :: "env \<Rightarrow> string \<Rightarrow> string \<Rightarrow> snapshot_summary option act" where
  "latestSnapshot e oid provider =
     bind (query (faults e (''provider_account_snapshots.latest:'' @ provider)) (snapshots_desc e oid provider)) (\<lambda>r.
     bind (orThrow ''Unable to load provider account snapshots: '' r) (\<lambda>rows.
     ret (case rows of [] \<Rightarrow> None | n # _ \<Rightarrow> Some n)))"

definition snapshotHistory :: "env \<Rightarrow> string \<Rightarrow> string \<Rightarrow> nat \<Rightarrow> snapshot_summary list act" where
  "snapshotHistory e oid provider n =
     bind (query (faults e (''provider_account_snapshots.history:'' @ provider)) (snapshots_desc e oid provider)) (\<lambda>r.
     bind (orThrow ''Unable to load provider account snapshots: '' r) (\<lambda>rows.
     ret (rev (take n rows))))"

fun for_each :: "('a \<Rightarrow> 'b act) \<Rightarrow> 'a list \<Rightarrow> 'b list act" where
  "for_each f [] = ret []"
| "for_each f (x # xs) = bind (f x) (\<lambda>y. bind (for_each f xs) (\<lambda>ys. ret (y # ys)))"

definition summarize :: "env \<Rightarrow> string \<Rightarrow> (string, provider_row) jsmap \<Rightarrow> string \<Rightarrow> connection_summary act" where
  "summarize e oid byProvider provider =
     (case map_get byProvider provider of
        None \<Rightarrow> ret (not_connected provider)
      | Some row \<Rightarrow> bind (latestSnapshot e oid provider) (\<lambda>latest. ret (summary_of provider row latest)))"

definition listProviderConnections :: "env \<Rightarrow> string \<Rightarrow> connection_summary list act" where
  "listProviderConnections e oid =
     bind (query (faults e ''provider_connections.list'') (readable_connections e oid)) (\<lambda>r.
     bind (orThrow ''Unable to load provider connections: '' r) (\<lambda>rows.
     let byProvider = fold (\<lambda>row. map_set (c_kind row) row) rows [] in
     for_each (summarize e oid byProvider) MODEL_PROVIDERS))"

definition listProviderConnectionsWithHistory :: "env \<Rightarrow> string \<Rightarrow> nat \<Rightarrow> (connection_summary \<times> snapshot_summary list) list act" where
  "listProviderConnectionsWithHistory e oid n =
     bind (listProviderConnections e oid) (\<lambda>connections.
     for_each (\<lambda>c. if cs_connected c then bind (snapshotHistory e oid (cs_provider c) n) (\<lambda>h. ret (c, h)) else ret (c, [])) connections)"

section \<open>The list route\<close>

definition snapshot_fields :: "snapshot_summary \<Rightarrow> (string \<times> json) list" where
  "snapshot_fields n = [(''taken_at'', JNum (js_int (ss_taken_at n))), (''spend_usd'', jopt JNum (ss_spend_usd n)),
     (''credits_remaining_usd'', jopt JNum (ss_credits_usd n)), (''usage_limit_usd'', jopt JNum (ss_limit_usd n)), (''source'', JStr (ss_source n))]"

definition point_fields :: "snapshot_summary \<Rightarrow> (string \<times> json) list" where
  "point_fields n = [(''taken_at'', JNum (js_int (ss_taken_at n))), (''spend_usd'', jopt JNum (ss_spend_usd n)),
     (''credits_remaining_usd'', jopt JNum (ss_credits_usd n)), (''source'', JStr (ss_source n))]"

definition summary_fields :: "connection_summary \<Rightarrow> (string \<times> json) list" where
  "summary_fields c = [(''provider'', JStr (cs_provider c)), (''connected'', JBool (cs_connected c)), (''config'', jopt id (cs_config c)),
     (''credential_last4'', jopt JStr (cs_last4 c)), (''spend_credential_last4'', jopt JStr (cs_spend_last4 c)),
     (''updated_at'', jopt (JNum \<circ> js_int) (cs_updated_at c)), (''status'', JStr (cs_status c)), (''status_detail'', jopt id (cs_status_detail c)),
     (''status_checked_at'', jopt (JNum \<circ> js_int) (cs_status_checked_at c)), (''status_source'', jopt JStr (cs_status_source c)),
     (''declared_balance_usd'', jopt JNum (cs_declared_usd c)), (''declared_balance_set_at'', jopt (JNum \<circ> js_int) (cs_declared_at c)),
     (''metered_spend_usd'', JNum (cs_metered_usd c)), (''low_balance_threshold_usd'', JNum (cs_threshold_usd c)),
     (''latest_snapshot'', jopt (JObj \<circ> snapshot_fields) (cs_latest c))]"

definition MAX_HISTORY_POINTS :: nat where "MAX_HISTORY_POINTS = 90"

text \<open>\<open>^\d+$\<close> and a number of at least one, capped.\<close>

definition parse_history :: "string option \<Rightarrow> string + nat option" where
  "parse_history raw =
     (case raw of
        None \<Rightarrow> Inr None
      | Some t \<Rightarrow>
          if t = '''' \<or> \<not> list_all is_digit t \<or> js_lt (js_Number t) (js_int 1) then Inl ''history must be a positive integer.''
          else Inr (Some (nat (js_to_int (js_min (js_Number t) (js_int (int MAX_HISTORY_POINTS)))))))"

definition connections_GET :: "env \<Rightarrow> string \<Rightarrow> string option \<Rightarrow> resp act" where
  "connections_GET e orgIdentifier rawHistory = handler (
     bind (requireOrgId e orgIdentifier) (\<lambda>oid.
     case parse_history rawHistory of
       Inl err \<Rightarrow> ret (error_resp err 400)
     | Inr None \<Rightarrow>
         bind (listProviderConnections e oid) (\<lambda>cs. ret (jsonOk (JObj [(''connections'', JArr (map (JObj \<circ> summary_fields) cs))])))
     | Inr (Some n) \<Rightarrow>
         bind (listProviderConnectionsWithHistory e oid n) (\<lambda>cs. ret (jsonOk (JObj [(''connections'',
           JArr (map (\<lambda>(c, h). JObj (summary_fields c @ [(''history'', JArr (map (JObj \<circ> point_fields) h))])) cs))])))))"

section \<open>A row of the key hub\<close>

definition hasSpendKey :: "connection_summary \<Rightarrow> bool" where
  "hasSpendKey c \<longleftrightarrow> cs_spend_last4 c \<noteq> None"

definition canReportSpend :: "connection_summary \<Rightarrow> bool" where
  "canReportSpend c \<longleftrightarrow> cs_connected c \<and>
     (if List.member [''openrouter'', ''bedrock'', ''fireworks'', ''modal''] (cs_provider c) then True
      else if List.member [''anthropic'', ''openai''] (cs_provider c) then hasSpendKey c
      else False)"

definition hookupLine :: "connection_summary \<Rightarrow> string" where
  "hookupLine c =
     (if \<not> cs_connected c then ''Not connected''
      else if List.member [''openai'', ''anthropic''] (cs_provider c) then (if hasSpendKey c then ''API key + admin key (spend)'' else ''API key'')
      else if List.member [''gemini'', ''openrouter'', ''fireworks''] (cs_provider c) then ''API key''
      else if cs_provider c = ''azure_openai'' then
        (let n = (case jfield ''deployments'' (cs_config c) of Some (JObj kvs) \<Rightarrow> length kvs | _ \<Rightarrow> 0) in
         ''Azure key + '' @ js_String (js_int (int n)) @ (if n = 1 then '' deployment'' else '' deployments''))
      else if cs_provider c = ''bedrock'' then
        (case jfield ''region'' (cs_config c) of
           Some (JStr r) \<Rightarrow> if r \<noteq> '''' then ''AWS IAM keys ('' @ r @ '')'' else ''AWS IAM keys''
         | _ \<Rightarrow> ''AWS IAM keys'')
      else ''Token pair'')"

definition middle_dot :: string where "middle_dot = [CHR 0xC2, CHR 0xB7]"

definition snapshot_parts :: "snapshot_summary \<Rightarrow> string list" where
  "snapshot_parts n =
     (case ss_spend_usd n of None \<Rightarrow> [] | Some x \<Rightarrow> [formatCostUsd (Some x) @ '' this month''])
     @ (case ss_credits_usd n of
          None \<Rightarrow> []
        | Some x \<Rightarrow>
            (case ss_limit_usd n of
               Some l \<Rightarrow> [''credits: '' @ formatCostUsd (Some x) @ '' left / limit '' @ formatCostUsd (Some l)]
             | None \<Rightarrow> [''credits: '' @ formatCostUsd (Some x) @ '' left'']))"

definition no_reading :: "connection_summary \<Rightarrow> string" where
  "no_reading c =
     (case cs_declared_usd c of
        Some d \<Rightarrow> ''self-reported: '' @ formatSignedCostUsd (Some (js_sub d (cs_metered_usd c))) @ '' left''
      | None \<Rightarrow>
          if cs_provider c = ''gemini'' then ''Google doesn'' @ [CHR 0x27] @ ''t report this''
          else if cs_provider c = ''azure_openai'' then ''Azure doesn'' @ [CHR 0x27] @ ''t report this''
          else if List.member [''anthropic'', ''openai''] (cs_provider c) then ''connect an admin key to see spend''
          else ''no spend data yet'')"

definition spendSummary :: "connection_summary \<Rightarrow> string" where
  "spendSummary c =
     (if \<not> cs_connected c then em_dash
      else (case cs_latest c of
              None \<Rightarrow> no_reading c
            | Some n \<Rightarrow> if snapshot_parts n \<noteq> [] then join_with ('' '' @ middle_dot @ '' '') (snapshot_parts n) else no_reading c))"

definition spendKeyProblem :: "json option \<Rightarrow> string option" where
  "spendKeyProblem detail =
     (case jfield ''spend_key'' detail of
        Some (JObj kvs) \<Rightarrow>
          (case jget ''status'' (JObj kvs) of
             Some (JStr st) \<Rightarrow>
               if st = ''valid'' then None
               else (case jstr (jget ''remediation'' (JObj kvs)) of
                       Some r \<Rightarrow> Some r
                     | None \<Rightarrow>
                         (case jstr (jget ''provider_message'' (JObj kvs)) of
                            Some m \<Rightarrow> Some m
                          | None \<Rightarrow> Some (''The admin key came back '' @ st @ ''.'')))
           | _ \<Rightarrow> None)
      | _ \<Rightarrow> None)"

definition status_labels :: "(string \<times> string) list" where
  "status_labels = [(''unchecked'', ''Not verified''), (''valid'', ''Verified''), (''invalid'', ''Invalid key''), (''rate_limited'', ''Rate limited''),
     (''quota_exhausted'', ''Out of quota''), (''provider_error'', ''Provider error'')]"

definition providerConnectionStatusLabel :: "string \<Rightarrow> string option" where
  "providerConnectionStatusLabel st = map_of status_labels st"

definition storedStatusMessage :: "connection_summary \<Rightarrow> string" where
  "storedStatusMessage c =
     (let remediation = jstr (jfield ''remediation'' (cs_status_detail c)); words = jstr (jfield ''provider_message'' (cs_status_detail c));
          label = (case providerConnectionStatusLabel (cs_status c) of Some l \<Rightarrow> l | None \<Rightarrow> ''undefined'') in
      case remediation of
        Some r \<Rightarrow>
          (case words of
             Some w \<Rightarrow> if \<not> str_includes r w then r @ '' (Provider said: '' @ [CHR 0x22] @ w @ [CHR 0x22] @ '')'' else r
           | None \<Rightarrow> r)
      | None \<Rightarrow> (case words of Some w \<Rightarrow> label @ '': '' @ w | None \<Rightarrow> label))"

text \<open>What \<open>connectProvider\<close> makes of the answer of a connect request.\<close>

definition connectProvider :: "resp \<Rightarrow> string + json option" where
  "connectProvider r =
     (if 200 \<le> status r \<and> status r < 300
      then Inr (case jfield ''check'' (body r) of None \<Rightarrow> None | Some c \<Rightarrow> if c = JNull then None else Some c)
      else Inl (case jfield ''error'' (body r) of Some (JStr e) \<Rightarrow> e | _ \<Rightarrow> ''The request failed ('' @ js_String (js_int (status r)) @ '').''))"

text \<open>What the form then shows: an error text, or nothing.\<close>

definition form_error :: "resp \<Rightarrow> string option" where
  "form_error r =
     (case connectProvider r of
        Inl e \<Rightarrow> Some e
      | Inr None \<Rightarrow> None
      | Inr (Some check) \<Rightarrow>
          if jget ''status'' check = Some (JStr ''valid'')
          then map_option (\<lambda>t. ''The API key verified, but the admin key did not: '' @ t) (spendKeyProblem (jget ''status_detail'' check))
          else (case checkRemediation (jget ''status_detail'' check) of
                  Some t \<Rightarrow> Some t
                | None \<Rightarrow>
                    (case jget ''status'' check of
                       Some (JStr st) \<Rightarrow> map_option (\<lambda>l. ''The key was saved but its check came back '' @ toLowerCase l @ ''.'') (providerConnectionStatusLabel st)
                     | _ \<Rightarrow> None)))"

section \<open>The list is the organization's\<close>

lemma map_of_set: "map_of (AList.update k v m) x = (if x = k then Some v else map_of m x)"
  by (simp add: update_conv')

lemma by_kind:
  "distinct (map c_kind rows) \<Longrightarrow> map_get (fold (\<lambda>row. map_set (c_kind row) row) rows acc) p
     = (case first_where (\<lambda>r. c_kind r = p) rows of Some r \<Rightarrow> Some r | None \<Rightarrow> map_get acc p)"
proof (induction rows arbitrary: acc)
  case (Cons r rows)
  have "first_where (\<lambda>r. c_kind r = p) rows = None" if "c_kind r = p" using Cons.prems that by (force simp: image_iff)
  then show ?case using Cons by (auto simp: first_where_Nil_Cons map_of_set simp del: first_where_None split: option.split)
qed (simp add: first_where_Nil_Cons)

lemma first_where_filter: "first_where P (filter Q xs) = first_where (\<lambda>x. Q x \<and> P x) xs"
  by (induction xs) (simp_all add: first_where_Nil_Cons)

lemma kinds_of_org: "distinct (map slot rs) \<Longrightarrow> distinct (map c_kind (filter (\<lambda>r. c_org r = oid) rs))"
  by (auto simp: distinct_map inj_on_def)

text \<open>The reference: one row per provider, in order, from the organization's own connection.\<close>

definition readable_connection :: "env \<Rightarrow> string \<Rightarrow> string \<Rightarrow> db \<Rightarrow> provider_row option" where
  "readable_connection e oid p s = (if member_of e oid s then connection_of oid p s else None)"

definition entry :: "env \<Rightarrow> string \<Rightarrow> db \<Rightarrow> string \<Rightarrow> connection_summary" where
  "entry e oid s p =
     (case readable_connection e oid p s of
        None \<Rightarrow> not_connected p
      | Some r \<Rightarrow> summary_of p r (case snapshots_desc e oid p s of [] \<Rightarrow> None | n # _ \<Rightarrow> Some n))"

lemma by_provider:
  assumes "vault_wf s"
  shows "map_get (fold (\<lambda>row. map_set (c_kind row) row) (readable_connections e oid s) []) p = readable_connection e oid p s"
proof -
  have "distinct (map slot (provider_connections s))" using assms by (simp add: vault_wf_def stored_def)
  note d = kinds_of_org [OF this, of oid]
  have "first_where (\<lambda>x. c_org x = oid \<and> c_kind x = p) (provider_connections s) = connection_of oid p s"
    unfolding connection_of_def at_slot_def [abs_def] ..
  then show ?thesis
    using by_kind [OF d, of "[]" p]
    by (simp add: readable_connections_def readable_connection_def first_where_filter split: option.split)
qed

lemma for_each_reads:
  assumes "\<And>x y t. x \<in> set xs \<Longrightarrow> f x s = (Inr y, t) \<Longrightarrow> t = s \<and> y = g x" and "for_each f xs s = (Inr ys, t)"
  shows "t = s \<and> ys = map g xs"
  using assms
proof (induction xs arbitrary: ys t)
  case (Cons x xs)
  obtain y v where fx: "f x s = (Inr y, v)" and rest: "bind (for_each f xs) (\<lambda>ys. ret (y # ys)) v = (Inr ys, t)"
    using Cons.prems(2) unfolding for_each.simps by (rule bind_InrE)
  have "v = s \<and> y = g x" by (rule Cons.prems(1) [OF _ fx]) simp
  then have v: "v = s" and y: "y = g x" by (rule conjunct1, rule conjunct2)
  obtain zs w where zs: "for_each f xs v = (Inr zs, w)" and e: "ret (y # zs) w = (Inr ys, t)"
    using rest by (rule bind_InrE)
  have "w = s \<and> zs = map g xs" by (rule Cons.IH [OF Cons.prems(1) zs [unfolded v]]) simp_all
  with e y show ?case by (simp add: ret_def)
qed simp

lemma latest_reads:
  assumes "latestSnapshot e oid p s = (Inr l, t)"
  shows "t = s \<and> l = (case snapshots_desc e oid p s of [] \<Rightarrow> None | n # _ \<Rightarrow> Some n)"
proof -
  obtain r v where q: "query (faults e (''provider_account_snapshots.latest:'' @ p)) (snapshots_desc e oid p) s = (Inr r, v)"
    and rest: "bind (orThrow ''Unable to load provider account snapshots: '' r) (\<lambda>rows. ret (case rows of [] \<Rightarrow> None | n # _ \<Rightarrow> Some n)) v = (Inr l, t)"
    using assms unfolding latestSnapshot_def by (rule bind_InrE)
  from rest obtain rows w where o1: "orThrow ''Unable to load provider account snapshots: '' r v = (Inr rows, w)"
    and o2: "ret (case rows of [] \<Rightarrow> None | n # _ \<Rightarrow> Some n) w = (Inr l, t)"
    by (rule bind_InrE)
  from o1 have "w = v" "r = Inr rows" by (auto elim: orThrow_InrE)
  with q o2 show ?thesis by (auto dest: read_db_InrD)
qed

text \<open>
  C33. A list that loads shows every provider exactly once, in the fixed order, each with what is stored for this
  organization, and changes nothing: no row of another organization is in it, and to a reader who is
  no member every provider is unconnected.
\<close>

theorem list_is_the_organizations:
  assumes "vault_wf s" and "listProviderConnections e oid s = (Inr cs, t)"
  shows "t = s \<and> cs = map (entry e oid s) MODEL_PROVIDERS"
proof -
  let ?by = "fold (\<lambda>row. map_set (c_kind row) row) (readable_connections e oid s) []"
  obtain r v where q: "query (faults e ''provider_connections.list'') (readable_connections e oid) s = (Inr r, v)"
    and rest: "bind (orThrow ''Unable to load provider connections: '' r) (\<lambda>rows. for_each (summarize e oid (fold (\<lambda>row. map_set (c_kind row) row) rows [])) MODEL_PROVIDERS) v = (Inr cs, t)"
    using assms(2) unfolding listProviderConnections_def Let_def by (rule bind_InrE)
  from rest obtain rows where "r = Inr rows" "for_each (summarize e oid (fold (\<lambda>row. map_set (c_kind row) row) rows [])) MODEL_PROVIDERS v = (Inr cs, t)"
    by (rule bind_InrE) (auto elim: orThrow_InrE)
  then have all: "for_each (summarize e oid ?by) MODEL_PROVIDERS s = (Inr cs, t)" using q by (auto dest: read_db_InrD)
  have one: "t = s \<and> y = entry e oid s p" if "summarize e oid ?by p s = (Inr y, t)" for p y t
  proof (cases "readable_connection e oid p s")
    case None
    then show ?thesis using that by (simp add: summarize_def by_provider [OF assms(1)] entry_def)
  next
    case (Some row)
    then have "bind (latestSnapshot e oid p) (\<lambda>latest. ret (summary_of p row latest)) s = (Inr y, t)"
      using that by (simp add: summarize_def by_provider [OF assms(1)])
    then obtain l v where l: "latestSnapshot e oid p s = (Inr l, v)" and r: "ret (summary_of p row l) v = (Inr y, t)"
      by (rule bind_InrE)
    have "v = s" and "l = (case snapshots_desc e oid p s of [] \<Rightarrow> None | n # _ \<Rightarrow> Some n)" using latest_reads [OF l] by (rule conjunct1, rule conjunct2)
    with r Some show ?thesis by (auto simp: entry_def ret_def)
  qed
  show ?thesis by (rule for_each_reads [OF one all])
qed

section \<open>What a declared balance looks like\<close>

definition meter :: "(provider_row \<Rightarrow> jsnum) \<Rightarrow> db \<Rightarrow> db" where
  "meter f s = s\<lparr>provider_connections := map (\<lambda>r. r\<lparr>pr_metered_usd := f r\<rparr>) (provider_connections s)\<rparr>"

lemma insort_newest:
  "\<forall>x\<in>set xs. k y < (k x :: int) \<Longrightarrow> sort_key k (xs @ [y]) = y # sort_key k xs"
  by (induction xs) auto


lemma first_where_head: "first_where P xs = (case filter P xs of [] \<Rightarrow> None | x # _ \<Rightarrow> Some x)"
  by (induction xs) (simp_all add: first_where_Nil_Cons)

lemma save_balance_post:
  assumes "\<not> refused (response (save_balance e p (Some x, th) (oid, uid)) v)" and "t = snd (save_balance e p (Some x, th) (oid, uid) v)"
  obtains r where "connection_of oid p v = Some r"
    and "provider_connections t = update_where (at_slot oid p) (declare_on (now_ms e) (Some x) th) (provider_connections v)"
    and "account_snapshots t = account_snapshots v @ [\<lparr>sn_org = oid, sn_connection = c_id r, sn_provider = p, sn_taken_at = now_ms e,
          sn_spend_usd = None, sn_credits_usd = Some x, sn_limit_usd = None, sn_source = ''self_reported''\<rparr>]"
    and "members t = members v"
proof (cases "filter (at_slot oid p) (provider_connections v)")
  case Nil
  then show ?thesis using assms(1)
    by (simp add: save_balance_def response_bind call_apply exec_def update_balances_def split: option.splits fault.splits)
next
  case (Cons r rs)
  then have c: "connection_of oid p v = Some r" by (simp add: connection_of_def first_where_head)
  let ?v = "v\<lparr>provider_connections := update_where (at_slot oid p) (declare_on (now_ms e) (Some x) th) (provider_connections v)\<rparr>"
  let ?n = "\<lparr>sn_org = oid, sn_connection = c_id r, sn_provider = p, sn_taken_at = now_ms e, sn_spend_usd = None,
    sn_credits_usd = Some x, sn_limit_usd = None, sn_source = ''self_reported''\<rparr>"
  have f1: "faults e ''provider_connections.update'' = None"
    using assms(1) Cons by (simp add: save_balance_def response_bind call_apply exec_def update_balances_def split: option.splits fault.splits)
  have f2: "faults e ''provider_account_snapshots.insert'' = None" "sn_connection ?n \<in> set (map c_id (provider_connections ?v))"
    using assms(1) Cons f1 by (simp_all add: save_balance_def response_bind call_apply exec_def update_balances_def insert_snapshot_def declare_on_def
      split: option.splits fault.splits if_splits)
  have "t = ?v\<lparr>account_snapshots := account_snapshots v @ [?n]\<rparr>"
    using assms(2) Cons f1 f2 by (simp add: save_balance_def response_bind call_apply exec_def update_balances_def insert_snapshot_def declare_on_def)
  then show ?thesis using that [OF c] by simp
qed


lemma connection_of_meter: "connection_of oid p (meter d s) = map_option (\<lambda>r. r\<lparr>pr_metered_usd := d r\<rparr>) (connection_of oid p s)"
proof -
  have "first_where (at_slot oid p) (map (\<lambda>r. r\<lparr>pr_metered_usd := d r\<rparr>) rs) = map_option (\<lambda>r. r\<lparr>pr_metered_usd := d r\<rparr>) (first_where (at_slot oid p) rs)" for rs
    by (induction rs) (simp_all add: first_where_Nil_Cons at_slot_def)
  then show ?thesis by (simp add: connection_of_def meter_def)
qed

lemma entry_of_member:
  assumes "member_of e oid s" and "connection_of oid p s = Some r"
  shows "entry e oid s p = summary_of p r (case snapshots_desc e oid p s of [] \<Rightarrow> None | n # _ \<Rightarrow> Some n)"
  using assms by (simp add: entry_def readable_connection_def)

lemma newest_snapshot_first:
  assumes "member_of e oid s" and "account_snapshots s = ns @ [n]" and "list_all (\<lambda>x. sn_taken_at x < sn_taken_at n) ns"
    and "sn_org n = oid" and "sn_provider n = p"
  shows "\<exists>rest. snapshots_desc e oid p s = \<lparr>ss_taken_at = sn_taken_at n, ss_spend_usd = sn_spend_usd n, ss_credits_usd = sn_credits_usd n,
    ss_limit_usd = sn_limit_usd n, ss_source = sn_source n\<rparr> # rest"
proof -
  let ?here = "\<lambda>n. sn_org n = oid \<and> sn_provider n = p"
  have "sort_key (\<lambda>n. - sn_taken_at n) (filter ?here ns @ [n]) = n # sort_key (\<lambda>n. - sn_taken_at n) (filter ?here ns)"
    by (rule insort_newest) (use assms(3) in \<open>simp add: list_all_iff\<close>)
  then show ?thesis using assms(1,2,4,5) by (simp add: snapshots_desc_def)
qed

text \<open>
  C34. The gauge a declared balance is meant to be is not what the row shows. The request that declares a balance
  also records it as the newest snapshot, and a row with a snapshot shows the snapshot: after the request every
  member reads the declared figure as the credits left, whatever has been metered through the key since. The
  fallback text, which subtracts the metered spend, is the one the row would show without that snapshot.
\<close>

theorem declared_balance_hides_the_gauge:
  assumes "\<not> refused (response (provider_PATCH e ident p b) s)" and "parse_balance b = Inr (Some x, th)"
    and "list_all (\<lambda>n. sn_taken_at n < now_ms e) (account_snapshots s)" and "t = snd (provider_PATCH e ident p b s)"
  shows "\<exists>oid r. connection_of oid p t = Some r \<and> pr_declared_usd r = Some x
    \<and> (\<forall>d e'. member_of e' oid t \<longrightarrow>
         spendSummary (entry e' oid (meter d t) p) = ''credits: '' @ formatCostUsd (Some x) @ '' left''
         \<and> no_reading (entry e' oid (meter d t) p) = ''self-reported: '' @ formatSignedCostUsd (Some (js_sub x (d r))) @ '' left'')"
proof -
  let ?f = "save_balance e p (Some x, th)"
  have nr: "\<not> refused (response (gated (requireProviderManager e ident p) ?f) s)" and t: "t = snd (gated (requireProviderManager e ident p) ?f s)"
    using assms(1,2,4) unfolding provider_PATCH_def response_handler snd_handler by simp_all
  obtain oid uid v where m: "managed e ident s = (Inr (Inr (oid, uid)), v)"
    and eq: "response (gated (requireProviderManager e ident p) ?f) s = response (?f (oid, uid)) v"
      "snd (gated (requireProviderManager e ident p) ?f s) = snd (?f (oid, uid) v)"
    by (rule gatedE [OF nr])
  have st: "same_tables s v" using m by (rule managed_InrE)
  obtain r where r: "connection_of oid p v = Some r"
    and conns: "provider_connections t = update_where (at_slot oid p) (declare_on (now_ms e) (Some x) th) (provider_connections v)"
    and snaps: "account_snapshots t = account_snapshots v @ [\<lparr>sn_org = oid, sn_connection = c_id r, sn_provider = p, sn_taken_at = now_ms e,
          sn_spend_usd = None, sn_credits_usd = Some x, sn_limit_usd = None, sn_source = ''self_reported''\<rparr>]"
    by (rule save_balance_post [OF nr [unfolded eq(1)] t [unfolded eq(2)]])
  let ?r = "declare_on (now_ms e) (Some x) th r"
  have c: "connection_of oid p t = Some ?r"
    using r unfolding connection_of_def conns by (subst first_where_update_slot) (simp_all add: at_slot_def declare_on_def)
  have older: "list_all (\<lambda>n. sn_taken_at n < now_ms e) (account_snapshots v)" using assms(3) same_tables_stores(4) [OF st] by simp
  have "spendSummary (entry e' oid (meter d t) p) = ''credits: '' @ formatCostUsd (Some x) @ '' left''
     \<and> no_reading (entry e' oid (meter d t) p) = ''self-reported: '' @ formatSignedCostUsd (Some (js_sub x (d ?r))) @ '' left''"
    if "member_of e' oid t" for d e'
  proof -
    have mem: "member_of e' oid (meter d t)" using that by (simp add: member_of_def meter_def split: option.splits)
    have sn: "account_snapshots (meter d t) = account_snapshots t" by (simp add: meter_def)
    obtain rest where n: "snapshots_desc e' oid p (meter d t) = \<lparr>ss_taken_at = now_ms e, ss_spend_usd = None, ss_credits_usd = Some x,
        ss_limit_usd = None, ss_source = ''self_reported''\<rparr> # rest"
      using newest_snapshot_first [OF mem sn [unfolded snaps]] older by auto
    have "connection_of oid p (meter d t) = Some (?r\<lparr>pr_metered_usd := d ?r\<rparr>)" by (simp add: connection_of_meter c)
    then show ?thesis
      by (simp add: entry_of_member [OF mem] n spendSummary_def summary_of_def snapshot_parts_def no_reading_def declare_on_def)
  qed
  then show ?thesis using c by (intro exI [of _ oid] exI [of _ ?r]) (simp add: declare_on_def)
qed

section \<open>Concrete reads\<close>

definition balance_declared :: db where
  "balance_declared = snd (provider_PATCH sample_env ''acme'' ''openai'' (JObj [(''declared_balance_usd'', JNum (js_int 40))]) connected)"

theorem list_is_witness:
  "\<exists>cs. listProviderConnections sample_env ''o1'' connected = (Inr cs, connected) \<and> map cs_provider cs = MODEL_PROVIDERS \<and> cs_last4 (cs ! 0) = Some ''abcd''"
proof -
  have wf: "vault_wf connected" by code_simp
  have "isl (fst (listProviderConnections sample_env ''o1'' connected)) = False" by code_simp
  then obtain cs where cs: "fst (listProviderConnections sample_env ''o1'' connected) = Inr cs" by (auto simp: isl_def) (metis sum.exhaust)
  have "snd (listProviderConnections sample_env ''o1'' connected) = connected \<and> cs = map (entry sample_env ''o1'' connected) MODEL_PROVIDERS"
    by (rule list_is_the_organizations [OF wf]) (simp flip: cs)
  moreover have "map cs_provider (map (entry sample_env ''o1'' connected) MODEL_PROVIDERS) = MODEL_PROVIDERS"
    "cs_last4 (map (entry sample_env ''o1'' connected) MODEL_PROVIDERS ! 0) = Some ''abcd''" by code_simp+
  ultimately show ?thesis using cs by (intro exI [of _ cs]) (simp add: prod_eq_iff)
qed


theorem declared_balance_witness:
  "spendSummary (entry sample_env ''o1'' (meter (\<lambda>_. js_int 40) balance_declared) ''openai'') = ''credits: $40.00 left''"
proof -
  let ?b = "JObj [(''declared_balance_usd'', JNum (js_int 40))]"
  have 1: "\<not> refused (response (provider_PATCH sample_env ''acme'' ''openai'' ?b) connected)" "parse_balance ?b = Inr (Some (js_int 40), None)"
    "list_all (\<lambda>n. sn_taken_at n < now_ms sample_env) (account_snapshots connected)" by code_simp+
  obtain oid r where r: "connection_of oid ''openai'' balance_declared = Some r"
    and shown: "\<And>d e'. member_of e' oid balance_declared \<Longrightarrow>
      spendSummary (entry e' oid (meter d balance_declared) ''openai'') = ''credits: '' @ formatCostUsd (Some (js_int 40)) @ '' left''"
    using declared_balance_hides_the_gauge [OF 1 balance_declared_def] by blast
  have "list_all (\<lambda>r. c_org r = ''o1'') (provider_connections balance_declared)" by code_simp
  then have "oid = ''o1''" using r by (auto simp: connection_of_def at_slot_def list_all_iff dest!: first_where_SomeD)
  moreover have "member_of sample_env ''o1'' balance_declared" by code_simp
  moreover have "formatCostUsd (Some (js_int 40)) = ''$40.00''" by code_simp
  ultimately show ?thesis using shown [of sample_env "\<lambda>_. js_int 40"] by simp
qed

text \<open>An admin key that could not be stored is reported by the route and shown by nobody: the form closes as saved.\<close>

definition spend_write_fails :: env where
  "spend_write_fails = sample_env\<lparr>faults := (\<lambda>n. if n = ''set_provider_connection_spend_credential'' then Some (Refused \<lparr>code = None, message = ''vault write failed''\<rparr>) else None)\<rparr>"

lemma lost_admin_key_is_silent:
  "let r = response (provider_PUT no_url spend_write_fails ids verified ''acme'' ''openai'' (openai_body ''sk-proj-0123-abcd'')) sample_db in
   jfield ''spendError'' (body r) = Some (JStr ''vault write failed'') \<and> form_error r = None"
  by code_simp

text \<open>
  The list reads with the caller's own rights while the other routes write with the service's: a platform
  operator who is no member may change a connection and is told there is none.
\<close>

definition operated :: db where
  "operated = connected\<lparr>members := [\<lparr>m_org = ''o1'', m_user = ''u2'', m_role = ''admin'', m_created_at = 2\<rparr>], platform_admins := [''u1'']\<rparr>"

lemma operators_see_nothing_connected:
  "status (response (provider_PATCH sample_env ''acme'' ''openai'' (JObj [(''declared_balance_usd'', JNull)])) operated) = 200
   \<and> status (response (connections_GET sample_env ''acme'' None) operated) = 200
   \<and> map_sum id (map cs_connected) (fst (listProviderConnections sample_env ''o1'' operated)) = Inr (replicate 8 False)"
  by code_simp

section \<open>The form asks for what the server needs\<close>

lemma payload_fields:
  "jget ''secret'' (form_payload schema v) = Some (if fs_secret schema = Pair
     then JObj [(''token_id'', JStr (trim (fv_token_id v))), (''token_secret'', JStr (trim (fv_token_secret v)))] else JStr (trim (fv_secret v)))"
  "jget ''config'' (form_payload schema v) = Some (JObj (form_config schema v))"
  by (simp_all add: form_payload_def)

lemma azure_needs:
  assumes "parseAzureConfig u (Some (JObj kvs)) = Inr c"
  shows "trimmed_field ''endpoint'' (Some (JObj kvs)) \<noteq> ''''" and "map_of kvs ''deployments'' \<noteq> Some (JObj [])"
  using assms by (auto simp: parseAzureConfig_def jfield_def Let_def split: if_splits option.splits sum.splits json.splits)

text \<open>
  C35. The form never holds back a request the server would take: if the body it would send parses, its save button
  is enabled, for every provider.
\<close>

theorem form_gate_is_no_stricter_than_the_server:
  assumes "map_of PROVIDER_FIELD_SCHEMAS p = Some schema" and "parse_connect u p (form_payload schema v) = Inr req"
  shows "isProviderFormReady schema v"
proof -
  have secret: "parse_secret p (form_payload schema v) = Inr (cr_secret req)" and cfg: "parse_config u p (form_payload schema v) = Inr (cr_config req)"
    using assms(2) by (auto simp: parse_connect_def split: sum.splits)
  consider "List.member [''openai'', ''anthropic'', ''gemini'', ''openrouter''] p" | "p = ''azure_openai''" | "p = ''bedrock''" | "p = ''fireworks''" | "p = ''modal''"
    using assms(1) by (auto simp: PROVIDER_FIELD_SCHEMAS_def split: if_splits)
  then show ?thesis
  proof cases
    case 1
    then show ?thesis using assms(1) secret
      by (auto simp: PROVIDER_FIELD_SCHEMAS_def parse_secret_def payload_fields isProviderFormReady_def Let_def)
  next
    case 2
    then have s: "schema = \<lparr>fs_secret = Single, fs_config = [required_field ''endpoint'', \<lparr>fl_name = ''api_version'', fl_required = False\<rparr>],
        fs_deployments = True, fs_spend_key = False\<rparr>" using assms(1) by (simp add: PROVIDER_FIELD_SCHEMAS_def)
    from cfg 2 obtain c where c: "parseAzureConfig u (Some (JObj (form_config schema v))) = Inr c"
      by (cases "parseAzureConfig u (Some (JObj (form_config schema v)))") (simp_all add: parse_config_def payload_fields Let_def)
    have "map_of (form_config schema v) ''endpoint'' = Some (JStr (filled v ''endpoint''))"
      "map_of (form_config schema v) ''deployments'' = Some (JObj (fold (\<lambda>(m, d). map_set (trim m) (JStr (trim d))) (complete_rows v) []))"
      by (cases "filled v ''api_version'' = ''''"; simp add: s form_config_def)+
    then have "filled v ''endpoint'' \<noteq> ''''" and "complete_rows v \<noteq> []"
      using azure_needs [OF c] by (auto simp: trimmed_field_def jfield_def)
    moreover have "trim (fv_secret v) \<noteq> ''''"
      using secret 2 by (auto simp: s parse_secret_def payload_fields Let_def)
    ultimately show ?thesis by (simp add: s isProviderFormReady_def)
  next
    case 3
    then show ?thesis using assms(1) secret cfg
      by (auto simp: PROVIDER_FIELD_SCHEMAS_def parse_secret_def parse_config_def parseBedrockConfig_def form_config_def
        trimmed_field_def jfield_def aws_region_def payload_fields isProviderFormReady_def Let_def split: if_splits)
  next
    case 4
    then show ?thesis using assms(1) secret cfg
      by (auto simp: PROVIDER_FIELD_SCHEMAS_def parse_secret_def parse_config_def parseFireworksConfig_def form_config_def
        trimmed_field_def jfield_def payload_fields isProviderFormReady_def Let_def split: if_splits)
  next
    case 5
    then show ?thesis using assms(1) secret
      by (auto simp: PROVIDER_FIELD_SCHEMAS_def parse_secret_def parseModalSecret_def
        trimmed_field_def jfield_def payload_fields isProviderFormReady_def Let_def split: if_splits)
  qed
qed

theorem form_gate_witness:
  "isProviderFormReady \<lparr>fs_secret = Single, fs_config = [required_field ''account_id''], fs_deployments = False, fs_spend_key = False\<rparr>
     \<lparr>fv_secret = ''fw_key '', fv_token_id = '''', fv_token_secret = '''', fv_spend_secret = '''', fv_config = [''account_id'' \<mapsto> ''acme''], fv_rows = []\<rparr>"
proof -
  let ?s = "\<lparr>fs_secret = Single, fs_config = [required_field ''account_id''], fs_deployments = False, fs_spend_key = False\<rparr>"
  let ?v = "\<lparr>fv_secret = ''fw_key '', fv_token_id = '''', fv_token_secret = '''', fv_spend_secret = '''', fv_config = [''account_id'' \<mapsto> ''acme''], fv_rows = []\<rparr>"
  have "map_of PROVIDER_FIELD_SCHEMAS ''fireworks'' = Some ?s" by (simp add: PROVIDER_FIELD_SCHEMAS_def)
  moreover have "parse_connect no_url ''fireworks'' (form_payload ?s ?v)
     = Inr \<lparr>cr_secret = ''fw_key'', cr_spend = None, cr_config = JObj [(''account_id'', JStr ''acme'')]\<rparr>" by code_simp
  ultimately show ?thesis by (rule form_gate_is_no_stricter_than_the_server)
qed

end
