(* ===== verification/Spend_Alerts.thy ===== *)
theory Spend_Alerts
  imports Billing Calendar
begin

text \<open>
  Spend alerts: the SQL functions that claim, lease and settle them
  (\<open>20260822140000_gateway_spend_alerts.sql\<close>), the delivery tick \<open>app/api/internal/spend-alerts/route.ts\<close>, the mail of
  \<open>lib/billing/spend-alert-email.ts\<close> and the bearer check of \<open>lib/auth/cron.ts\<close>. What a rule measures is an argument
  (the sum over the usage ledger is another function of the schema), as are the hash, the answers of the mail
  service and the clocks. Amounts are micro-dollars; a fraction of a budget is in thousandths.
\<close>

section \<open>Rules and claims\<close>

record alert_rule =
  ar_id :: string
  ar_org :: string
  ar_kind :: string
  ar_threshold :: "int option"
  ar_budget :: "string option"
  ar_fraction :: "int option"
  ar_email :: string

record budget_row =
  bg_id :: string
  bg_scope :: string
  bg_period :: string
  bg_limit :: int

record alert_event =
  ev_alert :: string
  ev_period :: string
  ev_fired_at :: int
  ev_measured :: int
  ev_threshold :: int
  ev_delivered_at :: "int option"
  ev_error :: "string option"
  ev_lease :: "int option"

record alerts_db =
  al_rules :: "alert_rule list"
  al_budgets :: "budget_row list"
  al_orgs :: "(string \<times> string) list"
  al_events :: "alert_event list"
  al_sent :: "(string \<times> string) list"

type_synonym claim = "string \<times> string"

abbreviation claim_of :: "alert_event \<Rightarrow> claim" where "claim_of e \<equiv> (ev_alert e, ev_period e)"

text \<open>A row of \<open>gateway_spend_alerts_due()\<close>.\<close>

record due_row =
  du_alert :: string
  du_period :: string
  du_kind :: string
  du_org :: string
  du_org_name :: string
  du_email :: string
  du_budget :: "string option"
  du_scope :: "string option"
  du_measured :: int
  du_threshold :: int
  du_limit :: "int option"
  du_fired_at :: int

abbreviation due_claim :: "due_row \<Rightarrow> claim" where "due_claim r \<equiv> (du_alert r, du_period r)"

definition budget_of :: "alerts_db \<Rightarrow> alert_rule \<Rightarrow> budget_row option" where
  "budget_of s r = (case ar_budget r of None \<Rightarrow> None | Some b \<Rightarrow> first_where (\<lambda>g. bg_id g = b) (al_budgets s))"

text \<open>The measure and the threshold of a rule in a period, when it has both.\<close>

definition measured :: "(alert_rule \<Rightarrow> budget_row option \<Rightarrow> int) \<Rightarrow> alerts_db \<Rightarrow> string \<Rightarrow> alert_rule \<Rightarrow> (int \<times> int) option" where
  "measured spent s period r =
     (if ar_kind r = ''org_monthly_spend'' then map_option (\<lambda>t. (spent r None, t)) (ar_threshold r)
      else (case budget_of s r of
              None \<Rightarrow> None
            | Some g \<Rightarrow>
                if bg_period g = period \<or> bg_period g = ''*''
                then map_option (\<lambda>k. (spent r (Some g), - ((- (bg_limit g * k)) div 1000))) (ar_fraction r)
                else None))"

definition new_event :: "string \<Rightarrow> string \<Rightarrow> int \<Rightarrow> int \<times> int \<Rightarrow> alert_event" where
  "new_event a period now mt = \<lparr>ev_alert = a, ev_period = period, ev_fired_at = now, ev_measured = fst mt, ev_threshold = snd mt,
     ev_delivered_at = None, ev_error = None, ev_lease = None\<rparr>"

definition insert_event :: "alert_event \<Rightarrow> alert_event list \<Rightarrow> alert_event list" where
  "insert_event e es = (if list_ex (\<lambda>x. claim_of x = claim_of e) es then es else es @ [e])"

definition fire_rule :: "(alert_rule \<Rightarrow> budget_row option \<Rightarrow> int) \<Rightarrow> alerts_db \<Rightarrow> string \<Rightarrow> int \<Rightarrow> alert_rule \<Rightarrow> alert_event list \<Rightarrow> alert_event list" where
  "fire_rule spent s period now r es =
     (case measured spent s period r of
        None \<Rightarrow> es
      | Some (m, t) \<Rightarrow> if t \<le> m then insert_event (new_event (ar_id r) period now (m, t)) es else es)"

definition fired :: "(alert_rule \<Rightarrow> budget_row option \<Rightarrow> int) \<Rightarrow> string \<Rightarrow> int \<Rightarrow> alerts_db \<Rightarrow> alert_event list" where
  "fired spent period now s =
     fold (fire_rule spent s period now)
       (filter (\<lambda>r. \<not> list_ex (\<lambda>e. claim_of e = (ar_id r, period)) (al_events s)) (al_rules s)) (al_events s)"

section \<open>Leases\<close>

definition LEASE :: int where "LEASE = 10 * 60 * 1000"

definition BATCH :: nat where "BATCH = 100"

definition leasable :: "int \<Rightarrow> alert_event \<Rightarrow> bool" where
  "leasable now e \<longleftrightarrow> ev_delivered_at e = None \<and> (case ev_lease e of None \<Rightarrow> True | Some t \<Rightarrow> t < now)"

definition older :: "alert_event \<Rightarrow> alert_event \<Rightarrow> bool" where
  "older a b \<longleftrightarrow> ev_fired_at a < ev_fired_at b \<or> (ev_fired_at a = ev_fired_at b \<and> code_le (ev_alert a) (ev_alert b))"

definition candidates :: "int \<Rightarrow> alert_event list \<Rightarrow> alert_event list" where
  "candidates now es = take BATCH (sort_by older (filter (leasable now) es))"

definition due_row_of :: "alerts_db \<Rightarrow> alert_event \<Rightarrow> due_row option" where
  "due_row_of s e =
     (case first_where (\<lambda>r. ar_id r = ev_alert e) (al_rules s) of
        None \<Rightarrow> None
      | Some r \<Rightarrow>
          (case map_of (al_orgs s) (ar_org r) of
             None \<Rightarrow> None
           | Some name \<Rightarrow>
               Some \<lparr>du_alert = ev_alert e, du_period = ev_period e, du_kind = ar_kind r, du_org = ar_org r, du_org_name = name,
                 du_email = ar_email r, du_budget = ar_budget r, du_scope = map_option bg_scope (budget_of s r),
                 du_measured = ev_measured e, du_threshold = ev_threshold e, du_limit = map_option bg_limit (budget_of s r),
                 du_fired_at = ev_fired_at e\<rparr>))"

text \<open>The clock of the database: the instant and the month it is in.\<close>

definition gateway_spend_alerts_due :: "(alert_rule \<Rightarrow> budget_row option \<Rightarrow> int) \<Rightarrow> string \<Rightarrow> int \<Rightarrow> alerts_db \<Rightarrow> dberror + (due_row list \<times> alerts_db)" where
  "gateway_spend_alerts_due spent period now s =
     (let es = fired spent period now s; cs = candidates now es in
      Inr (List.map_filter (due_row_of s) cs,
           s\<lparr>al_events := update_where (\<lambda>e. claim_of e \<in> set (map claim_of cs)) (\<lambda>e. e\<lparr>ev_lease := Some (now + LEASE)\<rparr>) es\<rparr>))"

definition settle :: "string option \<Rightarrow> int \<Rightarrow> alert_event \<Rightarrow> alert_event" where
  "settle err now e = e\<lparr>ev_delivered_at := (case err of None \<Rightarrow> Some now | Some _ \<Rightarrow> None), ev_error := err,
     ev_lease := (case err of None \<Rightarrow> ev_lease e | Some _ \<Rightarrow> None)\<rparr>"

definition gateway_spend_alert_mark :: "claim \<Rightarrow> string option \<Rightarrow> int \<Rightarrow> alerts_db \<Rightarrow> dberror + (unit \<times> alerts_db)" where
  "gateway_spend_alert_mark c err now s =
     Inr ((), s\<lparr>al_events := update_where (\<lambda>e. claim_of e = c) (settle err now) (al_events s)\<rparr>)"

section \<open>The mail\<close>

definition straightLineMonthProjection :: "jsnum \<Rightarrow> int \<times> int \<times> int \<Rightarrow> jsnum" where
  "straightLineMonthProjection x today =
     (case today of (y, m, d) \<Rightarrow> js_round (js_mult (js_div x (js_int d)) (js_int (days_in_month y m))))"

definition formatUsd :: "jsnum \<Rightarrow> string" where
  "formatUsd x = ''$'' @ toLocaleFixed 2 (js_div x (js_int 1000000))"

definition replace_char :: "char \<Rightarrow> string \<Rightarrow> string \<Rightarrow> string" where
  "replace_char c t s = concat (map (\<lambda>x. if x = c then t else [x]) s)"

definition escapeHtml :: "string \<Rightarrow> string" where
  "escapeHtml s = replace_char (CHR 0x22) ''&quot;'' (replace_char (CHR ''>'') ''&gt;'' (replace_char (CHR ''<'') ''&lt;'' (replace_char (CHR ''&'') ''&amp;'' s)))"

record spend_mail =
  sm_to :: string
  sm_org :: string
  sm_kind :: string
  sm_period :: string
  sm_measured :: jsnum
  sm_threshold :: jsnum
  sm_limit :: "jsnum option"
  sm_scope :: "string option"
  sm_projected :: jsnum
  sm_url :: string

definition crossingLine :: "spend_mail \<Rightarrow> string \<times> string" where
  "crossingLine i =
     (if sm_kind i = ''org_monthly_spend''
      then (''monthly spend crossed '' @ formatUsd (sm_threshold i),
            ''Monthly spend reached '' @ formatUsd (sm_measured i) @ '', crossing the '' @ formatUsd (sm_threshold i) @ '' threshold you set.'')
      else (let limit = (case sm_limit i of None \<Rightarrow> js_int 0 | Some l \<Rightarrow> l);
                percent = js_String (if js_lt (js_int 0) limit then js_round (js_mult (js_div (sm_measured i) limit) (js_int 100)) else js_int 100);
                scope = (case sm_scope i of None \<Rightarrow> ''budget'' | Some k \<Rightarrow> k @ '' budget'')
            in (''a budget is '' @ percent @ ''% consumed'',
                ''A '' @ scope @ '' is '' @ percent @ ''% consumed: '' @ formatUsd (sm_measured i) @ '' of its '' @ formatUsd limit @ '' limit.'')))"

definition spendAlertEmailHtml :: "string \<Rightarrow> string \<Rightarrow> string \<Rightarrow> string \<Rightarrow> string \<Rightarrow> string" where
  "spendAlertEmailHtml orgName crossing period projection creditsUrl =
     (let q = [CHR 0x22]; sq = [CHR 0x27];
          para = ''<p style='' @ q @ ''font-size: 14px; line-height: 1.6;'' @ q @ ''>'' in
      join_with [CHR 0x0A]
       [''<div style='' @ q @ ''font-family: -apple-system, '' @ sq @ ''Segoe UI'' @ sq
          @ '', Helvetica, Arial, sans-serif; max-width: 480px; margin: 0 auto; color: #171717;'' @ q @ ''>'',
        ''<h2 style='' @ q @ ''font-size: 18px; font-weight: 600;'' @ q @ ''>Spend alert for '' @ orgName @ ''</h2>'',
        para @ crossing @ ''</p>'',
        para @ ''Month: <strong>'' @ period @ ''</strong> (UTC). At the current pace, a straight-line projection puts this figure near <strong>''
          @ projection @ ''</strong> by month end.</p>'',
        ''<p style='' @ q @ ''margin: 24px 0;'' @ q @ ''><a href='' @ q @ creditsUrl @ q @ '' style='' @ q
          @ ''background: #171717; color: #ffffff; text-decoration: none; padding: 10px 20px; border-radius: 9999px; font-size: 14px; font-weight: 600;''
          @ q @ ''>View spend &amp; alerts</a></p>'',
        ''<p style='' @ q @ ''font-size: 12px; color: #737373; line-height: 1.6;'' @ q
          @ ''>This is a notification you set up on the credits page, hard budget caps keep enforcing on their own. You'' @ sq
          @ ''ll get at most one email per rule per calendar month.</p>'',
        ''</div>''])"

record mail_request =
  rq_from :: string
  rq_to :: string
  rq_subject :: string
  rq_html :: string

text \<open>
  The mail service accepts, refuses with a message, or the request fails: with a message, and with the mail
  gone out or not.
\<close>

datatype resend_answer = Accepted | Refused_mail string | Unanswered string bool

definition DEFAULT_FROM :: string where
  "DEFAULT_FROM = ''Experiential Labs <members@experientiallabs.ai>''"

definition mail_of :: "string option \<Rightarrow> spend_mail \<Rightarrow> mail_request" where
  "mail_of from_env i =
     \<lparr>rq_from = (case from_env of None \<Rightarrow> DEFAULT_FROM | Some f \<Rightarrow> f), rq_to = sm_to i,
      rq_subject = ''Spend alert for '' @ sm_org i @ '': '' @ fst (crossingLine i),
      rq_html = spendAlertEmailHtml (escapeHtml (sm_org i)) (escapeHtml (snd (crossingLine i))) (escapeHtml (sm_period i))
        (formatUsd (sm_projected i)) (escapeHtml (sm_url i))\<rparr>"

text \<open>The reason a mail was not sent, and whether a mail left.\<close>

definition sendSpendAlertEmail :: "string option \<Rightarrow> string option \<Rightarrow> (mail_request \<Rightarrow> resend_answer) \<Rightarrow> spend_mail \<Rightarrow> string option \<times> bool" where
  "sendSpendAlertEmail apiKey from_env resend i =
     (case apiKey of
        None \<Rightarrow> (Some ''RESEND_API_KEY is not configured'', False)
      | Some k \<Rightarrow>
          if k = '''' then (Some ''RESEND_API_KEY is not configured'', False)
          else (case resend (mail_of from_env i) of
                  Accepted \<Rightarrow> (None, True)
                | Refused_mail m \<Rightarrow> (Some (''Resend rejected the email: '' @ m), False)
                | Unanswered m gone \<Rightarrow> (Some (''Resend request failed: '' @ m), gone)))"

section \<open>The tick\<close>

text \<open>\<open>/^bearer\s+(.+)$/i\<close>, trimmed: the greedy blanks give one back when nothing follows them.\<close>

definition line_break :: "char \<Rightarrow> bool" where "line_break c \<longleftrightarrow> c = CHR 0x0A \<or> c = CHR 0x0D"

definition bearer_token :: "string \<Rightarrow> string option" where
  "bearer_token h =
     (let tail = drop 6 h; r = dropWhile is_ws tail in
      if toLowerCase (take 6 h) \<noteq> ''bearer'' \<or> tail = '''' \<or> \<not> is_ws (hd tail) then None
      else if r \<noteq> '''' then (if list_ex line_break r then None else Some (trim r))
      else if 2 \<le> length tail \<and> \<not> line_break (last tail) then Some '''' else None)"

definition bearerMatchesCronSecret :: "(string \<Rightarrow> 'h) \<Rightarrow> string option \<Rightarrow> string option \<Rightarrow> bool" where
  "bearerMatchesCronSecret sha256 secret header =
     (case (secret, Option.bind header bearer_token) of
        (Some k, Some presented) \<Rightarrow> k \<noteq> '''' \<and> sha256 presented = sha256 k
      | _ \<Rightarrow> False)"

record tick =
  tk_now :: int
  tk_period :: string
  tk_today :: "int \<times> int \<times> int"
  tk_due_fault :: "fault option"
  tk_mark_fault :: "claim \<Rightarrow> fault option"
  tk_api_key :: "string option"
  tk_from :: "string option"
  tk_origin :: "string option"
  tk_resend :: "claim \<Rightarrow> mail_request \<Rightarrow> resend_answer"

definition mail_input :: "tick \<Rightarrow> due_row \<Rightarrow> spend_mail" where
  "mail_input k r =
     \<lparr>sm_to = du_email r, sm_org = du_org_name r, sm_kind = du_kind r, sm_period = du_period r, sm_measured = js_int (du_measured r),
      sm_threshold = js_int (du_threshold r), sm_limit = map_option js_int (du_limit r), sm_scope = du_scope r,
      sm_projected = straightLineMonthProjection (js_int (du_measured r)) (tk_today k),
      sm_url = (case tk_origin k of None \<Rightarrow> ''https://platform.experientiallabs.ai'' | Some u \<Rightarrow> u) @ creditsPath\<rparr>"

definition mark :: "tick \<Rightarrow> claim \<Rightarrow> string option \<Rightarrow> alerts_db \<Rightarrow> alerts_db" where
  "mark k c err s = snd (exec (tk_mark_fault k c) (gateway_spend_alert_mark c err (tk_now k)) s)"

text \<open>One claim of the batch: the mail, then the receipt; a receipt that fails is only logged.\<close>

definition deliver :: "tick \<Rightarrow> due_row \<Rightarrow> alerts_db \<Rightarrow> bool \<times> alerts_db" where
  "deliver k r s =
     (case sendSpendAlertEmail (tk_api_key k) (tk_from k) (tk_resend k (due_claim r)) (mail_input k r) of
        (reason, gone) \<Rightarrow>
          (reason = None, mark k (due_claim r) reason (if gone then s\<lparr>al_sent := al_sent s @ [due_claim r]\<rparr> else s)))"

fun deliver_all :: "tick \<Rightarrow> due_row list \<Rightarrow> nat \<times> nat \<Rightarrow> alerts_db \<Rightarrow> (nat \<times> nat) \<times> alerts_db" where
  "deliver_all k [] n s = (n, s)"
| "deliver_all k (r # rs) (d, f) s =
     (case deliver k r s of (ok, t) \<Rightarrow> deliver_all k rs (if ok then (d + 1, f) else (d, f + 1)) t)"

definition due_json :: "due_row \<Rightarrow> json" where
  "due_json r = JObj [(''alert_id'', JStr (du_alert r)), (''period'', JStr (du_period r)), (''kind'', JStr (du_kind r)),
     (''org_id'', JStr (du_org r)), (''org_name'', JStr (du_org_name r)), (''notify_email'', JStr (du_email r)),
     (''budget_id'', jopt JStr (du_budget r)), (''budget_scope_kind'', jopt JStr (du_scope r)),
     (''measured_micro_usd'', JNum (js_int (du_measured r))), (''threshold_micro_usd'', JNum (js_int (du_threshold r))),
     (''limit_micro_usd'', jopt (JNum \<circ> js_int) (du_limit r)), (''fired_at'', JNum (js_int (du_fired_at r)))]"

definition count_json :: "nat \<Rightarrow> json" where "count_json n = JNum (js_int (int n))"

definition spend_alerts_POST ::
    "(string \<Rightarrow> 'h) \<Rightarrow> string option \<Rightarrow> string option \<Rightarrow> bool \<Rightarrow> (alert_rule \<Rightarrow> budget_row option \<Rightarrow> int) \<Rightarrow> tick \<Rightarrow> alerts_db \<Rightarrow> resp \<times> alerts_db" where
  "spend_alerts_POST sha256 secret authorization dryRun spent k s =
     (if \<not> bearerMatchesCronSecret sha256 secret authorization then (error_resp ''Not found'' 404, s)
      else (case exec (tk_due_fault k) (gateway_spend_alerts_due spent (tk_period k) (tk_now k)) s of
              (Inl err, t) \<Rightarrow> (error_resp ''Reading due alerts failed.'' 500, t)
            | (Inr rows, t) \<Rightarrow>
                if dryRun
                then (json_resp (JObj [(''processed'', count_json (length rows)), (''rows'', JArr (map due_json rows))]) 200,
                      fold (\<lambda>r. mark k (due_claim r) (Some ''dry run'')) rows t)
                else (case deliver_all k rows (0, 0) t of
                        ((d, f), u) \<Rightarrow>
                          (json_resp (JObj [(''processed'', count_json (length rows)), (''delivered'', count_json d), (''failed'', count_json f)]) 200, u))))"


section \<open>One mail for a claim\<close>

text \<open>
  The worlds of overlapping ticks: \<open>dl_flight\<close> are the claims some tick has in hand, \<open>dl_lost\<close> the claims whose mail
  left while the caller did not learn it or could not store it. A tick reads due claims while every claim in hand
  is still inside its lease; a claim in hand is delivered, released by a dry run or abandoned by a crash; rules,
  budgets and organizations may change at any time.
\<close>

record delivery =
  dl_db :: alerts_db
  dl_flight :: "claim list"
  dl_lost :: "claim list"

definition timely :: "delivery \<Rightarrow> int \<Rightarrow> bool" where
  "timely w now \<longleftrightarrow> list_all (\<lambda>e. claim_of e \<in> set (dl_flight w) \<longrightarrow> (case ev_lease e of None \<Rightarrow> False | Some t \<Rightarrow> now \<le> t)) (al_events (dl_db w))"

definition unnoticed :: "tick \<Rightarrow> due_row \<Rightarrow> claim list" where
  "unnoticed k r =
     (case sendSpendAlertEmail (tk_api_key k) (tk_from k) (tk_resend k (due_claim r)) (mail_input k r) of
        (reason, gone) \<Rightarrow> if gone \<and> (reason \<noteq> None \<or> tk_mark_fault k (due_claim r) \<noteq> None) then [due_claim r] else [])"

inductive delivery_step :: "delivery \<Rightarrow> delivery \<Rightarrow> bool" where
  read_due: "timely w (tk_now (k :: tick)) \<Longrightarrow> exec (tk_due_fault k) (gateway_spend_alerts_due spent (tk_period k) (tk_now k)) (dl_db w) = (r, t)
    \<Longrightarrow> delivery_step w (w\<lparr>dl_db := t, dl_flight := dl_flight w @ (case r of Inl _ \<Rightarrow> [] | Inr rows \<Rightarrow> map due_claim rows)\<rparr>)"
| send: "due_claim r \<in> set (dl_flight w)
    \<Longrightarrow> delivery_step w (w\<lparr>dl_db := snd (deliver k r (dl_db w)), dl_flight := remove1 (due_claim r) (dl_flight w), dl_lost := dl_lost w @ unnoticed k r\<rparr>)"
| release: "c \<in> set (dl_flight w)
    \<Longrightarrow> delivery_step w (w\<lparr>dl_db := mark k c (Some ''dry run'') (dl_db w), dl_flight := remove1 c (dl_flight w)\<rparr>)"
| abandon: "delivery_step w (w\<lparr>dl_flight := remove1 c (dl_flight w)\<rparr>)"
| edit: "delivery_step w (w\<lparr>dl_db := (dl_db w)\<lparr>al_rules := rs, al_budgets := bs, al_orgs := gs\<rparr>\<rparr>)"

definition delivered :: "claim \<Rightarrow> alert_event list \<Rightarrow> bool" where
  "delivered c es \<longleftrightarrow> (\<exists>e\<in>set es. claim_of e = c \<and> ev_delivered_at e \<noteq> None)"

definition owed :: "claim \<Rightarrow> alert_event list \<Rightarrow> bool" where
  "owed c es \<longleftrightarrow> (\<exists>e\<in>set es. claim_of e = c \<and> ev_delivered_at e = None)"

lemma not_both: "distinct (map claim_of es) \<Longrightarrow> owed c es \<Longrightarrow> \<not> delivered c es"
  by (fastforce simp: owed_def delivered_def distinct_map inj_on_def)

lemma owed_append: "owed c (es @ ns) \<longleftrightarrow> owed c es \<or> owed c ns"
  and delivered_append: "delivered c (es @ ns) \<longleftrightarrow> delivered c es \<or> delivered c ns"
  by (auto simp: owed_def delivered_def)

text \<open>Firing only appends claims that nobody has been told of.\<close>

definition fresh_events :: "alert_event list \<Rightarrow> alert_event list \<Rightarrow> bool" where
  "fresh_events es fs \<longleftrightarrow> distinct (map claim_of fs) \<and> (\<exists>ns. fs = es @ ns \<and> (\<forall>e\<in>set ns. ev_delivered_at e = None))"

lemma fresh_fire_rule: "fresh_events es fs \<Longrightarrow> fresh_events es (fire_rule spent s period now r fs)"
  unfolding fresh_events_def fire_rule_def insert_event_def new_event_def list_ex_iff
  by (auto split: option.splits prod.splits)

lemma fresh_fold: "fresh_events es fs \<Longrightarrow> fresh_events es (fold (fire_rule spent s period now) rs fs)"
  by (induction rs arbitrary: fs) (simp_all add: fresh_fire_rule)

lemma fresh_fired: "distinct (map claim_of (al_events s)) \<Longrightarrow> fresh_events (al_events s) (fired spent period now s)"
  unfolding fired_def by (rule fresh_fold) (simp add: fresh_events_def)

lemma fresh_delivered: "fresh_events es fs \<Longrightarrow> delivered c fs \<longleftrightarrow> delivered c es"
  by (auto simp: fresh_events_def delivered_append) (auto simp: delivered_def)

lemma fresh_owed: "fresh_events es fs \<Longrightarrow> owed c es \<Longrightarrow> owed c fs"
  by (auto simp: fresh_events_def owed_append)

text \<open>A lease changes no claim, a receipt only its own.\<close>

lemma update_where_set: "set (update_where P f es) = (\<lambda>e. if P e then f e else e) ` set es"
  by (simp add: update_where_def)

lemma ex_update_where: "(\<And>e. Q (f e) \<longleftrightarrow> Q e) \<Longrightarrow> (\<exists>e\<in>set (update_where P f es). Q e) \<longleftrightarrow> (\<exists>e\<in>set es. Q e)"
  by (induction es) (simp_all add: update_where_def)

lemma leased_events:
  fixes P n es
  defines "fs \<equiv> update_where P (\<lambda>e. e\<lparr>ev_lease := n\<rparr>) es"
  shows "map claim_of fs = map claim_of es" and "delivered c fs \<longleftrightarrow> delivered c es" and "owed c fs \<longleftrightarrow> owed c es"
proof -
  show "map claim_of fs = map claim_of es" by (simp add: fs_def update_where_def)
  show "delivered c fs \<longleftrightarrow> delivered c es" unfolding fs_def delivered_def by (rule ex_update_where) simp
  show "owed c fs \<longleftrightarrow> owed c es" unfolding fs_def owed_def by (rule ex_update_where) simp
qed

lemma claims_Cons:
  "delivered c (e # es) \<longleftrightarrow> claim_of e = c \<and> ev_delivered_at e \<noteq> None \<or> delivered c es"
  "owed c (e # es) \<longleftrightarrow> claim_of e = c \<and> ev_delivered_at e = None \<or> owed c es" "\<not> delivered c []" "\<not> owed c []"
  by (simp_all add: delivered_def owed_def)

lemma settle_fields [simp]:
  "ev_alert (settle err now e) = ev_alert e" "ev_period (settle err now e) = ev_period e"
  "ev_delivered_at (settle err now e) = (if err = None then Some now else None)"
  by (simp_all add: settle_def split: option.split)

lemma settled_events:
  fixes c err now es
  defines "fs \<equiv> update_where (\<lambda>e. claim_of e = c) (settle err now) es"
  shows "map claim_of fs = map claim_of es"
    and "delivered d fs \<longleftrightarrow> (if d = c then err = None \<and> c \<in> claim_of ` set es else delivered d es)"
    and "d \<noteq> c \<Longrightarrow> owed d fs \<longleftrightarrow> owed d es"
  unfolding fs_def
  by (induction es) (auto simp: update_where_def claims_Cons)

lemma due_row_claim: "due_row_of s e = Some r \<Longrightarrow> due_claim r = claim_of e"
  by (auto simp: due_row_of_def split: option.splits)

lemma due_rows_claims: "map due_claim (List.map_filter (due_row_of s) cs) = map claim_of (filter (\<lambda>e. due_row_of s e \<noteq> None) cs)"
  by (induction cs) (auto simp: map_filter_simps due_row_claim split: option.splits)

lemma candidates_set: "set (candidates now es) \<subseteq> {e \<in> set es. leasable now e}"
  using set_take_subset [of BATCH "sort_by older (filter (leasable now) es)"] by (auto simp: candidates_def set_sort_by)

lemma candidates_distinct: "distinct (map claim_of es) \<Longrightarrow> distinct (map claim_of (candidates now es))"
proof -
  assume "distinct (map claim_of es)"
  then have "distinct (map claim_of (filter (leasable now) es))" by (rule distinct_map_filter)
  then have "distinct (map claim_of (sort_by older (filter (leasable now) es)))"
    by (auto simp: distinct_map distinct_sort_by set_sort_by)
  then show ?thesis by (simp add: candidates_def take_map [symmetric] distinct_take)
qed

definition told :: "delivery \<Rightarrow> claim \<Rightarrow> bool" where
  "told w c \<longleftrightarrow> count_list (al_sent (dl_db w)) c \<le> count_list (dl_lost w) c + (if delivered c (al_events (dl_db w)) then 1 else 0)"

definition claims_inv :: "delivery \<Rightarrow> bool" where
  "claims_inv w \<longleftrightarrow> distinct (map claim_of (al_events (dl_db w))) \<and> distinct (dl_flight w)
     \<and> (\<forall>c\<in>set (dl_flight w). owed c (al_events (dl_db w))) \<and> (\<forall>c. told w c)"

lemma due_keeps:
  assumes inv: "claims_inv w" and now: "timely w now" and due: "gateway_spend_alerts_due spent period now (dl_db w) = Inr (rows, t)"
  shows "claims_inv (w\<lparr>dl_db := t\<rparr>)" and "claims_inv (w\<lparr>dl_db := t, dl_flight := dl_flight w @ map due_claim rows\<rparr>)"
proof -
  let ?es = "al_events (dl_db w)" and ?fs = "fired spent period now (dl_db w)"
  let ?cs = "candidates now ?fs"
  have d: "distinct (map claim_of ?es)" "distinct (dl_flight w)" "\<And>c. c \<in> set (dl_flight w) \<Longrightarrow> owed c ?es" "\<And>c. told w c"
    using inv unfolding claims_inv_def by blast+
  have fresh: "fresh_events ?es ?fs" using d(1) by (rule fresh_fired)
  then have df: "distinct (map claim_of ?fs)" by (simp add: fresh_events_def)
  have rows: "rows = List.map_filter (due_row_of (dl_db w)) ?cs" and sent: "al_sent t = al_sent (dl_db w)"
    and ev: "al_events t = update_where (\<lambda>e. claim_of e \<in> set (map claim_of ?cs)) (\<lambda>e. e\<lparr>ev_lease := Some (now + LEASE)\<rparr>) ?fs"
    using due by (auto simp: gateway_spend_alerts_due_def Let_def)
  note leased = leased_events [where P = "\<lambda>e. claim_of e \<in> set (map claim_of ?cs)" and n = "Some (now + LEASE)" and es = ?fs, folded ev]
  have told: "told (w\<lparr>dl_db := t\<rparr>) c" for c using d(4) [of c] by (simp add: told_def sent leased(2) fresh_delivered [OF fresh])
  have ow: "owed c (al_events t)" if "c \<in> set (dl_flight w)" for c
    using fresh_owed [OF fresh d(3) [OF that]] by (simp add: leased(3))
  have dt: "distinct (map claim_of (al_events t))" using df leased(1) by simp
  show "claims_inv (w\<lparr>dl_db := t\<rparr>)" using dt d(2) ow told by (simp add: claims_inv_def)
  have new: "owed c (al_events t) \<and> c \<notin> set (dl_flight w)" if c: "c \<in> set (map due_claim rows)" for c
  proof
    from c obtain e where e: "e \<in> set ?cs" "claim_of e = c" unfolding rows due_rows_claims by auto
    then have e': "e \<in> set ?fs" "leasable now e" using candidates_set by blast+
    then have "owed c ?fs" using e(2) by (auto simp: owed_def leasable_def)
    then show "owed c (al_events t)" by (simp only: leased(3))
    show "c \<notin> set (dl_flight w)"
    proof
      assume f: "c \<in> set (dl_flight w)"
      obtain x where x: "x \<in> set ?es" "claim_of x = c" using d(3) [OF f] unfolding owed_def by blast
      then have "x \<in> set ?fs" using fresh by (auto simp: fresh_events_def)
      then have "x = e" using df e' e(2) x(2) by (auto simp: distinct_map dest: inj_onD)
      then show False using now x f e'(2) by (auto simp: timely_def list_all_iff leasable_def split: option.splits)
    qed
  qed
  have "distinct (map due_claim rows)" unfolding rows due_rows_claims using candidates_distinct [OF df] by (rule distinct_map_filter)
  moreover have "told (w\<lparr>dl_db := t, dl_flight := fl\<rparr>) c" for c fl using told [of c] by (simp add: told_def)
  ultimately show "claims_inv (w\<lparr>dl_db := t, dl_flight := dl_flight w @ map due_claim rows\<rparr>)"
    using dt d(2) ow new by (auto simp: claims_inv_def)
qed

lemma mark_cases:
  obtains "tk_mark_fault k c \<noteq> None" and "mark k c err s = s"
  | "mark k c err s = s\<lparr>al_events := update_where (\<lambda>e. claim_of e = c) (settle err (tk_now k)) (al_events s)\<rparr>"
proof (cases "tk_mark_fault k c")
  case None
  then show ?thesis using that(2) by (simp add: mark_def exec_def gateway_spend_alert_mark_def)
next
  case (Some flt)
  then show ?thesis using that by (cases flt) (simp_all add: mark_def exec_def gateway_spend_alert_mark_def)
qed

text \<open>A receipt for a claim in hand, whatever became of its mail.\<close>

lemma receipt_keeps:
  assumes inv: "claims_inv w" and c: "c \<in> set (dl_flight w)"
    and mails: "ms = [] \<or> ms = [c]" and lost: "ms = [c] \<Longrightarrow> err \<noteq> None \<or> tk_mark_fault k c \<noteq> None \<Longrightarrow> ls = [c]" "ms = [] \<or> err = None \<and> tk_mark_fault k c = None \<Longrightarrow> ls = []"
    and sent: "err = None \<Longrightarrow> ms = [c]"
  shows "claims_inv (w\<lparr>dl_db := mark k c err ((dl_db w)\<lparr>al_sent := al_sent (dl_db w) @ ms\<rparr>), dl_flight := remove1 c (dl_flight w), dl_lost := dl_lost w @ ls\<rparr>)"
proof -
  let ?s = "(dl_db w)\<lparr>al_sent := al_sent (dl_db w) @ ms\<rparr>" and ?es = "al_events (dl_db w)"
  have d: "distinct (map claim_of ?es)" "distinct (dl_flight w)" "\<And>c. c \<in> set (dl_flight w) \<Longrightarrow> owed c ?es" "\<And>c. told w c"
    using inv unfolding claims_inv_def by blast+
  have nd: "\<not> delivered c ?es" and key: "c \<in> claim_of ` set ?es" using not_both [OF d(1) d(3) [OF c]] d(3) [OF c] by (auto simp: owed_def)
  have fl: "set (remove1 c (dl_flight w)) = set (dl_flight w) - {c}" using d(2) by simp
  show ?thesis
  proof (cases rule: mark_cases [of k c err ?s])
    case 1
    have "told (w\<lparr>dl_db := ?s, dl_flight := f, dl_lost := dl_lost w @ ls\<rparr>) x" for f x
      using d(4) [of x] mails lost 1(1) by (auto simp: told_def)
    then show ?thesis using d fl by (simp add: claims_inv_def 1(2))
  next
    case 2
    note st = settled_events [where c = c and err = err and now = "tk_now k" and es = ?es]
    have "told (w\<lparr>dl_db := mark k c err ?s, dl_flight := f, dl_lost := dl_lost w @ ls\<rparr>) x" for f x
      using d(4) [of x] mails lost sent nd key by (auto simp: told_def 2 st(2))
    then show ?thesis using d fl by (auto simp: claims_inv_def 2 st(1,3))
  qed
qed

lemma step_keeps: "delivery_step w v \<Longrightarrow> claims_inv w \<Longrightarrow> claims_inv v"
proof (induction rule: delivery_step.induct)
  case (read_due w k spent r t)
  obtain rows u where g: "gateway_spend_alerts_due spent (tk_period k) (tk_now k) (dl_db w) = Inr (rows, u)"
    by (simp add: gateway_spend_alerts_due_def Let_def)
  note keeps = due_keeps [OF read_due.prems read_due.hyps(1) g]
  from read_due.hyps(2) g have "r = Inr rows \<and> t = u \<or> (\<exists>e. r = Inl e) \<and> (t = u \<or> t = dl_db w)"
    by (auto simp: exec_def split: option.splits fault.splits)
  then show ?case using keeps read_due.prems by auto
next
  case (send r w k)
  obtain reason gone where m: "sendSpendAlertEmail (tk_api_key k) (tk_from k) (tk_resend k (due_claim r)) (mail_input k r) = (reason, gone)" by fastforce
  then have g: "reason = None \<Longrightarrow> gone" by (auto simp: sendSpendAlertEmail_def split: option.splits if_splits resend_answer.splits)
  have eq: "snd (deliver k r (dl_db w)) = mark k (due_claim r) reason ((dl_db w)\<lparr>al_sent := al_sent (dl_db w) @ (if gone then [due_claim r] else [])\<rparr>)"
    by (simp add: deliver_def m)
  show ?case unfolding eq
    by (rule receipt_keeps [OF send.prems send.hyps]) (use g in \<open>auto simp: unnoticed_def m\<close>)
next
  case (release c w k)
  have "claims_inv (w\<lparr>dl_db := mark k c (Some ''dry run'') ((dl_db w)\<lparr>al_sent := al_sent (dl_db w) @ []\<rparr>), dl_flight := remove1 c (dl_flight w), dl_lost := dl_lost w @ []\<rparr>)"
    by (rule receipt_keeps [OF release.prems release.hyps]) simp_all
  then show ?case by simp
next
  case (abandon w c)
  then show ?case by (auto simp: claims_inv_def told_def dest: notin_set_remove1 intro: distinct_remove1 set_remove1_subset [THEN subsetD])
next
  case (edit w rs bs gs)
  then show ?case by (simp add: claims_inv_def told_def)
qed

text \<open>
  C36. Whatever ticks overlap, crash or run dry, whatever becomes of their mails and receipts and however rules are
  edited meanwhile: as long as a tick is done with its batch within the lease, at most one mail leaves for a rule
  in a month, and one more for each mail that left without the tick learning of it or storing it.
\<close>

theorem one_mail_per_rule_and_month:
  assumes "delivery_step\<^sup>*\<^sup>* w v" and "distinct (map claim_of (al_events (dl_db w)))"
    and "dl_flight w = []" and "dl_lost w = []" and "al_sent (dl_db w) = []"
  shows "count_list (al_sent (dl_db v)) c \<le> 1 + count_list (dl_lost v) c"
proof -
  have "claims_inv w" using assms(2-5) by (simp add: claims_inv_def told_def)
  with assms(1) have "claims_inv v" by (induction rule: rtranclp_induct) (simp_all add: step_keeps)
  then have "told v c" unfolding claims_inv_def by blast
  then show ?thesis by (auto simp: told_def split: if_splits)
qed


section \<open>A dry run\<close>

lemma mark_sent [simp]: "al_sent (mark k c err s) = al_sent s"
  by (cases rule: mark_cases [of k c err s]) simp_all

lemma dry_marks_free:
  assumes "\<forall>r\<in>set rows. tk_mark_fault k (due_claim r) = None"
    and "e \<in> set (al_events (fold (\<lambda>r. mark k (due_claim r) (Some why)) rows t))"
    and "claim_of e \<in> due_claim ` set rows \<or> (\<forall>x\<in>set (al_events t). claim_of x = claim_of e \<longrightarrow> ev_delivered_at x = None \<and> ev_lease x = None)"
  shows "ev_delivered_at e = None \<and> ev_lease e = None"
  using assms
proof (induction rows arbitrary: t)
  case (Cons r rows)
  have m: "mark k (due_claim r) (Some why) t = t\<lparr>al_events := update_where (\<lambda>e. claim_of e = due_claim r) (settle (Some why) (tk_now k)) (al_events t)\<rparr>"
    using Cons.prems(1) by (simp add: mark_def exec_def gateway_spend_alert_mark_def)
  let ?t = "mark k (due_claim r) (Some why) t"
  have "claim_of e \<in> due_claim ` set rows \<or> (\<forall>x\<in>set (al_events ?t). claim_of x = claim_of e \<longrightarrow> ev_delivered_at x = None \<and> ev_lease x = None)"
    using Cons.prems(3) by (auto simp: m update_where_set settle_def)
  then show ?case using Cons.IH [of ?t] Cons.prems(1,2) by simp
qed simp

lemma dry_marks_sent: "al_sent (fold (\<lambda>r. mark k (due_claim r) err) rows t) = al_sent t"
  by (induction rows arbitrary: t) simp_all

text \<open>
  A dry run sends no mail, and if its releases are stored, every claim it answered with is free again for the very
  next tick.
\<close>

theorem dry_run_leaves_claims_free:
  assumes "spend_alerts_POST sha256 secret authorization True spent k s = (rsp, u)"
    and "exec (tk_due_fault k) (gateway_spend_alerts_due spent (tk_period k) (tk_now k)) s = (Inr rows, t)"
    and "bearerMatchesCronSecret sha256 secret authorization" and "\<forall>r\<in>set rows. tk_mark_fault k (due_claim r) = None"
  shows "al_sent u = al_sent s \<and> (\<forall>e\<in>set (al_events u). claim_of e \<in> due_claim ` set rows \<longrightarrow> leasable now e)"
proof -
  have u: "u = fold (\<lambda>r. mark k (due_claim r) (Some ''dry run'')) rows t" using assms(1-3) by (auto simp: spend_alerts_POST_def)
  have "al_sent t = al_sent s"
    using assms(2) by (auto simp: exec_def gateway_spend_alerts_due_def Let_def split: option.splits fault.splits)
  then show ?thesis using dry_marks_free [OF assms(4)] by (auto simp: u dry_marks_sent leasable_def)
qed

section \<open>The markup of a mail\<close>

definition markup :: "string \<Rightarrow> string" where
  "markup s = filter (\<lambda>c. c = CHR ''<'' \<or> c = CHR ''>'' \<or> c = CHR 0x22) s"

lemma markup_simps [simp]:
  "markup (s @ t) = markup s @ markup t" "markup '''' = ''''"
  "markup (c # s) = (if c = CHR ''<'' \<or> c = CHR ''>'' \<or> c = CHR 0x22 then c # markup s else markup s)"
  by (simp_all add: markup_def)

lemma markup_Nil_iff: "markup s = '''' \<longleftrightarrow> (\<forall>c\<in>set s. c \<noteq> CHR ''<'' \<and> c \<noteq> CHR ''>'' \<and> c \<noteq> CHR 0x22)"
  by (auto simp: markup_def filter_empty_conv)

lemma set_replace_char: "c \<notin> set t \<Longrightarrow> set (replace_char c t s) \<subseteq> (set s - {c}) \<union> set t"
  by (auto simp: replace_char_def split: if_splits)

lemma markup_escapeHtml [simp]: "markup (escapeHtml s) = ''''"
proof -
  let ?a = "replace_char (CHR ''&'') ''&amp;'' s"
  let ?b = "replace_char (CHR ''<'') ''&lt;'' ?a"
  let ?c = "replace_char (CHR ''>'') ''&gt;'' ?b"
  have b: "set ?b \<subseteq> (set ?a - {CHR ''<''}) \<union> set ''&lt;''" by (rule set_replace_char) simp
  have c: "set ?c \<subseteq> (set ?b - {CHR ''>''}) \<union> set ''&gt;''" by (rule set_replace_char) simp
  have d: "set (escapeHtml s) \<subseteq> (set ?c - {CHR 0x22}) \<union> set ''&quot;''" unfolding escapeHtml_def by (rule set_replace_char) simp
  have "CHR ''<'' \<notin> set (escapeHtml s) \<and> CHR ''>'' \<notin> set (escapeHtml s) \<and> CHR 0x22 \<notin> set (escapeHtml s)"
    using b c d by auto
  then show ?thesis by (auto simp: markup_Nil_iff)
qed

lemma digit_no_markup [simp]:
  assumes "d < 10"
  shows "digit_char d \<noteq> CHR ''<''" "digit_char d \<noteq> CHR ''>''" "digit_char d \<noteq> CHR 0x22"
proof -
  have n: "nat d < 10" using assms by simp
  then have "(of_char (digit_char d) :: nat) = 48 + nat d" by (simp add: digit_char_def)
  then have "(of_char (digit_char d) :: nat) \<noteq> 60" "(of_char (digit_char d) :: nat) \<noteq> 62" "(of_char (digit_char d) :: nat) \<noteq> 34" using n by simp_all
  then show "digit_char d \<noteq> CHR ''<''" "digit_char d \<noteq> CHR ''>''" "digit_char d \<noteq> CHR 0x22" by force+
qed

lemma markup_dec_string: "markup (dec_string n) = ''''"
proof (induction n rule: dec_string.induct)
  case (1 n)
  then show ?case by (simp add: dec_string.simps [of n])
qed

lemma markup_pad_digits: "markup (pad_digits k n) = ''''"
  by (induction k arbitrary: n) simp_all

lemma markup_group3: "markup (group3 n) = ''''"
proof (induction n rule: group3.induct)
  case (1 n)
  then show ?case by (simp add: group3.simps [of n] markup_dec_string markup_pad_digits)
qed

lemma markup_formatUsd [simp]: "markup (formatUsd x) = ''''"
proof -
  have "markup (toLocaleFixed 2 y) = ''''" for y
  proof (cases y)
    case (Fin s m)
    show ?thesis by (simp add: Fin fixed_digits_def Let_def markup_group3 markup_pad_digits)
  qed simp_all
  then show ?thesis by (simp add: formatUsd_def)
qed

text \<open>
  C38. The markup of an alert mail is the template's: no name, period, scope or address a customer chose adds, removes or
  moves an angle bracket or a quote of the HTML that is sent.
\<close>

theorem mail_markup_is_the_templates:
  "markup (rq_html (mail_of from_env i)) = markup (rq_html (mail_of other_env j))"
  by (simp only: mail_of_def mail_request.simps spendAlertEmailHtml_def Let_def join_with.simps markup_simps(1) markup_escapeHtml markup_formatUsd)


section \<open>What is owed is read\<close>

interpretation queue: ranking UNIV older
proof unfold_locales
  show "older x y \<or> older y x" for x y using code_le_total [of "ev_alert x" "ev_alert y"] by (auto simp: older_def)
  show "older x y \<Longrightarrow> older y z \<Longrightarrow> older x z" for x y z using code_le_trans by (auto simp: older_def)
qed

lemma fired_later:
  assumes "x \<in> set (fired spent period now s)" and "ev_fired_at x \<noteq> now"
  shows "x \<in> set (al_events s)"
proof -
  have "x \<in> set es" if "x \<in> set (fold (fire_rule spent s period now) rs es)" for rs es
    using that
  proof (induction rs arbitrary: es)
    case (Cons r rs)
    then have "x \<in> set (fire_rule spent s period now r es)" by simp
    then show ?case using assms(2) by (auto simp: fire_rule_def insert_event_def new_event_def split: option.splits prod.splits if_splits)
  qed simp
  then show ?thesis using assms(1) unfolding fired_def .
qed

text \<open>An element that a bounded batch of a sorted list leaves out has a full batch in front of it.\<close>

lemma left_out_of_batch:
  assumes "distinct xs" and "e \<in> set xs" and "e \<notin> set (take n (sort_by older xs))"
  shows "n \<le> card {x \<in> set xs. older x e \<and> x \<noteq> e}"
proof -
  let ?L = "sort_by older xs"
  have e: "e \<in> set (drop n ?L)" using assms(2,3) by (metis Un_iff append_take_drop_id set_append set_sort_by)
  then have "n < length ?L" using not_less by fastforce
  have "sorted_wrt older (take n ?L @ drop n ?L)" using queue.sort_sorted [of xs] by simp
  then have "\<forall>x\<in>set (take n ?L). older x e" using e unfolding sorted_wrt_append by blast
  moreover have "set (take n ?L) \<subseteq> set xs" by (metis set_sort_by set_take_subset)
  ultimately have sub: "set (take n ?L) \<subseteq> {x \<in> set xs. older x e \<and> x \<noteq> e}" using assms(3) by blast
  have "distinct (take n ?L)" using assms(1) by (simp add: distinct_sort_by)
  then have "card (set (take n ?L)) = n" using \<open>n < length ?L\<close> by (simp add: distinct_card)
  then show ?thesis using card_mono [OF _ sub] by simp
qed

lemma due_rows:
  assumes "gateway_spend_alerts_due spent period now s = Inr (rows, t)"
  shows "rows = List.map_filter (due_row_of s) (candidates now (fired spent period now s))"
    and "al_events t = update_where (\<lambda>e. claim_of e \<in> set (map claim_of (candidates now (fired spent period now s))))
           (\<lambda>e. e\<lparr>ev_lease := Some (now + LEASE)\<rparr>) (fired spent period now s)"
  using assms by (auto simp: gateway_spend_alerts_due_def Let_def)

lemma read_rows_are_leased:
  assumes "gateway_spend_alerts_due spent period now s = Inr (rows, t)" and "r \<in> set rows"
  shows "\<exists>x\<in>set (al_events t). claim_of x = due_claim r \<and> ev_delivered_at x = None \<and> ev_lease x = Some (now + LEASE)"
proof -
  let ?fs = "fired spent period now s"
  have "due_claim r \<in> set (map claim_of (filter (\<lambda>e. due_row_of s e \<noteq> None) (candidates now ?fs)))"
    unfolding due_rows_claims [symmetric] using assms(2) by (simp add: due_rows(1) [OF assms(1)])
  then obtain x where x: "x \<in> set (candidates now ?fs)" "claim_of x = due_claim r" by auto
  then have "x \<in> set ?fs" "leasable now x" using candidates_set by blast+
  then have "x\<lparr>ev_lease := Some (now + LEASE)\<rparr> \<in> set (al_events t)"
    unfolding due_rows(2) [OF assms(1)] update_where_set using x(1) by force
  then show ?thesis using x(2) \<open>leasable now x\<close> by (auto simp: leasable_def intro!: bexI [of _ "x\<lparr>ev_lease := Some (now + LEASE)\<rparr>"])
qed

text \<open>
  C37. A claim that fired before now, is undelivered and holds no lease or one that has run out is in the next batch,
  unless a hundred such claims fired before it (those of the same instant in the order of their alerts), provided its rule
  and the rule's organization still exist. A batch has at most a hundred rows, and each is leased for ten
  minutes: refusals and crashes delay a mail and lose none.
\<close>

theorem owed_claims_are_read:
  assumes "gateway_spend_alerts_due spent period now s = Inr (rows, t)" and "distinct (map claim_of (al_events s))"
    and "e \<in> set (al_events s)" and "ev_fired_at e < now"
    and "ev_delivered_at e = None" and "ev_lease e = None \<or> (\<exists>l. ev_lease e = Some l \<and> l < now)"
    and "first_where (\<lambda>r. ar_id r = ev_alert e) (al_rules s) = Some rule" and "ar_org rule \<in> fst ` set (al_orgs s)"
    and "card {x \<in> set (al_events s). ev_delivered_at x = None \<and> (ev_lease x = None \<or> (\<exists>l. ev_lease x = Some l \<and> l < now)) \<and> x \<noteq> e
           \<and> (ev_fired_at x < ev_fired_at e \<or> ev_fired_at x = ev_fired_at e \<and> code_le (ev_alert x) (ev_alert e))} < 100"
  shows "claim_of e \<in> due_claim ` set rows \<and> length rows \<le> 100
    \<and> (\<forall>r\<in>set rows. \<exists>x\<in>set (al_events t). claim_of x = due_claim r \<and> ev_delivered_at x = None \<and> ev_lease x = Some (now + 10 * 60 * 1000))"
proof -
  let ?fs = "fired spent period now s" and ?xs = "filter (leasable now) (fired spent period now s)"
  have fresh: "fresh_events (al_events s) ?fs" using assms(2) by (rule fresh_fired)
  then have e: "e \<in> set ?fs" "distinct ?xs" using assms(3) unfolding fresh_events_def by (auto simp: distinct_map)
  have free: "leasable now x \<longleftrightarrow> ev_delivered_at x = None \<and> (ev_lease x = None \<or> (\<exists>l. ev_lease x = Some l \<and> l < now))" for x
    by (auto simp: leasable_def split: option.split)
  have before: "{x \<in> set ?xs. older x e \<and> x \<noteq> e} \<subseteq> {x \<in> set (al_events s). ev_delivered_at x = None \<and> (ev_lease x = None \<or> (\<exists>l. ev_lease x = Some l \<and> l < now)) \<and> x \<noteq> e
       \<and> (ev_fired_at x < ev_fired_at e \<or> ev_fired_at x = ev_fired_at e \<and> code_le (ev_alert x) (ev_alert e))}"
    using fired_later [of _ spent period now s] assms(4) free by (auto simp: older_def)
  have "card {x \<in> set ?xs. older x e \<and> x \<noteq> e} < BATCH"
    using card_mono [OF _ before] assms(9) by (simp add: BATCH_def)
  moreover have "e \<in> set ?xs" using e(1) assms(5,6) free by simp
  ultimately have c: "e \<in> set (candidates now ?fs)"
    using left_out_of_batch [OF e(2), of e BATCH] unfolding candidates_def by linarith
  obtain name where "map_of (al_orgs s) (ar_org rule) = Some name" using assms(8) by (metis map_of_eq_None_iff not_None_eq)
  then have "due_row_of s e \<noteq> None" by (simp add: due_row_of_def assms(7))
  with c have "claim_of e \<in> set (map due_claim rows)"
    unfolding due_rows(1) [OF assms(1)] due_rows_claims by (auto simp: rev_image_eqI)
  moreover have "length rows \<le> 100"
  proof -
    have "length (map due_claim rows) \<le> length (candidates now ?fs)"
      unfolding due_rows(1) [OF assms(1)] due_rows_claims by (simp del: length_map add: length_map)
    then show ?thesis by (simp add: candidates_def BATCH_def)
  qed
  ultimately show ?thesis using read_rows_are_leased [OF assms(1)] by (simp add: LEASE_def)
qed

section \<open>Concrete ticks\<close>

definition sample_alerts :: alerts_db where
  "sample_alerts = \<lparr>al_rules = [\<lparr>ar_id = ''a1'', ar_org = ''o1'', ar_kind = ''org_monthly_spend'', ar_threshold = Some 5000000,
     ar_budget = None, ar_fraction = None, ar_email = ''ops@acme.test''\<rparr>], al_budgets = [], al_orgs = [(''o1'', ''Acme'')],
     al_events = [], al_sent = []\<rparr>"

definition six_dollars :: "alert_rule \<Rightarrow> budget_row option \<Rightarrow> int" where "six_dollars r b = 6000000"

definition tick_at :: "int \<Rightarrow> resend_answer \<Rightarrow> tick" where
  "tick_at now answer = \<lparr>tk_now = now, tk_period = ''2026-08'', tk_today = (2026, 8, 22), tk_due_fault = None, tk_mark_fault = (\<lambda>_. None),
     tk_api_key = Some ''re_1'', tk_from = None, tk_origin = None, tk_resend = (\<lambda>_ _. answer)\<rparr>"

definition due_at :: "int \<Rightarrow> alerts_db \<Rightarrow> due_row list \<times> alerts_db" where
  "due_at now s = (case gateway_spend_alerts_due six_dollars ''2026-08'' now s of Inl e \<Rightarrow> ([], s) | Inr x \<Rightarrow> x)"

text \<open>
  A receipt does not ask whose lease it settles. A tick that overruns its lease and then fails to send marks a claim
  undelivered that another tick has delivered in the meantime, and the rule mails again in the same month, with no
  mail unaccounted for and no receipt lost.
\<close>

lemma late_failure_reopens_a_delivery:
  "let (rows, s1) = due_at 0 sample_alerts; (again, s2) = due_at 600001 s1;
       s3 = snd (deliver (tick_at 600002 Accepted) (hd again) s2);
       s4 = snd (deliver (tick_at 600003 (Refused_mail ''too many requests'')) (hd rows) s3);
       (third, s5) = due_at 600004 s4
   in al_sent s3 = [(''a1'', ''2026-08'')] \<and> map ev_delivered_at (al_events s3) = [Some 600002] \<and> map ev_delivered_at (al_events s4) = [None]
    \<and> al_sent (snd (deliver (tick_at 600005 Accepted) (hd third) s5)) = [(''a1'', ''2026-08''), (''a1'', ''2026-08'')]"
  by code_simp

definition world :: "alerts_db \<Rightarrow> claim list \<Rightarrow> delivery" where
  "world s f = \<lparr>dl_db = s, dl_flight = f, dl_lost = []\<rparr>"

theorem one_mail_witness:
  "al_sent (snd (deliver (tick_at 1 Accepted) (hd (fst (due_at 0 sample_alerts))) (snd (due_at 0 sample_alerts)))) = [(''a1'', ''2026-08'')]
   \<and> count_list (al_sent (snd (deliver (tick_at 1 Accepted) (hd (fst (due_at 0 sample_alerts))) (snd (due_at 0 sample_alerts))))) (''a1'', ''2026-08'') \<le> 1"
proof -
  let ?rows = "fst (due_at 0 sample_alerts)" and ?s = "snd (due_at 0 sample_alerts)"
  let ?r = "hd ?rows" and ?u = "snd (deliver (tick_at 1 Accepted) (hd (fst (due_at 0 sample_alerts))) (snd (due_at 0 sample_alerts)))"
  have k: "tk_now (tick_at 0 Accepted) = 0" "tk_period (tick_at 0 Accepted) = ''2026-08''" "tk_due_fault (tick_at 0 Accepted) = None"
    by (simp_all add: tick_at_def)
  have "exec (tk_due_fault (tick_at 0 Accepted)) (gateway_spend_alerts_due six_dollars (tk_period (tick_at 0 Accepted)) (tk_now (tick_at 0 Accepted))) sample_alerts
     = (Inr ?rows, ?s)"
    by (simp add: k exec_def due_at_def gateway_spend_alerts_due_def Let_def)
  moreover have "timely (world sample_alerts []) (tk_now (tick_at 0 Accepted))" by (simp add: timely_def world_def sample_alerts_def)
  ultimately have 1: "delivery_step (world sample_alerts []) (world ?s (map due_claim ?rows))"
    using delivery_step.read_due [of "world sample_alerts []" "tick_at 0 Accepted" six_dollars "Inr ?rows" ?s] by (simp add: world_def)
  have c: "map due_claim ?rows = [(''a1'', ''2026-08'')]" "due_claim ?r = (''a1'', ''2026-08'')" "unnoticed (tick_at 1 Accepted) ?r = []" by code_simp+
  have 2: "delivery_step (world ?s (map due_claim ?rows)) (world ?u [])"
    using delivery_step.send [of ?r "world ?s (map due_claim ?rows)" "tick_at 1 Accepted"] c by (simp add: world_def)
  have run: "delivery_step\<^sup>*\<^sup>* (world sample_alerts []) (world ?u [])" using 1 2 by (meson r_into_rtranclp rtranclp.rtrancl_into_rtrancl)
  have "count_list (al_sent (dl_db (world ?u []))) (''a1'', ''2026-08'') \<le> 1 + count_list (dl_lost (world ?u [])) (''a1'', ''2026-08'')"
    by (rule one_mail_per_rule_and_month [OF run])
      (simp_all add: world_def sample_alerts_def)
  moreover have "al_sent ?u = [(''a1'', ''2026-08'')]" by code_simp
  ultimately show ?thesis by (simp add: world_def)
qed

theorem owed_claims_witness:
  "due_claim ` set (fst (due_at 600001 (snd (due_at 0 sample_alerts)))) = {(''a1'', ''2026-08'')}"
proof -
  let ?s = "snd (due_at 0 sample_alerts)"
  let ?e = "hd (al_events ?s)"
  have due: "gateway_spend_alerts_due six_dollars ''2026-08'' 600001 ?s = Inr (fst (due_at 600001 ?s), snd (due_at 600001 ?s))"
    unfolding due_at_def [of 600001] by (simp add: gateway_spend_alerts_due_def Let_def)
  have e: "distinct (map claim_of (al_events ?s))" "ev_fired_at ?e < 600001" "ev_delivered_at ?e = None" "ev_lease ?e = Some 600000"
    "first_where (\<lambda>r. ar_id r = ev_alert ?e) (al_rules ?s) = Some (hd (al_rules sample_alerts))" "claim_of ?e = (''a1'', ''2026-08'')"
    "map fst (al_orgs ?s) = [''o1'']" "ar_org (hd (al_rules sample_alerts)) = ''o1''" "length (al_events ?s) = 1"
    "length (fst (due_at 600001 ?s)) = 1" by code_simp+
  from e(9) have es: "al_events ?s = [?e]" by (cases "al_events ?s") auto
  then have in_s: "?e \<in> set (al_events ?s)" by (metis list.set_intros(1))
  have free: "ev_lease ?e = None \<or> (\<exists>l. ev_lease ?e = Some l \<and> l < 600001)" using e(4) by simp
  have org: "ar_org (hd (al_rules sample_alerts)) \<in> fst ` set (al_orgs ?s)" using e(7,8) by (metis list.set_intros(1) list.set_map)
  have none: "{x \<in> set (al_events ?s). ev_delivered_at x = None \<and> (ev_lease x = None \<or> (\<exists>l. ev_lease x = Some l \<and> l < 600001)) \<and> x \<noteq> ?e
      \<and> (ev_fired_at x < ev_fired_at ?e \<or> ev_fired_at x = ev_fired_at ?e \<and> code_le (ev_alert x) (ev_alert ?e))} = {}"
    using es by (metis (mono_tags, lifting) Collect_empty_eq list.set(1) list.set(2) singletonD)
  from owed_claims_are_read [OF due e(1) in_s e(2,3) free e(5) org]
  have "claim_of ?e \<in> due_claim ` set (fst (due_at 600001 ?s))" unfolding none by simp
  then show ?thesis using e(6,10) by (auto simp: length_Suc_conv)
qed

theorem dry_run_witness:
  "al_sent (snd (spend_alerts_POST id (Some ''s3cret'') (Some ''Bearer s3cret'') True six_dollars (tick_at 0 Accepted) sample_alerts)) = []"
proof -
  let ?run = "spend_alerts_POST id (Some ''s3cret'') (Some ''Bearer s3cret'') True six_dollars (tick_at 0 Accepted) sample_alerts"
  have run: "?run = (fst ?run, snd ?run)" by simp
  have due: "exec (tk_due_fault (tick_at 0 Accepted)) (gateway_spend_alerts_due six_dollars (tk_period (tick_at 0 Accepted)) (tk_now (tick_at 0 Accepted))) sample_alerts
     = (Inr (fst (due_at 0 sample_alerts)), snd (due_at 0 sample_alerts))"
    by (simp add: tick_at_def exec_def due_at_def gateway_spend_alerts_due_def Let_def)
  have "bearerMatchesCronSecret id (Some ''s3cret'') (Some ''Bearer s3cret'')" by code_simp
  moreover have "\<forall>r\<in>set (fst (due_at 0 sample_alerts)). tk_mark_fault (tick_at 0 Accepted) (due_claim r) = None" by (simp add: tick_at_def)
  ultimately have "al_sent (snd ?run) = al_sent sample_alerts" using dry_run_leaves_claims_free [OF run due] by blast
  then show ?thesis by (simp add: sample_alerts_def)
qed

end
