(* ===== verification/Client_Store.thy ===== *)
theory Client_Store
  imports Prelude
begin

text \<open>
  The browser's one cache of the key pages, \<open>components/keys/store.ts\<close>: an entry per read, refreshed on its first
  subscriber and after every mutation. A read of the server is answered at some moment between its start and its
  arrival; a mutation is a write at the server and, once its answer is back, a refresh of the reads it touches.
\<close>

section \<open>Entries\<close>

record 'a snapshot =
  sp_data :: "'a option"
  sp_error :: "string option"
  sp_loading :: bool

definition IDLE_SNAPSHOT :: "'a snapshot" where
  "IDLE_SNAPSHOT = \<lparr>sp_data = None, sp_error = None, sp_loading = False\<rparr>"

definition untouched :: "'a snapshot \<Rightarrow> bool" where
  "untouched e \<longleftrightarrow> sp_data e = None \<and> sp_error e = None \<and> \<not> sp_loading e"

text \<open>\<open>entryFor\<close>: a new entry starts from the data the server rendered, an entry that was never loaded takes it.\<close>

definition entryFor :: "string \<Rightarrow> 'a option \<Rightarrow> (string, 'a snapshot) jsmap \<Rightarrow> (string, 'a snapshot) jsmap" where
  "entryFor key initialData entries =
     (case map_get entries key of
        None \<Rightarrow> map_set key \<lparr>sp_data = initialData, sp_error = None, sp_loading = False\<rparr> entries
      | Some e \<Rightarrow> if initialData \<noteq> None \<and> untouched e
                  then map_set key \<lparr>sp_data = initialData, sp_error = None, sp_loading = False\<rparr> entries else entries)"

text \<open>\<open>refreshEntry\<close>: nothing while a load runs; otherwise the entry loads, and the load's outcome replaces it.\<close>

definition start_load :: "'a snapshot \<Rightarrow> 'a snapshot" where
  "start_load e = (if sp_loading e then e else e\<lparr>sp_loading := True\<rparr>)"

definition end_load :: "string + 'a \<Rightarrow> 'a snapshot \<Rightarrow> 'a snapshot" where
  "end_load r e =
     (case r of
        Inr data \<Rightarrow> \<lparr>sp_data = Some data, sp_error = None, sp_loading = False\<rparr>
      | Inl err \<Rightarrow> \<lparr>sp_data = sp_data e, sp_error = Some err, sp_loading = False\<rparr>)"

definition refreshMatching :: "string \<Rightarrow> (string, 'a snapshot) jsmap \<Rightarrow> (string, 'a snapshot) jsmap" where
  "refreshMatching prefix entries = map (\<lambda>(k, e). (k, if startsWith k prefix then start_load e else e)) entries"

text \<open>\<open>subscribe\<close>: the first subscriber of an untouched entry loads it.\<close>

definition subscribe :: "'a snapshot \<Rightarrow> 'a snapshot" where
  "subscribe e = (if untouched e then start_load e else e)"

lemma refreshMatching_get: "map_get (refreshMatching prefix es) k = map_option (\<lambda>e. if startsWith k prefix then start_load e else e) (map_get es k)"
  by (induction es) (auto simp: refreshMatching_def)

section \<open>One entry and its server\<close>

text \<open>
  \<open>vw_answer\<close> is the value the server gave the running load, once it did; \<open>vw_notices\<close> counts the writes whose refresh is
  still to come.
\<close>

record 'a view =
  vw_server :: 'a
  vw_entry :: "'a snapshot"
  vw_answer :: "'a option"
  vw_notices :: nat

inductive view_step :: "'a view \<Rightarrow> 'a view \<Rightarrow> bool" where
  mount: "view_step w (w\<lparr>vw_entry := subscribe (vw_entry w)\<rparr>)"
| answer: "sp_loading (vw_entry w) \<Longrightarrow> vw_answer w = None \<Longrightarrow> view_step w (w\<lparr>vw_answer := Some (vw_server w)\<rparr>)"
| arrive: "vw_answer w = Some x \<Longrightarrow> view_step w (w\<lparr>vw_entry := end_load (Inr x) (vw_entry w), vw_answer := None\<rparr>)"
| failed: "sp_loading (vw_entry w) \<Longrightarrow> view_step w (w\<lparr>vw_entry := end_load (Inl err) (vw_entry w), vw_answer := None\<rparr>)"
| written: "view_step w (w\<lparr>vw_server := x, vw_notices := Suc (vw_notices w)\<rparr>)"
| notice: "vw_notices w = Suc n \<Longrightarrow> view_step w (w\<lparr>vw_entry := start_load (vw_entry w), vw_notices := n\<rparr>)"

text \<open>A step that does not refresh an entry while it is loading.\<close>

definition calm_step :: "'a view \<Rightarrow> 'a view \<Rightarrow> bool" where
  "calm_step w v \<longleftrightarrow> view_step w v \<and> (vw_notices v < vw_notices w \<longrightarrow> \<not> sp_loading (vw_entry w))"

definition settled_view :: "'a view \<Rightarrow> bool" where
  "settled_view w \<longleftrightarrow> vw_notices w = 0 \<and> \<not> sp_loading (vw_entry w) \<and> sp_error (vw_entry w) = None"

definition view_inv :: "'a view \<Rightarrow> bool" where
  "view_inv w \<longleftrightarrow> (vw_answer w \<noteq> None \<longrightarrow> sp_loading (vw_entry w))
     \<and> (vw_notices w = 0 \<longrightarrow> (vw_answer w = None \<or> vw_answer w = Some (vw_server w))
          \<and> (\<not> sp_loading (vw_entry w) \<longrightarrow> sp_error (vw_entry w) = None \<longrightarrow> sp_data (vw_entry w) = None \<or> sp_data (vw_entry w) = Some (vw_server w)))"

lemma view_inv_step:
  assumes "calm_step w v" and "view_inv w"
  shows "view_inv v"
proof -
  have s: "view_step w v" and calm: "vw_notices v < vw_notices w \<Longrightarrow> \<not> sp_loading (vw_entry w)"
    using assms(1) by (simp_all add: calm_step_def)
  from s show ?thesis
  proof (cases rule: view_step.cases)
    case (notice n)
    then show ?thesis using assms(2) calm by (auto simp: view_inv_def start_load_def)
  qed (use assms(2) in \<open>auto simp: view_inv_def subscribe_def start_load_def end_load_def untouched_def\<close>)
qed


section \<open>A refresh that is dropped\<close>

definition page_opened :: "string view" where
  "page_opened = \<lparr>vw_server = ''old'', vw_entry = IDLE_SNAPSHOT, vw_answer = None, vw_notices = 0\<rparr>"

text \<open>
  A mutation that reports back while the entry loads is not followed by a refresh: the load that was answered before the
  write arrives, and the page rests on the old data, with no error and nothing under way.
\<close>

lemma a_dropped_refresh_leaves_stale_data:
  "\<exists>v. view_step\<^sup>*\<^sup>* page_opened v \<and> settled_view v \<and> sp_data (vw_entry v) = Some ''old'' \<and> vw_server v = ''new''"
proof -
  let ?busy = "\<lparr>sp_data = None, sp_error = None, sp_loading = True\<rparr> :: string snapshot"
  let ?v1 = "page_opened\<lparr>vw_entry := ?busy\<rparr>"
  let ?v2 = "?v1\<lparr>vw_answer := Some ''old''\<rparr>"
  let ?v3 = "?v2\<lparr>vw_server := ''new'', vw_notices := 1\<rparr>"
  let ?v4 = "?v3\<lparr>vw_notices := 0\<rparr>"
  let ?v5 = "?v4\<lparr>vw_entry := \<lparr>sp_data = Some ''old'', sp_error = None, sp_loading = False\<rparr>, vw_answer := None\<rparr>"
  have "view_step page_opened ?v1" using view_step.mount [of page_opened] by (simp add: page_opened_def subscribe_def untouched_def start_load_def IDLE_SNAPSHOT_def)
  moreover have "view_step ?v1 ?v2" using view_step.answer [of ?v1] by (simp add: page_opened_def)
  moreover have "view_step ?v2 ?v3" using view_step.written [of ?v2 "''new''"] by (simp add: page_opened_def)
  moreover have "view_step ?v3 ?v4" using view_step.notice [of ?v3 0] by (simp add: page_opened_def start_load_def)
  moreover have "view_step ?v4 ?v5" using view_step.arrive [of ?v4 "''old''"] by (simp add: page_opened_def end_load_def)
  ultimately have "view_step\<^sup>*\<^sup>* page_opened ?v5" by (meson r_into_rtranclp rtranclp.rtrancl_into_rtrancl)
  then show ?thesis by (intro exI [of _ ?v5]) (simp add: settled_view_def page_opened_def)
qed


end
