(* ===== verification/Spec2Isabelle.thy ===== *)
theory Spec2Isabelle
  imports Money Audit_Trail Org_Access Members Api_Keys Spend_Unlock Blind_Actions Billing Credit_Ledger Recharge Stripe_Webhook Rate_Limit Redirects Number_Text Base64 Auth_Flows Password_Recovery Oauth_Callback Operators
    Number_String Json_Text Sse Playground Calendar Catalog Catalog_Views Model_Params Usage Proxy
    Model_Providers Vault_Store Connections Connection_Views Spend_Alerts Client_Store
begin

text \<open>
  Verification library of the web application of the repository (\<open>src/apps/web\<close>, TypeScript): the
  control plane of a model gateway, where people sign in, organizations and their members are
  managed, API keys are minted, and credit is bought and unlocked. The model proxy itself and the
  \<open>/api\<close> backend it talks to are Python and not modelled.

  \<^bold>\<open>How the program is put together.\<close> A request reaches a route handler (\<open>app/**/route.ts\<close>, one exported
  function per method). The handler asks a gate of \<open>lib/auth/\<close> who is calling, reads and checks its
  payload, talks to the database through the service-role client, to GoTrue (accounts and sessions),
  to Stripe and to the mail sender, and answers JSON or a redirect. State lives in the database, in
  process memory (the single sign-on cache, the abuse counters) and at those services.

  \<^bold>\<open>How it is modelled.\<close> \<open>Database\<close> has one record \<open>db\<close> with a field per table or store and one row record
  per table; a handler is an action \<open>db \<Rightarrow> (app_error + 'a) \<times> db\<close>, composed with \<open>bind\<close>, \<open>catching\<close>
  (\<open>try ... catch\<close>) and early returns, so every throw and every early return of the source is a branch.
  A call to the database is \<open>call e q\<close>: the environment \<open>env\<close> decides, call by call, whether the call
  succeeds, is refused before its effect or loses its answer after it, so every theorem about a
  handler is a theorem for every pattern of database faults. Requests are steps; an interleaving or a
  sequence of requests is a step relation, and a statement for all histories is about its reflexive
  transitive closure. Strings are ASCII lists of characters, JSON values the datatype \<open>json\<close>, numbers
  IEEE doubles (\<open>Js_Number\<close>), money in the ledger exact micro-dollar integers.

  \<^bold>\<open>Theories and code.\<close>
  \<^item> \<open>Prelude\<close>: JavaScript's string and \<open>Map\<close> functions, table updates, the rule collections.
  \<^item> \<open>Js_Number\<close>, \<open>Number_Text\<close>, \<open>Base64\<close>: IEEE doubles with rounding to nearest, \<open>toFixed\<close> and
    \<open>toLocaleString\<close>; \<open>Number(text)\<close>; base64url on \<open>8 word\<close> bytes with its round trip.
  \<^item> \<open>Money\<close>: \<open>lib/money.ts\<close>. \<open>Http\<close>: \<open>lib/errors.ts\<close>, \<open>lib/http.ts\<close>. \<open>Database\<close>: the state above.
  \<^item> \<open>Audit_Trail\<close>: \<open>lib/audit.ts\<close>, redaction and recording.
  \<^item> \<open>Org_Access\<close>: \<open>lib/auth/{claims,server,admin,orgs,org-access,admin-orgs}.ts\<close>, \<open>lib/active-org.ts\<close>, \<open>lib/data-cache.ts\<close>;
    locale \<open>org_gate\<close> (what a handler may rely on behind the gate, interpreted by \<open>requireOrgAccess\<close>)
    and locale \<open>table_invariant\<close> (an invariant that only some tables carry is kept by every action that
    leaves those tables alone), interpreted for the key, member and ban invariants.
  \<^item> \<open>Members\<close>: members, invitations and moves, \<open>lib/members/manage.ts\<close>, \<open>lib/admin/invit*.ts\<close> and their routes.
  \<^item> \<open>Api_Keys\<close>: \<open>lib/api-keys/\<close> and the routes that mint, edit, rotate, revoke and hand over keys.
  \<^item> \<open>Spend_Unlock\<close>: \<open>lib/auth/{spend-unlock,signup-gate}.ts\<close>.
  \<^item> \<open>Blind_Actions\<close>: non-interference for actions, with locale \<open>gate_blind\<close>; \<open>Billing\<close>: \<open>lib/billing/stripe.ts\<close>,
    \<open>constants.ts\<close>, the auto-recharge settings and the checkout route.
  \<^item> \<open>Credit_Ledger\<close>: the ledger and the SQL functions of the payments, locale \<open>idempotent_posting\<close>;
    \<open>Recharge\<close>: \<open>lib/billing/auto-recharge.ts\<close> and its route, locale \<open>recharge_frame\<close>;
    \<open>Stripe_Webhook\<close>: \<open>app/api/stripe/webhook/route.ts\<close>.
  \<^item> \<open>Rate_Limit\<close>: \<open>lib/auth/signup-rate-limit.ts\<close>, locale \<open>sliding_window\<close> interpreted for its three counters;
    \<open>Redirects\<close>: \<open>lib/auth/redirects.ts\<close>.
  \<^item> \<open>Auth_Flows\<close>, \<open>Password_Recovery\<close>, \<open>Oauth_Callback\<close>: the routes of \<open>app/auth/\<close>, \<open>app/api/signup/instant\<close>,
    \<open>lib/auth/{verification,signin-methods,password,password-recovery}.ts\<close>, \<open>lib/email/resend.ts\<close>.
  \<^item> \<open>Operators\<close>: bans of accounts and organizations, operator status and operator keys.
  \<^item> \<open>Proxy\<close>: \<open>proxy.ts\<close> with \<open>lib/auth/{cookies,config}.ts\<close>, over \<open>Url_Query\<close> (\<open>URLSearchParams\<close>).
  \<^item> \<open>Number_String\<close>, \<open>Json_Text\<close>: \<open>String(number)\<close>, \<open>JSON.stringify\<close> and \<open>JSON.parse\<close>, with their round trips.
  \<^item> \<open>Sse\<close>: \<open>lib/sse.ts\<close>; \<open>Playground\<close>: \<open>lib/playground/{chat-events,dispatch}.ts\<close> and the chat route;
    \<open>Model_Params\<close>: the parameter rail, \<open>lib/playground/model-params.ts\<close>.
  \<^item> \<open>Stable_Sort\<close> (\<open>Array.prototype.sort\<close>, locale \<open>ranking\<close> interpreted for the promotions and the days),
    \<open>Calendar\<close> (UTC days), \<open>Catalog\<close> and \<open>Catalog_Views\<close>: \<open>lib/models-catalog/\<close> and the catalog's filters;
    \<open>Usage\<close>: \<open>lib/gateway-usage.ts\<close> and the number formatters of \<open>lib/format.ts\<close>.
  \<^item> \<open>Model_Providers\<close>: \<open>lib/{model-providers,provider-fields}.ts\<close> and the payload of the connect form;
    \<open>Vault_Store\<close>: the vault and the SQL functions of the stored connections, with their invariant;
    \<open>Connections\<close>: the routes \<open>provider-connections/[provider]\<close> and \<open>connections/[kind]\<close>, on the locales
    \<open>table_invariant\<close> and \<open>gate_blind\<close>; \<open>Connection_Views\<close>: \<open>lib/provider-connections.ts\<close>, the list route,
    \<open>components/keys/provider-meta.ts\<close> and the connect request of \<open>components/keys/store.ts\<close>;
    \<open>Client_Store\<close>: the cache of that file as a state machine of loads, writes and refreshes.
  \<^item> \<open>Spend_Alerts\<close>: \<open>app/api/internal/spend-alerts/route.ts\<close>, \<open>lib/billing/spend-alert-email.ts\<close>, \<open>lib/auth/cron.ts\<close> and
    the SQL functions they call, with its own state (\<open>alerts_db\<close>) and a step relation of overlapping ticks.

  \<^bold>\<open>What the theorems show.\<close> Access: a request passes the gate only with a verified session of a member or
  operator of the organization, single sign-on binds within the cache's lifetime, only
  administrators change members, no organization loses its last administrator through settled
  requests. Keys: minting and rotation disclose a secret exactly when they stored its digest, a failed
  rotation leaves no orphan, a revoked key never authenticates. Money: no payment is credited twice,
  an acknowledged payment is in the ledger, at most one recharge of an organization is in flight, a
  run charges exactly what was queued. Sign-in: attempts and mails stay within their budgets, a reset
  sets a password only behind its link, tickets round-trip and are bound to account and session, the
  callback seats and deletes exactly whom it may. Bans: no live key, open invitation or operator key
  of a banned organization or account in any reachable state. Display: no formatter shows a priced
  amount as free. Playground: every finite stream is read to its end and yields the events written to it,
  an exchange ends in one closing event and leaves no live key unless its revocation was refused, the
  parameters that pass are typed and the rail's reach the gateway. Catalog and usage: the shown price is
  the best payable one, the daily series is exactly the range and the stacks add up to it. Middleware: a
  gated path is answered only to a session, and sign-in leads back to the page asked for. Connections:
  every secret has one owner in every reachable state, an answer reveals four characters of a key, a
  disconnect forgets all of it, the list is the organization's own. Alerts: one mail per rule and month unless a
  mail or its receipt went unnoticed, and no owed mail is skipped. Theorems about a behaviour that contradicts a comment of the code are recorded with
  it among the findings.

  \<^bold>\<open>Bounds and fuel.\<close> Recursion is structural, on a list or with a measure, so no definition needs fuel; the two
  loops of the code that are bounded only by their data, the event reader's inner loop (\<open>drain\<close>) and the
  walk over days (\<open>day_loop\<close>), are \<open>partial_function (option)\<close> and proved to return; the counters
  of \<open>Rate_Limit\<close>, the cache lifetime, the ticket lifetime and the amount limits are the constants of the
  code. Random values, hashes, signatures and the clock are parameters (\<open>env\<close> and arguments), with
  their documented behaviour as named hypotheses where a theorem relies on it (a mint draws a fresh
  secret; the HMAC of two messages agrees only if they do).

  \<^bold>\<open>Not modelled.\<close> React components and pages, the proxy client of \<open>lib/backend-source.ts\<close>
  (it calls the Python \<open>/api\<close>), the popularity score of \<open>lib/models-catalog/ranking.ts\<close> (logarithms and
  square roots of doubles, \<open>localeCompare\<close>), the locale-dependent dates and most labels of \<open>lib/format.ts\<close>, the remaining
  administration and organization routes (alert rules, tool accounts, identities, budgets, domains), the
  e-mail templates, the generated documentation and setup prompts, demo telemetry data, \<open>lib/types.ts\<close>
  beyond the types used, the Python packages, infrastructure, and the SQL migrations other than the
  functions named above.
\<close>

end
